(* ===== verification/J2H_Prelude.thy ===== *)
theory J2H_Prelude
  imports Main "HOL-Library.Word"
begin

text \<open>
  Shared ground of the development: the machine integers of
  \<^verbatim>\<open>visitor.h\<close>, the status codes, the allocator parameter, big endian
  encodings of the three unsigned widths, and the facts on words and naturals
  the components share.

  Conventions used by every theory:
  \<^item> \<open>u1\<close>, \<open>u2\<close>, \<open>u4\<close> are words of 8, 16 and 32 bits; a struct field keeps
    its width. \<open>i4\<close> (a C \<open>int32_t\<close>) is an \<^typ>\<open>int\<close> with every narrowing
    written out by \<open>i4_wrap\<close>. \<open>size_t\<close> is a \<^typ>\<open>nat\<close>.
  \<^item> \<open>malloc\<close>, \<open>calloc\<close> and \<open>realloc\<close> are a parameter \<open>mem\<close> of the
    definitions that allocate: \<open>mem k n\<close> says whether a request for \<open>n\<close>
    elements of kind \<open>k\<close> succeeds. No theorem assumes more of it than it says.
  \<^item> a routine whose partial result is freed on failure returns
    \<open>Inl status\<close> or \<open>Inr result\<close>; a routine that leaves its argument changed
    even when it fails returns the status together with the new state.
\<close>

unbundle bit_operations_syntax

named_theorems spans_intro \<open>what a read that succeeded consumed\<close>
named_theorems emits_intro \<open>what a writer appends to its buffer\<close>

section \<open>Machine integers and status codes\<close>

type_synonym u1 = "8 word"
type_synonym u2 = "16 word"
type_synonym u4 = "32 word"
type_synonym i4 = int

definition i4_wrap :: "int \<Rightarrow> i4" where
  "i4_wrap x = signed_take_bit 31 x"

definition i4_range :: "int \<Rightarrow> bool" where
  "i4_range x \<longleftrightarrow> - (2 ^ 31) \<le> x \<and> x < 2 ^ 31"

datatype classfile_status =
    CLASSFILE_OK
  | CLASSFILE_ERR_TRUNCATED
  | CLASSFILE_ERR_MAGIC
  | CLASSFILE_ERR_VERSION
  | CLASSFILE_ERR_CONSTANT_TAG
  | CLASSFILE_ERR_CONSTANT_INDEX
  | CLASSFILE_ERR_TRAILING_BYTES
  | CLASSFILE_ERR_LIMIT_EXCEEDED
  | CLASSFILE_ERR_OUT_OF_MEMORY
  | CLASSFILE_ERR_OPCODE
  | CLASSFILE_ERR_BAD_OFFSET
  | CLASSFILE_ERR_BRANCH_RANGE
  | CLASSFILE_ERR_CODE_TOO_LARGE
  | CLASSFILE_ERR_UNSUPPORTED

definition CLASSFILE_MAX_COUNT :: nat where
  "CLASSFILE_MAX_COUNT = 0xFFFF"

definition JVM_MAX_CODE_LENGTH :: nat where
  "JVM_MAX_CODE_LENGTH = 65535"

text \<open>Evaluation compares with the limits as integers, not as unary naturals.\<close>

lemma limit_code [code_unfold]:
  "CLASSFILE_MAX_COUNT < n \<longleftrightarrow> 65535 < int n" "n \<le> CLASSFILE_MAX_COUNT \<longleftrightarrow> int n \<le> 65535"
  "JVM_MAX_CODE_LENGTH < n \<longleftrightarrow> 65535 < int n" "n \<le> JVM_MAX_CODE_LENGTH \<longleftrightarrow> int n \<le> 65535"
  "int JVM_MAX_CODE_LENGTH = 65535"
  by (simp_all add: CLASSFILE_MAX_COUNT_def JVM_MAX_CODE_LENGTH_def)

fun classfile_status_message :: "classfile_status \<Rightarrow> string" where
  "classfile_status_message CLASSFILE_OK = ''ok''"
| "classfile_status_message CLASSFILE_ERR_TRUNCATED = ''class file truncated''"
| "classfile_status_message CLASSFILE_ERR_MAGIC = ''bad magic, not a class file''"
| "classfile_status_message CLASSFILE_ERR_VERSION = ''unsupported class file version''"
| "classfile_status_message CLASSFILE_ERR_CONSTANT_TAG = ''unknown constant pool tag''"
| "classfile_status_message CLASSFILE_ERR_CONSTANT_INDEX = ''constant pool index out of range''"
| "classfile_status_message CLASSFILE_ERR_TRAILING_BYTES = ''extra bytes after end of class file''"
| "classfile_status_message CLASSFILE_ERR_LIMIT_EXCEEDED = ''class file limit exceeded''"
| "classfile_status_message CLASSFILE_ERR_OUT_OF_MEMORY = ''out of memory''"
| "classfile_status_message CLASSFILE_ERR_OPCODE = ''reserved or unknown opcode in the code array''"
| "classfile_status_message CLASSFILE_ERR_BAD_OFFSET = ''the offset is not an instruction boundary''"
| "classfile_status_message CLASSFILE_ERR_BRANCH_RANGE = ''a branch no longer reaches its target''"
| "classfile_status_message CLASSFILE_ERR_CODE_TOO_LARGE = ''the method body exceeds 65535 bytes''"
| "classfile_status_message CLASSFILE_ERR_UNSUPPORTED = ''the structure cannot be written back''"

text \<open>The status codes of the public interface, \<^verbatim>\<open>jni2hook.h\<close>.\<close>

datatype jni2hook_status =
    JNI2HOOK_OK
  | JNI2HOOK_ERR_NOT_INITIALIZED
  | JNI2HOOK_ERR_NO_JNI
  | JNI2HOOK_ERR_NO_JVMTI
  | JNI2HOOK_ERR_CAPABILITIES
  | JNI2HOOK_ERR_JVMTI
  | JNI2HOOK_ERR_JNI
  | JNI2HOOK_ERR_JAVA_EXCEPTION
  | JNI2HOOK_ERR_CLASS_NOT_CACHED
  | JNI2HOOK_ERR_CLASS_FILE
  | JNI2HOOK_ERR_TRANSFORM
  | JNI2HOOK_ERR_ALREADY_HOOKED
  | JNI2HOOK_ERR_NOT_HOOKED
  | JNI2HOOK_ERR_INVALID_PATTERN
  | JNI2HOOK_ERR_NOT_FOUND
  | JNI2HOOK_ERR_OUT_OF_MEMORY

section \<open>The allocator parameter\<close>

datatype alloc_kind =
    Alloc_bytes | Alloc_cp_info | Alloc_u2 | Alloc_attribute_info | Alloc_member_info
  | Alloc_exception_entry | Alloc_ClassFile | Alloc_instruction | Alloc_i4
  | Alloc_switch_pair | Alloc_verification_type | Alloc_stack_map_frame
  | Alloc_line_number_entry | Alloc_local_variable_entry | Alloc_type_annotation_ref
  | Alloc_method_info | Alloc_cached_class | Alloc_method_watch | Alloc_trace_state | Alloc_u4
  | Alloc_pointer | Alloc_hooked_class | Alloc_hook_entry | Alloc_jvmtiError

type_synonym alloc = "alloc_kind \<Rightarrow> nat \<Rightarrow> bool"

definition alloc_total :: "alloc \<Rightarrow> bool" where
  "alloc_total mem \<longleftrightarrow> (\<forall>k n. mem k n)"

definition heap_ok :: alloc where
  "heap_ok = (\<lambda>_ _. True)"

lemma alloc_total_heap_ok [simp]: "alloc_total heap_ok"
  by (simp add: alloc_total_def heap_ok_def)

lemma heap_ok_simp [simp]: "heap_ok k n"
  by (simp add: heap_ok_def)

section \<open>Big endian encodings\<close>

definition be1 :: "u1 \<Rightarrow> u1 list" where
  "be1 v = [v]"

definition be2 :: "u2 \<Rightarrow> u1 list" where
  "be2 v = [ucast (drop_bit 8 v), ucast (v AND 0xFF)]"

definition be4 :: "u4 \<Rightarrow> u1 list" where
  "be4 v = [ucast (drop_bit 24 v), ucast (drop_bit 16 v), ucast (drop_bit 8 v),
            ucast (v AND 0xFF)]"

definition get2 :: "u1 \<Rightarrow> u1 \<Rightarrow> u2" where
  "get2 a b = push_bit 8 (ucast a) OR ucast b"

definition get4 :: "u1 \<Rightarrow> u1 \<Rightarrow> u1 \<Rightarrow> u1 \<Rightarrow> u4" where
  "get4 a b c d = push_bit 24 (ucast a) OR push_bit 16 (ucast b) OR push_bit 8 (ucast c) OR
                  ucast d"

lemma length_be [simp]:
  "length (be1 x) = 1" "length (be2 y) = 2" "length (be4 z) = 4"
  by (simp_all add: be1_def be2_def be4_def)

lemma be_not_Nil [simp]: "be1 x \<noteq> []" "be2 y \<noteq> []" "be4 z \<noteq> []"
  by (simp_all add: be1_def be2_def be4_def)

lemma mask8: "(0xFF :: 'a::len word) = mask 8"
  by (simp add: mask_eq_exp_minus_1)

lemma bit_u1_beyond: "8 \<le> n \<Longrightarrow> \<not> bit (x :: u1) n"
  by (auto dest: bit_imp_le_length)

lemma be2_get2: "be2 (get2 a b) = [a, b]"
  unfolding be2_def get2_def mask8
  by (auto intro!: bit_word_eqI simp: bit_simps bit_u1_beyond)

lemma get2_be2: "get2 (ucast (drop_bit 8 v)) (ucast (v AND 0xFF)) = v"
  unfolding get2_def mask8
  by (rule bit_word_eqI) (auto simp: bit_simps)

lemma be4_get4: "be4 (get4 a b c d) = [a, b, c, d]"
  unfolding be4_def get4_def mask8
  by (auto intro!: bit_word_eqI simp: bit_simps bit_u1_beyond)

lemma get4_be4:
  "get4 (ucast (drop_bit 24 v)) (ucast (drop_bit 16 v)) (ucast (drop_bit 8 v))
        (ucast (v AND 0xFF)) = v"
proof (rule bit_word_eqI)
  fix n assume "n < LENGTH(32)"
  then consider "n < 8" | "8 \<le> n" "n < 16" | "16 \<le> n" "n < 24" | "24 \<le> n" "n < 32"
    by fastforce
  then show "bit (get4 (ucast (drop_bit 24 v)) (ucast (drop_bit 16 v)) (ucast (drop_bit 8 v))
        (ucast (v AND 0xFF))) n = bit v n"
    unfolding get4_def mask8 by cases (auto simp: bit_simps)
qed

definition un2 :: "u1 list \<Rightarrow> u2" where
  "un2 bs = get2 (bs ! 0) (bs ! 1)"

definition un4 :: "u1 list \<Rightarrow> u4" where
  "un4 bs = get4 (bs ! 0) (bs ! 1) (bs ! 2) (bs ! 3)"

lemma un2_be2 [simp]: "un2 (be2 v) = v"
  by (simp add: un2_def be2_def get2_be2)

lemma un4_be4 [simp]: "un4 (be4 v) = v"
  by (simp add: un4_def be4_def get4_be4 numeral_2_eq_2 numeral_3_eq_3)

lemma be2_inject [simp]: "be2 v = be2 w \<longleftrightarrow> v = w"
  by (metis un2_be2)

lemma be4_inject [simp]: "be4 v = be4 w \<longleftrightarrow> v = w"
  by (metis un4_be4)

section \<open>Words, casts and naturals\<close>

lemma unat_u2_less [simp]: "unat (x :: u2) < 65536"
  using unsigned_less [of x] by simp

lemma unat_u1_less [simp]: "unat (x :: u1) < 256"
  using unsigned_less [of x] by simp

lemma unat_u4_less [simp]: "unat (x :: u4) < 4294967296"
  using unsigned_less [of x] by simp

lemma unat_u2_le [simp]: "unat (x :: u2) \<le> 65535"
  using unat_u2_less [of x] by linarith

lemma unat_of_nat_u2 [simp]: "n < 65536 \<Longrightarrow> unat (of_nat n :: u2) = n"
  by (simp add: unat_of_nat take_bit_nat_eq_self)

lemma unat_of_nat_u1 [simp]: "n < 256 \<Longrightarrow> unat (of_nat n :: u1) = n"
  by (simp add: unat_of_nat take_bit_nat_eq_self)

lemma unat_of_nat_u4 [simp]: "n < 4294967296 \<Longrightarrow> unat (of_nat n :: u4) = n"
  by (simp add: unat_of_nat take_bit_nat_eq_self)

lemma of_nat_unat_u2 [simp]: "(of_nat (unat x) :: u2) = x"
  by simp


section \<open>Signed values\<close>

text \<open>A wrapped \<open>i4\<close> is the signed reading of the 32-bit word, so congruences decide it.\<close>

lemma i4_wrap_word: "i4_wrap x = sint (of_int x :: u4)"
  unfolding i4_wrap_def by transfer simp

lemma of_int_i4_wrap [simp]: "(of_int (i4_wrap x) :: u4) = of_int x"
  by (simp add: i4_wrap_word)

lemma of_int_sint_u4 [simp]: "(of_int (sint x) :: u4) = x"
  by simp

lemma of_int_uint_u4 [simp]: "(of_int (uint x) :: u4) = x"
  by simp

lemma i4_wrap_cong: "(of_int x :: u4) = of_int y \<Longrightarrow> i4_wrap x = i4_wrap y"
  by (simp add: i4_wrap_word)

lemma i4_range_wrap [simp]: "i4_range (i4_wrap x)"
  using signed_take_bit_int_greater_eq_minus_exp [of 31 x] signed_take_bit_int_less_exp [of 31 x]
  by (simp add: i4_range_def i4_wrap_def)

lemma i4_wrap_id: "i4_range x \<Longrightarrow> i4_wrap x = x"
  by (simp add: i4_range_def i4_wrap_def signed_take_bit_int_eq_self)

lemma i4_range_sint [simp]: "i4_range (sint (x :: u4))"
  using sint_range_size [of x] by (simp add: i4_range_def word_size)

lemma of_int_u2_wrap [simp]: "(of_int (i4_wrap x) :: u2) = of_int x"
  by (simp add: i4_wrap_def word_of_int_eq_iff take_bit_signed_take_bit)

lemma sint_of_int_u2: "- 32768 \<le> x \<Longrightarrow> x \<le> 32767 \<Longrightarrow> sint (of_int x :: u2) = x"
  by transfer (simp add: signed_take_bit_int_eq_self)

lemma sint_of_int_u1: "- 128 \<le> x \<Longrightarrow> x \<le> 127 \<Longrightarrow> sint (of_int x :: u1) = x"
  by transfer (simp add: signed_take_bit_int_eq_self)

lemma sint_u2_bounds: "- 32768 \<le> sint (x :: u2)" "sint (x :: u2) \<le> 32767"
  using sint_range_size [of x] by (simp_all add: word_size)

lemma sint_u1_bounds: "- 128 \<le> sint (x :: u1)" "sint (x :: u1) \<le> 127"
  using sint_range_size [of x] by (simp_all add: word_size)

lemma unat_ucast_u1 [simp]: "unat (ucast (x :: u1) :: u2) = unat x"
proof -
  have "unat x < 2 ^ 16" by (rule less_trans [OF unat_u1_less]) simp
  then show ?thesis by (simp add: unsigned_ucast_eq take_bit_nat_eq_self)
qed

lemma ucast_ucast_u1: "unat (x :: u2) < 256 \<Longrightarrow> (ucast (ucast x :: u1) :: u2) = x"
  by (rule unsigned_word_eqI [where 'a = nat]) (simp add: unsigned_ucast_eq unsigned_take_bit_eq take_bit_nat_eq_self)

lemma ucast_u1_u2_u1 [simp]: "(ucast (ucast (x :: u1) :: u2) :: u1) = x"
  by (rule bit_word_eqI) (simp add: bit_simps)

end
