(* ===== verification/Growable.thy ===== *)
theory Growable
  imports J2H_Prelude
begin

text \<open>
  The counted, growable array behind \<^verbatim>\<open>attribute_list\<close>, \<^verbatim>\<open>member_list\<close>,
  \<^verbatim>\<open>interface_list\<close>, \<^verbatim>\<open>exception_table\<close> and \<^verbatim>\<open>type_annotation_refs\<close>: the
  C structs all read \<open>{items, count, capacity}\<close> with \<open>u2\<close> counters, and their
  \<open>reserve\<close>/\<open>append\<close>/\<open>remove\<close> bodies differ in the element type and the first
  capacity only. \<open>items\<close> holds the first \<open>count\<close> slots; the zeroed slack up to
  \<open>capacity\<close> is never read. The locale states what the clients rely on, and
  every list of the tree interprets it.
\<close>

section \<open>Data and operations\<close>

record 'a vec =
  items :: "'a list"
  vcap :: u2

definition vec_init :: "'a vec" where
  "vec_init = \<lparr>items = [], vcap = 0\<rparr>"

definition vec_count :: "'a vec \<Rightarrow> u2" where
  "vec_count v = of_nat (length (items v))"

definition vec_reserve :: "alloc \<Rightarrow> alloc_kind \<Rightarrow> 'a vec \<Rightarrow> u2 \<Rightarrow> classfile_status \<times> 'a vec" where
  "vec_reserve mem k v capacity =
     (if capacity \<le> vcap v then (CLASSFILE_OK, v)
      else if \<not> mem k (unat capacity) then (CLASSFILE_ERR_OUT_OF_MEMORY, v)
      else (CLASSFILE_OK, v\<lparr>vcap := capacity\<rparr>))"

definition grow_capacity :: "u2 \<Rightarrow> u2 \<Rightarrow> u2" where
  "grow_capacity first old =
     (let capacity = (if old \<noteq> 0 then old else first) in
      if unat capacity * 2 > CLASSFILE_MAX_COUNT then 0xFFFF
      else capacity * 2)"

definition vec_append :: "alloc \<Rightarrow> alloc_kind \<Rightarrow> u2 \<Rightarrow> 'a vec \<Rightarrow> 'a \<Rightarrow> classfile_status \<times> 'a vec" where
  "vec_append mem k first v x =
     (if vec_count v = 0xFFFF then (CLASSFILE_ERR_LIMIT_EXCEEDED, v)
      else
        let (status, v') =
              (if vec_count v = vcap v then vec_reserve mem k v (grow_capacity first (vcap v))
               else (CLASSFILE_OK, v))
        in if status \<noteq> CLASSFILE_OK then (status, v')
           else (CLASSFILE_OK, v'\<lparr>items := items v' @ [x]\<rparr>))"

definition vec_remove :: "'a vec \<Rightarrow> u2 \<Rightarrow> 'a vec" where
  "vec_remove v index =
     (if index \<ge> vec_count v then v
      else v\<lparr>items := take (unat index) (items v) @ drop (Suc (unat index)) (items v)\<rparr>)"

definition vec_inv :: "'a vec \<Rightarrow> bool" where
  "vec_inv v \<longleftrightarrow> length (items v) \<le> unat (vcap v)"

section \<open>Laws\<close>

lemma vec_inv_init [simp]: "vec_inv vec_init" "items vec_init = []"
  by (simp_all add: vec_inv_def vec_init_def)

lemma vec_inv_length: "vec_inv v \<Longrightarrow> length (items v) \<le> 65535"
  unfolding vec_inv_def using unat_u2_le [of "vcap v"] by linarith

lemma vec_inv_count: "vec_inv v \<Longrightarrow> unat (vec_count v) = length (items v)"
  using vec_inv_length [of v] by (simp add: vec_count_def)

lemma vec_count_max_iff: "vec_inv v \<Longrightarrow> vec_count v = 0xFFFF \<longleftrightarrow> length (items v) = 65535"
  using vec_inv_count [of v] by (auto simp: vec_count_def)

lemma vec_count_full_iff: "vec_inv v \<Longrightarrow> vec_count v = vcap v \<longleftrightarrow> length (items v) = unat (vcap v)"
  using vec_inv_count [of v] by (metis unsigned_word_eqI)

lemma grow_capacity_grows:
  assumes "unat old < 65535" "1 \<le> unat first"
  shows "unat old < unat (grow_capacity first old)"
proof -
  let ?c = "if old \<noteq> 0 then old else first"
  have pos: "1 \<le> unat ?c" "unat old \<le> unat ?c"
    using assms by (auto simp: Suc_le_eq unat_gt_0)
  show ?thesis
  proof (cases "unat ?c * 2 > CLASSFILE_MAX_COUNT")
    case True
    then show ?thesis using assms by (simp add: grow_capacity_def)
  next
    case False
    then have "unat (?c * 2) = unat ?c * 2"
      by (simp add: CLASSFILE_MAX_COUNT_def unat_word_ariths)
    with False pos show ?thesis by (simp add: grow_capacity_def Let_def)
  qed
qed

lemma vec_reserve_cases:
  assumes "vec_reserve mem k v n = (st, v')"
  shows "items v' = items v \<and>
         (st = CLASSFILE_OK \<and> unat (vcap v') = max (unat n) (unat (vcap v)) \<or>
          st = CLASSFILE_ERR_OUT_OF_MEMORY \<and> v' = v \<and> \<not> mem k (unat n))"
  using assms
  by (auto simp: vec_reserve_def word_le_nat_alt max_def split: if_splits)

lemma vec_append_ok:
  assumes "vec_inv v" "1 \<le> unat first" "vec_append mem k first v x = (CLASSFILE_OK, v')"
  shows "items v' = items v @ [x]" "vec_inv v'"
proof -
  obtain st w where w: "(if vec_count v = vcap v then vec_reserve mem k v (grow_capacity first (vcap v))
               else (CLASSFILE_OK, v)) = (st, w)" by (metis surj_pair)
  from assms(3) w have st: "vec_count v \<noteq> 0xFFFF" "st = CLASSFILE_OK" "v' = w\<lparr>items := items w @ [x]\<rparr>"
    by (auto simp: vec_append_def split: if_splits)
  have lt: "length (items v) < 65535"
    using st(1) vec_count_max_iff [OF assms(1)] vec_inv_length [OF assms(1)] by linarith
  have "items w = items v \<and> length (items v) < unat (vcap w)"
  proof (cases "vec_count v = vcap v")
    case True
    then have full: "length (items v) = unat (vcap v)"
      using vec_count_full_iff [OF assms(1)] by simp
    with grow_capacity_grows [of "vcap v" first] assms(2) lt
    have "unat (vcap v) < unat (grow_capacity first (vcap v))" by simp
    with True w st(2) full show ?thesis
      using vec_reserve_cases [of mem k v "grow_capacity first (vcap v)" st w] by auto
  next
    case False
    with w assms(1) vec_count_full_iff [OF assms(1)] show ?thesis
      by (auto simp: vec_inv_def)
  qed
  with st show "items v' = items v @ [x]" "vec_inv v'"
    by (auto simp: vec_inv_def)
qed

lemma vec_append_room:
  assumes "vec_inv v" "length (items v) < unat (vcap v)"
  shows "vec_append mem k first v x = (CLASSFILE_OK, v\<lparr>items := items v @ [x]\<rparr>)"
proof -
  have "length (items v) \<noteq> 65535"
    using assms(2) unat_u2_le [of "vcap v"] by linarith
  then have "vec_count v \<noteq> 0xFFFF" using vec_count_max_iff [OF assms(1)] by simp
  moreover have "vec_count v \<noteq> vcap v" using vec_count_full_iff [OF assms(1)] assms(2) by simp
  ultimately show ?thesis by (simp add: vec_append_def)
qed

lemma vec_append_fail:
  assumes "vec_inv v" "vec_append mem k first v x = (st, v')" "st \<noteq> CLASSFILE_OK"
  shows "v' = v" "st = CLASSFILE_ERR_LIMIT_EXCEEDED \<and> length (items v) = 65535 \<or>
         st = CLASSFILE_ERR_OUT_OF_MEMORY \<and> (\<exists>n. \<not> mem k n)"
  using assms vec_count_max_iff [OF assms(1)]
  by (auto simp: vec_append_def vec_reserve_def split: if_splits)

lemma vec_append_total:
  assumes "vec_inv v" "length (items v) < 65535" "alloc_total mem"
  shows "fst (vec_append mem k first v x) = CLASSFILE_OK"
  using assms vec_count_max_iff [OF assms(1)]
  by (auto simp: vec_append_def vec_reserve_def alloc_total_def split: if_splits)

lemma vec_remove_spec:
  assumes "vec_inv v" "unat i < length (items v)"
  shows "items (vec_remove v i) = take (unat i) (items v) @ drop (Suc (unat i)) (items v)"
    and "vec_inv (vec_remove v i)"
  using assms vec_inv_count [OF assms(1)]
  by (auto simp: vec_remove_def word_le_nat_alt vec_inv_def)

section \<open>The contract of a counted list\<close>

text \<open>
  \<open>contents\<close> is what a client sees; \<open>room\<close> is the capacity. The laws say that a
  successful append adds exactly one element at the end, that a failing one
  changes nothing, that the only failures are the \<open>u2\<close> count limit and the
  allocator, and that space that was reserved is never allocated again.
\<close>

locale counted_list =
  fixes reserve :: "alloc \<Rightarrow> 'v \<Rightarrow> u2 \<Rightarrow> classfile_status \<times> 'v"
    and append :: "alloc \<Rightarrow> 'v \<Rightarrow> 'a \<Rightarrow> classfile_status \<times> 'v"
    and contents :: "'v \<Rightarrow> 'a list"
    and room :: "'v \<Rightarrow> nat"
    and invar :: "'v \<Rightarrow> bool"
  assumes invar_room: "invar v \<Longrightarrow> length (contents v) \<le> room v \<and> room v \<le> 65535"
    and reserve_ok: "invar v \<Longrightarrow> reserve mem v n = (CLASSFILE_OK, v') \<Longrightarrow>
          contents v' = contents v \<and> room v' = max (unat n) (room v) \<and> invar v'"
    and reserve_fail: "invar v \<Longrightarrow> reserve mem v n = (st, v') \<Longrightarrow> st \<noteq> CLASSFILE_OK \<Longrightarrow>
          st = CLASSFILE_ERR_OUT_OF_MEMORY \<and> v' = v"
    and append_ok: "invar v \<Longrightarrow> append mem v x = (CLASSFILE_OK, v') \<Longrightarrow>
          contents v' = contents v @ [x] \<and> invar v'"
    and append_room: "invar v \<Longrightarrow> length (contents v) < room v \<Longrightarrow>
          fst (append mem v x) = CLASSFILE_OK \<and> room (snd (append mem v x)) = room v"
    and append_fail: "invar v \<Longrightarrow> append mem v x = (st, v') \<Longrightarrow> st \<noteq> CLASSFILE_OK \<Longrightarrow>
          v' = v \<and> (st = CLASSFILE_ERR_LIMIT_EXCEEDED \<and> length (contents v) = 65535 \<or>
                    st = CLASSFILE_ERR_OUT_OF_MEMORY)"
begin

fun append_all :: "alloc \<Rightarrow> 'v \<Rightarrow> 'a list \<Rightarrow> classfile_status \<times> 'v" where
  "append_all mem v [] = (CLASSFILE_OK, v)"
| "append_all mem v (x # xs) =
     (let (status, v') = append mem v x
      in if status \<noteq> CLASSFILE_OK then (status, v') else append_all mem v' xs)"

lemma append_all_ok:
  "invar v \<Longrightarrow> append_all mem v xs = (CLASSFILE_OK, v') \<Longrightarrow>
   contents v' = contents v @ xs \<and> invar v'"
proof (induction xs arbitrary: v)
  case (Cons x xs)
  from Cons.prems(2) obtain w where w: "append mem v x = (CLASSFILE_OK, w)"
    and rest: "append_all mem w xs = (CLASSFILE_OK, v')"
    by (auto split: prod.splits if_splits)
  from append_ok [OF Cons.prems(1) w] Cons.IH [OF _ rest] show ?case by simp
qed simp

lemma append_all_room:
  "invar v \<Longrightarrow> length (contents v) + length xs \<le> room v \<Longrightarrow>
   fst (append_all mem v xs) = CLASSFILE_OK"
proof (induction xs arbitrary: v)
  case (Cons x xs)
  obtain st w where w: "append mem v x = (st, w)" by (metis surj_pair)
  have st: "st = CLASSFILE_OK" "room w = room v"
    using append_room [OF Cons.prems(1), of mem x] Cons.prems(2) w by auto
  with append_ok [OF Cons.prems(1)] w have "contents w = contents v @ [x]" "invar w" by auto
  with Cons.IH [of w] Cons.prems(2) st w show ?case by simp
qed simp

text \<open>A reservation for the whole copy is the only allocation the copy makes.\<close>

lemma reserve_then_append_all:
  assumes "invar v" "contents v = []" "reserve mem v n = (CLASSFILE_OK, w)" "length xs = unat n"
  shows "\<exists>u. append_all mem' w xs = (CLASSFILE_OK, u) \<and> contents u = xs \<and> invar u"
proof -
  from reserve_ok [OF assms(1,3)] assms(2,4) have w: "invar w" "contents w = []" "length xs \<le> room w"
    by auto
  have "fst (append_all mem' w xs) = CLASSFILE_OK"
    using append_all_room [of w xs mem'] w by simp
  then obtain u where "append_all mem' w xs = (CLASSFILE_OK, u)" by (cases "append_all mem' w xs") auto
  with append_all_ok [OF w(1) this] w(2) show ?thesis by auto
qed

end

text \<open>Every instance of the array with a positive first capacity keeps the contract.\<close>

lemma vec_counted_list:
  assumes "1 \<le> unat first"
  shows "counted_list (\<lambda>mem. vec_reserve mem k) (\<lambda>mem. vec_append mem k first)
           items (\<lambda>v. unat (vcap v)) vec_inv"
proof
  show "vec_inv v \<Longrightarrow> length (items v) \<le> unat (vcap v) \<and> unat (vcap v) \<le> 65535" for v :: "'a vec"
    by (simp add: vec_inv_def)
  show "vec_reserve mem k v n = (CLASSFILE_OK, v') \<Longrightarrow> vec_inv v \<Longrightarrow>
          items v' = items v \<and> unat (vcap v') = max (unat n) (unat (vcap v)) \<and> vec_inv v'"
    for mem n and v v' :: "'a vec"
    using vec_reserve_cases [of mem k v n CLASSFILE_OK v'] by (auto simp: vec_inv_def)
  show "vec_inv v \<Longrightarrow> vec_reserve mem k v n = (st, v') \<Longrightarrow> st \<noteq> CLASSFILE_OK \<Longrightarrow>
          st = CLASSFILE_ERR_OUT_OF_MEMORY \<and> v' = v" for mem n st and v v' :: "'a vec"
    using vec_reserve_cases [of mem k v n st v'] by auto
  show "vec_inv v \<Longrightarrow> vec_append mem k first v x = (CLASSFILE_OK, v') \<Longrightarrow>
          items v' = items v @ [x] \<and> vec_inv v'" for mem x and v v' :: "'a vec"
    by (simp add: vec_append_ok [OF _ assms])
  show "vec_inv v \<Longrightarrow> length (items v) < unat (vcap v) \<Longrightarrow>
          fst (vec_append mem k first v x) = CLASSFILE_OK \<and>
          unat (vcap (snd (vec_append mem k first v x))) = unat (vcap v)"
    for mem x and v :: "'a vec"
    by (simp add: vec_append_room)
  show "vec_inv v \<Longrightarrow> vec_append mem k first v x = (st, v') \<Longrightarrow> st \<noteq> CLASSFILE_OK \<Longrightarrow>
          v' = v \<and> (st = CLASSFILE_ERR_LIMIT_EXCEEDED \<and> length (items v) = 65535 \<or>
                    st = CLASSFILE_ERR_OUT_OF_MEMORY)" for mem x st and v v' :: "'a vec"
    using vec_append_fail [of v mem k first x st v'] by blast
qed

end
