(* ===== verification/Byte_Stream.thy ===== *)
theory Byte_Stream
  imports J2H_Prelude
begin

text \<open>
  The bounds-checked big endian reader and the growable writer of
  \<^verbatim>\<open>byte_stream.c\<close>. Both latch: after the first failure every later call is
  inert, which is what lets the parsers read a whole structure and check once.

  Two relations carry all round-trip proofs of the development.
  \<open>spans c bs c'\<close> says that the cursor moved from \<open>c\<close> to \<open>c'\<close> over exactly
  the bytes \<open>bs\<close> without failing; each read operation is characterised by an
  equivalence with it, so it serves decoding and encoding alike.
  \<open>emits mem f bs\<close> says that the writer \<open>f\<close> appends exactly \<open>bs\<close> unless the
  buffer has latched, and that it latches only if the allocator refused.
\<close>

section \<open>Reader\<close>

text \<open>
  \<open>begin\<close>, \<open>p\<close> and \<open>end\<close> are the bytes between \<open>begin\<close> and \<open>end\<close> and the
  distance of \<open>p\<close> from \<open>begin\<close>.
\<close>

record byte_cursor =
  cur_data :: "u1 list"
  cur_pos :: nat
  cur_ok :: bool

definition byte_cursor_init :: "u1 list \<Rightarrow> byte_cursor" where
  "byte_cursor_init data = \<lparr>cur_data = data, cur_pos = 0, cur_ok = True\<rparr>"

definition byte_cursor_ok :: "byte_cursor \<Rightarrow> bool" where
  "byte_cursor_ok c = cur_ok c"

definition byte_cursor_exhausted :: "byte_cursor \<Rightarrow> bool" where
  "byte_cursor_exhausted c \<longleftrightarrow> cur_pos c = length (cur_data c)"

definition byte_cursor_offset :: "byte_cursor \<Rightarrow> nat" where
  "byte_cursor_offset c = cur_pos c"

definition byte_cursor_remaining :: "byte_cursor \<Rightarrow> nat" where
  "byte_cursor_remaining c = (if cur_ok c then length (cur_data c) - cur_pos c else 0)"

definition cursor_need :: "byte_cursor \<Rightarrow> nat \<Rightarrow> bool \<times> byte_cursor" where
  "cursor_need c n =
     (if \<not> cur_ok c then (False, c)
      else if length (cur_data c) - cur_pos c < n then (False, c\<lparr>cur_ok := False\<rparr>)
      else (True, c))"

definition byte_cursor_u1 :: "byte_cursor \<Rightarrow> u1 \<times> byte_cursor" where
  "byte_cursor_u1 c =
     (case cursor_need c 1 of
        (False, c) \<Rightarrow> (0, c)
      | (True, c) \<Rightarrow> (cur_data c ! cur_pos c, c\<lparr>cur_pos := cur_pos c + 1\<rparr>))"

definition byte_cursor_u2 :: "byte_cursor \<Rightarrow> u2 \<times> byte_cursor" where
  "byte_cursor_u2 c =
     (case cursor_need c 2 of
        (False, c) \<Rightarrow> (0, c)
      | (True, c) \<Rightarrow>
          (push_bit 8 (ucast (cur_data c ! cur_pos c)) OR ucast (cur_data c ! (cur_pos c + 1)),
           c\<lparr>cur_pos := cur_pos c + 2\<rparr>))"

definition byte_cursor_u4 :: "byte_cursor \<Rightarrow> u4 \<times> byte_cursor" where
  "byte_cursor_u4 c =
     (case cursor_need c 4 of
        (False, c) \<Rightarrow> (0, c)
      | (True, c) \<Rightarrow>
          (push_bit 24 (ucast (cur_data c ! cur_pos c)) OR
           push_bit 16 (ucast (cur_data c ! (cur_pos c + 1))) OR
           push_bit 8 (ucast (cur_data c ! (cur_pos c + 2))) OR
           ucast (cur_data c ! (cur_pos c + 3)),
           c\<lparr>cur_pos := cur_pos c + 4\<rparr>))"

text \<open>The pointer into the input is the run of bytes it points at; \<open>NULL\<close> is \<open>None\<close>.\<close>

definition byte_cursor_bytes :: "byte_cursor \<Rightarrow> nat \<Rightarrow> u1 list option \<times> byte_cursor" where
  "byte_cursor_bytes c len =
     (case cursor_need c len of
        (False, c) \<Rightarrow> (None, c)
      | (True, c) \<Rightarrow> (Some (take len (drop (cur_pos c) (cur_data c))),
                     c\<lparr>cur_pos := cur_pos c + len\<rparr>))"

section \<open>Writer\<close>

record byte_buffer =
  buf_data :: "u1 list"
  buf_capacity :: nat
  buf_ok :: bool

definition byte_buffer_init :: byte_buffer where
  "byte_buffer_init = \<lparr>buf_data = [], buf_capacity = 0, buf_ok = True\<rparr>"

definition byte_buffer_free :: "byte_buffer \<Rightarrow> byte_buffer" where
  "byte_buffer_free b = byte_buffer_init"

definition byte_buffer_ok :: "byte_buffer \<Rightarrow> bool" where
  "byte_buffer_ok b = buf_ok b"

abbreviation buf_size :: "byte_buffer \<Rightarrow> nat" where
  "buf_size b \<equiv> length (buf_data b)"

text \<open>The doubling loop of \<open>byte_buffer_reserve\<close>; it runs from a positive capacity.\<close>

function grow_until :: "nat \<Rightarrow> nat \<Rightarrow> nat" where
  "grow_until capacity needed =
     (if 0 < capacity \<and> capacity < needed then grow_until (capacity * 2) needed else capacity)"
  by pat_completeness auto
termination
  by (relation "measure (\<lambda>(capacity, needed). needed - capacity)") auto

declare grow_until.simps [simp del]

definition byte_buffer_reserve :: "alloc \<Rightarrow> byte_buffer \<Rightarrow> nat \<Rightarrow> byte_buffer" where
  "byte_buffer_reserve mem b extra =
     (if \<not> buf_ok b \<or> buf_size b + extra \<le> buf_capacity b then b
      else
        let capacity = grow_until (if buf_capacity b \<noteq> 0 then buf_capacity b else 4096)
                                  (buf_size b + extra)
        in if \<not> mem Alloc_bytes capacity then b\<lparr>buf_ok := False\<rparr>
           else b\<lparr>buf_capacity := capacity\<rparr>)"

definition byte_buffer_u1 :: "alloc \<Rightarrow> u1 \<Rightarrow> byte_buffer \<Rightarrow> byte_buffer" where
  "byte_buffer_u1 mem value b =
     (let b = byte_buffer_reserve mem b 1
      in if \<not> buf_ok b then b else b\<lparr>buf_data := buf_data b @ [value]\<rparr>)"

definition byte_buffer_u2 :: "alloc \<Rightarrow> u2 \<Rightarrow> byte_buffer \<Rightarrow> byte_buffer" where
  "byte_buffer_u2 mem value b =
     (let b = byte_buffer_reserve mem b 2
      in if \<not> buf_ok b then b
         else b\<lparr>buf_data := buf_data b @ [ucast (drop_bit 8 value), ucast (value AND 0xFF)]\<rparr>)"

definition byte_buffer_u4 :: "alloc \<Rightarrow> u4 \<Rightarrow> byte_buffer \<Rightarrow> byte_buffer" where
  "byte_buffer_u4 mem value b =
     (let b = byte_buffer_reserve mem b 4
      in if \<not> buf_ok b then b
         else b\<lparr>buf_data := buf_data b @
                  [ucast (drop_bit 24 value), ucast (drop_bit 16 value),
                   ucast (drop_bit 8 value), ucast (value AND 0xFF)]\<rparr>)"

definition byte_buffer_bytes :: "alloc \<Rightarrow> u1 list \<Rightarrow> byte_buffer \<Rightarrow> byte_buffer" where
  "byte_buffer_bytes mem data b =
     (if length data = 0 then b
      else
        let b = byte_buffer_reserve mem b (length data)
        in if \<not> buf_ok b then b else b\<lparr>buf_data := buf_data b @ data\<rparr>)"

definition byte_buffer_release :: "byte_buffer \<Rightarrow> u1 list \<times> byte_buffer" where
  "byte_buffer_release b = (buf_data b, byte_buffer_init)"

section \<open>What a read consumed\<close>

definition spans :: "byte_cursor \<Rightarrow> u1 list \<Rightarrow> byte_cursor \<Rightarrow> bool" where
  "spans c bs c' \<longleftrightarrow>
     cur_ok c \<and> take (length bs) (drop (cur_pos c) (cur_data c)) = bs \<and>
     c' = c\<lparr>cur_pos := cur_pos c + length bs\<rparr>"

definition cursor_inv :: "byte_cursor \<Rightarrow> bool" where
  "cursor_inv c \<longleftrightarrow> cur_pos c \<le> length (cur_data c)"

lemma spans_ok: "spans c bs c' \<Longrightarrow> cur_ok c \<and> cur_ok c'"
  by (simp add: spans_def)

lemma spans_Nil [simp]: "spans c [] c' \<longleftrightarrow> cur_ok c \<and> c' = c"
  by (auto simp: spans_def)

lemma take_add_drop: "take (m + n) xs = take m xs @ take n (drop m xs)"
  by (simp add: take_add)

lemma spans_append:
  "spans c (xs @ ys) c'' \<longleftrightarrow> (\<exists>c'. spans c xs c' \<and> spans c' ys c'')"
proof -
  let ?d = "drop (cur_pos c) (cur_data c)"
  have split: "take (length xs + length ys) ?d = xs @ ys \<longleftrightarrow>
      take (length xs) ?d = xs \<and> take (length ys) (drop (length xs) ?d) = ys" (is "?l = ?r")
  proof
    assume l: ?l
    then have "length xs \<le> length ?d"
      by (metis le_add1 length_append length_take min.boundedE min.cobounded1)
    with l show ?r by (simp add: take_add append_eq_append_conv)
  next
    assume ?r
    then show ?l by (simp only: take_add)
  qed
  have eq: "drop (cur_pos c + length xs) (cur_data c) = drop (length xs) ?d"
    by (simp add: add.commute)
  have "spans c (xs @ ys) c'' \<longleftrightarrow>
      spans c xs (c\<lparr>cur_pos := cur_pos c + length xs\<rparr>) \<and>
      spans (c\<lparr>cur_pos := cur_pos c + length xs\<rparr>) ys c''"
    unfolding spans_def length_append split
    by (simp add: add.assoc eq del: drop_drop) blast
  then show ?thesis
    by (metis spans_def)
qed

lemma spans_trans: "spans c xs c' \<Longrightarrow> spans c' ys c'' \<Longrightarrow> spans c (xs @ ys) c''"
  by (auto simp: spans_append)

lemma spans_length: "spans c bs c' \<Longrightarrow> cur_pos c' = cur_pos c + length bs \<and> cur_data c' = cur_data c"
  by (simp add: spans_def)

lemma spans_le: "spans c bs c' \<Longrightarrow> bs \<noteq> [] \<Longrightarrow> cur_pos c + length bs \<le> length (cur_data c)"
  unfolding spans_def
  by (metis (no_types, lifting) add.commute le_diff_conv2 length_drop length_take linorder_le_cases
      min.absorb_iff2 length_0_conv diff_is_0_eq min.cobounded1 le_zero_eq)

lemma spans_inv: "spans c bs c' \<Longrightarrow> cursor_inv c \<Longrightarrow> cursor_inv c'"
  using spans_le [of c bs c'] spans_length [of c bs c'] by (cases "bs = []") (auto simp: cursor_inv_def)

lemma cursor_need_True: "cursor_need c n = (True, c') \<Longrightarrow>
    cur_ok c \<and> c' = c \<and> n \<le> length (cur_data c) - cur_pos c"
  by (auto simp: cursor_need_def split: if_splits)

lemma cursor_need_False: "cursor_need c n = (False, c') \<Longrightarrow>
    \<not> cur_ok c' \<and> cur_data c' = cur_data c \<and> cur_pos c' = cur_pos c \<and> (\<not> cur_ok c \<longrightarrow> c' = c)"
  by (auto simp: cursor_need_def split: if_splits)

lemma take_drop_2: "Suc p < length xs \<Longrightarrow> take 2 (drop p xs) = [xs ! p, xs ! (p + 1)]"
  by (simp add: numeral_2_eq_2 take_Suc_conv_app_nth)

lemma take_drop_4: "p + 3 < length xs \<Longrightarrow>
    take 4 (drop p xs) = [xs ! p, xs ! (p + 1), xs ! (p + 2), xs ! (p + 3)]"
  by (simp add: numeral_eq_Suc take_Suc_conv_app_nth)

lemma byte_cursor_u1_iff:
  "byte_cursor_u1 c = (v, c') \<and> cur_ok c' \<longleftrightarrow> spans c (be1 v) c'"
proof (cases "cursor_need c 1")
  case (Pair b d)
  show ?thesis
  proof (cases b)
    case True
    with Pair have "cur_ok c" "d = c" "cur_pos c < length (cur_data c)"
      using cursor_need_True [of c 1 d] by auto
    with Pair True show ?thesis
      by (auto simp: byte_cursor_u1_def spans_def be1_def take_Suc_conv_app_nth)
  next
    case False
    with Pair cursor_need_False [of c 1 d] show ?thesis
      by (auto simp: byte_cursor_u1_def spans_def be1_def cursor_need_def
               dest: arg_cong [where f = length] split: if_splits)
  qed
qed

lemma byte_cursor_u2_iff:
  "byte_cursor_u2 c = (v, c') \<and> cur_ok c' \<longleftrightarrow> spans c (be2 v) c'"
proof (cases "cursor_need c 2")
  case (Pair b d)
  show ?thesis
  proof (cases b)
    case True
    with Pair have c: "cur_ok c" "d = c" "Suc (cur_pos c) < length (cur_data c)"
      using cursor_need_True [of c 2 d] by auto
    let ?a = "cur_data c ! cur_pos c" and ?b = "cur_data c ! (cur_pos c + 1)"
    have "spans c (be2 v) c' \<longleftrightarrow> be2 v = [?a, ?b] \<and> c' = c\<lparr>cur_pos := cur_pos c + 2\<rparr>"
      using c take_drop_2 [OF c(3)] by (auto simp: spans_def)
    moreover have "be2 v = [?a, ?b] \<longleftrightarrow> v = get2 ?a ?b"
      by (metis be2_get2 be2_inject)
    ultimately show ?thesis
      using Pair True c by (auto simp: byte_cursor_u2_def get2_def)
  next
    case False
    with Pair cursor_need_False [of c 2 d] show ?thesis
      by (auto simp: byte_cursor_u2_def spans_def be2_def cursor_need_def
               dest: arg_cong [where f = length] split: if_splits)
  qed
qed

lemma byte_cursor_u4_iff:
  "byte_cursor_u4 c = (v, c') \<and> cur_ok c' \<longleftrightarrow> spans c (be4 v) c'"
proof (cases "cursor_need c 4")
  case (Pair b d)
  show ?thesis
  proof (cases b)
    case True
    with Pair have c: "cur_ok c" "d = c" "cur_pos c + 3 < length (cur_data c)"
      using cursor_need_True [of c 4 d] by auto
    let ?a = "cur_data c ! cur_pos c" and ?b = "cur_data c ! (cur_pos c + 1)"
    let ?c = "cur_data c ! (cur_pos c + 2)" and ?d = "cur_data c ! (cur_pos c + 3)"
    have "spans c (be4 v) c' \<longleftrightarrow> be4 v = [?a, ?b, ?c, ?d] \<and> c' = c\<lparr>cur_pos := cur_pos c + 4\<rparr>"
      using c take_drop_4 [OF c(3)] by (auto simp: spans_def)
    moreover have "be4 v = [?a, ?b, ?c, ?d] \<longleftrightarrow> v = get4 ?a ?b ?c ?d"
      by (metis be4_get4 be4_inject)
    ultimately show ?thesis
      using Pair True c by (auto simp: byte_cursor_u4_def get4_def)
  next
    case False
    with Pair cursor_need_False [of c 4 d] show ?thesis
      by (auto simp: byte_cursor_u4_def spans_def be4_def cursor_need_def
               dest: arg_cong [where f = length] split: if_splits)
  qed
qed

lemma byte_cursor_bytes_iff:
  "byte_cursor_bytes c n = (Some bs, c') \<longleftrightarrow> spans c bs c' \<and> length bs = n"
  by (auto simp: byte_cursor_bytes_def cursor_need_def spans_def min_def split: if_splits
           dest: arg_cong [where f = length])

lemma byte_cursor_bytes_None: "byte_cursor_bytes c n = (None, c') \<Longrightarrow> \<not> cur_ok c'"
  by (auto simp: byte_cursor_bytes_def cursor_need_def split: if_splits)

text \<open>The four reads as introduction rules for what was consumed, and as evaluation rules.\<close>

lemma byte_cursor_u1_spans [spans_intro]: "byte_cursor_u1 c = (v, c') \<Longrightarrow> cur_ok c' \<Longrightarrow> spans c (be1 v) c'"
  and byte_cursor_u2_spans [spans_intro]: "byte_cursor_u2 c = (w, c') \<Longrightarrow> cur_ok c' \<Longrightarrow> spans c (be2 w) c'"
  and byte_cursor_u4_spans [spans_intro]: "byte_cursor_u4 c = (x, c') \<Longrightarrow> cur_ok c' \<Longrightarrow> spans c (be4 x) c'"
  and byte_cursor_bytes_spans [spans_intro]: "byte_cursor_bytes c n = (Some bs, c') \<Longrightarrow> spans c bs c'"
  using byte_cursor_u1_iff byte_cursor_u2_iff byte_cursor_u4_iff byte_cursor_bytes_iff by blast+

lemma spans_u1: "spans c (be1 v) c' \<Longrightarrow> byte_cursor_u1 c = (v, c')"
  and spans_u2: "spans c (be2 w) c' \<Longrightarrow> byte_cursor_u2 c = (w, c')"
  and spans_u4: "spans c (be4 x) c' \<Longrightarrow> byte_cursor_u4 c = (x, c')"
  and spans_bytes: "spans c bs c' \<Longrightarrow> byte_cursor_bytes c (length bs) = (Some bs, c')"
  using byte_cursor_u1_iff byte_cursor_u2_iff byte_cursor_u4_iff byte_cursor_bytes_iff by blast+

lemmas spans_eval = spans_u1 spans_u2 spans_u4

lemma read_u1D: "byte_cursor_u1 c = (v, c') \<Longrightarrow> cur_ok c' \<Longrightarrow> cur_ok c \<and> spans c (be1 v) c'"
  and read_u2D: "byte_cursor_u2 c = (w, c') \<Longrightarrow> cur_ok c' \<Longrightarrow> cur_ok c \<and> spans c (be2 w) c'"
  and read_u4D: "byte_cursor_u4 c = (x, c') \<Longrightarrow> cur_ok c' \<Longrightarrow> cur_ok c \<and> spans c (be4 x) c'"
  using byte_cursor_u1_spans byte_cursor_u2_spans byte_cursor_u4_spans spans_ok by blast+

text \<open>Once a read has failed the cursor stays where it is and answers zero.\<close>

lemma cursor_latched:
  assumes "\<not> cur_ok c"
  shows "byte_cursor_u1 c = (0, c)" "byte_cursor_u2 c = (0, c)" "byte_cursor_u4 c = (0, c)"
    "byte_cursor_bytes c n = (None, c)"
  using assms by (simp_all add: byte_cursor_u1_def byte_cursor_u2_def byte_cursor_u4_def
      byte_cursor_bytes_def cursor_need_def)

lemma cursor_ok_back:
  "byte_cursor_u1 c = (v, c') \<Longrightarrow> cur_ok c' \<Longrightarrow> cur_ok c"
  "byte_cursor_u2 c = (w, c') \<Longrightarrow> cur_ok c' \<Longrightarrow> cur_ok c"
  "byte_cursor_u4 c = (x, c') \<Longrightarrow> cur_ok c' \<Longrightarrow> cur_ok c"
  "byte_cursor_bytes c n = (o', c') \<Longrightarrow> cur_ok c' \<Longrightarrow> cur_ok c"
  using cursor_latched [of c] by force+

text \<open>A failed read leaves data and position alone: nothing is read past the end.\<close>

lemma byte_cursor_fail:
  "byte_cursor_u1 c = (v, c') \<Longrightarrow> \<not> cur_ok c' \<Longrightarrow> cur_pos c' = cur_pos c \<and> cur_data c' = cur_data c"
  "byte_cursor_u2 c = (w, c') \<Longrightarrow> \<not> cur_ok c' \<Longrightarrow> cur_pos c' = cur_pos c \<and> cur_data c' = cur_data c"
  "byte_cursor_u4 c = (x, c') \<Longrightarrow> \<not> cur_ok c' \<Longrightarrow> cur_pos c' = cur_pos c \<and> cur_data c' = cur_data c"
  "byte_cursor_bytes c n = (None, c') \<Longrightarrow> cur_pos c' = cur_pos c \<and> cur_data c' = cur_data c"
  by (auto simp: byte_cursor_u1_def byte_cursor_u2_def byte_cursor_u4_def byte_cursor_bytes_def
      cursor_need_def split: if_splits)

lemma spans_whole: "spans (byte_cursor_init data) data c' \<longleftrightarrow>
    c' = \<lparr>cur_data = data, cur_pos = length data, cur_ok = True\<rparr>"
  by (auto simp: spans_def byte_cursor_init_def)

lemma spans_exhausted:
  assumes "spans (byte_cursor_init data) bs c'" "byte_cursor_exhausted c'"
  shows "bs = data"
  using assms by (auto simp: spans_def byte_cursor_init_def byte_cursor_exhausted_def)

section \<open>What a writer appended\<close>

definition buffer_inv :: "byte_buffer \<Rightarrow> bool" where
  "buffer_inv b \<longleftrightarrow> buf_size b \<le> buf_capacity b"

definition emits :: "alloc \<Rightarrow> (byte_buffer \<Rightarrow> byte_buffer) \<Rightarrow> u1 list \<Rightarrow> bool" where
  "emits mem f bs \<longleftrightarrow>
     (\<forall>b. (buf_ok (f b) \<longrightarrow> buf_ok b \<and> buf_data (f b) = buf_data b @ bs) \<and>
          (alloc_total mem \<longrightarrow> buf_ok b \<longrightarrow> buf_ok (f b)) \<and>
          (buffer_inv b \<longrightarrow> buffer_inv (f b)))"

lemma grow_until_ge: "0 < capacity \<Longrightarrow> needed \<le> grow_until capacity needed"
proof (induction capacity needed rule: grow_until.induct)
  case (1 capacity needed)
  then show ?case
    by (cases "capacity < needed") (simp_all add: grow_until.simps [of capacity needed])
qed

lemma byte_buffer_reserve_data [simp]: "buf_data (byte_buffer_reserve mem b n) = buf_data b"
  by (simp add: byte_buffer_reserve_def Let_def)

lemma byte_buffer_reserve_ok: "buf_ok (byte_buffer_reserve mem b n) \<Longrightarrow> buf_ok b"
  by (auto simp: byte_buffer_reserve_def Let_def split: if_splits)

lemma byte_buffer_reserve_total: "alloc_total mem \<Longrightarrow> buf_ok (byte_buffer_reserve mem b n) = buf_ok b"
  by (simp add: byte_buffer_reserve_def Let_def alloc_total_def)

lemma byte_buffer_reserve_room:
  "buf_ok (byte_buffer_reserve mem b n) \<Longrightarrow> buf_size b + n \<le> buf_capacity (byte_buffer_reserve mem b n)"
  by (auto simp: byte_buffer_reserve_def Let_def grow_until_ge split: if_splits)

lemma grow_until_le: "capacity \<le> grow_until capacity needed"
proof (induction capacity needed rule: grow_until.induct)
  case (1 capacity needed)
  then show ?case
    by (cases "0 < capacity \<and> capacity < needed") (auto simp: grow_until.simps [of capacity needed])
qed

lemma byte_buffer_reserve_mono: "buf_capacity b \<le> buf_capacity (byte_buffer_reserve mem b n)"
  by (simp add: byte_buffer_reserve_def Let_def grow_until_le)

lemma byte_buffer_reserve_inv: "buffer_inv b \<Longrightarrow> buffer_inv (byte_buffer_reserve mem b n)"
  using byte_buffer_reserve_mono [of b mem n] by (simp add: buffer_inv_def)

lemma emits_write:
  assumes "n = length bs"
  shows "emits mem (\<lambda>b. let b = byte_buffer_reserve mem b n
            in if \<not> buf_ok b then b else b\<lparr>buf_data := buf_data b @ bs\<rparr>) bs"
  unfolding emits_def Let_def
proof (intro allI conjI impI)
  fix b
  let ?r = "byte_buffer_reserve mem b n"
  let ?w = "if \<not> buf_ok ?r then ?r else ?r\<lparr>buf_data := buf_data ?r @ bs\<rparr>"
  show "buf_ok b" and "buf_data ?w = buf_data b @ bs" if "buf_ok ?w"
    using that byte_buffer_reserve_ok [of mem b n] by (auto split: if_splits)
  show "buf_ok ?w" if "alloc_total mem" "buf_ok b"
    using that by (simp add: byte_buffer_reserve_total)
  show "buffer_inv ?w" if "buffer_inv b"
    using byte_buffer_reserve_room [of mem b n] byte_buffer_reserve_inv [OF that, of mem n] assms
    by (simp add: buffer_inv_def)
qed

lemma emits_u1 [emits_intro]: "emits mem (byte_buffer_u1 mem v) (be1 v)"
  unfolding byte_buffer_u1_def [abs_def] be1_def by (rule emits_write) simp

lemma emits_u2 [emits_intro]: "emits mem (byte_buffer_u2 mem v) (be2 v)"
  unfolding byte_buffer_u2_def [abs_def] be2_def by (rule emits_write) simp

lemma emits_u4 [emits_intro]: "emits mem (byte_buffer_u4 mem v) (be4 v)"
  unfolding byte_buffer_u4_def [abs_def] be4_def by (rule emits_write) simp

lemma emits_id: "emits mem (\<lambda>b. b) []"
  by (simp add: emits_def)

lemma emits_reserve [emits_intro]: "emits mem (\<lambda>b. byte_buffer_reserve mem b n) []"
  by (auto simp: emits_def byte_buffer_reserve_total byte_buffer_reserve_inv dest: byte_buffer_reserve_ok)

lemma emits_bytes [emits_intro]: "emits mem (byte_buffer_bytes mem bs) bs"
  using emits_write [OF refl, of mem bs] emits_id
  by (cases "bs = []") (simp_all add: byte_buffer_bytes_def [abs_def])

lemma emits_comp:
  assumes "emits mem f xs" "emits mem g ys"
  shows "emits mem (\<lambda>b. g (f b)) (xs @ ys)"
  unfolding emits_def
proof (intro allI conjI impI)
  fix b
  note f = assms(1) [unfolded emits_def, rule_format, of b]
  note g = assms(2) [unfolded emits_def, rule_format, of "f b"]
  show "buf_ok b" and "buf_data (g (f b)) = buf_data b @ xs @ ys" if "buf_ok (g (f b))"
    using f g that by simp_all
  show "buf_ok (g (f b))" if "alloc_total mem" "buf_ok b"
    using f g that by blast
  show "buffer_inv (g (f b))" if "buffer_inv b"
    using f g that by blast
qed

lemma emits_fold:
  assumes "\<And>x. emits mem (f x) (enc x)"
  shows "emits mem (fold f xs) (concat (map enc xs))"
proof (induction xs)
  case Nil
  then show ?case by (simp add: emits_def)
next
  case (Cons x xs)
  have "emits mem (\<lambda>b. fold f xs (f x b)) (enc x @ concat (map enc xs))"
    by (rule emits_comp [OF assms Cons.IH])
  then show ?case by (simp add: comp_def)
qed

lemma emits_ok: "emits mem f bs \<Longrightarrow> buf_ok (f b) \<Longrightarrow> buf_ok b \<and> buf_data (f b) = buf_data b @ bs"
  and emits_succeeds: "emits mem f bs \<Longrightarrow> alloc_total mem \<Longrightarrow> buf_ok b \<Longrightarrow> buf_ok (f b)"
  unfolding emits_def by blast+

lemma emitsD:
  assumes "emits mem f bs" "buf_ok (f byte_buffer_init)"
  shows "buf_data (f byte_buffer_init) = bs"
  using assms(1) [unfolded emits_def, rule_format, of byte_buffer_init] assms(2)
  by (simp add: byte_buffer_init_def)

lemma emits_total:
  assumes "emits mem f bs" "alloc_total mem"
  shows "buf_ok (f byte_buffer_init)"
  using assms(1) [unfolded emits_def, rule_format, of byte_buffer_init] assms(2)
  by (simp add: byte_buffer_init_def)

end
