(* ===== verification/JVM_Constants.thy ===== *)
theory JVM_Constants
  imports J2H_Prelude
begin

text \<open>
  The constants of \<^verbatim>\<open>class_file_constant.h\<close> and \<^verbatim>\<open>java_version.h\<close> that the
  sources use, under their C names, the opcode length table, and C string
  literals. A C string is the list of its bytes before the terminating zero.
\<close>

abbreviation JAVA_CLASSFILE_MAGIC :: u4 where "JAVA_CLASSFILE_MAGIC \<equiv> 0xCAFEBABE"
abbreviation JAVA_MIN_SUPPORTED_VERSION :: u2 where "JAVA_MIN_SUPPORTED_VERSION \<equiv> 45"

abbreviation JVM_ACC_PRIVATE :: u2 where "JVM_ACC_PRIVATE \<equiv> 0x0002"
abbreviation JVM_ACC_STATIC :: u2 where "JVM_ACC_STATIC \<equiv> 0x0008"
abbreviation JVM_ACC_FINAL :: u2 where "JVM_ACC_FINAL \<equiv> 0x0010"
abbreviation JVM_ACC_SYNCHRONIZED :: u2 where "JVM_ACC_SYNCHRONIZED \<equiv> 0x0020"
abbreviation JVM_ACC_BRIDGE :: u2 where "JVM_ACC_BRIDGE \<equiv> 0x0040"
abbreviation JVM_ACC_VARARGS :: u2 where "JVM_ACC_VARARGS \<equiv> 0x0080"
abbreviation JVM_ACC_NATIVE :: u2 where "JVM_ACC_NATIVE \<equiv> 0x0100"
abbreviation JVM_ACC_INTERFACE :: u2 where "JVM_ACC_INTERFACE \<equiv> 0x0200"
abbreviation JVM_ACC_ABSTRACT :: u2 where "JVM_ACC_ABSTRACT \<equiv> 0x0400"
abbreviation JVM_ACC_STRICT :: u2 where "JVM_ACC_STRICT \<equiv> 0x0800"
abbreviation JVM_ACC_SYNTHETIC :: u2 where "JVM_ACC_SYNTHETIC \<equiv> 0x1000"

abbreviation JVM_CONSTANT_Utf8 :: u1 where "JVM_CONSTANT_Utf8 \<equiv> 1"
abbreviation JVM_CONSTANT_Integer :: u1 where "JVM_CONSTANT_Integer \<equiv> 3"
abbreviation JVM_CONSTANT_Float :: u1 where "JVM_CONSTANT_Float \<equiv> 4"
abbreviation JVM_CONSTANT_Long :: u1 where "JVM_CONSTANT_Long \<equiv> 5"
abbreviation JVM_CONSTANT_Double :: u1 where "JVM_CONSTANT_Double \<equiv> 6"
abbreviation JVM_CONSTANT_Class :: u1 where "JVM_CONSTANT_Class \<equiv> 7"
abbreviation JVM_CONSTANT_String :: u1 where "JVM_CONSTANT_String \<equiv> 8"
abbreviation JVM_CONSTANT_Fieldref :: u1 where "JVM_CONSTANT_Fieldref \<equiv> 9"
abbreviation JVM_CONSTANT_Methodref :: u1 where "JVM_CONSTANT_Methodref \<equiv> 10"
abbreviation JVM_CONSTANT_InterfaceMethodref :: u1 where "JVM_CONSTANT_InterfaceMethodref \<equiv> 11"
abbreviation JVM_CONSTANT_NameAndType :: u1 where "JVM_CONSTANT_NameAndType \<equiv> 12"
abbreviation JVM_CONSTANT_MethodHandle :: u1 where "JVM_CONSTANT_MethodHandle \<equiv> 15"
abbreviation JVM_CONSTANT_MethodType :: u1 where "JVM_CONSTANT_MethodType \<equiv> 16"
abbreviation JVM_CONSTANT_Dynamic :: u1 where "JVM_CONSTANT_Dynamic \<equiv> 17"
abbreviation JVM_CONSTANT_InvokeDynamic :: u1 where "JVM_CONSTANT_InvokeDynamic \<equiv> 18"
abbreviation JVM_CONSTANT_Module :: u1 where "JVM_CONSTANT_Module \<equiv> 19"
abbreviation JVM_CONSTANT_Package :: u1 where "JVM_CONSTANT_Package \<equiv> 20"

abbreviation JVM_ITEM_Integer :: u1 where "JVM_ITEM_Integer \<equiv> 1"
abbreviation JVM_ITEM_Float :: u1 where "JVM_ITEM_Float \<equiv> 2"
abbreviation JVM_ITEM_Double :: u1 where "JVM_ITEM_Double \<equiv> 3"
abbreviation JVM_ITEM_Long :: u1 where "JVM_ITEM_Long \<equiv> 4"
abbreviation JVM_ITEM_Object :: u1 where "JVM_ITEM_Object \<equiv> 7"
abbreviation JVM_ITEM_Uninitialized :: u1 where "JVM_ITEM_Uninitialized \<equiv> 8"

section \<open>Signature characters\<close>

abbreviation JVM_SIGNATURE_ARRAY :: u1 where "JVM_SIGNATURE_ARRAY \<equiv> 91"
abbreviation JVM_SIGNATURE_BYTE :: u1 where "JVM_SIGNATURE_BYTE \<equiv> 66"
abbreviation JVM_SIGNATURE_CHAR :: u1 where "JVM_SIGNATURE_CHAR \<equiv> 67"
abbreviation JVM_SIGNATURE_CLASS :: u1 where "JVM_SIGNATURE_CLASS \<equiv> 76"
abbreviation JVM_SIGNATURE_ENDCLASS :: u1 where "JVM_SIGNATURE_ENDCLASS \<equiv> 59"
abbreviation JVM_SIGNATURE_FLOAT :: u1 where "JVM_SIGNATURE_FLOAT \<equiv> 70"
abbreviation JVM_SIGNATURE_DOUBLE :: u1 where "JVM_SIGNATURE_DOUBLE \<equiv> 68"
abbreviation JVM_SIGNATURE_FUNC :: u1 where "JVM_SIGNATURE_FUNC \<equiv> 40"
abbreviation JVM_SIGNATURE_ENDFUNC :: u1 where "JVM_SIGNATURE_ENDFUNC \<equiv> 41"
abbreviation JVM_SIGNATURE_INT :: u1 where "JVM_SIGNATURE_INT \<equiv> 73"
abbreviation JVM_SIGNATURE_LONG :: u1 where "JVM_SIGNATURE_LONG \<equiv> 74"
abbreviation JVM_SIGNATURE_SHORT :: u1 where "JVM_SIGNATURE_SHORT \<equiv> 83"
abbreviation JVM_SIGNATURE_VOID :: u1 where "JVM_SIGNATURE_VOID \<equiv> 86"
abbreviation JVM_SIGNATURE_BOOLEAN :: u1 where "JVM_SIGNATURE_BOOLEAN \<equiv> 90"

section \<open>Opcodes\<close>

abbreviation JVM_OPC_bipush :: u1 where "JVM_OPC_bipush \<equiv> 16"
abbreviation JVM_OPC_sipush :: u1 where "JVM_OPC_sipush \<equiv> 17"
abbreviation JVM_OPC_newarray :: u1 where "JVM_OPC_newarray \<equiv> 188"
abbreviation JVM_OPC_iload :: u1 where "JVM_OPC_iload \<equiv> 21"
abbreviation JVM_OPC_lload :: u1 where "JVM_OPC_lload \<equiv> 22"
abbreviation JVM_OPC_fload :: u1 where "JVM_OPC_fload \<equiv> 23"
abbreviation JVM_OPC_dload :: u1 where "JVM_OPC_dload \<equiv> 24"
abbreviation JVM_OPC_aload :: u1 where "JVM_OPC_aload \<equiv> 25"
abbreviation JVM_OPC_istore :: u1 where "JVM_OPC_istore \<equiv> 54"
abbreviation JVM_OPC_lstore :: u1 where "JVM_OPC_lstore \<equiv> 55"
abbreviation JVM_OPC_fstore :: u1 where "JVM_OPC_fstore \<equiv> 56"
abbreviation JVM_OPC_dstore :: u1 where "JVM_OPC_dstore \<equiv> 57"
abbreviation JVM_OPC_astore :: u1 where "JVM_OPC_astore \<equiv> 58"
abbreviation JVM_OPC_ret :: u1 where "JVM_OPC_ret \<equiv> 169"
abbreviation JVM_OPC_iinc :: u1 where "JVM_OPC_iinc \<equiv> 132"
abbreviation JVM_OPC_ldc :: u1 where "JVM_OPC_ldc \<equiv> 18"
abbreviation JVM_OPC_ldc_w :: u1 where "JVM_OPC_ldc_w \<equiv> 19"
abbreviation JVM_OPC_ldc2_w :: u1 where "JVM_OPC_ldc2_w \<equiv> 20"
abbreviation JVM_OPC_getstatic :: u1 where "JVM_OPC_getstatic \<equiv> 178"
abbreviation JVM_OPC_putstatic :: u1 where "JVM_OPC_putstatic \<equiv> 179"
abbreviation JVM_OPC_getfield :: u1 where "JVM_OPC_getfield \<equiv> 180"
abbreviation JVM_OPC_putfield :: u1 where "JVM_OPC_putfield \<equiv> 181"
abbreviation JVM_OPC_invokevirtual :: u1 where "JVM_OPC_invokevirtual \<equiv> 182"
abbreviation JVM_OPC_invokespecial :: u1 where "JVM_OPC_invokespecial \<equiv> 183"
abbreviation JVM_OPC_invokestatic :: u1 where "JVM_OPC_invokestatic \<equiv> 184"
abbreviation JVM_OPC_new :: u1 where "JVM_OPC_new \<equiv> 187"
abbreviation JVM_OPC_anewarray :: u1 where "JVM_OPC_anewarray \<equiv> 189"
abbreviation JVM_OPC_checkcast :: u1 where "JVM_OPC_checkcast \<equiv> 192"
abbreviation JVM_OPC_instanceof :: u1 where "JVM_OPC_instanceof \<equiv> 193"
abbreviation JVM_OPC_invokeinterface :: u1 where "JVM_OPC_invokeinterface \<equiv> 185"
abbreviation JVM_OPC_invokedynamic :: u1 where "JVM_OPC_invokedynamic \<equiv> 186"
abbreviation JVM_OPC_multianewarray :: u1 where "JVM_OPC_multianewarray \<equiv> 197"
abbreviation JVM_OPC_ifeq :: u1 where "JVM_OPC_ifeq \<equiv> 153"
abbreviation JVM_OPC_ifne :: u1 where "JVM_OPC_ifne \<equiv> 154"
abbreviation JVM_OPC_iflt :: u1 where "JVM_OPC_iflt \<equiv> 155"
abbreviation JVM_OPC_ifge :: u1 where "JVM_OPC_ifge \<equiv> 156"
abbreviation JVM_OPC_ifgt :: u1 where "JVM_OPC_ifgt \<equiv> 157"
abbreviation JVM_OPC_ifle :: u1 where "JVM_OPC_ifle \<equiv> 158"
abbreviation JVM_OPC_if_icmpeq :: u1 where "JVM_OPC_if_icmpeq \<equiv> 159"
abbreviation JVM_OPC_if_icmpne :: u1 where "JVM_OPC_if_icmpne \<equiv> 160"
abbreviation JVM_OPC_if_icmplt :: u1 where "JVM_OPC_if_icmplt \<equiv> 161"
abbreviation JVM_OPC_if_icmpge :: u1 where "JVM_OPC_if_icmpge \<equiv> 162"
abbreviation JVM_OPC_if_icmpgt :: u1 where "JVM_OPC_if_icmpgt \<equiv> 163"
abbreviation JVM_OPC_if_icmple :: u1 where "JVM_OPC_if_icmple \<equiv> 164"
abbreviation JVM_OPC_if_acmpeq :: u1 where "JVM_OPC_if_acmpeq \<equiv> 165"
abbreviation JVM_OPC_if_acmpne :: u1 where "JVM_OPC_if_acmpne \<equiv> 166"
abbreviation JVM_OPC_goto :: u1 where "JVM_OPC_goto \<equiv> 167"
abbreviation JVM_OPC_jsr :: u1 where "JVM_OPC_jsr \<equiv> 168"
abbreviation JVM_OPC_ifnull :: u1 where "JVM_OPC_ifnull \<equiv> 198"
abbreviation JVM_OPC_ifnonnull :: u1 where "JVM_OPC_ifnonnull \<equiv> 199"
abbreviation JVM_OPC_goto_w :: u1 where "JVM_OPC_goto_w \<equiv> 200"
abbreviation JVM_OPC_jsr_w :: u1 where "JVM_OPC_jsr_w \<equiv> 201"
abbreviation JVM_OPC_tableswitch :: u1 where "JVM_OPC_tableswitch \<equiv> 170"
abbreviation JVM_OPC_lookupswitch :: u1 where "JVM_OPC_lookupswitch \<equiv> 171"
abbreviation JVM_OPC_wide :: u1 where "JVM_OPC_wide \<equiv> 196"
abbreviation JVM_OPC_aconst_null :: u1 where "JVM_OPC_aconst_null \<equiv> 1"
abbreviation JVM_OPC_dup :: u1 where "JVM_OPC_dup \<equiv> 89"
abbreviation JVM_OPC_dup_x1 :: u1 where "JVM_OPC_dup_x1 \<equiv> 90"
abbreviation JVM_OPC_dup_x2 :: u1 where "JVM_OPC_dup_x2 \<equiv> 91"
abbreviation JVM_OPC_dup2 :: u1 where "JVM_OPC_dup2 \<equiv> 92"
abbreviation JVM_OPC_pop :: u1 where "JVM_OPC_pop \<equiv> 87"
abbreviation JVM_OPC_pop2 :: u1 where "JVM_OPC_pop2 \<equiv> 88"
abbreviation JVM_OPC_swap :: u1 where "JVM_OPC_swap \<equiv> 95"
abbreviation JVM_OPC_ireturn :: u1 where "JVM_OPC_ireturn \<equiv> 172"
abbreviation JVM_OPC_lreturn :: u1 where "JVM_OPC_lreturn \<equiv> 173"
abbreviation JVM_OPC_freturn :: u1 where "JVM_OPC_freturn \<equiv> 174"
abbreviation JVM_OPC_dreturn :: u1 where "JVM_OPC_dreturn \<equiv> 175"
abbreviation JVM_OPC_areturn :: u1 where "JVM_OPC_areturn \<equiv> 176"
abbreviation JVM_OPC_return :: u1 where "JVM_OPC_return \<equiv> 177"
abbreviation JVM_OPC_athrow :: u1 where "JVM_OPC_athrow \<equiv> 191"
abbreviation JVM_OPC_nop :: u1 where "JVM_OPC_nop \<equiv> 0"
abbreviation JVM_OPC_iconst_0 :: u1 where "JVM_OPC_iconst_0 \<equiv> 3"
abbreviation JVM_OPC_iconst_5 :: u1 where "JVM_OPC_iconst_5 \<equiv> 8"
abbreviation JVM_OPC_lconst_0 :: u1 where "JVM_OPC_lconst_0 \<equiv> 9"
abbreviation JVM_OPC_lconst_1 :: u1 where "JVM_OPC_lconst_1 \<equiv> 10"
abbreviation JVM_OPC_fconst_0 :: u1 where "JVM_OPC_fconst_0 \<equiv> 11"
abbreviation JVM_OPC_fconst_2 :: u1 where "JVM_OPC_fconst_2 \<equiv> 13"
abbreviation JVM_OPC_dconst_0 :: u1 where "JVM_OPC_dconst_0 \<equiv> 14"
abbreviation JVM_OPC_dconst_1 :: u1 where "JVM_OPC_dconst_1 \<equiv> 15"
abbreviation JVM_OPC_iload_0 :: u1 where "JVM_OPC_iload_0 \<equiv> 26"
abbreviation JVM_OPC_iload_3 :: u1 where "JVM_OPC_iload_3 \<equiv> 29"
abbreviation JVM_OPC_lload_0 :: u1 where "JVM_OPC_lload_0 \<equiv> 30"
abbreviation JVM_OPC_lload_3 :: u1 where "JVM_OPC_lload_3 \<equiv> 33"
abbreviation JVM_OPC_fload_0 :: u1 where "JVM_OPC_fload_0 \<equiv> 34"
abbreviation JVM_OPC_fload_3 :: u1 where "JVM_OPC_fload_3 \<equiv> 37"
abbreviation JVM_OPC_dload_0 :: u1 where "JVM_OPC_dload_0 \<equiv> 38"
abbreviation JVM_OPC_dload_3 :: u1 where "JVM_OPC_dload_3 \<equiv> 41"
abbreviation JVM_OPC_aload_0 :: u1 where "JVM_OPC_aload_0 \<equiv> 42"
abbreviation JVM_OPC_aload_3 :: u1 where "JVM_OPC_aload_3 \<equiv> 45"
abbreviation JVM_OPC_iaload :: u1 where "JVM_OPC_iaload \<equiv> 46"
abbreviation JVM_OPC_laload :: u1 where "JVM_OPC_laload \<equiv> 47"
abbreviation JVM_OPC_daload :: u1 where "JVM_OPC_daload \<equiv> 49"
abbreviation JVM_OPC_saload :: u1 where "JVM_OPC_saload \<equiv> 53"
abbreviation JVM_OPC_istore_0 :: u1 where "JVM_OPC_istore_0 \<equiv> 59"
abbreviation JVM_OPC_istore_3 :: u1 where "JVM_OPC_istore_3 \<equiv> 62"
abbreviation JVM_OPC_lstore_0 :: u1 where "JVM_OPC_lstore_0 \<equiv> 63"
abbreviation JVM_OPC_lstore_3 :: u1 where "JVM_OPC_lstore_3 \<equiv> 66"
abbreviation JVM_OPC_fstore_0 :: u1 where "JVM_OPC_fstore_0 \<equiv> 67"
abbreviation JVM_OPC_fstore_3 :: u1 where "JVM_OPC_fstore_3 \<equiv> 70"
abbreviation JVM_OPC_dstore_0 :: u1 where "JVM_OPC_dstore_0 \<equiv> 71"
abbreviation JVM_OPC_dstore_3 :: u1 where "JVM_OPC_dstore_3 \<equiv> 74"
abbreviation JVM_OPC_astore_0 :: u1 where "JVM_OPC_astore_0 \<equiv> 75"
abbreviation JVM_OPC_astore_3 :: u1 where "JVM_OPC_astore_3 \<equiv> 78"
abbreviation JVM_OPC_iastore :: u1 where "JVM_OPC_iastore \<equiv> 79"
abbreviation JVM_OPC_lastore :: u1 where "JVM_OPC_lastore \<equiv> 80"
abbreviation JVM_OPC_dastore :: u1 where "JVM_OPC_dastore \<equiv> 82"
abbreviation JVM_OPC_sastore :: u1 where "JVM_OPC_sastore \<equiv> 86"
abbreviation JVM_OPC_dup2_x1 :: u1 where "JVM_OPC_dup2_x1 \<equiv> 93"
abbreviation JVM_OPC_dup2_x2 :: u1 where "JVM_OPC_dup2_x2 \<equiv> 94"
abbreviation JVM_OPC_iadd :: u1 where "JVM_OPC_iadd \<equiv> 96"
abbreviation JVM_OPC_drem :: u1 where "JVM_OPC_drem \<equiv> 115"
abbreviation JVM_OPC_ineg :: u1 where "JVM_OPC_ineg \<equiv> 116"
abbreviation JVM_OPC_dneg :: u1 where "JVM_OPC_dneg \<equiv> 119"
abbreviation JVM_OPC_ishl :: u1 where "JVM_OPC_ishl \<equiv> 120"
abbreviation JVM_OPC_lshl :: u1 where "JVM_OPC_lshl \<equiv> 121"
abbreviation JVM_OPC_ishr :: u1 where "JVM_OPC_ishr \<equiv> 122"
abbreviation JVM_OPC_lshr :: u1 where "JVM_OPC_lshr \<equiv> 123"
abbreviation JVM_OPC_iushr :: u1 where "JVM_OPC_iushr \<equiv> 124"
abbreviation JVM_OPC_lushr :: u1 where "JVM_OPC_lushr \<equiv> 125"
abbreviation JVM_OPC_iand :: u1 where "JVM_OPC_iand \<equiv> 126"
abbreviation JVM_OPC_lxor :: u1 where "JVM_OPC_lxor \<equiv> 131"
abbreviation JVM_OPC_i2l :: u1 where "JVM_OPC_i2l \<equiv> 133"
abbreviation JVM_OPC_i2f :: u1 where "JVM_OPC_i2f \<equiv> 134"
abbreviation JVM_OPC_i2d :: u1 where "JVM_OPC_i2d \<equiv> 135"
abbreviation JVM_OPC_l2i :: u1 where "JVM_OPC_l2i \<equiv> 136"
abbreviation JVM_OPC_l2f :: u1 where "JVM_OPC_l2f \<equiv> 137"
abbreviation JVM_OPC_l2d :: u1 where "JVM_OPC_l2d \<equiv> 138"
abbreviation JVM_OPC_f2i :: u1 where "JVM_OPC_f2i \<equiv> 139"
abbreviation JVM_OPC_f2l :: u1 where "JVM_OPC_f2l \<equiv> 140"
abbreviation JVM_OPC_f2d :: u1 where "JVM_OPC_f2d \<equiv> 141"
abbreviation JVM_OPC_d2i :: u1 where "JVM_OPC_d2i \<equiv> 142"
abbreviation JVM_OPC_d2l :: u1 where "JVM_OPC_d2l \<equiv> 143"
abbreviation JVM_OPC_d2f :: u1 where "JVM_OPC_d2f \<equiv> 144"
abbreviation JVM_OPC_i2s :: u1 where "JVM_OPC_i2s \<equiv> 147"
abbreviation JVM_OPC_lcmp :: u1 where "JVM_OPC_lcmp \<equiv> 148"
abbreviation JVM_OPC_fcmpl :: u1 where "JVM_OPC_fcmpl \<equiv> 149"
abbreviation JVM_OPC_fcmpg :: u1 where "JVM_OPC_fcmpg \<equiv> 150"
abbreviation JVM_OPC_dcmpl :: u1 where "JVM_OPC_dcmpl \<equiv> 151"
abbreviation JVM_OPC_dcmpg :: u1 where "JVM_OPC_dcmpg \<equiv> 152"
abbreviation JVM_OPC_arraylength :: u1 where "JVM_OPC_arraylength \<equiv> 190"
abbreviation JVM_OPC_monitorenter :: u1 where "JVM_OPC_monitorenter \<equiv> 194"
abbreviation JVM_OPC_monitorexit :: u1 where "JVM_OPC_monitorexit \<equiv> 195"
abbreviation JVM_OPC_MAX :: u1 where "JVM_OPC_MAX \<equiv> 201"

text \<open>The initialiser of the opcode length table; 99 marks the two switches.\<close>

definition opcode_length_table :: "u4 list" where
  "opcode_length_table =
     [1, 1, 1, 1, 1, 1, 1, 1, 1, 1, 1, 1, 1, 1, 1, 1, 2, 3, 2, 3,
      3, 2, 2, 2, 2, 2, 1, 1, 1, 1, 1, 1, 1, 1, 1, 1, 1, 1, 1, 1,
      1, 1, 1, 1, 1, 1, 1, 1, 1, 1, 1, 1, 1, 1, 2, 2, 2, 2, 2, 1,
      1, 1, 1, 1, 1, 1, 1, 1, 1, 1, 1, 1, 1, 1, 1, 1, 1, 1, 1, 1,
      1, 1, 1, 1, 1, 1, 1, 1, 1, 1, 1, 1, 1, 1, 1, 1, 1, 1, 1, 1,
      1, 1, 1, 1, 1, 1, 1, 1, 1, 1, 1, 1, 1, 1, 1, 1, 1, 1, 1, 1,
      1, 1, 1, 1, 1, 1, 1, 1, 1, 1, 1, 1, 3, 1, 1, 1, 1, 1, 1, 1,
      1, 1, 1, 1, 1, 1, 1, 1, 1, 1, 1, 1, 1, 3, 3, 3, 3, 3, 3, 3,
      3, 3, 3, 3, 3, 3, 3, 3, 3, 2, 99, 99, 1, 1, 1, 1, 1, 1, 3, 3,
      3, 3, 3, 3, 3, 5, 5, 3, 2, 3, 1, 1, 3, 3, 1, 1, 0, 4, 3, 3,
      5, 5]"

section \<open>C strings\<close>

type_synonym cstring = "u1 list"

definition cstr :: "string \<Rightarrow> cstring" where
  "cstr s = map (\<lambda>c. of_nat (of_char c)) s"

lemma cstr_simps [simp]: "cstr [] = []" "cstr (c # cs) = of_nat (of_char c) # cstr cs"
  by (simp_all add: cstr_def)

lemma length_cstr [simp]: "length (cstr s) = length s"
  by (simp add: cstr_def)

end
