(* ===== verification/Constant_Pool.thy ===== *)
theory Constant_Pool
  imports Byte_Stream JVM_Constants
begin

text \<open>
  The constant pool: \<^verbatim>\<open>visitors/cp_info.c\<close> and \<open>write_constant_pool\<close> of
  \<^verbatim>\<open>class_file_writer.c\<close>. The tagged union \<open>cp_info\<close> is a datatype with one
  constructor per tag; \<open>CP_None\<close> is the zeroed slot (tag 0) and \<open>CP_Other\<close> a
  hand-built node with a tag the format does not know. The pool's array is a
  list as long as its capacity, \<open>pool_count\<close> the stored count.

  Shown here: what the reader consumed is exactly what the writer emits, the
  reader accepts every well-formed pool, an appended entry is found again under
  the index it was given and no other index changes.
\<close>

section \<open>Data\<close>

datatype cp_info =
    CP_None
  | CP_Utf8 "u1 list"
  | CP_Integer "u1 list"
  | CP_Float "u1 list"
  | CP_Long "u1 list"
  | CP_Double "u1 list"
  | CP_Class u2
  | CP_String u2
  | CP_Fieldref u2 u2
  | CP_Methodref u2 u2
  | CP_InterfaceMethodref u2 u2
  | CP_NameAndType u2 u2
  | CP_MethodHandle u1 u2
  | CP_MethodType u2
  | CP_Dynamic u2 u2
  | CP_InvokeDynamic u2 u2
  | CP_Module u2
  | CP_Package u2
  | CP_Other u1

fun cp_tag :: "cp_info \<Rightarrow> u1" where
  "cp_tag CP_None = 0"
| "cp_tag (CP_Utf8 _) = JVM_CONSTANT_Utf8"
| "cp_tag (CP_Integer _) = JVM_CONSTANT_Integer"
| "cp_tag (CP_Float _) = JVM_CONSTANT_Float"
| "cp_tag (CP_Long _) = JVM_CONSTANT_Long"
| "cp_tag (CP_Double _) = JVM_CONSTANT_Double"
| "cp_tag (CP_Class _) = JVM_CONSTANT_Class"
| "cp_tag (CP_String _) = JVM_CONSTANT_String"
| "cp_tag (CP_Fieldref _ _) = JVM_CONSTANT_Fieldref"
| "cp_tag (CP_Methodref _ _) = JVM_CONSTANT_Methodref"
| "cp_tag (CP_InterfaceMethodref _ _) = JVM_CONSTANT_InterfaceMethodref"
| "cp_tag (CP_NameAndType _ _) = JVM_CONSTANT_NameAndType"
| "cp_tag (CP_MethodHandle _ _) = JVM_CONSTANT_MethodHandle"
| "cp_tag (CP_MethodType _) = JVM_CONSTANT_MethodType"
| "cp_tag (CP_Dynamic _ _) = JVM_CONSTANT_Dynamic"
| "cp_tag (CP_InvokeDynamic _ _) = JVM_CONSTANT_InvokeDynamic"
| "cp_tag (CP_Module _) = JVM_CONSTANT_Module"
| "cp_tag (CP_Package _) = JVM_CONSTANT_Package"
| "cp_tag (CP_Other t) = t"

record constant_pool =
  pool_entries :: "cp_info list"
  pool_count :: u2

abbreviation pool_capacity :: "constant_pool \<Rightarrow> nat" where
  "pool_capacity p \<equiv> length (pool_entries p)"

section \<open>Operations\<close>

definition cp_info_free :: "cp_info \<Rightarrow> cp_info" where
  "cp_info_free entry = CP_None"

definition cp_info_slots :: "u1 \<Rightarrow> u1" where
  "cp_info_slots tag = (if tag = JVM_CONSTANT_Long \<or> tag = JVM_CONSTANT_Double then 2 else 1)"

definition cp_info_tag_is_known :: "u1 \<Rightarrow> bool" where
  "cp_info_tag_is_known tag \<longleftrightarrow>
     tag \<in> set [JVM_CONSTANT_Utf8, JVM_CONSTANT_Integer, JVM_CONSTANT_Float, JVM_CONSTANT_Long,
       JVM_CONSTANT_Double, JVM_CONSTANT_Class, JVM_CONSTANT_String, JVM_CONSTANT_Fieldref,
       JVM_CONSTANT_Methodref, JVM_CONSTANT_InterfaceMethodref, JVM_CONSTANT_NameAndType,
       JVM_CONSTANT_MethodHandle, JVM_CONSTANT_MethodType, JVM_CONSTANT_Dynamic,
       JVM_CONSTANT_InvokeDynamic, JVM_CONSTANT_Module, JVM_CONSTANT_Package]"

text \<open>The entry is freed and overwritten by a Utf8 node that owns a copy of the bytes.\<close>

definition cp_info_set_utf8 :: "alloc \<Rightarrow> cp_info \<Rightarrow> u1 list \<Rightarrow> classfile_status \<times> cp_info" where
  "cp_info_set_utf8 mem entry bytes =
     (if \<not> mem Alloc_bytes (if length bytes \<noteq> 0 then length bytes else 1)
      then (CLASSFILE_ERR_OUT_OF_MEMORY, entry)
      else (CLASSFILE_OK, CP_Utf8 bytes))"

definition constant_pool_init :: constant_pool where
  "constant_pool_init = \<lparr>pool_entries = [], pool_count = 0\<rparr>"

definition constant_pool_free :: "constant_pool \<Rightarrow> constant_pool" where
  "constant_pool_free pool = constant_pool_init"

definition constant_pool_reserve :: "alloc \<Rightarrow> constant_pool \<Rightarrow> u2 \<Rightarrow> classfile_status \<times> constant_pool" where
  "constant_pool_reserve mem pool capacity =
     (if unat capacity \<le> pool_capacity pool then (CLASSFILE_OK, pool)
      else if \<not> mem Alloc_cp_info (unat capacity) then (CLASSFILE_ERR_OUT_OF_MEMORY, pool)
      else (CLASSFILE_OK,
            pool\<lparr>pool_entries := pool_entries pool @
                   replicate (unat capacity - pool_capacity pool) CP_None\<rparr>))"

text \<open>The capacity loop of \<open>constant_pool_append\<close>; it starts from a positive capacity.\<close>

function pool_grow :: "nat \<Rightarrow> nat \<Rightarrow> nat" where
  "pool_grow capacity needed =
     (if 0 < capacity \<and> capacity < needed
      then (if capacity * 2 > CLASSFILE_MAX_COUNT then CLASSFILE_MAX_COUNT
            else pool_grow (capacity * 2) needed)
      else capacity)"
  by pat_completeness auto
termination
  by (relation "measure (\<lambda>(capacity, needed). needed - capacity)") auto

declare pool_grow.simps [simp del]

definition constant_pool_append ::
  "alloc \<Rightarrow> constant_pool \<Rightarrow> cp_info \<Rightarrow> classfile_status \<times> constant_pool \<times> u2 option" where
  "constant_pool_append mem pool entry =
     (let slots = cp_info_slots (cp_tag entry);
          first = (if pool_count pool < 1 then 1 else pool_count pool)
      in if unat first + unat slots > CLASSFILE_MAX_COUNT
         then (CLASSFILE_ERR_LIMIT_EXCEEDED, pool, None)
         else
           let needed = first + ucast slots;
               capacity = pool_grow (if pool_capacity pool \<noteq> 0 then pool_capacity pool else 16)
                                    (unat needed);
               (status, pool') = constant_pool_reserve mem pool (of_nat capacity)
           in if status \<noteq> CLASSFILE_OK then (status, pool', None)
              else (CLASSFILE_OK,
                    pool'\<lparr>pool_entries := (pool_entries pool')[unat first := entry],
                          pool_count := needed\<rparr>,
                    Some first))"

definition constant_pool_at :: "constant_pool \<Rightarrow> u2 \<Rightarrow> cp_info option" where
  "constant_pool_at pool index =
     (if index = 0 \<or> index \<ge> pool_count pool then None
      else let entry = pool_entries pool ! unat index
           in if cp_tag entry = 0 then None else Some entry)"

definition constant_pool_utf8 :: "constant_pool \<Rightarrow> u2 \<Rightarrow> u1 list option" where
  "constant_pool_utf8 pool index =
     (case constant_pool_at pool index of
        Some (CP_Utf8 bytes) \<Rightarrow> Some bytes
      | _ \<Rightarrow> None)"

definition constant_pool_utf8_equals :: "constant_pool \<Rightarrow> u2 \<Rightarrow> cstring \<Rightarrow> bool" where
  "constant_pool_utf8_equals pool index text =
     (case constant_pool_utf8 pool index of
        None \<Rightarrow> False
      | Some bytes \<Rightarrow> length bytes = length text \<and> bytes = text)"

section \<open>Reading\<close>

text \<open>
  One pass of the loop body: the tag and the operands it selects. An operand
  read that ran past the end is caught by the check behind the switch, so such a
  result carries a latched cursor.
\<close>

definition constant_pool_read_entry :: "alloc \<Rightarrow> byte_cursor \<Rightarrow> classfile_status + cp_info \<times> byte_cursor" where
  "constant_pool_read_entry mem c =
     (let (tag, c) = byte_cursor_u1 c in
      if tag = JVM_CONSTANT_Utf8 then
        let (len, c) = byte_cursor_u2 c in
        (case byte_cursor_bytes c (unat len) of
           (None, c) \<Rightarrow> Inl CLASSFILE_ERR_TRUNCATED
         | (Some bytes, c) \<Rightarrow>
             (case cp_info_set_utf8 mem CP_None bytes of
                (status, entry) \<Rightarrow>
                  if status \<noteq> CLASSFILE_OK then Inl status else Inr (entry, c)))
      else if tag = JVM_CONSTANT_Integer \<or> tag = JVM_CONSTANT_Float then
        (case byte_cursor_bytes c 4 of
           (None, c) \<Rightarrow> Inl CLASSFILE_ERR_TRUNCATED
         | (Some v, c) \<Rightarrow> Inr (if tag = JVM_CONSTANT_Integer then CP_Integer v else CP_Float v, c))
      else if tag = JVM_CONSTANT_Long \<or> tag = JVM_CONSTANT_Double then
        (case byte_cursor_bytes c 8 of
           (None, c) \<Rightarrow> Inl CLASSFILE_ERR_TRUNCATED
         | (Some v, c) \<Rightarrow> Inr (if tag = JVM_CONSTANT_Long then CP_Long v else CP_Double v, c))
      else if tag = JVM_CONSTANT_Class then let (a, c) = byte_cursor_u2 c in Inr (CP_Class a, c)
      else if tag = JVM_CONSTANT_Module then let (a, c) = byte_cursor_u2 c in Inr (CP_Module a, c)
      else if tag = JVM_CONSTANT_Package then let (a, c) = byte_cursor_u2 c in Inr (CP_Package a, c)
      else if tag = JVM_CONSTANT_String then let (a, c) = byte_cursor_u2 c in Inr (CP_String a, c)
      else if tag = JVM_CONSTANT_Fieldref then
        let (a, c) = byte_cursor_u2 c; (b, c) = byte_cursor_u2 c in Inr (CP_Fieldref a b, c)
      else if tag = JVM_CONSTANT_Methodref then
        let (a, c) = byte_cursor_u2 c; (b, c) = byte_cursor_u2 c in Inr (CP_Methodref a b, c)
      else if tag = JVM_CONSTANT_InterfaceMethodref then
        let (a, c) = byte_cursor_u2 c; (b, c) = byte_cursor_u2 c
        in Inr (CP_InterfaceMethodref a b, c)
      else if tag = JVM_CONSTANT_NameAndType then
        let (a, c) = byte_cursor_u2 c; (b, c) = byte_cursor_u2 c in Inr (CP_NameAndType a b, c)
      else if tag = JVM_CONSTANT_MethodHandle then
        let (a, c) = byte_cursor_u1 c; (b, c) = byte_cursor_u2 c in Inr (CP_MethodHandle a b, c)
      else if tag = JVM_CONSTANT_MethodType then
        let (a, c) = byte_cursor_u2 c in Inr (CP_MethodType a, c)
      else if tag = JVM_CONSTANT_Dynamic then
        let (a, c) = byte_cursor_u2 c; (b, c) = byte_cursor_u2 c in Inr (CP_Dynamic a b, c)
      else if tag = JVM_CONSTANT_InvokeDynamic then
        let (a, c) = byte_cursor_u2 c; (b, c) = byte_cursor_u2 c in Inr (CP_InvokeDynamic a b, c)
      else Inl (if cur_ok c then CLASSFILE_ERR_CONSTANT_TAG else CLASSFILE_ERR_TRUNCATED))"

abbreviation two_slots :: "cp_info \<Rightarrow> bool" where
  "two_slots e \<equiv> cp_info_slots (cp_tag e) = 2"

function constant_pool_read_loop ::
  "alloc \<Rightarrow> nat \<Rightarrow> byte_cursor \<Rightarrow> nat \<Rightarrow> cp_info list \<Rightarrow> classfile_status + cp_info list \<times> byte_cursor" where
  "constant_pool_read_loop mem count c i entries =
     (if i < count then
        (case constant_pool_read_entry mem c of
           Inl status \<Rightarrow> Inl status
         | Inr (entry, c') \<Rightarrow>
             if two_slots entry \<and> i + 1 \<ge> count then Inl CLASSFILE_ERR_CONSTANT_INDEX
             else if \<not> cur_ok c' then Inl CLASSFILE_ERR_TRUNCATED
             else constant_pool_read_loop mem count c' (if two_slots entry then i + 2 else i + 1)
                    (entries[i := entry]))
      else Inr (entries, c))"
  by pat_completeness auto
termination
  by (relation "measure (\<lambda>(mem, count, c, i, entries). count - i)") auto

declare constant_pool_read_loop.simps [simp del]

definition constant_pool_read ::
  "alloc \<Rightarrow> byte_cursor \<Rightarrow> constant_pool \<Rightarrow> classfile_status + constant_pool \<times> byte_cursor" where
  "constant_pool_read mem c pool =
     (let (count, c) = byte_cursor_u2 c in
      if \<not> cur_ok c then Inl CLASSFILE_ERR_TRUNCATED
      else if count < 1 then Inl CLASSFILE_ERR_CONSTANT_INDEX
      else
        let (reserved, pool) = constant_pool_reserve mem pool count in
        if reserved \<noteq> CLASSFILE_OK then Inl reserved
        else
          (case constant_pool_read_loop mem (unat count) c 1 (pool_entries pool) of
             Inl status \<Rightarrow> Inl status
           | Inr (entries, c) \<Rightarrow> Inr (pool\<lparr>pool_entries := entries, pool_count := count\<rparr>, c)))"

section \<open>Writing\<close>

definition write_cp_info :: "alloc \<Rightarrow> cp_info \<Rightarrow> byte_buffer \<Rightarrow> classfile_status + byte_buffer" where
  "write_cp_info mem entry b =
     (if cp_tag entry = 0 then Inr b
      else
        let b = byte_buffer_u1 mem (cp_tag entry) b in
        case entry of
          CP_Utf8 bytes \<Rightarrow> Inr (byte_buffer_bytes mem bytes
                                 (byte_buffer_u2 mem (of_nat (length bytes)) b))
        | CP_Integer v \<Rightarrow> Inr (byte_buffer_bytes mem v b)
        | CP_Float v \<Rightarrow> Inr (byte_buffer_bytes mem v b)
        | CP_Long v \<Rightarrow> Inr (byte_buffer_bytes mem v b)
        | CP_Double v \<Rightarrow> Inr (byte_buffer_bytes mem v b)
        | CP_Class a \<Rightarrow> Inr (byte_buffer_u2 mem a b)
        | CP_Module a \<Rightarrow> Inr (byte_buffer_u2 mem a b)
        | CP_Package a \<Rightarrow> Inr (byte_buffer_u2 mem a b)
        | CP_String a \<Rightarrow> Inr (byte_buffer_u2 mem a b)
        | CP_Fieldref x y \<Rightarrow> Inr (byte_buffer_u2 mem y (byte_buffer_u2 mem x b))
        | CP_Methodref x y \<Rightarrow> Inr (byte_buffer_u2 mem y (byte_buffer_u2 mem x b))
        | CP_InterfaceMethodref x y \<Rightarrow> Inr (byte_buffer_u2 mem y (byte_buffer_u2 mem x b))
        | CP_NameAndType x y \<Rightarrow> Inr (byte_buffer_u2 mem y (byte_buffer_u2 mem x b))
        | CP_MethodHandle x y \<Rightarrow> Inr (byte_buffer_u2 mem y (byte_buffer_u1 mem x b))
        | CP_MethodType a \<Rightarrow> Inr (byte_buffer_u2 mem a b)
        | CP_Dynamic x y \<Rightarrow> Inr (byte_buffer_u2 mem y (byte_buffer_u2 mem x b))
        | CP_InvokeDynamic x y \<Rightarrow> Inr (byte_buffer_u2 mem y (byte_buffer_u2 mem x b))
        | _ \<Rightarrow> Inl CLASSFILE_ERR_UNSUPPORTED)"

fun write_cp_entries :: "alloc \<Rightarrow> cp_info list \<Rightarrow> byte_buffer \<Rightarrow> classfile_status + byte_buffer" where
  "write_cp_entries mem [] b = Inr b"
| "write_cp_entries mem (e # es) b =
     (case write_cp_info mem e b of Inl status \<Rightarrow> Inl status | Inr b \<Rightarrow> write_cp_entries mem es b)"

text \<open>The slots \<open>1, \<dots>, count - 1\<close>, which the writer's loop visits.\<close>

definition pool_used :: "constant_pool \<Rightarrow> cp_info list" where
  "pool_used pool = take (unat (pool_count pool) - 1) (drop 1 (pool_entries pool))"

definition write_constant_pool :: "alloc \<Rightarrow> constant_pool \<Rightarrow> byte_buffer \<Rightarrow> classfile_status + byte_buffer" where
  "write_constant_pool mem pool b =
     write_cp_entries mem (pool_used pool) (byte_buffer_u2 mem (pool_count pool) b)"

section \<open>The encoding and well-formed pools\<close>

text \<open>JVMS 4.4: the bytes of one entry; an unusable slot has none.\<close>

fun enc_cp_body :: "cp_info \<Rightarrow> u1 list" where
  "enc_cp_body (CP_Utf8 bs) = be2 (of_nat (length bs)) @ bs"
| "enc_cp_body (CP_Integer v) = v"
| "enc_cp_body (CP_Float v) = v"
| "enc_cp_body (CP_Long v) = v"
| "enc_cp_body (CP_Double v) = v"
| "enc_cp_body (CP_Class a) = be2 a"
| "enc_cp_body (CP_String a) = be2 a"
| "enc_cp_body (CP_Fieldref a b) = be2 a @ be2 b"
| "enc_cp_body (CP_Methodref a b) = be2 a @ be2 b"
| "enc_cp_body (CP_InterfaceMethodref a b) = be2 a @ be2 b"
| "enc_cp_body (CP_NameAndType a b) = be2 a @ be2 b"
| "enc_cp_body (CP_MethodHandle k a) = be1 k @ be2 a"
| "enc_cp_body (CP_MethodType a) = be2 a"
| "enc_cp_body (CP_Dynamic a b) = be2 a @ be2 b"
| "enc_cp_body (CP_InvokeDynamic a b) = be2 a @ be2 b"
| "enc_cp_body (CP_Module a) = be2 a"
| "enc_cp_body (CP_Package a) = be2 a"
| "enc_cp_body _ = []"

definition enc_cp :: "cp_info \<Rightarrow> u1 list" where
  "enc_cp e = (if cp_tag e = 0 then [] else be1 (cp_tag e) @ enc_cp_body e)"

definition enc_pool :: "constant_pool \<Rightarrow> u1 list" where
  "enc_pool pool = be2 (pool_count pool) @ concat (map enc_cp (pool_used pool))"

text \<open>An entry a class file can hold: the lengths fit their fields.\<close>

fun wf_cp :: "cp_info \<Rightarrow> bool" where
  "wf_cp (CP_Utf8 bs) \<longleftrightarrow> length bs < 65536"
| "wf_cp (CP_Integer v) \<longleftrightarrow> length v = 4"
| "wf_cp (CP_Float v) \<longleftrightarrow> length v = 4"
| "wf_cp (CP_Long v) \<longleftrightarrow> length v = 8"
| "wf_cp (CP_Double v) \<longleftrightarrow> length v = 8"
| "wf_cp CP_None \<longleftrightarrow> False"
| "wf_cp (CP_Other t) \<longleftrightarrow> False"
| "wf_cp _ \<longleftrightarrow> True"

text \<open>JVMS 4.4.5: a Long or a Double owns the slot behind it, and no other slot is empty.\<close>

fun wf_slots :: "cp_info list \<Rightarrow> bool" where
  "wf_slots [] \<longleftrightarrow> True"
| "wf_slots [e] \<longleftrightarrow> wf_cp e \<and> \<not> two_slots e"
| "wf_slots (e # f # es) \<longleftrightarrow>
     wf_cp e \<and> (if two_slots e then f = CP_None \<and> wf_slots es else wf_slots (f # es))"

definition pool_inv :: "constant_pool \<Rightarrow> bool" where
  "pool_inv pool \<longleftrightarrow>
     unat (pool_count pool) \<le> pool_capacity pool \<and> pool_capacity pool \<le> CLASSFILE_MAX_COUNT \<and>
     (\<forall>i. i = 0 \<or> unat (pool_count pool) \<le> i \<longrightarrow> i < pool_capacity pool \<longrightarrow>
          pool_entries pool ! i = CP_None) \<and>
     wf_slots (pool_used pool)"

definition wf_pool :: "constant_pool \<Rightarrow> bool" where
  "wf_pool pool \<longleftrightarrow> pool_inv pool \<and> 1 \<le> unat (pool_count pool)"

lemma wf_slots_step:
  "wf_slots (e # es) \<longleftrightarrow>
     wf_cp e \<and> (if two_slots e then \<exists>es'. es = CP_None # es' \<and> wf_slots es' else wf_slots es)"
  by (cases es) auto

lemma cp_tag_known: "wf_cp e \<Longrightarrow> cp_tag e \<noteq> 0"
  by (cases e) auto

lemma cp_tag_is_known_iff_writable: "wf_cp e \<Longrightarrow> cp_info_tag_is_known (cp_tag e)"
  by (cases e) (auto simp: cp_info_tag_is_known_def)

lemma two_slots_iff: "two_slots e \<longleftrightarrow> cp_tag e = JVM_CONSTANT_Long \<or> cp_tag e = JVM_CONSTANT_Double"
  by (simp add: cp_info_slots_def)

subsection \<open>Reading is decoding\<close>

lemma read_entry_sound:
  assumes "constant_pool_read_entry mem c = Inr (e, c')" "cur_ok c'"
  shows "spans c (enc_cp e) c'" "wf_cp e"
proof -
  obtain tag c1 where t: "byte_cursor_u1 c = (tag, c1)" by (metis surj_pair)
  have "cur_ok c1 \<and> wf_cp e \<and> cp_tag e = tag \<and> spans c1 (enc_cp_body e) c'"
    using assms t
    apply (simp add: constant_pool_read_entry_def split: if_split_asm)
    apply (auto simp: cp_info_set_utf8_def byte_cursor_bytes_iff spans_append unsigned_eq_0_iff
        split: prod.splits option.splits if_splits dest: spans_ok read_u1D read_u2D)
    apply (blast dest: spans_ok read_u1D read_u2D)+
    done
  moreover have "cp_tag e \<noteq> 0" using calculation cp_tag_known by blast
  ultimately show "spans c (enc_cp e) c'" "wf_cp e"
    using t byte_cursor_u1_spans by (auto simp: enc_cp_def intro: spans_trans)
qed

lemma read_entry_complete:
  assumes "spans c (enc_cp e) c'" "wf_cp e" "alloc_total mem"
  shows "constant_pool_read_entry mem c = Inr (e, c')"
proof -
  from assms(1) obtain c1 where "spans c (be1 (cp_tag e)) c1" and b: "spans c1 (enc_cp_body e) c'"
    by (auto simp: enc_cp_def cp_tag_known [OF assms(2)] spans_append)
  then have "byte_cursor_u1 c = (cp_tag e, c1)" by (simp add: spans_u1)
  with b assms(2,3) show ?thesis
    apply (cases e)
    apply (auto simp: constant_pool_read_entry_def cp_info_set_utf8_def spans_append alloc_total_def
          dest!: spans_eval)
    apply (auto simp: cp_info_set_utf8_def dest!: spans_bytes)
    done
qed

lemma read_loop_sound:
  assumes "constant_pool_read_loop mem count c i entries = Inr (entries', c')"
    and "length entries = count" "i \<le> count" "cur_ok c"
    and "\<forall>j. i \<le> j \<longrightarrow> j < count \<longrightarrow> entries ! j = CP_None"
  shows "\<exists>used. entries' = take i entries @ used \<and> length used = count - i \<and> wf_slots used \<and>
           spans c (concat (map enc_cp used)) c'"
  using assms
proof (induction mem count c i entries rule: constant_pool_read_loop.induct)
  case (1 mem count c i entries)
  show ?case
  proof (cases "i < count")
    case False
    with "1.prems" show ?thesis
      by (auto simp: constant_pool_read_loop.simps [of mem count c i entries])
  next
    case True
    with "1.prems"(1) obtain e d where e: "constant_pool_read_entry mem c = Inr (e, d)"
      and fits: "\<not> (two_slots e \<and> i + 1 \<ge> count)" and ok: "cur_ok d"
      and rest: "constant_pool_read_loop mem count d (if two_slots e then i + 2 else i + 1)
                   (entries[i := e]) = Inr (entries', c')"
      by (auto simp: constant_pool_read_loop.simps [of mem count c i entries]
          split: sum.splits prod.splits if_splits)
    let ?k = "if two_slots e then i + 2 else i + 1"
    have IH: "\<exists>used. entries' = take ?k (entries[i := e]) @ used \<and> length used = count - ?k \<and>
        wf_slots used \<and> spans d (concat (map enc_cp used)) c'"
      using "1.IH" [OF True e refl fits] ok rest "1.prems" True fits by auto
    then obtain used where u: "entries' = take ?k (entries[i := e]) @ used" "length used = count - ?k"
      "wf_slots used" "spans d (concat (map enc_cp used)) c'" by blast
    note sound = read_entry_sound [OF e ok]
    let ?used = "if two_slots e then e # CP_None # used else e # used"
    have "take ?k (entries[i := e]) @ used = take i entries @ ?used"
      using "1.prems"(2,5) True fits by (auto simp: take_Suc_conv_app_nth)
    moreover have "length ?used = count - i" using u(2) True fits by auto
    moreover have "wf_slots ?used" using u(3) sound(2) by (simp add: wf_slots_step)
    moreover have "spans c (concat (map enc_cp ?used)) c'"
      using spans_trans [OF sound(1) u(4)] by (simp add: enc_cp_def)
    ultimately show ?thesis using u(1) by metis
  qed
qed

lemma read_loop_complete:
  assumes "wf_slots used" "alloc_total mem" "length used = count - i" "length entries = count"
    "i \<le> count" "\<forall>j. i \<le> j \<longrightarrow> j < count \<longrightarrow> entries ! j = CP_None"
    "spans c (concat (map enc_cp used)) c'"
  shows "constant_pool_read_loop mem count c i entries = Inr (take i entries @ used, c')"
  using assms
proof (induction used arbitrary: c i entries rule: length_induct)
  case (1 used)
  show ?case
  proof (cases used)
    case Nil
    with "1.prems" show ?thesis
      by (subst constant_pool_read_loop.simps) simp
  next
    case (Cons e es)
    with "1.prems" have lt: "i < count" by auto
    from "1.prems"(7) Cons obtain d where d: "spans c (enc_cp e) d" "spans d (concat (map enc_cp es)) c'"
      by (auto simp: spans_append)
    have e: "wf_cp e" using "1.prems"(1) Cons by (simp add: wf_slots_step)
    note rd = read_entry_complete [OF d(1) e "1.prems"(2)]
    have ok: "cur_ok d" using d(1) spans_ok by blast
    show ?thesis
    proof (cases "two_slots e")
      case True
      with "1.prems"(1) Cons obtain es' where es': "es = CP_None # es'" "wf_slots es'"
        by (auto simp: wf_slots_step)
      have "constant_pool_read_loop mem count d (i + 2) (entries[i := e]) =
              Inr (take (i + 2) (entries[i := e]) @ es', c')"
        using "1.IH" [rule_format, of es' "i + 2" "entries[i := e]" d] "1.prems" Cons es' d(2)
        by (auto simp: enc_cp_def)
      moreover have "take (i + 2) (entries[i := e]) = take i entries @ [e, CP_None]"
        using "1.prems" lt Cons es' by (auto simp: take_Suc_conv_app_nth)
      moreover have "i + 1 < count" using "1.prems"(3) Cons es' by auto
      ultimately show ?thesis
        using rd ok lt True Cons es' by (simp add: constant_pool_read_loop.simps [of mem count c i entries])
    next
      case False
      then have "constant_pool_read_loop mem count d (i + 1) (entries[i := e]) =
              Inr (take (i + 1) (entries[i := e]) @ es, c')"
        using "1.IH" [rule_format, of es "i + 1" "entries[i := e]" d] "1.prems" Cons d(2)
        by (auto simp: wf_slots_step)
      moreover have "take (i + 1) (entries[i := e]) = take i entries @ [e]"
        using "1.prems" lt by (auto simp: take_Suc_conv_app_nth)
      ultimately show ?thesis
        using rd ok lt False Cons by (simp add: constant_pool_read_loop.simps [of mem count c i entries])
    qed
  qed
qed

lemma constant_pool_read_sound:
  assumes "constant_pool_read mem c constant_pool_init = Inr (pool, c')"
  shows "spans c (enc_pool pool) c'" "wf_pool pool"
proof -
  obtain count c1 where r: "byte_cursor_u2 c = (count, c1)" by (metis surj_pair)
  let ?es = "replicate (unat count) CP_None"
  from assms r have ok: "cur_ok c1" and pos: "1 \<le> unat count"
    by (auto simp: constant_pool_read_def constant_pool_init_def word_less_nat_alt split: if_splits)
  from assms r ok pos obtain entries where l: "constant_pool_read_loop mem (unat count) c1 1 ?es = Inr (entries, c')"
    and pool: "pool = \<lparr>pool_entries = entries, pool_count = count\<rparr>"
    by (auto simp: constant_pool_read_def constant_pool_init_def constant_pool_reserve_def
        split: if_splits sum.splits prod.splits)
  from read_loop_sound [OF l] ok pos obtain used where u: "entries = take 1 ?es @ used"
    "length used = unat count - 1" "wf_slots used" "spans c1 (concat (map enc_cp used)) c'"
    by auto
  have used: "pool_used pool = used" using u pos pool by (simp add: pool_used_def)
  with u(4) r ok pool show "spans c (enc_pool pool) c'"
    by (auto simp: enc_pool_def intro: spans_trans byte_cursor_u2_spans)
  show "wf_pool pool"
    using u used pos pool
    by (auto simp: wf_pool_def pool_inv_def CLASSFILE_MAX_COUNT_def nth_append take_Suc)
qed

text \<open>The reader rebuilds the pool with exactly the stored count as capacity.\<close>

definition pool_trim :: "constant_pool \<Rightarrow> constant_pool" where
  "pool_trim pool = pool\<lparr>pool_entries := take (unat (pool_count pool)) (pool_entries pool)\<rparr>"

lemma pool_entries_split:
  assumes "wf_pool pool"
  shows "take (unat (pool_count pool)) (pool_entries pool) = CP_None # pool_used pool"
proof -
  obtain e es where es: "pool_entries pool = e # es"
    using assms by (cases "pool_entries pool") (auto simp: wf_pool_def pool_inv_def)
  with assms have "e = CP_None" by (auto simp: wf_pool_def pool_inv_def)
  with es assms show ?thesis
    by (cases "unat (pool_count pool)") (auto simp: pool_used_def wf_pool_def)
qed

lemma constant_pool_read_complete:
  assumes "wf_pool pool" "alloc_total mem" "spans c (enc_pool pool) c'"
  shows "constant_pool_read mem c constant_pool_init = Inr (pool_trim pool, c')"
proof -
  let ?n = "unat (pool_count pool)"
  from assms(3) obtain c1 where c1: "spans c (be2 (pool_count pool)) c1"
    and us: "spans c1 (concat (map enc_cp (pool_used pool))) c'"
    by (auto simp: enc_pool_def spans_append)
  have pos: "1 \<le> ?n" and len: "length (pool_used pool) = ?n - 1"
    using assms(1) by (auto simp: wf_pool_def pool_inv_def pool_used_def)
  have "constant_pool_read_loop mem ?n c1 1 (replicate ?n CP_None) =
          Inr (take 1 (replicate ?n CP_None) @ pool_used pool, c')"
    using read_loop_complete [OF _ assms(2) len _ pos _ us] assms(1)
    by (auto simp: wf_pool_def pool_inv_def)
  moreover have "take 1 (replicate ?n CP_None) @ pool_used pool = take ?n (pool_entries pool)"
    using pos pool_entries_split [OF assms(1)] by (simp add: take_replicate min_def)
  moreover have "cur_ok c1" using c1 spans_ok by blast
  ultimately show ?thesis
    using c1 pos assms(2)
    by (auto simp: constant_pool_read_def constant_pool_init_def constant_pool_reserve_def
        pool_trim_def alloc_total_def word_less_nat_alt dest!: spans_u2)
qed

subsection \<open>Writing is encoding\<close>

lemma write_cp_info_emits:
  assumes "wf_cp e \<or> e = CP_None"
  shows "\<exists>f. (\<forall>b. write_cp_info mem e b = Inr (f b)) \<and> emits mem f (enc_cp e)"
proof (cases "e = CP_None")
  case True
  then show ?thesis
    by (intro exI [of _ "\<lambda>b. b"]) (simp add: write_cp_info_def enc_cp_def emits_id)
next
  case False
  note tag = emits_comp [OF emits_u1 [of mem "cp_tag e"]]
  note forms = tag [OF emits_u2] tag [OF emits_bytes] tag [OF emits_comp [OF emits_u2 emits_u2]]
    tag [OF emits_comp [OF emits_u1 emits_u2]] tag [OF emits_comp [OF emits_u2 emits_bytes]]
  from False assms have "wf_cp e" by simp
  then show ?thesis
    using forms
    by (cases e) (auto simp: write_cp_info_def enc_cp_def Let_def intro!: exI)
qed

lemma write_cp_entries_emits:
  "list_all (\<lambda>e. wf_cp e \<or> e = CP_None) es \<Longrightarrow>
   \<exists>f. (\<forall>b. write_cp_entries mem es b = Inr (f b)) \<and> emits mem f (concat (map enc_cp es))"
proof (induction es)
  case Nil
  then show ?case by (auto intro!: exI [of _ "\<lambda>b. b"] emits_id)
next
  case (Cons e es)
  then obtain f g where f: "\<forall>b. write_cp_info mem e b = Inr (f b)" "emits mem f (enc_cp e)"
    and g: "\<forall>b. write_cp_entries mem es b = Inr (g b)" "emits mem g (concat (map enc_cp es))"
    using write_cp_info_emits [of e mem] by auto
  then show ?case
    using emits_comp [OF f(2) g(2)] by (auto intro!: exI [of _ "\<lambda>b. g (f b)"])
qed

lemma wf_slots_writable: "wf_slots es \<Longrightarrow> list_all (\<lambda>e. wf_cp e \<or> e = CP_None) es"
  by (induction es rule: wf_slots.induct) (auto split: if_splits)

lemma write_constant_pool_emits:
  assumes "pool_inv pool"
  shows "\<exists>f. (\<forall>b. write_constant_pool mem pool b = Inr (f b)) \<and> emits mem f (enc_pool pool)"
proof -
  from assms have "wf_slots (pool_used pool)" by (simp add: pool_inv_def)
  from write_cp_entries_emits [OF wf_slots_writable [OF this]] obtain f
    where f: "\<forall>b. write_cp_entries mem (pool_used pool) b = Inr (f b)"
      "emits mem f (concat (map enc_cp (pool_used pool)))" by blast
  from emits_comp [OF emits_u2 f(2), of "pool_count pool"] f(1) show ?thesis
    unfolding write_constant_pool_def enc_pool_def
    by (auto intro!: exI [of _ "\<lambda>b. f (byte_buffer_u2 mem (pool_count pool) b)"])
qed

section \<open>Appending\<close>

lemma pool_inv_init [simp]: "pool_inv constant_pool_init"
  by (simp add: pool_inv_def constant_pool_init_def pool_used_def)

lemma pool_grow_bounds:
  "0 < capacity \<Longrightarrow> capacity \<le> CLASSFILE_MAX_COUNT \<Longrightarrow> needed \<le> CLASSFILE_MAX_COUNT \<Longrightarrow>
   needed \<le> pool_grow capacity needed \<and> capacity \<le> pool_grow capacity needed \<and>
   pool_grow capacity needed \<le> CLASSFILE_MAX_COUNT"
proof (induction capacity needed rule: pool_grow.induct)
  case (1 capacity needed)
  then show ?case
    by (cases "capacity < needed"; cases "capacity * 2 > CLASSFILE_MAX_COUNT")
       (auto simp: pool_grow.simps [of capacity needed])
qed

lemma unat_slots: "unat (cp_info_slots t) = (if t = JVM_CONSTANT_Long \<or> t = JVM_CONSTANT_Double then 2 else 1)"
  by (simp add: cp_info_slots_def)

text \<open>The index an append hands out: the stored count, or 1 in a pool that has none yet.\<close>

definition pool_next :: "constant_pool \<Rightarrow> u2" where
  "pool_next pool = (if pool_count pool < 1 then 1 else pool_count pool)"

lemma pool_next_pos: "1 \<le> unat (pool_next pool)"
  by (auto simp: pool_next_def word_less_nat_alt)

lemma constant_pool_append_cases:
  assumes "pool_inv pool" "constant_pool_append mem pool entry = (st, pool', idx)"
  shows "st = CLASSFILE_ERR_LIMIT_EXCEEDED \<and> pool' = pool \<and> idx = None \<and>
           unat (pool_next pool) + unat (cp_info_slots (cp_tag entry)) > CLASSFILE_MAX_COUNT \<or>
         st = CLASSFILE_ERR_OUT_OF_MEMORY \<and> pool' = pool \<and> idx = None \<and> (\<exists>n. \<not> mem Alloc_cp_info n) \<or>
         st = CLASSFILE_OK \<and> idx = Some (pool_next pool) \<and>
           unat (pool_count pool') = unat (pool_next pool) + unat (cp_info_slots (cp_tag entry)) \<and>
           (\<exists>k. pool_entries pool' =
                  (pool_entries pool @ replicate k CP_None)[unat (pool_next pool) := entry]) \<and>
           unat (pool_count pool') \<le> pool_capacity pool' \<and> pool_capacity pool' \<le> CLASSFILE_MAX_COUNT"
proof (cases "unat (pool_next pool) + unat (cp_info_slots (cp_tag entry)) > CLASSFILE_MAX_COUNT")
  case True
  with assms(2) show ?thesis by (auto simp: constant_pool_append_def pool_next_def Let_def)
next
  case False
  let ?need = "pool_next pool + ucast (cp_info_slots (cp_tag entry))"
  let ?cap = "if pool_capacity pool \<noteq> 0 then pool_capacity pool else 16"
  let ?g = "pool_grow ?cap (unat ?need)"
  have need: "unat ?need = unat (pool_next pool) + unat (cp_info_slots (cp_tag entry))"
    using False by (auto simp: cp_info_slots_def unat_word_ariths CLASSFILE_MAX_COUNT_def split: if_splits)
  have cap: "0 < ?cap" "?cap \<le> CLASSFILE_MAX_COUNT"
    using assms(1) by (auto simp: pool_inv_def CLASSFILE_MAX_COUNT_def)
  have g: "unat ?need \<le> ?g" "?cap \<le> ?g" "?g \<le> CLASSFILE_MAX_COUNT"
    using pool_grow_bounds [OF cap, of "unat ?need"] need False by auto
  have gw: "unat (of_nat ?g :: u2) = ?g" using g(3) by (simp add: CLASSFILE_MAX_COUNT_def)
  obtain rs p where rs: "constant_pool_reserve mem pool (of_nat ?g) = (rs, p)" by (metis surj_pair)
  show ?thesis
  proof (cases "rs = CLASSFILE_OK")
    case False
    with rs have "rs = CLASSFILE_ERR_OUT_OF_MEMORY" "p = pool" "\<not> mem Alloc_cp_info ?g"
      using gw by (auto simp: constant_pool_reserve_def split: if_splits)
    with assms(2) rs False \<open>\<not> unat (pool_next pool) + _ > _\<close> show ?thesis
      by (auto simp: constant_pool_append_def pool_next_def Let_def split: if_splits)
  next
    case True
    with rs gw g have p: "pool_entries p = pool_entries pool @ replicate (?g - pool_capacity pool) CP_None"
      "pool_count p = pool_count pool"
      by (auto simp: constant_pool_reserve_def split: if_splits)
    have "st = CLASSFILE_OK \<and> idx = Some (pool_next pool) \<and>
        pool' = p\<lparr>pool_entries := (pool_entries p)[unat (pool_next pool) := entry], pool_count := ?need\<rparr>"
      using assms(2) rs True \<open>\<not> unat (pool_next pool) + _ > _\<close>
      by (auto simp: constant_pool_append_def pool_next_def Let_def split: if_splits)
    moreover have "pool_capacity p = ?g" using p g(2) by (auto split: if_splits)
    ultimately show ?thesis using p need g by auto
  qed
qed

lemma constant_pool_append_ok:
  assumes "pool_inv pool" "constant_pool_append mem pool entry = (CLASSFILE_OK, pool', Some i)"
    "cp_tag entry \<noteq> 0"
  shows "constant_pool_at pool' i = Some entry"
    and "\<And>j. j \<noteq> i \<Longrightarrow> constant_pool_at pool' j = constant_pool_at pool j"
    and "i = pool_next pool"
proof -
  let ?s = "unat (cp_info_slots (cp_tag entry))"
  from constant_pool_append_cases [OF assms(1,2)] obtain k where
    i: "i = pool_next pool" and n: "unat (pool_count pool') = unat (pool_next pool) + ?s"
    and e: "pool_entries pool' = (pool_entries pool @ replicate k CP_None)[unat (pool_next pool) := entry]"
    and cap: "unat (pool_count pool') \<le> pool_capacity pool'"
    by auto
  have s: "1 \<le> ?s" by (simp add: unat_slots)
  have lt: "unat i < length (pool_entries pool')" using n cap s i by simp
  show "i = pool_next pool" by (rule i)
  show "constant_pool_at pool' i = Some entry"
    using n s e lt i assms(3) pool_next_pos [of pool]
    by (auto simp: constant_pool_at_def word_le_nat_alt unat_eq_zero [symmetric] Let_def)
  fix j assume j: "j \<noteq> i"
  then have uj: "unat j \<noteq> unat (pool_next pool)" using i by (simp add: unat_arith_simps)
  then have nth: "pool_entries pool' ! unat j = (pool_entries pool @ replicate k CP_None) ! unat j"
    using e by simp
  show "constant_pool_at pool' j = constant_pool_at pool j"
  proof (cases "unat j < unat (pool_count pool)")
    case True
    then have "unat (pool_count pool) = unat (pool_next pool)"
      by (auto simp: pool_next_def word_less_nat_alt)
    with True nth n assms(1) show ?thesis
      by (auto simp: constant_pool_at_def word_le_nat_alt pool_inv_def nth_append Let_def)
  next
    case False
    have len: "length (pool_entries pool') = length (pool_entries pool) + k" using e by simp
    have "pool_entries pool' ! unat j = CP_None" if "unat j < unat (pool_count pool')"
      using that nth cap len assms(1) False by (auto simp: nth_append pool_inv_def)
    with False show ?thesis
      by (auto simp: constant_pool_at_def word_le_nat_alt Let_def)
  qed
qed

lemma wf_slots_snoc:
  assumes "wf_cp e"
  shows "wf_slots es \<Longrightarrow> wf_slots (es @ (if two_slots e then [e, CP_None] else [e]))"
proof (induction es rule: wf_slots.induct)
  case 1
  then show ?case using assms by simp
next
  case (2 f)
  then show ?case using assms by simp
next
  case (3 f g es)
  then show ?case by (cases "two_slots f") auto
qed

lemma take_update_window:
  assumes "1 \<le> n" "n + length new \<le> length xs" "new \<noteq> []"
    and "\<And>i. n < i \<Longrightarrow> i < n + length new \<Longrightarrow> xs ! i = new ! (i - n)"
  shows "take (n - 1 + length new) (drop 1 (xs[n := new ! 0])) = take (n - 1) (drop 1 xs) @ new"
proof (rule nth_equalityI)
  show "length (take (n - 1 + length new) (drop 1 (xs[n := new ! 0]))) =
        length (take (n - 1) (drop 1 xs) @ new)"
    using assms(1,2) by auto
  fix i assume "i < length (take (n - 1 + length new) (drop 1 (xs[n := new ! 0])))"
  then have i: "i < n - 1 + length new" "Suc i < length xs" by auto
  consider "i < n - 1" | "i = n - 1" | "n - 1 < i" by linarith
  then show "take (n - 1 + length new) (drop 1 (xs[n := new ! 0])) ! i =
        (take (n - 1) (drop 1 xs) @ new) ! i"
    using i assms(1,2,3) assms(4) [of "Suc i"]
    by cases (auto simp: nth_append Suc_diff_le)
qed

lemma constant_pool_append_inv:
  assumes "pool_inv pool" "constant_pool_append mem pool entry = (st, pool', idx)" "wf_cp entry"
  shows "pool_inv pool'"
    and "st = CLASSFILE_OK \<Longrightarrow>
      pool_used pool' = pool_used pool @ (if two_slots entry then [entry, CP_None] else [entry])"
proof -
  let ?s = "unat (cp_info_slots (cp_tag entry))" and ?n = "unat (pool_next pool)"
  let ?new = "if two_slots entry then [entry, CP_None] else [entry]"
  have used: "pool_used pool' = pool_used pool @ ?new" and inv: "pool_inv pool'" if st: "st = CLASSFILE_OK"
  proof -
    from constant_pool_append_cases [OF assms(1,2)] st obtain k where
      n: "unat (pool_count pool') = ?n + ?s"
      and e: "pool_entries pool' = (pool_entries pool @ replicate k CP_None)[?n := entry]"
      and cap: "unat (pool_count pool') \<le> pool_capacity pool'" "pool_capacity pool' \<le> CLASSFILE_MAX_COUNT"
      by auto
    let ?es = "pool_entries pool @ replicate k CP_None"
    have s: "?s = length ?new" by (simp add: unat_slots two_slots_iff)
    have none: "?es ! i = CP_None" if "i = 0 \<or> unat (pool_count pool) \<le> i" "i < length ?es" for i
      using that assms(1) by (auto simp: nth_append pool_inv_def)
    have len: "?n + ?s \<le> length ?es" using n e cap by simp
    have cnt: "unat (pool_count pool) \<le> ?n" "?n \<le> Suc (unat (pool_count pool))" "1 \<le> ?n"
      using pool_next_pos [of pool] by (auto simp: pool_next_def word_less_nat_alt)
    have old: "pool_used pool = take (?n - 1) (drop 1 ?es)"
      using assms(1) by (auto simp: pool_used_def pool_next_def pool_inv_def word_less_nat_alt)
    have "pool_used pool' = take (?n - 1 + ?s) (drop 1 (?es[?n := entry]))"
      using n cnt e by (simp add: pool_used_def)
    also have "\<dots> = take (?n - 1) (drop 1 ?es) @ ?new"
      using take_update_window [of ?n ?new ?es] cnt len s none by (cases "two_slots entry") auto
    finally show used: "pool_used pool' = pool_used pool @ ?new" using old by simp
    have "wf_slots (pool_used pool')"
      using used wf_slots_snoc [OF assms(3)] assms(1) by (simp add: pool_inv_def)
    moreover have "pool_entries pool' ! i = CP_None"
      if "i = 0 \<or> unat (pool_count pool') \<le> i" "i < pool_capacity pool'" for i
      using that e n cnt none [of i] s by (auto simp: nth_list_update split: if_splits)
    ultimately show "pool_inv pool'" using cap by (auto simp: pool_inv_def)
  qed
  show "pool_inv pool'"
    using inv constant_pool_append_cases [OF assms(1,2)] assms(1) by auto
  show "st = CLASSFILE_OK \<Longrightarrow> pool_used pool' = pool_used pool @ ?new" by (rule used)
qed

end
