(* ===== verification/Class_Tree.thy ===== *)
theory Class_Tree
  imports Growable Constant_Pool
begin

text \<open>
  The node tree above the constant pool: \<^verbatim>\<open>visitors/attribute_info.c\<close>,
  \<^verbatim>\<open>visitors/member_info.c\<close> and \<^verbatim>\<open>visitors/class_file.c\<close>. Attributes keep
  their payload opaque; fields and methods share one node; \<open>ClassFile\<close> is the
  root. The four counted lists are instances of the growable array and interpret
  its contract. Functions that return a pointer into a list return the index.
\<close>

section \<open>Attributes\<close>

record attribute_info =
  attribute_name_index :: u2
  attr_info :: "u1 list"

type_synonym attribute_list = "attribute_info vec"

definition attribute_length :: "attribute_info \<Rightarrow> u4" where
  "attribute_length a = of_nat (length (attr_info a))"

definition attribute_info_zero :: attribute_info where
  "attribute_info_zero = \<lparr>attribute_name_index = 0, attr_info = []\<rparr>"

definition attribute_info_set_info ::
  "alloc \<Rightarrow> attribute_info \<Rightarrow> u1 list \<Rightarrow> classfile_status \<times> attribute_info" where
  "attribute_info_set_info mem a bytes =
     (if \<not> mem Alloc_bytes (if length bytes \<noteq> 0 then length bytes else 1)
      then (CLASSFILE_ERR_OUT_OF_MEMORY, a)
      else (CLASSFILE_OK, a\<lparr>attr_info := bytes\<rparr>))"

definition attribute_info_free :: "attribute_info \<Rightarrow> attribute_info" where
  "attribute_info_free a = attribute_info_zero"

definition attribute_list_init :: attribute_list where
  "attribute_list_init = vec_init"

definition attribute_list_free :: "attribute_list \<Rightarrow> attribute_list" where
  "attribute_list_free list = attribute_list_init"

definition attribute_list_reserve :: "alloc \<Rightarrow> attribute_list \<Rightarrow> u2 \<Rightarrow> classfile_status \<times> attribute_list" where
  "attribute_list_reserve mem = vec_reserve mem Alloc_attribute_info"

text \<open>
  The C function appends a zeroed node and hands back a pointer through which
  the caller fills it in; the model takes the node the caller wants there.
\<close>

definition attribute_list_append ::
  "alloc \<Rightarrow> attribute_list \<Rightarrow> attribute_info \<Rightarrow> classfile_status \<times> attribute_list" where
  "attribute_list_append mem = vec_append mem Alloc_attribute_info 4"

definition attribute_list_remove :: "attribute_list \<Rightarrow> u2 \<Rightarrow> attribute_list" where
  "attribute_list_remove = vec_remove"

fun find_index :: "('a \<Rightarrow> bool) \<Rightarrow> 'a list \<Rightarrow> nat option" where
  "find_index p [] = None"
| "find_index p (x # xs) = (if p x then Some 0 else map_option Suc (find_index p xs))"

definition attribute_list_find :: "attribute_list \<Rightarrow> constant_pool \<Rightarrow> cstring \<Rightarrow> nat option" where
  "attribute_list_find list pool name =
     find_index (\<lambda>a. constant_pool_utf8_equals pool (attribute_name_index a) name) (items list)"

definition attribute_list_remove_named ::
  "attribute_list \<Rightarrow> constant_pool \<Rightarrow> cstring \<Rightarrow> bool \<times> attribute_list" where
  "attribute_list_remove_named list pool name =
     (case attribute_list_find list pool name of
        Some i \<Rightarrow> (True, attribute_list_remove list (of_nat i))
      | None \<Rightarrow> (False, list))"

section \<open>Members\<close>

record member_info =
  access_flags :: u2
  name_index :: u2
  descriptor_index :: u2
  attributes :: attribute_list

type_synonym member_list = "member_info vec"

definition member_info_init :: member_info where
  "member_info_init =
     \<lparr>access_flags = 0, name_index = 0, descriptor_index = 0, attributes = attribute_list_init\<rparr>"

definition member_info_free :: "member_info \<Rightarrow> member_info" where
  "member_info_free m = member_info_init"

fun copy_attributes :: "alloc \<Rightarrow> attribute_info list \<Rightarrow> attribute_list \<Rightarrow> classfile_status + attribute_list" where
  "copy_attributes mem [] target = Inr target"
| "copy_attributes mem (a # as) target =
     (case attribute_info_set_info mem
             (attribute_info_zero\<lparr>attribute_name_index := attribute_name_index a\<rparr>) (attr_info a) of
        (set_status, copy) \<Rightarrow>
          (case attribute_list_append mem target copy of
             (status, target) \<Rightarrow>
               if status \<noteq> CLASSFILE_OK then Inl status
               else if set_status \<noteq> CLASSFILE_OK then Inl set_status
               else copy_attributes mem as target))"

definition member_info_copy :: "alloc \<Rightarrow> member_info \<Rightarrow> classfile_status + member_info" where
  "member_info_copy mem source =
     (let target = member_info_init
            \<lparr>access_flags := access_flags source, name_index := name_index source,
             descriptor_index := descriptor_index source\<rparr>;
          (status, list) = attribute_list_reserve mem (attributes target) (vec_count (attributes source))
      in if status \<noteq> CLASSFILE_OK then Inl status
         else
           (case copy_attributes mem (items (attributes source)) list of
              Inl status \<Rightarrow> Inl status
            | Inr list \<Rightarrow> Inr (target\<lparr>attributes := list\<rparr>)))"

definition member_info_is_static :: "member_info \<Rightarrow> bool" where
  "member_info_is_static m \<longleftrightarrow> access_flags m AND JVM_ACC_STATIC \<noteq> 0"

definition member_info_is_native :: "member_info \<Rightarrow> bool" where
  "member_info_is_native m \<longleftrightarrow> access_flags m AND JVM_ACC_NATIVE \<noteq> 0"

definition member_info_set_native :: "member_info \<Rightarrow> bool \<Rightarrow> member_info" where
  "member_info_set_native m native =
     (if native then m\<lparr>access_flags := access_flags m OR JVM_ACC_NATIVE\<rparr>
      else m\<lparr>access_flags := access_flags m AND NOT JVM_ACC_NATIVE\<rparr>)"

definition member_list_init :: member_list where
  "member_list_init = vec_init"

definition member_list_free :: "member_list \<Rightarrow> member_list" where
  "member_list_free list = member_list_init"

definition member_list_reserve :: "alloc \<Rightarrow> member_list \<Rightarrow> u2 \<Rightarrow> classfile_status \<times> member_list" where
  "member_list_reserve mem = vec_reserve mem Alloc_member_info"

definition member_list_append :: "alloc \<Rightarrow> member_list \<Rightarrow> member_info \<Rightarrow> classfile_status \<times> member_list" where
  "member_list_append mem = vec_append mem Alloc_member_info 8"

definition member_list_remove :: "member_list \<Rightarrow> u2 \<Rightarrow> member_list" where
  "member_list_remove = vec_remove"

text \<open>A \<open>NULL\<close> descriptor matches any.\<close>

definition member_list_find ::
  "member_list \<Rightarrow> constant_pool \<Rightarrow> cstring \<Rightarrow> cstring option \<Rightarrow> nat option" where
  "member_list_find list pool name descriptor =
     find_index
       (\<lambda>m. constant_pool_utf8_equals pool (name_index m) name \<and>
            (case descriptor of None \<Rightarrow> True
             | Some d \<Rightarrow> constant_pool_utf8_equals pool (descriptor_index m) d))
       (items list)"

section \<open>Interfaces and the class file\<close>

type_synonym interface_list = "u2 vec"

definition interface_list_init :: interface_list where
  "interface_list_init = vec_init"

definition interface_list_free :: "interface_list \<Rightarrow> interface_list" where
  "interface_list_free list = interface_list_init"

definition interface_list_reserve :: "alloc \<Rightarrow> interface_list \<Rightarrow> u2 \<Rightarrow> classfile_status \<times> interface_list" where
  "interface_list_reserve mem = vec_reserve mem Alloc_u2"

definition interface_list_append :: "alloc \<Rightarrow> interface_list \<Rightarrow> u2 \<Rightarrow> classfile_status \<times> interface_list" where
  "interface_list_append mem = vec_append mem Alloc_u2 4"

record ClassFile =
  minor_version :: u2
  major_version :: u2
  cf_pool :: constant_pool
  cf_access_flags :: u2
  this_class :: u2
  super_class :: u2
  cf_interfaces :: interface_list
  cf_fields :: member_list
  cf_methods :: member_list
  cf_attributes :: attribute_list

definition classFile_create :: "alloc \<Rightarrow> ClassFile option" where
  "classFile_create mem =
     (if \<not> mem Alloc_ClassFile 1 then None
      else Some \<lparr>minor_version = 0, major_version = 0, cf_pool = constant_pool_init,
                 cf_access_flags = 0, this_class = 0, super_class = 0,
                 cf_interfaces = interface_list_init, cf_fields = member_list_init,
                 cf_methods = member_list_init, cf_attributes = attribute_list_init\<rparr>)"

definition classFile_utf8_equals :: "ClassFile \<Rightarrow> u2 \<Rightarrow> cstring \<Rightarrow> bool" where
  "classFile_utf8_equals cf index text = constant_pool_utf8_equals (cf_pool cf) index text"

definition classFile_find_method :: "ClassFile \<Rightarrow> cstring \<Rightarrow> cstring option \<Rightarrow> nat option" where
  "classFile_find_method cf name descriptor = member_list_find (cf_methods cf) (cf_pool cf) name descriptor"

definition classFile_find_field :: "ClassFile \<Rightarrow> cstring \<Rightarrow> cstring option \<Rightarrow> nat option" where
  "classFile_find_field cf name descriptor = member_list_find (cf_fields cf) (cf_pool cf) name descriptor"

definition classFile_find_attribute :: "ClassFile \<Rightarrow> cstring \<Rightarrow> nat option" where
  "classFile_find_attribute cf name = attribute_list_find (cf_attributes cf) (cf_pool cf) name"

subsection \<open>Interning\<close>

text \<open>The loop both interning routines open with: the first usable entry that matches.\<close>

function pool_search :: "(cp_info \<Rightarrow> bool) \<Rightarrow> constant_pool \<Rightarrow> nat \<Rightarrow> u2 option" where
  "pool_search p pool i =
     (if i < unat (pool_count pool) then
        (case constant_pool_at pool (of_nat i) of
           Some entry \<Rightarrow> if p entry then Some (of_nat i) else pool_search p pool (i + 1)
         | None \<Rightarrow> pool_search p pool (i + 1))
      else None)"
  by pat_completeness auto
termination
  by (relation "measure (\<lambda>(p, pool, i). unat (pool_count pool) - i)") auto

declare pool_search.simps [simp del]

definition classFile_intern_utf8 ::
  "alloc \<Rightarrow> ClassFile \<Rightarrow> cstring \<Rightarrow> classfile_status \<times> ClassFile \<times> u2 option" where
  "classFile_intern_utf8 mem cf text =
     (if length text > CLASSFILE_MAX_COUNT then (CLASSFILE_ERR_LIMIT_EXCEEDED, cf, None)
      else
        case pool_search (\<lambda>e. e = CP_Utf8 text) (cf_pool cf) 1 of
          Some i \<Rightarrow> (CLASSFILE_OK, cf, Some i)
        | None \<Rightarrow>
            (case cp_info_set_utf8 mem CP_None text of
               (status, entry) \<Rightarrow>
                 if status \<noteq> CLASSFILE_OK then (status, cf, None)
                 else
                   (case constant_pool_append mem (cf_pool cf) entry of
                      (appended, pool, index) \<Rightarrow> (appended, cf\<lparr>cf_pool := pool\<rparr>, index))))"

text \<open>
  \<open>intern_simple\<close> is called for a Class, a NameAndType or one of the three
  reference tags; any other tag takes the last branch of both C conditionals.
\<close>

definition simple_entry :: "u1 \<Rightarrow> u2 \<Rightarrow> u2 \<Rightarrow> cp_info" where
  "simple_entry tag a b =
     (if tag = JVM_CONSTANT_Class then CP_Class a
      else if tag = JVM_CONSTANT_NameAndType then CP_NameAndType a b
      else if tag = JVM_CONSTANT_Fieldref then CP_Fieldref a b
      else if tag = JVM_CONSTANT_Methodref then CP_Methodref a b
      else if tag = JVM_CONSTANT_InterfaceMethodref then CP_InterfaceMethodref a b
      else CP_Other tag)"

definition intern_simple ::
  "alloc \<Rightarrow> ClassFile \<Rightarrow> u1 \<Rightarrow> u2 \<Rightarrow> u2 \<Rightarrow> classfile_status \<times> ClassFile \<times> u2 option" where
  "intern_simple mem cf tag a b =
     (case pool_search (\<lambda>e. e = simple_entry tag a b) (cf_pool cf) 1 of
        Some i \<Rightarrow> (CLASSFILE_OK, cf, Some i)
      | None \<Rightarrow>
          (case constant_pool_append mem (cf_pool cf) (simple_entry tag a b) of
             (status, pool, index) \<Rightarrow> (status, cf\<lparr>cf_pool := pool\<rparr>, index)))"

text \<open>A failing step returns its status with what the earlier steps already interned.\<close>

definition classFile_intern_class ::
  "alloc \<Rightarrow> ClassFile \<Rightarrow> cstring \<Rightarrow> classfile_status \<times> ClassFile \<times> u2 option" where
  "classFile_intern_class mem cf name =
     (case classFile_intern_utf8 mem cf name of
        (status, cf, Some name_idx) \<Rightarrow> intern_simple mem cf JVM_CONSTANT_Class name_idx 0
      | (status, cf, None) \<Rightarrow> (status, cf, None))"

definition classFile_intern_name_and_type ::
  "alloc \<Rightarrow> ClassFile \<Rightarrow> cstring \<Rightarrow> cstring \<Rightarrow> classfile_status \<times> ClassFile \<times> u2 option" where
  "classFile_intern_name_and_type mem cf name descriptor =
     (case classFile_intern_utf8 mem cf name of
        (status, cf, Some name_idx) \<Rightarrow>
          (case classFile_intern_utf8 mem cf descriptor of
             (status, cf, Some descriptor_idx) \<Rightarrow>
               intern_simple mem cf JVM_CONSTANT_NameAndType name_idx descriptor_idx
           | (status, cf, None) \<Rightarrow> (status, cf, None))
      | (status, cf, None) \<Rightarrow> (status, cf, None))"

definition classFile_intern_methodref ::
  "alloc \<Rightarrow> ClassFile \<Rightarrow> u2 \<Rightarrow> cstring \<Rightarrow> cstring \<Rightarrow> classfile_status \<times> ClassFile \<times> u2 option" where
  "classFile_intern_methodref mem cf class_index name descriptor =
     (case classFile_intern_name_and_type mem cf name descriptor of
        (status, cf, Some nat_index) \<Rightarrow>
          intern_simple mem cf JVM_CONSTANT_Methodref class_index nat_index
      | (status, cf, None) \<Rightarrow> (status, cf, None))"

section \<open>The lists keep the contract\<close>

interpretation attribute_list: counted_list attribute_list_reserve attribute_list_append items
  "\<lambda>v. unat (vcap v)" vec_inv
  unfolding attribute_list_reserve_def [abs_def] attribute_list_append_def [abs_def]
  by (rule vec_counted_list) simp

interpretation member_list: counted_list member_list_reserve member_list_append items
  "\<lambda>v. unat (vcap v)" vec_inv
  unfolding member_list_reserve_def [abs_def] member_list_append_def [abs_def]
  by (rule vec_counted_list) simp

interpretation interface_list: counted_list interface_list_reserve interface_list_append items
  "\<lambda>v. unat (vcap v)" vec_inv
  unfolding interface_list_reserve_def [abs_def] interface_list_append_def [abs_def]
  by (rule vec_counted_list) simp


section \<open>Searching\<close>

lemma find_index_Some:
  "find_index p xs = Some i \<longleftrightarrow> i < length xs \<and> p (xs ! i) \<and> (\<forall>j < i. \<not> p (xs ! j))"
proof (induction xs arbitrary: i)
  case (Cons x xs)
  show ?case
    by (cases i) (auto simp: Cons.IH less_Suc_eq_0_disj)
qed simp

lemma find_index_None: "find_index p xs = None \<longleftrightarrow> (\<forall>x \<in> set xs. \<not> p x)"
  by (induction xs) auto

lemma constant_pool_utf8_equals_iff:
  "constant_pool_utf8_equals pool index text \<longleftrightarrow> constant_pool_at pool index = Some (CP_Utf8 text)"
  by (auto simp: constant_pool_utf8_equals_def constant_pool_utf8_def
      split: option.splits cp_info.splits)

lemma pool_search_Some:
  "pool_search p pool i = Some k \<Longrightarrow> \<exists>e. constant_pool_at pool k = Some e \<and> p e"
proof (induction p pool i rule: pool_search.induct)
  case (1 p pool i)
  then show ?case
    by (auto simp: pool_search.simps [of p pool i] split: if_splits option.splits)
qed

lemma pool_search_None:
  "pool_search p pool i = None \<Longrightarrow> i \<le> unat k \<Longrightarrow> constant_pool_at pool k = Some e \<Longrightarrow> \<not> p e"
proof (induction p pool i rule: pool_search.induct)
  case (1 p pool i)
  then have lt: "i < unat (pool_count pool)"
    by (auto simp: constant_pool_at_def word_le_nat_alt split: if_splits)
  show ?case
  proof (cases "unat k = i")
    case True
    then have "of_nat i = k" by auto
    with "1.prems" lt show ?thesis
      by (auto simp: pool_search.simps [of p pool i] split: if_splits)
  next
    case False
    with "1.prems" lt "1.IH" show ?thesis
      by (auto simp: pool_search.simps [of p pool i] split: if_splits option.splits)
  qed
qed

section \<open>What interning keeps\<close>

text \<open>
  Every interning routine only ever adds entries behind the ones that are there:
  an index the tree already uses keeps its meaning, and the rest of the class
  file is untouched.
\<close>

definition pool_extends :: "constant_pool \<Rightarrow> constant_pool \<Rightarrow> bool" where
  "pool_extends pool pool' \<longleftrightarrow>
     (\<forall>i e. constant_pool_at pool i = Some e \<longrightarrow> constant_pool_at pool' i = Some e) \<and>
     (\<exists>more. pool_used pool' = pool_used pool @ more)"

definition interned :: "ClassFile \<Rightarrow> ClassFile \<Rightarrow> bool" where
  "interned cf cf' \<longleftrightarrow>
     cf' = cf\<lparr>cf_pool := cf_pool cf'\<rparr> \<and> pool_extends (cf_pool cf) (cf_pool cf') \<and>
     (pool_inv (cf_pool cf) \<longrightarrow> pool_inv (cf_pool cf'))"

lemma pool_extends_refl [simp]: "pool_extends pool pool"
  by (auto simp: pool_extends_def)

lemma pool_extends_trans [trans]: "pool_extends a b \<Longrightarrow> pool_extends b c \<Longrightarrow> pool_extends a c"
  by (fastforce simp: pool_extends_def)

lemma interned_refl [simp]: "interned cf cf"
  by (simp add: interned_def)

lemma interned_trans [trans]: "interned a b \<Longrightarrow> interned b c \<Longrightarrow> interned a c"
  unfolding interned_def by (metis ClassFile.surjective ClassFile.update_convs(3) pool_extends_trans)

lemma interned_at: "interned cf cf' \<Longrightarrow> constant_pool_at (cf_pool cf) i = Some e \<Longrightarrow>
    constant_pool_at (cf_pool cf') i = Some e"
  by (auto simp: interned_def pool_extends_def)

lemma interned_inv: "interned cf cf' \<Longrightarrow> pool_inv (cf_pool cf) \<Longrightarrow> pool_inv (cf_pool cf')"
  by (simp add: interned_def)

lemma append_extends:
  assumes "pool_inv pool" "constant_pool_append mem pool entry = (st, pool', idx)" "wf_cp entry"
  shows "pool_extends pool pool' \<and> pool_inv pool' \<and>
    (st = CLASSFILE_OK \<longleftrightarrow> idx \<noteq> None) \<and>
    (\<forall>i. idx = Some i \<longrightarrow> constant_pool_at pool' i = Some entry)"
proof (cases "st = CLASSFILE_OK")
  case False
  with constant_pool_append_cases [OF assms(1,2)] assms(1) show ?thesis by auto
next
  case True
  with constant_pool_append_cases [OF assms(1,2)] have idx: "idx = Some (pool_next pool)" by auto
  note ok = constant_pool_append_ok [OF assms(1) assms(2) [unfolded True idx] cp_tag_known [OF assms(3)]]
  have none: "constant_pool_at pool (pool_next pool) = None"
    by (auto simp: constant_pool_at_def pool_next_def)
  from constant_pool_append_inv [OF assms] True ok none show ?thesis
    unfolding pool_extends_def idx by (metis option.distinct(1) option.inject)
qed

text \<open>The search and the append the two interning routines share.\<close>

lemma search_or_append:
  assumes "pool_inv (cf_pool cf)" "wf_cp e"
    and "(case pool_search (\<lambda>x. x = e) (cf_pool cf) 1 of
            Some i \<Rightarrow> (CLASSFILE_OK, cf, Some i)
          | None \<Rightarrow> (case constant_pool_append mem (cf_pool cf) e of
                       (status, pool, index) \<Rightarrow> (status, cf\<lparr>cf_pool := pool\<rparr>, index))) = (st, cf', idx)"
  shows "interned cf cf' \<and> (st = CLASSFILE_OK \<longleftrightarrow> idx \<noteq> None) \<and>
    (\<forall>i. idx = Some i \<longrightarrow> constant_pool_at (cf_pool cf') i = Some e)"
proof (cases "pool_search (\<lambda>x. x = e) (cf_pool cf) 1")
  case (Some i)
  with assms(3) have "st = CLASSFILE_OK" "cf' = cf" "idx = Some i" by simp_all
  with pool_search_Some [OF Some] show ?thesis by simp
next
  case None
  obtain s p i where a: "constant_pool_append mem (cf_pool cf) e = (s, p, i)" by (metis prod_cases3)
  from append_extends [OF assms(1) a assms(2)] None a assms(3) show ?thesis
    by (auto simp: interned_def)
qed

lemma intern_utf8_all:
  assumes "classFile_intern_utf8 mem cf text = (st, cf', idx)" "pool_inv (cf_pool cf)"
  shows "interned cf cf' \<and> (st = CLASSFILE_OK \<longleftrightarrow> idx \<noteq> None) \<and>
    (\<forall>i. idx = Some i \<longrightarrow> constant_pool_at (cf_pool cf') i = Some (CP_Utf8 text))"
proof -
  let ?oom = "pool_search (\<lambda>x. x = CP_Utf8 text) (cf_pool cf) 1 = None \<and>
    \<not> mem Alloc_bytes (if length text \<noteq> 0 then length text else 1)"
  consider "length text > CLASSFILE_MAX_COUNT" | "length text \<le> CLASSFILE_MAX_COUNT" ?oom
    | "length text \<le> CLASSFILE_MAX_COUNT" "\<not> ?oom" by linarith
  then show ?thesis
  proof cases
    case 3
    then have "wf_cp (CP_Utf8 text)" by (simp add: CLASSFILE_MAX_COUNT_def)
    from search_or_append [OF assms(2) this, of mem st cf' idx] 3 assms(1) show ?thesis
      by (auto simp: classFile_intern_utf8_def cp_info_set_utf8_def split: option.splits)
  qed (use assms(1) in \<open>auto simp: classFile_intern_utf8_def cp_info_set_utf8_def\<close>)
qed

lemmas intern_utf8_spec =
  intern_utf8_all [THEN conjunct1] intern_utf8_all [THEN conjunct2, THEN conjunct1]
  intern_utf8_all [THEN conjunct2, THEN conjunct2, THEN spec, THEN mp]

lemma intern_simple_all:
  assumes "intern_simple mem cf tag a b = (st, cf', idx)" "pool_inv (cf_pool cf)"
    "wf_cp (simple_entry tag a b)"
  shows "interned cf cf' \<and> (st = CLASSFILE_OK \<longleftrightarrow> idx \<noteq> None) \<and>
    (\<forall>i. idx = Some i \<longrightarrow> constant_pool_at (cf_pool cf') i = Some (simple_entry tag a b))"
  using search_or_append [OF assms(2,3)] assms(1) by (simp add: intern_simple_def)

lemmas intern_simple_spec =
  intern_simple_all [THEN conjunct1] intern_simple_all [THEN conjunct2, THEN conjunct1]
  intern_simple_all [THEN conjunct2, THEN conjunct2, THEN spec, THEN mp]

text \<open>What a Class, a NameAndType and a Methodref entry denote in a pool.\<close>

definition pool_class :: "constant_pool \<Rightarrow> u2 \<Rightarrow> cstring \<Rightarrow> bool" where
  "pool_class pool i name \<longleftrightarrow>
     (case constant_pool_at pool i of
        Some (CP_Class n) \<Rightarrow> constant_pool_utf8_equals pool n name | _ \<Rightarrow> False)"

definition pool_name_and_type :: "constant_pool \<Rightarrow> u2 \<Rightarrow> cstring \<Rightarrow> cstring \<Rightarrow> bool" where
  "pool_name_and_type pool i name descriptor \<longleftrightarrow>
     (case constant_pool_at pool i of
        Some (CP_NameAndType n d) \<Rightarrow>
          constant_pool_utf8_equals pool n name \<and> constant_pool_utf8_equals pool d descriptor
      | _ \<Rightarrow> False)"

definition pool_methodref :: "constant_pool \<Rightarrow> u2 \<Rightarrow> u2 \<Rightarrow> cstring \<Rightarrow> cstring \<Rightarrow> bool" where
  "pool_methodref pool i class_index name descriptor \<longleftrightarrow>
     (case constant_pool_at pool i of
        Some (CP_Methodref c n) \<Rightarrow> c = class_index \<and> pool_name_and_type pool n name descriptor
      | _ \<Rightarrow> False)"

lemma intern_class_spec:
  assumes "classFile_intern_class mem cf name = (st, cf', idx)" "pool_inv (cf_pool cf)"
  shows "interned cf cf' \<and> (st = CLASSFILE_OK \<longleftrightarrow> idx \<noteq> None) \<and>
    (\<forall>i. idx = Some i \<longrightarrow> pool_class (cf_pool cf') i name)"
proof -
  obtain st1 cf1 i1 where u: "classFile_intern_utf8 mem cf name = (st1, cf1, i1)" by (metis prod_cases3)
  note s1 = intern_utf8_spec [OF u assms(2)]
  show ?thesis
  proof (cases i1)
    case None
    with assms(1) u s1 show ?thesis by (auto simp: classFile_intern_class_def)
  next
    case (Some n)
    with assms(1) u have r: "intern_simple mem cf1 JVM_CONSTANT_Class n 0 = (st, cf', idx)"
      by (simp add: classFile_intern_class_def)
    note s2 = intern_simple_spec [OF r interned_inv [OF s1(1) assms(2)]]
    have "wf_cp (simple_entry JVM_CONSTANT_Class n 0)" by (simp add: simple_entry_def)
    note s2 = s2 [OF this]
    from interned_at [OF s2(1) s1(3) [OF Some]] s2(3)
    have "\<forall>i. idx = Some i \<longrightarrow> pool_class (cf_pool cf') i name"
      by (simp add: pool_class_def simple_entry_def constant_pool_utf8_equals_iff)
    with interned_trans [OF s1(1) s2(1)] s2(2) show ?thesis by blast
  qed
qed

lemma intern_name_and_type_spec:
  assumes "classFile_intern_name_and_type mem cf name descriptor = (st, cf', idx)"
    "pool_inv (cf_pool cf)"
  shows "interned cf cf' \<and> (st = CLASSFILE_OK \<longleftrightarrow> idx \<noteq> None) \<and>
    (\<forall>i. idx = Some i \<longrightarrow> pool_name_and_type (cf_pool cf') i name descriptor)"
proof -
  obtain st1 cf1 i1 where u: "classFile_intern_utf8 mem cf name = (st1, cf1, i1)" by (metis prod_cases3)
  obtain st2 cf2 i2 where v: "classFile_intern_utf8 mem cf1 descriptor = (st2, cf2, i2)"
    by (metis prod_cases3)
  note s1 = intern_utf8_spec [OF u assms(2)]
  note s2 = intern_utf8_spec [OF v interned_inv [OF s1(1) assms(2)]]
  note t2 = interned_trans [OF s1(1) s2(1)]
  show ?thesis
  proof (cases "i1 = None \<or> i2 = None")
    case True
    with assms(1) u v s1 s2(2) t2 show ?thesis
      by (auto simp: classFile_intern_name_and_type_def split: option.splits)
  next
    case False
    then obtain n d where nd: "i1 = Some n" "i2 = Some d" by auto
    with assms(1) u v have r: "intern_simple mem cf2 JVM_CONSTANT_NameAndType n d = (st, cf', idx)"
      by (simp add: classFile_intern_name_and_type_def)
    have "wf_cp (simple_entry JVM_CONSTANT_NameAndType n d)" by (simp add: simple_entry_def)
    note s3 = intern_simple_spec [OF r interned_inv [OF t2 assms(2)] this]
    from interned_at [OF s3(1) interned_at [OF s2(1) s1(3) [OF nd(1)]]]
      interned_at [OF s3(1) s2(3) [OF nd(2)]] s3(3)
    have "\<forall>i. idx = Some i \<longrightarrow> pool_name_and_type (cf_pool cf') i name descriptor"
      by (simp add: pool_name_and_type_def simple_entry_def constant_pool_utf8_equals_iff)
    with interned_trans [OF t2 s3(1)] s3(2) show ?thesis by blast
  qed
qed

lemma pool_name_and_type_extends:
  "pool_extends pool pool' \<Longrightarrow> pool_name_and_type pool i name descriptor \<Longrightarrow>
   pool_name_and_type pool' i name descriptor"
  by (auto simp: pool_name_and_type_def pool_extends_def constant_pool_utf8_equals_iff
      split: option.splits cp_info.splits)

lemma intern_methodref_spec:
  assumes "classFile_intern_methodref mem cf class_index name descriptor = (st, cf', idx)"
    "pool_inv (cf_pool cf)"
  shows "interned cf cf' \<and> (st = CLASSFILE_OK \<longleftrightarrow> idx \<noteq> None) \<and>
    (\<forall>i. idx = Some i \<longrightarrow> pool_methodref (cf_pool cf') i class_index name descriptor)"
proof -
  obtain st1 cf1 i1 where u: "classFile_intern_name_and_type mem cf name descriptor = (st1, cf1, i1)"
    by (metis prod_cases3)
  note s1 = intern_name_and_type_spec [OF u assms(2)]
  show ?thesis
  proof (cases i1)
    case None
    with assms(1) u s1 show ?thesis by (auto simp: classFile_intern_methodref_def)
  next
    case (Some n)
    with assms(1) u have r: "intern_simple mem cf1 JVM_CONSTANT_Methodref class_index n = (st, cf', idx)"
      by (simp add: classFile_intern_methodref_def)
    have "wf_cp (simple_entry JVM_CONSTANT_Methodref class_index n)" by (simp add: simple_entry_def)
    note s2 = intern_simple_spec [OF r interned_inv [OF conjunct1 [OF s1] assms(2)] this]
    have "pool_name_and_type (cf_pool cf') n name descriptor"
      using s1 Some s2(1) pool_name_and_type_extends by (auto simp: interned_def)
    with s2(3) have "\<forall>i. idx = Some i \<longrightarrow> pool_methodref (cf_pool cf') i class_index name descriptor"
      by (simp add: pool_methodref_def simple_entry_def)
    with interned_trans [OF _ s2(1)] s1 s2(2) show ?thesis by blast
  qed
qed

text \<open>Interning what is there finds it and allocates nothing: the pool does not grow.\<close>

lemma intern_utf8_present:
  assumes "constant_pool_at (cf_pool cf) k = Some (CP_Utf8 text)" "length text \<le> CLASSFILE_MAX_COUNT"
  shows "\<exists>i. classFile_intern_utf8 mem cf text = (CLASSFILE_OK, cf, Some i) \<and>
             constant_pool_at (cf_pool cf) i = Some (CP_Utf8 text)"
proof -
  have "1 \<le> unat k"
    using assms(1) by (auto simp: constant_pool_at_def Suc_le_eq unat_gt_0 split: if_splits)
  with pool_search_None [of "\<lambda>e. e = CP_Utf8 text" "cf_pool cf" 1 k] assms(1)
  obtain i where i: "pool_search (\<lambda>e. e = CP_Utf8 text) (cf_pool cf) 1 = Some i"
    by (cases "pool_search (\<lambda>e. e = CP_Utf8 text) (cf_pool cf) 1") auto
  with pool_search_Some [OF i] assms(2) show ?thesis
    by (auto simp: classFile_intern_utf8_def)
qed

section \<open>Copying a member\<close>

lemma attribute_list_append_node:
  "vec_inv v \<Longrightarrow> attribute_list_append mem v x = (st, w) \<Longrightarrow> st = CLASSFILE_OK \<Longrightarrow>
   items w = items v @ [x] \<and> vec_inv w"
  using attribute_list.append_ok by blast

lemma copy_attributes_ok:
  assumes "vec_inv target" "copy_attributes mem as target = Inr list"
  shows "items list = items target @ as \<and> vec_inv list"
  using assms
proof (induction as arbitrary: target)
  case (Cons a as)
  let ?z = "attribute_info_zero\<lparr>attribute_name_index := attribute_name_index a\<rparr>"
  obtain ss copy where s: "attribute_info_set_info mem ?z (attr_info a) = (ss, copy)"
    by (metis surj_pair)
  obtain st w where w: "attribute_list_append mem target copy = (st, w)" by (metis surj_pair)
  from Cons.prems(2) s w have ok: "st = CLASSFILE_OK" "ss = CLASSFILE_OK"
    and rest: "copy_attributes mem as w = Inr list"
    by (auto split: if_splits)
  have "copy = a"
    using s ok by (auto simp: attribute_info_set_info_def attribute_info_zero_def split: if_splits)
  with attribute_list_append_node [OF Cons.prems(1) w ok(1)] Cons.IH [OF _ rest] show ?case by simp
qed simp

lemma copy_attributes_total:
  assumes "vec_inv target" "length (items target) + length as \<le> unat (vcap target)" "alloc_total mem"
  shows "\<exists>list. copy_attributes mem as target = Inr list"
  using assms(1,2)
proof (induction as arbitrary: target)
  case (Cons a as)
  let ?z = "attribute_info_zero\<lparr>attribute_name_index := attribute_name_index a\<rparr>"
  have s: "attribute_info_set_info mem ?z (attr_info a) = (CLASSFILE_OK, a)"
    using assms(3) by (simp add: attribute_info_set_info_def attribute_info_zero_def alloc_total_def)
  obtain st w where w: "attribute_list_append mem target a = (st, w)" by (metis surj_pair)
  have room: "st = CLASSFILE_OK" "unat (vcap w) = unat (vcap target)"
    using attribute_list.append_room [OF Cons.prems(1), of mem a] Cons.prems(2) w by auto
  from attribute_list_append_node [OF Cons.prems(1) w room(1)]
  have "items w = items target @ [a]" "vec_inv w" by auto
  with Cons.IH [of w] Cons.prems(2) room s w show ?case by simp
qed simp

lemma member_info_copy_ok:
  assumes "member_info_copy mem source = Inr target"
  shows "target = source\<lparr>attributes := attributes target\<rparr> \<and>
         items (attributes target) = items (attributes source) \<and> vec_inv (attributes target)"
proof -
  obtain st w where w: "attribute_list_reserve mem attribute_list_init (vec_count (attributes source)) = (st, w)"
    by (metis surj_pair)
  from assms w obtain list where st: "st = CLASSFILE_OK"
    and c: "copy_attributes mem (items (attributes source)) w = Inr list"
    and t: "target = \<lparr>access_flags = access_flags source, name_index = name_index source,
              descriptor_index = descriptor_index source, attributes = list\<rparr>"
    by (auto simp: member_info_copy_def member_info_init_def Let_def split: if_splits sum.splits)
  have "items w = [] \<and> vec_inv w"
    using attribute_list.reserve_ok [of attribute_list_init mem _ w] w st
    by (auto simp: attribute_list_init_def)
  with copy_attributes_ok [OF _ c] t show ?thesis by simp
qed

lemma member_info_copy_total:
  assumes "vec_inv (attributes source)" "alloc_total mem"
  shows "\<exists>target. member_info_copy mem source = Inr target"
proof -
  let ?n = "vec_count (attributes source)"
  obtain st w where w: "attribute_list_reserve mem attribute_list_init ?n = (st, w)"
    by (metis surj_pair)
  have st: "st = CLASSFILE_OK"
    using w assms(2) by (auto simp: attribute_list_reserve_def vec_reserve_def alloc_total_def split: if_splits)
  have ww: "items w = [] \<and> vec_inv w \<and> unat (vcap w) \<ge> unat ?n"
    using attribute_list.reserve_ok [of attribute_list_init mem ?n w] w st
    by (auto simp: attribute_list_init_def)
  with copy_attributes_total [of w "items (attributes source)" mem] vec_inv_count [OF assms(1)] assms(2)
  obtain list where "copy_attributes mem (items (attributes source)) w = Inr list" by auto
  with w st show ?thesis by (simp add: member_info_copy_def member_info_init_def)
qed

lemma member_info_set_native_iff: "member_info_is_native (member_info_set_native m b) \<longleftrightarrow> b"
proof -
  have "(x AND NOT JVM_ACC_NATIVE) AND JVM_ACC_NATIVE = 0" for x :: u2
    by (simp add: and.assoc)
  moreover have "(x OR JVM_ACC_NATIVE) AND JVM_ACC_NATIVE \<noteq> 0" for x :: u2
    by (simp add: bit.conj_disj_distrib2)
  ultimately show ?thesis
    by (simp add: member_info_is_native_def member_info_set_native_def)
qed


section \<open>Properties\<close>

lemma intern_class_index_kept:
  "interned cf cf' \<Longrightarrow> pool_class (cf_pool cf) i name \<Longrightarrow> pool_class (cf_pool cf') i name"
  by (auto simp: pool_class_def interned_def pool_extends_def constant_pool_utf8_equals_iff
      split: option.splits cp_info.splits)

definition small_cf :: ClassFile where
  "small_cf = the (classFile_create heap_ok)"

lemma small_cf_inv: "pool_inv (cf_pool small_cf)"
  by (simp add: small_cf_def classFile_create_def)

text \<open>
  interning a call target. After interning a class and a method of it, the
  returned Methodref index resolves to that class, name and descriptor; every
  index the pool held before still holds what it held, the pool stays well
  formed and nothing else of the class file changes.
\<close>

theorem intern_call_target:
  assumes "pool_inv (cf_pool cf)"
    and "classFile_intern_class mem cf owner = (st1, cf1, Some c)"
    and "classFile_intern_methodref mem cf1 c name descriptor = (st2, cf2, Some i)"
  shows "pool_methodref (cf_pool cf2) i c name descriptor \<and> pool_class (cf_pool cf2) c owner \<and>
         pool_inv (cf_pool cf2) \<and> cf2 = cf\<lparr>cf_pool := cf_pool cf2\<rparr> \<and>
         (\<forall>j e. constant_pool_at (cf_pool cf) j = Some e \<longrightarrow> constant_pool_at (cf_pool cf2) j = Some e)"
proof -
  from intern_class_spec [OF assms(2,1)] have c: "interned cf cf1" "pool_class (cf_pool cf1) c owner" by auto
  from intern_methodref_spec [OF assms(3) interned_inv [OF c(1) assms(1)]]
  have m: "interned cf1 cf2" "pool_methodref (cf_pool cf2) i c name descriptor" by auto
  from interned_trans [OF c(1) m(1)] have "interned cf cf2" .
  with assms(1) m(2) intern_class_index_kept [OF m(1) c(2)] show ?thesis
    by (auto simp: interned_def pool_extends_def)
qed

theorem intern_call_target_witness:
  "\<exists>cf1 cf2 c i. classFile_intern_class heap_ok small_cf (cstr ''A'') = (CLASSFILE_OK, cf1, Some c) \<and>
     classFile_intern_methodref heap_ok cf1 c (cstr ''m'') (cstr ''()V'') = (CLASSFILE_OK, cf2, Some i) \<and>
     pool_methodref (cf_pool cf2) i c (cstr ''m'') (cstr ''()V'') \<and> pool_class (cf_pool cf2) c (cstr ''A'')"
proof -
  let ?r = "classFile_intern_class heap_ok small_cf (cstr ''A'')"
  let ?c = "the (snd (snd ?r))"
  let ?s = "classFile_intern_methodref heap_ok (fst (snd ?r)) ?c (cstr ''m'') (cstr ''()V'')"
  have "fst ?r = CLASSFILE_OK" "snd (snd ?r) \<noteq> None" "fst ?s = CLASSFILE_OK" "snd (snd ?s) \<noteq> None"
    by code_simp+
  then have a: "?r = (CLASSFILE_OK, fst (snd ?r), Some ?c)"
    and b: "?s = (CLASSFILE_OK, fst (snd ?s), Some (the (snd (snd ?s))))"
    by (metis option.collapse prod.collapse)+
  from intern_call_target [OF small_cf_inv a b] a b show ?thesis by blast
qed

text \<open>
  Interning the same text twice returns the same index, and the second call
  needs no memory and leaves the pool alone, so repeated edits do not grow the pool.
\<close>

theorem intern_utf8_stable:
  assumes "pool_inv (cf_pool cf)" "classFile_intern_utf8 mem cf text = (CLASSFILE_OK, cf', Some i)"
  shows "classFile_intern_utf8 mem' cf' text = (CLASSFILE_OK, cf', Some i)"
proof -
  have at: "constant_pool_at (cf_pool cf') i = Some (CP_Utf8 text)"
    using intern_utf8_spec(3) [OF assms(2,1)] by simp
  have len: "length text \<le> CLASSFILE_MAX_COUNT"
    using assms(2) by (auto simp: classFile_intern_utf8_def split: if_splits)
  from intern_utf8_present [OF at len, of mem'] obtain k where
    k: "classFile_intern_utf8 mem' cf' text = (CLASSFILE_OK, cf', Some k)"
    "constant_pool_at (cf_pool cf') k = Some (CP_Utf8 text)" by blast
  have "k = i"
  proof (cases "pool_search (\<lambda>e. e = CP_Utf8 text) (cf_pool cf) 1")
    case (Some j)
    with assms(2) len have "cf' = cf" "i = j" by (auto simp: classFile_intern_utf8_def)
    with k(1) Some len show ?thesis by (simp add: classFile_intern_utf8_def)
  next
    case None
    with assms(2) len obtain p where
      a: "constant_pool_append mem (cf_pool cf) (CP_Utf8 text) = (CLASSFILE_OK, p, Some i)" "cf_pool cf' = p"
      by (auto simp: classFile_intern_utf8_def cp_info_set_utf8_def split: if_splits prod.splits)
    have "1 \<le> unat k"
      using k(2) by (auto simp: constant_pool_at_def Suc_le_eq unat_gt_0 split: if_splits)
    with pool_search_None [OF None] have "constant_pool_at (cf_pool cf) k \<noteq> Some (CP_Utf8 text)" by blast
    with constant_pool_append_ok(2) [OF assms(1) a(1), of k] k(2) a(2) show ?thesis by auto
  qed
  with k show ?thesis by simp
qed

theorem intern_utf8_stable_witness:
  "\<exists>cf' i. classFile_intern_utf8 heap_ok small_cf (cstr ''Code'') = (CLASSFILE_OK, cf', Some i) \<and>
     classFile_intern_utf8 (\<lambda>_ _. False) cf' (cstr ''Code'') = (CLASSFILE_OK, cf', Some i)"
proof -
  let ?r = "classFile_intern_utf8 heap_ok small_cf (cstr ''Code'')"
  have "fst ?r = CLASSFILE_OK" "snd (snd ?r) \<noteq> None" by code_simp+
  then have a: "?r = (CLASSFILE_OK, fst (snd ?r), Some (the (snd (snd ?r))))"
    by (metis option.collapse prod.collapse)
  from intern_utf8_stable [OF small_cf_inv a] a show ?thesis by blast
qed

text \<open>
  Copying a member gives an equal member with a list of its own; it can fail
  only when the allocator refuses.
\<close>

theorem member_info_copy_correct:
  "(case member_info_copy mem source of
      Inr target \<Rightarrow> target = source\<lparr>attributes := attributes target\<rparr> \<and>
        items (attributes target) = items (attributes source) \<and> vec_inv (attributes target)
    | Inl status \<Rightarrow> \<not> (alloc_total mem \<and> vec_inv (attributes source)))"
  using member_info_copy_ok [of mem source] member_info_copy_total [of source mem]
  by (auto split: sum.splits)

end
