(* ===== verification/Class_Transform.thy ===== *)
theory Class_Transform
  imports Class_Tree "HOL-Library.Multiset"
begin

text \<open>
  Making a method native and taking that back: the first half of \<^verbatim>\<open>class_transform.c\<close>. The body
  moves to a private final copy under another name, the original loses its Code
  attribute and becomes native; restoring moves the body back and drops the copy.

  Every operation returns the transform status, what it stores in \<open>*out_cause\<close>, and the class file.
\<close>

section \<open>Status\<close>

datatype transform_status =
    TRANSFORM_OK
  | TRANSFORM_ERR_METHOD_NOT_FOUND
  | TRANSFORM_ERR_ALREADY_NATIVE
  | TRANSFORM_ERR_ABSTRACT
  | TRANSFORM_ERR_INITIALIZER
  | TRANSFORM_ERR_INTERFACE
  | TRANSFORM_ERR_NO_CODE
  | TRANSFORM_ERR_NAME_IN_USE
  | TRANSFORM_ERR_CLASSFILE
  | TRANSFORM_ERR_BAD_OFFSET
  | TRANSFORM_ERR_AMBIGUOUS_INIT

fun transform_status_message :: "transform_status \<Rightarrow> string" where
  "transform_status_message TRANSFORM_OK = ''ok''"
| "transform_status_message TRANSFORM_ERR_METHOD_NOT_FOUND = ''no such method in this class''"
| "transform_status_message TRANSFORM_ERR_ALREADY_NATIVE = ''method is already native''"
| "transform_status_message TRANSFORM_ERR_ABSTRACT = ''an abstract method has no body to move''"
| "transform_status_message TRANSFORM_ERR_INITIALIZER = ''<init> and <clinit> may not be made native''"
| "transform_status_message TRANSFORM_ERR_INTERFACE = ''a method of an interface may not be made native''"
| "transform_status_message TRANSFORM_ERR_NO_CODE = ''method has no Code attribute''"
| "transform_status_message TRANSFORM_ERR_NAME_IN_USE = ''the copy name is already taken by another method''"
| "transform_status_message TRANSFORM_ERR_CLASSFILE = ''class file operation failed''"
| "transform_status_message TRANSFORM_ERR_BAD_OFFSET = ''the offset is not an instruction boundary''"
| "transform_status_message TRANSFORM_ERR_AMBIGUOUS_INIT = ''this constructor initializes this on more than one path''"

type_synonym transformed = "transform_status \<times> classfile_status \<times> ClassFile"

definition is_initializer :: "ClassFile \<Rightarrow> member_info \<Rightarrow> bool" where
  "is_initializer cf method \<longleftrightarrow>
     classFile_utf8_equals cf (name_index method) (cstr ''<init>'') \<or>
     classFile_utf8_equals cf (name_index method) (cstr ''<clinit>'')"

definition is_instance_initializer :: "ClassFile \<Rightarrow> member_info \<Rightarrow> bool" where
  "is_instance_initializer cf method \<longleftrightarrow> classFile_utf8_equals cf (name_index method) (cstr ''<init>'')"

definition copy_flags :: "u2 \<Rightarrow> u2" where
  "copy_flags original_flags =
     (let inherited = JVM_ACC_STATIC OR JVM_ACC_SYNCHRONIZED OR JVM_ACC_BRIDGE OR
                      JVM_ACC_VARARGS OR JVM_ACC_STRICT OR JVM_ACC_SYNTHETIC
      in JVM_ACC_PRIVATE OR JVM_ACC_FINAL OR (original_flags AND inherited))"

definition fail :: "classfile_status \<Rightarrow> ClassFile \<Rightarrow> transformed" where
  "fail cause cf = (TRANSFORM_ERR_CLASSFILE, cause, cf)"

text \<open>A returned status that is not a class file failure leaves \<open>*out_cause\<close> at \<open>CLASSFILE_OK\<close>.\<close>

abbreviation refuse :: "transform_status \<Rightarrow> ClassFile \<Rightarrow> transformed" where
  "refuse status cf \<equiv> (status, CLASSFILE_OK, cf)"

abbreviation method_at :: "ClassFile \<Rightarrow> nat \<Rightarrow> member_info" where
  "method_at cf i \<equiv> items (cf_methods cf) ! i"

abbreviation put_method :: "nat \<Rightarrow> member_info \<Rightarrow> ClassFile \<Rightarrow> ClassFile" where
  "put_method i m cf \<equiv> cf\<lparr>cf_methods := (cf_methods cf)\<lparr>items := (items (cf_methods cf))[i := m]\<rparr>\<rparr>"

definition find_code :: "ClassFile \<Rightarrow> nat \<Rightarrow> nat option" where
  "find_code cf i = attribute_list_find (attributes (method_at cf i)) (cf_pool cf) (cstr ''Code'')"

section \<open>Making a method native\<close>

definition class_transform_make_native ::
  "alloc \<Rightarrow> ClassFile \<Rightarrow> cstring \<Rightarrow> cstring \<Rightarrow> cstring \<Rightarrow> transformed" where
  "class_transform_make_native mem cf name descriptor copy_name =
     (if cf_access_flags cf AND JVM_ACC_INTERFACE \<noteq> 0 then refuse TRANSFORM_ERR_INTERFACE cf
      else if classFile_find_method cf copy_name (Some descriptor) \<noteq> None
      then refuse TRANSFORM_ERR_NAME_IN_USE cf
      else
        case classFile_find_method cf name (Some descriptor) of
          None \<Rightarrow> refuse TRANSFORM_ERR_METHOD_NOT_FOUND cf
        | Some index \<Rightarrow>
            if is_initializer cf (method_at cf index) then refuse TRANSFORM_ERR_INITIALIZER cf
            else if access_flags (method_at cf index) AND JVM_ACC_NATIVE \<noteq> 0
            then refuse TRANSFORM_ERR_ALREADY_NATIVE cf
            else if access_flags (method_at cf index) AND JVM_ACC_ABSTRACT \<noteq> 0
            then refuse TRANSFORM_ERR_ABSTRACT cf
            else if find_code cf index = None then refuse TRANSFORM_ERR_NO_CODE cf
            else
              (case classFile_intern_utf8 mem cf copy_name of
                 (status, cf, None) \<Rightarrow> fail status cf
               | (status, cf, Some copy_name_index) \<Rightarrow>
                   (case member_info_copy mem (method_at cf index) of
                      Inl status \<Rightarrow> fail status cf
                    | Inr copy \<Rightarrow>
                        let copy = copy\<lparr>name_index := copy_name_index,
                                        access_flags := copy_flags (access_flags copy)\<rparr>;
                            (status, methods) = member_list_append mem (cf_methods cf) copy;
                            cf = cf\<lparr>cf_methods := methods\<rparr>
                        in if status \<noteq> CLASSFILE_OK then fail status cf
                           else
                             let original = member_info_set_native (method_at cf index) True;
                                 original = original\<lparr>attributes := snd (attribute_list_remove_named
                                   (attributes original) (cf_pool cf) (cstr ''Code''))\<rparr>
                             in refuse TRANSFORM_OK (put_method index original cf))))"

section \<open>Restoring it\<close>

definition put_attributes :: "nat \<Rightarrow> attribute_list \<Rightarrow> ClassFile \<Rightarrow> ClassFile" where
  "put_attributes i attrs cf = put_method i ((method_at cf i)\<lparr>attributes := attrs\<rparr>) cf"

definition class_transform_restore ::
  "alloc \<Rightarrow> ClassFile \<Rightarrow> cstring \<Rightarrow> cstring \<Rightarrow> cstring \<Rightarrow> transformed" where
  "class_transform_restore mem cf name descriptor copy_name =
     (case classFile_find_method cf copy_name (Some descriptor) of
        None \<Rightarrow> refuse TRANSFORM_ERR_METHOD_NOT_FOUND cf
      | Some copy_index \<Rightarrow>
          (case classFile_find_method cf name (Some descriptor) of
             None \<Rightarrow> refuse TRANSFORM_ERR_METHOD_NOT_FOUND cf
           | Some index \<Rightarrow>
               if find_code cf copy_index = None then refuse TRANSFORM_ERR_NO_CODE cf
               else
                 let (status, attrs) =
                       attribute_list_append mem (attributes (method_at cf index)) attribute_info_zero;
                     cf = put_attributes index attrs cf;
                     restored_index = length (items attrs) - 1
                 in if status \<noteq> CLASSFILE_OK then fail status cf
                    else
                      (case find_code cf copy_index of
                         None \<Rightarrow>
                           refuse TRANSFORM_ERR_NO_CODE
                             (put_attributes index (attribute_list_remove attrs (of_nat restored_index)) cf)
                       | Some k \<Rightarrow>
                           let code = items (attributes (method_at cf copy_index)) ! k;
                               (status, restored) = attribute_info_set_info mem
                                 (attribute_info_zero\<lparr>attribute_name_index := attribute_name_index code\<rparr>)
                                 (attr_info code)
                           in if status \<noteq> CLASSFILE_OK
                              then fail status
                                (put_attributes index (attribute_list_remove attrs (of_nat restored_index)) cf)
                              else
                                let cf = put_attributes index
                                      (attrs\<lparr>items := (items attrs)[restored_index := restored]\<rparr>) cf;
                                    cf = put_method index (member_info_set_native (method_at cf index) False) cf
                                in refuse TRANSFORM_OK
                                     (cf\<lparr>cf_methods := member_list_remove (cf_methods cf) (of_nat copy_index)\<rparr>))))"

section \<open>Looking names up in a growing pool\<close>

text \<open>
  What a class file accepted by a VM has: every name a member or an attribute of a member refers to is in
  the pool, and the lists are within their capacity.
\<close>

definition member_ok :: "constant_pool \<Rightarrow> member_info \<Rightarrow> bool" where
  "member_ok pool m \<longleftrightarrow>
     constant_pool_at pool (name_index m) \<noteq> None \<and> constant_pool_at pool (descriptor_index m) \<noteq> None \<and>
     list_all (\<lambda>a. constant_pool_at pool (attribute_name_index a) \<noteq> None) (items (attributes m)) \<and>
     vec_inv (attributes m)"

definition class_ok :: "ClassFile \<Rightarrow> bool" where
  "class_ok cf \<longleftrightarrow>
     pool_inv (cf_pool cf) \<and> vec_inv (cf_methods cf) \<and> list_all (member_ok (cf_pool cf)) (items (cf_methods cf))"

lemma utf8_equals_extends:
  "pool_extends pool pool' \<Longrightarrow> constant_pool_at pool i \<noteq> None \<Longrightarrow>
   constant_pool_utf8_equals pool' i s = constant_pool_utf8_equals pool i s"
  by (auto simp: constant_pool_utf8_equals_iff pool_extends_def)

lemma member_ok_extends: "pool_extends pool pool' \<Longrightarrow> member_ok pool m \<Longrightarrow> member_ok pool' m"
  by (auto simp: member_ok_def pool_extends_def list_all_iff)

lemma find_index_cong: "(\<And>x. x \<in> set xs \<Longrightarrow> p x = q x) \<Longrightarrow> find_index p xs = find_index q xs"
  by (induction xs) auto

lemma find_index_append:
  "find_index p (xs @ ys) = (case find_index p xs of Some i \<Rightarrow> Some i
     | None \<Rightarrow> map_option (\<lambda>i. length xs + i) (find_index p ys))"
proof (induction xs)
  case Nil
  show ?case by (cases "find_index p ys") simp_all
next
  case (Cons x xs)
  then show ?case by (cases "find_index p xs"; cases "find_index p ys") simp_all
qed

lemma find_index_update:
  "(i < length xs \<Longrightarrow> p y = p (xs ! i)) \<Longrightarrow> find_index p (xs[i := y]) = find_index p xs"
proof (induction xs arbitrary: i)
  case (Cons x xs)
  then show ?case by (cases i) auto
qed simp

lemma attribute_find_extends:
  "pool_extends pool pool' \<Longrightarrow> member_ok pool m \<Longrightarrow>
   attribute_list_find (attributes m) pool' s = attribute_list_find (attributes m) pool s"
  unfolding attribute_list_find_def
  by (rule find_index_cong) (simp add: member_ok_def list_all_iff utf8_equals_extends)

definition names_method :: "constant_pool \<Rightarrow> cstring \<Rightarrow> cstring \<Rightarrow> member_info \<Rightarrow> bool" where
  "names_method pool name descriptor m \<longleftrightarrow>
     constant_pool_utf8_equals pool (name_index m) name \<and>
     constant_pool_utf8_equals pool (descriptor_index m) descriptor"

lemma find_method_names:
  "classFile_find_method cf name (Some descriptor) =
   find_index (names_method (cf_pool cf) name descriptor) (items (cf_methods cf))"
  by (simp add: classFile_find_method_def member_list_find_def names_method_def [abs_def])

lemma names_method_extends:
  "pool_extends pool pool' \<Longrightarrow> member_ok pool m \<Longrightarrow>
   names_method pool' name descriptor m = names_method pool name descriptor m"
  by (simp add: names_method_def member_ok_def utf8_equals_extends)

lemma find_methods_extends:
  "pool_extends pool pool' \<Longrightarrow> list_all (member_ok pool) ms \<Longrightarrow>
   find_index (names_method pool' name descriptor) ms = find_index (names_method pool name descriptor) ms"
  by (rule find_index_cong) (simp add: list_all_iff names_method_extends)

section \<open>What making a method native does\<close>

definition drop_at :: "nat \<Rightarrow> 'a list \<Rightarrow> 'a list" where
  "drop_at k xs = take k xs @ drop (Suc k) xs"

lemma vec_remove_drop_at: "vec_inv v \<Longrightarrow> k < length (items v) \<Longrightarrow>
    items (vec_remove v (of_nat k)) = drop_at k (items v) \<and> vec_inv (vec_remove v (of_nat k))"
  using vec_remove_spec [of v "of_nat k"] vec_inv_length [of v] by (simp add: drop_at_def)

text \<open>The stub that stays behind, and the copy that takes the body.\<close>

definition stub_of :: "member_info \<Rightarrow> nat \<Rightarrow> member_info" where
  "stub_of m k = (member_info_set_native m True)\<lparr>attributes := attribute_list_remove (attributes m) (of_nat k)\<rparr>"

definition is_copy_of :: "member_info \<Rightarrow> u2 \<Rightarrow> member_info \<Rightarrow> bool" where
  "is_copy_of m n c \<longleftrightarrow>
     c = m\<lparr>name_index := n, access_flags := copy_flags (access_flags m), attributes := attributes c\<rparr> \<and>
     items (attributes c) = items (attributes m) \<and> vec_inv (attributes c)"

lemma is_copy_of_fields:
  "is_copy_of m n c \<Longrightarrow> access_flags c = copy_flags (access_flags m) \<and> name_index c = n \<and>
     descriptor_index c = descriptor_index m \<and> items (attributes c) = items (attributes m)"
  by (cases m; cases c) (simp add: is_copy_of_def)

lemma set_native_simps [simp]:
  "attributes (member_info_set_native m b) = attributes m"
  "name_index (member_info_set_native m b) = name_index m"
  "descriptor_index (member_info_set_native m b) = descriptor_index m"
  by (simp_all add: member_info_set_native_def)

lemma make_native_found:
  assumes run: "class_transform_make_native mem cf name descriptor copy_name = (TRANSFORM_OK, cause, cf')"
    and ok: "class_ok cf"
  obtains index k n c where
    "classFile_find_method cf copy_name (Some descriptor) = None"
    "classFile_find_method cf name (Some descriptor) = Some index"
    "access_flags (method_at cf index) AND JVM_ACC_NATIVE = 0"
    "find_code cf index = Some k" "cause = CLASSFILE_OK"
    "cf' = cf\<lparr>cf_pool := cf_pool cf', cf_methods := cf_methods cf'\<rparr>"
    "pool_extends (cf_pool cf) (cf_pool cf')" "pool_inv (cf_pool cf')" "vec_inv (cf_methods cf')"
    "constant_pool_at (cf_pool cf') n = Some (CP_Utf8 copy_name)"
    "is_copy_of (method_at cf index) n c"
    "items (cf_methods cf') = (items (cf_methods cf))[index := stub_of (method_at cf index) k] @ [c]"
proof -
  from run obtain index where none: "classFile_find_method cf copy_name (Some descriptor) = None"
    and find: "classFile_find_method cf name (Some descriptor) = Some index"
    and flags: "access_flags (method_at cf index) AND JVM_ACC_NATIVE = 0"
    by (auto simp: class_transform_make_native_def fail_def split: if_splits option.splits)
  have lt: "index < length (items (cf_methods cf))"
    using find by (simp add: find_method_names find_index_Some)
  obtain st cf1 i1 where intern: "classFile_intern_utf8 mem cf copy_name = (st, cf1, i1)" by (metis prod_cases3)
  from run none find intern obtain k n where code: "find_code cf index = Some k" and i1: "i1 = Some n"
    by (auto simp: class_transform_make_native_def fail_def split: if_splits option.splits)
  have ext: "interned cf cf1" and at: "constant_pool_at (cf_pool cf1) n = Some (CP_Utf8 copy_name)"
    using intern_utf8_all [OF intern] ok i1 by (auto simp: class_ok_def)
  then have cf1: "cf1 = cf\<lparr>cf_pool := cf_pool cf1\<rparr>" "pool_extends (cf_pool cf) (cf_pool cf1)" "pool_inv (cf_pool cf1)"
    using ok by (auto simp: interned_def class_ok_def)
  have m1: "cf_methods cf1 = cf_methods cf" by (subst cf1(1)) simp
  from run none find intern i1 code obtain c0 where copy: "member_info_copy mem (method_at cf index) = Inr c0"
    by (auto simp: class_transform_make_native_def fail_def m1 split: if_splits sum.splits)
  define c where "c = c0\<lparr>name_index := n, access_flags := copy_flags (access_flags c0)\<rparr>"
  obtain ast methods where app: "member_list_append mem (cf_methods cf) c = (ast, methods)" by fastforce
  have ok': "ast = CLASSFILE_OK \<and> cause = CLASSFILE_OK \<and>
      cf' = put_method index ((member_info_set_native (items methods ! index) True)\<lparr>attributes :=
        snd (attribute_list_remove_named (attributes (items methods ! index)) (cf_pool cf1) (cstr ''Code''))\<rparr>)
        (cf1\<lparr>cf_methods := methods\<rparr>)"
    using run none find intern i1 code copy app
    by (auto simp: class_transform_make_native_def fail_def m1 c_def Let_def split: if_splits prod.splits)
  have ms: "items methods = items (cf_methods cf) @ [c]" "vec_inv methods"
    using member_list.append_ok [of "cf_methods cf" mem c methods] app ok' ok by (auto simp: class_ok_def)
  have mi: "items methods ! index = method_at cf index" using lt by (simp add: ms nth_append)
  have mok: "member_ok (cf_pool cf) (method_at cf index)"
    using ok lt by (simp add: class_ok_def list_all_length)
  have "attribute_list_find (attributes (method_at cf index)) (cf_pool cf1) (cstr ''Code'') = Some k"
    using code attribute_find_extends [OF cf1(2) mok] by (simp add: find_code_def)
  then have cf': "cf' = put_method index (stub_of (method_at cf index) k) (cf1\<lparr>cf_methods := methods\<rparr>)"
    using ok' by (simp add: mi stub_of_def attribute_list_remove_named_def)
  have "is_copy_of (method_at cf index) n c"
    using member_info_copy_ok [OF copy] by (cases c0) (auto simp: is_copy_of_def c_def)
  moreover have cause: "cause = CLASSFILE_OK" using ok' by simp
  moreover have "cf' = cf\<lparr>cf_pool := cf_pool cf', cf_methods := cf_methods cf'\<rparr>" "cf_pool cf' = cf_pool cf1"
    "cf_methods cf' = methods\<lparr>items := (items methods)[index := stub_of (method_at cf index) k]\<rparr>"
    unfolding cf' by (subst cf1(1), simp)+
  ultimately show thesis
    using none find flags code cf1(2,3) at ms lt
    by (intro that [of index k n c]) (simp_all add: list_update_append vec_inv_def)
qed

section \<open>Restoring takes it back\<close>

lemma clear_set_native: "f AND JVM_ACC_NATIVE = 0 \<Longrightarrow> (f OR JVM_ACC_NATIVE) AND NOT JVM_ACC_NATIVE = (f :: u2)"
proof (rule bit_word_eqI)
  fix i assume "f AND JVM_ACC_NATIVE = 0" "i < LENGTH(16)"
  then have "\<not> (bit f i \<and> bit (JVM_ACC_NATIVE :: u2) i)"
    by (metis bit_and_iff bit_0_eq bot_apply bot_bool_def)
  then show "bit ((f OR JVM_ACC_NATIVE) AND NOT JVM_ACC_NATIVE) i = bit f i"
    using \<open>i < LENGTH(16)\<close> by (auto simp: bit_simps)
qed

lemma drop_at_append: "drop_at (length xs) (xs @ [x]) = xs"
  by (simp add: drop_at_def)

lemma mset_drop_at: "k < length xs \<Longrightarrow> add_mset (xs ! k) (mset (drop_at k xs)) = mset xs"
proof -
  assume "k < length xs"
  then have "xs = take k xs @ xs ! k # drop (Suc k) xs" by (rule id_take_nth_drop)
  then have "mset xs = mset (take k xs @ xs ! k # drop (Suc k) xs)" by simp
  then show ?thesis by (simp add: drop_at_def)
qed

lemma find_after_make_native:
  assumes "classFile_find_method cf copy_name (Some descriptor) = None"
    "classFile_find_method cf name (Some descriptor) = Some index"
    "pool_extends (cf_pool cf) (cf_pool cf')"
    "constant_pool_at (cf_pool cf') n = Some (CP_Utf8 copy_name)" "is_copy_of (method_at cf index) n c"
    "items (cf_methods cf') = (items (cf_methods cf))[index := stub_of (method_at cf index) k] @ [c]"
    "list_all (member_ok (cf_pool cf)) (items (cf_methods cf))"
  shows "classFile_find_method cf' copy_name (Some descriptor) = Some (length (items (cf_methods cf))) \<and>
    classFile_find_method cf' name (Some descriptor) = Some index"
proof -
  let ?ms = "items (cf_methods cf)" and ?m = "method_at cf index"
  have same: "find_index (names_method (cf_pool cf') s descriptor) (?ms[index := stub_of ?m k]) =
      classFile_find_method cf s (Some descriptor)" for s
    using find_index_update [where p = "names_method (cf_pool cf') s descriptor" and y = "stub_of ?m k"
        and i = index and xs = ?ms] find_methods_extends [OF assms(3,7), of s descriptor]
    by (simp add: find_method_names names_method_def stub_of_def)
  have "names_method (cf_pool cf) name descriptor ?m" "index < length ?ms"
    using assms(2) by (auto simp: find_method_names find_index_Some)
  moreover have "names_method (cf_pool cf') name descriptor ?m = names_method (cf_pool cf) name descriptor ?m"
    using assms(3,7) \<open>index < length ?ms\<close> by (intro names_method_extends) (simp_all add: list_all_length)
  ultimately have "constant_pool_utf8_equals (cf_pool cf') (descriptor_index ?m) descriptor"
    by (simp add: names_method_def)
  moreover have "name_index c = n" "descriptor_index c = descriptor_index ?m"
    using is_copy_of_fields [OF assms(5)] by simp_all
  ultimately have "names_method (cf_pool cf') copy_name descriptor c"
    using assms(4) by (simp add: names_method_def constant_pool_utf8_equals_iff)
  with same assms(1,2) show ?thesis
    by (simp add: find_method_names [of cf'] assms(6) find_index_append)
qed

lemma member_updates_commute: "(m :: member_info)\<lparr>attributes := a, access_flags := f\<rparr> = m\<lparr>access_flags := f, attributes := a\<rparr>"
  by simp

text \<open>One run of \<open>class_transform_restore\<close> on a stub and a copy that are different methods.\<close>

lemma restore_run:
  assumes find: "classFile_find_method cf copy_name (Some descriptor) = Some j"
      "classFile_find_method cf name (Some descriptor) = Some i" "i \<noteq> j"
    and len: "i < length (items (cf_methods cf))" "j < length (items (cf_methods cf))" "vec_inv (cf_methods cf)"
    and code: "find_code cf j = Some k"
    and attrs: "vec_inv (attributes (method_at cf i))" "length (items (attributes (method_at cf i))) < 65535"
    and mem: "alloc_total mem"
  shows "\<exists>methods attrs. class_transform_restore mem cf name descriptor copy_name =
      (TRANSFORM_OK, CLASSFILE_OK, cf\<lparr>cf_methods := methods\<rparr>) \<and> vec_inv methods \<and>
    items methods = drop_at j ((items (cf_methods cf))[i :=
      (member_info_set_native (method_at cf i) False)\<lparr>attributes := attrs\<rparr>]) \<and>
    items attrs = items (attributes (method_at cf i)) @ [items (attributes (method_at cf j)) ! k]"
proof -
  let ?m = "method_at cf i" and ?code = "items (attributes (method_at cf j)) ! k"
  obtain st attrs' where app: "attribute_list_append mem (attributes ?m) attribute_info_zero = (st, attrs')" by fastforce
  have st: "st = CLASSFILE_OK"
    using vec_append_total [OF attrs mem] app unfolding attribute_list_append_def by (metis fst_conv)
  have items: "items attrs' = items (attributes ?m) @ [attribute_info_zero]"
    using attribute_list.append_ok [OF attrs(1)] app st by blast
  define cf1 where "cf1 = put_attributes i attrs' cf"
  have at: "method_at cf1 j = method_at cf j" "cf_pool cf1 = cf_pool cf" "method_at cf1 i = ?m\<lparr>attributes := attrs'\<rparr>"
    using find(3) len by (simp_all add: cf1_def put_attributes_def)
  have code1: "find_code cf1 j = Some k" using code by (simp add: find_code_def at)
  have set: "attribute_info_set_info mem (attribute_info_zero\<lparr>attribute_name_index := attribute_name_index ?code\<rparr>)
      (attr_info ?code) = (CLASSFILE_OK, ?code)"
    using mem by (simp add: attribute_info_set_info_def attribute_info_zero_def alloc_total_def)
  define attrs'' where "attrs'' = attrs'\<lparr>items := (items attrs')[length (items attrs') - Suc 0 := ?code]\<rparr>"
  have items'': "items attrs'' = items (attributes ?m) @ [?code]" by (simp add: attrs''_def items)
  define ms where "ms = (cf_methods cf)\<lparr>items := (items (cf_methods cf))[i :=
      (member_info_set_native ?m False)\<lparr>attributes := attrs''\<rparr>]\<rparr>"
  have ms: "vec_inv ms" "j < length (items ms)" using len by (simp_all add: ms_def vec_inv_def)
  have res: "class_transform_restore mem cf name descriptor copy_name =
      (TRANSFORM_OK, CLASSFILE_OK, cf\<lparr>cf_methods := member_list_remove ms (of_nat j)\<rparr>)"
  proof -
    have fin: "(cf_methods (put_attributes i attrs'' cf1))\<lparr>items := (items (cf_methods (put_attributes i attrs'' cf1)))
          [i := member_info_set_native (method_at (put_attributes i attrs'' cf1) i) False]\<rparr> = ms"
        "(put_attributes i attrs'' cf1)\<lparr>cf_methods := x\<rparr> = cf\<lparr>cf_methods := x\<rparr>" for x
      using len by (simp_all add: ms_def put_attributes_def cf1_def member_info_set_native_def member_updates_commute)
    show ?thesis
      using find(1,2) code app st code1 set at(1)
      unfolding class_transform_restore_def
      by (simp add: cf1_def [symmetric] attrs''_def [symmetric] Let_def fin)
  qed
  with vec_remove_drop_at [OF ms] items'' show ?thesis
    by (intro exI [of _ "member_list_remove ms (of_nat j)"] exI [of _ attrs''])
      (simp add: member_list_remove_def ms_def)
qed

section \<open>Properties\<close>

text \<open>
  C16: making a method native and restoring it gives the class back: every method is as before, except that
  the Code attribute of the hooked method now stands last among its attributes, and the pool keeps the
  interned copy name.\<close>

theorem restore_make_native:
  assumes "class_ok cf" "alloc_total mem'"
    and run: "class_transform_make_native mem cf name descriptor copy_name = (TRANSFORM_OK, cause, cf1)"
  shows "\<exists>cf2 index m. class_transform_restore mem' cf1 name descriptor copy_name = (TRANSFORM_OK, CLASSFILE_OK, cf2) \<and>
    cf2 = cf\<lparr>cf_pool := cf_pool cf2, cf_methods := cf_methods cf2\<rparr> \<and>
    pool_extends (cf_pool cf) (cf_pool cf2) \<and>
    classFile_find_method cf name (Some descriptor) = Some index \<and>
    items (cf_methods cf2) = (items (cf_methods cf))[index := m] \<and>
    m = (method_at cf index)\<lparr>attributes := attributes m\<rparr> \<and>
    mset (items (attributes m)) = mset (items (attributes (method_at cf index)))"
  using run assms(1)
proof (rule make_native_found)
  fix index k n c
  let ?m = "method_at cf index" and ?n = "length (items (cf_methods cf))"
  assume none: "classFile_find_method cf copy_name (Some descriptor) = None"
    and find: "classFile_find_method cf name (Some descriptor) = Some index"
    and flags: "access_flags ?m AND JVM_ACC_NATIVE = 0" and code: "find_code cf index = Some k"
    and cf1: "cf1 = cf\<lparr>cf_pool := cf_pool cf1, cf_methods := cf_methods cf1\<rparr>"
    and ext: "pool_extends (cf_pool cf) (cf_pool cf1)" and inv: "vec_inv (cf_methods cf1)"
    and n: "constant_pool_at (cf_pool cf1) n = Some (CP_Utf8 copy_name)" and c: "is_copy_of ?m n c"
    and ms: "items (cf_methods cf1) = (items (cf_methods cf))[index := stub_of ?m k] @ [c]"
  have ok: "list_all (member_ok (cf_pool cf)) (items (cf_methods cf))" using assms(1) by (simp add: class_ok_def)
  have lt: "index < ?n" using find by (simp add: find_method_names find_index_Some)
  then have mok: "member_ok (cf_pool cf) ?m" using ok by (simp add: list_all_length)
  have k: "k < length (items (attributes ?m))"
    using code by (simp add: find_code_def attribute_list_find_def find_index_Some)
  have at: "method_at cf1 index = stub_of ?m k" "method_at cf1 ?n = c"
    using lt by (simp_all add: ms nth_append)
  have "vec_inv (attributes ?m)" using mok by (simp add: member_ok_def)
  note stub = vec_remove_drop_at [OF this k] and len = vec_inv_length [OF this]
  have attrs: "items (attributes (stub_of ?m k)) = drop_at k (items (attributes ?m))" "vec_inv (attributes (stub_of ?m k))"
    using stub by (simp_all add: stub_of_def attribute_list_remove_def)
  have "items (attributes c) = items (attributes ?m)" using c by (simp add: is_copy_of_def)
  then have code1: "find_code cf1 ?n = Some k"
    using code attribute_find_extends [OF ext mok, of "cstr ''Code''"]
    by (simp add: find_code_def at attribute_list_find_def)
  have short: "length (drop_at k (items (attributes ?m))) < 65535"
    using k len by (simp add: drop_at_def)
  note f = find_after_make_native [OF none find ext n c ms ok]
  have l: "index < length (items (cf_methods cf1))" "?n < length (items (cf_methods cf1))" "index \<noteq> ?n"
    using lt by (simp_all add: ms)
  obtain methods attrs where res: "class_transform_restore mem' cf1 name descriptor copy_name =
      (TRANSFORM_OK, CLASSFILE_OK, cf1\<lparr>cf_methods := methods\<rparr>)"
      "items methods = drop_at ?n ((items (cf_methods cf1))[index :=
         (member_info_set_native (stub_of ?m k) False)\<lparr>attributes := attrs\<rparr>])"
      "items attrs = drop_at k (items (attributes ?m)) @ [items (attributes c) ! k]"
    using restore_run [OF f [THEN conjunct1] f [THEN conjunct2] l(3,1,2) inv code1 _ _ assms(2), unfolded at attrs(1)]
      attrs(2) short by blast
  let ?m' = "(member_info_set_native (stub_of ?m k) False)\<lparr>attributes := attrs\<rparr>"
  have "?m' = ?m\<lparr>attributes := attributes ?m'\<rparr>"
    using clear_set_native [OF flags] by (simp add: stub_of_def member_info_set_native_def)
  moreover have "items methods = (items (cf_methods cf))[index := ?m']"
    using lt drop_at_append [of "(items (cf_methods cf))[index := ?m']" c] res(2)
    by (simp add: ms list_update_append)
  moreover have "mset (items (attributes ?m')) = mset (items (attributes ?m))"
    using mset_drop_at [OF k] c res(3) by (simp add: is_copy_of_def)
  moreover have "cf1\<lparr>cf_methods := methods\<rparr> = cf\<lparr>cf_pool := cf_pool cf1, cf_methods := methods\<rparr>"
    by (subst cf1) simp
  ultimately show ?thesis using res(1) ext find
    by (intro exI [of _ "cf1\<lparr>cf_methods := methods\<rparr>"] exI [of _ index] exI [of _ ?m']) simp
qed

definition hook_code :: attribute_info where
  "hook_code = \<lparr>attribute_name_index = 3, attr_info = [0, 0, 0, 1, 0, 0, 0, 1, 0xB1, 0, 0, 0, 0]\<rparr>"

definition hook_class :: ClassFile where
  "hook_class =
     \<lparr>minor_version = 0, major_version = 52,
      cf_pool = \<lparr>pool_entries = [CP_None, CP_Utf8 (cstr ''m''), CP_Utf8 (cstr ''()V''), CP_Utf8 (cstr ''Code''),
                                 CP_Class 5, CP_Utf8 (cstr ''A'')], pool_count = 6\<rparr>,
      cf_access_flags = 0, this_class = 4, super_class = 0, cf_interfaces = vec_init, cf_fields = vec_init,
      cf_methods = \<lparr>items = [\<lparr>access_flags = JVM_ACC_STATIC, name_index = 1, descriptor_index = 2,
                               attributes = \<lparr>items = [hook_code], vcap = 1\<rparr>\<rparr>], vcap = 1\<rparr>,
      cf_attributes = vec_init\<rparr>"

lemma hook_class_ok: "class_ok hook_class"
  by (simp add: class_ok_def member_ok_def hook_class_def hook_code_def vec_inv_def pool_inv_def
      constant_pool_at_def pool_used_def CLASSFILE_MAX_COUNT_def cp_info_slots_def word_le_nat_alt)

abbreviation hook_native :: transformed where
  "hook_native \<equiv> class_transform_make_native heap_ok hook_class (cstr ''m'') (cstr ''()V'') (cstr ''n'')"

lemma hook_native_ok: "hook_native = (TRANSFORM_OK, fst (snd hook_native), snd (snd hook_native))"
proof -
  have "fst hook_native = TRANSFORM_OK" by code_simp
  then show ?thesis by (metis prod.collapse)
qed

theorem restore_make_native_witness:
  "\<exists>cf2. class_transform_restore heap_ok (snd (snd hook_native)) (cstr ''m'') (cstr ''()V'') (cstr ''n'') =
     (TRANSFORM_OK, CLASSFILE_OK, cf2)"
  using restore_make_native [OF hook_class_ok alloc_total_heap_ok hook_native_ok] by blast

lemma copy_flags_facts:
  "copy_flags f AND JVM_ACC_STATIC = f AND JVM_ACC_STATIC" "copy_flags f AND JVM_ACC_NATIVE = 0"
  "copy_flags f AND JVM_ACC_PRIVATE \<noteq> 0" "copy_flags f AND JVM_ACC_FINAL \<noteq> 0"
  by (simp_all add: copy_flags_def bit.conj_disj_distrib2 and.assoc)

lemma native_stub_and_copy:
  assumes "class_ok cf"
    and "class_transform_make_native mem cf name descriptor copy_name = (TRANSFORM_OK, cause, cf')"
  shows "\<exists>i j k. classFile_find_method cf name (Some descriptor) = Some i \<and>
    classFile_find_method cf' name (Some descriptor) = Some i \<and>
    classFile_find_method cf' copy_name (Some descriptor) = Some j \<and>
    find_code cf i = Some k \<and> member_info_is_native (method_at cf' i) \<and>
    items (attributes (method_at cf' i)) = drop_at k (items (attributes (method_at cf i))) \<and>
    items (attributes (method_at cf' j)) = items (attributes (method_at cf i)) \<and>
    access_flags (method_at cf' j) AND JVM_ACC_PRIVATE \<noteq> 0 \<and> access_flags (method_at cf' j) AND JVM_ACC_FINAL \<noteq> 0 \<and>
    \<not> member_info_is_native (method_at cf' j) \<and>
    member_info_is_static (method_at cf' j) = member_info_is_static (method_at cf i) \<and>
    (\<forall>l. l < length (items (cf_methods cf)) \<and> l \<noteq> i \<longrightarrow> method_at cf' l = method_at cf l)"
  using assms(2,1)
proof (rule make_native_found)
  fix i k n c
  let ?m = "method_at cf i" and ?j = "length (items (cf_methods cf))"
  assume none: "classFile_find_method cf copy_name (Some descriptor) = None"
    and find: "classFile_find_method cf name (Some descriptor) = Some i"
    and code: "find_code cf i = Some k" and ext: "pool_extends (cf_pool cf) (cf_pool cf')"
    and n: "constant_pool_at (cf_pool cf') n = Some (CP_Utf8 copy_name)" and c: "is_copy_of ?m n c"
    and ms: "items (cf_methods cf') = (items (cf_methods cf))[i := stub_of ?m k] @ [c]"
  have ok: "list_all (member_ok (cf_pool cf)) (items (cf_methods cf))" using assms(1) by (simp add: class_ok_def)
  have lt: "i < ?j" using find by (simp add: find_method_names find_index_Some)
  have k: "k < length (items (attributes ?m))"
    using code by (simp add: find_code_def attribute_list_find_def find_index_Some)
  have inv: "vec_inv (attributes ?m)" using ok lt by (simp add: list_all_length member_ok_def)
  have at: "method_at cf' i = stub_of ?m k" "method_at cf' ?j = c"
    using lt by (simp_all add: ms nth_append)
  have flags: "access_flags c = copy_flags (access_flags ?m)" "items (attributes c) = items (attributes ?m)"
    using is_copy_of_fields [OF c] by simp_all
  have "member_info_is_native (stub_of ?m k)"
    using member_info_set_native_iff [of ?m True] by (simp add: stub_of_def member_info_is_native_def)
  moreover have "items (attributes (stub_of ?m k)) = drop_at k (items (attributes ?m))"
    using vec_remove_drop_at [OF inv k] by (simp add: stub_of_def attribute_list_remove_def)
  ultimately show ?thesis
    using find_after_make_native [OF none find ext n c ms ok] find code flags copy_flags_facts [of "access_flags ?m"] lt
    by (intro exI [of _ i] exI [of _ ?j] exI [of _ k])
      (simp add: at member_info_is_native_def member_info_is_static_def, simp add: ms nth_append)
qed

text \<open>
  C17: after a method was made native, the name finds a native stub without the Code attribute, the copy
  name finds a private final method with all attributes of the original, static exactly if
  the original was, and every other method is untouched.\<close>

theorem make_native_effect:
  assumes "class_ok cf"
    and "class_transform_make_native mem cf name descriptor copy_name = (TRANSFORM_OK, cause, cf')"
  shows "\<exists>i j k. classFile_find_method cf name (Some descriptor) = Some i \<and>
    classFile_find_method cf' name (Some descriptor) = Some i \<and>
    classFile_find_method cf' copy_name (Some descriptor) = Some j \<and>
    find_code cf i = Some k \<and> member_info_is_native (method_at cf' i) \<and>
    items (attributes (method_at cf' i)) = drop_at k (items (attributes (method_at cf i))) \<and>
    items (attributes (method_at cf' j)) = items (attributes (method_at cf i)) \<and>
    access_flags (method_at cf' j) AND JVM_ACC_PRIVATE \<noteq> 0 \<and> access_flags (method_at cf' j) AND JVM_ACC_FINAL \<noteq> 0 \<and>
    \<not> member_info_is_native (method_at cf' j) \<and>
    member_info_is_static (method_at cf' j) = member_info_is_static (method_at cf i) \<and>
    (\<forall>l. l < length (items (cf_methods cf)) \<and> l \<noteq> i \<longrightarrow> method_at cf' l = method_at cf l)"
  using native_stub_and_copy [OF assms] .

theorem make_native_effect_witness:
  "\<exists>i j. classFile_find_method (snd (snd hook_native)) (cstr ''m'') (Some (cstr ''()V'')) = Some i \<and>
     classFile_find_method (snd (snd hook_native)) (cstr ''n'') (Some (cstr ''()V'')) = Some j \<and>
     member_info_is_native (method_at (snd (snd hook_native)) i) \<and>
     items (attributes (method_at (snd (snd hook_native)) j)) = [hook_code]"
  using make_native_effect [OF hook_class_ok hook_native_ok]
proof (elim exE conjE)
  fix i j k assume "classFile_find_method hook_class (cstr ''m'') (Some (cstr ''()V'')) = Some i"
    "items (attributes (method_at (snd (snd hook_native)) j)) = items (attributes (method_at hook_class i))"
    "member_info_is_native (method_at (snd (snd hook_native)) i)"
    "classFile_find_method (snd (snd hook_native)) (cstr ''m'') (Some (cstr ''()V'')) = Some i"
    "classFile_find_method (snd (snd hook_native)) (cstr ''n'') (Some (cstr ''()V'')) = Some j"
  moreover have "classFile_find_method hook_class (cstr ''m'') (Some (cstr ''()V'')) = Some 0" by code_simp
  moreover have "items (attributes (method_at hook_class 0)) = [hook_code]" by code_simp
  ultimately show ?thesis by auto
qed

end
