(* ===== verification/Class_File_IO.thy ===== *)
theory Class_File_IO
  imports Class_Tree
begin

text \<open>
  The two directions of the format: \<^verbatim>\<open>class_file_parser.c\<close>,
  \<^verbatim>\<open>class_file_writer.c\<close> and \<^verbatim>\<open>class_layout.c\<close>. The reference encoding
  \<open>enc_classfile\<close> is the byte layout of JVMS 4.1; the parser is shown to accept
  exactly its image on well-formed trees, the writer to compute it, so that a
  class file that is read and written again comes back byte for byte.
\<close>

section \<open>Parsing\<close>

text \<open>The node just appended is filled in through the pointer \<open>append\<close> handed out.\<close>

definition vec_set_last :: "'a vec \<Rightarrow> 'a \<Rightarrow> 'a vec" where
  "vec_set_last v x = v\<lparr>items := butlast (items v) @ [x]\<rparr>"

fun read_attributes_loop ::
  "alloc \<Rightarrow> nat \<Rightarrow> byte_cursor \<Rightarrow> attribute_list \<Rightarrow> classfile_status + attribute_list \<times> byte_cursor" where
  "read_attributes_loop mem 0 c list = Inr (list, c)"
| "read_attributes_loop mem (Suc n) c list =
     (case attribute_list_append mem list attribute_info_zero of
        (status, list) \<Rightarrow>
          if status \<noteq> CLASSFILE_OK then Inl status
          else
            let (name, c) = byte_cursor_u2 c; (len, c) = byte_cursor_u4 c in
            (case byte_cursor_bytes c (unat len) of
               (None, c) \<Rightarrow> Inl CLASSFILE_ERR_TRUNCATED
             | (Some payload, c) \<Rightarrow>
                 (case attribute_info_set_info mem
                         (attribute_info_zero\<lparr>attribute_name_index := name\<rparr>) payload of
                    (status, a) \<Rightarrow>
                      if status \<noteq> CLASSFILE_OK then Inl status
                      else read_attributes_loop mem n c (vec_set_last list a))))"

definition read_attributes ::
  "alloc \<Rightarrow> byte_cursor \<Rightarrow> attribute_list \<Rightarrow> classfile_status + attribute_list \<times> byte_cursor" where
  "read_attributes mem c list =
     (let (count, c) = byte_cursor_u2 c in
      if \<not> byte_cursor_ok c then Inl CLASSFILE_ERR_TRUNCATED
      else
        (case attribute_list_reserve mem list count of
           (status, list) \<Rightarrow>
             if status \<noteq> CLASSFILE_OK then Inl status
             else read_attributes_loop mem (unat count) c list))"

fun read_members_loop ::
  "alloc \<Rightarrow> nat \<Rightarrow> byte_cursor \<Rightarrow> member_list \<Rightarrow> classfile_status + member_list \<times> byte_cursor" where
  "read_members_loop mem 0 c list = Inr (list, c)"
| "read_members_loop mem (Suc n) c list =
     (case member_list_append mem list member_info_init of
        (status, list) \<Rightarrow>
          if status \<noteq> CLASSFILE_OK then Inl status
          else
            let (flags, c) = byte_cursor_u2 c; (name, c) = byte_cursor_u2 c;
                (descriptor, c) = byte_cursor_u2 c in
            if \<not> byte_cursor_ok c then Inl CLASSFILE_ERR_TRUNCATED
            else
              (case read_attributes mem c (attributes member_info_init) of
                 Inl status \<Rightarrow> Inl status
               | Inr (attrs, c) \<Rightarrow>
                   read_members_loop mem n c
                     (vec_set_last list
                        \<lparr>access_flags = flags, name_index = name, descriptor_index = descriptor,
                         attributes = attrs\<rparr>)))"

definition read_members ::
  "alloc \<Rightarrow> byte_cursor \<Rightarrow> member_list \<Rightarrow> classfile_status + member_list \<times> byte_cursor" where
  "read_members mem c list =
     (let (count, c) = byte_cursor_u2 c in
      if \<not> byte_cursor_ok c then Inl CLASSFILE_ERR_TRUNCATED
      else
        (case member_list_reserve mem list count of
           (status, list) \<Rightarrow>
             if status \<noteq> CLASSFILE_OK then Inl status
             else read_members_loop mem (unat count) c list))"

fun read_interfaces_loop ::
  "alloc \<Rightarrow> nat \<Rightarrow> byte_cursor \<Rightarrow> interface_list \<Rightarrow> classfile_status + interface_list \<times> byte_cursor" where
  "read_interfaces_loop mem 0 c list = Inr (list, c)"
| "read_interfaces_loop mem (Suc n) c list =
     (let (index, c) = byte_cursor_u2 c in
      (case interface_list_append mem list index of
         (appended, list) \<Rightarrow>
           if appended \<noteq> CLASSFILE_OK then Inl appended
           else read_interfaces_loop mem n c list))"

definition read_interfaces ::
  "alloc \<Rightarrow> byte_cursor \<Rightarrow> interface_list \<Rightarrow> classfile_status + interface_list \<times> byte_cursor" where
  "read_interfaces mem c list =
     (let (count, c) = byte_cursor_u2 c in
      if \<not> byte_cursor_ok c then Inl CLASSFILE_ERR_TRUNCATED
      else
        (case interface_list_reserve mem list count of
           (status, list) \<Rightarrow>
             if status \<noteq> CLASSFILE_OK then Inl status
             else
               (case read_interfaces_loop mem (unat count) c list of
                  Inl status \<Rightarrow> Inl status
                | Inr (list, c) \<Rightarrow>
                    if byte_cursor_ok c then Inr (list, c) else Inl CLASSFILE_ERR_TRUNCATED)))"

text \<open>The tail of \<open>classfile_parse\<close> behind the version check, and the whole function.\<close>

definition classfile_parse_body ::
  "alloc \<Rightarrow> byte_cursor \<Rightarrow> ClassFile \<Rightarrow> classfile_status + ClassFile" where
  "classfile_parse_body mem c cf =
     (case constant_pool_read mem c (cf_pool cf) of
        Inl status \<Rightarrow> Inl status
      | Inr (pool, c) \<Rightarrow>
          let (flags, c) = byte_cursor_u2 c; (this, c) = byte_cursor_u2 c;
              (super, c) = byte_cursor_u2 c in
          if \<not> byte_cursor_ok c then Inl CLASSFILE_ERR_TRUNCATED
          else
            (case read_interfaces mem c (cf_interfaces cf) of
               Inl status \<Rightarrow> Inl status
             | Inr (ints, c) \<Rightarrow>
                 (case read_members mem c (cf_fields cf) of
                    Inl status \<Rightarrow> Inl status
                  | Inr (flds, c) \<Rightarrow>
                      (case read_members mem c (cf_methods cf) of
                         Inl status \<Rightarrow> Inl status
                       | Inr (meths, c) \<Rightarrow>
                           (case read_attributes mem c (cf_attributes cf) of
                              Inl status \<Rightarrow> Inl status
                            | Inr (attrs, c) \<Rightarrow>
                                if \<not> byte_cursor_exhausted c
                                then Inl CLASSFILE_ERR_TRAILING_BYTES
                                else
                                  Inr (cf\<lparr>cf_pool := pool, cf_access_flags := flags,
                                          this_class := this, super_class := super,
                                          cf_interfaces := ints, cf_fields := flds,
                                          cf_methods := meths, cf_attributes := attrs\<rparr>))))))"

definition classfile_parse :: "alloc \<Rightarrow> u1 list \<Rightarrow> classfile_status + ClassFile" where
  "classfile_parse mem data =
     (case classFile_create mem of
        None \<Rightarrow> Inl CLASSFILE_ERR_OUT_OF_MEMORY
      | Some cf \<Rightarrow>
          let (magic, c) = byte_cursor_u4 (byte_cursor_init data) in
          if magic \<noteq> JAVA_CLASSFILE_MAGIC
          then Inl (if byte_cursor_ok c then CLASSFILE_ERR_MAGIC else CLASSFILE_ERR_TRUNCATED)
          else
            let (minor, c) = byte_cursor_u2 c; (major, c) = byte_cursor_u2 c in
            if \<not> byte_cursor_ok c then Inl CLASSFILE_ERR_TRUNCATED
            else if major < JAVA_MIN_SUPPORTED_VERSION then Inl CLASSFILE_ERR_VERSION
            else classfile_parse_body mem c (cf\<lparr>minor_version := minor, major_version := major\<rparr>))"

section \<open>Writing\<close>

definition write_attribute :: "alloc \<Rightarrow> attribute_info \<Rightarrow> byte_buffer \<Rightarrow> byte_buffer" where
  "write_attribute mem a b =
     byte_buffer_bytes mem (attr_info a)
       (byte_buffer_u4 mem (attribute_length a)
          (byte_buffer_u2 mem (attribute_name_index a) b))"

definition write_attributes :: "alloc \<Rightarrow> attribute_list \<Rightarrow> byte_buffer \<Rightarrow> byte_buffer" where
  "write_attributes mem list b =
     fold (write_attribute mem) (items list) (byte_buffer_u2 mem (vec_count list) b)"

definition write_member :: "alloc \<Rightarrow> member_info \<Rightarrow> byte_buffer \<Rightarrow> byte_buffer" where
  "write_member mem m b =
     write_attributes mem (attributes m)
       (byte_buffer_u2 mem (descriptor_index m)
          (byte_buffer_u2 mem (name_index m)
             (byte_buffer_u2 mem (access_flags m) b)))"

definition write_members :: "alloc \<Rightarrow> member_list \<Rightarrow> byte_buffer \<Rightarrow> byte_buffer" where
  "write_members mem list b =
     fold (write_member mem) (items list) (byte_buffer_u2 mem (vec_count list) b)"

definition classfile_serialize_tail :: "alloc \<Rightarrow> ClassFile \<Rightarrow> byte_buffer \<Rightarrow> byte_buffer" where
  "classfile_serialize_tail mem cf b =
     (let b = byte_buffer_u2 mem (cf_access_flags cf) b;
          b = byte_buffer_u2 mem (this_class cf) b;
          b = byte_buffer_u2 mem (super_class cf) b;
          b = byte_buffer_u2 mem (vec_count (cf_interfaces cf)) b;
          b = fold (byte_buffer_u2 mem) (items (cf_interfaces cf)) b;
          b = write_members mem (cf_fields cf) b;
          b = write_members mem (cf_methods cf) b
      in write_attributes mem (cf_attributes cf) b)"

definition classfile_serialize :: "alloc \<Rightarrow> ClassFile \<Rightarrow> classfile_status + u1 list" where
  "classfile_serialize mem cf =
     (let b = byte_buffer_reserve mem byte_buffer_init 8192;
          b = byte_buffer_u4 mem JAVA_CLASSFILE_MAGIC b;
          b = byte_buffer_u2 mem (minor_version cf) b;
          b = byte_buffer_u2 mem (major_version cf) b
      in case write_constant_pool mem (cf_pool cf) b of
           Inl pool_status \<Rightarrow> Inl pool_status
         | Inr b \<Rightarrow>
             let b = classfile_serialize_tail mem cf b in
             if \<not> byte_buffer_ok b then Inl CLASSFILE_ERR_OUT_OF_MEMORY
             else Inr (fst (byte_buffer_release b)))"

section \<open>The method layout of a class file\<close>

record jni2hook_method_info =
  info_name :: cstring
  info_descriptor :: cstring

definition duplicate_utf8 :: "alloc \<Rightarrow> constant_pool \<Rightarrow> u2 \<Rightarrow> cstring option" where
  "duplicate_utf8 mem pool index =
     (case constant_pool_utf8 pool index of
        None \<Rightarrow> None
      | Some bytes \<Rightarrow> if \<not> mem Alloc_bytes (length bytes + 1) then None else Some bytes)"

fun read_layout_loop ::
  "alloc \<Rightarrow> constant_pool \<Rightarrow> member_info list \<Rightarrow> jni2hook_status + jni2hook_method_info list" where
  "read_layout_loop mem pool [] = Inr []"
| "read_layout_loop mem pool (m # ms) =
     (if constant_pool_utf8 pool (name_index m) = None \<or>
         constant_pool_utf8 pool (descriptor_index m) = None
      then Inl JNI2HOOK_ERR_CLASS_FILE
      else
        (case (duplicate_utf8 mem pool (name_index m), duplicate_utf8 mem pool (descriptor_index m)) of
           (Some name, Some descriptor) \<Rightarrow>
             (case read_layout_loop mem pool ms of
                Inl status \<Rightarrow> Inl status
              | Inr infos \<Rightarrow> Inr (\<lparr>info_name = name, info_descriptor = descriptor\<rparr> # infos))
         | _ \<Rightarrow> Inl JNI2HOOK_ERR_OUT_OF_MEMORY))"

definition JNI2Hook_ReadMethodLayout ::
  "alloc \<Rightarrow> u1 list \<Rightarrow> jni2hook_status + jni2hook_method_info list" where
  "JNI2Hook_ReadMethodLayout mem class_bytes =
     (if length class_bytes = 0 then Inl JNI2HOOK_ERR_CLASS_FILE
      else
        case classfile_parse mem class_bytes of
          Inl _ \<Rightarrow> Inl JNI2HOOK_ERR_CLASS_FILE
        | Inr cf \<Rightarrow>
            let count = unat (vec_count (cf_methods cf)) in
            if count \<noteq> 0 \<and> \<not> mem Alloc_method_info count then Inl JNI2HOOK_ERR_OUT_OF_MEMORY
            else read_layout_loop mem (cf_pool cf) (items (cf_methods cf)))"

section \<open>The encoding\<close>

definition enc_attribute :: "attribute_info \<Rightarrow> u1 list" where
  "enc_attribute a = be2 (attribute_name_index a) @ be4 (attribute_length a) @ attr_info a"

definition enc_attributes :: "attribute_list \<Rightarrow> u1 list" where
  "enc_attributes list = be2 (vec_count list) @ concat (map enc_attribute (items list))"

definition enc_member :: "member_info \<Rightarrow> u1 list" where
  "enc_member m = be2 (access_flags m) @ be2 (name_index m) @ be2 (descriptor_index m) @
                  enc_attributes (attributes m)"

definition enc_members :: "member_list \<Rightarrow> u1 list" where
  "enc_members list = be2 (vec_count list) @ concat (map enc_member (items list))"

definition enc_interfaces :: "interface_list \<Rightarrow> u1 list" where
  "enc_interfaces list = be2 (vec_count list) @ concat (map be2 (items list))"

definition enc_classfile :: "ClassFile \<Rightarrow> u1 list" where
  "enc_classfile cf =
     be4 JAVA_CLASSFILE_MAGIC @ be2 (minor_version cf) @ be2 (major_version cf) @
     enc_pool (cf_pool cf) @ be2 (cf_access_flags cf) @ be2 (this_class cf) @ be2 (super_class cf) @
     enc_interfaces (cf_interfaces cf) @ enc_members (cf_fields cf) @ enc_members (cf_methods cf) @
     enc_attributes (cf_attributes cf)"

definition wf_attribute :: "attribute_info \<Rightarrow> bool" where
  "wf_attribute a \<longleftrightarrow> length (attr_info a) < 2 ^ 32"

definition wf_attributes :: "attribute_list \<Rightarrow> bool" where
  "wf_attributes list \<longleftrightarrow> vec_inv list \<and> list_all wf_attribute (items list)"

definition wf_member :: "member_info \<Rightarrow> bool" where
  "wf_member m \<longleftrightarrow> wf_attributes (attributes m)"

definition wf_members :: "member_list \<Rightarrow> bool" where
  "wf_members list \<longleftrightarrow> vec_inv list \<and> list_all wf_member (items list)"

definition wf_classfile :: "ClassFile \<Rightarrow> bool" where
  "wf_classfile cf \<longleftrightarrow>
     JAVA_MIN_SUPPORTED_VERSION \<le> major_version cf \<and> wf_pool (cf_pool cf) \<and>
     vec_inv (cf_interfaces cf) \<and> wf_members (cf_fields cf) \<and> wf_members (cf_methods cf) \<and>
     wf_attributes (cf_attributes cf)"

text \<open>A parsed tree has exactly the capacities its counts need.\<close>

definition vec_trim :: "'a vec \<Rightarrow> 'a vec" where
  "vec_trim v = v\<lparr>vcap := vec_count v\<rparr>"

definition member_trim :: "member_info \<Rightarrow> member_info" where
  "member_trim m = m\<lparr>attributes := vec_trim (attributes m)\<rparr>"

definition members_trim :: "member_list \<Rightarrow> member_list" where
  "members_trim list = \<lparr>items = map member_trim (items list), vcap = vec_count list\<rparr>"

definition classfile_trim :: "ClassFile \<Rightarrow> ClassFile" where
  "classfile_trim cf =
     cf\<lparr>cf_pool := pool_trim (cf_pool cf), cf_interfaces := vec_trim (cf_interfaces cf),
        cf_fields := members_trim (cf_fields cf), cf_methods := members_trim (cf_methods cf),
        cf_attributes := vec_trim (cf_attributes cf)\<rparr>"

section \<open>Writing is encoding\<close>

lemma emits_write_attribute [emits_intro]: "emits mem (write_attribute mem a) (enc_attribute a)"
  unfolding write_attribute_def [abs_def] enc_attribute_def
  using emits_comp [OF emits_comp [OF emits_u2 emits_u4] emits_bytes] by simp

lemma emits_write_attributes [emits_intro]:
  "emits mem (write_attributes mem list) (enc_attributes list)"
  unfolding write_attributes_def [abs_def] enc_attributes_def
  by (rule emits_comp [OF emits_u2 emits_fold [OF emits_write_attribute]])

lemma emits_write_member [emits_intro]: "emits mem (write_member mem m) (enc_member m)"
  unfolding write_member_def [abs_def] enc_member_def
  using emits_comp [OF emits_comp [OF emits_comp [OF emits_u2 emits_u2] emits_u2] emits_write_attributes]
  by simp

lemma emits_write_members [emits_intro]: "emits mem (write_members mem list) (enc_members list)"
  unfolding write_members_def [abs_def] enc_members_def
  by (rule emits_comp [OF emits_u2 emits_fold [OF emits_write_member]])

lemma emits_serialize_tail:
  "emits mem (classfile_serialize_tail mem cf)
     (be2 (cf_access_flags cf) @ be2 (this_class cf) @ be2 (super_class cf) @
      enc_interfaces (cf_interfaces cf) @ enc_members (cf_fields cf) @ enc_members (cf_methods cf) @
      enc_attributes (cf_attributes cf))"
  unfolding classfile_serialize_tail_def [abs_def] Let_def enc_interfaces_def
  using emits_comp [OF emits_comp [OF emits_comp [OF emits_comp [OF emits_comp [OF emits_comp
      [OF emits_comp [OF emits_u2 [of mem "cf_access_flags cf"] emits_u2 [of mem "this_class cf"]]
          emits_u2 [of mem "super_class cf"]] emits_u2 [of mem "vec_count (cf_interfaces cf)"]]
          emits_fold [of mem "byte_buffer_u2 mem" be2 "items (cf_interfaces cf)", OF emits_u2]]
          emits_write_members [of mem "cf_fields cf"]] emits_write_members [of mem "cf_methods cf"]]
          emits_write_attributes [of mem "cf_attributes cf"]]
  by simp

lemma classfile_serialize_enc:
  assumes "pool_inv (cf_pool cf)"
  shows "classfile_serialize mem cf \<in> {Inr (enc_classfile cf), Inl CLASSFILE_ERR_OUT_OF_MEMORY}"
    and "alloc_total mem \<Longrightarrow> classfile_serialize mem cf = Inr (enc_classfile cf)"
proof -
  from write_constant_pool_emits [OF assms, of mem] obtain f
    where f: "\<forall>b. write_constant_pool mem (cf_pool cf) b = Inr (f b)"
      "emits mem f (enc_pool (cf_pool cf))" by blast
  let ?w = "\<lambda>b. classfile_serialize_tail mem cf (f (byte_buffer_u2 mem (major_version cf)
      (byte_buffer_u2 mem (minor_version cf) (byte_buffer_u4 mem JAVA_CLASSFILE_MAGIC
         (byte_buffer_reserve mem b 8192)))))"
  have w: "emits mem ?w (enc_classfile cf)"
    unfolding enc_classfile_def
    using emits_comp [OF emits_comp [OF emits_comp [OF emits_comp [OF emits_comp
      [OF emits_reserve [of mem 8192] emits_u4 [of mem "JAVA_CLASSFILE_MAGIC"]]
          emits_u2 [of mem "minor_version cf"]] emits_u2 [of mem "major_version cf"]] f(2)]
          emits_serialize_tail [of mem cf]] by simp
  have s: "classfile_serialize mem cf =
      (if \<not> buf_ok (?w byte_buffer_init) then Inl CLASSFILE_ERR_OUT_OF_MEMORY
       else Inr (buf_data (?w byte_buffer_init)))"
    using f(1) by (simp add: classfile_serialize_def Let_def byte_buffer_ok_def byte_buffer_release_def)
  show "classfile_serialize mem cf \<in> {Inr (enc_classfile cf), Inl CLASSFILE_ERR_OUT_OF_MEMORY}"
    using s emitsD [OF w] by simp
  show "classfile_serialize mem cf = Inr (enc_classfile cf)" if "alloc_total mem"
    using s emitsD [OF w] emits_total [OF w that] by simp
qed


section \<open>Parsing is decoding\<close>

lemma vec_set_last_append:
  assumes "vec_inv v" "vec_append mem k first v x = (CLASSFILE_OK, w)" "1 \<le> unat first"
  shows "items (vec_set_last w y) = items v @ [y]" "vec_inv (vec_set_last w y)"
  using vec_append_ok [OF assms(1,3,2)] by (auto simp: vec_set_last_def vec_inv_def)

lemma vec_set_last_room:
  assumes "vec_inv v" "length (items v) < unat (vcap v)"
  shows "\<exists>w. vec_append mem k first v x = (CLASSFILE_OK, w) \<and>
    vec_set_last w y = v\<lparr>items := items v @ [y]\<rparr>"
  using vec_append_room [OF assms] by (auto simp: vec_set_last_def)

lemma spans_bytes_unat:
  "spans c bs c' \<Longrightarrow> length bs < 4294967296 \<Longrightarrow>
   byte_cursor_bytes c (unat (of_nat (length bs) :: u4)) = (Some bs, c')"
  using spans_bytes by simp

subsection \<open>Attributes\<close>

lemma set_info_total: "alloc_total mem \<Longrightarrow>
    attribute_info_set_info mem (attribute_info_zero\<lparr>attribute_name_index := attribute_name_index a\<rparr>)
      (attr_info a) = (CLASSFILE_OK, a)"
  by (simp add: attribute_info_set_info_def attribute_info_zero_def alloc_total_def)

lemma read_attributes_loop_sound:
  assumes "read_attributes_loop mem n c list = Inr (list', c')" "vec_inv list" "cur_ok c"
  shows "\<exists>xs. items list' = items list @ xs \<and> length xs = n \<and> vec_inv list' \<and>
    list_all wf_attribute xs \<and> spans c (concat (map enc_attribute xs)) c'"
  using assms
proof (induction n arbitrary: c list)
  case (Suc n)
  obtain st w where w: "attribute_list_append mem list attribute_info_zero = (st, w)"
    by (metis surj_pair)
  obtain name c1 where r1: "byte_cursor_u2 c = (name, c1)" by (metis surj_pair)
  obtain len c2 where r2: "byte_cursor_u4 c1 = (len, c2)" by (metis surj_pair)
  let ?a = "\<lambda>p. \<lparr>attribute_name_index = name, attr_info = p\<rparr>"
  from Suc.prems(1) w r1 r2 obtain p c3 where st: "st = CLASSFILE_OK"
    and p: "byte_cursor_bytes c2 (unat len) = (Some p, c3)"
    and rest: "read_attributes_loop mem n c3 (vec_set_last w (?a p)) = Inr (list', c')"
    by (auto simp: attribute_info_set_info_def attribute_info_zero_def
        split: if_splits option.splits prod.splits)
  from p have s3: "spans c2 p c3" and len: "length p = unat len"
    by (simp_all add: byte_cursor_bytes_iff)
  from r1 r2 s3 have s: "spans c (enc_attribute (?a p)) c3"
    using len by (auto simp: enc_attribute_def attribute_length_def
        intro!: spans_trans dest: spans_ok read_u2D read_u4D)
  have v: "items (vec_set_last w (?a p)) = items list @ [?a p]" "vec_inv (vec_set_last w (?a p))"
    using vec_set_last_append [OF Suc.prems(2) w [unfolded attribute_list_append_def st]] by simp_all
  from Suc.IH [OF rest v(2)] s3 spans_ok obtain xs where
    "items list' = items (vec_set_last w (?a p)) @ xs" "length xs = n" "vec_inv list'"
    "list_all wf_attribute xs" "spans c3 (concat (map enc_attribute xs)) c'" by blast
  with v s spans_trans [OF s] len show ?case
    by (intro exI [of _ "?a p # xs"]) (simp add: wf_attribute_def [of "?a p"])
qed simp

lemma read_attributes_sound:
  assumes "read_attributes mem c vec_init = Inr (list, c')"
  shows "spans c (enc_attributes list) c'" "wf_attributes list"
proof -
  obtain n c1 where r: "byte_cursor_u2 c = (n, c1)" by (metis surj_pair)
  obtain st w where w: "attribute_list_reserve mem vec_init n = (st, w)" by (metis surj_pair)
  from assms r w have ok: "cur_ok c1" "st = CLASSFILE_OK"
    and l: "read_attributes_loop mem (unat n) c1 w = Inr (list, c')"
    by (auto simp: read_attributes_def byte_cursor_ok_def split: if_splits)
  have "items w = [] \<and> vec_inv w"
    using attribute_list.reserve_ok [of vec_init mem n w] w ok(2) by simp
  with read_attributes_loop_sound [OF l _ ok(1)] obtain xs where
    xs: "items list = xs" "length xs = unat n" "vec_inv list" "list_all wf_attribute xs"
    "spans c1 (concat (map enc_attribute xs)) c'" by auto
  then have "vec_count list = n" by (simp add: vec_count_def)
  with xs r ok show "spans c (enc_attributes list) c'" "wf_attributes list"
    by (auto simp: enc_attributes_def wf_attributes_def intro: spans_trans byte_cursor_u2_spans)
qed

lemma read_attributes_loop_complete:
  assumes "spans c (concat (map enc_attribute xs)) c'" "list_all wf_attribute xs" "alloc_total mem"
    "vec_inv list" "length (items list) + length xs \<le> unat (vcap list)"
  shows "read_attributes_loop mem (length xs) c list = Inr (list\<lparr>items := items list @ xs\<rparr>, c')"
  using assms
proof (induction xs arbitrary: c list)
  case (Cons a xs)
  from Cons.prems(1) obtain c1 c2 c3 where
    r: "spans c (be2 (attribute_name_index a)) c1" "spans c1 (be4 (attribute_length a)) c2"
    and p: "spans c2 (attr_info a) c3" and rest: "spans c3 (concat (map enc_attribute xs)) c'"
    by (auto simp: enc_attribute_def [of a] spans_append)
  have p': "byte_cursor_bytes c2 (unat (attribute_length a)) = (Some (attr_info a), c3)"
    using spans_bytes_unat [OF p] Cons.prems(2) by (simp add: attribute_length_def wf_attribute_def [of a])
  obtain w where w: "attribute_list_append mem list attribute_info_zero = (CLASSFILE_OK, w)"
    and wl: "vec_set_last w a = list\<lparr>items := items list @ [a]\<rparr>"
    using vec_set_last_room [of list mem Alloc_attribute_info 4 attribute_info_zero a] Cons.prems(4,5)
    by (auto simp: attribute_list_append_def)
  have "read_attributes_loop mem (length xs) c3 (list\<lparr>items := items list @ [a]\<rparr>) =
      Inr (list\<lparr>items := items list @ a # xs\<rparr>, c')"
    using Cons.IH [OF rest, of "list\<lparr>items := items list @ [a]\<rparr>"] Cons.prems by (simp add: vec_inv_def)
  with w wl p' spans_u2 [OF r(1)] spans_u4 [OF r(2)] set_info_total [OF Cons.prems(3)] show ?case
    by simp
qed simp

lemma read_attributes_complete:
  assumes "spans c (enc_attributes list) c'" "wf_attributes list" "alloc_total mem"
  shows "read_attributes mem c vec_init = Inr (vec_trim list, c')"
proof -
  from assms(1) obtain c1 where r: "spans c (be2 (vec_count list)) c1"
    and l: "spans c1 (concat (map enc_attribute (items list))) c'"
    by (auto simp: enc_attributes_def spans_append)
  let ?w = "\<lparr>items = [], vcap = vec_count list\<rparr>"
  have n: "unat (vec_count list) = length (items list)"
    using assms(2) by (simp add: wf_attributes_def vec_inv_count)
  have w: "attribute_list_reserve mem vec_init (vec_count list) = (CLASSFILE_OK, ?w)"
    using assms(3) by (auto simp: attribute_list_reserve_def vec_reserve_def vec_init_def alloc_total_def)
  have "read_attributes_loop mem (length (items list)) c1 ?w = Inr (vec_trim list, c')"
    using read_attributes_loop_complete [OF l _ assms(3), of ?w] assms(2) n
    by (simp add: wf_attributes_def vec_trim_def vec_inv_def)
  with w n spans_u2 [OF r] spans_ok [OF r] show ?thesis
    by (simp add: read_attributes_def byte_cursor_ok_def)
qed


subsection \<open>Members\<close>

lemma read_members_loop_sound:
  assumes "read_members_loop mem n c list = Inr (list', c')" "vec_inv list" "cur_ok c"
  shows "\<exists>xs. items list' = items list @ xs \<and> length xs = n \<and> vec_inv list' \<and>
    list_all wf_member xs \<and> spans c (concat (map enc_member xs)) c'"
  using assms
proof (induction n arbitrary: c list)
  case (Suc n)
  obtain st w where w: "member_list_append mem list member_info_init = (st, w)" by (metis surj_pair)
  obtain f c1 where r1: "byte_cursor_u2 c = (f, c1)" by (metis surj_pair)
  obtain nm c2 where r2: "byte_cursor_u2 c1 = (nm, c2)" by (metis surj_pair)
  obtain d c3 where r3: "byte_cursor_u2 c2 = (d, c3)" by (metis surj_pair)
  let ?m = "\<lambda>as. \<lparr>access_flags = f, name_index = nm, descriptor_index = d, attributes = as\<rparr>"
  from Suc.prems(1) w r1 r2 r3 obtain as c4 where st: "st = CLASSFILE_OK" and ok: "cur_ok c3"
    and as: "read_attributes mem c3 vec_init = Inr (as, c4)"
    and rest: "read_members_loop mem n c4 (vec_set_last w (?m as)) = Inr (list', c')"
    by (auto simp: byte_cursor_ok_def member_info_init_def attribute_list_init_def
        split: if_splits sum.splits prod.splits)
  note a = read_attributes_sound [OF as]
  have s: "spans c (enc_member (?m as)) c4"
    using r1 r2 r3 ok a(1)
    by (auto simp: enc_member_def intro!: spans_trans dest: spans_ok read_u2D)
  have v: "items (vec_set_last w (?m as)) = items list @ [?m as]" "vec_inv (vec_set_last w (?m as))"
    using vec_set_last_append [OF Suc.prems(2) w [unfolded member_list_append_def st]] by simp_all
  from Suc.IH [OF rest v(2)] a(1) spans_ok obtain xs where
    "items list' = items (vec_set_last w (?m as)) @ xs" "length xs = n" "vec_inv list'"
    "list_all wf_member xs" "spans c4 (concat (map enc_member xs)) c'" by blast
  with v s spans_trans [OF s] a(2) show ?case
    by (intro exI [of _ "?m as # xs"]) (simp add: wf_member_def [of "?m as"])
qed simp

lemma read_members_sound:
  assumes "read_members mem c vec_init = Inr (list, c')"
  shows "spans c (enc_members list) c'" "wf_members list"
proof -
  obtain n c1 where r: "byte_cursor_u2 c = (n, c1)" by (metis surj_pair)
  obtain st w where w: "member_list_reserve mem vec_init n = (st, w)" by (metis surj_pair)
  from assms r w have ok: "cur_ok c1" "st = CLASSFILE_OK"
    and l: "read_members_loop mem (unat n) c1 w = Inr (list, c')"
    by (auto simp: read_members_def byte_cursor_ok_def split: if_splits)
  have "items w = [] \<and> vec_inv w"
    using member_list.reserve_ok [of vec_init mem n w] w ok(2) by simp
  with read_members_loop_sound [OF l _ ok(1)] obtain xs where
    xs: "items list = xs" "length xs = unat n" "vec_inv list" "list_all wf_member xs"
    "spans c1 (concat (map enc_member xs)) c'" by auto
  then have "vec_count list = n" by (simp add: vec_count_def)
  with xs r ok show "spans c (enc_members list) c'" "wf_members list"
    by (auto simp: enc_members_def wf_members_def intro: spans_trans byte_cursor_u2_spans)
qed

lemma read_members_loop_complete:
  assumes "spans c (concat (map enc_member xs)) c'" "list_all wf_member xs" "alloc_total mem"
    "vec_inv list" "length (items list) + length xs \<le> unat (vcap list)"
  shows "read_members_loop mem (length xs) c list =
           Inr (list\<lparr>items := items list @ map member_trim xs\<rparr>, c')"
  using assms
proof (induction xs arbitrary: c list)
  case (Cons m xs)
  from Cons.prems(1) obtain c1 c2 c3 c4 where
    r: "spans c (be2 (access_flags m)) c1" "spans c1 (be2 (name_index m)) c2"
    "spans c2 (be2 (descriptor_index m)) c3"
    and a: "spans c3 (enc_attributes (attributes m)) c4"
    and rest: "spans c4 (concat (map enc_member xs)) c'"
    by (auto simp: enc_member_def [of m] spans_append)
  have a': "read_attributes mem c3 vec_init = Inr (vec_trim (attributes m), c4)"
    using read_attributes_complete [OF a _ Cons.prems(3)] Cons.prems(2) by (simp add: wf_member_def [of m])
  let ?m = "member_trim m" and ?l = "list\<lparr>items := items list @ [member_trim m]\<rparr>"
  obtain w where w: "member_list_append mem list member_info_init = (CLASSFILE_OK, w)"
    and wl: "vec_set_last w ?m = ?l"
    using vec_set_last_room [of list mem Alloc_member_info 8 member_info_init ?m] Cons.prems(4,5)
    by (auto simp: member_list_append_def)
  have "read_members_loop mem (length xs) c4 ?l =
      Inr (list\<lparr>items := items list @ ?m # map member_trim xs\<rparr>, c')"
    using Cons.IH [OF rest, of ?l] Cons.prems by (simp add: vec_inv_def)
  with w wl [unfolded member_trim_def] a' spans_u2 [OF r(1)] spans_u2 [OF r(2)] spans_u2 [OF r(3)]
    spans_ok [OF r(3)] Cons.prems(3)
  show ?case
    by (cases m) (simp add: member_info_init_def attribute_list_init_def byte_cursor_ok_def member_trim_def)
qed simp

lemma read_members_complete:
  assumes "spans c (enc_members list) c'" "wf_members list" "alloc_total mem"
  shows "read_members mem c vec_init = Inr (members_trim list, c')"
proof -
  from assms(1) obtain c1 where r: "spans c (be2 (vec_count list)) c1"
    and l: "spans c1 (concat (map enc_member (items list))) c'"
    by (auto simp: enc_members_def spans_append)
  let ?w = "\<lparr>items = [], vcap = vec_count list\<rparr>"
  have n: "unat (vec_count list) = length (items list)"
    using assms(2) by (simp add: wf_members_def vec_inv_count)
  have w: "member_list_reserve mem vec_init (vec_count list) = (CLASSFILE_OK, ?w)"
    using assms(3) by (auto simp: member_list_reserve_def vec_reserve_def vec_init_def alloc_total_def)
  have "read_members_loop mem (length (items list)) c1 ?w = Inr (members_trim list, c')"
    using read_members_loop_complete [OF l _ assms(3), of ?w] assms(2) n
    by (simp add: wf_members_def members_trim_def vec_inv_def)
  with w n spans_u2 [OF r] spans_ok [OF r] show ?thesis
    by (simp add: read_members_def byte_cursor_ok_def)
qed

subsection \<open>Interfaces\<close>

lemma read_interfaces_loop_sound:
  assumes "read_interfaces_loop mem n c list = Inr (list', c')" "vec_inv list" "cur_ok c'"
  shows "\<exists>xs. items list' = items list @ xs \<and> length xs = n \<and> vec_inv list' \<and>
    spans c (concat (map be2 xs)) c'"
  using assms
proof (induction n arbitrary: c list)
  case (Suc n)
  obtain i c1 where r: "byte_cursor_u2 c = (i, c1)" by (metis surj_pair)
  obtain st w where w: "interface_list_append mem list i = (st, w)" by (metis surj_pair)
  from Suc.prems(1) r w have st: "st = CLASSFILE_OK"
    and rest: "read_interfaces_loop mem n c1 w = Inr (list', c')" by (auto split: if_splits)
  have v: "items w = items list @ [i]" "vec_inv w"
    using interface_list.append_ok [OF Suc.prems(2) w [unfolded st]] by auto
  from Suc.IH [OF rest v(2) Suc.prems(3)] obtain xs where
    xs: "items list' = items w @ xs" "length xs = n" "vec_inv list'" "spans c1 (concat (map be2 xs)) c'"
    by blast
  have "spans c (be2 i) c1" using r xs(4) spans_ok byte_cursor_u2_spans by blast
  from spans_trans [OF this xs(4)] xs v show ?case by (intro exI [of _ "i # xs"]) simp
qed simp

lemma read_interfaces_sound:
  assumes "read_interfaces mem c vec_init = Inr (list, c')"
  shows "spans c (enc_interfaces list) c'" "vec_inv list"
proof -
  obtain n c1 where r: "byte_cursor_u2 c = (n, c1)" by (metis surj_pair)
  obtain st w where w: "interface_list_reserve mem vec_init n = (st, w)" by (metis surj_pair)
  from assms r w have ok: "cur_ok c1" "cur_ok c'" "st = CLASSFILE_OK"
    and l: "read_interfaces_loop mem (unat n) c1 w = Inr (list, c')"
    by (auto simp: read_interfaces_def byte_cursor_ok_def split: if_splits sum.splits prod.splits)
  have "items w = [] \<and> vec_inv w"
    using interface_list.reserve_ok [of vec_init mem n w] w ok(3) by simp
  with read_interfaces_loop_sound [OF l _ ok(2)] obtain xs where
    xs: "items list = xs" "length xs = unat n" "vec_inv list" "spans c1 (concat (map be2 xs)) c'"
    by auto
  then have "vec_count list = n" by (simp add: vec_count_def)
  with xs r ok show "spans c (enc_interfaces list) c'" "vec_inv list"
    by (auto simp: enc_interfaces_def intro: spans_trans byte_cursor_u2_spans)
qed

lemma read_interfaces_loop_complete:
  assumes "spans c (concat (map be2 xs)) c'" "vec_inv list"
    "length (items list) + length xs \<le> unat (vcap list)"
  shows "read_interfaces_loop mem (length xs) c list = Inr (list\<lparr>items := items list @ xs\<rparr>, c')"
  using assms
proof (induction xs arbitrary: c list)
  case (Cons i xs)
  from Cons.prems(1) obtain c1 where r: "spans c (be2 i) c1"
    and rest: "spans c1 (concat (map be2 xs)) c'" by (auto simp: spans_append)
  let ?l = "list\<lparr>items := items list @ [i]\<rparr>"
  have w: "interface_list_append mem list i = (CLASSFILE_OK, ?l)"
    using vec_append_room [of list] Cons.prems(2,3) by (simp add: interface_list_append_def)
  have "read_interfaces_loop mem (length xs) c1 ?l = Inr (list\<lparr>items := items list @ i # xs\<rparr>, c')"
    using Cons.IH [OF rest, of ?l] Cons.prems by (simp add: vec_inv_def)
  with w spans_u2 [OF r] show ?case by simp
qed simp

lemma read_interfaces_complete:
  assumes "spans c (enc_interfaces list) c'" "vec_inv list" "alloc_total mem"
  shows "read_interfaces mem c vec_init = Inr (vec_trim list, c')"
proof -
  from assms(1) obtain c1 where r: "spans c (be2 (vec_count list)) c1"
    and l: "spans c1 (concat (map be2 (items list))) c'"
    by (auto simp: enc_interfaces_def spans_append)
  let ?w = "\<lparr>items = [], vcap = vec_count list\<rparr>"
  have n: "unat (vec_count list) = length (items list)" using assms(2) by (rule vec_inv_count)
  have w: "interface_list_reserve mem vec_init (vec_count list) = (CLASSFILE_OK, ?w)"
    using assms(3) by (auto simp: interface_list_reserve_def vec_reserve_def vec_init_def alloc_total_def)
  have "read_interfaces_loop mem (length (items list)) c1 ?w = Inr (vec_trim list, c')"
    using read_interfaces_loop_complete [OF l, of ?w] n by (simp add: vec_trim_def vec_inv_def)
  with w n spans_u2 [OF r] spans_ok [OF r] spans_ok [OF l] show ?thesis
    by (simp add: read_interfaces_def byte_cursor_ok_def)
qed


subsection \<open>The whole file\<close>

lemma classFile_create_eq:
  "classFile_create mem = Some cf \<Longrightarrow>
     cf_pool cf = constant_pool_init \<and> cf_interfaces cf = vec_init \<and> cf_fields cf = vec_init \<and>
     cf_methods cf = vec_init \<and> cf_attributes cf = vec_init"
  by (auto simp: classFile_create_def interface_list_init_def member_list_init_def
      attribute_list_init_def split: if_splits)

definition enc_rest :: "ClassFile \<Rightarrow> u1 list" where
  "enc_rest cf = enc_pool (cf_pool cf) @ be2 (cf_access_flags cf) @ be2 (this_class cf) @
     be2 (super_class cf) @ enc_interfaces (cf_interfaces cf) @ enc_members (cf_fields cf) @
     enc_members (cf_methods cf) @ enc_attributes (cf_attributes cf)"

lemma enc_classfile_rest:
  "enc_classfile cf = be4 JAVA_CLASSFILE_MAGIC @ be2 (minor_version cf) @ be2 (major_version cf) @
     enc_rest cf"
  by (simp add: enc_classfile_def enc_rest_def)

lemma classfile_parse_body_sound:
  assumes "classfile_parse_body mem c cf0 = Inr cf" "classFile_create mem' = Some cf1"
    "cf0 = cf1\<lparr>minor_version := minor, major_version := major\<rparr>"
  shows "\<exists>c'. spans c (enc_rest cf) c' \<and> byte_cursor_exhausted c'"
    and "minor_version cf = minor" "major_version cf = major"
    and "wf_pool (cf_pool cf)" "vec_inv (cf_interfaces cf)" "wf_members (cf_fields cf)"
    "wf_members (cf_methods cf)" "wf_attributes (cf_attributes cf)"
proof -
  note z = classFile_create_eq [OF assms(2)]
  from assms(1) obtain pool c1 f c2 t c3 s c4 ifs c5 fs c6 ms c7 as c8 where
    p: "constant_pool_read mem c constant_pool_init = Inr (pool, c1)"
    and r: "byte_cursor_u2 c1 = (f, c2)" "byte_cursor_u2 c2 = (t, c3)" "byte_cursor_u2 c3 = (s, c4)" "cur_ok c4"
    and i: "read_interfaces mem c4 vec_init = Inr (ifs, c5)"
    and fs: "read_members mem c5 vec_init = Inr (fs, c6)"
    and ms: "read_members mem c6 vec_init = Inr (ms, c7)"
    and as: "read_attributes mem c7 vec_init = Inr (as, c8)"
    and e: "byte_cursor_exhausted c8"
    and cf: "cf = cf0\<lparr>cf_pool := pool, cf_access_flags := f, this_class := t, super_class := s,
               cf_interfaces := ifs, cf_fields := fs, cf_methods := ms, cf_attributes := as\<rparr>"
    using z assms(3)
    by (auto simp: classfile_parse_body_def byte_cursor_ok_def split: sum.splits prod.splits if_splits)
  note sound = constant_pool_read_sound [OF p] read_interfaces_sound [OF i] read_members_sound [OF fs]
    read_members_sound [OF ms] read_attributes_sound [OF as]
  from r have "spans c1 (be2 f) c2" "spans c2 (be2 t) c3" "spans c3 (be2 s) c4"
    by (auto dest: read_u2D)
  with sound have "spans c (enc_rest cf) c8"
    unfolding cf enc_rest_def by (auto intro!: spans_trans)
  with e show "\<exists>c'. spans c (enc_rest cf) c' \<and> byte_cursor_exhausted c'" by blast
  show "minor_version cf = minor" "major_version cf = major" "wf_pool (cf_pool cf)"
    "vec_inv (cf_interfaces cf)" "wf_members (cf_fields cf)" "wf_members (cf_methods cf)"
    "wf_attributes (cf_attributes cf)"
    using sound assms(3) by (simp_all add: cf)
qed

lemma classfile_parse_sound:
  assumes "classfile_parse mem data = Inr cf"
  shows "enc_classfile cf = data" "wf_classfile cf"
proof -
  let ?c = "byte_cursor_init data"
  from assms obtain cf1 c1 mi c2 ma c3 where
    z: "classFile_create mem = Some cf1"
    and r: "byte_cursor_u4 ?c = (JAVA_CLASSFILE_MAGIC, c1)" "byte_cursor_u2 c1 = (mi, c2)"
      "byte_cursor_u2 c2 = (ma, c3)" "cur_ok c3"
    and v: "JAVA_MIN_SUPPORTED_VERSION \<le> ma"
    and b: "classfile_parse_body mem c3 (cf1\<lparr>minor_version := mi, major_version := ma\<rparr>) = Inr cf"
    by (auto simp: classfile_parse_def byte_cursor_ok_def not_less
        split: option.splits prod.splits if_splits)
  note body = classfile_parse_body_sound [OF b z refl]
  from body(1) obtain c' where c': "spans c3 (enc_rest cf) c'" "byte_cursor_exhausted c'" by blast
  from r have "spans ?c (be4 JAVA_CLASSFILE_MAGIC) c1" "spans c1 (be2 mi) c2" "spans c2 (be2 ma) c3"
    by (auto dest: read_u2D read_u4D)
  with c'(1) have "spans ?c (enc_classfile cf) c'"
    unfolding enc_classfile_rest body(2,3) by (auto intro!: spans_trans)
  with c'(2) show "enc_classfile cf = data" by (blast intro: spans_exhausted)
  show "wf_classfile cf" using body v by (simp add: wf_classfile_def)
qed

lemma classfile_parse_body_complete:
  assumes "spans c (enc_rest cf) c'" "wf_classfile cf" "alloc_total mem"
    "classFile_create mem' = Some cf1"
  shows "classfile_parse_body mem c
           (cf1\<lparr>minor_version := minor_version cf, major_version := major_version cf\<rparr>) =
         (if byte_cursor_exhausted c' then Inr (classfile_trim cf)
          else Inl CLASSFILE_ERR_TRAILING_BYTES)"
proof -
  note z = classFile_create_eq [OF assms(4)]
  from assms(1) obtain c1 c2 c3 c4 c5 c6 c7 where
    p: "spans c (enc_pool (cf_pool cf)) c1"
    and r: "spans c1 (be2 (cf_access_flags cf)) c2" "spans c2 (be2 (this_class cf)) c3"
      "spans c3 (be2 (super_class cf)) c4"
    and i: "spans c4 (enc_interfaces (cf_interfaces cf)) c5"
    and f: "spans c5 (enc_members (cf_fields cf)) c6"
    and m: "spans c6 (enc_members (cf_methods cf)) c7"
    and a: "spans c7 (enc_attributes (cf_attributes cf)) c'"
    by (auto simp: enc_rest_def spans_append)
  from assms(2) have wf: "wf_pool (cf_pool cf)" "vec_inv (cf_interfaces cf)" "wf_members (cf_fields cf)"
    "wf_members (cf_methods cf)" "wf_attributes (cf_attributes cf)"
    by (simp_all add: wf_classfile_def)
  note reads = constant_pool_read_complete [OF wf(1) assms(3) p] spans_u2 [OF r(1)] spans_u2 [OF r(2)]
    spans_u2 [OF r(3)] read_interfaces_complete [OF i wf(2) assms(3)]
    read_members_complete [OF f wf(3) assms(3)] read_members_complete [OF m wf(4) assms(3)]
    read_attributes_complete [OF a wf(5) assms(3)]
  show ?thesis
    using z reads spans_ok [OF r(3)]
    by (simp add: classfile_parse_body_def byte_cursor_ok_def classfile_trim_def)
qed

lemma classfile_parse_complete:
  assumes "wf_classfile cf" "alloc_total mem"
  shows "classfile_parse mem (enc_classfile cf @ extra) =
           (if extra = [] then Inr (classfile_trim cf) else Inl CLASSFILE_ERR_TRAILING_BYTES)"
proof -
  let ?d = "enc_classfile cf" and ?c = "byte_cursor_init (enc_classfile cf @ extra)"
  obtain c' where w: "spans ?c ?d c'" and e: "byte_cursor_exhausted c' \<longleftrightarrow> extra = []"
    by (auto simp: spans_def byte_cursor_init_def byte_cursor_exhausted_def)
  from w obtain c1 c2 c3 where
    r: "spans ?c (be4 JAVA_CLASSFILE_MAGIC) c1" "spans c1 (be2 (minor_version cf)) c2"
      "spans c2 (be2 (major_version cf)) c3" and rest: "spans c3 (enc_rest cf) c'"
    by (auto simp: spans_append enc_classfile_rest)
  obtain cf1 where z: "classFile_create mem = Some cf1"
    using assms(2) by (simp add: classFile_create_def alloc_total_def)
  have v: "\<not> major_version cf < JAVA_MIN_SUPPORTED_VERSION"
    using assms(1) by (simp add: wf_classfile_def not_less)
  from spans_u4 [OF r(1)] spans_u2 [OF r(2)] spans_u2 [OF r(3)] spans_ok [OF r(3)] z v
    classfile_parse_body_complete [OF rest assms z] e
  show ?thesis by (simp add: classfile_parse_def byte_cursor_ok_def)
qed

lemma read_layout_loop_ok:
  "read_layout_loop mem pool ms = Inr infos \<Longrightarrow>
   list_all2 (\<lambda>m i. constant_pool_utf8_equals pool (name_index m) (info_name i) \<and>
                    constant_pool_utf8_equals pool (descriptor_index m) (info_descriptor i)) ms infos"
proof (induction ms arbitrary: infos)
  case (Cons m ms)
  from Cons.prems obtain n d is' where
    n: "constant_pool_utf8 pool (name_index m) = Some n"
    and d: "constant_pool_utf8 pool (descriptor_index m) = Some d"
    and r: "read_layout_loop mem pool ms = Inr is'"
    and i: "infos = \<lparr>info_name = n, info_descriptor = d\<rparr> # is'"
    by (auto simp: duplicate_utf8_def split: if_splits option.splits sum.splits)
  have "constant_pool_utf8_equals pool (name_index m) n" "constant_pool_utf8_equals pool (descriptor_index m) d"
    using n d by (simp_all add: constant_pool_utf8_equals_def)
  with Cons.IH [OF r] i show ?case by simp
qed simp

lemma read_layout_loop_total:
  assumes "alloc_total mem"
    and "\<forall>m \<in> set ms. constant_pool_utf8 pool (name_index m) \<noteq> None \<and>
                      constant_pool_utf8 pool (descriptor_index m) \<noteq> None"
  shows "\<exists>infos. read_layout_loop mem pool ms = Inr infos"
  using assms(2)
proof (induction ms)
  case (Cons m ms)
  with assms(1) show ?case by (auto simp: duplicate_utf8_def alloc_total_def split: sum.splits)
qed simp

definition tiny_class :: "u1 list" where
  "tiny_class =
     [0xCA, 0xFE, 0xBA, 0xBE, 0, 0, 0, 52,
      0, 8, 7, 0, 2, 1, 0, 1, 65, 5, 0, 0, 0, 0, 0, 0, 0, 7, 1, 0, 1, 109, 1, 0, 3, 40, 41, 86,
      1, 0, 4, 67, 111, 100, 101,
      0, 33, 0, 1, 0, 0, 0, 0, 0, 0,
      0, 1, 0, 1, 0, 5, 0, 6, 0, 1, 0, 7, 0, 0, 0, 2, 170, 187,
      0, 0]"

lemma tiny_class_parses: "\<exists>cf. classfile_parse heap_ok tiny_class = Inr cf"
proof -
  have "case classfile_parse heap_ok tiny_class of Inl _ \<Rightarrow> False | Inr _ \<Rightarrow> True"
    by code_simp
  then show ?thesis by (auto split: sum.splits)
qed

section \<open>Properties\<close>

text \<open>
  C1: reading and writing are inverse on the input bytes. Whatever byte array the
  parser accepts, serialising the tree it built gives back exactly those bytes
  (or reports an allocation failure), so a class that is not edited is not changed.
\<close>

theorem parse_serialize_roundtrip:
  assumes "classfile_parse mem data = Inr cf"
  shows "classfile_serialize mem' cf \<in> {Inr data, Inl CLASSFILE_ERR_OUT_OF_MEMORY} \<and>
         (alloc_total mem' \<longrightarrow> classfile_serialize mem' cf = Inr data)"
proof -
  have inv: "pool_inv (cf_pool cf)"
    using classfile_parse_sound(2) [OF assms] by (simp add: wf_classfile_def wf_pool_def)
  from classfile_serialize_enc [OF inv] classfile_parse_sound(1) [OF assms] show ?thesis by auto
qed

theorem parse_serialize_roundtrip_witness:
  "\<exists>cf. classfile_parse heap_ok tiny_class = Inr cf \<and> classfile_serialize heap_ok cf = Inr tiny_class"
  using tiny_class_parses parse_serialize_roundtrip [of heap_ok tiny_class _ heap_ok] by force

text \<open>
  C2: writing and reading are inverse on trees. The bytes of a well-formed tree are
  accepted, and the tree that comes back has the same contents: only the spare
  capacities of its lists are gone, and they are gone after one pass.
\<close>

theorem serialize_parse_roundtrip:
  assumes "wf_classfile cf" "classfile_serialize mem cf = Inr bytes" "alloc_total mem'"
  shows "classfile_parse mem' bytes = Inr (classfile_trim cf) \<and>
         classfile_serialize mem' (classfile_trim cf) = Inr bytes"
proof -
  have "pool_inv (cf_pool cf)" using assms(1) by (simp add: wf_classfile_def wf_pool_def)
  with classfile_serialize_enc(1) [of cf mem] assms(2) have bytes: "bytes = enc_classfile cf" by auto
  have p: "classfile_parse mem' bytes = Inr (classfile_trim cf)"
    using classfile_parse_complete [OF assms(1,3), of "[]"] bytes by simp
  note s = classfile_parse_sound [OF p]
  then have "pool_inv (cf_pool (classfile_trim cf))" by (simp add: wf_classfile_def wf_pool_def)
  from classfile_serialize_enc(2) [OF this assms(3)] s(1) p show ?thesis by simp
qed

theorem serialize_parse_roundtrip_witness:
  "\<exists>cf bytes. wf_classfile cf \<and> classfile_serialize heap_ok cf = Inr bytes \<and>
     classfile_parse heap_ok bytes = Inr (classfile_trim cf)"
proof -
  obtain cf where cf: "classfile_parse heap_ok tiny_class = Inr cf" using tiny_class_parses by blast
  have wf: "wf_classfile cf" by (rule classfile_parse_sound(2) [OF cf])
  then have "pool_inv (cf_pool cf)" by (simp add: wf_classfile_def wf_pool_def)
  then have s: "classfile_serialize heap_ok cf = Inr (enc_classfile cf)"
    by (rule classfile_serialize_enc(2)) simp
  from serialize_parse_roundtrip [OF wf s, of heap_ok] wf s show ?thesis by auto
qed

text \<open>
  the parser accepts exactly the encodings of well-formed class files; a file
  with anything behind its last attribute is refused as such.
\<close>

theorem parse_accepts_exactly:
  assumes "alloc_total mem"
  shows "((\<exists>cf. classfile_parse mem data = Inr cf) \<longleftrightarrow>
            (\<exists>cf. wf_classfile cf \<and> data = enc_classfile cf)) \<and>
         (\<forall>cf extra. classfile_parse mem data = Inr cf \<longrightarrow> extra \<noteq> [] \<longrightarrow>
            classfile_parse mem (data @ extra) = Inl CLASSFILE_ERR_TRAILING_BYTES)"
proof (intro conjI allI impI)
  show "(\<exists>cf. classfile_parse mem data = Inr cf) \<longleftrightarrow> (\<exists>cf. wf_classfile cf \<and> data = enc_classfile cf)"
    using classfile_parse_sound [of mem data] classfile_parse_complete [OF _ assms, of _ "[]"] by auto
  fix cf and extra :: "u1 list" assume p: "classfile_parse mem data = Inr cf" and "extra \<noteq> []"
  with classfile_parse_sound [OF p] classfile_parse_complete [OF _ assms, of cf extra]
  show "classfile_parse mem (data @ extra) = Inl CLASSFILE_ERR_TRAILING_BYTES" by simp
qed

theorem parse_accepts_exactly_witness:
  "alloc_total heap_ok \<and> (\<exists>cf. wf_classfile cf \<and> tiny_class = enc_classfile cf) \<and>
   classfile_parse heap_ok (tiny_class @ [0]) = Inl CLASSFILE_ERR_TRAILING_BYTES"
  using parse_accepts_exactly [of heap_ok tiny_class] tiny_class_parses by auto

text \<open>
  the layout reader reports the class's own methods, in order, each with the
  name and descriptor its constant pool entries hold; on a parsed class whose
  methods are all named it succeeds unless the allocator refuses.
\<close>

theorem read_method_layout_correct:
  assumes "classfile_parse mem data = Inr cf" "data \<noteq> []"
  shows "(\<forall>infos. JNI2Hook_ReadMethodLayout mem data = Inr infos \<longrightarrow>
            list_all2 (\<lambda>m i. constant_pool_utf8_equals (cf_pool cf) (name_index m) (info_name i) \<and>
                constant_pool_utf8_equals (cf_pool cf) (descriptor_index m) (info_descriptor i))
              (items (cf_methods cf)) infos) \<and>
         (alloc_total mem \<and> (\<forall>m \<in> set (items (cf_methods cf)).
              constant_pool_utf8 (cf_pool cf) (name_index m) \<noteq> None \<and>
              constant_pool_utf8 (cf_pool cf) (descriptor_index m) \<noteq> None) \<longrightarrow>
          (\<exists>infos. JNI2Hook_ReadMethodLayout mem data = Inr infos))"
proof (intro conjI allI impI)
  fix infos assume "JNI2Hook_ReadMethodLayout mem data = Inr infos"
  with assms have "read_layout_loop mem (cf_pool cf) (items (cf_methods cf)) = Inr infos"
    by (auto simp: JNI2Hook_ReadMethodLayout_def Let_def split: if_splits)
  then show "list_all2 (\<lambda>m i. constant_pool_utf8_equals (cf_pool cf) (name_index m) (info_name i) \<and>
                constant_pool_utf8_equals (cf_pool cf) (descriptor_index m) (info_descriptor i))
              (items (cf_methods cf)) infos"
    by (rule read_layout_loop_ok)
next
  assume a: "alloc_total mem \<and> (\<forall>m \<in> set (items (cf_methods cf)).
              constant_pool_utf8 (cf_pool cf) (name_index m) \<noteq> None \<and>
              constant_pool_utf8 (cf_pool cf) (descriptor_index m) \<noteq> None)"
  then have "\<not> (unat (vec_count (cf_methods cf)) \<noteq> 0 \<and> \<not> mem Alloc_method_info (unat (vec_count (cf_methods cf))))"
    by (simp add: alloc_total_def)
  with a read_layout_loop_total [of mem "items (cf_methods cf)" "cf_pool cf"] assms
  show "\<exists>infos. JNI2Hook_ReadMethodLayout mem data = Inr infos"
    by (simp add: JNI2Hook_ReadMethodLayout_def Let_def)
qed

theorem read_method_layout_correct_witness:
  "\<exists>cf infos. classfile_parse heap_ok tiny_class = Inr cf \<and>
     JNI2Hook_ReadMethodLayout heap_ok tiny_class = Inr infos \<and>
     map info_name infos = [cstr ''m''] \<and>
     list_all2 (\<lambda>m i. constant_pool_utf8_equals (cf_pool cf) (name_index m) (info_name i) \<and>
         constant_pool_utf8_equals (cf_pool cf) (descriptor_index m) (info_descriptor i))
       (items (cf_methods cf)) infos"
proof -
  obtain cf where cf: "classfile_parse heap_ok tiny_class = Inr cf" using tiny_class_parses by blast
  have ne: "tiny_class \<noteq> []" by (simp add: tiny_class_def)
  have "case JNI2Hook_ReadMethodLayout heap_ok tiny_class of
      Inl _ \<Rightarrow> False | Inr infos \<Rightarrow> map info_name infos = [cstr ''m'']"
    by code_simp
  then obtain infos where i: "JNI2Hook_ReadMethodLayout heap_ok tiny_class = Inr infos"
    "map info_name infos = [cstr ''m'']" by (auto split: sum.splits)
  from read_method_layout_correct [OF cf ne, THEN conjunct1, rule_format, OF i(1)] cf i show ?thesis
    by (intro exI [of _ cf] exI [of _ infos] conjI)
qed

end
