(* ===== verification/Code_Attribute.thy ===== *)
theory Code_Attribute
  imports Class_File_IO
begin

text \<open>
  The Code attribute as a node of its own: \<^verbatim>\<open>visitors/code_attribute.c\<close>. It is
  parsed out of an opaque attribute on demand and written back after editing;
  the attributes nested in it stay opaque. The loop that reads them is the loop
  of \<open>read_attributes\<close>, repeated in the C source.

  Shown here: writing and parsing are inverse, and exactly which payloads the
  parser accepts. It is more permissive than the format: a count that lies
  behind the end of the payload is taken as zero.
\<close>

section \<open>Data and operations\<close>

record exception_entry =
  start_pc :: u2
  end_pc :: u2
  handler_pc :: u2
  catch_type :: u2

type_synonym exception_table = "exception_entry vec"

definition exception_table_init :: exception_table where
  "exception_table_init = vec_init"

definition exception_table_free :: "exception_table \<Rightarrow> exception_table" where
  "exception_table_free table = exception_table_init"

definition exception_table_reserve :: "alloc \<Rightarrow> exception_table \<Rightarrow> u2 \<Rightarrow> classfile_status \<times> exception_table" where
  "exception_table_reserve mem = vec_reserve mem Alloc_exception_entry"

definition exception_table_append ::
  "alloc \<Rightarrow> exception_table \<Rightarrow> exception_entry \<Rightarrow> classfile_status \<times> exception_table" where
  "exception_table_append mem = vec_append mem Alloc_exception_entry 4"

record code_attribute =
  max_stack :: u2
  max_locals :: u2
  code_code :: "u1 list"
  exceptions :: exception_table
  code_attributes :: attribute_list

definition code_length :: "code_attribute \<Rightarrow> u4" where
  "code_length code = of_nat (length (code_code code))"

definition code_attribute_init :: code_attribute where
  "code_attribute_init =
     \<lparr>max_stack = 0, max_locals = 0, code_code = [], exceptions = exception_table_init,
      code_attributes = attribute_list_init\<rparr>"

definition code_attribute_free :: "code_attribute \<Rightarrow> code_attribute" where
  "code_attribute_free code = code_attribute_init"

definition code_attribute_set_code ::
  "alloc \<Rightarrow> code_attribute \<Rightarrow> u1 list \<Rightarrow> classfile_status \<times> code_attribute" where
  "code_attribute_set_code mem code bytes =
     (if \<not> mem Alloc_bytes (if length bytes \<noteq> 0 then length bytes else 1)
      then (CLASSFILE_ERR_OUT_OF_MEMORY, code)
      else (CLASSFILE_OK, code\<lparr>code_code := bytes\<rparr>))"

fun read_exceptions_loop ::
  "alloc \<Rightarrow> nat \<Rightarrow> byte_cursor \<Rightarrow> exception_table \<Rightarrow> classfile_status + exception_table \<times> byte_cursor" where
  "read_exceptions_loop mem 0 c table = Inr (table, c)"
| "read_exceptions_loop mem (Suc n) c table =
     (let (s, c) = byte_cursor_u2 c; (e, c) = byte_cursor_u2 c;
          (h, c) = byte_cursor_u2 c; (t, c) = byte_cursor_u2 c in
      if \<not> byte_cursor_ok c then Inl CLASSFILE_ERR_TRUNCATED
      else
        (case exception_table_append mem table
                \<lparr>start_pc = s, end_pc = e, handler_pc = h, catch_type = t\<rparr> of
           (status, table) \<Rightarrow>
             if status \<noteq> CLASSFILE_OK then Inl status
             else read_exceptions_loop mem n c table))"

text \<open>
  The two counted tables behind the bytecode. Neither count is checked for
  having been read: behind the end it is zero.
\<close>

definition code_attribute_parse_tables ::
  "alloc \<Rightarrow> byte_cursor \<Rightarrow> code_attribute \<Rightarrow> classfile_status + code_attribute" where
  "code_attribute_parse_tables mem c out =
     (let (exception_count, c) = byte_cursor_u2 c;
          (status, table) = exception_table_reserve mem (exceptions out) exception_count in
      if status \<noteq> CLASSFILE_OK then Inl status
      else
        (case read_exceptions_loop mem (unat exception_count) c table of
           Inl status \<Rightarrow> Inl status
         | Inr (table, c) \<Rightarrow>
             let (attribute_count, c) = byte_cursor_u2 c;
                 (status, list) = attribute_list_reserve mem (code_attributes out) attribute_count in
             if status \<noteq> CLASSFILE_OK then Inl status
             else
               (case read_attributes_loop mem (unat attribute_count) c list of
                  Inl status \<Rightarrow> Inl status
                | Inr (list, c) \<Rightarrow>
                    if \<not> byte_cursor_exhausted c then Inl CLASSFILE_ERR_TRAILING_BYTES
                    else Inr (out\<lparr>exceptions := table, code_attributes := list\<rparr>))))"

definition code_attribute_parse :: "alloc \<Rightarrow> attribute_info \<Rightarrow> classfile_status + code_attribute" where
  "code_attribute_parse mem attribute =
     (let out = code_attribute_init;
          c = byte_cursor_init (attr_info attribute);
          (stack, c) = byte_cursor_u2 c;
          (locals, c) = byte_cursor_u2 c;
          (len, c) = byte_cursor_u4 c in
      case byte_cursor_bytes c (unat len) of
        (None, c) \<Rightarrow> Inl CLASSFILE_ERR_TRUNCATED
      | (Some code_bytes, c) \<Rightarrow>
          (case code_attribute_set_code mem (out\<lparr>max_stack := stack, max_locals := locals\<rparr>) code_bytes of
             (status, out) \<Rightarrow>
               if status \<noteq> CLASSFILE_OK then Inl status
               else code_attribute_parse_tables mem c out))"

definition write_exception :: "alloc \<Rightarrow> exception_entry \<Rightarrow> byte_buffer \<Rightarrow> byte_buffer" where
  "write_exception mem e b =
     byte_buffer_u2 mem (catch_type e)
       (byte_buffer_u2 mem (handler_pc e)
          (byte_buffer_u2 mem (end_pc e) (byte_buffer_u2 mem (start_pc e) b)))"

definition code_attribute_write ::
  "alloc \<Rightarrow> code_attribute \<Rightarrow> attribute_info \<Rightarrow> classfile_status \<times> attribute_info" where
  "code_attribute_write mem code attribute =
     (let b = byte_buffer_reserve mem byte_buffer_init (unat (code_length code + 64));
          b = byte_buffer_u2 mem (max_stack code) b;
          b = byte_buffer_u2 mem (max_locals code) b;
          b = byte_buffer_u4 mem (code_length code) b;
          b = byte_buffer_bytes mem (code_code code) b;
          b = byte_buffer_u2 mem (vec_count (exceptions code)) b;
          b = fold (write_exception mem) (items (exceptions code)) b;
          b = write_attributes mem (code_attributes code) b
      in if \<not> byte_buffer_ok b then (CLASSFILE_ERR_OUT_OF_MEMORY, attribute)
         else
           let payload = fst (byte_buffer_release b) in
           if length payload > 0xFFFFFFFF then (CLASSFILE_ERR_LIMIT_EXCEEDED, attribute)
           else (CLASSFILE_OK, attribute\<lparr>attr_info := payload\<rparr>))"

interpretation exception_table: counted_list exception_table_reserve exception_table_append items
  "\<lambda>v. unat (vcap v)" vec_inv
  unfolding exception_table_reserve_def [abs_def] exception_table_append_def [abs_def]
  by (rule vec_counted_list) simp

section \<open>The encoding\<close>

definition enc_exception :: "exception_entry \<Rightarrow> u1 list" where
  "enc_exception e = be2 (start_pc e) @ be2 (end_pc e) @ be2 (handler_pc e) @ be2 (catch_type e)"

definition enc_exceptions :: "exception_table \<Rightarrow> u1 list" where
  "enc_exceptions table = be2 (vec_count table) @ concat (map enc_exception (items table))"

definition enc_code_head :: "code_attribute \<Rightarrow> u1 list" where
  "enc_code_head code =
     be2 (max_stack code) @ be2 (max_locals code) @ be4 (code_length code) @ code_code code"

definition enc_code :: "code_attribute \<Rightarrow> u1 list" where
  "enc_code code = enc_code_head code @ enc_exceptions (exceptions code) @
     enc_attributes (code_attributes code)"

definition wf_code :: "code_attribute \<Rightarrow> bool" where
  "wf_code code \<longleftrightarrow>
     length (code_code code) < 2 ^ 32 \<and> vec_inv (exceptions code) \<and> wf_attributes (code_attributes code)"

definition code_trim :: "code_attribute \<Rightarrow> code_attribute" where
  "code_trim code =
     code\<lparr>exceptions := vec_trim (exceptions code), code_attributes := vec_trim (code_attributes code)\<rparr>"

section \<open>Writing\<close>

lemma emits_write_exception [emits_intro]: "emits mem (write_exception mem e) (enc_exception e)"
  unfolding write_exception_def [abs_def] enc_exception_def
  using emits_comp [OF emits_comp [OF emits_comp [OF emits_u2 emits_u2] emits_u2] emits_u2] by simp

lemma code_attribute_write_eq:
  "code_attribute_write mem code a \<in>
     {(CLASSFILE_ERR_OUT_OF_MEMORY, a),
      if length (enc_code code) > 0xFFFFFFFF then (CLASSFILE_ERR_LIMIT_EXCEEDED, a)
      else (CLASSFILE_OK, a\<lparr>attr_info := enc_code code\<rparr>)}" (is ?cases)
  and code_attribute_write_total:
  "alloc_total mem \<Longrightarrow> length (enc_code code) \<le> 0xFFFFFFFF \<Longrightarrow>
   code_attribute_write mem code a = (CLASSFILE_OK, a\<lparr>attr_info := enc_code code\<rparr>)"
proof -
  let ?w = "\<lambda>b. write_attributes mem (code_attributes code) (fold (write_exception mem) (items (exceptions code))
      (byte_buffer_u2 mem (vec_count (exceptions code)) (byte_buffer_bytes mem (code_code code)
        (byte_buffer_u4 mem (code_length code) (byte_buffer_u2 mem (max_locals code)
          (byte_buffer_u2 mem (max_stack code) (byte_buffer_reserve mem b (unat (code_length code + 64)))))))))"
  have w: "emits mem ?w (enc_code code)"
    unfolding enc_code_def enc_code_head_def enc_exceptions_def
    using emits_comp [OF emits_comp [OF emits_comp [OF emits_comp [OF emits_comp [OF emits_comp
      [OF emits_comp [OF emits_reserve [of mem "unat (code_length code + 64)"]
          emits_u2 [of mem "max_stack code"]] emits_u2 [of mem "max_locals code"]]
          emits_u4 [of mem "code_length code"]] emits_bytes [of mem "code_code code"]]
          emits_u2 [of mem "vec_count (exceptions code)"]]
          emits_fold [of mem "write_exception mem" enc_exception "items (exceptions code)",
            OF emits_write_exception]]
          emits_write_attributes [of mem "code_attributes code"]] by simp
  let ?b = "?w byte_buffer_init"
  have eq: "code_attribute_write mem code a =
      (if \<not> buf_ok ?b then (CLASSFILE_ERR_OUT_OF_MEMORY, a)
       else if length (buf_data ?b) > 0xFFFFFFFF then (CLASSFILE_ERR_LIMIT_EXCEEDED, a)
       else (CLASSFILE_OK, a\<lparr>attr_info := buf_data ?b\<rparr>))"
    unfolding code_attribute_write_def Let_def byte_buffer_ok_def byte_buffer_release_def fst_conv ..
  show ?cases using emitsD [OF w] unfolding eq by (cases "buf_ok ?b") simp_all
  show "code_attribute_write mem code a = (CLASSFILE_OK, a\<lparr>attr_info := enc_code code\<rparr>)"
    if "alloc_total mem" "length (enc_code code) \<le> 0xFFFFFFFF"
    using emitsD [OF w] emits_total [OF w that(1)] that(2) unfolding eq by simp
qed


section \<open>Parsing\<close>

lemma read_exceptions_loop_sound:
  assumes "read_exceptions_loop mem n c table = Inr (table', c')" "vec_inv table" "cur_ok c"
  shows "\<exists>xs. items table' = items table @ xs \<and> length xs = n \<and> vec_inv table' \<and>
    spans c (concat (map enc_exception xs)) c'"
  using assms
proof (induction n arbitrary: c table)
  case (Suc n)
  obtain s c1 where r1: "byte_cursor_u2 c = (s, c1)" by (metis surj_pair)
  obtain e c2 where r2: "byte_cursor_u2 c1 = (e, c2)" by (metis surj_pair)
  obtain h c3 where r3: "byte_cursor_u2 c2 = (h, c3)" by (metis surj_pair)
  obtain t c4 where r4: "byte_cursor_u2 c3 = (t, c4)" by (metis surj_pair)
  let ?x = "\<lparr>start_pc = s, end_pc = e, handler_pc = h, catch_type = t\<rparr>"
  obtain st w where w: "exception_table_append mem table ?x = (st, w)" by (metis surj_pair)
  from Suc.prems(1) r1 r2 r3 r4 w have ok: "cur_ok c4" "st = CLASSFILE_OK"
    and rest: "read_exceptions_loop mem n c4 w = Inr (table', c')"
    by (auto simp: byte_cursor_ok_def split: if_splits)
  have v: "items w = items table @ [?x]" "vec_inv w"
    using exception_table.append_ok [OF Suc.prems(2) w [unfolded ok(2)]] by auto
  from r1 r2 r3 r4 ok(1) have s: "spans c (enc_exception ?x) c4"
    by (auto simp: enc_exception_def intro!: spans_trans dest: read_u2D)
  from Suc.IH [OF rest v(2) ok(1)] obtain xs where
    "items table' = items w @ xs" "length xs = n" "vec_inv table'" "spans c4 (concat (map enc_exception xs)) c'"
    by blast
  with v spans_trans [OF s] show ?case by (intro exI [of _ "?x # xs"]) simp
qed simp

lemma read_exceptions_loop_complete:
  assumes "spans c (concat (map enc_exception xs)) c'" "vec_inv table"
    "length (items table) + length xs \<le> unat (vcap table)"
  shows "read_exceptions_loop mem (length xs) c table = Inr (table\<lparr>items := items table @ xs\<rparr>, c')"
  using assms
proof (induction xs arbitrary: c table)
  case (Cons x xs)
  from Cons.prems(1) obtain c1 c2 c3 c4 where
    r: "spans c (be2 (start_pc x)) c1" "spans c1 (be2 (end_pc x)) c2" "spans c2 (be2 (handler_pc x)) c3"
      "spans c3 (be2 (catch_type x)) c4"
    and rest: "spans c4 (concat (map enc_exception xs)) c'"
    by (auto simp: enc_exception_def [of x] spans_append)
  let ?l = "table\<lparr>items := items table @ [x]\<rparr>"
  have w: "exception_table_append mem table x = (CLASSFILE_OK, ?l)"
    using vec_append_room [of table] Cons.prems(2,3) by (simp add: exception_table_append_def)
  have "read_exceptions_loop mem (length xs) c4 ?l = Inr (table\<lparr>items := items table @ x # xs\<rparr>, c')"
    using Cons.IH [OF rest, of ?l] Cons.prems by (simp add: vec_inv_def)
  with w r [THEN spans_u2] spans_ok [OF r(4)] show ?case
    by (cases x) (simp add: byte_cursor_ok_def)
qed simp

text \<open>
  Where the counts of the two tables are missing the parser goes on as if they
  were zero, so what it accepts is an encoding without up to four final zero bytes.
\<close>

definition reads_up_to :: "byte_cursor \<Rightarrow> u1 list \<Rightarrow> nat set \<Rightarrow> bool" where
  "reads_up_to c enc ks \<longleftrightarrow>
     (\<exists>bs d k. spans c bs d \<and> byte_cursor_exhausted d \<and> enc = bs @ replicate k 0 \<and> k \<in> ks)"

lemma reads_up_toI:
  "spans c bs d \<Longrightarrow> byte_cursor_exhausted d \<Longrightarrow> enc = bs @ replicate k 0 \<Longrightarrow> k \<in> ks \<Longrightarrow> reads_up_to c enc ks"
  by (auto simp: reads_up_to_def)

lemma reads_up_to_prepend:
  "spans c bs d \<Longrightarrow> reads_up_to d enc ks \<Longrightarrow> reads_up_to c (bs @ enc) ks"
  unfolding reads_up_to_def by (metis append.assoc spans_trans)

lemma reads_up_to_mono: "reads_up_to c enc ks \<Longrightarrow> ks \<subseteq> ks' \<Longrightarrow> reads_up_to c enc ks'"
  unfolding reads_up_to_def by blast

lemma be2_0: "be2 0 = [0, 0]"
  by (simp add: be2_def)

lemma reserve_empty:
  "exception_table_reserve mem vec_init n = (CLASSFILE_OK, t) \<Longrightarrow> items t = [] \<and> vec_inv t"
  "attribute_list_reserve mem vec_init n = (CLASSFILE_OK, l) \<Longrightarrow> items l = [] \<and> vec_inv l"
  using exception_table.reserve_ok [of vec_init mem n t] attribute_list.reserve_ok [of vec_init mem n l]
  by auto

lemma parse_attribute_table:
  assumes "byte_cursor_u2 c = (n, c1)" "attribute_list_reserve mem vec_init n = (CLASSFILE_OK, l)"
    "read_attributes_loop mem (unat n) c1 l = Inr (list, c')" "byte_cursor_exhausted c'" "cur_ok c"
  shows "wf_attributes list \<and> reads_up_to c (enc_attributes list) {0, 2}"
proof (cases "cur_ok c1")
  case True
  note l = reserve_empty(2) [OF assms(2)]
  from read_attributes_loop_sound [OF assms(3) _ True] l obtain xs where
    xs: "items list = xs" "length xs = unat n" "vec_inv list" "list_all wf_attribute xs"
    "spans c1 (concat (map enc_attribute xs)) c'" by auto
  then have "vec_count list = n" by (simp add: vec_count_def)
  moreover from assms(1) True have "spans c (be2 n) c1" by (rule byte_cursor_u2_spans)
  ultimately have "spans c (enc_attributes list) c'"
    using xs by (auto simp: enc_attributes_def intro: spans_trans)
  from reads_up_toI [OF this assms(4), of _ 0] xs show ?thesis by (simp add: wf_attributes_def)
next
  case False
  then have c1: "n = 0" "cur_pos c1 = cur_pos c" "cur_data c1 = cur_data c"
    using assms(1) byte_cursor_fail(2) [OF assms(1) False]
    by (auto simp: byte_cursor_u2_def cursor_need_def split: if_splits)
  with assms(3) have "list = l" "c' = c1" by auto
  with reserve_empty(2) [OF assms(2)] c1 assms(4,5) show ?thesis
    by (auto simp: wf_attributes_def enc_attributes_def vec_count_def be2_0 byte_cursor_exhausted_def
        numeral_2_eq_2 intro!: reads_up_toI [of c "[]" c _ 2])
qed

lemma parse_tables_sound:
  assumes "code_attribute_parse_tables mem c out = Inr code" "cur_ok c"
    "exceptions out = vec_init" "code_attributes out = vec_init"
  shows "code = out\<lparr>exceptions := exceptions code, code_attributes := code_attributes code\<rparr> \<and>
    vec_inv (exceptions code) \<and> wf_attributes (code_attributes code) \<and>
    reads_up_to c (enc_exceptions (exceptions code) @ enc_attributes (code_attributes code)) {0, 2, 4}"
proof -
  obtain n c1 where r1: "byte_cursor_u2 c = (n, c1)" by (metis surj_pair)
  from assms(1,3,4) r1 obtain t table c2 m c3 l list c4 where
    t: "exception_table_reserve mem vec_init n = (CLASSFILE_OK, t)"
    and lp: "read_exceptions_loop mem (unat n) c1 t = Inr (table, c2)"
    and r2: "byte_cursor_u2 c2 = (m, c3)"
    and l: "attribute_list_reserve mem vec_init m = (CLASSFILE_OK, l)"
    and la: "read_attributes_loop mem (unat m) c3 l = Inr (list, c4)"
    and ex: "byte_cursor_exhausted c4"
    and code: "code = out\<lparr>exceptions := table, code_attributes := list\<rparr>"
    by (auto simp: code_attribute_parse_tables_def split: prod.splits sum.splits if_splits)
  note te = reserve_empty(1) [OF t]
  show ?thesis
  proof (cases "cur_ok c1")
    case True
    from read_exceptions_loop_sound [OF lp _ True] te obtain xs where
      xs: "items table = xs" "length xs = unat n" "vec_inv table" "spans c1 (concat (map enc_exception xs)) c2"
      by auto
    have "vec_count table = n" using xs by (simp add: vec_count_def)
    with xs byte_cursor_u2_spans [OF r1 True] have s: "spans c (enc_exceptions table) c2"
      by (auto simp: enc_exceptions_def intro: spans_trans)
    have "wf_attributes list \<and> reads_up_to c2 (enc_attributes list) {0, 2, 4}"
      using parse_attribute_table [OF r2 l la ex] spans_ok [OF s] reads_up_to_mono by blast
    with reads_up_to_prepend [OF s] xs(3) code show ?thesis by auto
  next
    case False
    then have c1: "n = 0" "cur_pos c1 = cur_pos c" "cur_data c1 = cur_data c"
      using r1 byte_cursor_fail(2) [OF r1 False]
      by (auto simp: byte_cursor_u2_def cursor_need_def split: if_splits)
    with lp have "table = t" "c2 = c1" by auto
    with r2 False cursor_latched(2) [OF False] have m: "m = 0" "c3 = c1" by auto
    with la have "list = l" "c4 = c1" by auto
    with te reserve_empty(2) [OF l] \<open>table = t\<close> c1 ex code assms(2) show ?thesis
      by (auto simp: wf_attributes_def enc_attributes_def enc_exceptions_def vec_count_def be2_0
          byte_cursor_exhausted_def numeral_eq_Suc intro!: reads_up_toI [of c "[]" c _ 4])
  qed
qed


lemma code_attribute_parse_sound:
  assumes "code_attribute_parse mem a = Inr code"
  shows "wf_code code" "\<exists>k \<in> {0, 2, 4}. enc_code code = attr_info a @ replicate k 0"
proof -
  let ?c = "byte_cursor_init (attr_info a)"
  from assms obtain s c1 l c2 n c3 bs c4 where
    r: "byte_cursor_u2 ?c = (s, c1)" "byte_cursor_u2 c1 = (l, c2)" "byte_cursor_u4 c2 = (n, c3)"
    and b: "byte_cursor_bytes c3 (unat n) = (Some bs, c4)"
    and t: "code_attribute_parse_tables mem c4
              (code_attribute_init\<lparr>max_stack := s, max_locals := l, code_code := bs\<rparr>) = Inr code"
    by (auto simp: code_attribute_parse_def code_attribute_set_code_def
        split: prod.splits option.splits if_splits)
  from b have sb: "spans c3 bs c4" "length bs = unat n" by (auto simp: byte_cursor_bytes_iff)
  note ts = parse_tables_sound [OF t]
  have code: "code = code_attribute_init\<lparr>max_stack := s, max_locals := l, code_code := bs,
        exceptions := exceptions code, code_attributes := code_attributes code\<rparr>"
    and wf: "vec_inv (exceptions code)" "wf_attributes (code_attributes code)"
    and up: "reads_up_to c4 (enc_exceptions (exceptions code) @ enc_attributes (code_attributes code)) {0, 2, 4}"
    using ts spans_ok [OF sb(1)]
    by (auto simp: code_attribute_init_def exception_table_init_def attribute_list_init_def)
  have f: "max_stack code = s" "max_locals code = l" "code_code code = bs"
    by (subst code, simp)+
  show "wf_code code" using wf sb(2) f(3) by (simp add: wf_code_def)
  have "spans ?c (enc_code_head code) c4"
    using r sb spans_ok [OF sb(1)] f
    by (auto simp: enc_code_head_def code_length_def intro!: spans_trans dest: read_u2D read_u4D)
  from reads_up_to_prepend [OF this up] obtain bs' d k where
    k: "spans ?c bs' d" "byte_cursor_exhausted d" "enc_code code = bs' @ replicate k 0" "k \<in> {0, 2, 4}"
    by (auto simp: enc_code_def reads_up_to_def)
  from spans_exhausted [OF k(1,2)] k(3,4) show "\<exists>k \<in> {0, 2, 4}. enc_code code = attr_info a @ replicate k 0"
    by auto
qed

lemma code_attribute_parse_head:
  assumes "length (code_code code) < 2 ^ 32" "alloc_total mem"
    "attr_info a = enc_code_head code @ tail"
  shows "\<exists>c4. spans (byte_cursor_init (attr_info a)) (enc_code_head code) c4 \<and>
    code_attribute_parse mem a =
      code_attribute_parse_tables mem c4 (code_attribute_init\<lparr>max_stack := max_stack code,
        max_locals := max_locals code, code_code := code_code code\<rparr>)"
proof -
  let ?c = "byte_cursor_init (attr_info a)"
  obtain c4 where w: "spans ?c (enc_code_head code) c4"
    by (auto simp: spans_def byte_cursor_init_def assms(3))
  then obtain c1 c2 c3 where r: "spans ?c (be2 (max_stack code)) c1" "spans c1 (be2 (max_locals code)) c2"
    "spans c2 (be4 (code_length code)) c3" "spans c3 (code_code code) c4"
    by (auto simp: enc_code_head_def spans_append)
  have "byte_cursor_bytes c3 (unat (code_length code)) = (Some (code_code code), c4)"
    using spans_bytes_unat [OF r(4)] assms(1) by (simp add: code_length_def)
  moreover have "code_attribute_set_code mem out bs = (CLASSFILE_OK, out\<lparr>code_code := bs\<rparr>)" for out bs
    using assms(2) by (simp add: code_attribute_set_code_def alloc_total_def)
  ultimately show ?thesis
    using w spans_u2 [OF r(1)] spans_u2 [OF r(2)] spans_u4 [OF r(3)]
    by (auto simp: code_attribute_parse_def)
qed

lemma reserve_exact:
  assumes "alloc_total mem"
  shows "exception_table_reserve mem vec_init n = (CLASSFILE_OK, \<lparr>items = [], vcap = n\<rparr>)"
    "attribute_list_reserve mem vec_init n = (CLASSFILE_OK, \<lparr>items = [], vcap = n\<rparr>)"
  using assms
  by (auto simp: exception_table_reserve_def attribute_list_reserve_def vec_reserve_def vec_init_def alloc_total_def)

lemma parse_tables_complete:
  assumes "spans c (enc_exceptions t @ enc_attributes l) c'" "byte_cursor_exhausted c'"
    "vec_inv t" "wf_attributes l" "alloc_total mem"
    "exceptions out = vec_init" "code_attributes out = vec_init"
  shows "code_attribute_parse_tables mem c out =
           Inr (out\<lparr>exceptions := vec_trim t, code_attributes := vec_trim l\<rparr>)"
proof -
  from assms(1) obtain c1 c2 c3 where r1: "spans c (be2 (vec_count t)) c1"
    and e: "spans c1 (concat (map enc_exception (items t))) c2"
    and r2: "spans c2 (be2 (vec_count l)) c3"
    and a: "spans c3 (concat (map enc_attribute (items l))) c'"
    by (auto simp: enc_exceptions_def enc_attributes_def spans_append)
  have n: "unat (vec_count t) = length (items t)" "unat (vec_count l) = length (items l)"
    using assms(3,4) by (simp_all add: wf_attributes_def vec_inv_count)
  have "read_exceptions_loop mem (unat (vec_count t)) c1 \<lparr>items = [], vcap = vec_count t\<rparr> = Inr (vec_trim t, c2)"
    using read_exceptions_loop_complete [OF e, of "\<lparr>items = [], vcap = vec_count t\<rparr>"] n(1)
    by (simp add: vec_trim_def vec_inv_def)
  moreover have "read_attributes_loop mem (unat (vec_count l)) c3 \<lparr>items = [], vcap = vec_count l\<rparr> = Inr (vec_trim l, c')"
    using read_attributes_loop_complete [OF a _ assms(5), of "\<lparr>items = [], vcap = vec_count l\<rparr>"] n(2) assms(4)
    by (simp add: vec_trim_def vec_inv_def wf_attributes_def)
  ultimately show ?thesis
    using spans_u2 [OF r1] spans_u2 [OF r2] reserve_exact [OF assms(5)] assms(2,6,7)
    by (simp add: code_attribute_parse_tables_def)
qed

lemma code_attribute_parse_complete:
  assumes "wf_code code" "alloc_total mem" "attr_info a = enc_code code"
  shows "code_attribute_parse mem a = Inr (code_trim code)"
proof -
  let ?c = "byte_cursor_init (attr_info a)"
  from assms code_attribute_parse_head [of code mem a] obtain c4 where
    h: "spans ?c (enc_code_head code) c4" "code_attribute_parse mem a =
      code_attribute_parse_tables mem c4 (code_attribute_init\<lparr>max_stack := max_stack code,
        max_locals := max_locals code, code_code := code_code code\<rparr>)"
    by (auto simp: wf_code_def enc_code_def)
  obtain c' where w: "spans ?c (enc_code code) c'" "byte_cursor_exhausted c'"
    using assms(3) by (auto simp: spans_whole byte_cursor_exhausted_def)
  from w(1) obtain c5 where "spans ?c (enc_code_head code) c5"
    and t: "spans c5 (enc_exceptions (exceptions code) @ enc_attributes (code_attributes code)) c'"
    by (auto simp: enc_code_def spans_append)
  with h(1) have "c5 = c4" by (simp add: spans_def)
  with t parse_tables_complete [OF t w(2)] assms(1,2) h(2) show ?thesis
    by (simp add: wf_code_def code_attribute_init_def exception_table_init_def attribute_list_init_def code_trim_def)
qed


lemma parse_tables_at_end:
  assumes "byte_cursor_exhausted c" "alloc_total mem" "exceptions out = vec_init" "code_attributes out = vec_init"
  shows "code_attribute_parse_tables mem c out = Inr out"
proof -
  have "byte_cursor_u2 c = (0, c\<lparr>cur_ok := False\<rparr>)"
    using assms(1) by (cases "cur_ok c") (auto simp: byte_cursor_u2_def cursor_need_def byte_cursor_exhausted_def)
  moreover have "byte_cursor_exhausted (c\<lparr>cur_ok := False\<rparr>)"
    using assms(1) by (simp add: byte_cursor_exhausted_def)
  ultimately show ?thesis
    using reserve_exact [OF assms(2), of 0] assms(3,4) cursor_latched(2) [of "c\<lparr>cur_ok := False\<rparr>"]
    by (cases out) (simp add: code_attribute_parse_tables_def vec_init_def)
qed

section \<open>Properties\<close>

definition sample_code :: code_attribute where
  "sample_code =
     \<lparr>max_stack = 1, max_locals = 1, code_code = [0x04, 0x57, 0xB1],
      exceptions = \<lparr>items = [\<lparr>start_pc = 0, end_pc = 1, handler_pc = 1, catch_type = 0\<rparr>], vcap = 4\<rparr>,
      code_attributes = \<lparr>items = [\<lparr>attribute_name_index = 9, attr_info = [0, 0]\<rparr>], vcap = 4\<rparr>\<rparr>"

definition code_slot :: attribute_info where
  "code_slot = \<lparr>attribute_name_index = 7, attr_info = []\<rparr>"

lemma sample_code_wf: "wf_code sample_code" "length (enc_code sample_code) \<le> 0xFFFFFFFF"
  by (simp_all add: sample_code_def wf_code_def wf_attributes_def wf_attribute_def vec_inv_def enc_code_def
      enc_code_head_def enc_exceptions_def enc_attributes_def enc_exception_def enc_attribute_def)

text \<open>
  a Code attribute that is written into its slot is read back unchanged: same
  limits, bytecode, exception table and nested attributes, and the slot keeps its name.
\<close>

theorem code_attribute_roundtrip:
  assumes "wf_code code" "code_attribute_write mem code a = (CLASSFILE_OK, a')" "alloc_total mem'"
  shows "code_attribute_parse mem' a' = Inr (code_trim code) \<and>
         attribute_name_index a' = attribute_name_index a"
proof -
  from code_attribute_write_eq [of mem code a] assms(2)
  have "a' = a\<lparr>attr_info := enc_code code\<rparr>" by (auto split: if_splits)
  with code_attribute_parse_complete [OF assms(1,3), of a'] show ?thesis by simp
qed

theorem code_attribute_roundtrip_witness:
  "\<exists>a'. code_attribute_write heap_ok sample_code code_slot = (CLASSFILE_OK, a') \<and>
     code_attribute_parse heap_ok a' = Inr (code_trim sample_code)"
  using code_attribute_write_total [OF alloc_total_heap_ok sample_code_wf(2), of code_slot]
    code_attribute_roundtrip [OF sample_code_wf(1) _ alloc_total_heap_ok, of heap_ok code_slot] by blast

text \<open>
  writing back what was parsed gives the same payload, except that counts that
  were missing at its end are made explicit: up to four zero bytes are added.
\<close>

theorem code_attribute_rewrite:
  assumes "code_attribute_parse mem a = Inr code" "code_attribute_write mem' code a = (CLASSFILE_OK, a')"
  shows "\<exists>k \<in> {0, 2, 4}. attr_info a' = attr_info a @ replicate k 0"
proof -
  from code_attribute_write_eq [of mem' code a] assms(2)
  have "a' = a\<lparr>attr_info := enc_code code\<rparr>" by (auto split: if_splits)
  with code_attribute_parse_sound(2) [OF assms(1)] show ?thesis by simp
qed

theorem code_attribute_rewrite_witness:
  "\<exists>code a'. code_attribute_parse heap_ok (code_slot\<lparr>attr_info := enc_code sample_code\<rparr>) = Inr code \<and>
     code_attribute_write heap_ok code (code_slot\<lparr>attr_info := enc_code sample_code\<rparr>) = (CLASSFILE_OK, a') \<and>
     (\<exists>k \<in> {0, 2, 4}. attr_info a' = enc_code sample_code @ replicate k 0)"
proof -
  let ?a = "code_slot\<lparr>attr_info := enc_code sample_code\<rparr>"
  have p: "code_attribute_parse heap_ok ?a = Inr (code_trim sample_code)"
    by (rule code_attribute_parse_complete [OF sample_code_wf(1) alloc_total_heap_ok]) simp
  have "length (enc_code (code_trim sample_code)) \<le> 0xFFFFFFFF"
    by (simp add: sample_code_def code_trim_def vec_trim_def enc_code_def enc_code_head_def enc_exceptions_def
        enc_attributes_def enc_exception_def enc_attribute_def)
  from code_attribute_write_total [OF alloc_total_heap_ok this, of ?a] obtain a' where
    w: "code_attribute_write heap_ok (code_trim sample_code) ?a = (CLASSFILE_OK, a')" by blast
  from code_attribute_rewrite [OF p w] p w show ?thesis by (intro exI conjI) auto
qed

text \<open>
  the parser does not notice a Code attribute that stops right behind the
  bytecode. Both table counts are missing, no read is checked, and the cursor sits
  exactly at the end, so the truncated attribute is accepted as one with empty tables.
\<close>

theorem code_attribute_truncation_accepted:
  assumes "length (code_code code) < 2 ^ 32" "attr_info a = enc_code_head code" "alloc_total mem"
  shows "code_attribute_parse mem a =
     Inr (code_attribute_init\<lparr>max_stack := max_stack code, max_locals := max_locals code,
            code_code := code_code code\<rparr>)"
proof -
  let ?c = "byte_cursor_init (attr_info a)"
  from code_attribute_parse_head [OF assms(1,3), of a "[]"] assms(2) obtain c4 where
    h: "spans ?c (enc_code_head code) c4" "code_attribute_parse mem a =
      code_attribute_parse_tables mem c4 (code_attribute_init\<lparr>max_stack := max_stack code,
        max_locals := max_locals code, code_code := code_code code\<rparr>)" by auto
  have "byte_cursor_exhausted c4"
    using h(1) assms(2) by (simp add: spans_def byte_cursor_exhausted_def byte_cursor_init_def)
  with parse_tables_at_end [OF this assms(3)] h(2) show ?thesis
    by (simp add: code_attribute_init_def exception_table_init_def attribute_list_init_def)
qed

theorem code_attribute_truncation_accepted_witness:
  "code_attribute_parse heap_ok \<lparr>attribute_name_index = 7, attr_info = [0, 1, 0, 1, 0, 0, 0, 3, 0x04, 0x57, 0xB1]\<rparr> =
     Inr (code_attribute_init\<lparr>max_stack := 1, max_locals := 1, code_code := [0x04, 0x57, 0xB1]\<rparr>)"
proof -
  have "[0, 1, 0, 1, 0, 0, 0, 3, 0x04, 0x57, 0xB1] = enc_code_head sample_code"
    by (simp add: enc_code_head_def sample_code_def code_length_def be2_def be4_def)
  with code_attribute_truncation_accepted [of sample_code
      "\<lparr>attribute_name_index = 7, attr_info = [0, 1, 0, 1, 0, 0, 0, 3, 0x04, 0x57, 0xB1]\<rparr>" heap_ok]
  show ?thesis by (simp add: sample_code_def)
qed

end
