(* ===== verification/Instructions.thy ===== *)
theory Instructions
  imports Byte_Stream JVM_Constants
begin

text \<open>
  Bytecode as a list of nodes: \<^verbatim>\<open>visitors/instruction.c\<close>. The union of operands
  is a datatype with one constructor per \<open>operand_kind\<close>; branch and switch
  targets are absolute offsets, as in the C nodes, and turn into deltas in the
  encoded form. Adding a delta to an offset is \<open>int32_t\<close> arithmetic in the
  source; the model wraps where C leaves the overflow undefined.

  The padding of a switch is skipped without being looked at, so the bytes of an
  instruction are a relation (\<open>ins_bytes\<close>) of which the writer picks the member
  with zero padding (\<open>enc_ins\<close>).
\<close>

section \<open>Data\<close>

datatype operand_kind =
    OPERAND_NONE | OPERAND_IMMEDIATE | OPERAND_LOCAL | OPERAND_IINC | OPERAND_CONSTANT
  | OPERAND_CP_INDEX | OPERAND_INVOKE_INTERFACE | OPERAND_INVOKE_DYNAMIC
  | OPERAND_MULTIANEWARRAY | OPERAND_BRANCH | OPERAND_BRANCH_WIDE | OPERAND_TABLE_SWITCH
  | OPERAND_LOOKUP_SWITCH

record switch_pair =
  pair_match :: i4
  pair_target :: i4

datatype operand =
    Op_None
  | Op_Immediate i4
  | Op_Local u2
  | Op_Iinc u2 i4
  | Op_Constant u2
  | Op_CpIndex u2
  | Op_InvokeInterface u2 u1 u1
  | Op_InvokeDynamic u2 u2
  | Op_Multianewarray u2 u1
  | Op_Branch i4
  | Op_BranchWide i4
  | Op_TableSwitch i4 i4 i4 "i4 list"
  | Op_LookupSwitch i4 "switch_pair list"

record instruction =
  ins_offset :: u4
  ins_opcode :: u1
  ins_wide :: bool
  ins_u :: operand

fun operand_kind_of :: "operand \<Rightarrow> operand_kind" where
  "operand_kind_of Op_None = OPERAND_NONE"
| "operand_kind_of (Op_Immediate _) = OPERAND_IMMEDIATE"
| "operand_kind_of (Op_Local _) = OPERAND_LOCAL"
| "operand_kind_of (Op_Iinc _ _) = OPERAND_IINC"
| "operand_kind_of (Op_Constant _) = OPERAND_CONSTANT"
| "operand_kind_of (Op_CpIndex _) = OPERAND_CP_INDEX"
| "operand_kind_of (Op_InvokeInterface _ _ _) = OPERAND_INVOKE_INTERFACE"
| "operand_kind_of (Op_InvokeDynamic _ _) = OPERAND_INVOKE_DYNAMIC"
| "operand_kind_of (Op_Multianewarray _ _) = OPERAND_MULTIANEWARRAY"
| "operand_kind_of (Op_Branch _) = OPERAND_BRANCH"
| "operand_kind_of (Op_BranchWide _) = OPERAND_BRANCH_WIDE"
| "operand_kind_of (Op_TableSwitch _ _ _ _) = OPERAND_TABLE_SWITCH"
| "operand_kind_of (Op_LookupSwitch _ _) = OPERAND_LOOKUP_SWITCH"

abbreviation ins_kind :: "instruction \<Rightarrow> operand_kind" where
  "ins_kind node \<equiv> operand_kind_of (ins_u node)"

definition instruction_kind_of :: "u1 \<Rightarrow> operand_kind" where
  "instruction_kind_of opcode =
     (if opcode \<in> set [JVM_OPC_bipush, JVM_OPC_sipush, JVM_OPC_newarray] then OPERAND_IMMEDIATE
      else if opcode \<in> set [JVM_OPC_iload, JVM_OPC_lload, JVM_OPC_fload, JVM_OPC_dload, JVM_OPC_aload,
        JVM_OPC_istore, JVM_OPC_lstore, JVM_OPC_fstore, JVM_OPC_dstore, JVM_OPC_astore, JVM_OPC_ret]
      then OPERAND_LOCAL
      else if opcode = JVM_OPC_iinc then OPERAND_IINC
      else if opcode \<in> set [JVM_OPC_ldc, JVM_OPC_ldc_w, JVM_OPC_ldc2_w] then OPERAND_CONSTANT
      else if opcode \<in> set [JVM_OPC_getstatic, JVM_OPC_putstatic, JVM_OPC_getfield, JVM_OPC_putfield,
        JVM_OPC_invokevirtual, JVM_OPC_invokespecial, JVM_OPC_invokestatic, JVM_OPC_new,
        JVM_OPC_anewarray, JVM_OPC_checkcast, JVM_OPC_instanceof] then OPERAND_CP_INDEX
      else if opcode = JVM_OPC_invokeinterface then OPERAND_INVOKE_INTERFACE
      else if opcode = JVM_OPC_invokedynamic then OPERAND_INVOKE_DYNAMIC
      else if opcode = JVM_OPC_multianewarray then OPERAND_MULTIANEWARRAY
      else if opcode \<in> set [JVM_OPC_ifeq, JVM_OPC_ifne, JVM_OPC_iflt, JVM_OPC_ifge, JVM_OPC_ifgt,
        JVM_OPC_ifle, JVM_OPC_if_icmpeq, JVM_OPC_if_icmpne, JVM_OPC_if_icmplt, JVM_OPC_if_icmpge,
        JVM_OPC_if_icmpgt, JVM_OPC_if_icmple, JVM_OPC_if_acmpeq, JVM_OPC_if_acmpne, JVM_OPC_goto,
        JVM_OPC_jsr, JVM_OPC_ifnull, JVM_OPC_ifnonnull] then OPERAND_BRANCH
      else if opcode \<in> set [JVM_OPC_goto_w, JVM_OPC_jsr_w] then OPERAND_BRANCH_WIDE
      else if opcode = JVM_OPC_tableswitch then OPERAND_TABLE_SWITCH
      else if opcode = JVM_OPC_lookupswitch then OPERAND_LOOKUP_SWITCH
      else OPERAND_NONE)"

definition instruction_zero :: instruction where
  "instruction_zero = \<lparr>ins_offset = 0, ins_opcode = 0, ins_wide = False, ins_u = Op_None\<rparr>"

definition instruction_free :: "instruction \<Rightarrow> instruction" where
  "instruction_free node = instruction_zero"

definition instruction_opcode_is_defined :: "u1 \<Rightarrow> bool" where
  "instruction_opcode_is_defined opcode \<longleftrightarrow> opcode \<le> JVM_OPC_MAX"

definition instruction_switch_entries :: "instruction \<Rightarrow> u4" where
  "instruction_switch_entries node =
     (case ins_u node of
        Op_TableSwitch d low high targets \<Rightarrow>
          if high < low then 0
          else let entries = high - low + 1 in
               if entries > int JVM_MAX_CODE_LENGTH then of_nat JVM_MAX_CODE_LENGTH else of_int entries
      | Op_LookupSwitch d pairs \<Rightarrow> of_nat (length pairs)
      | _ \<Rightarrow> 0)"

definition switch_padding :: "u4 \<Rightarrow> u4" where
  "switch_padding offset = (4 - ((offset + 1) mod 4)) mod 4"

definition instruction_length_at :: "instruction \<Rightarrow> u4 \<Rightarrow> u4" where
  "instruction_length_at node offset =
     (case ins_kind node of
        OPERAND_LOCAL \<Rightarrow> (if ins_wide node then 4 else 2)
      | OPERAND_IINC \<Rightarrow> (if ins_wide node then 6 else 3)
      | OPERAND_TABLE_SWITCH \<Rightarrow>
          1 + switch_padding offset + 12 + instruction_switch_entries node * 4
      | OPERAND_LOOKUP_SWITCH \<Rightarrow>
          1 + switch_padding offset + 8 + instruction_switch_entries node * 8
      | _ \<Rightarrow> (if instruction_opcode_is_defined (ins_opcode node)
               then opcode_length_table ! unat (ins_opcode node) else 1))"

section \<open>The list\<close>

record instruction_list =
  il_items :: "instruction list"
  il_capacity :: u4
  il_code_length :: u4

definition il_count :: "instruction_list \<Rightarrow> u4" where
  "il_count list = of_nat (length (il_items list))"

definition instruction_list_init :: instruction_list where
  "instruction_list_init = \<lparr>il_items = [], il_capacity = 0, il_code_length = 0\<rparr>"

definition instruction_list_free :: "instruction_list \<Rightarrow> instruction_list" where
  "instruction_list_free list = instruction_list_init"

definition instruction_list_reserve ::
  "alloc \<Rightarrow> instruction_list \<Rightarrow> u4 \<Rightarrow> classfile_status \<times> instruction_list" where
  "instruction_list_reserve mem list capacity =
     (if capacity \<le> il_capacity list then (CLASSFILE_OK, list)
      else if \<not> mem Alloc_instruction (unat capacity) then (CLASSFILE_ERR_OUT_OF_MEMORY, list)
      else (CLASSFILE_OK, list\<lparr>il_capacity := capacity\<rparr>))"

definition instruction_list_append ::
  "alloc \<Rightarrow> instruction_list \<Rightarrow> instruction \<Rightarrow> classfile_status \<times> instruction_list" where
  "instruction_list_append mem list node =
     (let (status, list) =
            (if il_count list = il_capacity list
             then instruction_list_reserve mem list
                    (if il_capacity list \<noteq> 0 then il_capacity list * 2 else 32)
             else (CLASSFILE_OK, list))
      in if status \<noteq> CLASSFILE_OK then (status, list)
         else (CLASSFILE_OK, list\<lparr>il_items := il_items list @ [node]\<rparr>))"

section \<open>Parsing\<close>

definition read_i4 :: "byte_cursor \<Rightarrow> i4 \<times> byte_cursor" where
  "read_i4 c = (let (v, c) = byte_cursor_u4 c in (sint v, c))"

definition read_i2 :: "byte_cursor \<Rightarrow> i4 \<times> byte_cursor" where
  "read_i2 c = (let (v, c) = byte_cursor_u2 c in (sint v, c))"

definition read_i1 :: "byte_cursor \<Rightarrow> i4 \<times> byte_cursor" where
  "read_i1 c = (let (v, c) = byte_cursor_u1 c in (sint v, c))"

text \<open>\<open>(i4)offset + delta\<close>, with the wrap of two's complement where it overflows.\<close>

definition i4_target :: "u4 \<Rightarrow> i4 \<Rightarrow> i4" where
  "i4_target offset delta = i4_wrap (sint offset + delta)"

definition i4_delta :: "i4 \<Rightarrow> u4 \<Rightarrow> i4" where
  "i4_delta target offset = i4_wrap (target - sint offset)"

function skip_padding :: "byte_cursor \<Rightarrow> byte_cursor" where
  "skip_padding c =
     (if byte_cursor_offset c mod 4 \<noteq> 0 \<and> byte_cursor_ok c
      then skip_padding (snd (byte_cursor_u1 c)) else c)"
  by pat_completeness auto
termination
  by (relation "measure (\<lambda>c. if cur_ok c then Suc (length (cur_data c) - cur_pos c) else 0)")
     (auto simp: byte_cursor_u1_def cursor_need_def byte_cursor_ok_def)

declare skip_padding.simps [simp del]

fun read_targets :: "nat \<Rightarrow> u4 \<Rightarrow> byte_cursor \<Rightarrow> i4 list \<times> byte_cursor" where
  "read_targets 0 offset c = ([], c)"
| "read_targets (Suc n) offset c =
     (let (d, c) = read_i4 c; (ts, c) = read_targets n offset c in (i4_target offset d # ts, c))"

definition parse_table_switch :: "alloc \<Rightarrow> u4 \<Rightarrow> byte_cursor \<Rightarrow> classfile_status + operand \<times> byte_cursor" where
  "parse_table_switch mem offset c =
     (let c = skip_padding c;
          (d, c) = read_i4 c; (low, c) = read_i4 c; (high, c) = read_i4 c in
      if \<not> byte_cursor_ok c \<or> high < low then Inl CLASSFILE_ERR_TRUNCATED
      else
        let span = high - low + 1 in
        if span * 4 > int (byte_cursor_remaining c) then Inl CLASSFILE_ERR_TRUNCATED
        else if \<not> mem Alloc_i4 (nat span) then Inl CLASSFILE_ERR_OUT_OF_MEMORY
        else
          let (targets, c) = read_targets (nat span) offset c in
          Inr (Op_TableSwitch (i4_target offset d) low high targets, c))"

fun read_pairs :: "nat \<Rightarrow> u4 \<Rightarrow> byte_cursor \<Rightarrow> switch_pair list \<times> byte_cursor" where
  "read_pairs 0 offset c = ([], c)"
| "read_pairs (Suc n) offset c =
     (let (m, c) = read_i4 c; (d, c) = read_i4 c; (ps, c) = read_pairs n offset c in
      (\<lparr>pair_match = m, pair_target = i4_target offset d\<rparr> # ps, c))"

definition parse_lookup_switch :: "alloc \<Rightarrow> u4 \<Rightarrow> byte_cursor \<Rightarrow> classfile_status + operand \<times> byte_cursor" where
  "parse_lookup_switch mem offset c =
     (let c = skip_padding c;
          (d, c) = read_i4 c; (count, c) = read_i4 c in
      if \<not> byte_cursor_ok c \<or> count < 0 then Inl CLASSFILE_ERR_TRUNCATED
      else
        let pairs = nat count in
        if pairs * 8 > byte_cursor_remaining c then Inl CLASSFILE_ERR_TRUNCATED
        else if pairs \<noteq> 0 \<and> \<not> mem Alloc_switch_pair pairs then Inl CLASSFILE_ERR_OUT_OF_MEMORY
        else
          let (ps, c) = read_pairs pairs offset c in
          Inr (Op_LookupSwitch (i4_target offset d) ps, c))"

definition read_index :: "bool \<Rightarrow> byte_cursor \<Rightarrow> u2 \<times> byte_cursor" where
  "read_index two c =
     (if two then byte_cursor_u2 c else let (v, c) = byte_cursor_u1 c in (ucast v, c))"

definition parse_operand ::
  "alloc \<Rightarrow> u1 \<Rightarrow> bool \<Rightarrow> u4 \<Rightarrow> byte_cursor \<Rightarrow> classfile_status + operand \<times> byte_cursor" where
  "parse_operand mem opcode wide offset c =
     (case instruction_kind_of opcode of
        OPERAND_NONE \<Rightarrow> Inr (Op_None, c)
      | OPERAND_IMMEDIATE \<Rightarrow>
          let (v, c) = (if opcode = JVM_OPC_sipush then read_i2 c else read_i1 c)
          in Inr (Op_Immediate v, c)
      | OPERAND_LOCAL \<Rightarrow> let (i, c) = read_index wide c in Inr (Op_Local i, c)
      | OPERAND_IINC \<Rightarrow>
          let (i, c) = read_index wide c; (k, c) = (if wide then read_i2 c else read_i1 c)
          in Inr (Op_Iinc i k, c)
      | OPERAND_CONSTANT \<Rightarrow>
          let (i, c) = read_index (opcode \<noteq> JVM_OPC_ldc) c in Inr (Op_Constant i, c)
      | OPERAND_CP_INDEX \<Rightarrow> let (i, c) = byte_cursor_u2 c in Inr (Op_CpIndex i, c)
      | OPERAND_INVOKE_INTERFACE \<Rightarrow>
          let (i, c) = byte_cursor_u2 c; (n, c) = byte_cursor_u1 c; (z, c) = byte_cursor_u1 c
          in Inr (Op_InvokeInterface i n z, c)
      | OPERAND_INVOKE_DYNAMIC \<Rightarrow>
          let (i, c) = byte_cursor_u2 c; (z, c) = byte_cursor_u2 c in Inr (Op_InvokeDynamic i z, c)
      | OPERAND_MULTIANEWARRAY \<Rightarrow>
          let (i, c) = byte_cursor_u2 c; (n, c) = byte_cursor_u1 c in Inr (Op_Multianewarray i n, c)
      | OPERAND_BRANCH \<Rightarrow> let (d, c) = read_i2 c in Inr (Op_Branch (i4_target offset d), c)
      | OPERAND_BRANCH_WIDE \<Rightarrow> let (d, c) = read_i4 c in Inr (Op_BranchWide (i4_target offset d), c)
      | OPERAND_TABLE_SWITCH \<Rightarrow> parse_table_switch mem offset c
      | OPERAND_LOOKUP_SWITCH \<Rightarrow> parse_lookup_switch mem offset c)"

text \<open>One pass of the loop behind the append: opcode, prefix, checks, operands.\<close>

definition parse_instruction :: "alloc \<Rightarrow> byte_cursor \<Rightarrow> classfile_status + instruction \<times> byte_cursor" where
  "parse_instruction mem c =
     (let offset = of_nat (byte_cursor_offset c);
          (op1, c) = byte_cursor_u1 c;
          wide = (op1 = JVM_OPC_wide);
          (opcode, c) = (if wide then byte_cursor_u1 c else (op1, c)) in
      if \<not> instruction_opcode_is_defined opcode \<or> opcode = JVM_OPC_wide
      then Inl (if byte_cursor_ok c then CLASSFILE_ERR_OPCODE else CLASSFILE_ERR_TRUNCATED)
      else if wide \<and> instruction_kind_of opcode \<noteq> OPERAND_LOCAL \<and>
              instruction_kind_of opcode \<noteq> OPERAND_IINC
      then Inl CLASSFILE_ERR_OPCODE
      else
        (case parse_operand mem opcode wide offset c of
           Inl status \<Rightarrow> Inl status
         | Inr (u, c) \<Rightarrow>
             if \<not> byte_cursor_ok c then Inl CLASSFILE_ERR_TRUNCATED
             else Inr (\<lparr>ins_offset = offset, ins_opcode = opcode, ins_wide = wide, ins_u = u\<rparr>, c)))"


section \<open>The bytes of an instruction\<close>

fun enc_operand :: "u1 \<Rightarrow> bool \<Rightarrow> u4 \<Rightarrow> operand \<Rightarrow> u1 list" where
  "enc_operand opcode wide offset Op_None = []"
| "enc_operand opcode wide offset (Op_Immediate v) =
     (if opcode = JVM_OPC_sipush then be2 (of_int v) else be1 (of_int v))"
| "enc_operand opcode wide offset (Op_Local i) = (if wide then be2 i else be1 (ucast i))"
| "enc_operand opcode wide offset (Op_Iinc i k) =
     (if wide then be2 i @ be2 (of_int k) else be1 (ucast i) @ be1 (of_int k))"
| "enc_operand opcode wide offset (Op_Constant i) =
     (if opcode = JVM_OPC_ldc then be1 (ucast i) else be2 i)"
| "enc_operand opcode wide offset (Op_CpIndex i) = be2 i"
| "enc_operand opcode wide offset (Op_InvokeInterface i n z) = be2 i @ be1 n @ be1 z"
| "enc_operand opcode wide offset (Op_InvokeDynamic i z) = be2 i @ be2 z"
| "enc_operand opcode wide offset (Op_Multianewarray i n) = be2 i @ be1 n"
| "enc_operand opcode wide offset (Op_Branch t) = be2 (of_int (t - uint offset))"
| "enc_operand opcode wide offset (Op_BranchWide t) = be4 (of_int (t - uint offset))"
| "enc_operand opcode wide offset (Op_TableSwitch d low high ts) =
     be4 (of_int (d - uint offset)) @ be4 (of_int low) @ be4 (of_int high) @
     concat (map (\<lambda>t. be4 (of_int (t - uint offset))) ts)"
| "enc_operand opcode wide offset (Op_LookupSwitch d ps) =
     be4 (of_int (d - uint offset)) @ be4 (of_nat (length ps)) @
     concat (map (\<lambda>p. be4 (of_int (pair_match p)) @ be4 (of_int (pair_target p - uint offset))) ps)"

definition enc_opcode :: "instruction \<Rightarrow> u1 list" where
  "enc_opcode node = (if ins_wide node then be1 JVM_OPC_wide else []) @ be1 (ins_opcode node)"

definition is_switch :: "operand \<Rightarrow> bool" where
  "is_switch u \<longleftrightarrow> operand_kind_of u \<in> {OPERAND_TABLE_SWITCH, OPERAND_LOOKUP_SWITCH}"

definition pad_len :: "instruction \<Rightarrow> nat" where
  "pad_len node = (if is_switch (ins_u node) then unat (switch_padding (ins_offset node)) else 0)"

definition enc_node_operand :: "instruction \<Rightarrow> u1 list" where
  "enc_node_operand node = enc_operand (ins_opcode node) (ins_wide node) (ins_offset node) (ins_u node)"

definition ins_bytes :: "instruction \<Rightarrow> u1 list \<Rightarrow> bool" where
  "ins_bytes node bs \<longleftrightarrow>
     (\<exists>pad. length pad = pad_len node \<and> bs = enc_opcode node @ pad @ enc_node_operand node)"

definition enc_ins :: "instruction \<Rightarrow> u1 list" where
  "enc_ins node = enc_opcode node @ replicate (pad_len node) 0 @ enc_node_operand node"

text \<open>The ranges of the operand fields, as the parser leaves them.\<close>

fun wf_operand :: "u1 \<Rightarrow> bool \<Rightarrow> u4 \<Rightarrow> operand \<Rightarrow> bool" where
  "wf_operand opcode wide offset (Op_Immediate v) \<longleftrightarrow>
     (if opcode = JVM_OPC_sipush then - 32768 \<le> v \<and> v \<le> 32767 else - 128 \<le> v \<and> v \<le> 127)"
| "wf_operand opcode wide offset (Op_Local i) \<longleftrightarrow> wide \<or> unat i < 256"
| "wf_operand opcode wide offset (Op_Iinc i k) \<longleftrightarrow>
     (if wide then - 32768 \<le> k \<and> k \<le> 32767 else unat i < 256 \<and> - 128 \<le> k \<and> k \<le> 127)"
| "wf_operand opcode wide offset (Op_Constant i) \<longleftrightarrow> opcode = JVM_OPC_ldc \<longrightarrow> unat i < 256"
| "wf_operand opcode wide offset (Op_Branch t) \<longleftrightarrow>
     i4_range t \<and> - 32768 \<le> i4_delta t offset \<and> i4_delta t offset \<le> 32767"
| "wf_operand opcode wide offset (Op_BranchWide t) \<longleftrightarrow> i4_range t"
| "wf_operand opcode wide offset (Op_TableSwitch d low high ts) \<longleftrightarrow>
     i4_range d \<and> i4_range low \<and> i4_range high \<and> low \<le> high \<and>
     int (length ts) = high - low + 1 \<and> list_all i4_range ts"
| "wf_operand opcode wide offset (Op_LookupSwitch d ps) \<longleftrightarrow>
     i4_range d \<and> length ps < 2 ^ 31 \<and>
     list_all (\<lambda>p. i4_range (pair_match p) \<and> i4_range (pair_target p)) ps"
| "wf_operand opcode wide offset _ \<longleftrightarrow> True"

definition wf_ins :: "instruction \<Rightarrow> bool" where
  "wf_ins node \<longleftrightarrow>
     instruction_opcode_is_defined (ins_opcode node) \<and> ins_opcode node \<noteq> JVM_OPC_wide \<and>
     ins_kind node = instruction_kind_of (ins_opcode node) \<and>
     (ins_wide node \<longrightarrow> ins_kind node \<in> {OPERAND_LOCAL, OPERAND_IINC}) \<and>
     wf_operand (ins_opcode node) (ins_wide node) (ins_offset node) (ins_u node)"

subsection \<open>Reads\<close>

lemma i4_target_simps [simp]:
  "i4_range (i4_target offset d)"
  "(of_int (i4_target offset d) :: u4) = offset + of_int d"
  "(of_int (i4_target offset d) :: u2) = of_int (sint offset) + of_int d"
  by (simp_all add: i4_target_def)

lemma of_int_sub_uint: "(of_int (t - uint offset) :: u4) = of_int t - offset"
  by simp

lemma u2_of_uint: "(ucast (x :: u4) :: u2) = scast x"
  by transfer (simp add: take_bit_signed_take_bit)

lemma i4_target_delta: "i4_range t \<Longrightarrow> i4_target offset (sint (of_int (t - uint offset) :: u4)) = t"
proof -
  assume "i4_range t"
  then have "t = i4_wrap t" by (simp add: i4_wrap_id)
  also have "\<dots> = i4_wrap (sint offset + sint (of_int (t - uint offset) :: u4))"
    by (rule i4_wrap_cong) simp
  finally show ?thesis by (simp add: i4_target_def)
qed

lemma i4_delta_target:
  "i4_range d \<Longrightarrow> i4_delta (i4_target offset d) offset = d"
proof -
  assume "i4_range d"
  then have "d = i4_wrap d" by (simp add: i4_wrap_id)
  also have "\<dots> = i4_delta (i4_target offset d) offset"
    unfolding i4_delta_def by (rule i4_wrap_cong) simp
  finally show ?thesis by simp
qed

lemma i4_target_delta_u2:
  assumes "i4_range t" "- 32768 \<le> i4_delta t offset" "i4_delta t offset \<le> 32767"
  shows "i4_target offset (sint (of_int (t - uint offset) :: u2)) = t"
proof -
  have "(of_int (t - uint offset) :: u2) = of_int (i4_delta t offset)"
    by (simp add: i4_delta_def u2_of_uint)
  then have "sint (of_int (t - uint offset) :: u2) = i4_delta t offset"
    using assms(2,3) by (simp add: sint_of_int_u2)
  moreover have "i4_target offset (i4_delta t offset) = i4_wrap t"
    unfolding i4_target_def i4_delta_def by (rule i4_wrap_cong) simp
  ultimately show ?thesis using assms(1) by (simp add: i4_wrap_id)
qed

lemma read_i4D: "read_i4 c = (v, c') \<Longrightarrow> cur_ok c' \<Longrightarrow> cur_ok c \<and> spans c (be4 (of_int v)) c' \<and> i4_range v"
  by (auto simp: read_i4_def split: prod.splits dest: read_u4D)

lemma read_i2D: "read_i2 c = (v, c') \<Longrightarrow> cur_ok c' \<Longrightarrow>
    cur_ok c \<and> spans c (be2 (of_int v)) c' \<and> - 32768 \<le> v \<and> v \<le> 32767"
  using sint_u2_bounds by (auto simp: read_i2_def split: prod.splits dest: read_u2D)

lemma read_i1D: "read_i1 c = (v, c') \<Longrightarrow> cur_ok c' \<Longrightarrow>
    cur_ok c \<and> spans c (be1 (of_int v)) c' \<and> - 128 \<le> v \<and> v \<le> 127"
  using sint_u1_bounds by (auto simp: read_i1_def split: prod.splits dest: read_u1D)

lemma read_indexD: "read_index two c = (i, c') \<Longrightarrow> cur_ok c' \<Longrightarrow>
    cur_ok c \<and> spans c (if two then be2 i else be1 (ucast i)) c' \<and> (two \<or> unat i < 256)"
  by (auto simp: read_index_def split: prod.splits if_splits dest: read_u2D read_u1D)

lemma spans_read_i4: "spans c (be4 v) c' \<Longrightarrow> read_i4 c = (sint v, c')"
  and spans_read_i2: "spans c (be2 w) c' \<Longrightarrow> read_i2 c = (sint w, c')"
  and spans_read_i1: "spans c (be1 x) c' \<Longrightarrow> read_i1 c = (sint x, c')"
  by (simp_all add: read_i4_def read_i2_def read_i1_def spans_u4 spans_u2 spans_u1)

lemma spans_read_index:
  "spans c (be2 i) c' \<Longrightarrow> read_index True c = (i, c')"
  "spans c (be1 (ucast i)) c' \<Longrightarrow> unat i < 256 \<Longrightarrow> read_index False c = (i, c')"
  by (simp_all add: read_index_def spans_u2 spans_u1 ucast_ucast_u1)


definition to_multiple_of_4 :: "nat \<Rightarrow> nat" where
  "to_multiple_of_4 n = (4 - n mod 4) mod 4"

lemma to_multiple_of_4_Suc: "n mod 4 \<noteq> 0 \<Longrightarrow> to_multiple_of_4 n = Suc (to_multiple_of_4 (Suc n))"
  unfolding to_multiple_of_4_def by (simp add: mod_Suc) (auto simp: Suc_diff_le)

lemma to_multiple_of_4_0: "n mod 4 = 0 \<Longrightarrow> to_multiple_of_4 n = 0"
  by (simp add: to_multiple_of_4_def)

lemma unat_switch_padding: "unat (switch_padding (of_nat p)) = to_multiple_of_4 (Suc p)"
proof -
  have m: "unat ((of_nat p + 1 :: u4) mod 4) = Suc p mod 4"
    by (simp add: unat_word_ariths unat_mod unat_of_nat take_bit_nat_def mod_mod_cancel mod_simps)
  have "((of_nat p + 1 :: u4) mod 4) \<le> 4"
    using m by (simp add: word_le_nat_alt)
  then have "unat (4 - (of_nat p + 1 :: u4) mod 4) = 4 - Suc p mod 4"
    using m by (simp add: unat_sub)
  then show ?thesis
    by (simp add: switch_padding_def to_multiple_of_4_def unat_mod)
qed

lemma skip_padding_sound:
  "cur_ok (skip_padding c) \<Longrightarrow>
   \<exists>pad. spans c pad (skip_padding c) \<and> length pad = to_multiple_of_4 (cur_pos c)"
proof (induction c rule: skip_padding.induct)
  case (1 c)
  show ?case
  proof (cases "cur_pos c mod 4 \<noteq> 0 \<and> cur_ok c")
    case False
    with "1.prems" have "skip_padding c = c" "cur_ok c" "cur_pos c mod 4 = 0"
      by (auto simp: skip_padding.simps [of c] byte_cursor_offset_def byte_cursor_ok_def split: if_splits)
    then show ?thesis by (auto simp: to_multiple_of_4_0 intro!: exI [of _ "[]"])
  next
    case True
    then have e: "skip_padding c = skip_padding (snd (byte_cursor_u1 c))"
      by (simp add: skip_padding.simps [of c] byte_cursor_offset_def byte_cursor_ok_def)
    obtain v d where d: "byte_cursor_u1 c = (v, d)" by (metis surj_pair)
    from "1.IH" "1.prems" True e d obtain pad where
      p: "spans d pad (skip_padding c)" "length pad = to_multiple_of_4 (cur_pos d)"
      by (auto simp: byte_cursor_offset_def byte_cursor_ok_def)
    with d have s: "spans c (be1 v) d" using spans_ok byte_cursor_u1_spans by blast
    from spans_trans [OF s p(1)] p(2) spans_length [OF s] True show ?thesis
      by (intro exI [of _ "be1 v @ pad"]) (simp add: to_multiple_of_4_Suc)
  qed
qed

lemma skip_padding_complete:
  "spans c pad c' \<Longrightarrow> length pad = to_multiple_of_4 (cur_pos c) \<Longrightarrow> skip_padding c = c'"
proof (induction pad arbitrary: c)
  case Nil
  then have "cur_pos c mod 4 = 0"
    by (cases "cur_pos c mod 4 = 0") (auto simp: to_multiple_of_4_Suc)
  with Nil show ?case by (simp add: skip_padding.simps [of c] byte_cursor_offset_def)
next
  case (Cons v pad)
  have m: "cur_pos c mod 4 \<noteq> 0"
    using Cons.prems(2) to_multiple_of_4_0 [of "cur_pos c"] by (metis length_Cons nat.distinct(1))
  from Cons.prems(1) obtain d where s: "spans c (be1 v) d" "spans d pad c'"
    using spans_append [of c "[v]" pad c'] by (auto simp: be1_def)
  have "length pad = to_multiple_of_4 (cur_pos d)"
    using Cons.prems(2) to_multiple_of_4_Suc [OF m] spans_length [OF s(1)] by simp
  with Cons.IH [OF s(2)] have "skip_padding d = c'" by simp
  with m spans_u1 [OF s(1)] spans_ok [OF s(1)] show ?case
    by (simp add: skip_padding.simps [of c] byte_cursor_offset_def byte_cursor_ok_def)
qed

subsection \<open>Switches\<close>

lemma read_targets_sound:
  "read_targets n offset c = (ts, c') \<Longrightarrow> cur_ok c' \<Longrightarrow>
   length ts = n \<and> list_all i4_range ts \<and>
   spans c (concat (map (\<lambda>t. be4 (of_int (t - uint offset))) ts)) c'"
proof (induction n arbitrary: c ts)
  case (Suc n)
  obtain d c1 where d: "read_i4 c = (d, c1)" by (metis surj_pair)
  obtain ts' where ts': "read_targets n offset c1 = (ts', c')" "ts = i4_target offset d # ts'"
    using Suc.prems(1) d by (auto split: prod.splits)
  from Suc.IH [OF ts'(1) Suc.prems(2)] have IH: "length ts' = n" "list_all i4_range ts'"
    "spans c1 (concat (map (\<lambda>t. be4 (of_int (t - uint offset))) ts')) c'" by auto
  from read_i4D [OF d] spans_ok [OF IH(3)] have "spans c (be4 (of_int d)) c1" by auto
  from spans_trans [OF this IH(3)] IH ts'(2) show ?case by simp
qed auto

lemma read_targets_complete:
  "spans c (concat (map (\<lambda>t. be4 (of_int (t - uint offset))) ts)) c' \<Longrightarrow> list_all i4_range ts \<Longrightarrow>
   read_targets (length ts) offset c = (ts, c')"
proof (induction ts arbitrary: c)
  case (Cons t ts)
  from Cons.prems(1) obtain c1 where s: "spans c (be4 (of_int (t - uint offset))) c1"
    "spans c1 (concat (map (\<lambda>t. be4 (of_int (t - uint offset))) ts)) c'"
    by (auto simp: spans_append)
  from Cons.IH [OF s(2)] spans_read_i4 [OF s(1)] Cons.prems(2) i4_target_delta [of t offset]
  show ?case by (simp del: of_int_diff)
qed simp

lemma read_pairs_sound:
  "read_pairs n offset c = (ps, c') \<Longrightarrow> cur_ok c' \<Longrightarrow>
   length ps = n \<and> list_all (\<lambda>p. i4_range (pair_match p) \<and> i4_range (pair_target p)) ps \<and>
   spans c (concat (map (\<lambda>p. be4 (of_int (pair_match p)) @
     be4 (of_int (pair_target p - uint offset))) ps)) c'"
proof (induction n arbitrary: c ps)
  case (Suc n)
  obtain m c1 where m: "read_i4 c = (m, c1)" by (metis surj_pair)
  obtain d c2 where d: "read_i4 c1 = (d, c2)" by (metis surj_pair)
  obtain ps' where ps': "read_pairs n offset c2 = (ps', c')"
    "ps = \<lparr>pair_match = m, pair_target = i4_target offset d\<rparr> # ps'"
    using Suc.prems(1) m d by (auto split: prod.splits)
  from Suc.IH [OF ps'(1) Suc.prems(2)] have IH: "length ps' = n"
    "list_all (\<lambda>p. i4_range (pair_match p) \<and> i4_range (pair_target p)) ps'"
    "spans c2 (concat (map (\<lambda>p. be4 (of_int (pair_match p)) @
     be4 (of_int (pair_target p - uint offset))) ps')) c'" by auto
  from read_i4D [OF d] read_i4D [OF m] spans_ok [OF IH(3)]
  have "spans c (be4 (of_int m)) c1" "spans c1 (be4 (of_int d)) c2" "i4_range m" by auto
  with spans_trans [OF _ spans_trans [OF _ IH(3)]] IH ps'(2) show ?case by simp
qed auto

lemma read_pairs_complete:
  "spans c (concat (map (\<lambda>p. be4 (of_int (pair_match p)) @
     be4 (of_int (pair_target p - uint offset))) ps)) c' \<Longrightarrow>
   list_all (\<lambda>p. i4_range (pair_match p) \<and> i4_range (pair_target p)) ps \<Longrightarrow>
   read_pairs (length ps) offset c = (ps, c')"
proof (induction ps arbitrary: c)
  case (Cons p ps)
  from Cons.prems(1) obtain c1 c2 where s: "spans c (be4 (of_int (pair_match p))) c1"
    "spans c1 (be4 (of_int (pair_target p - uint offset))) c2"
    "spans c2 (concat (map (\<lambda>p. be4 (of_int (pair_match p)) @
     be4 (of_int (pair_target p - uint offset))) ps)) c'"
    by (auto simp: spans_append)
  have "sint (of_int (pair_match p) :: u4) = pair_match p"
    using Cons.prems(2) by (simp add: i4_wrap_word [symmetric] i4_wrap_id)
  with Cons.IH [OF s(3)] spans_read_i4 [OF s(1)] spans_read_i4 [OF s(2)] Cons.prems(2)
    i4_target_delta [of "pair_target p" offset]
  show ?case by (simp del: of_int_diff)
qed simp


lemma length_concat_be4: "length (concat (map (\<lambda>t. be4 (f t)) ts)) = 4 * length ts"
  by (induction ts) simp_all

lemma length_concat_be8: "length (concat (map (\<lambda>t. be4 (f t) @ be4 (g t)) ts)) = 8 * length ts"
  by (induction ts) simp_all

lemma spans_remaining: "spans c bs c' \<Longrightarrow> length bs \<le> byte_cursor_remaining c"
  by (auto simp: spans_def byte_cursor_remaining_def dest: arg_cong [where f = length])

lemma parse_table_switch_sound:
  assumes "parse_table_switch mem offset c = Inr (u, c')" "cur_ok c'"
  shows "\<exists>pad. length pad = to_multiple_of_4 (cur_pos c) \<and>
    spans c (pad @ enc_operand opcode wide offset u) c' \<and> wf_operand opcode wide offset u \<and>
    operand_kind_of u = OPERAND_TABLE_SWITCH"
proof -
  obtain d c1 where d: "read_i4 (skip_padding c) = (d, c1)" by (metis surj_pair)
  obtain low c2 where low: "read_i4 c1 = (low, c2)" by (metis surj_pair)
  obtain high c3 where high: "read_i4 c2 = (high, c3)" by (metis surj_pair)
  obtain ts c4 where ts: "read_targets (nat (high - low + 1)) offset c3 = (ts, c4)" by (metis surj_pair)
  from assms(1) d low high ts have ok: "cur_ok c3" "low \<le> high" "c4 = c'"
    and u: "u = Op_TableSwitch (i4_target offset d) low high ts"
    by (auto simp: parse_table_switch_def byte_cursor_ok_def Let_def split: if_splits)
  from read_targets_sound [OF ts] ok assms(2) have t: "length ts = nat (high - low + 1)" "list_all i4_range ts"
    "spans c3 (concat (map (\<lambda>t. be4 (of_int (t - uint offset))) ts)) c'" by auto
  from d low high ok have r: "spans (skip_padding c) (be4 (of_int d)) c1" "spans c1 (be4 (of_int low)) c2"
    "spans c2 (be4 (of_int high)) c3" "i4_range low" "i4_range high"
    by (auto dest: read_i4D)
  from skip_padding_sound [of c] spans_ok [OF r(1)] obtain pad where
    pad: "spans c pad (skip_padding c)" "length pad = to_multiple_of_4 (cur_pos c)" by auto
  have "spans c (pad @ enc_operand opcode wide offset u) c'"
    using pad(1) r t(3) unfolding u by (auto intro!: spans_trans)
  with pad t r ok(2) show ?thesis by (auto simp: u)
qed

lemma parse_lookup_switch_sound:
  assumes "parse_lookup_switch mem offset c = Inr (u, c')" "cur_ok c'"
  shows "\<exists>pad. length pad = to_multiple_of_4 (cur_pos c) \<and>
    spans c (pad @ enc_operand opcode wide offset u) c' \<and> wf_operand opcode wide offset u \<and>
    operand_kind_of u = OPERAND_LOOKUP_SWITCH"
proof -
  obtain d c1 where d: "read_i4 (skip_padding c) = (d, c1)" by (metis surj_pair)
  obtain n c2 where n: "read_i4 c1 = (n, c2)" by (metis surj_pair)
  obtain ps c3 where ps: "read_pairs (nat n) offset c2 = (ps, c3)" by (metis surj_pair)
  from assms(1) d n ps have ok: "cur_ok c2" "0 \<le> n" "c3 = c'"
    and u: "u = Op_LookupSwitch (i4_target offset d) ps"
    by (auto simp: parse_lookup_switch_def byte_cursor_ok_def Let_def split: if_splits)
  from read_pairs_sound [OF ps] ok assms(2) have t: "length ps = nat n"
    "list_all (\<lambda>p. i4_range (pair_match p) \<and> i4_range (pair_target p)) ps"
    "spans c2 (concat (map (\<lambda>p. be4 (of_int (pair_match p)) @
       be4 (of_int (pair_target p - uint offset))) ps)) c'" by auto
  from d n ok have r: "spans (skip_padding c) (be4 (of_int d)) c1" "spans c1 (be4 (of_int n)) c2" "i4_range n"
    by (auto dest: read_i4D)
  have len: "(of_nat (length ps) :: u4) = of_int n" "length ps < 2 ^ 31"
    using t(1) ok(2) r(3) by (simp_all add: i4_range_def)
  from skip_padding_sound [of c] spans_ok [OF r(1)] obtain pad where
    pad: "spans c pad (skip_padding c)" "length pad = to_multiple_of_4 (cur_pos c)" by auto
  have "spans c (pad @ enc_operand opcode wide offset u) c'"
    using pad(1) r t(3) len(1) unfolding u by (auto intro!: spans_trans)
  with pad t len show ?thesis by (auto simp: u)
qed

lemma parse_table_switch_complete:
  assumes "spans c (pad @ enc_operand opcode wide offset u) c'" "length pad = to_multiple_of_4 (cur_pos c)"
    "wf_operand opcode wide offset u" "operand_kind_of u = OPERAND_TABLE_SWITCH" "alloc_total mem"
  shows "parse_table_switch mem offset c = Inr (u, c')"
proof -
  obtain d low high ts where u: "u = Op_TableSwitch d low high ts" using assms(4) by (cases u) auto
  from assms(1) u obtain c0 c1 c2 c3 where
    p: "spans c pad c0" and r: "spans c0 (be4 (of_int (d - uint offset))) c1" "spans c1 (be4 (of_int low)) c2"
      "spans c2 (be4 (of_int high)) c3"
    and t: "spans c3 (concat (map (\<lambda>t. be4 (of_int (t - uint offset))) ts)) c'"
    by (auto simp: spans_append)
  have wf: "i4_range d" "i4_range low" "i4_range high" "low \<le> high" "int (length ts) = high - low + 1"
    "list_all i4_range ts" using assms(3) u by auto
  have rem: "4 * length ts \<le> byte_cursor_remaining c3"
    using spans_remaining [OF t] by (simp only: length_concat_be4)
  have vals: "sint (of_int low :: u4) = low" "sint (of_int high :: u4) = high"
    using wf(2,3) by (simp_all add: i4_wrap_word [symmetric] i4_wrap_id)
  have n: "nat (high - low + 1) = length ts" using wf(5) by simp
  note ev = skip_padding_complete [OF p assms(2)] spans_read_i4 [OF r(1)] spans_read_i4 [OF r(2)]
    spans_read_i4 [OF r(3)] read_targets_complete [OF t wf(6)]
  have "\<not> (high - low + 1) * 4 > int (byte_cursor_remaining c3)"
    using rem unfolding wf(5) [symmetric] by linarith
  moreover have "mem Alloc_i4 (length ts)" using assms(5) by (simp add: alloc_total_def)
  ultimately show ?thesis
    using ev vals n wf(4) spans_ok [OF r(3)] i4_target_delta [OF wf(1), of offset] u
    by (simp add: parse_table_switch_def byte_cursor_ok_def Let_def del: of_int_diff)
qed

lemma parse_lookup_switch_complete:
  assumes "spans c (pad @ enc_operand opcode wide offset u) c'" "length pad = to_multiple_of_4 (cur_pos c)"
    "wf_operand opcode wide offset u" "operand_kind_of u = OPERAND_LOOKUP_SWITCH" "alloc_total mem"
  shows "parse_lookup_switch mem offset c = Inr (u, c')"
proof -
  obtain d ps where u: "u = Op_LookupSwitch d ps" using assms(4) by (cases u) auto
  from assms(1) u obtain c0 c1 c2 where
    p: "spans c pad c0" and r: "spans c0 (be4 (of_int (d - uint offset))) c1"
      "spans c1 (be4 (of_nat (length ps))) c2"
    and t: "spans c2 (concat (map (\<lambda>p. be4 (of_int (pair_match p)) @
       be4 (of_int (pair_target p - uint offset))) ps)) c'"
    by (auto simp: spans_append)
  have wf: "i4_range d" "length ps < 2 ^ 31"
    "list_all (\<lambda>p. i4_range (pair_match p) \<and> i4_range (pair_target p)) ps" using assms(3) u by auto
  have rem: "8 * length ps \<le> byte_cursor_remaining c2"
    using spans_remaining [OF t] by (simp only: length_concat_be8)
  have "i4_range (int (length ps))" using wf(2) by (simp add: i4_range_def)
  then have cnt: "sint (of_nat (length ps) :: u4) = int (length ps)"
    using i4_wrap_word [of "int (length ps)"] by (simp add: i4_wrap_id)
  note ev = skip_padding_complete [OF p assms(2)] spans_read_i4 [OF r(1)] spans_read_i4 [OF r(2)]
    read_pairs_complete [OF t wf(3)]
  moreover have "mem Alloc_switch_pair (length ps)" using assms(5) by (simp add: alloc_total_def)
  ultimately show ?thesis
    using cnt rem spans_ok [OF r(2)] i4_target_delta [OF wf(1), of offset] u
    by (simp add: parse_lookup_switch_def byte_cursor_ok_def Let_def mult.commute del: of_int_diff)
qed


subsection \<open>One instruction\<close>

lemma parse_operand_sound:
  assumes "parse_operand mem opcode wide offset c = Inr (u, c')" "cur_ok c'"
  shows "\<exists>pad. length pad = (if is_switch u then to_multiple_of_4 (cur_pos c) else 0) \<and>
    spans c (pad @ enc_operand opcode wide offset u) c' \<and> wf_operand opcode wide offset u \<and>
    operand_kind_of u = instruction_kind_of opcode \<and> cur_ok c"
proof (cases "instruction_kind_of opcode \<in> {OPERAND_TABLE_SWITCH, OPERAND_LOOKUP_SWITCH}")
  case True
  with assms parse_table_switch_sound [of mem offset c u c' opcode wide]
    parse_lookup_switch_sound [of mem offset c u c' opcode wide] show ?thesis
    unfolding parse_operand_def is_switch_def by (fastforce dest: spans_ok)
next
  case False
  have "spans c (enc_operand opcode wide offset u) c' \<and> wf_operand opcode wide offset u \<and>
      operand_kind_of u = instruction_kind_of opcode"
  proof (cases "instruction_kind_of opcode")
    case OPERAND_BRANCH
    with assms obtain d where d: "read_i2 c = (d, c')" "u = Op_Branch (i4_target offset d)"
      by (auto simp: parse_operand_def split: prod.splits)
    note r = read_i2D [OF d(1) assms(2)]
    have "i4_range d" using r by (simp add: i4_range_def)
    with r d OPERAND_BRANCH show ?thesis by (simp add: i4_delta_target u2_of_uint)
  next
    case OPERAND_BRANCH_WIDE
    with assms obtain d where d: "read_i4 c = (d, c')" "u = Op_BranchWide (i4_target offset d)"
      by (auto simp: parse_operand_def split: prod.splits)
    with read_i4D [OF d(1) assms(2)] OPERAND_BRANCH_WIDE show ?thesis by simp
  next
    case OPERAND_IINC
    with assms obtain i k d where d: "read_index wide c = (i, d)"
      "(if wide then read_i2 d else read_i1 d) = (k, c')" "u = Op_Iinc i k"
      by (auto simp: parse_operand_def split: prod.splits)
    have k: "cur_ok d" "spans d (if wide then be2 (of_int k) else be1 (of_int k)) c'"
      "if wide then - 32768 \<le> k \<and> k \<le> 32767 else - 128 \<le> k \<and> k \<le> 127"
      using d(2) assms(2) by (auto split: if_splits dest: read_i2D read_i1D)
    from read_indexD [OF d(1) k(1)] k d(3) OPERAND_IINC show ?thesis
      by (auto simp: spans_append split: if_splits)
  qed (use assms False in \<open>auto simp: parse_operand_def spans_append split: prod.splits if_splits
        dest: read_i2D read_i1D read_indexD read_u2D read_u1D\<close>,
       (blast dest: read_u2D read_u1D)+)
  with False show ?thesis by (auto simp: is_switch_def dest: spans_ok intro!: exI [of _ "[]"])
qed


lemma parse_operand_complete:
  assumes "spans c (pad @ enc_operand opcode wide offset u) c'"
    "length pad = (if is_switch u then to_multiple_of_4 (cur_pos c) else 0)"
    "wf_operand opcode wide offset u" "operand_kind_of u = instruction_kind_of opcode" "alloc_total mem"
  shows "parse_operand mem opcode wide offset c = Inr (u, c')"
proof (cases "is_switch u")
  case True
  with assms parse_table_switch_complete [of c pad opcode wide offset u c' mem]
    parse_lookup_switch_complete [of c pad opcode wide offset u c' mem] show ?thesis
    by (auto simp: is_switch_def parse_operand_def)
next
  case False
  with assms(1,2) have s: "spans c (enc_operand opcode wide offset u) c'" by simp
  show ?thesis
  proof (cases u)
    case (Op_Branch t)
    with s assms(3) spans_read_i2 [of c "of_int (t - uint offset)" c'] have
      "read_i2 c = (sint (of_int (t - uint offset) :: u2), c')" by simp
    with Op_Branch assms(3,4) i4_target_delta_u2 [of t offset] show ?thesis
      by (simp add: parse_operand_def flip: assms(4) del: of_int_diff)
  next
    case (Op_BranchWide t)
    with s assms(3) spans_read_i4 [of c "of_int (t - uint offset)" c'] have
      "read_i4 c = (sint (of_int (t - uint offset) :: u4), c')" by simp
    with Op_BranchWide assms(3,4) i4_target_delta [of t offset] show ?thesis
      by (simp add: parse_operand_def flip: assms(4) del: of_int_diff)
  qed (use s False assms(3,4) in \<open>auto simp: parse_operand_def spans_append is_switch_def
      read_index_def read_i1_def read_i2_def ucast_ucast_u1 sint_of_int_u2 sint_of_int_u1
      simp flip: assms(4) split: if_splits dest!: spans_eval\<close>)
qed


lemma parse_instruction_sound:
  assumes "parse_instruction mem c = Inr (node, c')"
  shows "wf_ins node" "ins_offset node = of_nat (cur_pos c)"
    "\<exists>bs. spans c bs c' \<and> ins_bytes node bs"
proof -
  obtain op1 c1 where r1: "byte_cursor_u1 c = (op1, c1)" by (metis surj_pair)
  obtain opcode c2 where r2: "(if op1 = JVM_OPC_wide then byte_cursor_u1 c1 else (op1, c1)) = (opcode, c2)"
    by (metis surj_pair)
  let ?w = "op1 = JVM_OPC_wide" and ?off = "of_nat (cur_pos c) :: u4"
  from assms r1 r2 obtain u where ok: "cur_ok c'" "instruction_opcode_is_defined opcode" "opcode \<noteq> JVM_OPC_wide"
    "?w \<longrightarrow> instruction_kind_of opcode \<in> {OPERAND_LOCAL, OPERAND_IINC}"
    and o: "parse_operand mem opcode ?w ?off c2 = Inr (u, c')"
    and node: "node = \<lparr>ins_offset = ?off, ins_opcode = opcode, ins_wide = ?w, ins_u = u\<rparr>"
    by (auto simp: parse_instruction_def byte_cursor_ok_def byte_cursor_offset_def Let_def
        split: if_splits prod.splits sum.splits)
  from parse_operand_sound [OF o ok(1)] obtain pad where
    pad: "length pad = (if is_switch u then to_multiple_of_4 (cur_pos c2) else 0)"
      "spans c2 (pad @ enc_operand opcode ?w ?off u) c'" "wf_operand opcode ?w ?off u"
      "operand_kind_of u = instruction_kind_of opcode" "cur_ok c2" by blast
  show "wf_ins node" using pad ok node by (auto simp: wf_ins_def)
  show "ins_offset node = of_nat (cur_pos c)" by (simp add: node)
  have h: "spans c (enc_opcode node) c2"
    using r1 r2 pad(5) byte_cursor_u1_spans
    by (cases ?w) (auto simp: enc_opcode_def node spans_append dest: read_u1D)
  have "cur_pos c2 = Suc (cur_pos c)" if "is_switch u"
    using that h pad(4) ok(4) spans_length [OF h] by (auto simp: enc_opcode_def node is_switch_def)
  then have "length pad = pad_len node"
    using pad(1) by (auto simp: pad_len_def node unat_switch_padding)
  with spans_trans [OF h pad(2)] show "\<exists>bs. spans c bs c' \<and> ins_bytes node bs"
    by (auto simp: ins_bytes_def enc_node_operand_def node)
qed

lemma parse_instruction_complete:
  assumes "spans c bs c'" "ins_bytes node bs" "wf_ins node" "ins_offset node = of_nat (cur_pos c)"
    "alloc_total mem"
  shows "parse_instruction mem c = Inr (node, c')"
proof -
  from assms(1,2) obtain pad c2 where pad: "length pad = pad_len node"
    "spans c (enc_opcode node) c2" "spans c2 (pad @ enc_node_operand node) c'"
    unfolding ins_bytes_def using spans_append by blast
  let ?op = "ins_opcode node" and ?w = "ins_wide node"
  have sw: "\<not> ins_wide node" if "is_switch (ins_u node)"
    using that assms(3) by (auto simp: wf_ins_def is_switch_def)
  have "length pad = (if is_switch (ins_u node) then to_multiple_of_4 (cur_pos c2) else 0)"
    using pad(1) spans_length [OF pad(2)] sw
    by (auto simp: pad_len_def assms(4) unat_switch_padding enc_opcode_def)
  then have o: "parse_operand mem ?op ?w (of_nat (cur_pos c)) c2 = Inr (ins_u node, c')"
    using parse_operand_complete [of c2 pad ?op ?w "of_nat (cur_pos c)" "ins_u node" c' mem] pad(3) assms(3,4,5)
    by (simp add: wf_ins_def enc_node_operand_def)
  have fields: "node = \<lparr>ins_offset = of_nat (cur_pos c), ins_opcode = ?op, ins_wide = ?w, ins_u = ins_u node\<rparr>"
    using assms(4) by simp
  have ok: "cur_ok c'" using assms(1) spans_ok by blast
  have op: "instruction_opcode_is_defined ?op" "?op \<noteq> JVM_OPC_wide"
    "?w \<Longrightarrow> instruction_kind_of ?op \<in> {OPERAND_LOCAL, OPERAND_IINC}"
    using assms(3) by (auto simp: wf_ins_def)
  show ?thesis
  proof (cases ?w)
    case True
    with pad(2) obtain c1 where "byte_cursor_u1 c = (JVM_OPC_wide, c1)" "byte_cursor_u1 c1 = (?op, c2)"
      by (auto simp: enc_opcode_def spans_append dest!: spans_u1)
    with True o ok op fields show ?thesis
      by (auto simp: parse_instruction_def byte_cursor_offset_def byte_cursor_ok_def Let_def)
  next
    case False
    with pad(2) have "byte_cursor_u1 c = (?op, c2)" by (simp add: enc_opcode_def spans_u1)
    with False o ok op fields show ?thesis
      by (auto simp: parse_instruction_def byte_cursor_offset_def byte_cursor_ok_def Let_def)
  qed
qed

lemma enc_opcode_not_Nil [simp]: "enc_opcode node \<noteq> []"
  by (simp add: enc_opcode_def)

lemma parse_instruction_advances:
  assumes "parse_instruction mem c = Inr (node, c')"
  shows "cur_pos c < cur_pos c'" "cur_pos c' \<le> length (cur_data c)" "cur_data c' = cur_data c"
proof -
  from parse_instruction_sound(3) [OF assms] obtain bs where "spans c bs c'" "bs \<noteq> []"
    by (auto simp: ins_bytes_def)
  with spans_length [of c bs c'] spans_le [of c bs c'] show "cur_pos c < cur_pos c'"
    "cur_pos c' \<le> length (cur_data c)" "cur_data c' = cur_data c" by auto
qed

lemma parse_instruction_measure:
  "parse_instruction mem c = Inr (node, c') \<Longrightarrow>
   length (cur_data c') - cur_pos c' < length (cur_data c) - cur_pos c"
  using parse_instruction_advances [of mem c node c'] by simp

section \<open>The whole code array\<close>

definition il_set_last :: "instruction_list \<Rightarrow> instruction \<Rightarrow> instruction_list" where
  "il_set_last list node = list\<lparr>il_items := butlast (il_items list) @ [node]\<rparr>"

function instruction_list_parse_loop ::
  "alloc \<Rightarrow> byte_cursor \<Rightarrow> instruction_list \<Rightarrow> classfile_status + instruction_list \<times> byte_cursor" where
  "instruction_list_parse_loop mem c list =
     (if \<not> byte_cursor_exhausted c \<and> byte_cursor_ok c then
        (case instruction_list_append mem list instruction_zero of
           (status, list) \<Rightarrow>
             if status \<noteq> CLASSFILE_OK then Inl status
             else
               (case parse_instruction mem c of
                  Inl status \<Rightarrow> Inl status
                | Inr (node, c) \<Rightarrow> instruction_list_parse_loop mem c (il_set_last list node)))
      else Inr (list, c))"
  by pat_completeness auto
termination
  by (relation "measure (\<lambda>(mem, c, list). length (cur_data c) - cur_pos c)")
     (auto dest: parse_instruction_measure)

declare instruction_list_parse_loop.simps [simp del]

definition instruction_list_parse :: "alloc \<Rightarrow> u1 list \<Rightarrow> classfile_status + instruction_list" where
  "instruction_list_parse mem code =
     (case instruction_list_parse_loop mem (byte_cursor_init code)
             (instruction_list_init\<lparr>il_code_length := of_nat (length code)\<rparr>) of
        Inl status \<Rightarrow> Inl status
      | Inr (list, c) \<Rightarrow> if \<not> byte_cursor_ok c then Inl CLASSFILE_ERR_TRUNCATED else Inr list)"


text \<open>The bytes of a run of instructions that starts at a given position.\<close>

fun code_bytes :: "nat \<Rightarrow> instruction list \<Rightarrow> u1 list \<Rightarrow> bool" where
  "code_bytes pos [] bs \<longleftrightarrow> bs = []"
| "code_bytes pos (n # ns) bs \<longleftrightarrow>
     (\<exists>b1 b2. bs = b1 @ b2 \<and> ins_bytes n b1 \<and> wf_ins n \<and> ins_offset n = of_nat pos \<and>
       code_bytes (pos + length b1) ns b2)"

lemma instruction_list_append_ok:
  "instruction_list_append mem list node = (CLASSFILE_OK, list') \<Longrightarrow>
   il_items list' = il_items list @ [node] \<and> il_code_length list' = il_code_length list"
  by (auto simp: instruction_list_append_def instruction_list_reserve_def split: if_splits prod.splits)

lemma instruction_list_append_total:
  "alloc_total mem \<Longrightarrow> fst (instruction_list_append mem list node) = CLASSFILE_OK"
  by (auto simp: instruction_list_append_def instruction_list_reserve_def alloc_total_def)

lemma instruction_list_parse_loop_sound:
  "instruction_list_parse_loop mem c list = Inr (list', c') \<Longrightarrow> cur_ok c \<Longrightarrow>
   cur_ok c' \<and> byte_cursor_exhausted c' \<and> il_code_length list' = il_code_length list \<and>
   (\<exists>ns bs. il_items list' = il_items list @ ns \<and> code_bytes (cur_pos c) ns bs \<and> spans c bs c')"
proof (induction mem c list rule: instruction_list_parse_loop.induct)
  case (1 mem c list)
  show ?case
  proof (cases "byte_cursor_exhausted c")
    case True
    with "1.prems" show ?thesis
      by (auto simp: instruction_list_parse_loop.simps [of mem c list])
  next
    case False
    obtain st l where l: "instruction_list_append mem list instruction_zero = (st, l)" by (metis surj_pair)
    from False "1.prems" l obtain node d where st: "st = CLASSFILE_OK"
      and p: "parse_instruction mem c = Inr (node, d)"
      and rest: "instruction_list_parse_loop mem d (il_set_last l node) = Inr (list', c')"
      by (auto simp: instruction_list_parse_loop.simps [of mem c list] byte_cursor_ok_def
          split: if_splits sum.splits)
    note ps = parse_instruction_sound [OF p]
    from ps(3) obtain b1 where b1: "spans c b1 d" "ins_bytes node b1" by blast
    have il: "il_items (il_set_last l node) = il_items list @ [node]"
      "il_code_length (il_set_last l node) = il_code_length list"
      using instruction_list_append_ok [OF l [unfolded st]] by (simp_all add: il_set_last_def)
    have "cur_ok c' \<and> byte_cursor_exhausted c' \<and> il_code_length list' = il_code_length (il_set_last l node) \<and>
      (\<exists>ns bs. il_items list' = il_items (il_set_last l node) @ ns \<and> code_bytes (cur_pos d) ns bs \<and> spans d bs c')"
      using "1.IH" [OF _ l [symmetric] _ p] False "1.prems"(2) st rest spans_ok [OF b1(1)]
      by (auto simp: byte_cursor_ok_def)
    then obtain ns bs where n: "cur_ok c'" "byte_cursor_exhausted c'" "il_code_length list' = il_code_length list"
      "il_items list' = il_items list @ node # ns" "code_bytes (cur_pos d) ns bs" "spans d bs c'"
      using il by auto
    have "code_bytes (cur_pos c) (node # ns) (b1 @ bs)"
      using n(5) ps(1,2) b1 spans_length [OF b1(1)] by auto
    with n spans_trans [OF b1(1) n(6)] show ?thesis by blast
  qed
qed

lemma ins_bytes_not_Nil: "ins_bytes n bs \<Longrightarrow> bs \<noteq> []"
  by (auto simp: ins_bytes_def)

lemma instruction_list_parse_loop_complete:
  assumes "code_bytes (cur_pos c) ns bs" "spans c bs c'" "byte_cursor_exhausted c'" "alloc_total mem"
  shows "\<exists>list'. instruction_list_parse_loop mem c list = Inr (list', c') \<and>
    il_items list' = il_items list @ ns \<and> il_code_length list' = il_code_length list"
  using assms
proof (induction ns arbitrary: c bs list)
  case Nil
  then show ?case by (auto simp: instruction_list_parse_loop.simps [of mem c list])
next
  case (Cons n ns)
  from Cons.prems(1) obtain b1 b2 where b: "bs = b1 @ b2" "ins_bytes n b1" "wf_ins n"
    "ins_offset n = of_nat (cur_pos c)" "code_bytes (cur_pos c + length b1) ns b2" by auto
  from Cons.prems(2) b(1) obtain d where d: "spans c b1 d" "spans d b2 c'" by (auto simp: spans_append)
  note p = parse_instruction_complete [OF d(1) b(2-4) assms(4)]
  have ne: "\<not> byte_cursor_exhausted c"
    using parse_instruction_advances [OF p] by (auto simp: byte_cursor_exhausted_def)
  obtain l where l: "instruction_list_append mem list instruction_zero = (CLASSFILE_OK, l)"
    using instruction_list_append_total [OF assms(4), of list instruction_zero]
    by (cases "instruction_list_append mem list instruction_zero") auto
  have il: "il_items (il_set_last l n) = il_items list @ [n]"
    "il_code_length (il_set_last l n) = il_code_length list"
    using instruction_list_append_ok [OF l] by (simp_all add: il_set_last_def)
  have "code_bytes (cur_pos d) ns b2" using b(5) spans_length [OF d(1)] by simp
  from Cons.IH [OF this d(2) Cons.prems(3,4), of "il_set_last l n"] il ne l p spans_ok [OF d(1)]
  show ?case by (auto simp: instruction_list_parse_loop.simps [of mem c list] byte_cursor_ok_def)
qed

lemma instruction_list_parse_sound:
  assumes "instruction_list_parse mem code = Inr list"
  shows "code_bytes 0 (il_items list) code" "il_code_length list = of_nat (length code)"
proof -
  let ?c = "byte_cursor_init code"
  from assms obtain c' where
    "instruction_list_parse_loop mem ?c (instruction_list_init\<lparr>il_code_length := of_nat (length code)\<rparr>) = Inr (list, c')"
    by (auto simp: instruction_list_parse_def split: sum.splits prod.splits if_splits)
  from instruction_list_parse_loop_sound [OF this] obtain ns bs where
    "byte_cursor_exhausted c'" "il_code_length list = of_nat (length code)" "il_items list = ns"
    "code_bytes 0 ns bs" "spans ?c bs c'"
    by (auto simp: byte_cursor_init_def instruction_list_init_def)
  with spans_exhausted [of code bs c']
  show "code_bytes 0 (il_items list) code" "il_code_length list = of_nat (length code)" by auto
qed

lemma instruction_list_parse_complete:
  assumes "code_bytes 0 ns code" "alloc_total mem"
  shows "\<exists>list. instruction_list_parse mem code = Inr list \<and> il_items list = ns \<and>
    il_code_length list = of_nat (length code)"
proof -
  let ?c = "byte_cursor_init code"
  obtain c' where c': "spans ?c code c'" "byte_cursor_exhausted c'"
    by (auto simp: spans_whole byte_cursor_exhausted_def)
  from assms(1) have "code_bytes (cur_pos ?c) ns code" by (simp add: byte_cursor_init_def)
  from instruction_list_parse_loop_complete [OF this c' assms(2),
      of "instruction_list_init\<lparr>il_code_length := of_nat (length code)\<rparr>"] spans_ok [OF c'(1)]
  show ?thesis by (auto simp: instruction_list_parse_def byte_cursor_ok_def instruction_list_init_def)
qed

end
