(* ===== verification/Instruction_Writer.thy ===== *)
theory Instruction_Writer
  imports Instructions
begin

text \<open>
  The second half of \<^verbatim>\<open>visitors/instruction.c\<close>: recomputing offsets after an
  edit and encoding the list. The loop that pads a switch tests the size of the
  buffer, which stops growing once an allocation has failed; it is a partial
  function, and \<open>None\<close> is the run that never ends.
\<close>

section \<open>Offsets\<close>

text \<open>One pass of the outer loop: the new nodes, the end offset, whether anything changed.\<close>

fun recompute_pass :: "u4 \<Rightarrow> instruction list \<Rightarrow> instruction list \<times> u4 \<times> bool" where
  "recompute_pass offset [] = ([], offset, False)"
| "recompute_pass offset (n # ns) =
     (let (ns', end_offset, changed) = recompute_pass (offset + instruction_length_at n offset) ns in
      if ins_offset n \<noteq> offset then (n\<lparr>ins_offset := offset\<rparr> # ns', end_offset, True)
      else (n # ns', end_offset, changed))"

lemma instruction_length_at_offset [simp]:
  "instruction_length_at (n\<lparr>ins_offset := x\<rparr>) offset = instruction_length_at n offset"
  by (cases "ins_kind n") (simp_all add: instruction_length_at_def instruction_switch_entries_def)

text \<open>The second pass confirms the first: a length depends on where the pass puts the node only.\<close>

lemma recompute_pass_stable:
  "recompute_pass offset ns = (ns', e, ch) \<Longrightarrow> recompute_pass offset ns' = (ns', e, False)"
proof (induction ns arbitrary: offset ns' e ch)
  case (Cons n ns)
  obtain ms e' ch' where r: "recompute_pass (offset + instruction_length_at n offset) ns = (ms, e', ch')"
    by (metis prod_cases3)
  from Cons.IH [OF r] Cons.prems r show ?case by (auto split: if_splits)
qed simp

lemma recompute_pass_unchanged:
  "recompute_pass offset ns = (ns', e, False) \<Longrightarrow> ns' = ns"
proof (induction ns arbitrary: offset ns' e)
  case (Cons n ns)
  obtain ms e' ch' where r: "recompute_pass (offset + instruction_length_at n offset) ns = (ms, e', ch')"
    by (metis prod_cases3)
  from Cons.IH [of _ ms e'] Cons.prems r show ?case by (auto split: if_splits)
qed simp

function instruction_list_recompute_offsets :: "instruction_list \<Rightarrow> instruction_list" where
  "instruction_list_recompute_offsets list =
     (let (ns, offset, changed) = recompute_pass 0 (il_items list);
          list = list\<lparr>il_items := ns, il_code_length := offset\<rparr>
      in if \<not> changed then list else instruction_list_recompute_offsets list)"
  by pat_completeness auto
termination
proof (relation "measure (\<lambda>list. if snd (snd (recompute_pass 0 (il_items list))) then 1 else 0)")
  fix list x ns y offset changed list'
  assume "x = recompute_pass 0 (il_items list)" "(ns, y) = x" "(offset, changed) = y"
    and l: "list' = list\<lparr>il_items := ns, il_code_length := offset\<rparr>" and "\<not> \<not> changed"
  then have r: "recompute_pass 0 (il_items list) = (ns, offset, True)" by auto
  from recompute_pass_stable [OF r] r l
  show "(list', list) \<in> measure (\<lambda>list. if snd (snd (recompute_pass 0 (il_items list))) then 1 else 0)"
    by simp
qed simp

declare instruction_list_recompute_offsets.simps [simp del]

section \<open>Encoding\<close>

partial_function (option) write_padding :: "alloc \<Rightarrow> byte_buffer \<Rightarrow> byte_buffer option" where
  "write_padding mem b =
     (if buf_size b mod 4 \<noteq> 0 then write_padding mem (byte_buffer_u1 mem 0 b) else Some b)"

declare write_padding.simps [code]

definition encode_operand ::
  "alloc \<Rightarrow> instruction \<Rightarrow> u4 \<Rightarrow> byte_buffer \<Rightarrow> (classfile_status \<times> byte_buffer) option" where
  "encode_operand mem node offset b =
     (case ins_u node of
        Op_None \<Rightarrow> Some (CLASSFILE_OK, b)
      | Op_Immediate v \<Rightarrow>
          Some (CLASSFILE_OK,
            if ins_opcode node = JVM_OPC_sipush then byte_buffer_u2 mem (of_int v) b
            else byte_buffer_u1 mem (of_int v) b)
      | Op_Local i \<Rightarrow>
          Some (CLASSFILE_OK,
            if ins_wide node then byte_buffer_u2 mem i b else byte_buffer_u1 mem (ucast i) b)
      | Op_Iinc i k \<Rightarrow>
          Some (CLASSFILE_OK,
            if ins_wide node then byte_buffer_u2 mem (of_int k) (byte_buffer_u2 mem i b)
            else byte_buffer_u1 mem (of_int k) (byte_buffer_u1 mem (ucast i) b))
      | Op_Constant i \<Rightarrow>
          Some (CLASSFILE_OK,
            if ins_opcode node = JVM_OPC_ldc then byte_buffer_u1 mem (ucast i) b
            else byte_buffer_u2 mem i b)
      | Op_CpIndex i \<Rightarrow> Some (CLASSFILE_OK, byte_buffer_u2 mem i b)
      | Op_InvokeInterface i n z \<Rightarrow>
          Some (CLASSFILE_OK, byte_buffer_u1 mem z (byte_buffer_u1 mem n (byte_buffer_u2 mem i b)))
      | Op_InvokeDynamic i z \<Rightarrow> Some (CLASSFILE_OK, byte_buffer_u2 mem z (byte_buffer_u2 mem i b))
      | Op_Multianewarray i n \<Rightarrow> Some (CLASSFILE_OK, byte_buffer_u1 mem n (byte_buffer_u2 mem i b))
      | Op_Branch t \<Rightarrow>
          let delta = t - uint offset in
          if delta < - 32768 \<or> delta > 32767 then Some (CLASSFILE_ERR_BRANCH_RANGE, b)
          else Some (CLASSFILE_OK, byte_buffer_u2 mem (of_int delta) b)
      | Op_BranchWide t \<Rightarrow>
          let delta = t - uint offset in
          if \<not> i4_range delta then Some (CLASSFILE_ERR_BRANCH_RANGE, b)
          else Some (CLASSFILE_OK, byte_buffer_u4 mem (of_int delta) b)
      | Op_TableSwitch d low high ts \<Rightarrow>
          (case write_padding mem b of
             None \<Rightarrow> None
           | Some b \<Rightarrow>
               let b = byte_buffer_u4 mem (of_int (i4_delta d offset)) b;
                   b = byte_buffer_u4 mem (of_int low) b;
                   b = byte_buffer_u4 mem (of_int high) b
               in Some (CLASSFILE_OK,
                    fold (\<lambda>t. byte_buffer_u4 mem (of_int (i4_delta t offset)))
                      (take (unat (instruction_switch_entries node)) ts) b))
      | Op_LookupSwitch d ps \<Rightarrow>
          (case write_padding mem b of
             None \<Rightarrow> None
           | Some b \<Rightarrow>
               let b = byte_buffer_u4 mem (of_int (i4_delta d offset)) b;
                   b = byte_buffer_u4 mem (of_nat (length ps)) b
               in Some (CLASSFILE_OK,
                    fold (\<lambda>p b. byte_buffer_u4 mem (of_int (i4_delta (pair_target p) offset))
                                  (byte_buffer_u4 mem (of_int (pair_match p)) b)) ps b)))"

definition encode_instruction ::
  "alloc \<Rightarrow> instruction \<Rightarrow> byte_buffer \<Rightarrow> (classfile_status \<times> byte_buffer) option" where
  "encode_instruction mem node b =
     (let offset = of_nat (buf_size b);
          b = (if ins_wide node then byte_buffer_u1 mem JVM_OPC_wide b else b);
          b = byte_buffer_u1 mem (ins_opcode node) b
      in encode_operand mem node offset b)"

fun encode_loop ::
  "alloc \<Rightarrow> instruction list \<Rightarrow> byte_buffer \<Rightarrow> (classfile_status \<times> byte_buffer) option" where
  "encode_loop mem [] b = Some (CLASSFILE_OK, b)"
| "encode_loop mem (n # ns) b =
     (case encode_instruction mem n b of
        None \<Rightarrow> None
      | Some (status, b) \<Rightarrow>
          if status \<noteq> CLASSFILE_OK then Some (status, b) else encode_loop mem ns b)"

definition instruction_list_encode ::
  "alloc \<Rightarrow> instruction_list \<Rightarrow> (classfile_status + u1 list) option" where
  "instruction_list_encode mem list =
     (let b = byte_buffer_reserve mem byte_buffer_init
                (if il_code_length list \<noteq> 0 then unat (il_code_length list) else 64)
      in case encode_loop mem (il_items list) b of
           None \<Rightarrow> None
         | Some (status, b) \<Rightarrow>
             Some (if status \<noteq> CLASSFILE_OK then Inl status
                   else if \<not> byte_buffer_ok b then Inl CLASSFILE_ERR_OUT_OF_MEMORY
                   else if buf_size b > JVM_MAX_CODE_LENGTH then Inl CLASSFILE_ERR_CODE_TOO_LARGE
                   else Inr (fst (byte_buffer_release b))))"

definition instruction_list_at_offset :: "instruction_list \<Rightarrow> u4 \<Rightarrow> instruction option" where
  "instruction_list_at_offset list offset = find (\<lambda>n. ins_offset n = offset) (il_items list)"

subsection \<open>Padding\<close>

lemma write_padding_sound:
  "write_padding mem b = Some b' \<Longrightarrow> buf_ok b' \<longrightarrow>
     buf_ok b \<and> buf_data b' = buf_data b @ replicate (to_multiple_of_4 (buf_size b)) 0"
proof (induction mem b b' rule: write_padding.raw_induct [rotated, consumes 1, case_names step])
  case (step wp mem b b')
  show ?case
  proof (cases "buf_size b mod 4 = 0")
    case True
    with step show ?thesis by (simp add: to_multiple_of_4_0)
  next
    case False
    with step have IH: "buf_ok b' \<longrightarrow> buf_ok (byte_buffer_u1 mem 0 b) \<and> buf_data b' =
      buf_data (byte_buffer_u1 mem 0 b) @ replicate (to_multiple_of_4 (buf_size (byte_buffer_u1 mem 0 b))) 0"
      by simp
    have "buf_ok (byte_buffer_u1 mem 0 b) \<longrightarrow>
        buf_ok b \<and> buf_data (byte_buffer_u1 mem 0 b) = buf_data b @ [0]"
      using emits_ok [OF emits_u1, of mem 0 b] by (simp add: be1_def)
    with IH to_multiple_of_4_Suc [OF False] show ?thesis by auto
  qed
qed

lemma write_padding_total:
  assumes "alloc_total mem" "buf_ok b"
  shows "\<exists>b'. write_padding mem b = Some b' \<and> buf_ok b'"
  using assms(2)
proof (induction "to_multiple_of_4 (buf_size b)" arbitrary: b)
  case 0
  then have "buf_size b mod 4 = 0" using to_multiple_of_4_Suc [of "buf_size b"] by fastforce
  with 0 show ?case by (simp add: write_padding.simps [of mem b])
next
  case (Suc k)
  then have m: "buf_size b mod 4 \<noteq> 0" using to_multiple_of_4_0 [of "buf_size b"] by fastforce
  have b0: "buf_ok (byte_buffer_u1 mem 0 b)"
    by (rule emits_succeeds [OF emits_u1 assms(1) Suc.prems])
  with emits_ok [OF emits_u1 b0] have b1: "buf_size (byte_buffer_u1 mem 0 b) = Suc (buf_size b)" by simp
  from Suc.hyps(1) [of "byte_buffer_u1 mem 0 b"] Suc.hyps(2) b0 b1 to_multiple_of_4_Suc [OF m] m
  show ?case by (simp add: write_padding.simps [of mem b])
qed

lemma write_padding_diverges:
  assumes "\<not> buf_ok b" "buf_size b mod 4 \<noteq> 0"
  shows "write_padding mem b = None"
proof -
  have *: "\<not> (\<not> buf_ok b \<and> buf_size b mod 4 \<noteq> 0)" if "write_padding mem b = Some b'" for b b'
    using that
  proof (induction mem b b' rule: write_padding.raw_induct [rotated, consumes 1, case_names step])
    case (step wp mem b b')
    have "\<not> buf_ok b \<Longrightarrow> byte_buffer_u1 mem 0 b = b"
      by (simp add: byte_buffer_u1_def byte_buffer_reserve_def)
    with step show ?case by metis
  qed
  show ?thesis
  proof (cases "write_padding mem b")
    case (Some a)
    with * [OF Some] assms show ?thesis by simp
  qed
qed


subsection \<open>One instruction\<close>

text \<open>What the encoder checks: a branch reaches its target, a switch is not cut at the code limit.\<close>

fun encodable :: "u4 \<Rightarrow> operand \<Rightarrow> bool" where
  "encodable offset (Op_Branch t) \<longleftrightarrow> - 32768 \<le> t - uint offset \<and> t - uint offset \<le> 32767"
| "encodable offset (Op_BranchWide t) \<longleftrightarrow> i4_range (t - uint offset)"
| "encodable offset (Op_TableSwitch d low high ts) \<longleftrightarrow>
     high - low + 1 \<le> int JVM_MAX_CODE_LENGTH \<and> int (length ts) = high - low + 1"
| "encodable offset _ \<longleftrightarrow> True"

lemma of_int_i4_delta [simp]: "(of_int (i4_delta t offset) :: u4) = of_int t - offset"
  by (simp add: i4_delta_def)

lemma encode_operand_plain:
  assumes "\<not> is_switch (ins_u node)" "encodable offset (ins_u node)"
  shows "\<exists>f. (\<forall>b. encode_operand mem node offset b = Some (CLASSFILE_OK, f b)) \<and>
    emits mem f (enc_operand (ins_opcode node) (ins_wide node) offset (ins_u node))"
proof -
  note forms = emits_id emits_u1 emits_u2 emits_u4 emits_comp [OF emits_u2 emits_u2]
    emits_comp [OF emits_u1 emits_u1] emits_comp [OF emits_u2 emits_u1]
    emits_comp [OF emits_comp [OF emits_u2 emits_u1] emits_u1, simplified]
  show ?thesis
    using assms forms
    by (cases "ins_u node") (auto simp: encode_operand_def is_switch_def Let_def intro!: exI)
qed

lemma table_entries:
  assumes "ins_u node = Op_TableSwitch d low high ts" "encodable offset (ins_u node)"
  shows "unat (instruction_switch_entries node) = length ts"
proof (cases "high < low")
  case True
  have "int (length ts) = high - low + 1" using assms by simp
  with True have "length ts = 0" by linarith
  with assms(1) True show ?thesis by (simp add: instruction_switch_entries_def)
next
  case False
  have "int (length ts) = high - low + 1" using assms by simp
  from arg_cong [OF this, of "of_int :: int \<Rightarrow> u4"]
  have "(of_nat (length ts) :: u4) = of_int high - of_int low + 1" by simp
  with False assms have e: "instruction_switch_entries node = of_nat (length ts)"
    by (simp add: instruction_switch_entries_def Let_def)
  have "length ts \<le> 65535" using assms by (simp add: JVM_MAX_CODE_LENGTH_def)
  with e show ?thesis by simp
qed

lemma encode_operand_switch:
  assumes "is_switch (ins_u node)" "encodable offset (ins_u node)"
  shows "\<exists>f. (\<forall>b. encode_operand mem node offset b = map_option (\<lambda>b. (CLASSFILE_OK, f b)) (write_padding mem b)) \<and>
    emits mem f (enc_operand (ins_opcode node) (ins_wide node) offset (ins_u node))"
proof (cases "ins_u node")
  case (Op_TableSwitch d low high ts)
  let ?f = "\<lambda>b. fold (\<lambda>t. byte_buffer_u4 mem (of_int t - offset)) ts (byte_buffer_u4 mem (of_int high)
      (byte_buffer_u4 mem (of_int low) (byte_buffer_u4 mem (of_int d - offset) b)))"
  have "\<forall>b. encode_operand mem node offset b = map_option (\<lambda>b. (CLASSFILE_OK, ?f b)) (write_padding mem b)"
    using table_entries [OF Op_TableSwitch assms(2)]
    by (auto simp: encode_operand_def Op_TableSwitch Let_def split: option.splits)
  moreover have "emits mem ?f (enc_operand (ins_opcode node) (ins_wide node) offset (ins_u node))"
    using emits_comp [OF emits_comp [OF emits_comp [OF emits_u4 [of mem "of_int d - offset"]
        emits_u4 [of mem "of_int low"]] emits_u4 [of mem "of_int high"]]
        emits_fold [of mem "\<lambda>t. byte_buffer_u4 mem (of_int t - offset)" "\<lambda>t. be4 (of_int t - offset)" ts,
          OF emits_u4]]
    by (simp add: Op_TableSwitch)
  ultimately show ?thesis by (intro exI [of _ ?f] conjI)
next
  case (Op_LookupSwitch d ps)
  let ?g = "\<lambda>p b. byte_buffer_u4 mem (of_int (pair_target p) - offset)
      (byte_buffer_u4 mem (of_int (pair_match p)) b)"
  let ?f = "\<lambda>b. fold ?g ps (byte_buffer_u4 mem (of_nat (length ps)) (byte_buffer_u4 mem (of_int d - offset) b))"
  have "\<forall>b. encode_operand mem node offset b = map_option (\<lambda>b. (CLASSFILE_OK, ?f b)) (write_padding mem b)"
    by (auto simp: encode_operand_def Op_LookupSwitch Let_def split: option.splits)
  moreover have "emits mem ?f (enc_operand (ins_opcode node) (ins_wide node) offset (ins_u node))"
    using emits_comp [OF emits_comp [OF emits_u4 [of mem "of_int d - offset"]
        emits_u4 [of mem "of_nat (length ps)"]]
        emits_fold [of mem ?g "\<lambda>p. be4 (of_int (pair_match p)) @ be4 (of_int (pair_target p) - offset)" ps,
          OF emits_comp [OF emits_u4 emits_u4]]]
    by (simp add: Op_LookupSwitch)
  ultimately show ?thesis by (intro exI [of _ ?f] conjI)
qed (use assms(1) in \<open>simp_all add: is_switch_def\<close>)

lemma encode_opcode_emits:
  "emits mem (\<lambda>b. byte_buffer_u1 mem (ins_opcode node)
     (if ins_wide node then byte_buffer_u1 mem JVM_OPC_wide b else b)) (enc_opcode node)"
  using emits_comp [OF emits_u1 [of mem JVM_OPC_wide] emits_u1 [of mem "ins_opcode node"]]
    emits_u1 [of mem "ins_opcode node"] by (simp add: enc_opcode_def)

lemma encode_instruction_sound:
  assumes "encode_instruction mem node b = Some (CLASSFILE_OK, b')" "buf_ok b'" "wf_ins node"
    "encodable (ins_offset node) (ins_u node)" "ins_offset node = of_nat (buf_size b)"
  shows "buf_ok b \<and> buf_data b' = buf_data b @ enc_ins node"
proof -
  let ?h = "\<lambda>b. byte_buffer_u1 mem (ins_opcode node)
     (if ins_wide node then byte_buffer_u1 mem JVM_OPC_wide b else b)"
  have e: "encode_operand mem node (ins_offset node) (?h b) = Some (CLASSFILE_OK, b')"
    using assms(1,5) by (simp add: encode_instruction_def Let_def)
  show ?thesis
  proof (cases "is_switch (ins_u node)")
    case False
    from encode_operand_plain [OF this assms(4), of mem] obtain f where
      f: "\<forall>b. encode_operand mem node (ins_offset node) b = Some (CLASSFILE_OK, f b)"
      "emits mem f (enc_node_operand node)" by (auto simp: enc_node_operand_def)
    with e have "b' = f (?h b)" by simp
    with emits_ok [OF emits_comp [OF encode_opcode_emits f(2)], of node b] assms(2) False show ?thesis
      by (simp add: enc_ins_def pad_len_def)
  next
    case True
    from encode_operand_switch [OF this assms(4), of mem] obtain f where
      f: "\<forall>b. encode_operand mem node (ins_offset node) b = map_option (\<lambda>b. (CLASSFILE_OK, f b)) (write_padding mem b)"
      "emits mem f (enc_node_operand node)" by (auto simp: enc_node_operand_def)
    with e obtain p where p: "write_padding mem (?h b) = Some p" "b' = f p" by auto
    from emits_ok [OF f(2)] p(2) assms(2) have f': "buf_ok p" "buf_data b' = buf_data p @ enc_node_operand node"
      by auto
    from write_padding_sound [OF p(1)] f'(1) have pd: "buf_ok (?h b)"
      "buf_data p = buf_data (?h b) @ replicate (to_multiple_of_4 (buf_size (?h b))) 0" by auto
    from emits_ok [OF encode_opcode_emits pd(1)] have h: "buf_ok b" "buf_data (?h b) = buf_data b @ enc_opcode node"
      by auto
    have "\<not> ins_wide node" using True assms(3) by (auto simp: wf_ins_def is_switch_def)
    then have "to_multiple_of_4 (buf_size (?h b)) = pad_len node"
      using True h(2) assms(5) by (simp add: pad_len_def unat_switch_padding enc_opcode_def)
    with h pd f' show ?thesis by (simp add: enc_ins_def)
  qed
qed

lemma encode_instruction_total:
  assumes "alloc_total mem" "buf_ok b" "encodable (of_nat (buf_size b)) (ins_u node)"
  shows "\<exists>b'. encode_instruction mem node b = Some (CLASSFILE_OK, b') \<and> buf_ok b'"
proof -
  let ?o = "of_nat (buf_size b) :: u4"
  let ?h = "byte_buffer_u1 mem (ins_opcode node) (if ins_wide node then byte_buffer_u1 mem JVM_OPC_wide b else b)"
  have ok: "buf_ok ?h" using emits_succeeds [OF encode_opcode_emits assms(1,2), of node] by simp
  have e: "encode_instruction mem node b = encode_operand mem node ?o ?h"
    by (simp add: encode_instruction_def Let_def)
  show ?thesis
  proof (cases "is_switch (ins_u node)")
    case False
    from encode_operand_plain [OF this assms(3), of mem] e ok assms(1) show ?thesis
      by (auto intro: emits_succeeds)
  next
    case True
    from write_padding_total [OF assms(1) ok] obtain p where "write_padding mem ?h = Some p" "buf_ok p" by blast
    with encode_operand_switch [OF True assms(3), of mem] e assms(1) show ?thesis
      by (auto intro: emits_succeeds)
  qed
qed


subsection \<open>Lengths\<close>

text \<open>What an edit of the list must keep for lengths to be right: everything but the branch ranges.\<close>

definition ins_shape :: "instruction \<Rightarrow> bool" where
  "ins_shape node \<longleftrightarrow>
     instruction_opcode_is_defined (ins_opcode node) \<and> ins_opcode node \<noteq> JVM_OPC_wide \<and>
     ins_kind node = instruction_kind_of (ins_opcode node) \<and>
     (ins_wide node \<longrightarrow> ins_kind node \<in> {OPERAND_LOCAL, OPERAND_IINC}) \<and>
     (case ins_u node of
        Op_TableSwitch d low high ts \<Rightarrow>
          int (length ts) = high - low + 1 \<and> length ts \<le> JVM_MAX_CODE_LENGTH
      | Op_LookupSwitch d ps \<Rightarrow> length ps \<le> JVM_MAX_CODE_LENGTH
      | _ \<Rightarrow> True)"

definition plain_length :: "u1 \<Rightarrow> u4 \<Rightarrow> u4" where
  "plain_length opcode other =
     (case instruction_kind_of opcode of
        OPERAND_NONE \<Rightarrow> 1
      | OPERAND_IMMEDIATE \<Rightarrow> (if opcode = JVM_OPC_sipush then 3 else 2)
      | OPERAND_CONSTANT \<Rightarrow> (if opcode = JVM_OPC_ldc then 2 else 3)
      | OPERAND_CP_INDEX \<Rightarrow> 3
      | OPERAND_INVOKE_INTERFACE \<Rightarrow> 5
      | OPERAND_INVOKE_DYNAMIC \<Rightarrow> 5
      | OPERAND_MULTIANEWARRAY \<Rightarrow> 4
      | OPERAND_BRANCH \<Rightarrow> 3
      | OPERAND_BRANCH_WIDE \<Rightarrow> 5
      | _ \<Rightarrow> other)"

text \<open>The length table agrees with the operand kinds on every opcode but the prefix.\<close>

lemma opcode_table_checked:
  "list_all (\<lambda>(k, v). k = 196 \<or> v = plain_length (of_int k) v) (zip [0..201] opcode_length_table)"
  by code_simp

lemma opcode_table_length: "length opcode_length_table = 202"
  by (simp add: opcode_length_table_def)

lemma opcode_table:
  assumes "instruction_opcode_is_defined opcode" "opcode \<noteq> JVM_OPC_wide"
  shows "opcode_length_table ! unat opcode = plain_length opcode (opcode_length_table ! unat opcode)"
proof -
  let ?k = "unat opcode"
  have k: "?k < 202" using assms(1) by (simp add: instruction_opcode_is_defined_def word_le_nat_alt)
  have "[0..201] ! ?k = int ?k" using nth_upto [of 0 ?k 201] k by (simp del: of_nat_unat)
  with k have "zip [0..201] opcode_length_table ! ?k = (int ?k, opcode_length_table ! ?k)"
    by (simp add: opcode_table_length)
  moreover have "?k < length (zip [0..201 :: int] opcode_length_table)"
    using k by (simp add: opcode_table_length)
  ultimately have "int ?k = 196 \<or> opcode_length_table ! ?k = plain_length (of_int (int ?k)) (opcode_length_table ! ?k)"
    using opcode_table_checked unfolding list_all_length by fastforce
  moreover have "int ?k \<noteq> 196" using assms(2) by (metis of_nat_numeral of_nat_eq_iff of_nat_unat ucast_id)
  ultimately show ?thesis by simp
qed

lemma length_enc_ins:
  assumes "ins_shape node"
  shows "length (enc_ins node) = unat (instruction_length_at node (ins_offset node))"
proof -
  have t: "opcode_length_table ! unat (ins_opcode node) =
      plain_length (ins_opcode node) (opcode_length_table ! unat (ins_opcode node))"
    using assms opcode_table by (simp add: ins_shape_def)
  have pad: "unat (switch_padding x) \<le> 3" for x
    using unat_switch_padding [of "unat x"] by (simp add: to_multiple_of_4_def)
  note defs = enc_ins_def enc_opcode_def enc_node_operand_def pad_len_def is_switch_def
    instruction_length_at_def plain_length_def
  show ?thesis
  proof (cases "ins_u node")
    case (Op_TableSwitch d low high ts)
    then have sh: "int (length ts) = high - low + 1" "length ts \<le> 65535" "\<not> ins_wide node"
      using assms by (auto simp: ins_shape_def JVM_MAX_CODE_LENGTH_def)
    have e: "unat (instruction_switch_entries node) = length ts"
      using table_entries [OF Op_TableSwitch, of "ins_offset node"] sh Op_TableSwitch
      by (simp add: JVM_MAX_CODE_LENGTH_def)
    have "unat (1 + switch_padding (ins_offset node) + 12 + instruction_switch_entries node * 4) =
        13 + unat (switch_padding (ins_offset node)) + 4 * length ts"
      using e sh(2) pad [of "ins_offset node"] by (simp add: unat_word_ariths)
    with Op_TableSwitch sh(3) show ?thesis by (simp add: defs length_concat_be4)
  next
    case (Op_LookupSwitch d ps)
    then have sh: "length ps \<le> 65535" "\<not> ins_wide node"
      using assms by (auto simp: ins_shape_def JVM_MAX_CODE_LENGTH_def)
    have e: "instruction_switch_entries node = of_nat (length ps)"
      by (simp add: Op_LookupSwitch instruction_switch_entries_def)
    have "unat (1 + switch_padding (ins_offset node) + 8 + instruction_switch_entries node * 8) =
        9 + unat (switch_padding (ins_offset node)) + 8 * length ps"
      using e sh(1) pad [of "ins_offset node"] by (simp add: unat_word_ariths)
    with Op_LookupSwitch sh(2) show ?thesis by (simp add: defs length_concat_be8)
  qed (use assms t in \<open>auto simp: defs ins_shape_def\<close>)
qed


subsection \<open>The list\<close>

fun laid_out :: "nat \<Rightarrow> instruction list \<Rightarrow> bool" where
  "laid_out pos [] \<longleftrightarrow> True"
| "laid_out pos (n # ns) \<longleftrightarrow> ins_offset n = of_nat pos \<and> laid_out (pos + length (enc_ins n)) ns"

definition enc_list :: "instruction list \<Rightarrow> u1 list" where
  "enc_list ns = concat (map enc_ins ns)"

lemma enc_list_simps [simp]: "enc_list [] = []" "enc_list (n # ns) = enc_ins n @ enc_list ns"
  by (simp_all add: enc_list_def)

lemma enc_list_append: "enc_list (xs @ ys) = enc_list xs @ enc_list ys"
  by (simp add: enc_list_def)

lemma laid_out_append:
  "laid_out pos (xs @ ys) \<longleftrightarrow> laid_out pos xs \<and> laid_out (pos + length (enc_list xs)) ys"
  by (induction xs arbitrary: pos) (auto simp: add.assoc)

lemma ins_bytes_enc: "ins_bytes n (enc_ins n)"
  by (auto simp: ins_bytes_def enc_ins_def)

lemma ins_bytes_length: "ins_bytes n bs \<Longrightarrow> length bs = length (enc_ins n)"
  by (auto simp: ins_bytes_def enc_ins_def)

lemma code_bytes_iff:
  "code_bytes pos ns bs \<Longrightarrow> list_all wf_ins ns \<and> laid_out pos ns \<and> length bs = length (enc_list ns)"
  by (induction ns arbitrary: pos bs) (auto dest: ins_bytes_length)

lemma code_bytes_enc: "list_all wf_ins ns \<Longrightarrow> laid_out pos ns \<Longrightarrow> code_bytes pos ns (enc_list ns)"
proof (induction ns arbitrary: pos)
  case (Cons n ns)
  then show ?case using ins_bytes_enc [of n] by auto
qed simp

text \<open>A buffer that has latched stays latched through the rest of the list.\<close>

lemma buffer_write_latched:
  "buf_ok (byte_buffer_u1 mem x b) \<Longrightarrow> buf_ok b" "buf_ok (byte_buffer_u2 mem y b) \<Longrightarrow> buf_ok b"
  "buf_ok (byte_buffer_u4 mem z b) \<Longrightarrow> buf_ok b"
  using emits_ok [OF emits_u1] emits_ok [OF emits_u2] emits_ok [OF emits_u4] by blast+

lemma fold_latched:
  assumes "\<And>x b. buf_ok (f x b) \<Longrightarrow> buf_ok b"
  shows "buf_ok (fold f xs b) \<Longrightarrow> buf_ok b"
  by (induction xs arbitrary: b) (auto dest: assms)

lemma fold_u4_latched:
  "buf_ok (fold (\<lambda>t. byte_buffer_u4 mem (g t)) xs b) \<Longrightarrow> buf_ok b"
  "buf_ok (fold (\<lambda>p b. byte_buffer_u4 mem (g p) (byte_buffer_u4 mem (h p) b)) xs b) \<Longrightarrow> buf_ok b"
  by (erule fold_latched [rotated], blast dest: buffer_write_latched)+

lemma write_padding_latched: "write_padding mem b = Some b' \<Longrightarrow> buf_ok b' \<Longrightarrow> buf_ok b"
  using write_padding_sound by blast

lemma encode_operand_latched:
  assumes "encode_operand mem node offset b = Some (st, b')" "buf_ok b'"
  shows "buf_ok b"
  using assms
  by (cases "ins_u node")
     (auto simp: encode_operand_def Let_def split: if_splits option.splits
           dest!: fold_u4_latched dest: buffer_write_latched write_padding_latched)

lemma encode_loop_latched:
  "encode_loop mem ns b = Some (st, b') \<Longrightarrow> buf_ok b' \<Longrightarrow> buf_ok b"
proof (induction ns arbitrary: b)
  case (Cons n ns)
  then show ?case
    by (auto simp: encode_instruction_def Let_def split: option.splits prod.splits if_splits
        dest: encode_operand_latched buffer_write_latched)
qed simp

lemma encode_loop_sound:
  "encode_loop mem ns b = Some (CLASSFILE_OK, b') \<Longrightarrow> buf_ok b' \<Longrightarrow> list_all wf_ins ns \<Longrightarrow>
   list_all (\<lambda>n. encodable (ins_offset n) (ins_u n)) ns \<Longrightarrow> laid_out (buf_size b) ns \<Longrightarrow>
   buf_ok b \<and> buf_data b' = buf_data b @ enc_list ns"
proof (induction ns arbitrary: b)
  case (Cons n ns)
  from Cons.prems(1) obtain d where d: "encode_instruction mem n b = Some (CLASSFILE_OK, d)"
    "encode_loop mem ns d = Some (CLASSFILE_OK, b')"
    by (auto split: option.splits prod.splits if_splits)
  have "buf_ok d" using encode_loop_latched [OF d(2) Cons.prems(2)] .
  with encode_instruction_sound [OF d(1)] Cons.prems have
    "buf_ok b \<and> buf_data d = buf_data b @ enc_ins n" by auto
  with Cons.IH [OF d(2)] Cons.prems show ?case by auto
qed simp

lemma encode_loop_total:
  assumes "alloc_total mem"
  shows "buf_ok b \<Longrightarrow> list_all wf_ins ns \<Longrightarrow>
   list_all (\<lambda>n. encodable (ins_offset n) (ins_u n)) ns \<Longrightarrow> laid_out (buf_size b) ns \<Longrightarrow>
   \<exists>b'. encode_loop mem ns b = Some (CLASSFILE_OK, b') \<and> buf_ok b'"
proof (induction ns arbitrary: b)
  case (Cons n ns)
  then have off: "ins_offset n = of_nat (buf_size b)" by simp
  obtain d where d: "encode_instruction mem n b = Some (CLASSFILE_OK, d)" "buf_ok d"
    using encode_instruction_total [OF assms Cons.prems(1), of n] Cons.prems(3) off by auto
  from encode_instruction_sound [OF d] Cons.prems off have "buf_data d = buf_data b @ enc_ins n" by auto
  with Cons.IH [OF d(2)] Cons.prems d show ?case by auto
qed simp

text \<open>Everything the encoder relies on: nodes in order at their offsets, every branch in reach.\<close>

definition wf_list :: "instruction list \<Rightarrow> bool" where
  "wf_list ns \<longleftrightarrow> list_all wf_ins ns \<and> laid_out 0 ns \<and>
     list_all (\<lambda>n. encodable (ins_offset n) (ins_u n)) ns"

lemma instruction_list_encode_sound:
  assumes "instruction_list_encode mem list = Some (Inr bytes)" "wf_list (il_items list)"
  shows "bytes = enc_list (il_items list) \<and> length bytes \<le> JVM_MAX_CODE_LENGTH"
proof -
  let ?b = "byte_buffer_reserve mem byte_buffer_init
      (if il_code_length list \<noteq> 0 then unat (il_code_length list) else 64)"
  from assms(1) obtain b' where b': "encode_loop mem (il_items list) ?b = Some (CLASSFILE_OK, b')" "buf_ok b'"
    "length (buf_data b') \<le> JVM_MAX_CODE_LENGTH" "bytes = buf_data b'"
    by (auto simp: instruction_list_encode_def Let_def byte_buffer_ok_def byte_buffer_release_def
        split: option.splits if_splits)
  have "buf_data ?b = []" by (simp add: byte_buffer_init_def)
  with encode_loop_sound [OF b'(1,2)] assms(2) b' show ?thesis by (simp add: wf_list_def)
qed

lemma instruction_list_encode_total:
  assumes "alloc_total mem" "wf_list (il_items list)"
  shows "instruction_list_encode mem list =
    Some (if length (enc_list (il_items list)) > JVM_MAX_CODE_LENGTH then Inl CLASSFILE_ERR_CODE_TOO_LARGE
          else Inr (enc_list (il_items list)))"
proof -
  let ?b = "byte_buffer_reserve mem byte_buffer_init
      (if il_code_length list \<noteq> 0 then unat (il_code_length list) else 64)"
  have b: "buf_ok ?b" "buf_data ?b = []"
    using assms(1) by (simp_all add: byte_buffer_reserve_total byte_buffer_init_def)
  with encode_loop_total [OF assms(1) b(1)] assms(2) obtain b' where
    b': "encode_loop mem (il_items list) ?b = Some (CLASSFILE_OK, b')" "buf_ok b'"
    by (auto simp: wf_list_def)
  from encode_loop_sound [OF b'] assms(2) b(2) have "buf_data b' = enc_list (il_items list)"
    by (simp add: wf_list_def)
  with b' show ?thesis
    by (simp add: instruction_list_encode_def Let_def byte_buffer_ok_def byte_buffer_release_def)
qed


subsection \<open>Recomputed offsets\<close>

abbreviation strip_offset :: "instruction \<Rightarrow> instruction" where
  "strip_offset n \<equiv> n\<lparr>ins_offset := 0\<rparr>"

lemma ins_shape_offset [simp]: "ins_shape (n\<lparr>ins_offset := x\<rparr>) = ins_shape n"
  by (simp add: ins_shape_def)

lemma recompute_pass_spec:
  "recompute_pass (of_nat pos) ns = (ns', e, ch) \<Longrightarrow> list_all ins_shape ns \<Longrightarrow>
   map strip_offset ns' = map strip_offset ns \<and> laid_out pos ns' \<and> e = of_nat (pos + length (enc_list ns'))"
proof (induction ns arbitrary: pos ns' e ch)
  case (Cons n ns)
  let ?n = "n\<lparr>ins_offset := of_nat pos\<rparr>" and ?l = "instruction_length_at n (of_nat pos)"
  have l: "length (enc_ins ?n) = unat ?l"
    using length_enc_ins [of ?n] Cons.prems(2) by simp
  have next_pos: "of_nat pos + ?l = of_nat (pos + length (enc_ins ?n))" using l by simp
  obtain ms e' ch' where r: "recompute_pass (of_nat pos + ?l) ns = (ms, e', ch')" by (metis prod_cases3)
  with Cons.IH [of "pos + length (enc_ins ?n)" ms e' ch'] next_pos Cons.prems(2)
  have IH: "map strip_offset ms = map strip_offset ns" "laid_out (pos + length (enc_ins ?n)) ms"
    "e' = of_nat (pos + length (enc_ins ?n) + length (enc_list ms))" by auto
  have "ns' = ?n # ms" "e = e'" using Cons.prems(1) r by (auto split: if_splits)
  with IH show ?case by (simp add: add.assoc)
qed simp

lemma recompute_offsets_eq:
  "instruction_list_recompute_offsets list =
     list\<lparr>il_items := fst (recompute_pass 0 (il_items list)),
          il_code_length := fst (snd (recompute_pass 0 (il_items list)))\<rparr>"
proof -
  obtain ns e ch where r: "recompute_pass 0 (il_items list) = (ns, e, ch)" by (metis prod_cases3)
  show ?thesis
  proof (cases ch)
    case False
    with r show ?thesis by (simp add: instruction_list_recompute_offsets.simps [of list])
  next
    case True
    let ?l = "list\<lparr>il_items := ns, il_code_length := e\<rparr>"
    have "recompute_pass 0 (il_items ?l) = (ns, e, False)" using recompute_pass_stable [OF r] by simp
    then have "instruction_list_recompute_offsets ?l = ?l"
      by (subst instruction_list_recompute_offsets.simps) simp
    with r True show ?thesis by (simp add: instruction_list_recompute_offsets.simps [of list])
  qed
qed

lemma recompute_offsets_spec:
  assumes "list_all ins_shape (il_items list)"
  defines "list' \<equiv> instruction_list_recompute_offsets list"
  shows "map strip_offset (il_items list') = map strip_offset (il_items list)" "laid_out 0 (il_items list')"
    "il_code_length list' = of_nat (length (enc_list (il_items list')))"
    "instruction_list_recompute_offsets list' = list'"
proof -
  obtain ns e ch where r: "recompute_pass 0 (il_items list) = (ns, e, ch)" by (metis prod_cases3)
  have l: "list' = list\<lparr>il_items := ns, il_code_length := e\<rparr>"
    unfolding list'_def recompute_offsets_eq [of list] by (simp add: r)
  show "map strip_offset (il_items list') = map strip_offset (il_items list)" "laid_out 0 (il_items list')"
    "il_code_length list' = of_nat (length (enc_list (il_items list')))"
    using recompute_pass_spec [of 0 "il_items list" ns e ch] r assms(1) by (simp_all add: l)
  show "instruction_list_recompute_offsets list' = list'"
    unfolding l recompute_offsets_eq [of "list\<lparr>il_items := ns, il_code_length := e\<rparr>"]
    using recompute_pass_stable [OF r] by simp
qed

subsection \<open>Parsed code can be encoded\<close>

definition wide_branches_fit :: "instruction list \<Rightarrow> bool" where
  "wide_branches_fit ns \<longleftrightarrow>
     list_all (\<lambda>n. case ins_u n of Op_BranchWide t \<Rightarrow> i4_range (t - uint (ins_offset n)) | _ \<Rightarrow> True) ns"

lemma branch_delta_small:
  assumes "i4_range t" "- 32768 \<le> i4_delta t (of_nat pos)" "i4_delta t (of_nat pos) \<le> 32767" "pos \<le> 65535"
  shows "- 32768 \<le> t - int pos" "t - int pos \<le> 32767"
proof -
  have off: "sint (of_nat pos :: u4) = int pos"
    using assms(4) i4_wrap_word [of "int pos"] i4_wrap_id [of "int pos"] by (simp add: i4_range_def)
  have "i4_range (t - int pos)"
  proof (rule ccontr)
    assume no: "\<not> i4_range (t - int pos)"
    let ?y = "t - int pos + 2 ^ 32"
    have "i4_range ?y" using no assms(1,4) by (auto simp: i4_range_def)
    moreover have "i4_wrap (t - int pos) = i4_wrap ?y" by (rule i4_wrap_cong) simp
    ultimately have "i4_delta t (of_nat pos) = ?y" by (simp add: i4_delta_def off i4_wrap_id)
    with assms(1,3,4) show False by (auto simp: i4_range_def)
  qed
  then have "i4_delta t (of_nat pos) = t - int pos" by (simp add: i4_delta_def off i4_wrap_id)
  with assms(2,3) show "- 32768 \<le> t - int pos" "t - int pos \<le> 32767" by simp_all
qed

lemma code_bytes_encodable:
  "code_bytes pos ns bs \<Longrightarrow> pos + length bs \<le> 65535 \<Longrightarrow> wide_branches_fit ns \<Longrightarrow>
   list_all (\<lambda>n. encodable (ins_offset n) (ins_u n)) ns"
proof (induction ns arbitrary: pos bs)
  case (Cons n ns)
  then obtain b1 b2 where b: "bs = b1 @ b2" "ins_bytes n b1" "wf_ins n" "ins_offset n = of_nat pos"
    "code_bytes (pos + length b1) ns b2" by auto
  have pos: "pos \<le> 65535" and len: "length b1 \<le> 65535" using Cons.prems(2) b(1) by auto
  have off: "uint (of_nat pos :: u4) = int pos"
    using pos by (simp add: uint_nat)
  have "length (enc_node_operand n) \<le> 65535"
    using ins_bytes_length [OF b(2)] len by (simp add: enc_ins_def)
  then have "encodable (ins_offset n) (ins_u n)"
    using b(3) branch_delta_small [of _ pos] Cons.prems(3) pos
    by (cases "ins_u n") (auto simp: off wf_ins_def b(4) wide_branches_fit_def enc_node_operand_def
        length_concat_be4 JVM_MAX_CODE_LENGTH_def)
  with Cons.IH [OF b(5)] Cons.prems(2,3) b(1) show ?case by (simp add: wide_branches_fit_def)
qed simp


lemma code_bytes_unpadded:
  "code_bytes pos ns bs \<Longrightarrow> \<forall>n \<in> set ns. \<not> is_switch (ins_u n) \<Longrightarrow> bs = enc_list ns"
proof (induction ns arbitrary: pos bs)
  case (Cons n ns)
  from Cons.prems(1) obtain b1 b2 where b: "bs = b1 @ b2" "ins_bytes n b1"
    "code_bytes (pos + length b1) ns b2" by auto
  have "b1 = enc_ins n" using b(2) Cons.prems(2) by (auto simp: ins_bytes_def enc_ins_def pad_len_def)
  with b(1) Cons.IH [OF b(3)] Cons.prems(2) show ?case by simp
qed simp

section \<open>Properties\<close>

definition sample_body :: "u1 list" where
  "sample_body = [0xAA, 0, 0, 0, 0, 0, 0, 20, 0, 0, 0, 5, 0, 0, 0, 5, 0, 0, 0, 20, 0x03, 0xA7, 0xFF, 0xFF]"

lemma sample_body_parses: "\<exists>list. instruction_list_parse heap_ok sample_body = Inr list \<and> wide_branches_fit (il_items list)"
proof -
  have "case instruction_list_parse heap_ok sample_body of Inl _ \<Rightarrow> False | Inr list \<Rightarrow> wide_branches_fit (il_items list)"
    by code_simp
  then show ?thesis by (auto split: sum.splits)
qed

text \<open>
  C3: bytecode survives a round trip through the node list. For a body within the
  format's size limit whose wide jumps stay in range, encoding the parsed list
  succeeds, keeps the length (so every offset outside the code array stays valid),
  parses back to the same nodes, and is byte for byte the input when no switch
  padding is involved.
\<close>

theorem parse_encode_roundtrip:
  assumes "instruction_list_parse mem code = Inr list" "length code \<le> JVM_MAX_CODE_LENGTH"
    "wide_branches_fit (il_items list)" "alloc_total mem'"
  shows "\<exists>code' list'. instruction_list_encode mem' list = Some (Inr code') \<and> length code' = length code \<and>
     instruction_list_parse mem' code' = Inr list' \<and> il_items list' = il_items list \<and>
     ((\<forall>n \<in> set (il_items list). \<not> is_switch (ins_u n)) \<longrightarrow> code' = code)"
proof -
  note s = instruction_list_parse_sound(1) [OF assms(1)]
  note i = code_bytes_iff [OF s]
  have e: "list_all (\<lambda>n. encodable (ins_offset n) (ins_u n)) (il_items list)"
    using code_bytes_encodable [OF s] assms(2,3) by (simp add: JVM_MAX_CODE_LENGTH_def)
  with i have wf: "wf_list (il_items list)" by (simp add: wf_list_def)
  let ?c = "enc_list (il_items list)"
  have enc: "instruction_list_encode mem' list = Some (Inr ?c)"
    using instruction_list_encode_total [OF assms(4) wf] i assms(2) by simp
  from i code_bytes_enc have "code_bytes 0 (il_items list) ?c" by blast
  from instruction_list_parse_complete [OF this assms(4)] obtain list' where
    l: "instruction_list_parse mem' ?c = Inr list'" "il_items list' = il_items list" by blast
  have "?c = code" if "\<forall>n \<in> set (il_items list). \<not> is_switch (ins_u n)"
    using code_bytes_unpadded [OF s that] by simp
  with enc l i show ?thesis by metis
qed


theorem parse_encode_roundtrip_witness:
  "\<exists>list code'. instruction_list_parse heap_ok sample_body = Inr list \<and>
     instruction_list_encode heap_ok list = Some (Inr code') \<and> length code' = length sample_body"
proof -
  obtain list where l: "instruction_list_parse heap_ok sample_body = Inr list"
    "wide_branches_fit (il_items list)" using sample_body_parses by blast
  have "length sample_body \<le> JVM_MAX_CODE_LENGTH" by (simp add: sample_body_def JVM_MAX_CODE_LENGTH_def)
  from parse_encode_roundtrip [OF l(1) this l(2) alloc_total_heap_ok] l(1) show ?thesis by blast
qed

text \<open>
  C4: the nodes of a well-formed list survive encoding: the bytes parse back to
  exactly the same instructions, operands, targets and offsets.
\<close>

theorem encode_parse_roundtrip:
  assumes "wf_list (il_items list)" "instruction_list_encode mem list = Some (Inr bytes)" "alloc_total mem'"
  shows "\<exists>list'. instruction_list_parse mem' bytes = Inr list' \<and> il_items list' = il_items list \<and>
     il_code_length list' = of_nat (length bytes)"
proof -
  have "bytes = enc_list (il_items list)" using instruction_list_encode_sound [OF assms(2,1)] by simp
  with code_bytes_enc assms(1) have "code_bytes 0 (il_items list) bytes" by (simp add: wf_list_def)
  from instruction_list_parse_complete [OF this assms(3)] show ?thesis by blast
qed

theorem encode_parse_roundtrip_witness:
  "\<exists>list bytes list'. wf_list (il_items list) \<and> instruction_list_encode heap_ok list = Some (Inr bytes) \<and>
     instruction_list_parse heap_ok bytes = Inr list' \<and> il_items list' = il_items list"
proof -
  let ?n = "\<lparr>ins_offset = 0, ins_opcode = JVM_OPC_goto, ins_wide = False, ins_u = Op_Branch 0\<rparr>"
  let ?l = "\<lparr>il_items = [?n], il_capacity = 1, il_code_length = 3\<rparr>"
  have wf: "wf_list (il_items ?l)"
    by (simp add: wf_list_def wf_ins_def instruction_opcode_is_defined_def instruction_kind_of_def i4_range_def
        i4_delta_def i4_wrap_def)
  have "length (enc_list (il_items ?l)) \<le> JVM_MAX_CODE_LENGTH"
    by (simp add: enc_ins_def enc_opcode_def enc_node_operand_def pad_len_def is_switch_def JVM_MAX_CODE_LENGTH_def)
  with instruction_list_encode_total [OF alloc_total_heap_ok wf] have
    e: "instruction_list_encode heap_ok ?l = Some (Inr (enc_list (il_items ?l)))" by simp
  from encode_parse_roundtrip [OF wf e alloc_total_heap_ok] wf e show ?thesis by blast
qed

text \<open>
  C5: recomputing offsets terminates and places every instruction right behind the
  one before it, with the code length their sum; nothing but offsets changes and
  running it again changes nothing. The outer loop never needs a third pass.
\<close>

theorem recompute_offsets_correct:
  assumes "list_all ins_shape (il_items list)"
  shows "laid_out 0 (il_items (instruction_list_recompute_offsets list)) \<and>
    il_code_length (instruction_list_recompute_offsets list) =
      of_nat (length (enc_list (il_items (instruction_list_recompute_offsets list)))) \<and>
    map strip_offset (il_items (instruction_list_recompute_offsets list)) = map strip_offset (il_items list) \<and>
    instruction_list_recompute_offsets (instruction_list_recompute_offsets list) =
      instruction_list_recompute_offsets list"
  using recompute_offsets_spec [OF assms] by blast

theorem recompute_offsets_correct_witness:
  "\<exists>list. list_all ins_shape (il_items list) \<and> il_items list \<noteq> [] \<and>
     laid_out 0 (il_items (instruction_list_recompute_offsets list))"
proof -
  let ?n = "\<lparr>ins_offset = 9, ins_opcode = JVM_OPC_tableswitch, ins_wide = False, ins_u = Op_TableSwitch 0 5 5 [0]\<rparr>"
  let ?l = "\<lparr>il_items = [?n, ?n], il_capacity = 2, il_code_length = 3\<rparr>"
  have "list_all ins_shape (il_items ?l)"
    by (simp add: ins_shape_def instruction_opcode_is_defined_def instruction_kind_of_def JVM_MAX_CODE_LENGTH_def)
  from recompute_offsets_correct [OF this] this show ?thesis by (intro exI [of _ ?l]) simp
qed

text \<open>
  the encoder can run forever. Once an allocation has failed while the size is
  not a multiple of four, the loop that pads a switch writes into a buffer that no
  longer grows and never reaches its exit condition.
\<close>

theorem encode_switch_diverges:
  assumes "\<not> buf_ok b" "buf_size b mod 4 \<noteq> 0" "is_switch (ins_u node)"
  shows "encode_instruction mem node b = None"
proof -
  have inert: "byte_buffer_u1 mem v b = b" for v
    using assms(1) by (simp add: byte_buffer_u1_def byte_buffer_reserve_def)
  have "encode_operand mem node offset b = None" for offset
    using assms(3) write_padding_diverges [OF assms(1,2), of mem]
    by (cases "ins_u node") (simp_all add: encode_operand_def is_switch_def)
  then show ?thesis by (simp add: encode_instruction_def inert Let_def)
qed

theorem encode_switch_diverges_witness:
  "encode_instruction heap_ok
     \<lparr>ins_offset = 0, ins_opcode = JVM_OPC_lookupswitch, ins_wide = False, ins_u = Op_LookupSwitch 0 []\<rparr>
     \<lparr>buf_data = [0, 0, 0], buf_capacity = 4, buf_ok = False\<rparr> = None"
  by (rule encode_switch_diverges) (simp_all add: is_switch_def)

end
