(* ===== verification/Stack_Map.thy ===== *)
theory Stack_Map
  imports Class_File_IO
begin

text \<open>
  The StackMapTable attribute: \<^verbatim>\<open>visitors/stack_map_table.c\<close>. Frames hold absolute
  bytecode offsets in memory and deltas on disk (JVMS 4.7.4). The tag a frame was
  read with is kept, so that a frame nobody moved is written in the form it had.
  Frame offsets are \<open>int32_t\<close> sums; the model wraps where C leaves the overflow of
  a hostile table undefined.
\<close>

section \<open>Data\<close>

record verification_type =
  vt_tag :: u1
  vt_cpool_index :: u2
  vt_offset :: i4

datatype frame_kind =
  FRAME_SAME | FRAME_SAME_LOCALS_1_STACK_ITEM | FRAME_CHOP | FRAME_APPEND | FRAME_FULL

record stack_map_frame =
  raw_tag :: u1
  frame_kind :: frame_kind
  frame_offset :: i4
  chop_count :: u2
  frame_locals :: "verification_type list"
  frame_stack :: "verification_type list"

type_synonym stack_map_table = "stack_map_frame vec"

definition stack_map_table_init :: stack_map_table where
  "stack_map_table_init = vec_init"

definition stack_map_table_free :: "stack_map_table \<Rightarrow> stack_map_table" where
  "stack_map_table_free table = stack_map_table_init"

definition smt_reserve :: "alloc \<Rightarrow> stack_map_table \<Rightarrow> u2 \<Rightarrow> classfile_status \<times> stack_map_table" where
  "smt_reserve mem = vec_reserve mem Alloc_stack_map_frame"

section \<open>Parsing\<close>

definition read_type :: "byte_cursor \<Rightarrow> verification_type \<times> byte_cursor" where
  "read_type c =
     (let (tag, c) = byte_cursor_u1 c;
          (cp, c) = (if tag = JVM_ITEM_Object then byte_cursor_u2 c else (0, c));
          (off, c) = (if tag = JVM_ITEM_Uninitialized then byte_cursor_u2 c else (0, c))
      in (\<lparr>vt_tag = tag, vt_cpool_index = cp, vt_offset = uint off\<rparr>, c))"

fun read_types_loop :: "nat \<Rightarrow> byte_cursor \<Rightarrow> classfile_status + verification_type list \<times> byte_cursor" where
  "read_types_loop 0 c = Inr ([], c)"
| "read_types_loop (Suc n) c =
     (let (t, c) = read_type c in
      if \<not> byte_cursor_ok c then Inl CLASSFILE_ERR_TRUNCATED
      else
        (case read_types_loop n c of
           Inl status \<Rightarrow> Inl status
         | Inr (ts, c) \<Rightarrow> Inr (t # ts, c)))"

definition read_types ::
  "alloc \<Rightarrow> byte_cursor \<Rightarrow> u2 \<Rightarrow> classfile_status + verification_type list \<times> byte_cursor" where
  "read_types mem c count =
     (if count = 0 then Inr ([], c)
      else if \<not> mem Alloc_verification_type (unat count) then Inl CLASSFILE_ERR_OUT_OF_MEMORY
      else read_types_loop (unat count) c)"

text \<open>The tag ladder: kind, chop count and delta of a frame; 128 to 246 are reserved.\<close>

definition read_frame_head ::
  "u1 \<Rightarrow> byte_cursor \<Rightarrow> (frame_kind \<times> u2 \<times> i4 \<times> byte_cursor) option" where
  "read_frame_head tag c =
     (if tag \<le> 63 then Some (FRAME_SAME, 0, uint tag, c)
      else if tag \<le> 127 then Some (FRAME_SAME_LOCALS_1_STACK_ITEM, 0, uint tag - 64, c)
      else if tag = 247 then
        let (d, c) = byte_cursor_u2 c in Some (FRAME_SAME_LOCALS_1_STACK_ITEM, 0, uint d, c)
      else if tag \<ge> 248 \<and> tag \<le> 250 then
        let (d, c) = byte_cursor_u2 c in Some (FRAME_CHOP, ucast (251 - tag), uint d, c)
      else if tag = 251 then let (d, c) = byte_cursor_u2 c in Some (FRAME_SAME, 0, uint d, c)
      else if tag \<ge> 252 \<and> tag \<le> 254 then
        let (d, c) = byte_cursor_u2 c in Some (FRAME_APPEND, 0, uint d, c)
      else if tag = 255 then let (d, c) = byte_cursor_u2 c in Some (FRAME_FULL, 0, uint d, c)
      else None)"

definition read_frame_types ::
  "alloc \<Rightarrow> frame_kind \<Rightarrow> u1 \<Rightarrow> byte_cursor \<Rightarrow>
   classfile_status + verification_type list \<times> verification_type list \<times> byte_cursor" where
  "read_frame_types mem kind tag c =
     (case kind of
        FRAME_SAME_LOCALS_1_STACK_ITEM \<Rightarrow>
          (case read_types mem c 1 of
             Inl status \<Rightarrow> Inl status
           | Inr (stack, c) \<Rightarrow> Inr ([], stack, c))
      | FRAME_APPEND \<Rightarrow>
          (case read_types mem c (ucast (tag - 251)) of
             Inl status \<Rightarrow> Inl status
           | Inr (locals, c) \<Rightarrow> Inr (locals, [], c))
      | FRAME_FULL \<Rightarrow>
          (let (n, c) = byte_cursor_u2 c in
           case read_types mem c n of
             Inl status \<Rightarrow> Inl status
           | Inr (locals, c) \<Rightarrow>
               (let (n, c) = byte_cursor_u2 c in
                case read_types mem c n of
                  Inl status \<Rightarrow> Inl status
                | Inr (stack, c) \<Rightarrow> Inr (locals, stack, c)))
      | _ \<Rightarrow> Inr ([], [], c))"

definition read_frame ::
  "alloc \<Rightarrow> i4 option \<Rightarrow> byte_cursor \<Rightarrow> classfile_status + stack_map_frame \<times> byte_cursor" where
  "read_frame mem previous c =
     (let (tag, c) = byte_cursor_u1 c in
      case read_frame_head tag c of
        None \<Rightarrow> Inl CLASSFILE_ERR_TRUNCATED
      | Some (kind, chop, delta, c) \<Rightarrow>
          let off = (case previous of None \<Rightarrow> delta | Some p \<Rightarrow> i4_wrap (p + delta + 1)) in
          (case read_frame_types mem kind tag c of
             Inl status \<Rightarrow> Inl status
           | Inr (locals, stack, c) \<Rightarrow>
               if \<not> byte_cursor_ok c then Inl CLASSFILE_ERR_TRUNCATED
               else Inr (\<lparr>raw_tag = tag, frame_kind = kind, frame_offset = off, chop_count = chop,
                          frame_locals = locals, frame_stack = stack\<rparr>, c)))"

fun read_frames ::
  "alloc \<Rightarrow> nat \<Rightarrow> i4 option \<Rightarrow> byte_cursor \<Rightarrow> stack_map_table \<Rightarrow>
   classfile_status + stack_map_table \<times> byte_cursor" where
  "read_frames mem 0 previous c table = Inr (table, c)"
| "read_frames mem (Suc n) previous c table =
     (case read_frame mem previous c of
        Inl status \<Rightarrow> Inl status
      | Inr (frame, c) \<Rightarrow>
          read_frames mem n (Some (frame_offset frame)) c
            (table\<lparr>items := items table @ [frame]\<rparr>))"

definition stack_map_table_parse :: "alloc \<Rightarrow> attribute_info \<Rightarrow> classfile_status + stack_map_table" where
  "stack_map_table_parse mem attribute =
     (let (count, c) = byte_cursor_u2 (byte_cursor_init (attr_info attribute)) in
      if \<not> byte_cursor_ok c then Inl CLASSFILE_ERR_TRUNCATED
      else
        (case smt_reserve mem stack_map_table_init count of
           (status, out) \<Rightarrow>
             if status \<noteq> CLASSFILE_OK then Inl status
             else
               (case read_frames mem (unat count) None c out of
                  Inl status \<Rightarrow> Inl status
                | Inr (out, c) \<Rightarrow>
                    if \<not> byte_cursor_exhausted c then Inl CLASSFILE_ERR_TRAILING_BYTES
                    else Inr out)))"

section \<open>Writing\<close>

definition write_type :: "alloc \<Rightarrow> verification_type \<Rightarrow> byte_buffer \<Rightarrow> byte_buffer" where
  "write_type mem t b =
     (let b = byte_buffer_u1 mem (vt_tag t) b in
      if vt_tag t = JVM_ITEM_Object then byte_buffer_u2 mem (vt_cpool_index t) b
      else if vt_tag t = JVM_ITEM_Uninitialized then byte_buffer_u2 mem (of_int (vt_offset t)) b
      else b)"

definition write_types :: "alloc \<Rightarrow> verification_type list \<Rightarrow> byte_buffer \<Rightarrow> byte_buffer" where
  "write_types mem types b = fold (write_type mem) types b"

definition write_frame :: "alloc \<Rightarrow> i4 \<Rightarrow> stack_map_frame \<Rightarrow> byte_buffer \<Rightarrow> byte_buffer" where
  "write_frame mem delta frame b =
     (case frame_kind frame of
        FRAME_SAME \<Rightarrow>
          if raw_tag frame \<le> 63 \<and> delta \<le> 63 then byte_buffer_u1 mem (of_int delta) b
          else byte_buffer_u2 mem (of_int delta) (byte_buffer_u1 mem 251 b)
      | FRAME_SAME_LOCALS_1_STACK_ITEM \<Rightarrow>
          write_types mem (take 1 (frame_stack frame))
            (if raw_tag frame \<le> 127 \<and> delta \<le> 63 then byte_buffer_u1 mem (of_int (64 + delta)) b
             else byte_buffer_u2 mem (of_int delta) (byte_buffer_u1 mem 247 b))
      | FRAME_CHOP \<Rightarrow>
          byte_buffer_u2 mem (of_int delta) (byte_buffer_u1 mem (251 - ucast (chop_count frame)) b)
      | FRAME_APPEND \<Rightarrow>
          write_types mem (frame_locals frame)
            (byte_buffer_u2 mem (of_int delta)
               (byte_buffer_u1 mem (251 + of_nat (length (frame_locals frame))) b))
      | FRAME_FULL \<Rightarrow>
          (let b = byte_buffer_u2 mem (of_int delta) (byte_buffer_u1 mem 255 b);
               b = byte_buffer_u2 mem (of_nat (length (frame_locals frame))) b;
               b = write_types mem (frame_locals frame) b;
               b = byte_buffer_u2 mem (of_nat (length (frame_stack frame))) b
           in write_types mem (frame_stack frame) b))"

definition frame_delta :: "i4 option \<Rightarrow> stack_map_frame \<Rightarrow> i4" where
  "frame_delta previous frame =
     (case previous of None \<Rightarrow> frame_offset frame | Some p \<Rightarrow> i4_wrap (frame_offset frame - p - 1))"

fun write_frames ::
  "alloc \<Rightarrow> i4 option \<Rightarrow> stack_map_frame list \<Rightarrow> byte_buffer \<Rightarrow> classfile_status + byte_buffer" where
  "write_frames mem previous [] b = Inr b"
| "write_frames mem previous (f # fs) b =
     (let delta = frame_delta previous f in
      if delta < 0 \<or> delta > 0xFFFF then Inl CLASSFILE_ERR_LIMIT_EXCEEDED
      else write_frames mem (Some (frame_offset f)) fs (write_frame mem delta f b))"

definition stack_map_table_write ::
  "alloc \<Rightarrow> stack_map_table \<Rightarrow> attribute_info \<Rightarrow> classfile_status \<times> attribute_info" where
  "stack_map_table_write mem table attribute =
     (let b = byte_buffer_reserve mem byte_buffer_init 64;
          b = byte_buffer_u2 mem (vec_count table) b
      in case write_frames mem None (items table) b of
           Inl status \<Rightarrow> (status, attribute)
         | Inr b \<Rightarrow>
             if \<not> byte_buffer_ok b then (CLASSFILE_ERR_OUT_OF_MEMORY, attribute)
             else (CLASSFILE_OK, attribute\<lparr>attr_info := fst (byte_buffer_release b)\<rparr>))"

section \<open>The encoding\<close>

definition enc_type :: "verification_type \<Rightarrow> u1 list" where
  "enc_type t = be1 (vt_tag t) @
     (if vt_tag t = JVM_ITEM_Object then be2 (vt_cpool_index t)
      else if vt_tag t = JVM_ITEM_Uninitialized then be2 (of_int (vt_offset t)) else [])"

definition enc_types :: "verification_type list \<Rightarrow> u1 list" where
  "enc_types ts = concat (map enc_type ts)"

text \<open>The tag the writer picks, and whether it is followed by an explicit delta.\<close>

definition frame_tag :: "i4 \<Rightarrow> stack_map_frame \<Rightarrow> u1" where
  "frame_tag delta f =
     (case frame_kind f of
        FRAME_SAME \<Rightarrow> if raw_tag f \<le> 63 \<and> delta \<le> 63 then of_int delta else 251
      | FRAME_SAME_LOCALS_1_STACK_ITEM \<Rightarrow>
          if raw_tag f \<le> 127 \<and> delta \<le> 63 then of_int (64 + delta) else 247
      | FRAME_CHOP \<Rightarrow> 251 - ucast (chop_count f)
      | FRAME_APPEND \<Rightarrow> 251 + of_nat (length (frame_locals f))
      | FRAME_FULL \<Rightarrow> 255)"

definition enc_frame_types :: "stack_map_frame \<Rightarrow> u1 list" where
  "enc_frame_types f =
     (case frame_kind f of
        FRAME_SAME_LOCALS_1_STACK_ITEM \<Rightarrow> enc_types (frame_stack f)
      | FRAME_APPEND \<Rightarrow> enc_types (frame_locals f)
      | FRAME_FULL \<Rightarrow>
          be2 (of_nat (length (frame_locals f))) @ enc_types (frame_locals f) @
          be2 (of_nat (length (frame_stack f))) @ enc_types (frame_stack f)
      | _ \<Rightarrow> [])"

definition enc_frame :: "i4 \<Rightarrow> stack_map_frame \<Rightarrow> u1 list" where
  "enc_frame delta f =
     be1 (frame_tag delta f) @ (if frame_tag delta f \<le> 127 then [] else be2 (of_int delta)) @
     enc_frame_types f"

fun enc_frames :: "i4 option \<Rightarrow> stack_map_frame list \<Rightarrow> u1 list" where
  "enc_frames previous [] = []"
| "enc_frames previous (f # fs) =
     enc_frame (frame_delta previous f) f @ enc_frames (Some (frame_offset f)) fs"

definition enc_smt :: "stack_map_table \<Rightarrow> u1 list" where
  "enc_smt table = be2 (vec_count table) @ enc_frames None (items table)"

definition wf_type :: "verification_type \<Rightarrow> bool" where
  "wf_type t \<longleftrightarrow>
     (vt_tag t \<noteq> JVM_ITEM_Object \<longrightarrow> vt_cpool_index t = 0) \<and>
     (if vt_tag t = JVM_ITEM_Uninitialized then 0 \<le> vt_offset t \<and> vt_offset t \<le> 65535
      else vt_offset t = 0)"

definition wf_frame :: "stack_map_frame \<Rightarrow> bool" where
  "wf_frame f \<longleftrightarrow>
     list_all wf_type (frame_locals f) \<and> list_all wf_type (frame_stack f) \<and>
     (case frame_kind f of
        FRAME_SAME \<Rightarrow> frame_locals f = [] \<and> frame_stack f = [] \<and> chop_count f = 0
      | FRAME_SAME_LOCALS_1_STACK_ITEM \<Rightarrow> frame_locals f = [] \<and> length (frame_stack f) = 1 \<and> chop_count f = 0
      | FRAME_CHOP \<Rightarrow> frame_locals f = [] \<and> frame_stack f = [] \<and> chop_count f \<in> {1, 2, 3}
      | FRAME_APPEND \<Rightarrow> length (frame_locals f) \<in> {1, 2, 3} \<and> frame_stack f = [] \<and> chop_count f = 0
      | FRAME_FULL \<Rightarrow> length (frame_locals f) < 65536 \<and> length (frame_stack f) < 65536 \<and> chop_count f = 0)"

text \<open>Deltas a table can be written with.\<close>

fun frames_ascend :: "i4 option \<Rightarrow> stack_map_frame list \<Rightarrow> bool" where
  "frames_ascend previous [] \<longleftrightarrow> True"
| "frames_ascend previous (f # fs) \<longleftrightarrow>
     0 \<le> frame_delta previous f \<and> frame_delta previous f \<le> 0xFFFF \<and> i4_range (frame_offset f) \<and>
     frames_ascend (Some (frame_offset f)) fs"


section \<open>Types\<close>

lemma uint_u2_bounds: "0 \<le> uint (x :: u2)" "uint (x :: u2) \<le> 65535"
  using unsigned_less [of x, where ?'a = int] by simp_all

lemma uint_of_int_u2: "0 \<le> x \<Longrightarrow> x \<le> 65535 \<Longrightarrow> uint (of_int x :: u2) = x"
  by transfer (simp add: take_bit_int_eq_self)

lemma read_typeD:
  assumes "read_type c = (t, c')" "cur_ok c'"
  shows "spans c (enc_type t) c'" "wf_type t"
proof -
  obtain tag c1 where r: "byte_cursor_u1 c = (tag, c1)" by (metis surj_pair)
  consider "tag = JVM_ITEM_Object" | "tag = JVM_ITEM_Uninitialized"
    | "tag \<noteq> JVM_ITEM_Object" "tag \<noteq> JVM_ITEM_Uninitialized" by blast
  then have "spans c (enc_type t) c' \<and> wf_type t"
  proof cases
    case 1
    with assms r obtain v where v: "byte_cursor_u2 c1 = (v, c')" "t = \<lparr>vt_tag = tag, vt_cpool_index = v, vt_offset = 0\<rparr>"
      by (auto simp: read_type_def split: prod.splits)
    with read_u2D [OF v(1) assms(2)] read_u1D [OF r] 1 show ?thesis
      by (auto simp: enc_type_def wf_type_def intro: spans_trans)
  next
    case 2
    with assms r obtain v where v: "byte_cursor_u2 c1 = (v, c')" "t = \<lparr>vt_tag = tag, vt_cpool_index = 0, vt_offset = uint v\<rparr>"
      by (auto simp: read_type_def split: prod.splits)
    with read_u2D [OF v(1) assms(2)] read_u1D [OF r] 2 uint_u2_bounds [of v] show ?thesis
      by (auto simp: enc_type_def wf_type_def intro: spans_trans)
  next
    case 3
    with assms r have "c' = c1" "t = \<lparr>vt_tag = tag, vt_cpool_index = 0, vt_offset = 0\<rparr>"
      by (auto simp: read_type_def)
    with read_u1D [OF r] 3 assms(2) show ?thesis by (auto simp: enc_type_def wf_type_def)
  qed
  then show "spans c (enc_type t) c'" "wf_type t" by auto
qed

lemma read_type_complete: "spans c (enc_type t) c' \<Longrightarrow> wf_type t \<Longrightarrow> read_type c = (t, c')"
  by (cases t) (auto simp: enc_type_def wf_type_def read_type_def spans_append uint_of_int_u2
      split: if_splits dest!: spans_eval)

lemma enc_types_simps [simp]: "enc_types [] = []" "enc_types (t # ts) = enc_type t @ enc_types ts"
  by (simp_all add: enc_types_def)

lemma read_types_loop_sound:
  "read_types_loop n c = Inr (ts, c') \<Longrightarrow> cur_ok c' \<Longrightarrow>
   length ts = n \<and> list_all wf_type ts \<and> spans c (enc_types ts) c'"
proof (induction n arbitrary: c ts)
  case (Suc n)
  obtain t c1 where t: "read_type c = (t, c1)" by (metis surj_pair)
  with Suc.prems(1) obtain ts' where ok: "cur_ok c1" "read_types_loop n c1 = Inr (ts', c')" "ts = t # ts'"
    by (auto simp: byte_cursor_ok_def split: if_splits sum.splits)
  from Suc.IH [OF ok(2) Suc.prems(2)] read_typeD [OF t ok(1)] ok(3) show ?case
    by (auto intro: spans_trans)
qed simp

lemma read_types_loop_complete:
  "spans c (enc_types ts) c' \<Longrightarrow> list_all wf_type ts \<Longrightarrow> read_types_loop (length ts) c = Inr (ts, c')"
proof (induction ts arbitrary: c)
  case (Cons t ts)
  from Cons.prems(1) obtain d where d: "spans c (enc_type t) d" "spans d (enc_types ts) c'"
    by (auto simp: spans_append)
  with read_type_complete [OF d(1)] Cons.IH [OF d(2)] Cons.prems(2) spans_ok [OF d(1)] show ?case
    by (simp add: byte_cursor_ok_def)
qed simp

lemma read_types_sound:
  "read_types mem c n = Inr (ts, c') \<Longrightarrow> cur_ok c' \<Longrightarrow>
   length ts = unat n \<and> list_all wf_type ts \<and> spans c (enc_types ts) c'"
  using read_types_loop_sound [of "unat n" c ts c'] by (auto simp: read_types_def split: if_splits)

lemma read_types_complete:
  "spans c (enc_types ts) c' \<Longrightarrow> list_all wf_type ts \<Longrightarrow> length ts = unat n \<Longrightarrow> alloc_total mem \<Longrightarrow>
   read_types mem c n = Inr (ts, c')"
  using read_types_loop_complete [of c ts c'] by (auto simp: read_types_def alloc_total_def)

section \<open>Frames\<close>

text \<open>The tag ranges of the ladder, as the finite sets they are.\<close>

lemma tag_ranges:
  fixes tag :: u1
  shows "248 \<le> tag \<and> tag \<le> 250 \<longleftrightarrow> tag = 248 \<or> tag = 249 \<or> tag = 250"
    "252 \<le> tag \<and> tag \<le> 254 \<longleftrightarrow> tag = 252 \<or> tag = 253 \<or> tag = 254"
proof -
  have e: "tag = of_nat n \<longleftrightarrow> unat tag = n" if "n < 256" for n
    using that by auto
  show "248 \<le> tag \<and> tag \<le> 250 \<longleftrightarrow> tag = 248 \<or> tag = 249 \<or> tag = 250"
    using e [of 248] e [of 249] e [of 250] by (auto simp: word_le_nat_alt)
  show "252 \<le> tag \<and> tag \<le> 254 \<longleftrightarrow> tag = 252 \<or> tag = 253 \<or> tag = 254"
    using e [of 252] e [of 253] e [of 254] by (auto simp: word_le_nat_alt)
qed

lemma read_frame_head_delta:
  assumes "read_frame_head tag c = Some (kind, chop, delta, c')" "cur_ok c'"
  shows "0 \<le> delta \<and> delta \<le> 65535 \<and> spans c (if tag \<le> 127 then [] else be2 (of_int delta)) c'"
proof -
  have small: "uint tag \<le> 63 \<Longrightarrow> tag \<le> 127" "\<not> tag \<le> 63 \<Longrightarrow> 63 < uint tag" "tag \<le> 127 \<Longrightarrow> uint tag \<le> 127"
    "tag \<le> 63 \<Longrightarrow> uint tag \<le> 63"
    by (simp_all add: word_le_def)
  show ?thesis
    using assms small uint_u2_bounds
    by (auto simp: read_frame_head_def tag_ranges Let_def split: if_splits prod.splits dest: read_u2D)
qed


lemma read_frame_head_tag:
  assumes "read_frame_head tag c = Some (kind, chop, delta, c')" "cur_ok c'"
    "raw_tag f = tag" "frame_kind f = kind" "chop_count f = chop"
    "kind = FRAME_APPEND \<Longrightarrow> length (frame_locals f) = unat (ucast (tag - 251) :: u2)"
  shows "frame_tag delta f = tag"
    "if kind = FRAME_CHOP then chop \<in> {1, 2, 3} else chop = 0"
    "kind = FRAME_APPEND \<Longrightarrow> length (frame_locals f) \<in> {1, 2, 3}"
proof -
  have small: "tag \<le> 63 \<Longrightarrow> uint tag \<le> 63" "\<not> tag \<le> 63 \<Longrightarrow> 63 < uint tag" "tag \<le> 127 \<Longrightarrow> uint tag \<le> 127"
    by (simp_all add: word_le_def)
  show "frame_tag delta f = tag" "if kind = FRAME_CHOP then chop \<in> {1, 2, 3} else chop = 0"
    "kind = FRAME_APPEND \<Longrightarrow> length (frame_locals f) \<in> {1, 2, 3}"
    using assms small
    by (auto simp: read_frame_head_def frame_tag_def tag_ranges Let_def split: if_splits prod.splits)
qed

lemma read_frame_types_sound:
  assumes "read_frame_types mem kind tag c = Inr (locals, stack, c')" "cur_ok c'"
    "frame_kind f = kind" "frame_locals f = locals" "frame_stack f = stack"
  shows "cur_ok c" "spans c (enc_frame_types f) c'" "list_all wf_type locals" "list_all wf_type stack"
    "kind = FRAME_APPEND \<Longrightarrow> length locals = unat (ucast (tag - 251) :: u2)"
    "case kind of FRAME_SAME_LOCALS_1_STACK_ITEM \<Rightarrow> locals = [] \<and> length stack = 1
       | FRAME_APPEND \<Rightarrow> stack = []
       | FRAME_FULL \<Rightarrow> length locals < 65536 \<and> length stack < 65536
       | _ \<Rightarrow> locals = [] \<and> stack = []"
proof -
  have "spans c (enc_frame_types f) c' \<and> list_all wf_type locals \<and> list_all wf_type stack \<and>
    (kind = FRAME_APPEND \<longrightarrow> length locals = unat (ucast (tag - 251) :: u2)) \<and>
    (case kind of FRAME_SAME_LOCALS_1_STACK_ITEM \<Rightarrow> locals = [] \<and> length stack = 1
       | FRAME_APPEND \<Rightarrow> stack = []
       | FRAME_FULL \<Rightarrow> length locals < 65536 \<and> length stack < 65536
       | _ \<Rightarrow> locals = [] \<and> stack = [])"
  proof (cases kind)
    case FRAME_FULL
    with assms(1) obtain n c1 c2 m c3 where
      r: "byte_cursor_u2 c = (n, c1)" "read_types mem c1 n = Inr (locals, c2)"
        "byte_cursor_u2 c2 = (m, c3)" "read_types mem c3 m = Inr (stack, c')"
      by (auto simp: read_frame_types_def split: prod.splits sum.splits)
    from read_types_sound [OF r(4) assms(2)] have st: "length stack = unat m" "list_all wf_type stack"
      "spans c3 (enc_types stack) c'" by auto
    from read_u2D [OF r(3)] spans_ok [OF st(3)] have s2: "cur_ok c2" "spans c2 (be2 m) c3" by auto
    from read_types_sound [OF r(2) s2(1)] have lo: "length locals = unat n" "list_all wf_type locals"
      "spans c1 (enc_types locals) c2" by auto
    from read_u2D [OF r(1)] spans_ok [OF lo(3)] have s0: "spans c (be2 n) c1" by auto
    have "spans c (be2 n @ enc_types locals @ be2 m @ enc_types stack) c'"
      by (rule spans_trans [OF s0 spans_trans [OF lo(3) spans_trans [OF s2(2) st(3)]]])
    with FRAME_FULL st lo assms(3-5) show ?thesis by (simp add: enc_frame_types_def)
  qed (use assms in \<open>auto simp: read_frame_types_def enc_frame_types_def split: sum.splits dest!: read_types_sound\<close>)
  then show "cur_ok c" "spans c (enc_frame_types f) c'" "list_all wf_type locals" "list_all wf_type stack"
    "kind = FRAME_APPEND \<Longrightarrow> length locals = unat (ucast (tag - 251) :: u2)"
    "case kind of FRAME_SAME_LOCALS_1_STACK_ITEM \<Rightarrow> locals = [] \<and> length stack = 1
       | FRAME_APPEND \<Rightarrow> stack = []
       | FRAME_FULL \<Rightarrow> length locals < 65536 \<and> length stack < 65536
       | _ \<Rightarrow> locals = [] \<and> stack = []"
    using spans_ok by blast+
qed

lemma frame_delta_read:
  assumes "0 \<le> delta" "delta \<le> 65535"
    and "frame_offset f = (case previous of None \<Rightarrow> delta | Some p \<Rightarrow> i4_wrap (p + delta + 1))"
  shows "frame_delta previous f = delta" "i4_range (frame_offset f)"
proof -
  have r: "i4_range delta" using assms(1,2) by (simp add: i4_range_def)
  then show "i4_range (frame_offset f)" using assms(3) by (auto split: option.splits)
  have "i4_wrap (i4_wrap (p + delta + 1) - p - 1) = i4_wrap delta" for p
    by (rule i4_wrap_cong) simp
  with r assms(3) show "frame_delta previous f = delta"
    by (auto simp: frame_delta_def i4_wrap_id split: option.splits)
qed

lemma read_frame_sound:
  assumes "read_frame mem previous c = Inr (f, c')"
  shows "cur_ok c'" "spans c (enc_frame (frame_delta previous f) f) c'" "wf_frame f"
    "0 \<le> frame_delta previous f" "frame_delta previous f \<le> 65535" "i4_range (frame_offset f)"
proof -
  obtain tag c1 where r: "byte_cursor_u1 c = (tag, c1)" by (metis surj_pair)
  from assms r obtain kind chop delta c2 locals stack where
    h: "read_frame_head tag c1 = Some (kind, chop, delta, c2)"
    and t: "read_frame_types mem kind tag c2 = Inr (locals, stack, c')" and ok: "cur_ok c'"
    and f: "raw_tag f = tag" "frame_kind f = kind" "chop_count f = chop" "frame_locals f = locals" "frame_stack f = stack"
      "frame_offset f = (case previous of None \<Rightarrow> delta | Some p \<Rightarrow> i4_wrap (p + delta + 1))"
    by (auto simp: read_frame_def byte_cursor_ok_def Let_def split: option.splits sum.splits if_splits)
  note ts = read_frame_types_sound [OF t ok f(2,4,5)]
  note hd = read_frame_head_delta [OF h ts(1)]
  have tg: "frame_tag delta f = tag" "if kind = FRAME_CHOP then chop \<in> {1, 2, 3} else chop = 0"
    "kind = FRAME_APPEND \<Longrightarrow> length locals \<in> {1, 2, 3}"
    using read_frame_head_tag [OF h ts(1) f(1-3)] ts(5) f(4) by auto
  note dl = frame_delta_read [OF _ _ f(6)]
  have s1: "spans c (be1 tag) c1" using read_u1D [OF r] hd spans_ok by blast
  show "cur_ok c'" by (rule ok)
  show "0 \<le> frame_delta previous f" "frame_delta previous f \<le> 65535" "i4_range (frame_offset f)"
    using dl hd by auto
  have "spans c (enc_frame delta f) c'"
    unfolding enc_frame_def tg(1)
    by (rule spans_trans [OF s1 spans_trans [OF conjunct2 [OF conjunct2 [OF hd]] ts(2)]])
  with dl hd show "spans c (enc_frame (frame_delta previous f) f) c'" by simp
  show "wf_frame f" using ts(3,4,6) tg(2,3) f by (cases kind) (auto simp: wf_frame_def)
qed


text \<open>A table that is parsed back shows the tags the writer picked.\<close>

fun retag :: "i4 option \<Rightarrow> stack_map_frame list \<Rightarrow> stack_map_frame list" where
  "retag previous [] = []"
| "retag previous (f # fs) =
     f\<lparr>raw_tag := frame_tag (frame_delta previous f) f\<rparr> # retag (Some (frame_offset f)) fs"

lemma read_frame_types_complete:
  assumes "spans c (enc_frame_types f) c'" "wf_frame f" "alloc_total mem"
    "frame_kind f = FRAME_APPEND \<Longrightarrow> length (frame_locals f) = unat (ucast (tag - 251) :: u2)"
  shows "read_frame_types mem (frame_kind f) tag c = Inr (frame_locals f, frame_stack f, c')"
proof (cases "frame_kind f")
  case FRAME_FULL
  with assms(1) obtain c1 c2 c3 where
    s: "spans c (be2 (of_nat (length (frame_locals f)))) c1" "spans c1 (enc_types (frame_locals f)) c2"
      "spans c2 (be2 (of_nat (length (frame_stack f)))) c3" "spans c3 (enc_types (frame_stack f)) c'"
    by (auto simp: enc_frame_types_def spans_append)
  have "read_types mem c1 (of_nat (length (frame_locals f))) = Inr (frame_locals f, c2)"
    "read_types mem c3 (of_nat (length (frame_stack f))) = Inr (frame_stack f, c')"
    using read_types_complete [OF s(2)] read_types_complete [OF s(4)] assms(2,3) FRAME_FULL
    by (simp_all add: wf_frame_def)
  with FRAME_FULL spans_u2 [OF s(1)] spans_u2 [OF s(3)] show ?thesis by (simp add: read_frame_types_def)
next
  case FRAME_APPEND
  with read_types_complete [of c "frame_locals f" c' "ucast (tag - 251)" mem] assms show ?thesis
    by (simp add: read_frame_types_def enc_frame_types_def wf_frame_def)
next
  case FRAME_SAME_LOCALS_1_STACK_ITEM
  with read_types_complete [of c "frame_stack f" c' 1 mem] assms show ?thesis
    by (simp add: read_frame_types_def enc_frame_types_def wf_frame_def)
qed (use assms in \<open>auto simp: read_frame_types_def enc_frame_types_def wf_frame_def\<close>)

lemma frame_tag_append:
  "frame_kind f = FRAME_APPEND \<Longrightarrow> wf_frame f \<Longrightarrow>
   length (frame_locals f) = unat (ucast (frame_tag delta f - 251) :: u2)"
  by (auto simp: wf_frame_def frame_tag_def)

lemma read_frame_head_complete:
  assumes "wf_frame f" "0 \<le> delta" "delta \<le> 65535"
    "spans c (if frame_tag delta f \<le> 127 then [] else be2 (of_int delta)) c'"
  shows "read_frame_head (frame_tag delta f) c = Some (frame_kind f, chop_count f, delta, c')"
proof -
  have u: "uint (of_int delta :: u1) = delta" "uint (of_int (64 + delta) :: u1) = 64 + delta"
    "(of_int delta :: u1) \<le> 63" "(of_int (64 + delta) :: u1) \<le> 127" "\<not> (of_int (64 + delta) :: u1) \<le> 63"
    "(of_int delta :: u1) \<le> 127"
    if "delta \<le> 63"
  proof -
    show a: "uint (of_int delta :: u1) = delta" "uint (of_int (64 + delta) :: u1) = 64 + delta"
      using that assms(2) by (transfer, simp add: take_bit_int_eq_self)+
    show "(of_int delta :: u1) \<le> 63" "(of_int (64 + delta) :: u1) \<le> 127" "\<not> (of_int (64 + delta) :: u1) \<le> 63"
      "(of_int delta :: u1) \<le> 127"
      using a that assms(2) by (simp_all only: word_le_def) simp_all
  qed
  have d: "byte_cursor_u2 c = (of_int delta, c')" "uint (of_int delta :: u2) = delta"
    if "\<not> frame_tag delta f \<le> 127"
    using assms that by (simp_all add: spans_u2 uint_of_int_u2)
  show ?thesis
  proof (cases "frame_tag delta f \<le> 127")
    case True
    with assms(1,4) have "(frame_kind f = FRAME_SAME \<or> frame_kind f = FRAME_SAME_LOCALS_1_STACK_ITEM) \<and>
        delta \<le> 63 \<and> c' = c"
      by (auto simp: frame_tag_def wf_frame_def split: frame_kind.splits if_splits)
    with True u assms(1) show ?thesis
      by (auto simp: frame_tag_def read_frame_head_def wf_frame_def split: if_splits)
  next
    case False
    note d = d [OF False]
    have t: "frame_tag delta f =
        (case frame_kind f of FRAME_SAME \<Rightarrow> 251 | FRAME_SAME_LOCALS_1_STACK_ITEM \<Rightarrow> 247
         | FRAME_CHOP \<Rightarrow> 251 - ucast (chop_count f) | FRAME_APPEND \<Rightarrow> 251 + of_nat (length (frame_locals f))
         | FRAME_FULL \<Rightarrow> 255)"
      using False u by (auto simp: frame_tag_def split: frame_kind.splits if_splits)
    show ?thesis
      unfolding t using d assms(1)
      by (cases "frame_kind f") (auto simp: read_frame_head_def wf_frame_def)
  qed
qed

lemma frame_offset_delta:
  assumes "i4_range (frame_offset f)"
  shows "(case previous of None \<Rightarrow> frame_delta previous f
     | Some p \<Rightarrow> i4_wrap (p + frame_delta previous f + 1)) = frame_offset f"
proof (cases previous)
  case (Some p)
  have "i4_wrap (p + i4_wrap (frame_offset f - p - 1) + 1) = i4_wrap (frame_offset f)"
    by (rule i4_wrap_cong) simp
  with Some assms show ?thesis by (simp add: frame_delta_def i4_wrap_id)
qed (simp add: frame_delta_def)

lemma read_frame_complete:
  assumes "spans c (enc_frame (frame_delta previous f) f) c'" "wf_frame f" "alloc_total mem"
    "0 \<le> frame_delta previous f" "frame_delta previous f \<le> 65535" "i4_range (frame_offset f)"
  shows "read_frame mem previous c = Inr (f\<lparr>raw_tag := frame_tag (frame_delta previous f) f\<rparr>, c')"
proof -
  let ?d = "frame_delta previous f" and ?t = "frame_tag (frame_delta previous f) f"
  from assms(1) obtain c1 c2 where s: "spans c (be1 ?t) c1"
    "spans c1 (if ?t \<le> 127 then [] else be2 (of_int ?d)) c2" "spans c2 (enc_frame_types f) c'"
    unfolding enc_frame_def spans_append by blast
  note h = read_frame_head_complete [OF assms(2,4,5) s(2)]
  note t = read_frame_types_complete [OF s(3) assms(2,3) frame_tag_append [OF _ assms(2)], of ?d]
  have "f\<lparr>raw_tag := ?t\<rparr> =
      \<lparr>raw_tag = ?t, frame_kind = frame_kind f, frame_offset = frame_offset f, chop_count = chop_count f,
       frame_locals = frame_locals f, frame_stack = frame_stack f\<rparr>"
    by simp
  with spans_u1 [OF s(1)] h t spans_ok [OF s(3)] frame_offset_delta [OF assms(6), of previous] show ?thesis
    by (simp add: read_frame_def byte_cursor_ok_def Let_def)
qed

lemma read_frames_sound:
  assumes "read_frames mem n previous c table = Inr (table', c')" "cur_ok c"
  shows "\<exists>fs. items table' = items table @ fs \<and> vcap table' = vcap table \<and> length fs = n \<and>
      spans c (enc_frames previous fs) c' \<and> list_all wf_frame fs \<and> frames_ascend previous fs"
  using assms
proof (induction n arbitrary: previous c table)
  case (Suc n)
  then obtain f d where f: "read_frame mem previous c = Inr (f, d)"
    and r: "read_frames mem n (Some (frame_offset f)) d (table\<lparr>items := items table @ [f]\<rparr>) = Inr (table', c')"
    by (auto split: sum.splits)
  note fs = read_frame_sound [OF f]
  from Suc.IH [OF r fs(1)] obtain gs where g: "items table' = items table @ f # gs" "vcap table' = vcap table"
    "length gs = n" "spans d (enc_frames (Some (frame_offset f)) gs) c'" "list_all wf_frame gs"
    "frames_ascend (Some (frame_offset f)) gs" by auto
  with fs spans_trans [OF fs(2) g(4)] show ?case by (intro exI [of _ "f # gs"]) auto
qed auto

lemma read_frames_complete:
  assumes "spans c (enc_frames previous fs) c'" "list_all wf_frame fs" "frames_ascend previous fs" "alloc_total mem"
  shows "read_frames mem (length fs) previous c table = Inr (table\<lparr>items := items table @ retag previous fs\<rparr>, c')"
  using assms
proof (induction fs arbitrary: previous c table)
  case (Cons f fs)
  then obtain d where d: "spans c (enc_frame (frame_delta previous f) f) d"
    "spans d (enc_frames (Some (frame_offset f)) fs) c'" by (auto simp: spans_append)
  have "read_frame mem previous c = Inr (f\<lparr>raw_tag := frame_tag (frame_delta previous f) f\<rparr>, d)"
    using read_frame_complete [OF d(1)] Cons.prems by auto
  with Cons.IH [OF d(2)] Cons.prems show ?case by simp
qed auto


section \<open>Tables\<close>

definition wf_smt :: "stack_map_table \<Rightarrow> bool" where
  "wf_smt table \<longleftrightarrow> vec_inv table \<and> list_all wf_frame (items table) \<and> frames_ascend None (items table)"

lemma smt_reserve_init:
  "smt_reserve mem vec_init n = (CLASSFILE_OK, t) \<Longrightarrow> items t = [] \<and> vcap t = n"
  by (auto simp: smt_reserve_def vec_reserve_def vec_init_def split: if_splits)

lemma stack_map_table_parse_sound:
  assumes "stack_map_table_parse mem a = Inr t"
  shows "wf_smt t" "attr_info a = enc_smt t"
proof -
  let ?c = "byte_cursor_init (attr_info a)"
  obtain n c1 where r: "byte_cursor_u2 ?c = (n, c1)" by (metis surj_pair)
  with assms obtain t0 c2 where ok: "cur_ok c1" and t0: "smt_reserve mem vec_init n = (CLASSFILE_OK, t0)"
    and fr: "read_frames mem (unat n) None c1 t0 = Inr (t, c2)" and ex: "byte_cursor_exhausted c2"
    by (auto simp: stack_map_table_parse_def stack_map_table_init_def byte_cursor_ok_def
        split: if_splits prod.splits sum.splits)
  from read_frames_sound [OF fr ok] smt_reserve_init [OF t0] have
    t: "vcap t = n" "length (items t) = unat n" "spans c1 (enc_frames None (items t)) c2"
    "list_all wf_frame (items t)" "frames_ascend None (items t)" by auto
  then show "wf_smt t" by (simp add: wf_smt_def vec_inv_def)
  have "spans ?c (be2 n @ enc_frames None (items t)) c2"
    by (rule spans_trans [OF byte_cursor_u2_spans [OF r ok] t(3)])
  from spans_exhausted [OF this ex] t(2) show "attr_info a = enc_smt t"
    by (simp add: enc_smt_def vec_count_def)
qed

lemma stack_map_table_parse_complete:
  assumes "wf_smt t" "attr_info a = enc_smt t" "alloc_total mem"
  shows "stack_map_table_parse mem a = Inr \<lparr>items = retag None (items t), vcap = vec_count t\<rparr>"
proof -
  let ?d = "attr_info a"
  have "spans (byte_cursor_init ?d) (enc_smt t) \<lparr>cur_data = ?d, cur_pos = length ?d, cur_ok = True\<rparr>"
    using assms(2) spans_whole by metis
  then obtain c1 where s: "spans (byte_cursor_init ?d) (be2 (vec_count t)) c1"
    "spans c1 (enc_frames None (items t)) \<lparr>cur_data = ?d, cur_pos = length ?d, cur_ok = True\<rparr>"
    by (auto simp: enc_smt_def spans_append)
  have n: "unat (vec_count t) = length (items t)" using assms(1) by (simp add: wf_smt_def vec_inv_count)
  have w: "smt_reserve mem vec_init (vec_count t) = (CLASSFILE_OK, \<lparr>items = [], vcap = vec_count t\<rparr>)"
    using assms(3) by (auto simp: smt_reserve_def vec_reserve_def vec_init_def alloc_total_def)
  from read_frames_complete [OF s(2) _ _ assms(3)] assms(1) n w spans_u2 [OF s(1)] spans_ok [OF s(1)]
  show ?thesis
    by (simp add: stack_map_table_parse_def stack_map_table_init_def wf_smt_def byte_cursor_ok_def
        byte_cursor_exhausted_def)
qed

lemma emits_write_type [emits_intro]: "emits mem (write_type mem t) (enc_type t)"
  using emits_u1 [of mem "vt_tag t"]
    emits_comp [OF emits_u1 [of mem "vt_tag t"] emits_u2 [of mem "vt_cpool_index t"]]
    emits_comp [OF emits_u1 [of mem "vt_tag t"] emits_u2 [of mem "of_int (vt_offset t)"]]
  unfolding write_type_def enc_type_def Let_def by auto

lemma emits_write_types: "emits mem (write_types mem ts) (enc_types ts)"
  using emits_fold [of mem "write_type mem" enc_type ts, OF emits_write_type] unfolding write_types_def [abs_def] enc_types_def by simp

lemma emits_write_head:
  "emits mem (\<lambda>b. byte_buffer_u2 mem d (byte_buffer_u1 mem tag b)) (be1 tag @ be2 d)"
  by (rule emits_comp [OF emits_u1 emits_u2])

lemma emits_write_frame:
  assumes "wf_frame f" "0 \<le> delta"
  shows "emits mem (write_frame mem delta f) (enc_frame delta f)"
proof -
  have s1: "(of_int delta :: u1) \<le> 127" if "delta \<le> 63"
    using that assms(2) by (simp add: word_le_def) (transfer, simp add: take_bit_int_eq_self)
  have s2: "(of_int (64 + delta) :: u1) \<le> 127" if "delta \<le> 63"
  proof -
    have "uint (of_int (64 + delta) :: u1) = 64 + delta"
      using that assms(2) by (transfer, simp add: take_bit_int_eq_self)
    then show ?thesis using that by (simp only: word_le_def) simp
  qed
  note h = emits_write_head [of mem "of_int delta"]
  show ?thesis
  proof (cases "frame_kind f")
    case FRAME_SAME
    with h [of 251] emits_u1 [of mem "of_int delta"] s1 show ?thesis
      by (auto simp: write_frame_def [abs_def] enc_frame_def frame_tag_def enc_frame_types_def)
  next
    case FRAME_SAME_LOCALS_1_STACK_ITEM
    with emits_comp [OF h [of 247] emits_write_types [of mem "frame_stack f"]] assms(1)
      emits_comp [OF emits_u1 [of mem "of_int (64 + delta)"] emits_write_types [of mem "frame_stack f"]] s2
    show ?thesis
      by (auto simp: write_frame_def [abs_def] enc_frame_def frame_tag_def enc_frame_types_def wf_frame_def)
  next
    case FRAME_CHOP
    with h [of "251 - ucast (chop_count f)"] assms(1) show ?thesis
      by (auto simp: write_frame_def [abs_def] enc_frame_def frame_tag_def enc_frame_types_def wf_frame_def)
  next
    case FRAME_APPEND
    with emits_comp [OF h [of "251 + of_nat (length (frame_locals f))"] emits_write_types [of mem "frame_locals f"]]
      assms(1) show ?thesis
      by (auto simp: write_frame_def [abs_def] enc_frame_def frame_tag_def enc_frame_types_def wf_frame_def)
  next
    case FRAME_FULL
    with emits_comp [OF emits_comp [OF emits_comp [OF emits_comp [OF h [of 255]
        emits_u2 [of mem "of_nat (length (frame_locals f))"]] emits_write_types [of mem "frame_locals f"]]
        emits_u2 [of mem "of_nat (length (frame_stack f))"]] emits_write_types [of mem "frame_stack f"]]
    show ?thesis by (simp add: write_frame_def [abs_def] enc_frame_def frame_tag_def enc_frame_types_def Let_def)
  qed
qed

text \<open>What the loop over the frames appends, when no delta is out of range.\<close>

fun append_frames :: "alloc \<Rightarrow> i4 option \<Rightarrow> stack_map_frame list \<Rightarrow> byte_buffer \<Rightarrow> byte_buffer" where
  "append_frames mem previous [] b = b"
| "append_frames mem previous (f # fs) b =
     append_frames mem (Some (frame_offset f)) fs (write_frame mem (frame_delta previous f) f b)"

fun deltas_ok :: "i4 option \<Rightarrow> stack_map_frame list \<Rightarrow> bool" where
  "deltas_ok previous [] \<longleftrightarrow> True"
| "deltas_ok previous (f # fs) \<longleftrightarrow>
     0 \<le> frame_delta previous f \<and> frame_delta previous f \<le> 0xFFFF \<and> deltas_ok (Some (frame_offset f)) fs"

lemma write_frames_eq:
  "write_frames mem previous fs b =
     (if deltas_ok previous fs then Inr (append_frames mem previous fs b) else Inl CLASSFILE_ERR_LIMIT_EXCEEDED)"
  by (induction fs arbitrary: previous b) (auto simp: Let_def)

lemma frames_ascend_iff:
  "frames_ascend previous fs \<longleftrightarrow> deltas_ok previous fs \<and> list_all (\<lambda>f. i4_range (frame_offset f)) fs"
  by (induction fs arbitrary: previous) auto

lemma emits_append_frames:
  "list_all wf_frame fs \<Longrightarrow> deltas_ok previous fs \<Longrightarrow>
   emits mem (append_frames mem previous fs) (enc_frames previous fs)"
proof (induction fs arbitrary: previous)
  case Nil
  then show ?case using emits_id by (simp add: emits_def)
next
  case (Cons f fs)
  have "emits mem (write_frame mem (frame_delta previous f) f) (enc_frame (frame_delta previous f) f)"
    using Cons.prems by (auto intro: emits_write_frame)
  from emits_comp [OF this Cons.IH [of "Some (frame_offset f)"]] Cons.prems show ?case
    by (simp add: append_frames.simps(2) [abs_def])
qed

lemma stack_map_table_write_eq:
  assumes "list_all wf_frame (items t)" "deltas_ok None (items t)"
  shows "stack_map_table_write mem t a \<in>
      {(CLASSFILE_ERR_OUT_OF_MEMORY, a), (CLASSFILE_OK, a\<lparr>attr_info := enc_smt t\<rparr>)}" (is ?cases)
    and "alloc_total mem \<Longrightarrow> stack_map_table_write mem t a = (CLASSFILE_OK, a\<lparr>attr_info := enc_smt t\<rparr>)"
proof -
  let ?w = "\<lambda>b. append_frames mem None (items t)
      (byte_buffer_u2 mem (vec_count t) (byte_buffer_reserve mem b 64))"
  have w: "emits mem ?w (enc_smt t)"
    using emits_comp [OF emits_comp [OF emits_reserve [of mem 64] emits_u2 [of mem "vec_count t"]]
      emits_append_frames [OF assms, of mem]] by (simp add: enc_smt_def)
  let ?b = "?w byte_buffer_init"
  have eq: "stack_map_table_write mem t a =
      (if \<not> buf_ok ?b then (CLASSFILE_ERR_OUT_OF_MEMORY, a) else (CLASSFILE_OK, a\<lparr>attr_info := buf_data ?b\<rparr>))"
    unfolding stack_map_table_write_def write_frames_eq Let_def byte_buffer_ok_def byte_buffer_release_def
    by (simp add: assms(2))
  show ?cases using emitsD [OF w] unfolding eq by (cases "buf_ok ?b") simp_all
  show "stack_map_table_write mem t a = (CLASSFILE_OK, a\<lparr>attr_info := enc_smt t\<rparr>)" if "alloc_total mem"
    using emitsD [OF w] emits_total [OF w that] unfolding eq by simp
qed

lemma deltas_ok_offsets:
  assumes "list_all (\<lambda>f. 0 \<le> frame_offset f \<and> i4_range (frame_offset f)) fs"
    "case previous of None \<Rightarrow> True | Some p \<Rightarrow> 0 \<le> p \<and> i4_range p"
  shows "deltas_ok previous fs \<longleftrightarrow>
    (case fs of [] \<Rightarrow> True | f # _ \<Rightarrow>
       (case previous of None \<Rightarrow> frame_offset f \<le> 65535
        | Some p \<Rightarrow> p < frame_offset f \<and> frame_offset f \<le> p + 65536)) \<and>
    successively (\<lambda>p q. p < q \<and> q \<le> p + 65536) (map frame_offset fs)"
  using assms
proof (induction fs arbitrary: previous)
  case (Cons f fs)
  have d: "frame_delta previous f = (case previous of None \<Rightarrow> frame_offset f | Some p \<Rightarrow> frame_offset f - p - 1)"
    using Cons.prems by (auto simp: frame_delta_def i4_range_def intro!: i4_wrap_id split: option.splits)
  have "deltas_ok (Some (frame_offset f)) fs \<longleftrightarrow>
      successively (\<lambda>p q. p < q \<and> q \<le> p + 65536) (map frame_offset (f # fs))"
    using Cons.IH [of "Some (frame_offset f)"] Cons.prems by (cases fs) auto
  with d Cons.prems show ?case by (auto split: option.splits)
qed simp


section \<open>Properties\<close>

text \<open>A table with a compact frame, an append frame and a full frame.\<close>

definition sample_smt :: stack_map_table where
  "sample_smt = \<lparr>items =
     [\<lparr>raw_tag = 5, frame_kind = FRAME_SAME, frame_offset = 5, chop_count = 0, frame_locals = [], frame_stack = []\<rparr>,
      \<lparr>raw_tag = 252, frame_kind = FRAME_APPEND, frame_offset = 9, chop_count = 0,
        frame_locals = [\<lparr>vt_tag = JVM_ITEM_Object, vt_cpool_index = 4, vt_offset = 0\<rparr>], frame_stack = []\<rparr>,
      \<lparr>raw_tag = 255, frame_kind = FRAME_FULL, frame_offset = 90, chop_count = 0,
        frame_locals = [\<lparr>vt_tag = JVM_ITEM_Uninitialized, vt_cpool_index = 0, vt_offset = 7\<rparr>],
        frame_stack = []\<rparr>], vcap = 4\<rparr>"

lemma sample_smt_wf: "wf_smt sample_smt"
  by (simp add: wf_smt_def sample_smt_def vec_inv_def wf_frame_def wf_type_def frame_delta_def i4_range_def
      i4_wrap_def)

text \<open>
  C33: a stack map nobody touched survives byte for byte. Whatever table the parser
  accepts, writing it back restores exactly the payload it came from; the only other
  outcome is a failed allocation, which leaves the attribute as it was.
\<close>

theorem stack_map_parse_write_roundtrip:
  assumes "stack_map_table_parse mem a = Inr table"
  shows "stack_map_table_write mem' table a \<in> {(CLASSFILE_OK, a), (CLASSFILE_ERR_OUT_OF_MEMORY, a)} \<and>
    (alloc_total mem' \<longrightarrow> stack_map_table_write mem' table a = (CLASSFILE_OK, a))"
proof -
  note p = stack_map_table_parse_sound [OF assms]
  then have "list_all wf_frame (items table)" "deltas_ok None (items table)"
    by (simp_all add: wf_smt_def frames_ascend_iff)
  from stack_map_table_write_eq [OF this] have
    "stack_map_table_write mem' table a \<in>
       {(CLASSFILE_ERR_OUT_OF_MEMORY, a), (CLASSFILE_OK, a\<lparr>attr_info := enc_smt table\<rparr>)}"
    "alloc_total mem' \<Longrightarrow> stack_map_table_write mem' table a = (CLASSFILE_OK, a\<lparr>attr_info := enc_smt table\<rparr>)"
    by blast+
  moreover have "a\<lparr>attr_info := enc_smt table\<rparr> = a" using p(2) by simp
  ultimately show ?thesis by auto
qed

theorem stack_map_parse_write_roundtrip_witness:
  "\<exists>table. stack_map_table_parse heap_ok \<lparr>attribute_name_index = 3, attr_info = enc_smt sample_smt\<rparr> = Inr table \<and>
     stack_map_table_write heap_ok table \<lparr>attribute_name_index = 3, attr_info = enc_smt sample_smt\<rparr> =
       (CLASSFILE_OK, \<lparr>attribute_name_index = 3, attr_info = enc_smt sample_smt\<rparr>)"
  using stack_map_table_parse_complete [OF sample_smt_wf _ alloc_total_heap_ok,
      of "\<lparr>attribute_name_index = 3, attr_info = enc_smt sample_smt\<rparr>"]
    stack_map_parse_write_roundtrip [of heap_ok "\<lparr>attribute_name_index = 3, attr_info = enc_smt sample_smt\<rparr>" _ heap_ok]
    alloc_total_heap_ok
  by auto

text \<open>
  a table that was written, after frames were moved or added, is parsed back with
  the same frames: kinds, absolute offsets, chop counts, locals and stacks are kept, and
  only the tag a frame shows may change, because the writer widens a compact frame
  whose delta no longer fits.
\<close>

theorem stack_map_write_parse_roundtrip:
  assumes "vec_inv table" "list_all wf_frame (items table)"
    "list_all (\<lambda>f. i4_range (frame_offset f)) (items table)"
    and "stack_map_table_write mem table a = (CLASSFILE_OK, a')" "alloc_total mem'"
  shows "\<exists>table'. stack_map_table_parse mem' a' = Inr table' \<and>
      map (raw_tag_update (\<lambda>_. 0)) (items table') = map (raw_tag_update (\<lambda>_. 0)) (items table) \<and>
      attribute_name_index a' = attribute_name_index a"
proof -
  have d: "deltas_ok None (items table)"
    using assms(4) by (auto simp: stack_map_table_write_def write_frames_eq Let_def split: if_splits)
  with assms(1-3) have wf: "wf_smt table" by (simp add: wf_smt_def frames_ascend_iff)
  from stack_map_table_write_eq(1) [OF assms(2) d, of mem a] assms(4)
  have a: "a' = a\<lparr>attr_info := enc_smt table\<rparr>" by auto
  have "map (raw_tag_update (\<lambda>_. 0)) (retag p fs) = map (raw_tag_update (\<lambda>_. 0)) fs" for p fs
    by (induction fs arbitrary: p) auto
  with stack_map_table_parse_complete [OF wf _ assms(5), of a'] a show ?thesis by simp
qed

theorem stack_map_write_parse_roundtrip_witness:
  "\<exists>a' table'. stack_map_table_write heap_ok sample_smt \<lparr>attribute_name_index = 3, attr_info = []\<rparr> = (CLASSFILE_OK, a') \<and>
     stack_map_table_parse heap_ok a' = Inr table' \<and>
     map (raw_tag_update (\<lambda>_. 0)) (items table') = map (raw_tag_update (\<lambda>_. 0)) (items sample_smt)"
proof -
  let ?a = "\<lparr>attribute_name_index = 3, attr_info = []\<rparr>"
  have wf: "vec_inv sample_smt" "list_all wf_frame (items sample_smt)" "deltas_ok None (items sample_smt)"
    "list_all (\<lambda>f. i4_range (frame_offset f)) (items sample_smt)"
    using sample_smt_wf by (simp_all add: wf_smt_def frames_ascend_iff)
  note w = stack_map_table_write_eq(2) [OF wf(2,3) alloc_total_heap_ok, of ?a]
  from stack_map_write_parse_roundtrip [OF wf(1,2,4) w alloc_total_heap_ok] w show ?thesis by blast
qed

text \<open>
  C34: for frames at non-negative offsets the writer refuses a table exactly when
  the deltas do not fit: the first frame lies beyond 65535, or a later frame does
  not lie strictly behind the one before it, or lies more than 65536 bytes behind it. In
  every other case it succeeds, memory permitting, and on refusal the attribute is unchanged.
\<close>

theorem stack_map_write_limit:
  assumes "list_all wf_frame (items table)" "alloc_total mem"
    "list_all (\<lambda>f. 0 \<le> frame_offset f \<and> i4_range (frame_offset f)) (items table)"
  shows "if successively (\<lambda>p q. p < q \<and> q \<le> p + 65536) (map frame_offset (items table)) \<and>
            (case items table of [] \<Rightarrow> True | f # _ \<Rightarrow> frame_offset f \<le> 65535)
    then fst (stack_map_table_write mem table a) = CLASSFILE_OK
    else stack_map_table_write mem table a = (CLASSFILE_ERR_LIMIT_EXCEEDED, a)"
proof (cases "deltas_ok None (items table)")
  case True
  with deltas_ok_offsets [OF assms(3), of None] stack_map_table_write_eq(2) [OF assms(1) True assms(2), of a]
  show ?thesis by (auto simp del: deltas_ok.simps split: list.splits)
next
  case False
  with deltas_ok_offsets [OF assms(3), of None] show ?thesis
    by (auto simp: stack_map_table_write_def write_frames_eq Let_def simp del: deltas_ok.simps split: list.splits)
qed

theorem stack_map_write_limit_witness:
  "stack_map_table_write heap_ok (sample_smt\<lparr>items := rev (items sample_smt)\<rparr>)
     \<lparr>attribute_name_index = 3, attr_info = [1]\<rparr> =
   (CLASSFILE_ERR_LIMIT_EXCEEDED, \<lparr>attribute_name_index = 3, attr_info = [1]\<rparr>)"
proof -
  have wf: "list_all wf_frame (rev (items sample_smt))"
    using sample_smt_wf by (simp add: wf_smt_def)
  have off: "list_all (\<lambda>f. 0 \<le> frame_offset f \<and> i4_range (frame_offset f)) (rev (items sample_smt))"
    by (simp add: sample_smt_def i4_range_def)
  show ?thesis
    using stack_map_write_limit [of "sample_smt\<lparr>items := rev (items sample_smt)\<rparr>" heap_ok
        "\<lparr>attribute_name_index = 3, attr_info = [1]\<rparr>"] wf off alloc_total_heap_ok
    by (simp add: sample_smt_def)
qed

end
