(* ===== verification/Type_Annotation.thy ===== *)
theory Type_Annotation
  imports Class_Tree
begin

text \<open>
  \<^verbatim>\<open>visitors/type_annotation.c\<close>: the bytecode offsets inside a
  \<open>Runtime(In)VisibleTypeAnnotations\<close> attribute of a Code attribute. Collecting walks
  the payload and records where each offset lives; flushing writes the current
  values back into the payload. The walk over nested element values is
  bounded by \<open>MAX_ANNOTATION_DEPTH\<close>, which is also why it terminates.
\<close>

unbundle bit_operations_syntax

section \<open>Data\<close>

abbreviation MAX_ANNOTATION_DEPTH :: nat where
  "MAX_ANNOTATION_DEPTH \<equiv> 32"

datatype type_annotation_ref_kind = TYPE_ANNOTATION_SPAN | TYPE_ANNOTATION_INSTRUCTION

record type_annotation_ref =
  ref_attribute_index :: u2
  ref_payload_offset :: u4
  ref_kind :: type_annotation_ref_kind
  ref_start :: i4
  ref_end :: i4

type_synonym type_annotation_refs = "type_annotation_ref vec"

definition type_annotation_refs_init :: type_annotation_refs where
  "type_annotation_refs_init = vec_init"

definition type_annotation_refs_free :: "type_annotation_refs \<Rightarrow> type_annotation_refs" where
  "type_annotation_refs_free refs = type_annotation_refs_init"

definition append_ref ::
  "alloc \<Rightarrow> type_annotation_refs \<Rightarrow> type_annotation_ref \<Rightarrow> classfile_status \<times> type_annotation_refs" where
  "append_ref mem = vec_append mem Alloc_type_annotation_ref 8"

section \<open>Stepping over annotations\<close>

text \<open>
  The loops of \<^verbatim>\<open>skip_annotation\<close> and \<^verbatim>\<open>skip_element_value\<close> are \<open>skip_pairs\<close> and
  \<open>skip_values\<close>; their \<open>depth\<close> is the \<open>depth + 1\<close> the bodies pass on.
\<close>

function skip_annotation :: "byte_cursor \<Rightarrow> nat \<Rightarrow> bool \<times> byte_cursor"
  and skip_pairs :: "nat \<Rightarrow> byte_cursor \<Rightarrow> nat \<Rightarrow> bool \<times> byte_cursor"
  and skip_element_value :: "byte_cursor \<Rightarrow> nat \<Rightarrow> bool \<times> byte_cursor"
  and skip_values :: "nat \<Rightarrow> byte_cursor \<Rightarrow> nat \<Rightarrow> bool \<times> byte_cursor"
where
  "skip_annotation c depth =
     (if depth > MAX_ANNOTATION_DEPTH then (False, c)
      else
        let (type_index, c) = byte_cursor_u2 c; (pairs, c) = byte_cursor_u2 c in
        if \<not> byte_cursor_ok c then (False, c)
        else
          let (ok, c) = skip_pairs (unat pairs) c (depth + 1) in
          if \<not> ok then (False, c) else (byte_cursor_ok c, c))"
| "skip_pairs 0 c depth = (True, c)"
| "skip_pairs (Suc n) c depth =
     (let (name_index, c) = byte_cursor_u2 c; (ok, c) = skip_element_value c depth in
      if \<not> ok then (False, c) else skip_pairs n c depth)"
| "skip_element_value c depth =
     (if depth > MAX_ANNOTATION_DEPTH then (False, c)
      else
        let (tag, c) = byte_cursor_u1 c in
        if \<not> byte_cursor_ok c then (False, c)
        else if tag \<in> set (cstr ''BCDFIJSZsc'') then
          let (v, c) = byte_cursor_u2 c in (byte_cursor_ok c, c)
        else if tag \<in> set (cstr ''e'') then
          let (v, c) = byte_cursor_u2 c; (w, c) = byte_cursor_u2 c in (byte_cursor_ok c, c)
        else if tag \<in> set (cstr ''@'') then
          let (ok, c) = skip_annotation c (depth + 1) in
          if \<not> ok then (False, c) else (byte_cursor_ok c, c)
        else if tag \<in> set (cstr ''['') then
          let (values, c) = byte_cursor_u2 c in
          if \<not> byte_cursor_ok c then (False, c)
          else
            let (ok, c) = skip_values (unat values) c (depth + 1) in
            if \<not> ok then (False, c) else (byte_cursor_ok c, c)
        else (False, c))"
| "skip_values 0 c depth = (True, c)"
| "skip_values (Suc n) c depth =
     (let (ok, c) = skip_element_value c depth in
      if \<not> ok then (False, c) else skip_values n c depth)"
  by pat_completeness auto
termination
  by (relation "measures [\<lambda>x. case x of Inl (Inl (c, d)) \<Rightarrow> 34 - d | Inl (Inr (n, c, d)) \<Rightarrow> 34 - d
                    | Inr (Inl (c, d)) \<Rightarrow> 34 - d | Inr (Inr (n, c, d)) \<Rightarrow> 34 - d,
                  \<lambda>x. case x of Inl (Inl (c, d)) \<Rightarrow> 0 | Inl (Inr (n, c, d)) \<Rightarrow> Suc n
                    | Inr (Inl (c, d)) \<Rightarrow> 0 | Inr (Inr (n, c, d)) \<Rightarrow> Suc n]") auto

declare skip_annotation.simps [simp del] skip_element_value.simps [simp del]

section \<open>Collecting\<close>

fun read_spans ::
  "alloc \<Rightarrow> nat \<Rightarrow> u2 \<Rightarrow> byte_cursor \<Rightarrow> type_annotation_refs \<Rightarrow>
   classfile_status \<times> byte_cursor \<times> type_annotation_refs" where
  "read_spans mem 0 index c refs = (CLASSFILE_OK, c, refs)"
| "read_spans mem (Suc n) index c refs =
     (let at = of_nat (byte_cursor_offset c);
          (start, c) = byte_cursor_u2 c; (len, c) = byte_cursor_u2 c; (slot, c) = byte_cursor_u2 c in
      if \<not> byte_cursor_ok c then (CLASSFILE_ERR_TRUNCATED, c, refs)
      else
        let (status, refs) = append_ref mem refs
              \<lparr>ref_attribute_index = index, ref_payload_offset = at, ref_kind = TYPE_ANNOTATION_SPAN,
               ref_start = uint start, ref_end = uint start + uint len\<rparr> in
        if status \<noteq> CLASSFILE_OK then (status, c, refs)
        else read_spans mem n index c refs)"

definition read_instruction_ref ::
  "alloc \<Rightarrow> bool \<Rightarrow> u2 \<Rightarrow> byte_cursor \<Rightarrow> type_annotation_refs \<Rightarrow>
   classfile_status \<times> byte_cursor \<times> type_annotation_refs" where
  "read_instruction_ref mem argument index c refs =
     (let at = of_nat (byte_cursor_offset c);
          (v, c) = byte_cursor_u2 c;
          c = (if argument then snd (byte_cursor_u1 c) else c) in
      if \<not> byte_cursor_ok c then (CLASSFILE_ERR_TRUNCATED, c, refs)
      else
        let (status, refs) = append_ref mem refs
              \<lparr>ref_attribute_index = index, ref_payload_offset = at, ref_kind = TYPE_ANNOTATION_INSTRUCTION,
               ref_start = uint v, ref_end = 0\<rparr> in
        (status, c, refs))"

definition read_target ::
  "alloc \<Rightarrow> u1 \<Rightarrow> u2 \<Rightarrow> byte_cursor \<Rightarrow> type_annotation_refs \<Rightarrow>
   classfile_status \<times> byte_cursor \<times> type_annotation_refs" where
  "read_target mem target_type index c refs =
     (let plain = (\<lambda>c. (if byte_cursor_ok c then CLASSFILE_OK else CLASSFILE_ERR_TRUNCATED, c, refs)) in
      if target_type \<in> set [0x00, 0x01, 0x16] then plain (snd (byte_cursor_u1 c))
      else if target_type \<in> set [0x10, 0x17, 0x42] then plain (snd (byte_cursor_u2 c))
      else if target_type \<in> set [0x11, 0x12] then plain (snd (byte_cursor_u1 (snd (byte_cursor_u1 c))))
      else if target_type \<in> set [0x13, 0x14, 0x15] then plain c
      else if target_type \<in> set [0x40, 0x41] then
        let (entries, c) = byte_cursor_u2 c in
        if \<not> byte_cursor_ok c then (CLASSFILE_ERR_TRUNCATED, c, refs)
        else
          let (status, c, refs) = read_spans mem (unat entries) index c refs in
          if status \<noteq> CLASSFILE_OK then (status, c, refs)
          else (if byte_cursor_ok c then CLASSFILE_OK else CLASSFILE_ERR_TRUNCATED, c, refs)
      else if target_type \<in> set [0x43, 0x44, 0x45, 0x46] then read_instruction_ref mem False index c refs
      else if target_type \<in> set [0x47, 0x48, 0x49, 0x4A, 0x4B] then read_instruction_ref mem True index c refs
      else (CLASSFILE_ERR_UNSUPPORTED, c, refs))"

fun skip_path :: "nat \<Rightarrow> byte_cursor \<Rightarrow> byte_cursor" where
  "skip_path 0 c = c"
| "skip_path (Suc n) c = skip_path n (snd (byte_cursor_u1 (snd (byte_cursor_u1 c))))"

text \<open>What follows the target of one annotation: the type path and the annotation itself.\<close>

definition skip_rest :: "byte_cursor \<Rightarrow> bool \<times> byte_cursor" where
  "skip_rest c =
     (let (path_length, c) = byte_cursor_u1 c in
      if \<not> byte_cursor_ok c then (False, c)
      else
        let c = skip_path (unat path_length) c in
        if \<not> byte_cursor_ok c then (False, c) else skip_annotation c 0)"

fun collect_loop ::
  "alloc \<Rightarrow> nat \<Rightarrow> u2 \<Rightarrow> byte_cursor \<Rightarrow> type_annotation_refs \<Rightarrow>
   classfile_status \<times> byte_cursor \<times> type_annotation_refs" where
  "collect_loop mem 0 index c refs = (CLASSFILE_OK, c, refs)"
| "collect_loop mem (Suc n) index c refs =
     (let (target_type, c) = byte_cursor_u1 c in
      if \<not> byte_cursor_ok c then (CLASSFILE_ERR_TRUNCATED, c, refs)
      else
        let (status, c, refs) = read_target mem target_type index c refs in
        if status \<noteq> CLASSFILE_OK then (status, c, refs)
        else
          let (ok, c) = skip_rest c in
          if \<not> ok then (CLASSFILE_ERR_TRUNCATED, c, refs)
          else collect_loop mem n index c refs)"

definition type_annotation_collect ::
  "alloc \<Rightarrow> attribute_info \<Rightarrow> u2 \<Rightarrow> type_annotation_refs \<Rightarrow> classfile_status \<times> type_annotation_refs" where
  "type_annotation_collect mem attribute index refs =
     (let (count, c) = byte_cursor_u2 (byte_cursor_init (attr_info attribute)) in
      if \<not> byte_cursor_ok c then (CLASSFILE_ERR_TRUNCATED, refs)
      else
        let (status, c, refs) = collect_loop mem (unat count) index c refs in
        if status \<noteq> CLASSFILE_OK then (status, refs)
        else (if byte_cursor_exhausted c then CLASSFILE_OK else CLASSFILE_ERR_TRAILING_BYTES, refs))"

definition type_annotation_is_carrier :: "constant_pool \<Rightarrow> u2 \<Rightarrow> bool" where
  "type_annotation_is_carrier pool index \<longleftrightarrow>
     constant_pool_utf8_equals pool index (cstr ''RuntimeVisibleTypeAnnotations'') \<or>
     constant_pool_utf8_equals pool index (cstr ''RuntimeInvisibleTypeAnnotations'')"

section \<open>Flushing\<close>

definition write_u2 :: "u1 list \<Rightarrow> nat \<Rightarrow> u2 \<Rightarrow> u1 list" where
  "write_u2 payload at v = payload[at := ucast (drop_bit 8 v), at + 1 := ucast (v AND 0xFF)]"

definition flush_ref ::
  "type_annotation_ref \<Rightarrow> attribute_list \<Rightarrow> classfile_status \<times> attribute_list" where
  "flush_ref ref list =
     (if ref_attribute_index ref \<ge> vec_count list then (CLASSFILE_ERR_UNSUPPORTED, list)
      else
        let i = unat (ref_attribute_index ref);
            attribute = items list ! i;
            at = unat (ref_payload_offset ref);
            put = (\<lambda>info. list\<lparr>items := (items list)[i := attribute\<lparr>attr_info := info\<rparr>]\<rparr>);
            span = (if ref_kind ref = TYPE_ANNOTATION_SPAN then 4 else 2) in
        if attr_info attribute = [] \<or> ref_payload_offset ref + span > attribute_length attribute
        then (CLASSFILE_ERR_UNSUPPORTED, list)
        else if ref_start ref < 0 \<or> ref_start ref > int JVM_MAX_CODE_LENGTH
        then (CLASSFILE_ERR_CODE_TOO_LARGE, list)
        else
          let info = write_u2 (attr_info attribute) at (of_int (ref_start ref)) in
          if ref_kind ref \<noteq> TYPE_ANNOTATION_SPAN then (CLASSFILE_OK, put info)
          else if ref_end ref < ref_start ref \<or> ref_end ref > int JVM_MAX_CODE_LENGTH
          then (CLASSFILE_ERR_CODE_TOO_LARGE, put info)
          else (CLASSFILE_OK, put (write_u2 info (at + 2) (of_int (ref_end ref - ref_start ref)))))"

fun flush_loop ::
  "type_annotation_ref list \<Rightarrow> attribute_list \<Rightarrow> classfile_status \<times> attribute_list" where
  "flush_loop [] list = (CLASSFILE_OK, list)"
| "flush_loop (r # rs) list =
     (let (status, list) = flush_ref r list in
      if status \<noteq> CLASSFILE_OK then (status, list) else flush_loop rs list)"

definition type_annotation_flush ::
  "type_annotation_refs \<Rightarrow> attribute_list \<Rightarrow> classfile_status \<times> attribute_list" where
  "type_annotation_flush refs list = flush_loop (items refs) list"


section \<open>A walk is decided by what it does not record\<close>

text \<open>
  A payload is a sequence of opaque bytes, of recorded spans and of recorded
  instruction offsets. Every reader below leaves such a decomposition behind, records
  exactly its offsets, and takes the same way through any payload that differs
  in the recorded values only.
\<close>

datatype seg = Raw "u1 list" | Span u2 u2 | Point u2

fun seg_bytes :: "seg \<Rightarrow> u1 list" where
  "seg_bytes (Raw bs) = bs"
| "seg_bytes (Span s l) = be2 s @ be2 l"
| "seg_bytes (Point v) = be2 v"

definition enc_segs :: "seg list \<Rightarrow> u1 list" where
  "enc_segs ss = concat (map seg_bytes ss)"

lemma enc_segs_simps [simp]:
  "enc_segs [] = []" "enc_segs (s # ss) = seg_bytes s @ enc_segs ss" "enc_segs (ss @ ts) = enc_segs ss @ enc_segs ts"
  by (simp_all add: enc_segs_def)

fun seg_refs :: "u2 \<Rightarrow> nat \<Rightarrow> seg \<Rightarrow> type_annotation_ref list" where
  "seg_refs index pos (Raw bs) = []"
| "seg_refs index pos (Span s l) =
     [\<lparr>ref_attribute_index = index, ref_payload_offset = of_nat pos, ref_kind = TYPE_ANNOTATION_SPAN,
       ref_start = uint s, ref_end = uint s + uint l\<rparr>]"
| "seg_refs index pos (Point v) =
     [\<lparr>ref_attribute_index = index, ref_payload_offset = of_nat pos, ref_kind = TYPE_ANNOTATION_INSTRUCTION,
       ref_start = uint v, ref_end = 0\<rparr>]"

fun refs_of :: "u2 \<Rightarrow> nat \<Rightarrow> seg list \<Rightarrow> type_annotation_ref list" where
  "refs_of index pos [] = []"
| "refs_of index pos (s # ss) = seg_refs index pos s @ refs_of index (pos + length (seg_bytes s)) ss"

fun seg_like :: "seg \<Rightarrow> seg \<Rightarrow> bool" where
  "seg_like (Raw bs) s \<longleftrightarrow> s = Raw bs"
| "seg_like (Span _ _) s \<longleftrightarrow> (\<exists>a b. s = Span a b)"
| "seg_like (Point _) s \<longleftrightarrow> (\<exists>a. s = Point a)"

abbreviation same_shape :: "seg list \<Rightarrow> seg list \<Rightarrow> bool" where
  "same_shape \<equiv> list_all2 seg_like"

lemma seg_like_length: "seg_like s t \<Longrightarrow> length (seg_bytes t) = length (seg_bytes s)"
  by (cases s) auto

lemma same_shape_length: "same_shape ss ts \<Longrightarrow> length (enc_segs ts) = length (enc_segs ss)"
  by (induction rule: list_all2_induct) (auto dest: seg_like_length)

lemma seg_like_refs: "seg_like s t \<Longrightarrow> length (seg_refs i p t) = length (seg_refs i p s)"
  by (cases s) auto

lemma same_shape_refs: "same_shape ss ts \<Longrightarrow> length (refs_of i p ts) = length (refs_of i p ss)"
  by (induction arbitrary: p rule: list_all2_induct) (simp_all add: seg_like_length seg_like_refs [of _ _ i])

lemma refs_of_append:
  "refs_of i p (ss @ ts) = refs_of i p ss @ refs_of i (p + length (enc_segs ss)) ts"
  by (induction ss arbitrary: p) (simp_all add: add.assoc)

subsection \<open>Stepping over\<close>

lemma spans_u1D: "spans c (be1 v) c' \<Longrightarrow> byte_cursor_u1 c = (v, c') \<and> cur_ok c'"
  and spans_u2D: "spans c (be2 w) c' \<Longrightarrow> byte_cursor_u2 c = (w, c') \<and> cur_ok c'"
  by (simp_all add: spans_u1 spans_u2 spans_ok)

definition steps_over :: "(byte_cursor \<Rightarrow> bool \<times> byte_cursor) \<Rightarrow> byte_cursor \<Rightarrow> byte_cursor \<Rightarrow> bool" where
  "steps_over f c c' \<longleftrightarrow> (\<exists>bs. spans c bs c' \<and> (\<forall>e e'. spans e bs e' \<longrightarrow> f e = (True, e')))"

lemma steps_overI: "spans c bs c' \<Longrightarrow> (\<And>e e'. spans e bs e' \<Longrightarrow> f e = (True, e')) \<Longrightarrow> steps_over f c c'"
  unfolding steps_over_def by blast

lemma steps_over_ok: "steps_over f c c' \<Longrightarrow> cur_ok c \<and> cur_ok c'"
  unfolding steps_over_def using spans_ok by blast

lemma skip_annotation_over:
  "skip_annotation c d = (True, c') \<Longrightarrow> steps_over (\<lambda>e. skip_annotation e d) c c'"
  and skip_pairs_over:
  "skip_pairs n c d = (True, c') \<Longrightarrow> cur_ok c \<Longrightarrow> steps_over (\<lambda>e. skip_pairs n e d) c c'"
  and skip_element_value_over:
  "skip_element_value c d = (True, c') \<Longrightarrow> steps_over (\<lambda>e. skip_element_value e d) c c'"
  and skip_values_over:
  "skip_values n c d = (True, c') \<Longrightarrow> cur_ok c \<Longrightarrow> steps_over (\<lambda>e. skip_values n e d) c c'"
proof (induction c d and n c d and c d and n c d arbitrary: c' and c' and c' and c'
    rule: skip_annotation_skip_pairs_skip_element_value_skip_values.induct)
  case (1 c d)
  then obtain t c1 p c2 where r: "d \<le> MAX_ANNOTATION_DEPTH" "byte_cursor_u2 c = (t, c1)" "byte_cursor_u2 c1 = (p, c2)"
    "cur_ok c2" "skip_pairs (unat p) c2 (d + 1) = (True, c')" "cur_ok c'"
    by (auto simp: skip_annotation.simps [of c d] byte_cursor_ok_def Let_def split: if_splits prod.splits)
  have "steps_over (\<lambda>e. skip_pairs (unat p) e (d + 1)) c2 c'"
    by (rule "1.IH" [OF _ r(2) [symmetric] refl r(3) [symmetric] refl _ r(5) r(4)])
       (use r in \<open>auto simp: byte_cursor_ok_def\<close>)
  then obtain bs where bs: "spans c2 bs c'" "\<And>e e'. spans e bs e' \<Longrightarrow> skip_pairs (unat p) e (d + 1) = (True, e')"
    unfolding steps_over_def by blast
  from read_u2D [OF r(3,4)] have s2: "cur_ok c1" "spans c1 (be2 p) c2" by auto
  from read_u2D [OF r(2) s2(1)] have s1: "spans c (be2 t) c1" by auto
  show ?case
  proof (rule steps_overI [OF spans_trans [OF s1 spans_trans [OF s2(2) bs(1)]]])
    fix e e'
    assume "spans e (be2 t @ be2 p @ bs) e'"
    then obtain e1 e2 where e: "spans e (be2 t) e1" "spans e1 (be2 p) e2" "spans e2 bs e'"
      by (auto simp: spans_append)
    with spans_u2 [OF e(1)] spans_u2 [OF e(2)] spans_ok [OF e(3)] bs(2) [OF e(3)] r(1)
    show "skip_annotation e d = (True, e')"
      by (simp add: skip_annotation.simps [of e d] byte_cursor_ok_def)
  qed
next
  case (2 c d)
  then show ?case by (intro steps_overI [of c "[]"]) simp_all
next
  case (3 n c d)
  then obtain t c1 c2 where r: "byte_cursor_u2 c = (t, c1)" "skip_element_value c1 d = (True, c2)"
    "skip_pairs n c2 d = (True, c')" by (auto split: if_splits prod.splits)
  from "3.IH"(1) [OF r(1) [symmetric] refl r(2)] obtain b1 where b1: "spans c1 b1 c2"
    "\<And>e e'. spans e b1 e' \<Longrightarrow> skip_element_value e d = (True, e')" unfolding steps_over_def by blast
  from "3.IH"(2) [OF r(1) [symmetric] refl r(2) [symmetric] refl _ r(3)] spans_ok [OF b1(1)]
  obtain b2 where b2: "spans c2 b2 c'" "\<And>e e'. spans e b2 e' \<Longrightarrow> skip_pairs n e d = (True, e')"
    unfolding steps_over_def by auto
  from read_u2D [OF r(1)] spans_ok [OF b1(1)] have s: "spans c (be2 t) c1" by auto
  show ?case
    by (rule steps_overI [OF spans_trans [OF s spans_trans [OF b1(1) b2(1)]]])
       (auto simp: spans_append dest!: spans_u2 b1(2) b2(2))
next
  case (4 c d)
  then obtain tag c1 where r: "d \<le> MAX_ANNOTATION_DEPTH" "byte_cursor_u1 c = (tag, c1)" "cur_ok c1"
    by (auto simp: skip_element_value.simps [of c d] byte_cursor_ok_def Let_def split: if_splits prod.splits)
  have c1: "spans c (be1 tag) c1" using read_u1D [OF r(2,3)] by simp
  have fin: ?case if "spans c1 bs c'"
    "\<And>e e0 e'. byte_cursor_u1 e = (tag, e0) \<Longrightarrow> cur_ok e0 \<Longrightarrow> spans e0 bs e' \<Longrightarrow> skip_element_value e d = (True, e')"
    for bs
    by (rule steps_overI [OF spans_trans [OF c1 that(1)]])
       (auto simp: spans_append dest!: spans_u1 intro: that(2) dest: spans_ok)
  let ?A = "set (cstr ''BCDFIJSZsc'')" and ?E = "set (cstr ''e'')" and ?N = "set (cstr ''@'')" and ?V = "set (cstr ''['')"
  consider (a) "tag \<in> ?A" | (e) "tag \<notin> ?A" "tag \<in> ?E" | (n) "tag \<notin> ?A" "tag \<notin> ?E" "tag \<in> ?N"
    | (v) "tag \<notin> ?A" "tag \<notin> ?E" "tag \<notin> ?N" "tag \<in> ?V" | (z) "tag \<notin> ?A" "tag \<notin> ?E" "tag \<notin> ?N" "tag \<notin> ?V"
    by blast
  then show ?case
  proof cases
    case a
    with "4.prems" r obtain x where "byte_cursor_u2 c1 = (x, c')" "cur_ok c'"
      by (auto simp: skip_element_value.simps [of c d] byte_cursor_ok_def split: prod.splits)
    with read_u2D have "spans c1 (be2 x) c'" by blast
    then show ?thesis
      by (rule fin) (use a r(1) in \<open>auto simp: skip_element_value.simps [of _ d] byte_cursor_ok_def dest!: spans_u2D\<close>)
  next
    case e
    with "4.prems" r obtain x c2 y where x: "byte_cursor_u2 c1 = (x, c2)" "byte_cursor_u2 c2 = (y, c')" "cur_ok c'"
      by (auto simp: skip_element_value.simps [of c d] byte_cursor_ok_def split: prod.splits)
    from read_u2D [OF x(2,3)] read_u2D [OF x(1)] have "spans c1 (be2 x @ be2 y) c'"
      by (auto intro: spans_trans)
    then show ?thesis
      by (rule fin) (use e r(1) in \<open>auto simp: skip_element_value.simps [of _ d] byte_cursor_ok_def spans_append dest: spans_ok dest!: spans_u2D\<close>)
  next
    case n
    with "4.prems" r have k: "skip_annotation c1 (d + 1) = (True, c')"
      by (auto simp: skip_element_value.simps [of c d] byte_cursor_ok_def split: prod.splits if_splits)
    from "4.IH"(1) [OF _ r(2) [symmetric] refl _ n(1,2,3) k] r obtain bs where bs: "spans c1 bs c'"
      "\<And>e e'. spans e bs e' \<Longrightarrow> skip_annotation e (d + 1) = (True, e')"
      unfolding steps_over_def by (auto simp: byte_cursor_ok_def)
    from bs(1) show ?thesis
      by (rule fin) (use n r(1) bs(2) in \<open>auto simp: skip_element_value.simps [of _ d] byte_cursor_ok_def dest: spans_ok\<close>)
  next
    case v
    with "4.prems" r obtain x c2 where x: "byte_cursor_u2 c1 = (x, c2)" "cur_ok c2"
      and k: "skip_values (unat x) c2 (d + 1) = (True, c')"
      by (auto simp: skip_element_value.simps [of c d] byte_cursor_ok_def Let_def split: prod.splits if_splits)
    from "4.IH"(2) [OF _ r(2) [symmetric] refl _ v(1-4) x(1) [symmetric] refl _ k] r x obtain bs where
      bs: "spans c2 bs c'" "\<And>e e'. spans e bs e' \<Longrightarrow> skip_values (unat x) e (d + 1) = (True, e')"
      unfolding steps_over_def by (auto simp: byte_cursor_ok_def)
    from spans_trans [OF _ bs(1)] read_u2D [OF x] have "spans c1 (be2 x @ bs) c'" by blast
    then show ?thesis
      by (rule fin) (use v r(1) bs(2) in \<open>auto simp: skip_element_value.simps [of _ d] byte_cursor_ok_def spans_append dest: spans_ok dest!: spans_u2D\<close>)
  next
    case z
    with "4.prems" r show ?thesis by (simp add: skip_element_value.simps [of c d] byte_cursor_ok_def)
  qed
next
  case (5 c d)
  then show ?case by (intro steps_overI [of c "[]"]) simp_all
next
  case (6 n c d)
  then obtain c2 where r: "skip_element_value c d = (True, c2)" "skip_values n c2 d = (True, c')"
    by (auto split: if_splits prod.splits)
  from "6.IH"(1) [OF r(1)] obtain b1 where b1: "spans c b1 c2"
    "\<And>e e'. spans e b1 e' \<Longrightarrow> skip_element_value e d = (True, e')" unfolding steps_over_def by blast
  from "6.IH"(2) [OF r(1) [symmetric] refl _ r(2)] spans_ok [OF b1(1)]
  obtain b2 where b2: "spans c2 b2 c'" "\<And>e e'. spans e b2 e' \<Longrightarrow> skip_values n e d = (True, e')"
    unfolding steps_over_def by auto
  show ?case
    by (rule steps_overI [OF spans_trans [OF b1(1) b2(1)]]) (auto simp: spans_append dest!: b1(2) b2(2))
qed


subsection \<open>Recording\<close>

interpretation type_annotation_refs: counted_list "\<lambda>mem. vec_reserve mem Alloc_type_annotation_ref" append_ref items
  "\<lambda>v. unat (vcap v)" vec_inv
  unfolding append_ref_def [abs_def] by (rule vec_counted_list) simp

lemma append_ref_total:
  "vec_inv refs \<Longrightarrow> length (items refs) < 65535 \<Longrightarrow> alloc_total mem \<Longrightarrow>
   \<exists>refs'. append_ref mem refs r = (CLASSFILE_OK, refs') \<and> vec_inv refs' \<and> items refs' = items refs @ [r]"
  using vec_append_total [of refs mem Alloc_type_annotation_ref 8 r]
    type_annotation_refs.append_ok [of refs mem r "snd (append_ref mem refs r)"]
  by (cases "append_ref mem refs r") (auto simp: append_ref_def)

type_synonym ref_reader =
  "alloc \<Rightarrow> byte_cursor \<Rightarrow> type_annotation_refs \<Rightarrow> classfile_status \<times> byte_cursor \<times> type_annotation_refs"

definition rewalks :: "u2 \<Rightarrow> ref_reader \<Rightarrow> seg list \<Rightarrow> nat \<Rightarrow> nat \<Rightarrow> bool" where
  "rewalks i f segs pos n \<longleftrightarrow>
     (\<forall>mem segs' e e' rs. alloc_total mem \<longrightarrow> same_shape segs segs' \<longrightarrow> spans e (enc_segs segs') e' \<longrightarrow>
        cur_pos e = pos \<longrightarrow> vec_inv rs \<longrightarrow> length (items rs) = n \<longrightarrow>
        (\<exists>rs2. f mem e rs = (CLASSFILE_OK, e', rs2) \<and> vec_inv rs2 \<and>
               items rs2 = items rs @ refs_of i pos segs'))"

lemma rewalksI:
  "(\<And>mem segs' e e' rs. alloc_total mem \<Longrightarrow> same_shape segs segs' \<Longrightarrow> spans e (enc_segs segs') e' \<Longrightarrow>
      cur_pos e = pos \<Longrightarrow> vec_inv rs \<Longrightarrow> length (items rs) = n \<Longrightarrow>
      \<exists>rs2. f mem e rs = (CLASSFILE_OK, e', rs2) \<and> vec_inv rs2 \<and> items rs2 = items rs @ refs_of i pos segs') \<Longrightarrow>
   rewalks i f segs pos n"
  unfolding rewalks_def by blast

lemma rewalksD:
  "rewalks i f segs pos n \<Longrightarrow> alloc_total mem \<Longrightarrow> same_shape segs segs' \<Longrightarrow> spans e (enc_segs segs') e' \<Longrightarrow>
   cur_pos e = pos \<Longrightarrow> vec_inv rs \<Longrightarrow> length (items rs) = n \<Longrightarrow>
   \<exists>rs2. f mem e rs = (CLASSFILE_OK, e', rs2) \<and> vec_inv rs2 \<and> items rs2 = items rs @ refs_of i pos segs'"
  unfolding rewalks_def by blast

definition walks ::
  "u2 \<Rightarrow> ref_reader \<Rightarrow> byte_cursor \<Rightarrow> type_annotation_refs \<Rightarrow> byte_cursor \<Rightarrow> type_annotation_refs \<Rightarrow> bool" where
  "walks i f c rs c' rs' \<longleftrightarrow> vec_inv rs' \<and>
     (\<exists>segs. spans c (enc_segs segs) c' \<and> items rs' = items rs @ refs_of i (cur_pos c) segs \<and>
       rewalks i f segs (cur_pos c) (length (items rs)))"

lemma walksI:
  "vec_inv rs' \<Longrightarrow> spans c (enc_segs segs) c' \<Longrightarrow> items rs' = items rs @ refs_of i (cur_pos c) segs \<Longrightarrow>
   rewalks i f segs (cur_pos c) (length (items rs)) \<Longrightarrow> walks i f c rs c' rs'"
  unfolding walks_def by blast

lemma walksE:
  assumes "walks i f c rs c' rs'"
  obtains segs where "vec_inv rs'" "spans c (enc_segs segs) c'" "items rs' = items rs @ refs_of i (cur_pos c) segs"
    "rewalks i f segs (cur_pos c) (length (items rs))"
  using assms unfolding walks_def by blast

lemma walks_ok: "walks i f c rs c' rs' \<Longrightarrow> cur_ok c \<and> cur_ok c' \<and> vec_inv rs'"
  unfolding walks_def using spans_ok by blast

lemma walks_mono:
  assumes "walks i f c rs c' rs'" "\<And>m e r e' r'. f m e r = (CLASSFILE_OK, e', r') \<Longrightarrow> f' m e r = (CLASSFILE_OK, e', r')"
  shows "walks i f' c rs c' rs'"
proof -
  from assms(1) obtain segs where s: "vec_inv rs'" "spans c (enc_segs segs) c'" "items rs' = items rs @ refs_of i (cur_pos c) segs"
    "rewalks i f segs (cur_pos c) (length (items rs))" by (rule walksE)
  have "rewalks i f' segs (cur_pos c) (length (items rs))"
    by (rule rewalksI) (use rewalksD [OF s(4)] assms(2) in blast)
  with s show ?thesis by (intro walksI)
qed

definition then_walk :: "ref_reader \<Rightarrow> ref_reader \<Rightarrow> ref_reader" where
  "then_walk f g mem c rs =
     (let (status, c, rs) = f mem c rs in if status \<noteq> CLASSFILE_OK then (status, c, rs) else g mem c rs)"

lemma walks_then:
  assumes "walks i f c rs d rs1" "walks i g d rs1 c' rs2"
  shows "walks i (then_walk f g) c rs c' rs2"
proof -
  from assms(1) obtain s1 where s1: "spans c (enc_segs s1) d" "items rs1 = items rs @ refs_of i (cur_pos c) s1"
    "rewalks i f s1 (cur_pos c) (length (items rs))" by (rule walksE)
  from assms(2) obtain s2 where s2: "spans d (enc_segs s2) c'" "items rs2 = items rs1 @ refs_of i (cur_pos d) s2" "vec_inv rs2"
    "rewalks i g s2 (cur_pos d) (length (items rs1))" by (rule walksE)
  have d: "cur_pos d = cur_pos c + length (enc_segs s1)" using spans_length [OF s1(1)] by simp
  show ?thesis
  proof (rule walksI [where segs = "s1 @ s2"])
    show "vec_inv rs2" by (rule s2(3))
    show "spans c (enc_segs (s1 @ s2)) c'" using spans_trans [OF s1(1) s2(1)] by simp
    show "items rs2 = items rs @ refs_of i (cur_pos c) (s1 @ s2)" using s1 s2 d by (simp add: refs_of_append)
    show "rewalks i (then_walk f g) (s1 @ s2) (cur_pos c) (length (items rs))"
    proof (rule rewalksI)
      fix mem segs' e e' and r :: type_annotation_refs
      assume a: "alloc_total mem" "same_shape (s1 @ s2) segs'" "spans e (enc_segs segs') e'" "cur_pos e = cur_pos c"
        "vec_inv r" "length (items r) = length (items rs)"
      then obtain t1 t2 where t: "segs' = t1 @ t2" "same_shape s1 t1" "same_shape s2 t2"
        by (auto simp: list_all2_append1)
      with a(3) obtain e1 where e: "spans e (enc_segs t1) e1" "spans e1 (enc_segs t2) e'" by (auto simp: spans_append)
      from rewalksD [OF s1(3) a(1) t(2) e(1) a(4-6)] obtain r2 where r2: "f mem e r = (CLASSFILE_OK, e1, r2)" "vec_inv r2"
        "items r2 = items r @ refs_of i (cur_pos c) t1" by blast
      have p: "cur_pos c + length (enc_segs t1) = cur_pos d" "cur_pos e1 = cur_pos d"
        using spans_length [OF e(1)] same_shape_length [OF t(2)] a(4) d by simp_all
      have "length (items r2) = length (items rs1)"
        using r2(3) s1(2) same_shape_refs [OF t(2)] a(6) by simp
      from rewalksD [OF s2(4) a(1) t(3) e(2) p(2) r2(2) this] r2 t(1) p(1)
      show "\<exists>r3. then_walk f g mem e r = (CLASSFILE_OK, e', r3) \<and> vec_inv r3 \<and>
          items r3 = items r @ refs_of i (cur_pos c) segs'"
        by (auto simp: then_walk_def refs_of_append)
    qed
  qed
qed

lemma walks_return: "cur_ok c \<Longrightarrow> vec_inv rs \<Longrightarrow> walks i (\<lambda>m c rs. (CLASSFILE_OK, c, rs)) c rs c rs"
  by (rule walksI [where segs = "[]"]) (auto intro!: rewalksI)

definition over :: "(byte_cursor \<Rightarrow> bool \<times> byte_cursor) \<Rightarrow> ref_reader" where
  "over g mem c rs = (let (ok, c) = g c in (if ok then CLASSFILE_OK else CLASSFILE_ERR_TRUNCATED, c, rs))"

lemma walks_over: "steps_over g c c' \<Longrightarrow> vec_inv rs \<Longrightarrow> walks i (over g) c rs c' rs"
  unfolding steps_over_def
  by (elim exE conjE, rule_tac segs = "[Raw bs]" in walksI)
     (auto simp: over_def list_all2_Cons1 intro!: rewalksI)

lemma steps_over_u1: "byte_cursor_u1 c = (v, c') \<Longrightarrow> cur_ok c' \<Longrightarrow>
    steps_over (\<lambda>c. let (w, c) = byte_cursor_u1 c in (w = v \<and> cur_ok c, c)) c c'"
  by (rule steps_overI [of c "be1 v"]) (auto dest!: spans_u1D dest: byte_cursor_u1_spans)

lemma steps_over_u2: "byte_cursor_u2 c = (v, c') \<Longrightarrow> cur_ok c' \<Longrightarrow>
    steps_over (\<lambda>c. let (w, c) = byte_cursor_u2 c in (w = v \<and> cur_ok c, c)) c c'"
  by (rule steps_overI [of c "be2 v"]) (auto dest!: spans_u2D dest: byte_cursor_u2_spans)


subsection \<open>The readers\<close>

lemma append_ref_D:
  "vec_inv rs \<Longrightarrow> append_ref mem rs r = (CLASSFILE_OK, rs') \<Longrightarrow>
   vec_inv rs' \<and> items rs' = items rs @ [r] \<and> length (items rs) < 65535"
  using type_annotation_refs.append_ok [of rs mem r rs'] vec_inv_length [of rs'] by auto

definition read_span :: "u2 \<Rightarrow> ref_reader" where
  "read_span index mem c refs = read_spans mem 1 index c refs"

lemma read_spans_Suc: "read_spans mem (Suc n) i c rs = then_walk (read_span i) (\<lambda>m. read_spans m n i) mem c rs"
  by (simp add: then_walk_def read_span_def Let_def split: prod.splits if_splits)

lemma read_span_walks:
  assumes "read_span i mem c rs = (CLASSFILE_OK, c', rs')" "vec_inv rs"
  shows "walks i (read_span i) c rs c' rs'"
proof -
  from assms(1) obtain s c1 l c2 x where r: "byte_cursor_u2 c = (s, c1)" "byte_cursor_u2 c1 = (l, c2)"
    "byte_cursor_u2 c2 = (x, c')" "cur_ok c'"
    and a: "append_ref mem rs \<lparr>ref_attribute_index = i, ref_payload_offset = of_nat (cur_pos c),
      ref_kind = TYPE_ANNOTATION_SPAN, ref_start = uint s, ref_end = uint s + uint l\<rparr> = (CLASSFILE_OK, rs')"
    by (auto simp: read_span_def byte_cursor_ok_def byte_cursor_offset_def Let_def split: prod.splits if_splits)
  note rs' = append_ref_D [OF assms(2) a]
  from read_u2D [OF r(3,4)] read_u2D [OF r(2)] read_u2D [OF r(1)]
  have sp: "spans c (enc_segs [Span s l, Raw (be2 x)]) c'" by (auto intro: spans_trans)
  show ?thesis
  proof (rule walksI [OF _ sp])
    show "rewalks i (read_span i) [Span s l, Raw (be2 x)] (cur_pos c) (length (items rs))"
    proof (rule rewalksI)
      fix mem segs' e e' and rs1 :: type_annotation_refs
      assume h: "alloc_total mem" "same_shape [Span s l, Raw (be2 x)] segs'" "spans e (enc_segs segs') e'"
        "cur_pos e = cur_pos c" "vec_inv rs1" "length (items rs1) = length (items rs)"
      then obtain a b where ab: "segs' = [Span a b, Raw (be2 x)]" by (auto simp: list_all2_Cons1)
      with h(3) obtain e1 e2 where "spans e (be2 a) e1" "spans e1 (be2 b) e2" "spans e2 (be2 x) e'"
        by (auto simp: spans_append)
      from spans_u2D [OF this(1)] spans_u2D [OF this(2)] spans_u2D [OF this(3)] ab h
        append_ref_total [of rs1 mem "\<lparr>ref_attribute_index = i, ref_payload_offset = of_nat (cur_pos c),
          ref_kind = TYPE_ANNOTATION_SPAN, ref_start = uint a, ref_end = uint a + uint b\<rparr>"] rs'
      show "\<exists>rs2. read_span i mem e rs1 = (CLASSFILE_OK, e', rs2) \<and> vec_inv rs2 \<and>
          items rs2 = items rs1 @ refs_of i (cur_pos c) segs'"
        by (auto simp: read_span_def byte_cursor_ok_def byte_cursor_offset_def)
    qed
  qed (use rs' in auto)
qed

lemma read_spans_walks:
  "read_spans mem n i c rs = (CLASSFILE_OK, c', rs') \<Longrightarrow> cur_ok c \<Longrightarrow> vec_inv rs \<Longrightarrow>
   walks i (\<lambda>m. read_spans m n i) c rs c' rs'"
proof (induction n arbitrary: c rs)
  case 0
  then show ?case by (auto intro: walks_return)
next
  case (Suc n)
  from Suc.prems(1) obtain c1 rs1 where r: "read_span i mem c rs = (CLASSFILE_OK, c1, rs1)"
    "read_spans mem n i c1 rs1 = (CLASSFILE_OK, c', rs')"
    unfolding read_spans_Suc then_walk_def by (auto split: prod.splits if_splits)
  note w = read_span_walks [OF r(1) Suc.prems(3)]
  have "walks i (then_walk (read_span i) (\<lambda>m. read_spans m n i)) c rs c' rs'"
    using walks_then [OF w Suc.IH [OF r(2)]] walks_ok [OF w] by blast
  then show ?case by (rule walks_mono) (simp only: read_spans_Suc)
qed

lemma read_instruction_ref_walks:
  assumes "read_instruction_ref mem arg i c rs = (CLASSFILE_OK, c', rs')" "vec_inv rs"
  shows "walks i (\<lambda>m. read_instruction_ref m arg i) c rs c' rs'"
proof -
  obtain v c1 where v: "byte_cursor_u2 c = (v, c1)" by (metis surj_pair)
  obtain x c2 where x: "byte_cursor_u1 c1 = (x, c2)" by (metis surj_pair)
  let ?t = "if arg then be1 x else []"
  from assms(1) v x have ok: "cur_ok c'" "c' = (if arg then c2 else c1)"
    and a: "append_ref mem rs \<lparr>ref_attribute_index = i, ref_payload_offset = of_nat (cur_pos c),
      ref_kind = TYPE_ANNOTATION_INSTRUCTION, ref_start = uint v, ref_end = 0\<rparr> = (CLASSFILE_OK, rs')"
    by (auto simp: read_instruction_ref_def byte_cursor_ok_def byte_cursor_offset_def Let_def
        split: prod.splits if_splits)
  note rs' = append_ref_D [OF assms(2) a]
  have sp: "spans c (enc_segs [Point v, Raw ?t]) c'"
    using read_u2D [OF v] read_u1D [OF x] ok by (auto intro: spans_trans split: if_splits)
  show ?thesis
  proof (rule walksI [OF _ sp])
    show "rewalks i (\<lambda>m. read_instruction_ref m arg i) [Point v, Raw ?t] (cur_pos c) (length (items rs))"
    proof (rule rewalksI)
      fix mem segs' e e' and rs1 :: type_annotation_refs
      assume h: "alloc_total mem" "same_shape [Point v, Raw ?t] segs'" "spans e (enc_segs segs') e'"
        "cur_pos e = cur_pos c" "vec_inv rs1" "length (items rs1) = length (items rs)"
      then obtain a where ab: "segs' = [Point a, Raw ?t]" by (auto simp: list_all2_Cons1)
      with h(3) obtain e1 where e1: "spans e (be2 a) e1" "spans e1 ?t e'"
        by (auto simp: spans_append)
      have "byte_cursor_u1 e1 = (x, e')" if arg using e1(2) that spans_u1 by simp
      with spans_u2D [OF e1(1)] e1(2) spans_ok [OF e1(2)] ab h
        append_ref_total [of rs1 mem "\<lparr>ref_attribute_index = i, ref_payload_offset = of_nat (cur_pos c),
          ref_kind = TYPE_ANNOTATION_INSTRUCTION, ref_start = uint a, ref_end = 0\<rparr>"] rs'
      show "\<exists>rs2. read_instruction_ref mem arg i e rs1 = (CLASSFILE_OK, e', rs2) \<and> vec_inv rs2 \<and>
          items rs2 = items rs1 @ refs_of i (cur_pos c) segs'"
        by (auto simp: read_instruction_ref_def byte_cursor_ok_def byte_cursor_offset_def)
    qed
  qed (use rs' in auto)
qed


lemma read_spans_ok: "read_spans mem n i c rs = (CLASSFILE_OK, c', rs') \<Longrightarrow> cur_ok c \<Longrightarrow> cur_ok c'"
  by (induction mem n i c rs rule: read_spans.induct)
     (auto simp: byte_cursor_ok_def Let_def split: if_splits prod.splits)

lemmas over_simps = then_walk_def over_def byte_cursor_ok_def Let_def

lemma read_target_walks:
  assumes "read_target mem tt i c rs = (CLASSFILE_OK, c', rs')" "cur_ok c" "vec_inv rs"
  shows "walks i (\<lambda>m. read_target m tt i) c rs c' rs'"
proof -
  let ?A = "set [0x00, 0x01, 0x16]" and ?B = "set [0x10, 0x17, 0x42]" and ?C = "set [0x11, 0x12]"
    and ?D = "set [0x13, 0x14, 0x15]" and ?S = "set [0x40, 0x41]"
    and ?I = "set [0x43, 0x44, 0x45, 0x46]" and ?J = "set [0x47, 0x48, 0x49, 0x4A, 0x4B]"
  obtain x c1 where x: "byte_cursor_u1 c = (x, c1)" by (metis surj_pair)
  obtain y c2 where y: "byte_cursor_u1 c1 = (y, c2)" by (metis surj_pair)
  obtain z c3 where z: "byte_cursor_u2 c = (z, c3)" by (metis surj_pair)
  note eq = read_target_def over_simps
  consider (a) "tt \<in> ?A" | (b) "tt \<notin> ?A" "tt \<in> ?B" | (c) "tt \<notin> ?A" "tt \<notin> ?B" "tt \<in> ?C"
    | (d) "tt \<notin> ?A" "tt \<notin> ?B" "tt \<notin> ?C" "tt \<in> ?D" | (s) "tt \<notin> ?A" "tt \<notin> ?B" "tt \<notin> ?C" "tt \<notin> ?D" "tt \<in> ?S"
    | (i) "tt \<notin> ?A" "tt \<notin> ?B" "tt \<notin> ?C" "tt \<notin> ?D" "tt \<notin> ?S" "tt \<in> ?I"
    | (j) "tt \<notin> ?A" "tt \<notin> ?B" "tt \<notin> ?C" "tt \<notin> ?D" "tt \<notin> ?S" "tt \<notin> ?I" "tt \<in> ?J"
    | (n) "tt \<notin> ?A" "tt \<notin> ?B" "tt \<notin> ?C" "tt \<notin> ?D" "tt \<notin> ?S" "tt \<notin> ?I" "tt \<notin> ?J"
    by blast
  then show ?thesis
  proof cases
    case a
    with assms(1) x have k: "c' = c1" "cur_ok c1" "rs' = rs"
      by (auto simp only: eq if_True snd_conv prod.inject split: if_splits)
    from walks_over [OF steps_over_u1 [OF x k(2)] assms(3)] show ?thesis unfolding k(1,3)
      by (rule walks_mono) (use a in \<open>simp only: eq if_True\<close>, auto split: prod.splits if_splits)
  next
    case b
    with assms(1) z have k: "c' = c3" "cur_ok c3" "rs' = rs"
      by (auto simp only: eq if_True if_False snd_conv prod.inject split: if_splits)
    from walks_over [OF steps_over_u2 [OF z k(2)] assms(3)] show ?thesis unfolding k(1,3)
      by (rule walks_mono) (use b in \<open>simp only: eq if_True if_False\<close>, auto split: prod.splits if_splits)
  next
    case c
    with assms(1) x y have k: "c' = c2" "cur_ok c2" "rs' = rs"
      by (auto simp only: eq if_True if_False snd_conv prod.inject split: if_splits)
    have o: "cur_ok c1" using read_u1D [OF y k(2)] by simp
    from walks_then [OF walks_over [OF steps_over_u1 [OF x o] assms(3)] walks_over [OF steps_over_u1 [OF y k(2)] assms(3)]]
    show ?thesis unfolding k(1,3)
      by (rule walks_mono) (use c in \<open>simp only: eq if_True if_False\<close>, auto split: prod.splits if_splits)
  next
    case d
    with assms have k: "c' = c" "rs' = rs"
      by (auto simp only: eq if_True if_False snd_conv prod.inject split: if_splits)
    have "steps_over (\<lambda>c. (cur_ok c, c)) c c" by (rule steps_overI [of c "[]"]) (use assms(2) in auto)
    from walks_over [OF this assms(3)] have "walks i (over (\<lambda>c. (cur_ok c, c))) c rs c' rs'" unfolding k .
    then show ?thesis by (rule walks_mono) (use d in \<open>simp only: eq if_True if_False\<close>, auto split: if_splits)
  next
    case s
    with assms(1) z have k: "cur_ok c3" "read_spans mem (unat z) i c3 rs = (CLASSFILE_OK, c', rs')"
      by (auto simp only: eq if_True if_False prod.case split: if_splits prod.splits)
    from walks_then [OF walks_over [OF steps_over_u2 [OF z k(1)] assms(3)] read_spans_walks [OF k(2,1) assms(3)]]
    show ?thesis
      by (rule walks_mono) (use s in \<open>simp only: eq if_True if_False\<close>,
          auto dest: read_spans_ok split: prod.splits if_splits)
  next
    case i
    with assms(1) have k: "read_instruction_ref mem False i c rs = (CLASSFILE_OK, c', rs')"
      by (simp only: eq if_True if_False)
    from read_instruction_ref_walks [OF k assms(3)] show ?thesis
      by (rule walks_mono) (use i in \<open>simp only: eq if_True if_False\<close>)
  next
    case j
    with assms(1) have k: "read_instruction_ref mem True i c rs = (CLASSFILE_OK, c', rs')"
      by (simp only: eq if_True if_False)
    from read_instruction_ref_walks [OF k assms(3)] show ?thesis
      by (rule walks_mono) (use j in \<open>simp only: eq if_True if_False\<close>)
  next
    case n
    with assms(1) show ?thesis by (simp only: eq if_False) simp
  qed
qed


lemma steps_over_skip_path:
  "cur_ok c' \<Longrightarrow> skip_path n c = c' \<Longrightarrow> steps_over (\<lambda>e. (cur_ok (skip_path n e), skip_path n e)) c c'"
proof (induction n arbitrary: c)
  case 0
  then show ?case by (intro steps_overI [of c "[]"]) auto
next
  case (Suc n)
  obtain x c1 where x: "byte_cursor_u1 c = (x, c1)" by (metis surj_pair)
  obtain y c2 where y: "byte_cursor_u1 c1 = (y, c2)" by (metis surj_pair)
  from Suc.IH [OF Suc.prems(1), of c2] Suc.prems(2) x y obtain bs where bs: "spans c2 bs c'"
    "\<And>e e'. spans e bs e' \<Longrightarrow> (cur_ok (skip_path n e), skip_path n e) = (True, e')"
    unfolding steps_over_def by auto
  from read_u1D [OF y] spans_ok [OF bs(1)] have y': "cur_ok c1" "spans c1 (be1 y) c2" by auto
  from read_u1D [OF x y'(1)] have x': "spans c (be1 x) c1" by auto
  show ?case
    by (rule steps_overI [OF spans_trans [OF x' spans_trans [OF y'(2) bs(1)]]])
       (auto simp: spans_append dest!: spans_u1D bs(2))
qed

lemma skip_rest_over:
  assumes "skip_rest c = (True, c')"
  shows "steps_over skip_rest c c'"
proof -
  from assms obtain n c1 where n: "byte_cursor_u1 c = (n, c1)" "cur_ok c1" "cur_ok (skip_path (unat n) c1)"
    and a: "skip_annotation (skip_path (unat n) c1) 0 = (True, c')"
    by (auto simp: skip_rest_def byte_cursor_ok_def Let_def split: if_splits prod.splits)
  from steps_over_skip_path [OF n(3) refl] obtain b1 where b1: "spans c1 b1 (skip_path (unat n) c1)"
    "\<And>e e'. spans e b1 e' \<Longrightarrow> (cur_ok (skip_path (unat n) e), skip_path (unat n) e) = (True, e')"
    unfolding steps_over_def by auto
  from skip_annotation_over [OF a] obtain b2 where b2: "spans (skip_path (unat n) c1) b2 c'"
    "\<And>e e'. spans e b2 e' \<Longrightarrow> skip_annotation e 0 = (True, e')" unfolding steps_over_def by auto
  from read_u1D [OF n(1,2)] have s: "spans c (be1 n) c1" by auto
  show ?thesis
    by (rule steps_overI [OF spans_trans [OF s spans_trans [OF b1(1) b2(1)]]])
       (auto simp: skip_rest_def byte_cursor_ok_def spans_append dest!: spans_u1D b1(2) b2(2))
qed

lemma collect_loop_walks:
  "collect_loop mem n i c rs = (CLASSFILE_OK, c', rs') \<Longrightarrow> cur_ok c \<Longrightarrow> vec_inv rs \<Longrightarrow>
   walks i (\<lambda>m. collect_loop m n i) c rs c' rs'"
proof (induction n arbitrary: c rs)
  case 0
  then show ?case by (auto intro: walks_return)
next
  case (Suc n)
  from Suc.prems(1) obtain tt c1 c2 rs1 c3 where r: "byte_cursor_u1 c = (tt, c1)" "cur_ok c1"
    "read_target mem tt i c1 rs = (CLASSFILE_OK, c2, rs1)" "skip_rest c2 = (True, c3)"
    "collect_loop mem n i c3 rs1 = (CLASSFILE_OK, c', rs')"
    by (auto simp: byte_cursor_ok_def Let_def split: if_splits prod.splits)
  note t = read_target_walks [OF r(3,2) Suc.prems(3)]
  note k = skip_rest_over [OF r(4)]
  have w: "walks i (\<lambda>m. collect_loop m n i) c3 rs1 c' rs'"
    using Suc.IH [OF r(5)] steps_over_ok [OF k] walks_ok [OF t] by blast
  have "walks i (over skip_rest) c2 rs1 c3 rs1" using walks_over [OF k] walks_ok [OF t] by blast
  from walks_then [OF walks_over [OF steps_over_u1 [OF r(1,2)] Suc.prems(3)] walks_then [OF t walks_then [OF this w]]]
  show ?case by (rule walks_mono) (auto simp: over_simps split: prod.splits if_splits)
qed

text \<open>What collecting leaves behind: a decomposition of the payload that predicts every other run.\<close>

lemma type_annotation_collect_segs:
  assumes "type_annotation_collect mem a i rs = (CLASSFILE_OK, rs')" "vec_inv rs"
  shows "\<exists>segs. attr_info a = enc_segs segs \<and> vec_inv rs' \<and> items rs' = items rs @ refs_of i 0 segs \<and>
    (\<forall>mem' segs' b rs1. alloc_total mem' \<longrightarrow> same_shape segs segs' \<longrightarrow> attr_info b = enc_segs segs' \<longrightarrow>
       vec_inv rs1 \<longrightarrow> length (items rs1) = length (items rs) \<longrightarrow>
       (\<exists>rs2. type_annotation_collect mem' b i rs1 = (CLASSFILE_OK, rs2) \<and> items rs2 = items rs1 @ refs_of i 0 segs'))"
proof -
  let ?c = "byte_cursor_init (attr_info a)"
  from assms(1) obtain n c1 c' where r: "byte_cursor_u2 ?c = (n, c1)" "cur_ok c1"
    "collect_loop mem (unat n) i c1 rs = (CLASSFILE_OK, c', rs')" "byte_cursor_exhausted c'"
    by (auto simp: type_annotation_collect_def byte_cursor_ok_def Let_def split: if_splits prod.splits)
  let ?f = "then_walk (over (\<lambda>c. let (w, c) = byte_cursor_u2 c in (w = n \<and> cur_ok c, c))) (\<lambda>m. collect_loop m (unat n) i)"
  have "walks i ?f ?c rs c' rs'"
    by (rule walks_then [OF walks_over [OF steps_over_u2 [OF r(1,2)] assms(2)] collect_loop_walks [OF r(3,2) assms(2)]])
  then obtain segs where s: "vec_inv rs'" "spans ?c (enc_segs segs) c'" "items rs' = items rs @ refs_of i 0 segs"
    "rewalks i ?f segs 0 (length (items rs))"
    by (elim walksE) (simp add: byte_cursor_init_def)
  note e = spans_exhausted [OF s(2) r(4)]
  show ?thesis
  proof (intro exI [of _ segs] conjI allI impI)
    fix mem' segs' and b :: attribute_info and rs1 :: type_annotation_refs
    assume h: "alloc_total mem'" "same_shape segs segs'" "attr_info b = enc_segs segs'" "vec_inv rs1"
      "length (items rs1) = length (items rs)"
    let ?e = "byte_cursor_init (attr_info b)"
    obtain e' where e': "spans ?e (enc_segs segs') e'" "byte_cursor_exhausted e'"
      by (auto simp: h(3) spans_whole byte_cursor_exhausted_def)
    from rewalksD [OF s(4) h(1,2) e'(1) _ h(4,5)] obtain rs2 where
      "?f mem' ?e rs1 = (CLASSFILE_OK, e', rs2)" "items rs2 = items rs1 @ refs_of i 0 segs'"
      by (auto simp: byte_cursor_init_def)
    with e'(2) show "\<exists>rs2. type_annotation_collect mem' b i rs1 = (CLASSFILE_OK, rs2) \<and>
        items rs2 = items rs1 @ refs_of i 0 segs'"
      by (auto simp: type_annotation_collect_def over_simps split: prod.splits if_splits)
  qed (use s e in auto)
qed


section \<open>Flushing\<close>

lemma write_u2_at: "write_u2 (pre @ be2 v @ post) (length pre) w = pre @ be2 w @ post"
  by (simp add: write_u2_def be2_def list_update_append)

lemma write_u2_behind: "length x = 2 \<Longrightarrow> write_u2 (pre @ x @ be2 v @ post) (length pre + 2) w = pre @ x @ be2 w @ post"
  using write_u2_at [of "pre @ x" v post w] by simp

definition put_info :: "attribute_list \<Rightarrow> nat \<Rightarrow> u1 list \<Rightarrow> attribute_list" where
  "put_info list i info = list\<lparr>items := (items list)[i := (items list ! i)\<lparr>attr_info := info\<rparr>]\<rparr>"

lemma put_info_simps [simp]:
  "length (items (put_info list i info)) = length (items list)"
  "vcap (put_info list i info) = vcap list"
  "i < length (items list) \<Longrightarrow> items (put_info list i info) ! i = (items list ! i)\<lparr>attr_info := info\<rparr>"
  "i < length (items list) \<Longrightarrow> put_info (put_info list i x) i y = put_info list i y"
  by (auto simp: put_info_def nth_list_update)

lemma put_info_same: "i < length (items list) \<Longrightarrow> attr_info (items list ! i) = info \<Longrightarrow> put_info list i info = list"
  by (auto simp: put_info_def)

definition same_place :: "type_annotation_ref \<Rightarrow> type_annotation_ref \<Rightarrow> bool" where
  "same_place r r' \<longleftrightarrow> ref_attribute_index r' = ref_attribute_index r \<and>
     ref_payload_offset r' = ref_payload_offset r \<and> ref_kind r' = ref_kind r \<and>
     (ref_kind r = TYPE_ANNOTATION_INSTRUCTION \<longrightarrow> ref_end r' = ref_end r)"

lemma same_placeD:
  "same_place r r' \<Longrightarrow> ref_attribute_index r' = ref_attribute_index r \<and>
     ref_payload_offset r' = ref_payload_offset r \<and> ref_kind r' = ref_kind r \<and>
     (ref_kind r = TYPE_ANNOTATION_INSTRUCTION \<longrightarrow> ref_end r' = ref_end r)"
  by (simp add: same_place_def)

lemma window_fits:
  assumes "of_nat n = (x :: u4)" "n + k \<le> length info" "length info < 2 ^ 32"
  shows "unat x = n" "\<not> x + of_nat k > (of_nat (length info) :: u4)"
proof -
  have "n < 2 ^ 32" "n + k < 2 ^ 32" using assms(2,3) by linarith+
  with assms(3) have u: "unat (of_nat n :: u4) = n" "unat (of_nat (n + k) :: u4) = n + k"
    "unat (of_nat (length info) :: u4) = length info"
    using unat_of_nat_u4 [of n] unat_of_nat_u4 [of "n + k"] unat_of_nat_u4 [of "length info"] by (simp_all del: of_nat_add)
  from u(1) assms(1) show "unat x = n" by simp
  have "x + of_nat k = of_nat (n + k)" using assms(1) by auto
  with u(2,3) assms(2) show "\<not> x + of_nat k > (of_nat (length info) :: u4)"
    by (simp only: word_less_nat_alt not_less)
qed

lemma flush_span:
  assumes "flush_ref r list = (CLASSFILE_OK, list')" "vec_inv list" "unat (ref_attribute_index r) < length (items list)"
    "attr_info (items list ! unat (ref_attribute_index r)) = pre @ be2 s @ be2 l @ post"
    "length (pre @ be2 s @ be2 l @ post) < 2 ^ 32"
    "ref_payload_offset r = of_nat (length pre)" "ref_kind r = TYPE_ANNOTATION_SPAN"
  shows "list' = put_info list (unat (ref_attribute_index r))
      (pre @ be2 (of_int (ref_start r)) @ be2 (of_int (ref_end r - ref_start r)) @ post)"
    "0 \<le> ref_start r" "ref_start r \<le> ref_end r" "ref_end r \<le> 65535"
proof -
  let ?p = "pre @ be2 s @ be2 l @ post"
  note w = window_fits [of "length pre" "ref_payload_offset r" 4 ?p]
  have u: "unat (ref_payload_offset r) = length pre"
    "\<not> (ref_payload_offset r + 4 > (of_nat (length ?p) :: u4))" "?p \<noteq> []"
    using w assms(5,6) by simp_all
  have c: "\<not> ref_attribute_index r \<ge> vec_count list"
    using assms(3) vec_inv_count [OF assms(2)] by (simp add: word_le_nat_alt)
  have p: "write_u2 (write_u2 ?p (length pre) x) (length pre + 2) y = pre @ be2 x @ be2 y @ post" for x y
    using write_u2_at [of pre s "be2 l @ post" x] write_u2_behind [of "be2 x" pre l post y] by simp
  have "list' = put_info list (unat (ref_attribute_index r))
      (pre @ be2 (of_int (ref_start r)) @ be2 (of_int (ref_end r - ref_start r)) @ post) \<and>
    0 \<le> ref_start r \<and> ref_start r \<le> ref_end r \<and> ref_end r \<le> 65535"
    using assms(1) u c unfolding flush_ref_def Let_def assms(4) assms(7) attribute_length_def u(1) p
    by (auto simp: put_info_def JVM_MAX_CODE_LENGTH_def split: if_splits)
  then show "list' = put_info list (unat (ref_attribute_index r))
      (pre @ be2 (of_int (ref_start r)) @ be2 (of_int (ref_end r - ref_start r)) @ post)"
    "0 \<le> ref_start r" "ref_start r \<le> ref_end r" "ref_end r \<le> 65535" by blast+
qed

lemma flush_point:
  assumes "flush_ref r list = (CLASSFILE_OK, list')" "vec_inv list" "unat (ref_attribute_index r) < length (items list)"
    "attr_info (items list ! unat (ref_attribute_index r)) = pre @ be2 s @ post"
    "length (pre @ be2 s @ post) < 2 ^ 32"
    "ref_payload_offset r = of_nat (length pre)" "ref_kind r = TYPE_ANNOTATION_INSTRUCTION"
  shows "list' = put_info list (unat (ref_attribute_index r)) (pre @ be2 (of_int (ref_start r)) @ post)"
    "0 \<le> ref_start r" "ref_start r \<le> 65535"
proof -
  let ?p = "pre @ be2 s @ post"
  note w = window_fits [of "length pre" "ref_payload_offset r" 2 ?p]
  have u: "unat (ref_payload_offset r) = length pre"
    "\<not> (ref_payload_offset r + 2 > (of_nat (length ?p) :: u4))" "?p \<noteq> []"
    using w assms(5,6) by simp_all
  have c: "\<not> ref_attribute_index r \<ge> vec_count list"
    using assms(3) vec_inv_count [OF assms(2)] by (simp add: word_le_nat_alt)
  have "list' = put_info list (unat (ref_attribute_index r)) (pre @ be2 (of_int (ref_start r)) @ post) \<and>
    0 \<le> ref_start r \<and> ref_start r \<le> 65535"
    using assms(1) u c unfolding flush_ref_def Let_def assms(4) assms(7) attribute_length_def u(1) write_u2_at
    by (auto simp: put_info_def JVM_MAX_CODE_LENGTH_def split: if_splits)
  then show "list' = put_info list (unat (ref_attribute_index r)) (pre @ be2 (of_int (ref_start r)) @ post)"
    "0 \<le> ref_start r" "ref_start r \<le> 65535" by blast+
qed


lemma u2_back: "0 \<le> x \<Longrightarrow> x \<le> 65535 \<Longrightarrow> uint (of_int x :: u2) = x"
  by transfer (simp add: take_bit_int_eq_self)

lemma flush_segs:
  assumes "list_all2 same_place (refs_of i (length pre) segs) R" "flush_loop R list = (CLASSFILE_OK, list')"
    "vec_inv list" "unat i < length (items list)" "attr_info (items list ! unat i) = pre @ enc_segs segs @ post"
    "length (pre @ enc_segs segs @ post) < 2 ^ 32"
  shows "\<exists>segs'. same_shape segs segs' \<and> refs_of i (length pre) segs' = R \<and>
    list' = put_info list (unat i) (pre @ enc_segs segs' @ post)"
  using assms
proof (induction segs arbitrary: pre R list)
  case Nil
  then show ?case by (auto simp: put_info_same)
next
  case (Cons g gs)
  show ?case
  proof (cases g)
    case (Raw bs)
    with Cons.prems Cons.IH [of "pre @ bs" R list] obtain segs' where "same_shape gs segs'"
      "refs_of i (length (pre @ bs)) segs' = R" "list' = put_info list (unat i) ((pre @ bs) @ enc_segs segs' @ post)"
      by auto
    with Raw show ?thesis by (intro exI [of _ "Raw bs # segs'"]) auto
  next
    case (Span s l)
    with Cons.prems(1) obtain r rs where R: "R = r # rs" "ref_attribute_index r = i"
      "ref_payload_offset r = of_nat (length pre)" "ref_kind r = TYPE_ANNOTATION_SPAN"
      "list_all2 same_place (refs_of i (length pre + 4) gs) rs"
      by (auto simp: list_all2_Cons1 dest!: same_placeD)
    from Cons.prems(2) R(1) obtain l1 where l1: "flush_ref r list = (CLASSFILE_OK, l1)"
      "flush_loop rs l1 = (CLASSFILE_OK, list')" by (auto split: prod.splits if_splits)
    let ?s = "of_int (ref_start r) :: u2" and ?l = "of_int (ref_end r - ref_start r) :: u2"
    note f = flush_span [OF l1(1) Cons.prems(3) _ _ _ R(3,4), of s l "enc_segs gs @ post"]
    have l1': "l1 = put_info list (unat i) (pre @ be2 ?s @ be2 ?l @ enc_segs gs @ post)"
      "0 \<le> ref_start r" "ref_start r \<le> ref_end r" "ref_end r \<le> 65535"
      using f Cons.prems(4-6) R(2) Span by auto
    then have "vec_inv l1" "unat i < length (items l1)"
      "attr_info (items l1 ! unat i) = (pre @ be2 ?s @ be2 ?l) @ enc_segs gs @ post"
      using Cons.prems(3,4) by (auto simp: vec_inv_def)
    from Cons.IH [OF _ l1(2) this] R(5) Cons.prems(6) Span obtain segs' where g: "same_shape gs segs'"
      "refs_of i (length (pre @ be2 ?s @ be2 ?l)) segs' = rs"
      "list' = put_info l1 (unat i) ((pre @ be2 ?s @ be2 ?l) @ enc_segs segs' @ post)"
      by auto
    have "refs_of i (length pre) (Span ?s ?l # segs') = R"
      using g(2) R l1'(2-4) u2_back [of "ref_start r"] u2_back [of "ref_end r - ref_start r"]
      by (auto intro!: type_annotation_ref.equality)
    with g Span l1'(1) Cons.prems(4) show ?thesis by (intro exI [of _ "Span ?s ?l # segs'"]) auto
  next
    case (Point v)
    with Cons.prems(1) obtain r rs where R: "R = r # rs" "ref_attribute_index r = i"
      "ref_payload_offset r = of_nat (length pre)" "ref_kind r = TYPE_ANNOTATION_INSTRUCTION" "ref_end r = 0"
      "list_all2 same_place (refs_of i (length pre + 2) gs) rs"
      by (auto simp: list_all2_Cons1 dest!: same_placeD)
    from Cons.prems(2) R(1) obtain l1 where l1: "flush_ref r list = (CLASSFILE_OK, l1)"
      "flush_loop rs l1 = (CLASSFILE_OK, list')" by (auto split: prod.splits if_splits)
    let ?s = "of_int (ref_start r) :: u2"
    note f = flush_point [OF l1(1) Cons.prems(3) _ _ _ R(3,4), of v "enc_segs gs @ post"]
    have l1': "l1 = put_info list (unat i) (pre @ be2 ?s @ enc_segs gs @ post)"
      "0 \<le> ref_start r" "ref_start r \<le> 65535"
      using f Cons.prems(4-6) R(2) Point by auto
    then have "vec_inv l1" "unat i < length (items l1)"
      "attr_info (items l1 ! unat i) = (pre @ be2 ?s) @ enc_segs gs @ post"
      using Cons.prems(3,4) by (auto simp: vec_inv_def)
    from Cons.IH [OF _ l1(2) this] R(6) Cons.prems(6) Point obtain segs' where g: "same_shape gs segs'"
      "refs_of i (length (pre @ be2 ?s)) segs' = rs"
      "list' = put_info l1 (unat i) ((pre @ be2 ?s) @ enc_segs segs' @ post)"
      by auto
    have "refs_of i (length pre) (Point ?s # segs') = R"
      using g(2) R l1'(2,3) u2_back [of "ref_start r"] by (auto intro!: type_annotation_ref.equality)
    with g Point l1'(1) Cons.prems(4) show ?thesis by (intro exI [of _ "Point ?s # segs'"]) auto
  qed
qed


lemma flush_unchanged:
  assumes "\<forall>r \<in> set (refs_of i (length pre) segs). ref_end r \<le> 65535"
    "vec_inv list" "unat i < length (items list)" "attr_info (items list ! unat i) = pre @ enc_segs segs @ post"
    "length (pre @ enc_segs segs @ post) < 2 ^ 32"
  shows "flush_loop (refs_of i (length pre) segs) list = (CLASSFILE_OK, list)"
  using assms(1,4,5)
proof (induction segs arbitrary: pre)
  case (Cons g gs)
  have c: "\<not> i \<ge> vec_count list"
    using assms(3) vec_inv_count [OF assms(2)] by (simp add: word_le_nat_alt)
  have IH: "flush_loop (refs_of i (length pre + length (seg_bytes g)) gs) list = (CLASSFILE_OK, list)"
    using Cons.IH [of "pre @ seg_bytes g"] Cons.prems by simp
  have k: "list\<lparr>items := (items list)[unat i := (items list ! unat i)\<lparr>attr_info := attr_info (items list ! unat i)\<rparr>]\<rparr> = list"
    by simp
  show ?case
  proof (cases g)
    case (Span s l)
    let ?p = "pre @ be2 s @ be2 l @ enc_segs gs @ post"
    have p: "attr_info (items list ! unat i) = ?p" "length ?p < 2 ^ 32" "?p \<noteq> []" using Cons.prems(2,3) Span by simp_all
    note w = window_fits [OF refl _ p(2), of "length pre" 4]
    have id: "write_u2 (write_u2 ?p (length pre) s) (length pre + 2) l = ?p"
      using write_u2_at [of pre s] write_u2_behind [of "be2 s" pre l] by simp
    have "\<not> 65535 < uint s" "0 \<le> uint s" "0 \<le> uint l" "uint s + uint l \<le> 65535"
      using Cons.prems(1) Span unsigned_less [of s, where ?'a = int] by simp_all
    note b = this
    have "flush_ref (hd (seg_refs i (length pre) g)) list = (CLASSFILE_OK, list)"
      using b(2-4) c w id k p(1,3) unfolding Span flush_ref_def Let_def
      by (simp add: attribute_length_def JVM_MAX_CODE_LENGTH_def) (rule b(1))
    with IH Span show ?thesis by simp
  next
    case (Point s)
    let ?p = "pre @ be2 s @ enc_segs gs @ post"
    have p: "attr_info (items list ! unat i) = ?p" "length ?p < 2 ^ 32" "?p \<noteq> []" using Cons.prems(2,3) Point by simp_all
    note w = window_fits [OF refl _ p(2), of "length pre" 2]
    have id: "write_u2 ?p (length pre) s = ?p" using write_u2_at [of pre s] by simp
    have "\<not> 65535 < uint s" "0 \<le> uint s" using unsigned_less [of s, where ?'a = int] by simp_all
    note b = this
    have "flush_ref (hd (seg_refs i (length pre) g)) list = (CLASSFILE_OK, list)"
      using b(2) c w id k p(1,3) unfolding Point flush_ref_def Let_def
      by (simp add: attribute_length_def JVM_MAX_CODE_LENGTH_def) (rule b(1))
    with IH Point show ?thesis by simp
  qed (use IH in simp)
qed simp

section \<open>Properties\<close>

text \<open>An annotation on a local variable, one on an instruction, with nested element values.\<close>

definition sample_annotations :: attribute_info where
  "sample_annotations = \<lparr>attribute_name_index = 9, attr_info =
     [0, 2,
      0x40, 0, 1, 0, 5, 0, 7, 0, 1, 0, 0, 4, 0, 0,
      0x47, 0, 3, 0, 1, 1, 2, 0, 4, 0, 1, 0, 6, 0x5B, 0, 1, 0x49, 0, 8]\<rparr>"

definition sample_annotation_list :: attribute_list where
  "sample_annotation_list = \<lparr>items = [sample_annotations], vcap = 1\<rparr>"

text \<open>
  C35: collecting and flushing are inverse to each other. When the offsets collected from an
  annotation attribute are given new values and flushed, only that attribute's payload
  changes, its length is kept, and collecting it again yields exactly the new values, at
  the same places: no write disturbs another offset or the structure around it.
\<close>

theorem type_annotation_flush_collect:
  assumes "type_annotation_collect mem (items list ! unat i) i type_annotation_refs_init = (CLASSFILE_OK, refs)"
    and "vec_inv list" "unat i < length (items list)" "length (attr_info (items list ! unat i)) < 2 ^ 32"
    and "list_all2 same_place (items refs) (items refs')"
    and "type_annotation_flush refs' list = (CLASSFILE_OK, list')" "alloc_total mem'"
  shows "(\<exists>payload. list' = put_info list (unat i) payload \<and>
            length payload = length (attr_info (items list ! unat i))) \<and>
         (\<exists>refs2. type_annotation_collect mem' (items list' ! unat i) i type_annotation_refs_init = (CLASSFILE_OK, refs2) \<and>
            items refs2 = items refs')"
proof -
  from type_annotation_collect_segs [OF assms(1)] obtain segs where
    s: "attr_info (items list ! unat i) = enc_segs segs" "items refs = refs_of i 0 segs"
    and re: "\<And>segs' b. same_shape segs segs' \<Longrightarrow> attr_info b = enc_segs segs' \<Longrightarrow>
      \<exists>rs2. type_annotation_collect mem' b i type_annotation_refs_init = (CLASSFILE_OK, rs2) \<and>
            items rs2 = refs_of i 0 segs'"
    using assms(7) by (auto simp: type_annotation_refs_init_def)
  from flush_segs [of i "[]" segs "items refs'" list list' "[]"] s assms(2-6) obtain segs' where
    g: "same_shape segs segs'" "refs_of i 0 segs' = items refs'" "list' = put_info list (unat i) (enc_segs segs')"
    by (auto simp: type_annotation_flush_def)
  with re [OF g(1), of "items list' ! unat i"] assms(3) s(1) same_shape_length [OF g(1)] show ?thesis by auto
qed

theorem type_annotation_flush_collect_witness:
  "\<exists>refs refs' list' refs2.
     type_annotation_collect heap_ok sample_annotations 0 type_annotation_refs_init = (CLASSFILE_OK, refs) \<and>
     refs' = refs\<lparr>items := map (\<lambda>r. r\<lparr>ref_start := 11\<rparr>) (items refs)\<rparr> \<and> length (items refs') = 2 \<and>
     type_annotation_flush refs' sample_annotation_list = (CLASSFILE_OK, list') \<and>
     type_annotation_collect heap_ok (items list' ! 0) 0 type_annotation_refs_init = (CLASSFILE_OK, refs2) \<and>
     items refs2 = items refs'"
proof -
  let ?c = "type_annotation_collect heap_ok sample_annotations 0 type_annotation_refs_init"
  let ?r = "(snd ?c)\<lparr>items := map (\<lambda>r. r\<lparr>ref_start := 11\<rparr>) (items (snd ?c))\<rparr>"
  let ?f = "type_annotation_flush ?r sample_annotation_list"
  have c: "fst ?c = CLASSFILE_OK" "length (items ?r) = 2" by code_simp+
  have f: "fst ?f = CLASSFILE_OK" by code_simp
  have l: "vec_inv sample_annotation_list" "items sample_annotation_list ! unat 0 = sample_annotations"
    "unat 0 < length (items sample_annotation_list)" "length (attr_info sample_annotations) < 2 ^ 32"
    by (simp_all add: sample_annotation_list_def sample_annotations_def vec_inv_def)
  obtain refs where r: "?c = (CLASSFILE_OK, refs)" using c(1) by (metis prod.collapse)
  let ?r' = "refs\<lparr>items := map (\<lambda>r. r\<lparr>ref_start := 11\<rparr>) (items refs)\<rparr>"
  obtain list' where f': "type_annotation_flush ?r' sample_annotation_list = (CLASSFILE_OK, list')"
    using f r by (metis prod.collapse snd_conv)
  have "list_all2 same_place (items refs) (items ?r')" "length (items ?r') = 2"
    using c(2) r by (simp_all add: list_all2_conv_all_nth same_place_def)
  note s = this
  from type_annotation_flush_collect [OF _ l(1,3) _ s(1) f' alloc_total_heap_ok, of heap_ok] r l obtain refs2 where
    "type_annotation_collect heap_ok (items list' ! 0) 0 type_annotation_refs_init = (CLASSFILE_OK, refs2)"
    "items refs2 = items ?r'" by auto
  with r f' s(2) show ?thesis
    by (intro exI [of "\<lambda>x. \<exists>y z w. P x y z w" refs for P], intro exI conjI) (assumption | rule refl)+
qed

text \<open>
  Flushing offsets that did not change leaves every attribute untouched, and
  succeeds unless a local variable's scope ends beyond the largest code length.
\<close>

theorem type_annotation_flush_unchanged:
  assumes "type_annotation_collect mem (items list ! unat i) i type_annotation_refs_init = (CLASSFILE_OK, refs)"
    and "vec_inv list" "unat i < length (items list)" "length (attr_info (items list ! unat i)) < 2 ^ 32"
    and "\<forall>r \<in> set (items refs). ref_end r \<le> int JVM_MAX_CODE_LENGTH"
  shows "type_annotation_flush refs list = (CLASSFILE_OK, list)"
proof -
  from type_annotation_collect_segs [OF assms(1)] obtain segs where
    "attr_info (items list ! unat i) = enc_segs segs" "items refs = refs_of i 0 segs"
    by (auto simp: type_annotation_refs_init_def)
  with flush_unchanged [of i "[]" segs list "[]"] assms(2-5) show ?thesis
    by (simp add: type_annotation_flush_def JVM_MAX_CODE_LENGTH_def)
qed

theorem type_annotation_flush_unchanged_witness:
  "\<exists>refs. type_annotation_collect heap_ok sample_annotations 0 type_annotation_refs_init = (CLASSFILE_OK, refs) \<and>
     type_annotation_flush refs sample_annotation_list = (CLASSFILE_OK, sample_annotation_list)"
proof -
  let ?c = "type_annotation_collect heap_ok sample_annotations 0 type_annotation_refs_init"
  have c: "fst ?c = CLASSFILE_OK" "list_all (\<lambda>r. ref_end r \<le> 65535) (items (snd ?c))" by code_simp+
  have l: "vec_inv sample_annotation_list" "items sample_annotation_list ! unat 0 = sample_annotations"
    "unat 0 < length (items sample_annotation_list)" "length (attr_info sample_annotations) < 2 ^ 32"
    by (simp_all add: sample_annotation_list_def sample_annotations_def vec_inv_def)
  obtain refs where r: "?c = (CLASSFILE_OK, refs)" using c(1) by (metis prod.collapse)
  with c(2) have "\<forall>r \<in> set (items refs). ref_end r \<le> int JVM_MAX_CODE_LENGTH"
    by (simp add: list_all_iff JVM_MAX_CODE_LENGTH_def)
  from type_annotation_flush_unchanged [OF _ l(1,3) _ this, of heap_ok] r l show ?thesis by auto
qed

end
