(* ===== verification/Code_Editor.thy ===== *)
theory Code_Editor
  imports Code_Attribute Instruction_Writer Stack_Map Type_Annotation
begin

text \<open>
  The editable Code attribute: \<^verbatim>\<open>visitors/code_editor.c\<close>. Loading takes a Code
  attribute apart into instructions, exception table, debug tables, stack map and opaque
  attributes; storing puts it together again; inserting splices instructions in.
  An insertion rewrites every bytecode offset of the attribute three times: into an
  instruction index, past the inserted instructions, and back into an offset.
\<close>

section \<open>Data\<close>

record line_number_entry =
  ln_start_pc :: u2
  ln_line_number :: u2

record local_variable_entry =
  lv_start_pc :: u2
  lv_length :: u2
  lv_name_index :: u2
  lv_descriptor_index :: u2
  lv_index :: u2

record code_editor =
  ed_max_stack :: u2
  ed_max_locals :: u2
  ed_instructions :: instruction_list
  ed_exceptions :: exception_table
  has_line_numbers :: bool
  line_number_name_index :: u2
  line_numbers :: "line_number_entry list"
  has_locals :: bool
  local_variable_name_index :: u2
  ed_locals :: "local_variable_entry list"
  has_local_types :: bool
  local_type_name_index :: u2
  ed_local_types :: "local_variable_entry list"
  has_stack_map :: bool
  stack_map_name_index :: u2
  ed_stack_map :: stack_map_table
  other_attributes :: attribute_list
  type_annotations :: type_annotation_refs

definition code_editor_init :: code_editor where
  "code_editor_init =
     \<lparr>ed_max_stack = 0, ed_max_locals = 0, ed_instructions = instruction_list_init,
      ed_exceptions = exception_table_init,
      has_line_numbers = False, line_number_name_index = 0, line_numbers = [],
      has_locals = False, local_variable_name_index = 0, ed_locals = [],
      has_local_types = False, local_type_name_index = 0, ed_local_types = [],
      has_stack_map = False, stack_map_name_index = 0, ed_stack_map = stack_map_table_init,
      other_attributes = attribute_list_init, type_annotations = type_annotation_refs_init\<rparr>"

definition code_editor_free :: "code_editor \<Rightarrow> code_editor" where
  "code_editor_free ed = code_editor_init"

section \<open>Loading\<close>

text \<open>The room for \<open>added\<close> more entries; the caller fills them in behind the old ones.\<close>

definition grow_table :: "alloc \<Rightarrow> alloc_kind \<Rightarrow> 'a list \<Rightarrow> u2 \<Rightarrow> classfile_status" where
  "grow_table mem k entries added =
     (if length entries + unat added > CLASSFILE_MAX_COUNT then CLASSFILE_ERR_LIMIT_EXCEEDED
      else if length entries + unat added = 0 then CLASSFILE_OK
      else if \<not> mem k (length entries + unat added) then CLASSFILE_ERR_OUT_OF_MEMORY
      else CLASSFILE_OK)"

fun read_line_number_entries :: "nat \<Rightarrow> byte_cursor \<Rightarrow> line_number_entry list \<times> byte_cursor" where
  "read_line_number_entries 0 c = ([], c)"
| "read_line_number_entries (Suc n) c =
     (let (pc, c) = byte_cursor_u2 c; (line, c) = byte_cursor_u2 c;
          (es, c) = read_line_number_entries n c
      in (\<lparr>ln_start_pc = pc, ln_line_number = line\<rparr> # es, c))"

definition read_line_numbers ::
  "alloc \<Rightarrow> attribute_info \<Rightarrow> code_editor \<Rightarrow> classfile_status \<times> code_editor" where
  "read_line_numbers mem a ed =
     (let (count, c) = byte_cursor_u2 (byte_cursor_init (attr_info a)) in
      if \<not> byte_cursor_ok c then (CLASSFILE_ERR_TRUNCATED, ed)
      else
        let status = grow_table mem Alloc_line_number_entry (line_numbers ed) count in
        if status \<noteq> CLASSFILE_OK then (status, ed)
        else
          let (entries, c) = read_line_number_entries (unat count) c in
          if \<not> byte_cursor_ok c then (CLASSFILE_ERR_TRUNCATED, ed)
          else (CLASSFILE_OK, ed\<lparr>line_numbers := line_numbers ed @ entries, has_line_numbers := True,
                                 line_number_name_index := attribute_name_index a\<rparr>))"

fun read_local_entries :: "nat \<Rightarrow> byte_cursor \<Rightarrow> local_variable_entry list \<times> byte_cursor" where
  "read_local_entries 0 c = ([], c)"
| "read_local_entries (Suc n) c =
     (let (pc, c) = byte_cursor_u2 c; (len, c) = byte_cursor_u2 c; (name, c) = byte_cursor_u2 c;
          (desc, c) = byte_cursor_u2 c; (slot, c) = byte_cursor_u2 c;
          (es, c) = read_local_entries n c
      in (\<lparr>lv_start_pc = pc, lv_length = len, lv_name_index = name, lv_descriptor_index = desc,
           lv_index = slot\<rparr> # es, c))"

definition read_locals ::
  "alloc \<Rightarrow> attribute_info \<Rightarrow> local_variable_entry list \<Rightarrow> classfile_status \<times> local_variable_entry list" where
  "read_locals mem a out =
     (let (count, c) = byte_cursor_u2 (byte_cursor_init (attr_info a)) in
      if \<not> byte_cursor_ok c then (CLASSFILE_ERR_TRUNCATED, out)
      else
        let status = grow_table mem Alloc_local_variable_entry out count in
        if status \<noteq> CLASSFILE_OK then (status, out)
        else
          let (entries, c) = read_local_entries (unat count) c in
          if \<not> byte_cursor_ok c then (CLASSFILE_ERR_TRUNCATED, out)
          else (CLASSFILE_OK, out @ entries))"

definition copy_other ::
  "alloc \<Rightarrow> constant_pool \<Rightarrow> attribute_info \<Rightarrow> code_editor \<Rightarrow> classfile_status \<times> code_editor" where
  "copy_other mem pool a ed =
     (let index = vec_count (other_attributes ed);
          (set_status, copy) = attribute_info_set_info mem
            (attribute_info_zero\<lparr>attribute_name_index := attribute_name_index a\<rparr>) (attr_info a);
          (status, others) = attribute_list_append mem (other_attributes ed) copy in
      if status \<noteq> CLASSFILE_OK then (status, ed)
      else if set_status \<noteq> CLASSFILE_OK then (set_status, ed\<lparr>other_attributes := others\<rparr>)
      else if type_annotation_is_carrier pool (attribute_name_index a) then
        let (status, refs) = type_annotation_collect mem copy index (type_annotations ed)
        in (status, ed\<lparr>other_attributes := others, type_annotations := refs\<rparr>)
      else (CLASSFILE_OK, ed\<lparr>other_attributes := others\<rparr>))"

definition load_nested ::
  "alloc \<Rightarrow> constant_pool \<Rightarrow> attribute_info \<Rightarrow> code_editor \<Rightarrow> classfile_status \<times> code_editor" where
  "load_nested mem pool a ed =
     (let name = attribute_name_index a in
      if constant_pool_utf8_equals pool name (cstr ''LineNumberTable'') then read_line_numbers mem a ed
      else if constant_pool_utf8_equals pool name (cstr ''LocalVariableTable'') then
        let (status, locals) = read_locals mem a (ed_locals ed)
        in (status, ed\<lparr>ed_locals := locals, has_locals := (status = CLASSFILE_OK),
                       local_variable_name_index := name\<rparr>)
      else if constant_pool_utf8_equals pool name (cstr ''LocalVariableTypeTable'') then
        let (status, locals) = read_locals mem a (ed_local_types ed)
        in (status, ed\<lparr>ed_local_types := locals, has_local_types := (status = CLASSFILE_OK),
                       local_type_name_index := name\<rparr>)
      else if constant_pool_utf8_equals pool name (cstr ''StackMapTable'') then
        if has_stack_map ed then (CLASSFILE_ERR_UNSUPPORTED, ed)
        else
          (case stack_map_table_parse mem a of
             Inl status \<Rightarrow>
               (status, ed\<lparr>ed_stack_map := stack_map_table_init, has_stack_map := False,
                           stack_map_name_index := name\<rparr>)
           | Inr table \<Rightarrow>
               (CLASSFILE_OK, ed\<lparr>ed_stack_map := table, has_stack_map := True, stack_map_name_index := name\<rparr>))
      else copy_other mem pool a ed)"

fun load_nested_loop ::
  "alloc \<Rightarrow> constant_pool \<Rightarrow> attribute_info list \<Rightarrow> code_editor \<Rightarrow> classfile_status \<times> code_editor" where
  "load_nested_loop mem pool [] ed = (CLASSFILE_OK, ed)"
| "load_nested_loop mem pool (a # as) ed =
     (let (status, ed) = load_nested mem pool a ed in
      if status \<noteq> CLASSFILE_OK then (status, ed) else load_nested_loop mem pool as ed)"

text \<open>The copy of an exception table, which both directions make.\<close>

fun append_exceptions :: "alloc \<Rightarrow> exception_table \<Rightarrow> exception_entry list \<Rightarrow> classfile_status \<times> exception_table" where
  "append_exceptions mem table [] = (CLASSFILE_OK, table)"
| "append_exceptions mem table (e # es) =
     (let (status, table) = exception_table_append mem table e
      in if status \<noteq> CLASSFILE_OK then (status, table) else append_exceptions mem table es)"

lemma append_exceptions_eq: "append_exceptions mem table es = exception_table.append_all mem table es"
  by (induction es arbitrary: table) (simp_all split: prod.splits)

definition copy_exceptions :: "alloc \<Rightarrow> exception_table \<Rightarrow> classfile_status \<times> exception_table" where
  "copy_exceptions mem source =
     (let (status, table) = exception_table_reserve mem exception_table_init (vec_count source) in
      if status \<noteq> CLASSFILE_OK then (status, table)
      else append_exceptions mem table (items source))"

definition code_editor_load ::
  "alloc \<Rightarrow> attribute_info \<Rightarrow> constant_pool \<Rightarrow> classfile_status + code_editor" where
  "code_editor_load mem code pool =
     (case code_attribute_parse mem code of
        Inl status \<Rightarrow> Inl status
      | Inr parsed \<Rightarrow>
          let out = code_editor_init\<lparr>ed_max_stack := max_stack parsed, ed_max_locals := max_locals parsed\<rparr> in
          (case instruction_list_parse mem (code_code parsed) of
             Inl status \<Rightarrow> Inl status
           | Inr list \<Rightarrow>
               let out = out\<lparr>ed_instructions := list\<rparr>;
                   (status, table) = copy_exceptions mem (exceptions parsed);
                   out = out\<lparr>ed_exceptions := table\<rparr> in
               if status \<noteq> CLASSFILE_OK then Inl status
               else
                 let (status, out) = load_nested_loop mem pool (items (code_attributes parsed)) out in
                 if status \<noteq> CLASSFILE_OK then Inl status else Inr out))"

section \<open>Storing\<close>

definition write_line_number :: "alloc \<Rightarrow> line_number_entry \<Rightarrow> byte_buffer \<Rightarrow> byte_buffer" where
  "write_line_number mem e b = byte_buffer_u2 mem (ln_line_number e) (byte_buffer_u2 mem (ln_start_pc e) b)"

definition write_line_numbers :: "alloc \<Rightarrow> code_editor \<Rightarrow> byte_buffer \<Rightarrow> byte_buffer" where
  "write_line_numbers mem ed b =
     fold (write_line_number mem) (line_numbers ed)
       (byte_buffer_u2 mem (of_nat (length (line_numbers ed))) b)"

definition write_local :: "alloc \<Rightarrow> local_variable_entry \<Rightarrow> byte_buffer \<Rightarrow> byte_buffer" where
  "write_local mem e b =
     byte_buffer_u2 mem (lv_index e) (byte_buffer_u2 mem (lv_descriptor_index e)
       (byte_buffer_u2 mem (lv_name_index e) (byte_buffer_u2 mem (lv_length e)
         (byte_buffer_u2 mem (lv_start_pc e) b))))"

definition write_locals :: "alloc \<Rightarrow> local_variable_entry list \<Rightarrow> byte_buffer \<Rightarrow> byte_buffer" where
  "write_locals mem entries b =
     fold (write_local mem) entries (byte_buffer_u2 mem (of_nat (length entries)) b)"

definition take_buffer :: "byte_buffer \<Rightarrow> attribute_info \<Rightarrow> u2 \<Rightarrow> classfile_status \<times> attribute_info" where
  "take_buffer b a name =
     (if \<not> byte_buffer_ok b then (CLASSFILE_ERR_OUT_OF_MEMORY, a)
      else
        let payload = fst (byte_buffer_release b) in
        if length payload > 0xFFFFFFFF then (CLASSFILE_ERR_LIMIT_EXCEEDED, a)
        else (CLASSFILE_OK, a\<lparr>attribute_name_index := name, attr_info := payload\<rparr>))"

text \<open>One of the guarded blocks: append a slot, then fill it in; the slot's contents follow the append.\<close>

definition store_block ::
  "alloc \<Rightarrow> bool \<Rightarrow> classfile_status \<times> attribute_info \<Rightarrow> classfile_status \<times> attribute_list \<Rightarrow>
   classfile_status \<times> attribute_list" where
  "store_block mem present filled state =
     (case state of (status, list) \<Rightarrow>
        if status \<noteq> CLASSFILE_OK \<or> \<not> present then (status, list)
        else
          let (status, list) = attribute_list_append mem list (snd filled) in
          if status \<noteq> CLASSFILE_OK then (status, list) else (fst filled, list))"

definition store_attributes :: "alloc \<Rightarrow> code_editor \<Rightarrow> classfile_status \<times> attribute_list" where
  "store_attributes mem ed =
     (let zero = attribute_info_zero;
          s = (CLASSFILE_OK, attribute_list_init);
          s = store_block mem (has_line_numbers ed)
                (take_buffer (write_line_numbers mem ed byte_buffer_init) zero (line_number_name_index ed)) s;
          s = store_block mem (has_locals ed)
                (take_buffer (write_locals mem (ed_locals ed) byte_buffer_init) zero
                   (local_variable_name_index ed)) s;
          s = store_block mem (has_local_types ed)
                (take_buffer (write_locals mem (ed_local_types ed) byte_buffer_init) zero
                   (local_type_name_index ed)) s;
          s = store_block mem (has_stack_map ed)
                (stack_map_table_write mem (ed_stack_map ed)
                   (zero\<lparr>attribute_name_index := stack_map_name_index ed\<rparr>)) s
      in fold (\<lambda>a. store_block mem True
                 (attribute_info_set_info mem (zero\<lparr>attribute_name_index := attribute_name_index a\<rparr>) (attr_info a)))
           (items (other_attributes ed)) s)"

definition code_editor_store ::
  "alloc \<Rightarrow> code_editor \<Rightarrow> attribute_info \<Rightarrow> (classfile_status \<times> attribute_info) option" where
  "code_editor_store mem ed code =
     (case instruction_list_encode mem (ed_instructions ed) of
        None \<Rightarrow> None
      | Some (Inl status) \<Rightarrow> Some (status, code)
      | Some (Inr bytecode) \<Rightarrow>
          let (status, table) = copy_exceptions mem (ed_exceptions ed) in
          if status \<noteq> CLASSFILE_OK then Some (status, code)
          else
            let (status, list) = store_attributes mem ed in
            if status \<noteq> CLASSFILE_OK then Some (status, code)
            else Some (code_attribute_write mem
                   \<lparr>max_stack = ed_max_stack ed, max_locals = ed_max_locals ed, code_code = bytecode,
                    exceptions = table, code_attributes = list\<rparr> code))"

section \<open>References\<close>

definition offset_to_index :: "instruction_list \<Rightarrow> i4 \<Rightarrow> i4" where
  "offset_to_index list offset =
     (if offset < 0 then - 1
      else if of_int offset = il_code_length list then sint (il_count list)
      else (case find_index (\<lambda>n. ins_offset n = of_int offset) (il_items list) of
              Some i \<Rightarrow> int i
            | None \<Rightarrow> - 1))"

definition index_to_offset :: "instruction_list \<Rightarrow> i4 \<Rightarrow> i4" where
  "index_to_offset list index =
     (if index < 0 then - 1
      else if of_int index \<ge> il_count list then sint (il_code_length list)
      else sint (ins_offset (il_items list ! nat index)))"

type_synonym reference_map = "instruction_list \<Rightarrow> i4 \<Rightarrow> i4"

definition map_reference :: "instruction_list \<Rightarrow> reference_map \<Rightarrow> bool \<Rightarrow> i4 \<Rightarrow> bool \<times> i4" where
  "map_reference list m apply_it value =
     (let mapped = m list value in
      if mapped < 0 then (False, value) else (True, if apply_it then mapped else value))"

definition map_u2_reference :: "instruction_list \<Rightarrow> reference_map \<Rightarrow> bool \<Rightarrow> u2 \<Rightarrow> bool \<times> u2" where
  "map_u2_reference list m apply_it value =
     (let (ok, mapped) = map_reference list m apply_it (uint value) in
      if \<not> ok then (False, value) else (True, if apply_it then of_int mapped else value))"


subsection \<open>Where the references are\<close>

text \<open>
  A positional reference names a place in the code, an identity reference one particular
  instruction. Each kind of entry has its list of references and the operation
  that rewrites them; \<open>u2\<close> fields are widened before and narrowed after.
\<close>

fun operand_refs :: "nat \<Rightarrow> operand \<Rightarrow> i4 list" where
  "operand_refs n (Op_Branch t) = [t]"
| "operand_refs n (Op_BranchWide t) = [t]"
| "operand_refs n (Op_TableSwitch d low high ts) = d # take n ts"
| "operand_refs n (Op_LookupSwitch d ps) = d # map pair_target (take n ps)"
| "operand_refs n _ = []"

definition map_prefix :: "nat \<Rightarrow> ('a \<Rightarrow> 'a) \<Rightarrow> 'a list \<Rightarrow> 'a list" where
  "map_prefix n f xs = map f (take n xs) @ drop n xs"

fun rewrite_operand :: "(i4 \<Rightarrow> i4) \<Rightarrow> nat \<Rightarrow> operand \<Rightarrow> operand" where
  "rewrite_operand f n (Op_Branch t) = Op_Branch (f t)"
| "rewrite_operand f n (Op_BranchWide t) = Op_BranchWide (f t)"
| "rewrite_operand f n (Op_TableSwitch d low high ts) =
     Op_TableSwitch (f d) low high (map_prefix n f ts)"
| "rewrite_operand f n (Op_LookupSwitch d ps) =
     Op_LookupSwitch (f d) (map_prefix n (\<lambda>p. p\<lparr>pair_target := f (pair_target p)\<rparr>) ps)"
| "rewrite_operand f n u = u"

definition instruction_refs :: "instruction \<Rightarrow> i4 list" where
  "instruction_refs node = operand_refs (unat (instruction_switch_entries node)) (ins_u node)"

definition rewrite_instruction :: "(i4 \<Rightarrow> i4) \<Rightarrow> instruction \<Rightarrow> instruction" where
  "rewrite_instruction f node =
     node\<lparr>ins_u := rewrite_operand f (unat (instruction_switch_entries node)) (ins_u node)\<rparr>"

definition narrow :: "(i4 \<Rightarrow> i4) \<Rightarrow> u2 \<Rightarrow> u2" where
  "narrow f v = of_int (f (uint v))"

definition exception_refs :: "exception_entry \<Rightarrow> i4 list" where
  "exception_refs e = [uint (start_pc e), uint (end_pc e), uint (handler_pc e)]"

definition rewrite_exception :: "(i4 \<Rightarrow> i4) \<Rightarrow> exception_entry \<Rightarrow> exception_entry" where
  "rewrite_exception f e =
     e\<lparr>start_pc := narrow f (start_pc e), end_pc := narrow f (end_pc e), handler_pc := narrow f (handler_pc e)\<rparr>"

definition rewrite_line_number :: "(i4 \<Rightarrow> i4) \<Rightarrow> line_number_entry \<Rightarrow> line_number_entry" where
  "rewrite_line_number f e = e\<lparr>ln_start_pc := narrow f (ln_start_pc e)\<rparr>"

definition local_end :: "local_variable_entry \<Rightarrow> i4" where
  "local_end e = uint (lv_start_pc e) + uint (lv_length e)"

definition rewrite_local :: "(i4 \<Rightarrow> i4) \<Rightarrow> local_variable_entry \<Rightarrow> local_variable_entry" where
  "rewrite_local f e =
     (let start = f (uint (lv_start_pc e)); end_pc = f (local_end e)
      in e\<lparr>lv_start_pc := of_int start, lv_length := of_int (end_pc - start)\<rparr>)"

definition types_refs :: "verification_type list \<Rightarrow> i4 list" where
  "types_refs ts = map vt_offset (filter (\<lambda>t. vt_tag t = JVM_ITEM_Uninitialized) ts)"

definition rewrite_type :: "(i4 \<Rightarrow> i4) \<Rightarrow> verification_type \<Rightarrow> verification_type" where
  "rewrite_type g t = (if vt_tag t = JVM_ITEM_Uninitialized then t\<lparr>vt_offset := g (vt_offset t)\<rparr> else t)"

definition rewrite_frame :: "(i4 \<Rightarrow> i4) \<Rightarrow> (i4 \<Rightarrow> i4) \<Rightarrow> stack_map_frame \<Rightarrow> stack_map_frame" where
  "rewrite_frame f g fr =
     fr\<lparr>frame_offset := f (frame_offset fr), frame_locals := map (rewrite_type g) (frame_locals fr),
        frame_stack := map (rewrite_type g) (frame_stack fr)\<rparr>"

definition rewrite_annotation :: "(i4 \<Rightarrow> i4) \<Rightarrow> (i4 \<Rightarrow> i4) \<Rightarrow> type_annotation_ref \<Rightarrow> type_annotation_ref" where
  "rewrite_annotation f g r =
     (if ref_kind r = TYPE_ANNOTATION_SPAN then r\<lparr>ref_start := f (ref_start r), ref_end := f (ref_end r)\<rparr>
      else r\<lparr>ref_start := g (ref_start r)\<rparr>)"

definition positional_refs :: "code_editor \<Rightarrow> i4 list" where
  "positional_refs ed =
     concat (map instruction_refs (il_items (ed_instructions ed))) @
     concat (map exception_refs (items (ed_exceptions ed))) @
     map (\<lambda>e. uint (ln_start_pc e)) (line_numbers ed) @
     concat (map (\<lambda>e. [uint (lv_start_pc e), local_end e]) (ed_locals ed @ ed_local_types ed)) @
     map frame_offset (items (ed_stack_map ed)) @
     concat (map (\<lambda>r. if ref_kind r = TYPE_ANNOTATION_SPAN then [ref_start r, ref_end r] else [])
       (items (type_annotations ed)))"

definition identity_refs :: "code_editor \<Rightarrow> i4 list" where
  "identity_refs ed =
     concat (map (\<lambda>fr. types_refs (frame_locals fr) @ types_refs (frame_stack fr)) (items (ed_stack_map ed))) @
     concat (map (\<lambda>r. if ref_kind r = TYPE_ANNOTATION_SPAN then [] else [ref_start r])
       (items (type_annotations ed)))"

definition rewrite_references :: "(i4 \<Rightarrow> i4) \<Rightarrow> (i4 \<Rightarrow> i4) \<Rightarrow> code_editor \<Rightarrow> code_editor" where
  "rewrite_references f g ed =
     ed\<lparr>ed_instructions := (ed_instructions ed)\<lparr>il_items := map (rewrite_instruction f) (il_items (ed_instructions ed))\<rparr>,
        ed_exceptions := (ed_exceptions ed)\<lparr>items := map (rewrite_exception f) (items (ed_exceptions ed))\<rparr>,
        line_numbers := map (rewrite_line_number f) (line_numbers ed),
        ed_locals := map (rewrite_local f) (ed_locals ed),
        ed_local_types := map (rewrite_local f) (ed_local_types ed),
        ed_stack_map := (ed_stack_map ed)\<lparr>items := map (rewrite_frame f g) (items (ed_stack_map ed))\<rparr>,
        type_annotations := (type_annotations ed)\<lparr>items := map (rewrite_annotation f g) (items (type_annotations ed))\<rparr>\<rparr>"

lemma map_u2_reference_narrow:
  "map_u2_reference list m True v =
     (fst (map_reference list m True (uint v)), narrow (\<lambda>x. snd (map_reference list m True x)) v)"
  by (simp add: map_u2_reference_def narrow_def map_reference_def Let_def)

text \<open>
  The walk over all references. The map reads only offsets and counts of the
  instruction list, which the walk does not change, so it is given the list at the start.
\<close>

definition map_all_references :: "code_editor \<Rightarrow> reference_map \<Rightarrow> bool \<Rightarrow> bool \<times> code_editor" where
  "map_all_references ed m apply_it =
     (let list = ed_instructions ed;
          visit = (\<lambda>v. map_reference list m apply_it v)
      in (list_all (\<lambda>v. fst (visit v)) (positional_refs ed @ identity_refs ed),
          if apply_it then rewrite_references (\<lambda>v. snd (visit v)) (\<lambda>v. snd (visit v)) ed else ed))"

section \<open>Inserting\<close>

definition shift_after :: "i4 \<Rightarrow> i4 \<Rightarrow> u4 \<Rightarrow> i4" where
  "shift_after index at count = (if index > at then i4_wrap (index + sint count) else index)"

definition shift_with :: "i4 \<Rightarrow> i4 \<Rightarrow> u4 \<Rightarrow> i4" where
  "shift_with index at count = (if index \<ge> at then i4_wrap (index + sint count) else index)"

definition splice :: "nat \<Rightarrow> instruction list \<Rightarrow> code_editor \<Rightarrow> code_editor" where
  "splice at nodes ed =
     (let list = ed_instructions ed
      in ed\<lparr>ed_instructions := list\<lparr>il_items := take at (il_items list) @ nodes @ drop at (il_items list)\<rparr>\<rparr>)"

text \<open>The part of the edit that cannot fail any more, on the grown \<open>list\<close>.\<close>

definition insert_body :: "code_editor \<Rightarrow> instruction_list \<Rightarrow> i4 \<Rightarrow> instruction list \<Rightarrow> code_editor" where
  "insert_body ed list at nodes =
     (let count = of_nat (length nodes) :: u4;
          ed = snd (map_all_references (ed\<lparr>ed_instructions := list\<rparr>) offset_to_index True);
          ed = splice (nat at) nodes ed;
          ed = rewrite_references (\<lambda>v. shift_after v at count) (\<lambda>v. shift_with v at count) ed;
          ed = ed\<lparr>ed_instructions := instruction_list_recompute_offsets (ed_instructions ed)\<rparr>
      in snd (map_all_references ed index_to_offset True))"

definition code_editor_insert ::
  "alloc \<Rightarrow> code_editor \<Rightarrow> u4 \<Rightarrow> instruction list \<Rightarrow> u2 \<Rightarrow> classfile_status \<times> code_editor" where
  "code_editor_insert mem ed offset nodes extra_stack =
     (let count = of_nat (length nodes) :: u4;
          at = offset_to_index (ed_instructions ed) (sint offset) in
      if count = 0 then (CLASSFILE_OK, ed)
      else if at < 0 then (CLASSFILE_ERR_BAD_OFFSET, ed)
      else if uint (ed_max_stack ed) + uint extra_stack > 0xFFFF then (CLASSFILE_ERR_LIMIT_EXCEEDED, ed)
      else if \<not> fst (map_all_references ed offset_to_index False) then (CLASSFILE_ERR_BAD_OFFSET, ed)
      else
        case instruction_list_reserve mem (ed_instructions ed) (il_count (ed_instructions ed) + count) of
          (status, list) \<Rightarrow>
            if status \<noteq> CLASSFILE_OK then (status, ed)
            else
              let ed = insert_body ed list at nodes;
                  (status, others) = type_annotation_flush (type_annotations ed) (other_attributes ed);
                  ed = ed\<lparr>other_attributes := others\<rparr> in
              if status \<noteq> CLASSFILE_OK then (status, ed)
              else (CLASSFILE_OK, ed\<lparr>ed_max_stack := ed_max_stack ed + extra_stack\<rparr>))"

end
