(* ===== verification/Descriptors.thy ===== *)
theory Descriptors
  imports JVM_Constants
begin

text \<open>
  Field and method descriptors as the class file format defines them: the types, their
  text and the slots a value of a type takes. The sources never build such a tree; they walk
  the text in several places, and the lemmas about those walks are stated against
  this grammar.
\<close>

datatype jtype =
    JByte | JChar | JFloat | JDouble | JInt | JLong | JShort | JBoolean
  | JClass cstring
  | JArray jtype

fun type_text :: "jtype \<Rightarrow> cstring" where
  "type_text JByte = [JVM_SIGNATURE_BYTE]"
| "type_text JChar = [JVM_SIGNATURE_CHAR]"
| "type_text JFloat = [JVM_SIGNATURE_FLOAT]"
| "type_text JDouble = [JVM_SIGNATURE_DOUBLE]"
| "type_text JInt = [JVM_SIGNATURE_INT]"
| "type_text JLong = [JVM_SIGNATURE_LONG]"
| "type_text JShort = [JVM_SIGNATURE_SHORT]"
| "type_text JBoolean = [JVM_SIGNATURE_BOOLEAN]"
| "type_text (JClass n) = JVM_SIGNATURE_CLASS # n @ [JVM_SIGNATURE_ENDCLASS]"
| "type_text (JArray t) = JVM_SIGNATURE_ARRAY # type_text t"

fun result_text :: "jtype option \<Rightarrow> cstring" where
  "result_text None = [JVM_SIGNATURE_VOID]"
| "result_text (Some t) = type_text t"

definition method_text :: "jtype list \<Rightarrow> jtype option \<Rightarrow> cstring" where
  "method_text params result =
     JVM_SIGNATURE_FUNC # concat (map type_text params) @ JVM_SIGNATURE_ENDFUNC # result_text result"

fun wf_jtype :: "jtype \<Rightarrow> bool" where
  "wf_jtype (JClass n) \<longleftrightarrow> JVM_SIGNATURE_ENDCLASS \<notin> set n \<and> 0 \<notin> set n"
| "wf_jtype (JArray t) \<longleftrightarrow> wf_jtype t"
| "wf_jtype _ \<longleftrightarrow> True"

fun type_slots :: "jtype \<Rightarrow> nat" where
  "type_slots JLong = 2"
| "type_slots JDouble = 2"
| "type_slots _ = 1"

fun element_type :: "jtype \<Rightarrow> jtype" where
  "element_type (JArray t) = element_type t"
| "element_type t = t"

fun is_array :: "jtype \<Rightarrow> bool" where
  "is_array (JArray _) \<longleftrightarrow> True"
| "is_array _ \<longleftrightarrow> False"

fun is_reference :: "jtype \<Rightarrow> bool" where
  "is_reference (JArray _) \<longleftrightarrow> True"
| "is_reference (JClass _) \<longleftrightarrow> True"
| "is_reference _ \<longleftrightarrow> False"

text \<open>Arrays whose elements take two slots, and arrays of primitive elements.\<close>

definition wide_array :: "jtype \<Rightarrow> bool" where
  "wide_array t \<longleftrightarrow> is_array t \<and> type_slots (element_type t) = 2"

definition primitive_array :: "jtype \<Rightarrow> bool" where
  "primitive_array t \<longleftrightarrow> is_array t \<and> \<not> is_reference (element_type t)"

section \<open>The text of a type\<close>

fun dimensions :: "jtype \<Rightarrow> nat" where
  "dimensions (JArray t) = Suc (dimensions t)"
| "dimensions _ = 0"

lemma type_text_element:
  "type_text t = replicate (dimensions t) JVM_SIGNATURE_ARRAY @ type_text (element_type t)"
  by (induction t) simp_all

lemma element_not_array [simp]: "\<not> is_array (element_type t)"
  by (induction t) simp_all

lemma wf_element [simp]: "wf_jtype (element_type t) = wf_jtype t"
  by (induction t) simp_all

lemma type_text_nonempty [simp]: "type_text t \<noteq> []"
  by (cases t) simp_all

lemma hd_type_text: "hd (type_text t) \<noteq> JVM_SIGNATURE_ENDFUNC \<and> hd (type_text t) \<noteq> 0"
  by (cases t) simp_all

lemma hd_element_text: "\<not> is_array t \<Longrightarrow> hd (type_text t) \<noteq> JVM_SIGNATURE_ARRAY"
  by (cases t) simp_all

lemma dropWhile_replicate:
  "c \<noteq> x \<Longrightarrow> dropWhile (\<lambda>c. c = x) (replicate n x @ c # cs) = c # cs"
  by (induction n) simp_all

lemma skip_array_markers:
  "dropWhile (\<lambda>c. c = JVM_SIGNATURE_ARRAY) (type_text t @ rest) = type_text (element_type t) @ rest"
proof -
  obtain c cs where "type_text (element_type t) = c # cs" "c \<noteq> JVM_SIGNATURE_ARRAY"
    using hd_element_text [OF element_not_array, of t] type_text_nonempty [of "element_type t"]
    by (metis list.collapse)
  then show ?thesis
    by (subst type_text_element) (simp add: dropWhile_replicate)
qed

lemma skip_class_name:
  "JVM_SIGNATURE_ENDCLASS \<notin> set n \<Longrightarrow>
   dropWhile (\<lambda>c. c \<noteq> JVM_SIGNATURE_ENDCLASS) (n @ JVM_SIGNATURE_ENDCLASS # rest)
     = JVM_SIGNATURE_ENDCLASS # rest"
  by (subst dropWhile_append2) auto

lemma type_slots_element: "\<not> wide_array t \<Longrightarrow> type_slots (element_type t) = type_slots t"
proof (cases t)
  case (JArray s)
  moreover assume "\<not> wide_array t"
  moreover have "type_slots (element_type s) = 1 \<or> type_slots (element_type s) = 2"
    by (cases "element_type s") simp_all
  ultimately show ?thesis by (auto simp: wide_array_def)
qed simp_all

end
