(* ===== verification/Call_Forwarding.thy ===== *)
theory Call_Forwarding
  imports Class_Transform Code_Editor Descriptors
begin

text \<open>
  The helpers of \<^verbatim>\<open>class_transform.c\<close> that build an inserted call: which loads forward the
  parameters of a method, the descriptor of the callee, and the stack map frame of the method entry. C
  strings are lists of their bytes; the fixed buffers of the code appear as the capacities that it
  compares with.
\<close>

section \<open>Forwarded parameters\<close>

record forwarded_parameter =
  load_opcode :: u1
  fp_slot :: u2
  forwarded :: u1

text \<open>The switch of \<open>describe_parameters\<close>: load opcode and width.\<close>

definition parameter_shape :: "u1 \<Rightarrow> (u1 \<times> u2) option" where
  "parameter_shape c =
     (if c \<in> set [JVM_SIGNATURE_BYTE, JVM_SIGNATURE_CHAR, JVM_SIGNATURE_SHORT, JVM_SIGNATURE_BOOLEAN,
                  JVM_SIGNATURE_INT] then Some (JVM_OPC_iload, 1)
      else if c = JVM_SIGNATURE_LONG then Some (JVM_OPC_lload, 2)
      else if c = JVM_SIGNATURE_FLOAT then Some (JVM_OPC_fload, 1)
      else if c = JVM_SIGNATURE_DOUBLE then Some (JVM_OPC_dload, 2)
      else if c = JVM_SIGNATURE_CLASS then Some (JVM_OPC_aload, 1)
      else None)"

definition skip_class :: "cstring \<Rightarrow> cstring option" where
  "skip_class cursor =
     (case dropWhile (\<lambda>c. c \<noteq> JVM_SIGNATURE_ENDCLASS) cursor of [] \<Rightarrow> None | _ # rest \<Rightarrow> Some rest)"

lemma skip_class_shorter: "skip_class cursor = Some rest \<Longrightarrow> length rest < length cursor"
  using length_dropWhile_le [of "\<lambda>c. c \<noteq> JVM_SIGNATURE_ENDCLASS" cursor]
  by (auto simp: skip_class_def split: list.splits)

lemma dropWhile_Cons_shorter: "dropWhile p xs = y # ys \<Longrightarrow> length ys < length xs"
  using length_dropWhile_le [of p xs] by simp

function describe_loop ::
  "nat \<Rightarrow> cstring \<Rightarrow> forwarded_parameter list \<Rightarrow> u2 \<Rightarrow> (forwarded_parameter list \<times> u2) option" where
  "describe_loop capacity cursor out slot =
     (case cursor of
        [] \<Rightarrow> None
      | c # _ \<Rightarrow>
          if c = JVM_SIGNATURE_ENDFUNC then Some (out, slot)
          else if length out = capacity then None
          else
            (case dropWhile (\<lambda>c. c = JVM_SIGNATURE_ARRAY) cursor of
               [] \<Rightarrow> None
             | d # later \<Rightarrow>
                 (case parameter_shape d of
                    None \<Rightarrow> None
                  | Some (opcode, width) \<Rightarrow>
                      (case (if d = JVM_SIGNATURE_CLASS then skip_class later else Some later) of
                         None \<Rightarrow> None
                       | Some rest \<Rightarrow>
                           describe_loop capacity rest
                             (out @ [\<lparr>load_opcode = opcode, fp_slot = slot,
                                      forwarded = (if c = JVM_SIGNATURE_ARRAY \<or> d = JVM_SIGNATURE_CLASS
                                                   then JVM_SIGNATURE_CLASS else d)\<rparr>])
                             (slot + width)))))"
  by pat_completeness auto
termination
proof (relation "measure (\<lambda>(capacity, cursor, out, slot). length cursor)", goal_cases)
  case (2 capacity cursor out slot c after d later shape opcode width rest)
  from dropWhile_Cons_shorter [OF 2(4)] have "length later < length cursor" .
  moreover from 2(7) have "length rest \<le> length later"
    using skip_class_shorter [of later rest] by (auto split: if_splits)
  ultimately show ?case by simp
qed simp

declare describe_loop.simps [simp del]

definition describe_parameters ::
  "cstring \<Rightarrow> bool \<Rightarrow> nat \<Rightarrow> (forwarded_parameter list \<times> u2) option" where
  "describe_parameters descriptor is_static capacity =
     (case descriptor of
        [] \<Rightarrow> None
      | c # cursor \<Rightarrow>
          if c \<noteq> JVM_SIGNATURE_FUNC then None
          else if \<not> is_static then
            (if capacity = 0 then None
             else describe_loop capacity cursor
                    [\<lparr>load_opcode = JVM_OPC_aload, fp_slot = 0, forwarded = JVM_SIGNATURE_CLASS\<rparr>] 1)
          else describe_loop capacity cursor [] 0)"

definition kObject :: cstring where
  "kObject = cstr ''Ljava/lang/Object;''"

fun callee_loop :: "nat \<Rightarrow> forwarded_parameter list \<Rightarrow> cstring \<Rightarrow> cstring option" where
  "callee_loop capacity [] out = Some out"
| "callee_loop capacity (p # ps) out =
     (if forwarded p = JVM_SIGNATURE_CLASS then
        (if length out + length kObject \<ge> capacity then None
         else callee_loop capacity ps (out @ kObject))
      else if length out + 1 \<ge> capacity then None
      else callee_loop capacity ps (out @ [forwarded p]))"

definition build_callee_descriptor :: "forwarded_parameter list \<Rightarrow> nat \<Rightarrow> cstring option" where
  "build_callee_descriptor ps capacity =
     (if capacity < 3 then None
      else
        case callee_loop capacity ps [JVM_SIGNATURE_FUNC, JVM_SIGNATURE_INT] of
          None \<Rightarrow> None
        | Some out \<Rightarrow>
            if length out + 3 > capacity then None
            else Some (out @ [JVM_SIGNATURE_ENDFUNC, JVM_SIGNATURE_VOID]))"

section \<open>The entry frame\<close>

definition object_type :: "u2 \<Rightarrow> verification_type" where
  "object_type i = \<lparr>vt_tag = JVM_ITEM_Object, vt_cpool_index = i, vt_offset = 0\<rparr>"

definition primitive_type :: "u1 \<Rightarrow> verification_type option" where
  "primitive_type c =
     map_option (\<lambda>tag. \<lparr>vt_tag = tag, vt_cpool_index = 0, vt_offset = 0\<rparr>)
       (if c = JVM_SIGNATURE_LONG then Some JVM_ITEM_Long
        else if c = JVM_SIGNATURE_FLOAT then Some JVM_ITEM_Float
        else if c = JVM_SIGNATURE_DOUBLE then Some JVM_ITEM_Double
        else if c \<in> set [JVM_SIGNATURE_BYTE, JVM_SIGNATURE_CHAR, JVM_SIGNATURE_SHORT, JVM_SIGNATURE_BOOLEAN,
                         JVM_SIGNATURE_INT] then Some JVM_ITEM_Integer
        else None)"

text \<open>
  The name that a reference at the cursor has in the pool, and the text behind it: an array is
  named by its whole descriptor, a class by what stands between \<open>L\<close> and the semicolon.
\<close>

definition reference_name :: "cstring \<Rightarrow> u1 \<Rightarrow> cstring \<Rightarrow> (cstring \<times> cstring) option" where
  "reference_name brackets d later =
     (if d = JVM_SIGNATURE_CLASS then
        (case dropWhile (\<lambda>c. c \<noteq> JVM_SIGNATURE_ENDCLASS) later of
           [] \<Rightarrow> None
         | e # rest \<Rightarrow>
             let body = takeWhile (\<lambda>c. c \<noteq> JVM_SIGNATURE_ENDCLASS) later
             in Some (if brackets \<noteq> [] then brackets @ d # body @ [e] else body, rest))
      else Some (brackets @ [d], later))"

lemma reference_name_shorter:
  "reference_name brackets d later = Some (name, rest) \<Longrightarrow> length rest \<le> length later"
  by (auto simp: reference_name_def Let_def split: if_splits list.splits dest: dropWhile_Cons_shorter)

function frame_loop ::
  "alloc \<Rightarrow> ClassFile \<Rightarrow> cstring \<Rightarrow> verification_type list \<Rightarrow>
   classfile_status \<times> ClassFile \<times> verification_type list" where
  "frame_loop mem cf cursor locals =
     (case cursor of
        [] \<Rightarrow> (CLASSFILE_ERR_UNSUPPORTED, cf, locals)
      | c # _ \<Rightarrow>
          if c = JVM_SIGNATURE_ENDFUNC then (CLASSFILE_OK, cf, locals)
          else if length locals = 256 then (CLASSFILE_ERR_UNSUPPORTED, cf, locals)
          else
            (case dropWhile (\<lambda>c. c = JVM_SIGNATURE_ARRAY) cursor of
               [] \<Rightarrow> (CLASSFILE_ERR_UNSUPPORTED, cf, locals)
             | d # later \<Rightarrow>
                 if c = JVM_SIGNATURE_ARRAY \<or> d = JVM_SIGNATURE_CLASS then
                   (case reference_name (takeWhile (\<lambda>c. c = JVM_SIGNATURE_ARRAY) cursor) d later of
                      None \<Rightarrow> (CLASSFILE_ERR_UNSUPPORTED, cf, locals)
                    | Some (name, rest) \<Rightarrow>
                        if length name \<ge> 512 then (CLASSFILE_ERR_UNSUPPORTED, cf, locals)
                        else
                          (case classFile_intern_class mem cf name of
                             (status, cf', None) \<Rightarrow> (status, cf', locals)
                           | (status, cf', Some class_index) \<Rightarrow>
                               frame_loop mem cf' rest (locals @ [object_type class_index])))
                 else
                   (case primitive_type d of
                      None \<Rightarrow> (CLASSFILE_ERR_UNSUPPORTED, cf, locals)
                    | Some t \<Rightarrow> frame_loop mem cf later (locals @ [t]))))"
  by pat_completeness auto
termination
proof (relation "measure (\<lambda>(mem, cf, cursor, locals). length cursor)", goal_cases)
  case (2 mem cf cursor locals c after d later entry name rest)
  from dropWhile_Cons_shorter [OF 2(4)] have "length later < length cursor" .
  moreover have "length rest \<le> length later"
    using 2(6,7) reference_name_shorter by metis
  ultimately show ?case by simp
next
  case 3
  then show ?case by (auto dest: dropWhile_Cons_shorter)
qed simp

declare frame_loop.simps [simp del]

definition build_entry_frame ::
  "alloc \<Rightarrow> ClassFile \<Rightarrow> cstring \<Rightarrow> bool \<Rightarrow> i4 \<Rightarrow> classfile_status \<times> ClassFile \<times> stack_map_frame" where
  "build_entry_frame mem cf descriptor is_static offset =
     (let frame = \<lparr>raw_tag = 255, frame_kind = FRAME_FULL, frame_offset = offset, chop_count = 0,
                   frame_locals = [], frame_stack = []\<rparr>;
          (status, cf, locals) = frame_loop mem cf (tl descriptor)
            (if \<not> is_static then [object_type (this_class cf)] else [])
      in if status \<noteq> CLASSFILE_OK then (status, cf, frame)
         else if locals \<noteq> [] \<and> \<not> mem Alloc_verification_type (length locals)
         then (CLASSFILE_ERR_OUT_OF_MEMORY, cf, frame)
         else (CLASSFILE_OK, cf, frame\<lparr>frame_locals := locals\<rparr>))"

text \<open>The last component is \<open>*out_taken\<close>.\<close>

definition insert_frame ::
  "alloc \<Rightarrow> stack_map_table \<Rightarrow> stack_map_frame \<Rightarrow> classfile_status \<times> stack_map_table \<times> bool" where
  "insert_frame mem table frame =
     (if vec_count table = 0xFFFF then (CLASSFILE_ERR_LIMIT_EXCEEDED, table, False)
      else
        let (status, table) =
              (if vec_count table = vcap table then smt_reserve mem table (grow_capacity 8 (vcap table))
               else (CLASSFILE_OK, table))
        in if status \<noteq> CLASSFILE_OK then (status, table, False)
           else
             let at = length (takeWhile (\<lambda>f. frame_offset f < frame_offset frame) (items table))
             in if at < length (items table) \<and> frame_offset (items table ! at) = frame_offset frame
                then (CLASSFILE_OK, table, False)
                else (CLASSFILE_OK,
                      table\<lparr>items := take at (items table) @ frame # drop at (items table)\<rparr>, True))"

definition return_opcode_for :: "u1 \<Rightarrow> u1" where
  "return_opcode_for kind =
     (if kind = JVM_SIGNATURE_VOID then JVM_OPC_return
      else if kind = JVM_SIGNATURE_LONG then JVM_OPC_lreturn
      else if kind = JVM_SIGNATURE_FLOAT then JVM_OPC_freturn
      else if kind = JVM_SIGNATURE_DOUBLE then JVM_OPC_dreturn
      else if kind = JVM_SIGNATURE_CLASS \<or> kind = JVM_SIGNATURE_ARRAY then JVM_OPC_areturn
      else JVM_OPC_ireturn)"

definition default_opcode_for :: "u1 \<Rightarrow> u1" where
  "default_opcode_for kind =
     (if kind = JVM_SIGNATURE_LONG then JVM_OPC_lconst_0
      else if kind = JVM_SIGNATURE_FLOAT then JVM_OPC_fconst_0
      else if kind = JVM_SIGNATURE_DOUBLE then JVM_OPC_dconst_0
      else if kind = JVM_SIGNATURE_CLASS \<or> kind = JVM_SIGNATURE_ARRAY then JVM_OPC_aconst_null
      else JVM_OPC_iconst_0)"

section \<open>What the parameter walk computes\<close>

text \<open>
  The reference: a value of a type is loaded by the opcode of its kind from its slot and
  forwarded under its own letter, or as an object.
\<close>

fun load_for :: "jtype \<Rightarrow> u1" where
  "load_for JLong = JVM_OPC_lload"
| "load_for JFloat = JVM_OPC_fload"
| "load_for JDouble = JVM_OPC_dload"
| "load_for (JClass _) = JVM_OPC_aload"
| "load_for (JArray _) = JVM_OPC_aload"
| "load_for _ = JVM_OPC_iload"

fun letter_for :: "jtype \<Rightarrow> u1" where
  "letter_for (JArray _) = JVM_SIGNATURE_CLASS"
| "letter_for t = hd (type_text t)"

text \<open>The opcode of the element type is what the walk uses for an array as well.\<close>

fun forward_types :: "u2 \<Rightarrow> jtype list \<Rightarrow> forwarded_parameter list" where
  "forward_types slot [] = []"
| "forward_types slot (t # ts) =
     \<lparr>load_opcode = load_for t, fp_slot = slot, forwarded = letter_for t\<rparr> #
     forward_types (slot + of_nat (type_slots t)) ts"

fun walk_types :: "u2 \<Rightarrow> jtype list \<Rightarrow> forwarded_parameter list" where
  "walk_types slot [] = []"
| "walk_types slot (t # ts) =
     \<lparr>load_opcode = load_for (element_type t), fp_slot = slot, forwarded = letter_for t\<rparr> #
     walk_types (slot + of_nat (type_slots (element_type t))) ts"

lemma length_walk_types [simp]: "length (walk_types slot ts) = length ts"
  by (induction ts arbitrary: slot) simp_all

lemma parameter_shape_element:
  "parameter_shape (hd (type_text (element_type t))) =
     Some (load_for (element_type t), of_nat (type_slots (element_type t)))"
  using element_not_array [of t] by (cases "element_type t") (simp_all add: parameter_shape_def)

lemma skip_class_text:
  "wf_jtype t \<Longrightarrow> \<not> is_array t \<Longrightarrow>
   (if hd (type_text t) = JVM_SIGNATURE_CLASS then skip_class (tl (type_text t) @ rest)
    else Some (tl (type_text t) @ rest)) = Some rest"
  by (cases t) (simp_all add: skip_class_def skip_class_name)

lemma letter_for_walk:
  "letter_for t = (if hd (type_text t) = JVM_SIGNATURE_ARRAY \<or> hd (type_text (element_type t)) = JVM_SIGNATURE_CLASS
                   then JVM_SIGNATURE_CLASS else hd (type_text (element_type t)))"
  by (cases t) simp_all

lemma describe_loop_step:
  assumes "wf_jtype t" "length out \<noteq> capacity"
  shows "describe_loop capacity (type_text t @ rest) out slot =
    describe_loop capacity rest
      (out @ [\<lparr>load_opcode = load_for (element_type t), fp_slot = slot, forwarded = letter_for t\<rparr>])
      (slot + of_nat (type_slots (element_type t)))"
proof -
  let ?e = "type_text (element_type t)"
  have c: "type_text t @ rest = hd (type_text t) # tl (type_text t) @ rest" by simp
  have d: "dropWhile (\<lambda>c. c = JVM_SIGNATURE_ARRAY) (type_text t @ rest) = hd ?e # tl ?e @ rest"
    using skip_array_markers [of t rest] by simp
  have s: "(if hd ?e = JVM_SIGNATURE_CLASS then skip_class (tl ?e @ rest) else Some (tl ?e @ rest)) = Some rest"
    using assms(1) by (intro skip_class_text) simp_all
  have ne: "hd (type_text t) \<noteq> JVM_SIGNATURE_ENDFUNC" using hd_type_text by blast
  show ?thesis
    unfolding describe_loop.simps [of capacity "type_text t @ rest"] d
    by (subst c) (use ne assms(2) s in \<open>simp add: parameter_shape_element letter_for_walk [symmetric]\<close>)
qed

lemma describe_loop_types:
  assumes "list_all wf_jtype ts" "length out \<le> capacity"
  shows "describe_loop capacity (concat (map type_text ts) @ JVM_SIGNATURE_ENDFUNC # rest) out slot =
    (if length out + length ts \<le> capacity
     then Some (out @ walk_types slot ts, slot + of_nat (\<Sum>t\<leftarrow>ts. type_slots (element_type t))) else None)"
  using assms
proof (induction ts arbitrary: out slot)
  case Nil
  then show ?case by (simp add: describe_loop.simps)
next
  case (Cons t ts)
  let ?more = "concat (map type_text ts) @ JVM_SIGNATURE_ENDFUNC # rest"
  show ?case
  proof (cases "length out = capacity")
    case True
    obtain c cs where "type_text t @ ?more = c # cs" "c \<noteq> JVM_SIGNATURE_ENDFUNC"
      using hd_type_text [of t] type_text_nonempty [of t] by (cases "type_text t") auto
    with True show ?thesis by (simp add: describe_loop.simps)
  next
    case False
    with Cons.prems have "length out < capacity" by simp
    with Cons show ?thesis by (simp add: describe_loop_step add.assoc)
  qed
qed

lemma walk_forward:
  "list_all (\<lambda>t. \<not> primitive_array t) ts \<Longrightarrow> walk_types slot ts = forward_types slot ts"
proof (induction ts arbitrary: slot)
  case (Cons t ts)
  have "load_for (element_type t) = load_for t \<and> type_slots (element_type t) = type_slots t"
  proof (cases t)
    case (JArray s)
    with Cons.prems element_not_array [of s] show ?thesis
      by (cases "element_type s") (simp_all add: primitive_array_def)
  qed simp_all
  with Cons show ?case by simp
qed simp

text \<open>The receiver of an instance method is its first value.\<close>

definition with_receiver :: "bool \<Rightarrow> jtype list \<Rightarrow> jtype list" where
  "with_receiver is_static params = (if is_static then params else JClass [] # params)"

lemma describe_parameters_eq:
  assumes "list_all (\<lambda>t. wf_jtype t \<and> \<not> primitive_array t) params"
  shows "describe_parameters (method_text params result) is_static capacity =
    (let ts = with_receiver is_static params
     in if length ts \<le> capacity then Some (forward_types 0 ts, of_nat (\<Sum>t\<leftarrow>ts. type_slots t)) else None)"
proof -
  have wf: "list_all wf_jtype params" and plain: "list_all (\<lambda>t. \<not> primitive_array t) params"
    using assms by (simp_all add: list_all_iff)
  have "\<not> primitive_array t \<Longrightarrow> \<not> wide_array t" for t
    by (cases "element_type t") (auto simp: primitive_array_def wide_array_def)
  then have "(\<Sum>t\<leftarrow>params. type_slots (element_type t)) = (\<Sum>t\<leftarrow>params. type_slots t)"
    using plain by (intro arg_cong [where f = sum_list]) (simp add: list_all_iff type_slots_element)
  with describe_loop_types [OF wf] walk_forward [OF plain] show ?thesis
    by (auto simp: describe_parameters_def method_text_def with_receiver_def)
qed

section \<open>The callee descriptor\<close>

definition forwarded_text :: "forwarded_parameter \<Rightarrow> cstring" where
  "forwarded_text p = (if forwarded p = JVM_SIGNATURE_CLASS then kObject else [forwarded p])"

definition callee_text :: "forwarded_parameter list \<Rightarrow> cstring" where
  "callee_text ps = [JVM_SIGNATURE_FUNC, JVM_SIGNATURE_INT] @ concat (map forwarded_text ps) @
     [JVM_SIGNATURE_ENDFUNC, JVM_SIGNATURE_VOID]"

lemma callee_loop_eq:
  "callee_loop capacity ps out =
     (if ps = [] \<or> length (out @ concat (map forwarded_text ps)) < capacity
      then Some (out @ concat (map forwarded_text ps)) else None)"
proof (induction ps arbitrary: out)
  case (Cons p ps)
  then show ?case by (cases "ps = []") (auto simp: forwarded_text_def [of p])
qed simp

text \<open>
  The descriptor of the callee is an int followed by the forwarded letters, with references as
  \<open>Object\<close>; it is built exactly if it fits the buffer together with its terminating zero.
\<close>

lemma build_callee_descriptor_eq:
  "build_callee_descriptor ps capacity =
     (if length (callee_text ps) < capacity then Some (callee_text ps) else None)"
  by (auto simp: build_callee_descriptor_def callee_loop_eq callee_text_def)

section \<open>Sorted frames\<close>

lemma grow_room:
  assumes "vec_inv table" "vec_count table \<noteq> 0xFFFF" "st = CLASSFILE_OK"
    and grow: "(if vec_count table = vcap table then smt_reserve mem table (grow_capacity 8 (vcap table))
      else (CLASSFILE_OK, table)) = (st, t)"
  shows "length (items table) < unat (vcap t) \<and> items t = items table"
proof (cases "vec_count table = vcap table")
  case True
  have "length (items table) < 65535"
    using assms(2) vec_count_max_iff [OF assms(1)] vec_inv_length [OF assms(1)] by linarith
  with True grow_capacity_grows [of "vcap table" 8] vec_count_full_iff [OF assms(1)]
    vec_reserve_cases [of mem Alloc_stack_map_frame table "grow_capacity 8 (vcap table)" st t] grow assms(3)
  show ?thesis by (auto simp: smt_reserve_def)
next
  case False
  with grow assms(1,3) vec_count_full_iff [OF assms(1)] show ?thesis by (auto simp: vec_inv_def)
qed

abbreviation frames_sorted :: "stack_map_table \<Rightarrow> bool" where
  "frames_sorted table \<equiv> sorted_wrt (<) (map frame_offset (items table))"

lemma split_sorted:
  fixes v :: int
  assumes "sorted_wrt (<) (map f xs)"
  defines "at \<equiv> length (takeWhile (\<lambda>x. f x < v) xs)"
  shows "(\<forall>x \<in> set (take at xs). f x < v) \<and> (\<forall>x \<in> set (drop at xs). v \<le> f x) \<and>
    (at < length xs \<longrightarrow> f (xs ! at) \<noteq> v \<longrightarrow> (\<forall>x \<in> set (drop at xs). v < f x))"
proof -
  let ?p = "\<lambda>x. f x < v"
  have take: "take at xs = takeWhile ?p xs" "drop at xs = dropWhile ?p xs"
    by (simp_all add: at_def takeWhile_eq_take [symmetric] dropWhile_eq_drop)
  have low: "\<forall>x \<in> set (take at xs). f x < v" unfolding take by (auto dest: set_takeWhileD)
  show ?thesis
  proof (cases "dropWhile ?p xs")
    case Nil
    then have "drop at xs = []" using take(2) by simp
    then show ?thesis using low by (metis append_take_drop_id length_drop list.size(3) empty_iff
          empty_set zero_less_diff less_irrefl)
  next
    case (Cons y ys)
    have y: "v \<le> f y" using Cons by (metis hd_dropWhile linorder_not_less list.sel(1) list.simps(3))
    have "sorted_wrt (<) (map f (dropWhile ?p xs))"
      using assms(1) by (simp add: sorted_wrt_map sorted_wrt_dropWhile)
    then have ys: "\<forall>x \<in> set ys. f y < f x" using Cons by simp
    have "at < length xs \<Longrightarrow> xs ! at = y" using Cons take(2) by (metis Cons_nth_drop_Suc list.inject)
    with low y ys take Cons show ?thesis by fastforce
  qed
qed

lemma split_sorted_insert:
  fixes f :: "'a \<Rightarrow> int"
  assumes sorted: "sorted_wrt (<) (map f xs)"
    and no: "\<not> (length (takeWhile (\<lambda>x. f x < f y) xs) < length xs \<and> f (xs ! length (takeWhile (\<lambda>x. f x < f y) xs)) = f y)"
  defines "at \<equiv> length (takeWhile (\<lambda>x. f x < f y) xs)"
  shows "f y \<notin> f ` set xs \<and> sorted_wrt (<) (map f (take at xs @ y # drop at xs))"
proof -
  note cut = split_sorted [OF sorted, of "f y", folded at_def]
  have above: "\<forall>x \<in> set (drop at xs). f y < f x"
  proof (cases "at < length xs")
    case True
    with no [folded at_def] have "f (xs ! at) \<noteq> f y" by blast
    with True cut show ?thesis by blast
  qed simp
  have "set xs = set (take at xs) \<union> set (drop at xs)" using set_append [of "take at xs" "drop at xs"] by simp
  with cut above have "\<forall>x \<in> set xs. f x \<noteq> f y" by (metis Un_iff less_irrefl)
  moreover have "sorted_wrt (<) (map f (take at xs))" "sorted_wrt (<) (map f (drop at xs))"
    using sorted_wrt_take [OF sorted, of at] sorted_wrt_drop [OF sorted, of at] by (simp_all only: take_map drop_map)
  moreover have "\<forall>x \<in> set (take at xs). \<forall>z \<in> set (drop at xs). f x < f z"
    using cut above by (meson order_less_trans)
  ultimately show ?thesis using cut above by (simp add: sorted_wrt_append image_iff) metis
qed

section \<open>Properties\<close>

text \<open>
  for a method without parameters that are arrays of primitives, \<open>describe_parameters\<close> yields for the
  receiver and every parameter the load of its kind, its slot and its letter, and refuses exactly
  the methods with more parameters than the buffer has room for.\<close>

theorem describe_parameters_correct:
  assumes "list_all (\<lambda>t. wf_jtype t \<and> \<not> primitive_array t) params"
  shows "describe_parameters (method_text params result) is_static capacity =
    (let this = (if is_static then []
                 else [\<lparr>load_opcode = JVM_OPC_aload, fp_slot = 0, forwarded = JVM_SIGNATURE_CLASS\<rparr>]);
         slot = (if is_static then 0 else 1)
     in if length this + length params \<le> capacity
        then Some (this @ forward_types slot params, slot + of_nat (\<Sum>t\<leftarrow>params. type_slots t)) else None)"
  using describe_parameters_eq [OF assms, of result is_static capacity]
  by (auto simp: Let_def with_receiver_def)

theorem describe_parameters_correct_witness:
  "describe_parameters (method_text [JLong, JArray (JClass (cstr ''A'')), JInt] None) False 64 =
     Some ([\<lparr>load_opcode = JVM_OPC_aload, fp_slot = 0, forwarded = JVM_SIGNATURE_CLASS\<rparr>,
            \<lparr>load_opcode = JVM_OPC_lload, fp_slot = 1, forwarded = JVM_SIGNATURE_LONG\<rparr>,
            \<lparr>load_opcode = JVM_OPC_aload, fp_slot = 3, forwarded = JVM_SIGNATURE_CLASS\<rparr>,
            \<lparr>load_opcode = JVM_OPC_iload, fp_slot = 4, forwarded = JVM_SIGNATURE_INT\<rparr>], 5)"
  using describe_parameters_correct [of "[JLong, JArray (JClass (cstr ''A'')), JInt]" None False 64]
  by (simp add: primitive_array_def)

text \<open>
  an array of primitives is loaded like one of its elements: \<open>int[]\<close> with iload, \<open>long[]\<close> with lload and
  two slots, although the value is a reference. The forwarding prologue of such a method does
  not pass bytecode verification.\<close>

theorem primitive_array_loaded_as_element:
  "describe_parameters (method_text [JArray JInt] result) True 64 =
     Some ([\<lparr>load_opcode = JVM_OPC_iload, fp_slot = 0, forwarded = JVM_SIGNATURE_CLASS\<rparr>], 1) \<and>
   describe_parameters (method_text [JArray JLong] result) True 64 =
     Some ([\<lparr>load_opcode = JVM_OPC_lload, fp_slot = 0, forwarded = JVM_SIGNATURE_CLASS\<rparr>], 2) \<and>
   load_for (JArray JInt) = JVM_OPC_aload \<and> load_for (JArray JLong) = JVM_OPC_aload"
  using describe_loop_types [of "[JArray JInt]" "[]" 64 "result_text result" 0]
    describe_loop_types [of "[JArray JLong]" "[]" 64 "result_text result" 0]
  by (simp add: describe_parameters_def method_text_def)

text \<open>
  inserting a frame keeps the frames of a stack map in strictly ascending order of their offsets; the
  frame is taken exactly if its offset was free, and a failure leaves the frames alone.\<close>

theorem insert_frame_keeps_order:
  assumes "vec_inv table" "frames_sorted table" "insert_frame mem table frame = (status, table', taken)"
  shows "vec_inv table' \<and> frames_sorted table' \<and>
    (taken \<longleftrightarrow> status = CLASSFILE_OK \<and> frame_offset frame \<notin> frame_offset ` set (items table)) \<and>
    set (items table') = set (items table) \<union> (if taken then {frame} else {})"
proof -
  let ?at = "\<lambda>xs. length (takeWhile (\<lambda>f. frame_offset f < frame_offset frame) xs)"
  obtain st t where grow: "(if vec_count table = vcap table then smt_reserve mem table (grow_capacity 8 (vcap table))
      else (CLASSFILE_OK, table)) = (st, t)" by fastforce
  show ?thesis
  proof (cases "vec_count table = 0xFFFF \<or> st \<noteq> CLASSFILE_OK")
    case True
    have "items t = items table" "vec_inv t"
      using grow assms(1) vec_reserve_cases [of mem Alloc_stack_map_frame table "grow_capacity 8 (vcap table)" st t]
      by (auto simp: smt_reserve_def vec_inv_def split: if_splits)
    moreover have "insert_frame mem table frame =
        (if vec_count table = 0xFFFF then (CLASSFILE_ERR_LIMIT_EXCEEDED, table, False) else (st, t, False))"
      using True by (auto simp: insert_frame_def grow)
    ultimately show ?thesis using True assms by (cases "vec_count table = 0xFFFF") simp_all
  next
    case False
    then have room: "length (items table) < unat (vcap t)" "items t = items table"
      using grow_room [OF assms(1) _ _ grow] by auto
    let ?k = "?at (items table)" and ?os = "frame_offset ` set (items table)"
    have eq: "insert_frame mem table frame =
        (if ?k < length (items table) \<and> frame_offset (items table ! ?k) = frame_offset frame
         then (CLASSFILE_OK, t, False)
         else (CLASSFILE_OK, t\<lparr>items := take ?k (items table) @ frame # drop ?k (items table)\<rparr>, True))"
      using False grow by (simp add: insert_frame_def Let_def room)
    show ?thesis
    proof (cases "?k < length (items table) \<and> frame_offset (items table ! ?k) = frame_offset frame")
      case True
      then have "frame_offset frame \<in> ?os" by (metis image_eqI nth_mem)
      moreover have "status = CLASSFILE_OK" "table' = t" "\<not> taken"
        using True eq assms(3) by simp_all
      ultimately show ?thesis using assms(2) room by (simp add: vec_inv_def)
    next
      case no: False
      note free = split_sorted_insert [OF assms(2) no]
      have result: "status = CLASSFILE_OK" "taken" "items table' = take ?k (items table) @ frame # drop ?k (items table)"
          "vcap table' = vcap t"
        using no eq assms(3) by auto
      have "set (take ?k (items table)) \<union> set (drop ?k (items table)) = set (items table)"
        using set_append [of "take ?k (items table)" "drop ?k (items table)"] by simp
      then have "set (items table') = set (items table) \<union> {frame}" unfolding result(3) by auto
      moreover have "length (items table') = Suc (length (items table))" using result(3) by simp
      ultimately show ?thesis using free room(1) result by (simp add: vec_inv_def)
    qed
  qed
qed

theorem insert_frame_keeps_order_witness:
  "let frame = \<lambda>offset. \<lparr>raw_tag = 255, frame_kind = FRAME_FULL, frame_offset = offset, chop_count = 0,
                          frame_locals = [], frame_stack = []\<rparr>;
       table = \<lparr>items = [frame 3, frame 9], vcap = 2\<rparr>
   in insert_frame (\<lambda>_ _. True) table (frame 5) =
        (CLASSFILE_OK, \<lparr>items = [frame 3, frame 5, frame 9], vcap = 4\<rparr>, True) \<and>
      frames_sorted \<lparr>items = [frame 3, frame 5, frame 9], vcap = 4\<rparr>"
proof -
  let ?frame = "\<lambda>offset. \<lparr>raw_tag = 255, frame_kind = FRAME_FULL, frame_offset = offset, chop_count = 0,
                           frame_locals = [], frame_stack = []\<rparr> :: stack_map_frame"
  have run: "insert_frame (\<lambda>_ _. True) \<lparr>items = [?frame 3, ?frame 9], vcap = 2\<rparr> (?frame 5) =
      (CLASSFILE_OK, \<lparr>items = [?frame 3, ?frame 5, ?frame 9], vcap = 4\<rparr>, True)"
    by code_simp
  from insert_frame_keeps_order [OF _ _ run] have "frames_sorted \<lparr>items = [?frame 3, ?frame 5, ?frame 9], vcap = 4\<rparr>"
    by (simp add: vec_inv_def)
  with run show ?thesis by (simp only: Let_def simp_thms)
qed

end
