(* ===== verification/Constructor_Trace.thy ===== *)
theory Constructor_Trace
  imports Code_Editor Descriptors
begin

text \<open>
  The abstract stack machine of \<^verbatim>\<open>visitors/constructor_init.c\<close>: which local variables
  and stack slots hold the not yet initialised \<open>this\<close>. A slot is \<open>TRACE_THIS\<close>,
  \<open>TRACE_OTHER\<close> or, where paths disagree, both bits. \<open>execute\<close> runs one instruction on such a
  frame and fails on what it does not understand.

  The C frame keeps the operand stack in a buffer of \<open>max_stack\<close> bytes with a depth; the
  model keeps the live prefix of the buffer, so that the depth is its length.
\<close>

section \<open>Frames\<close>

abbreviation TRACE_THIS :: u1 where "TRACE_THIS \<equiv> 1"
abbreviation TRACE_OTHER :: u1 where "TRACE_OTHER \<equiv> 2"

record trace_work =
  w_locals :: "u1 list"
  w_stack :: "u1 list"
  w_max_locals :: u2
  w_max_stack :: u2

abbreviation depth :: "trace_work \<Rightarrow> nat" where
  "depth work \<equiv> length (w_stack work)"

definition pop_slots :: "trace_work \<Rightarrow> u2 \<Rightarrow> trace_work option" where
  "pop_slots work n =
     (if unat n > depth work then None
      else Some (work\<lparr>w_stack := take (depth work - unat n) (w_stack work)\<rparr>))"

definition push_slot :: "trace_work \<Rightarrow> u1 \<Rightarrow> trace_work option" where
  "push_slot work v =
     (if depth work \<ge> unat (w_max_stack work) then None
      else Some (work\<lparr>w_stack := w_stack work @ [v]\<rparr>))"

fun push_others :: "nat \<Rightarrow> trace_work \<Rightarrow> trace_work option" where
  "push_others 0 work = Some work"
| "push_others (Suc n) work =
     (case push_slot work TRACE_OTHER of None \<Rightarrow> None | Some work \<Rightarrow> push_others n work)"

definition push_other :: "trace_work \<Rightarrow> u2 \<Rightarrow> trace_work option" where
  "push_other work n = push_others (unat n) work"

definition replace_slots :: "trace_work \<Rightarrow> u2 \<Rightarrow> u2 \<Rightarrow> trace_work option" where
  "replace_slots work popped pushed =
     (case pop_slots work popped of None \<Rightarrow> None | Some work \<Rightarrow> push_other work pushed)"

definition load_local :: "trace_work \<Rightarrow> u2 \<Rightarrow> u2 \<Rightarrow> bool \<Rightarrow> trace_work option" where
  "load_local work index width reference =
     (if index \<ge> w_max_locals work \<or> width > w_max_locals work - index then None
      else if reference then push_slot work (w_locals work ! unat index)
      else push_other work width)"

definition store_local :: "trace_work \<Rightarrow> u2 \<Rightarrow> u2 \<Rightarrow> bool \<Rightarrow> trace_work option" where
  "store_local work index width reference =
     (if index \<ge> w_max_locals work \<or> width > w_max_locals work - index \<or> unat width > depth work
      then None
      else
        let v = (if reference then w_stack work ! (depth work - 1) else TRACE_OTHER) in
        case pop_slots work width of
          None \<Rightarrow> None
        | Some work \<Rightarrow>
            Some (work\<lparr>w_locals := fold (\<lambda>i ls. ls[unat index + i := v]) [0..<unat width] (w_locals work)\<rparr>))"

text \<open>The \<open>memmove\<close> opens a gap of \<open>copied\<close> slots, the \<open>memcpy\<close> fills it with the top ones.\<close>

definition duplicate_slots :: "trace_work \<Rightarrow> nat \<Rightarrow> nat \<Rightarrow> trace_work option" where
  "duplicate_slots work copied below =
     (if copied + below > depth work \<or> depth work + copied > unat (w_max_stack work) then None
      else
        let source = depth work - copied;
            insertion = source - below;
            s = w_stack work
        in Some (work\<lparr>w_stack := take insertion s @ drop source s @ drop insertion s\<rparr>))"

definition swap_slots :: "trace_work \<Rightarrow> trace_work option" where
  "swap_slots work =
     (if depth work < 2 then None
      else
        let s = w_stack work; top = s ! (depth work - 1)
        in Some (work\<lparr>w_stack := s[depth work - 1 := s ! (depth work - 2), depth work - 2 := top]\<rparr>))"

section \<open>Descriptors\<close>

text \<open>The loop over the parameters; the cursor is the rest of the text.\<close>

function argument_slots :: "u1 list \<Rightarrow> u2 \<Rightarrow> (u2 \<times> u1 list) option" where
  "argument_slots bytes args =
     (case bytes of
        [] \<Rightarrow> None
      | b # after \<Rightarrow>
          if b = JVM_SIGNATURE_ENDFUNC then Some (args, after)
          else
            (case dropWhile (\<lambda>c. c = JVM_SIGNATURE_ARRAY) bytes of
               [] \<Rightarrow> None
             | c # later \<Rightarrow>
                 if c = JVM_SIGNATURE_CLASS then
                   (case dropWhile (\<lambda>c. c \<noteq> JVM_SIGNATURE_ENDCLASS) later of
                      [] \<Rightarrow> None
                    | _ # later \<Rightarrow> argument_slots later (args + 1))
                 else
                   argument_slots later
                     (args + (if c = JVM_SIGNATURE_LONG \<or> c = JVM_SIGNATURE_DOUBLE then 2 else 1))))"
  by pat_completeness auto
termination
proof (relation "measure (\<lambda>(bytes, args). length bytes)", goal_cases)
  case (2 bytes args b after c later x y)
  then show ?case
    using length_dropWhile_le [of "\<lambda>c. c = JVM_SIGNATURE_ARRAY" bytes]
      length_dropWhile_le [of "\<lambda>c. c \<noteq> JVM_SIGNATURE_ENDCLASS" later] by simp
next
  case (3 bytes args b after c later)
  then show ?case
    using length_dropWhile_le [of "\<lambda>c. c = JVM_SIGNATURE_ARRAY" bytes] by simp
qed simp

declare argument_slots.simps [simp del]

definition result_slots :: "u1 list \<Rightarrow> u2 option" where
  "result_slots bytes =
     (case dropWhile (\<lambda>c. c = JVM_SIGNATURE_ARRAY) bytes of
        [] \<Rightarrow> None
      | c # _ \<Rightarrow> Some (if c = JVM_SIGNATURE_VOID then 0
                      else if c = JVM_SIGNATURE_LONG \<or> c = JVM_SIGNATURE_DOUBLE then 2 else 1))"

definition descriptor_slots :: "constant_pool \<Rightarrow> u2 \<Rightarrow> (u2 \<times> u2) option" where
  "descriptor_slots pool index =
     (case constant_pool_utf8 pool index of
        None \<Rightarrow> None
      | Some [] \<Rightarrow> None
      | Some (b # bytes) \<Rightarrow>
          (case (if b = JVM_SIGNATURE_FUNC then argument_slots bytes 0 else Some (0, b # bytes)) of
             None \<Rightarrow> None
           | Some (args, rest) \<Rightarrow>
               (case result_slots rest of None \<Rightarrow> None | Some returned \<Rightarrow> Some (args, returned))))"

definition member_descriptor :: "constant_pool \<Rightarrow> u2 \<Rightarrow> (u2 \<times> u2) option" where
  "member_descriptor pool cp_index =
     (case (case constant_pool_at pool cp_index of
              Some (CP_Fieldref _ n) \<Rightarrow> Some n
            | Some (CP_Methodref _ n) \<Rightarrow> Some n
            | Some (CP_InterfaceMethodref _ n) \<Rightarrow> Some n
            | Some (CP_InvokeDynamic _ n) \<Rightarrow> Some n
            | Some (CP_Dynamic _ n) \<Rightarrow> Some n
            | _ \<Rightarrow> None) of
        None \<Rightarrow> None
      | Some nat_index \<Rightarrow>
          (case constant_pool_at pool nat_index of
             Some (CP_NameAndType _ d) \<Rightarrow> descriptor_slots pool d
           | _ \<Rightarrow> None))"

definition is_initializing_call :: "ClassFile \<Rightarrow> instruction \<Rightarrow> u2 option" where
  "is_initializing_call cf node =
     (if ins_opcode node \<noteq> JVM_OPC_invokespecial then None
      else
        (case ins_u node of
           Op_CpIndex index \<Rightarrow>
             (case constant_pool_at (cf_pool cf) index of
                Some (CP_Methodref class_index nat_index) \<Rightarrow>
                  if class_index \<noteq> this_class cf \<and> class_index \<noteq> super_class cf then None
                  else
                    (case constant_pool_at (cf_pool cf) nat_index of
                       Some (CP_NameAndType n d) \<Rightarrow>
                         if constant_pool_utf8_equals (cf_pool cf) n (cstr ''<init>'')
                         then map_option fst (descriptor_slots (cf_pool cf) d) else None
                     | _ \<Rightarrow> None)
              | _ \<Rightarrow> None)
         | _ \<Rightarrow> None))"

definition field_width :: "constant_pool \<Rightarrow> u2 \<Rightarrow> u2 option" where
  "field_width pool cp_index = map_option snd (member_descriptor pool cp_index)"

section \<open>One instruction\<close>

text \<open>
  The operand members that \<open>execute\<close> reads from the union. The parser gives every node
  the member that goes with its opcode, so the default is not reached for parsed code.
\<close>

definition local_index :: "instruction \<Rightarrow> u2" where
  "local_index node = (case ins_u node of Op_Local i \<Rightarrow> i | _ \<Rightarrow> 0)"

definition invoked_index :: "instruction \<Rightarrow> u2" where
  "invoked_index node =
     (case ins_u node of
        Op_InvokeInterface i _ _ \<Rightarrow> i
      | Op_InvokeDynamic i _ \<Rightarrow> i
      | Op_CpIndex i \<Rightarrow> i
      | _ \<Rightarrow> 0)"

definition array_dimensions :: "instruction \<Rightarrow> u2" where
  "array_dimensions node = (case ins_u node of Op_Multianewarray _ d \<Rightarrow> ucast d | _ \<Rightarrow> 0)"

text \<open>Index, width and reference flag that the short loads and stores encode in the opcode.\<close>

definition short_load :: "u1 \<Rightarrow> u2 \<times> u2 \<times> bool" where
  "short_load opcode =
     (if opcode \<le> JVM_OPC_iload_3 then (ucast (opcode - JVM_OPC_iload_0), 1, False)
      else if opcode \<le> JVM_OPC_lload_3 then (ucast (opcode - JVM_OPC_lload_0), 2, False)
      else if opcode \<le> JVM_OPC_fload_3 then (ucast (opcode - JVM_OPC_fload_0), 1, False)
      else if opcode \<le> JVM_OPC_dload_3 then (ucast (opcode - JVM_OPC_dload_0), 2, False)
      else (ucast (opcode - JVM_OPC_aload_0), 1, True))"

definition short_store :: "u1 \<Rightarrow> u2 \<times> u2 \<times> bool" where
  "short_store opcode =
     (if opcode \<le> JVM_OPC_istore_3 then (ucast (opcode - JVM_OPC_istore_0), 1, False)
      else if opcode \<le> JVM_OPC_lstore_3 then (ucast (opcode - JVM_OPC_lstore_0), 2, False)
      else if opcode \<le> JVM_OPC_fstore_3 then (ucast (opcode - JVM_OPC_fstore_0), 1, False)
      else if opcode \<le> JVM_OPC_dstore_3 then (ucast (opcode - JVM_OPC_dstore_0), 2, False)
      else (ucast (opcode - JVM_OPC_astore_0), 1, True))"

definition execute_field :: "ClassFile \<Rightarrow> instruction \<Rightarrow> trace_work \<Rightarrow> trace_work option" where
  "execute_field cf node work =
     (case field_width (cf_pool cf) (invoked_index node) of
        None \<Rightarrow> None
      | Some width \<Rightarrow>
          if ins_opcode node = JVM_OPC_getstatic then push_other work width
          else if ins_opcode node = JVM_OPC_putstatic then pop_slots work width
          else if ins_opcode node = JVM_OPC_getfield then replace_slots work 1 width
          else pop_slots work (width + 1))"

definition execute_invoke :: "ClassFile \<Rightarrow> instruction \<Rightarrow> trace_work \<Rightarrow> trace_work option" where
  "execute_invoke cf node work =
     (case member_descriptor (cf_pool cf) (invoked_index node) of
        None \<Rightarrow> None
      | Some (arguments, result) \<Rightarrow>
          let receiver = (if ins_opcode node = JVM_OPC_invokestatic \<or>
                             ins_opcode node = JVM_OPC_invokedynamic then 0 else 1)
          in replace_slots work (arguments + receiver) result)"

text \<open>
  The chain of conditions of \<open>execute\<close>, in its order, without the \<open>terminal\<close> flag; first the
  part from the conditional branches on.
\<close>

definition execute_control :: "ClassFile \<Rightarrow> instruction \<Rightarrow> trace_work \<Rightarrow> trace_work option" where
  "execute_control cf node work =
     (let opcode = ins_opcode node in
      if JVM_OPC_ifeq \<le> opcode \<and> opcode \<le> JVM_OPC_ifle then pop_slots work 1
      else if JVM_OPC_if_icmpeq \<le> opcode \<and> opcode \<le> JVM_OPC_if_acmpne then pop_slots work 2
      else if opcode = JVM_OPC_tableswitch \<or> opcode = JVM_OPC_lookupswitch \<or>
              opcode = JVM_OPC_ifnull \<or> opcode = JVM_OPC_ifnonnull then pop_slots work 1
      else if opcode = JVM_OPC_goto \<or> opcode = JVM_OPC_goto_w then Some work
      else if opcode = JVM_OPC_jsr \<or> opcode = JVM_OPC_jsr_w \<or> opcode = JVM_OPC_ret then None
      else if JVM_OPC_ireturn \<le> opcode \<and> opcode \<le> JVM_OPC_return then
        pop_slots work (if opcode = JVM_OPC_lreturn \<or> opcode = JVM_OPC_dreturn then 2
                        else if opcode = JVM_OPC_return then 0 else 1)
      else if JVM_OPC_getstatic \<le> opcode \<and> opcode \<le> JVM_OPC_putfield then execute_field cf node work
      else if JVM_OPC_invokevirtual \<le> opcode \<and> opcode \<le> JVM_OPC_invokedynamic then
        execute_invoke cf node work
      else if opcode = JVM_OPC_new then push_other work 1
      else if opcode = JVM_OPC_newarray \<or> opcode = JVM_OPC_anewarray then replace_slots work 1 1
      else if opcode = JVM_OPC_multianewarray then replace_slots work (array_dimensions node) 1
      else if opcode = JVM_OPC_arraylength \<or> opcode = JVM_OPC_instanceof then replace_slots work 1 1
      else if opcode = JVM_OPC_athrow then pop_slots work 1
      else if opcode = JVM_OPC_checkcast then (if depth work \<noteq> 0 then Some work else None)
      else if opcode = JVM_OPC_monitorenter \<or> opcode = JVM_OPC_monitorexit then pop_slots work 1
      else None)"

text \<open>The first part, up to the comparisons.\<close>

definition execute_work :: "ClassFile \<Rightarrow> instruction \<Rightarrow> trace_work \<Rightarrow> trace_work option" where
  "execute_work cf node work =
     (let opcode = ins_opcode node in
      if opcode = JVM_OPC_nop \<or> opcode = JVM_OPC_iinc then Some work
      else if JVM_OPC_aconst_null \<le> opcode \<and> opcode \<le> JVM_OPC_iconst_5 \<or>
              JVM_OPC_fconst_0 \<le> opcode \<and> opcode \<le> JVM_OPC_fconst_2 \<or>
              opcode = JVM_OPC_bipush \<or> opcode = JVM_OPC_sipush \<or>
              opcode = JVM_OPC_ldc \<or> opcode = JVM_OPC_ldc_w then push_other work 1
      else if opcode = JVM_OPC_lconst_0 \<or> opcode = JVM_OPC_lconst_1 \<or>
              opcode = JVM_OPC_dconst_0 \<or> opcode = JVM_OPC_dconst_1 \<or>
              opcode = JVM_OPC_ldc2_w then push_other work 2
      else if JVM_OPC_iload \<le> opcode \<and> opcode \<le> JVM_OPC_aload then
        load_local work (local_index node)
          (if opcode = JVM_OPC_lload \<or> opcode = JVM_OPC_dload then 2 else 1) (opcode = JVM_OPC_aload)
      else if JVM_OPC_iload_0 \<le> opcode \<and> opcode \<le> JVM_OPC_aload_3 then
        load_local work (fst (short_load opcode)) (fst (snd (short_load opcode))) (snd (snd (short_load opcode)))
      else if JVM_OPC_istore \<le> opcode \<and> opcode \<le> JVM_OPC_astore then
        store_local work (local_index node)
          (if opcode = JVM_OPC_lstore \<or> opcode = JVM_OPC_dstore then 2 else 1) (opcode = JVM_OPC_astore)
      else if JVM_OPC_istore_0 \<le> opcode \<and> opcode \<le> JVM_OPC_astore_3 then
        store_local work (fst (short_store opcode)) (fst (snd (short_store opcode))) (snd (snd (short_store opcode)))
      else if opcode = JVM_OPC_laload \<or> opcode = JVM_OPC_daload then replace_slots work 2 2
      else if JVM_OPC_iaload \<le> opcode \<and> opcode \<le> JVM_OPC_saload then replace_slots work 2 1
      else if opcode = JVM_OPC_lastore \<or> opcode = JVM_OPC_dastore then pop_slots work 4
      else if JVM_OPC_iastore \<le> opcode \<and> opcode \<le> JVM_OPC_sastore then pop_slots work 3
      else if opcode = JVM_OPC_pop then pop_slots work 1
      else if opcode = JVM_OPC_pop2 then pop_slots work 2
      else if opcode = JVM_OPC_dup then duplicate_slots work 1 0
      else if opcode = JVM_OPC_dup_x1 then duplicate_slots work 1 1
      else if opcode = JVM_OPC_dup_x2 then duplicate_slots work 1 2
      else if opcode = JVM_OPC_dup2 then duplicate_slots work 2 0
      else if opcode = JVM_OPC_dup2_x1 then duplicate_slots work 2 1
      else if opcode = JVM_OPC_dup2_x2 then duplicate_slots work 2 2
      else if opcode = JVM_OPC_swap then swap_slots work
      else if JVM_OPC_iadd \<le> opcode \<and> opcode \<le> JVM_OPC_drem then
        (let kind = (opcode - JVM_OPC_iadd) mod 4
         in replace_slots work (if kind = 1 \<or> kind = 3 then 4 else 2) (if kind = 1 \<or> kind = 3 then 2 else 1))
      else if JVM_OPC_ineg \<le> opcode \<and> opcode \<le> JVM_OPC_dneg then Some work
      else if opcode = JVM_OPC_ishl \<or> opcode = JVM_OPC_ishr \<or> opcode = JVM_OPC_iushr then
        replace_slots work 2 1
      else if opcode = JVM_OPC_lshl \<or> opcode = JVM_OPC_lshr \<or> opcode = JVM_OPC_lushr then
        replace_slots work 3 2
      else if JVM_OPC_iand \<le> opcode \<and> opcode \<le> JVM_OPC_lxor then
        replace_slots work (if opcode AND 1 \<noteq> 0 then 4 else 2) (if opcode AND 1 \<noteq> 0 then 2 else 1)
      else if opcode = JVM_OPC_i2l \<or> opcode = JVM_OPC_i2d \<or> opcode = JVM_OPC_f2l \<or> opcode = JVM_OPC_f2d then
        replace_slots work 1 2
      else if opcode = JVM_OPC_l2i \<or> opcode = JVM_OPC_l2f \<or> opcode = JVM_OPC_d2i \<or> opcode = JVM_OPC_d2f then
        replace_slots work 2 1
      else if opcode = JVM_OPC_l2d \<or> opcode = JVM_OPC_d2l then replace_slots work 2 2
      else if JVM_OPC_i2f \<le> opcode \<and> opcode \<le> JVM_OPC_i2s \<or> opcode = JVM_OPC_f2i then Some work
      else if opcode = JVM_OPC_lcmp \<or> opcode = JVM_OPC_dcmpl \<or> opcode = JVM_OPC_dcmpg then
        replace_slots work 4 1
      else if opcode = JVM_OPC_fcmpl \<or> opcode = JVM_OPC_fcmpg then replace_slots work 2 1
      else execute_control cf node work)"

text \<open>The two branches that set \<open>*terminal\<close>; the caller reads it only when \<open>execute\<close> succeeds.\<close>

definition terminal_opcode :: "u1 \<Rightarrow> bool" where
  "terminal_opcode opcode \<longleftrightarrow>
     JVM_OPC_ireturn \<le> opcode \<and> opcode \<le> JVM_OPC_return \<or> opcode = JVM_OPC_athrow"

definition execute :: "ClassFile \<Rightarrow> instruction \<Rightarrow> trace_work \<Rightarrow> (trace_work \<times> bool) option" where
  "execute cf node work =
     map_option (\<lambda>work. (work, terminal_opcode (ins_opcode node))) (execute_work cf node work)"

section \<open>What the descriptor walk counts\<close>

lemma argument_slots_params:
  assumes "list_all wf_jtype params"
  shows "argument_slots (concat (map type_text params) @ JVM_SIGNATURE_ENDFUNC # rest) args =
    Some (args + of_nat (\<Sum>t\<leftarrow>params. type_slots (element_type t)), rest)"
  using assms
proof (induction params arbitrary: args)
  case Nil
  show ?case by (simp add: argument_slots.simps)
next
  case (Cons t ts)
  let ?more = "concat (map type_text ts) @ JVM_SIGNATURE_ENDFUNC # rest"
  let ?e = "element_type t"
  have skip: "dropWhile (\<lambda>c. c = JVM_SIGNATURE_ARRAY) (type_text t @ ?more) = type_text ?e @ ?more"
    by (rule skip_array_markers)
  have hd: "type_text t @ ?more = hd (type_text t) # tl (type_text t) @ ?more"
    "hd (type_text t) \<noteq> JVM_SIGNATURE_ENDFUNC"
    by (simp_all add: hd_type_text)
  from Cons have IH: "\<And>args. argument_slots ?more args =
      Some (args + of_nat (\<Sum>t\<leftarrow>ts. type_slots (element_type t)), rest)" and wf: "wf_jtype ?e"
    by simp_all
  have "argument_slots (type_text t @ ?more) args =
      argument_slots ?more (args + of_nat (type_slots ?e))"
  proof (cases ?e)
    case (JClass n)
    with wf show ?thesis
      unfolding argument_slots.simps [of "type_text t @ ?more"] skip
      by (subst hd(1)) (simp add: hd(2) skip_class_name)
  next
    case (JArray s)
    with element_not_array [of t] show ?thesis by simp
  qed (unfold argument_slots.simps [of "type_text t @ ?more"] skip,
      (subst hd(1), simp add: hd(2))+)
  then show ?case by (simp add: IH add.assoc)
qed

lemma result_slots_text:
  "result_slots (result_text r) = Some (case r of None \<Rightarrow> 0 | Some t \<Rightarrow> of_nat (type_slots (element_type t)))"
proof (cases r)
  case (Some t)
  with skip_array_markers [of t "[]"] element_not_array [of t] show ?thesis
    by (cases "element_type t") (simp_all add: result_slots_def)
qed (simp add: result_slots_def)

section \<open>Joining frames\<close>

text \<open>
  Frames of the same shape join slot by slot. \<open>below\<close> is the order that goes with it; a pure
  frame is one path's frame, in which every slot has exactly one of the two marks.
\<close>

definition same_shape :: "trace_work \<Rightarrow> trace_work \<Rightarrow> bool" where
  "same_shape a b \<longleftrightarrow>
     length (w_locals a) = length (w_locals b) \<and> depth a = depth b \<and>
     w_max_locals a = w_max_locals b \<and> w_max_stack a = w_max_stack b"

definition join_slots :: "u1 list \<Rightarrow> u1 list \<Rightarrow> u1 list" where
  "join_slots xs ys = map2 (OR) xs ys"

definition join_work :: "trace_work \<Rightarrow> trace_work \<Rightarrow> trace_work" where
  "join_work a b = a\<lparr>w_locals := join_slots (w_locals a) (w_locals b),
                    w_stack := join_slots (w_stack a) (w_stack b)\<rparr>"

definition below :: "trace_work \<Rightarrow> trace_work \<Rightarrow> bool" where
  "below a b \<longleftrightarrow> same_shape a b \<and> join_work a b = b"

definition wf_work :: "trace_work \<Rightarrow> bool" where
  "wf_work a \<longleftrightarrow> length (w_locals a) = unat (w_max_locals a) \<and> depth a \<le> unat (w_max_stack a)"

definition pure_work :: "trace_work \<Rightarrow> bool" where
  "pure_work a \<longleftrightarrow> (\<forall>v \<in> set (w_locals a) \<union> set (w_stack a). v = TRACE_THIS \<or> v = TRACE_OTHER)"

fun join_option :: "trace_work option \<Rightarrow> trace_work option \<Rightarrow> trace_work option" where
  "join_option (Some a) (Some b) = Some (join_work a b)"
| "join_option _ _ = None"

lemma length_join_slots [simp]: "length (join_slots xs ys) = min (length xs) (length ys)"
  by (simp add: join_slots_def)

lemma join_slots_eq_Nil [simp]: "join_slots xs ys = [] \<longleftrightarrow> xs = [] \<or> ys = []"
  by (cases xs; cases ys) (simp_all add: join_slots_def)

lemma nth_join_slots [simp]:
  "i < length xs \<Longrightarrow> i < length ys \<Longrightarrow> join_slots xs ys ! i = xs ! i OR ys ! i"
  by (simp add: join_slots_def)

lemma join_slots_take: "take n (join_slots xs ys) = join_slots (take n xs) (take n ys)"
  by (simp add: join_slots_def take_map take_zip)

lemma join_slots_drop: "drop n (join_slots xs ys) = join_slots (drop n xs) (drop n ys)"
  by (simp add: join_slots_def drop_map drop_zip)

lemma join_slots_append:
  "length xs = length xs' \<Longrightarrow> join_slots (xs @ ys) (xs' @ ys') = join_slots xs xs' @ join_slots ys ys'"
  by (simp add: join_slots_def)

lemma join_slots_update:
  "join_slots (xs[i := x]) (ys[i := y]) = (join_slots xs ys)[i := x OR y]"
  by (simp add: join_slots_def zip_update map_update)

lemma join_slots_single [simp]: "join_slots [x] [y] = [x OR y]"
  by (simp add: join_slots_def)

lemma join_slots_same [simp]: "join_slots xs xs = xs"
  by (simp add: list_eq_iff_nth_eq)

lemma join_slots_commute: "join_slots xs ys = join_slots ys xs"
  by (rule nth_equalityI) (simp_all add: or.commute)

lemma join_slots_assoc: "join_slots (join_slots xs ys) zs = join_slots xs (join_slots ys zs)"
  by (rule nth_equalityI) (simp_all add: or.assoc)

lemmas join_slots_simps = join_slots_take join_slots_drop join_slots_append join_slots_update

lemma join_work_simps [simp]:
  "w_locals (join_work a b) = join_slots (w_locals a) (w_locals b)"
  "w_stack (join_work a b) = join_slots (w_stack a) (w_stack b)"
  "w_max_locals (join_work a b) = w_max_locals a"
  "w_max_stack (join_work a b) = w_max_stack a"
  by (simp_all add: join_work_def)

lemma same_shape_refl [simp]: "same_shape a a"
  by (simp add: same_shape_def)

lemma same_shape_sym: "same_shape a b \<Longrightarrow> same_shape b a"
  by (simp add: same_shape_def)

lemma same_shape_trans: "same_shape a b \<Longrightarrow> same_shape b c \<Longrightarrow> same_shape a c"
  by (simp add: same_shape_def)

lemma same_shape_join [simp]: "same_shape a b \<Longrightarrow> same_shape a (join_work a b)"
  by (simp add: same_shape_def)

lemma same_shape_wf: "same_shape a b \<Longrightarrow> wf_work a \<longleftrightarrow> wf_work b"
  by (auto simp: same_shape_def wf_work_def)

lemma join_work_assoc: "join_work (join_work a b) c = join_work a (join_work b c)"
  by (simp add: join_work_def join_slots_assoc)

lemma join_work_commute: "same_shape a b \<Longrightarrow> join_work a b = join_work b a"
  by (simp add: join_work_def same_shape_def join_slots_commute [of "w_locals a"]
      join_slots_commute [of "w_stack a"])

lemma join_work_same [simp]: "join_work a a = a"
  by (simp add: join_work_def)

lemma below_refl [simp]: "below a a"
  by (simp add: below_def)

lemma below_trans: "below a b \<Longrightarrow> below b c \<Longrightarrow> below a c"
  by (metis below_def join_work_assoc same_shape_trans)

lemma below_join: "same_shape a b \<Longrightarrow> below a (join_work a b)"
  by (simp add: below_def join_work_assoc [symmetric])

lemma below_join2: "same_shape a b \<Longrightarrow> below b (join_work a b)"
  using below_join [of b a] by (simp add: join_work_commute same_shape_sym)

section \<open>Instructions act on slots\<close>

text \<open>
  What every instruction promises: it keeps frames well formed and pure, whether it fails depends on
  the shape only, and it commutes with the join.
\<close>

definition trace_op :: "(trace_work \<Rightarrow> trace_work option) \<Rightarrow> bool" where
  "trace_op f \<longleftrightarrow>
     (\<forall>a a'. wf_work a \<longrightarrow> f a = Some a' \<longrightarrow>
        wf_work a' \<and> w_max_locals a' = w_max_locals a \<and> w_max_stack a' = w_max_stack a \<and>
        (pure_work a \<longrightarrow> pure_work a')) \<and>
     (\<forall>a b. wf_work a \<longrightarrow> same_shape a b \<longrightarrow>
        (f a = None \<longleftrightarrow> f b = None) \<and> f (join_work a b) = join_option (f a) (f b) \<and>
        (\<forall>a' b'. f a = Some a' \<longrightarrow> f b = Some b' \<longrightarrow> depth a' = depth b'))"

lemma trace_op_frame:
  "trace_op f \<Longrightarrow> f a = Some a' \<Longrightarrow> wf_work a \<Longrightarrow>
   wf_work a' \<and> w_max_locals a' = w_max_locals a \<and> w_max_stack a' = w_max_stack a"
  unfolding trace_op_def by blast

lemma trace_op_pure: "trace_op f \<Longrightarrow> f a = Some a' \<Longrightarrow> wf_work a \<Longrightarrow> pure_work a \<Longrightarrow> pure_work a'"
  unfolding trace_op_def by blast

lemma trace_op_none: "trace_op f \<Longrightarrow> wf_work a \<Longrightarrow> same_shape a b \<Longrightarrow> f a = None \<longleftrightarrow> f b = None"
  unfolding trace_op_def by blast

lemma trace_op_join:
  "trace_op f \<Longrightarrow> wf_work a \<Longrightarrow> same_shape a b \<Longrightarrow> f (join_work a b) = join_option (f a) (f b)"
  unfolding trace_op_def by blast

lemma trace_op_depth:
  "trace_op f \<Longrightarrow> wf_work a \<Longrightarrow> same_shape a b \<Longrightarrow> f a = Some a' \<Longrightarrow> f b = Some b' \<Longrightarrow>
   depth a' = depth b'"
  unfolding trace_op_def by blast

lemma trace_op_Some [intro]: "trace_op Some"
  by (simp add: trace_op_def same_shape_def)

lemma trace_op_None [intro]: "trace_op (\<lambda>a. None)"
  by (simp add: trace_op_def)

lemma trace_op_if [intro]:
  "(c \<Longrightarrow> trace_op f) \<Longrightarrow> (\<not> c \<Longrightarrow> trace_op g) \<Longrightarrow> trace_op (\<lambda>a. if c then f a else g a)"
  by (cases c) simp_all

lemma trace_op_shape:
  assumes "trace_op f" "wf_work a" "same_shape a b" "f a = Some a'" "f b = Some b'"
  shows "same_shape a' b'"
proof -
  from assms(2,3) have b: "wf_work b" by (simp add: same_shape_wf)
  note trace_op_frame [OF assms(1,4,2)] trace_op_frame [OF assms(1,5) b] trace_op_depth [OF assms]
  with assms(3) show ?thesis by (auto simp: same_shape_def wf_work_def)
qed

lemma trace_op_bind [intro]:
  assumes f: "trace_op f" and g: "trace_op g"
  shows "trace_op (\<lambda>a. case f a of None \<Rightarrow> None | Some a' \<Rightarrow> g a')"
  unfolding trace_op_def
proof (intro conjI allI impI)
  fix a a' assume a: "wf_work a" "(case f a of None \<Rightarrow> None | Some a' \<Rightarrow> g a') = Some a'"
  then obtain m where m: "f a = Some m" "g m = Some a'" by (auto split: option.splits)
  note fm = trace_op_frame [OF f m(1) a(1)]
  note gm = trace_op_frame [OF g m(2) fm [THEN conjunct1]]
  from fm gm show "wf_work a'" "w_max_locals a' = w_max_locals a" "w_max_stack a' = w_max_stack a"
    by simp_all
  show "pure_work a'" if "pure_work a"
    using trace_op_pure [OF g m(2) fm [THEN conjunct1] trace_op_pure [OF f m(1) a(1) that]] .
next
  fix a b assume a: "wf_work a" "same_shape a b"
  note none = trace_op_none [OF f a] and join = trace_op_join [OF f a]
  note shape = trace_op_shape [OF f a] and wf = trace_op_frame [OF f _ a(1), THEN conjunct1]
  show "((case f a of None \<Rightarrow> None | Some a' \<Rightarrow> g a') = None) =
      ((case f b of None \<Rightarrow> None | Some a' \<Rightarrow> g a') = None)"
  proof (cases "f a")
    case None
    with none show ?thesis by simp
  next
    case (Some m)
    with none obtain n where n: "f b = Some n" by (cases "f b") simp_all
    from trace_op_none [OF g wf [OF Some] shape [OF Some n]] Some n show ?thesis by simp
  qed
  show "(case f (join_work a b) of None \<Rightarrow> None | Some a' \<Rightarrow> g a') =
      join_option (case f a of None \<Rightarrow> None | Some a' \<Rightarrow> g a') (case f b of None \<Rightarrow> None | Some a' \<Rightarrow> g a')"
    using none join trace_op_join [OF g wf shape] by (cases "f a"; cases "f b") simp_all
  fix a' b' assume "(case f a of None \<Rightarrow> None | Some a' \<Rightarrow> g a') = Some a'"
    "(case f b of None \<Rightarrow> None | Some a' \<Rightarrow> g a') = Some b'"
  then show "depth a' = depth b'"
    using trace_op_depth [OF g wf shape] by (auto split: option.splits)
qed

lemma trace_op_pop [intro]: "trace_op (\<lambda>a. pop_slots a n)"
  by (auto simp: trace_op_def pop_slots_def wf_work_def same_shape_def pure_work_def join_work_def
      join_slots_simps dest: in_set_takeD)

lemma trace_op_push [intro]: "trace_op (\<lambda>a. push_slot a TRACE_OTHER)"
  by (auto simp: trace_op_def push_slot_def wf_work_def same_shape_def pure_work_def join_work_def
      join_slots_simps)

lemma trace_op_pushes [intro]: "trace_op (push_others n)"
proof (induction n)
  case (Suc n)
  then have "trace_op (\<lambda>a. case push_slot a TRACE_OTHER of None \<Rightarrow> None | Some a' \<Rightarrow> push_others n a')"
    by (intro trace_op_bind trace_op_push)
  then show ?case by (simp cong: option.case_cong)
qed (auto cong: option.case_cong)

lemma trace_op_push_other [intro]: "trace_op (\<lambda>a. push_other a n)"
  using trace_op_pushes [of "unat n"] by (simp add: push_other_def)

lemma trace_op_replace [intro]: "trace_op (\<lambda>a. replace_slots a n m)"
  unfolding replace_slots_def by (intro trace_op_bind trace_op_pop trace_op_push_other)

lemma trace_op_load [intro]: "trace_op (\<lambda>a. load_local a index width reference)"
proof -
  have other: "trace_op (\<lambda>a. push_other a width)" by blast
  show ?thesis
    unfolding trace_op_def
  proof (intro conjI allI impI)
    fix a a' assume a: "wf_work a" "load_local a index width reference = Some a'"
    then have i: "unat index < length (w_locals a)"
      by (auto simp: load_local_def wf_work_def word_le_nat_alt split: if_splits)
    show "wf_work a'" "w_max_locals a' = w_max_locals a" "w_max_stack a' = w_max_stack a"
      using a trace_op_frame [OF other _ a(1), of a']
      by (auto simp: load_local_def push_slot_def wf_work_def split: if_splits)
    show "pure_work a'" if "pure_work a"
    proof (cases reference)
      case True
      with a that i show ?thesis
        by (auto simp: load_local_def push_slot_def pure_work_def split: if_splits)
    next
      case False
      with a that trace_op_pure [OF other _ a(1) that, of a'] show ?thesis
        by (simp add: load_local_def split: if_splits)
    qed
  next
    fix a b assume a: "wf_work a" "same_shape a b"
    show "(load_local a index width reference = None) = (load_local b index width reference = None)"
      using a trace_op_none [OF other a]
      by (simp add: load_local_def push_slot_def same_shape_def)
    show "load_local (join_work a b) index width reference =
        join_option (load_local a index width reference) (load_local b index width reference)"
    proof (cases "index < w_max_locals a \<and> \<not> width > w_max_locals a - index")
      case True
      with a have "unat index < length (w_locals a)" "unat index < length (w_locals b)"
        by (auto simp: wf_work_def same_shape_def word_less_nat_alt)
      with a True trace_op_join [OF other a] show ?thesis
        by (simp add: load_local_def push_slot_def same_shape_def join_work_def join_slots_simps)
    next
      case False
      then show ?thesis by (auto simp: load_local_def not_less)
    qed
    fix a' b' assume "load_local a index width reference = Some a'"
      "load_local b index width reference = Some b'"
    with a trace_op_depth [OF other a] show "depth a' = depth b'"
      by (auto simp: load_local_def push_slot_def same_shape_def split: if_splits)
  qed
qed

lemma length_fold_update [simp]: "length (fold (\<lambda>i ls. ls[k + i := v]) is ls) = length ls"
  by (induction "is" arbitrary: ls) simp_all

lemma fold_update_join:
  "join_slots (fold (\<lambda>i ls. ls[k + i := v]) is xs) (fold (\<lambda>i ls. ls[k + i := u]) is ys) =
   fold (\<lambda>i ls. ls[k + i := v OR u]) is (join_slots xs ys)"
  by (induction "is" arbitrary: xs ys) (simp_all add: join_slots_update)

lemma set_fold_update: "set (fold (\<lambda>i ls. ls[k + i := v]) is ls) \<subseteq> insert v (set ls)"
  by (induction "is" arbitrary: ls) (auto dest: set_update_subset_insert [THEN subsetD] subsetD)

lemma trace_op_store [intro]:
  assumes "width \<noteq> 0"
  shows "trace_op (\<lambda>a. store_local a index width reference)"
proof -
  have pos: "0 < unat width" using assms by (simp add: unat_gt_0)
  show ?thesis
  unfolding trace_op_def
  proof (intro conjI allI impI)
    fix a a' assume a: "wf_work a" "store_local a index width reference = Some a'"
    then show "wf_work a'" "w_max_locals a' = w_max_locals a" "w_max_stack a' = w_max_stack a"
      by (auto simp: store_local_def pop_slots_def wf_work_def Let_def split: if_splits)
    show "pure_work a'" if "pure_work a"
    proof -
      let ?v = "if reference then w_stack a ! (depth a - 1) else TRACE_OTHER"
      from a pos have "reference \<Longrightarrow> w_stack a ! (depth a - 1) \<in> set (w_stack a)"
        by (intro nth_mem) (auto simp: store_local_def split: if_splits)
      with that have v: "?v = TRACE_THIS \<or> ?v = TRACE_OTHER" by (auto simp: pure_work_def)
      have ls: "w_locals a' = fold (\<lambda>i ls. ls[unat index + i := ?v]) [0..<unat width] (w_locals a)"
        "w_stack a' = take (depth a - unat width) (w_stack a)"
        using a(2) by (auto simp: store_local_def pop_slots_def Let_def split: if_splits)
      have "set (w_locals a') \<subseteq> insert ?v (set (w_locals a))" "set (w_stack a') \<subseteq> set (w_stack a)"
        unfolding ls by (rule set_fold_update set_take_subset)+
      with that v show ?thesis unfolding pure_work_def by blast
    qed
  next
    fix a b assume a: "wf_work a" "same_shape a b"
    then show "(store_local a index width reference = None) = (store_local b index width reference = None)"
      by (simp add: store_local_def pop_slots_def same_shape_def)
    have top: "join_slots (w_stack a) (w_stack b) ! (depth b - Suc 0) =
        w_stack a ! (depth b - Suc 0) OR w_stack b ! (depth b - Suc 0)" if "\<not> depth b < unat width"
      using that a pos by (intro nth_join_slots) (auto simp: same_shape_def)
    from a pos show "store_local (join_work a b) index width reference =
        join_option (store_local a index width reference) (store_local b index width reference)"
      by (simp add: store_local_def pop_slots_def same_shape_def join_work_def join_slots_simps
          fold_update_join top Let_def)
    fix a' b' assume "store_local a index width reference = Some a'"
      "store_local b index width reference = Some b'"
    with a show "depth a' = depth b'"
      by (auto simp: store_local_def pop_slots_def same_shape_def Let_def split: if_splits)
  qed
qed

lemma trace_op_duplicate [intro]: "trace_op (\<lambda>a. duplicate_slots a n m)"
  by (auto simp: trace_op_def duplicate_slots_def wf_work_def same_shape_def pure_work_def join_work_def
      join_slots_simps Let_def dest: in_set_takeD in_set_dropD)

lemma trace_op_swap [intro]: "trace_op swap_slots"
proof -
  have "set (xs[i := xs ! j, j := xs ! i]) = set xs" if "i < length xs" "j < length xs" for xs :: "u1 list" and i j
    using that by simp
  then show ?thesis
    by (auto simp: trace_op_def swap_slots_def wf_work_def same_shape_def pure_work_def join_work_def
        join_slots_simps Let_def)
qed

lemma trace_op_checkcast [intro]: "trace_op (\<lambda>a. if depth a \<noteq> 0 then Some a else None)"
  by (auto simp: trace_op_def same_shape_def)

lemma trace_op_field: "trace_op (execute_field cf node)"
proof (cases "field_width (cf_pool cf) (invoked_index node)")
  case None
  then show ?thesis by (simp add: execute_field_def [abs_def] trace_op_None)
next
  case (Some width)
  then show ?thesis
    unfolding execute_field_def [abs_def]
    by (simp only: option.case) (intro trace_op_if trace_op_push_other trace_op_pop trace_op_replace)
qed

lemma trace_op_invoke: "trace_op (execute_invoke cf node)"
proof (cases "member_descriptor (cf_pool cf) (invoked_index node)")
  case None
  then show ?thesis by (simp add: execute_invoke_def [abs_def] trace_op_None)
next
  case (Some d)
  then show ?thesis
    by (cases d) (simp add: execute_invoke_def [abs_def] Let_def trace_op_replace)
qed

lemma short_store_width: "fst (snd (short_store opcode)) \<noteq> 0"
  by (simp add: short_store_def)

lemma trace_op_control: "trace_op (execute_control cf node)"
  unfolding execute_control_def [abs_def] Let_def
  by (intro trace_op_if trace_op_Some trace_op_None trace_op_push_other trace_op_pop trace_op_replace
      trace_op_checkcast trace_op_field trace_op_invoke)

lemma trace_op_execute_work: "trace_op (execute_work cf node)"
  unfolding execute_work_def [abs_def] Let_def
  by (intro trace_op_if trace_op_Some trace_op_None trace_op_push_other trace_op_pop trace_op_replace
      trace_op_load trace_op_store trace_op_duplicate trace_op_swap trace_op_control short_store_width) simp

lemma execute_terminal:
  "execute cf node a = Some (a', term) \<Longrightarrow>
   term = terminal_opcode (ins_opcode node) \<and> execute_work cf node a = Some a'"
  by (auto simp: execute_def)

lemma execute_Some:
  "execute_work cf node a = Some a' \<Longrightarrow> execute cf node a = Some (a', terminal_opcode (ins_opcode node))"
  by (simp add: execute_def)

section \<open>Properties\<close>

text \<open>
  on the descriptor of a method whose types contain no array of long or double,
  \<open>descriptor_slots\<close> returns the number of slots of the parameters and of the result, as the class
  file format defines them.\<close>

theorem descriptor_slots_method:
  assumes "constant_pool_utf8 pool index = Some (method_text params result)"
    and "list_all (\<lambda>t. wf_jtype t \<and> \<not> wide_array t) params"
    and "\<forall>t. result = Some t \<longrightarrow> \<not> wide_array t"
  shows "descriptor_slots pool index =
    Some (of_nat (\<Sum>t\<leftarrow>params. type_slots t),
          case result of None \<Rightarrow> 0 | Some t \<Rightarrow> of_nat (type_slots t))"
proof -
  have sum: "(\<Sum>t\<leftarrow>params. type_slots (element_type t)) = (\<Sum>t\<leftarrow>params. type_slots t)"
    using assms(2) by (intro arg_cong [where f = sum_list]) (simp add: list_all_iff type_slots_element)
  have "list_all wf_jtype params" using assms(2) by (simp add: list_all_iff)
  from argument_slots_params [OF this, of "result_text result" 0] assms(1,3) show ?thesis
    by (simp add: descriptor_slots_def method_text_def result_slots_text sum type_slots_element
        split: option.split)
qed

definition sample_pool :: "cstring \<Rightarrow> constant_pool" where
  "sample_pool d = \<lparr>pool_entries = [CP_None, CP_Utf8 d], pool_count = 2\<rparr>"

lemma sample_pool_text [simp]: "constant_pool_utf8 (sample_pool d) 1 = Some d"
  by (simp add: sample_pool_def constant_pool_utf8_def constant_pool_at_def word_le_nat_alt)

theorem descriptor_slots_method_witness:
  "descriptor_slots (sample_pool (method_text [JLong, JClass (cstr ''A''), JArray JInt] (Some JDouble))) 1
     = Some (4, 2)"
  using descriptor_slots_method [of "sample_pool (method_text [JLong, JClass (cstr ''A''), JArray JInt] (Some JDouble))"
      1 "[JLong, JClass (cstr ''A''), JArray JInt]" "Some JDouble"]
  by (simp add: wide_array_def)

text \<open>
  An array of long is a reference and takes one slot; the walk skips the brackets and then
  counts the element type.
\<close>

lemma descriptor_slots_long_array:
  assumes "constant_pool_utf8 pool index = Some (method_text [JArray JLong] None)"
  shows "descriptor_slots pool index = Some (2, 0) \<and> type_slots (JArray JLong) = 1"
  using argument_slots_params [of "[JArray JLong]" "result_text None" 0] assms
  by (simp add: descriptor_slots_def method_text_def result_slots_def)

end
