(* ===== verification/Work_Ring.thy ===== *)
theory Work_Ring
  imports J2H_Prelude
begin

text \<open>
  The work list of \<^verbatim>\<open>visitors/constructor_init.c\<close>: an array of \<open>count\<close> instruction
  indices used as a ring, with \<open>head\<close>, \<open>tail\<close> and \<open>pending\<close>. The code has no overflow test; it relies on
  queueing an index only while it is not queued, so that the ring never holds
  more than \<open>count\<close> of them. The locale states the queue contract and proves that argument once.

  The \<open>u4\<close> counters are naturals here: they stay at or below the length of an array of \<open>u4\<close> size.
\<close>

section \<open>The contract\<close>

locale index_queue =
  fixes push :: "nat \<Rightarrow> 'q \<Rightarrow> 'q"
    and pop :: "'q \<Rightarrow> nat \<times> 'q"
    and contents :: "'q \<Rightarrow> nat list"
    and capacity :: "'q \<Rightarrow> nat"
    and inv :: "'q \<Rightarrow> bool"
  assumes push_contents: "inv q \<Longrightarrow> length (contents q) < capacity q \<Longrightarrow> contents (push x q) = contents q @ [x]"
    and push_inv: "inv q \<Longrightarrow> length (contents q) < capacity q \<Longrightarrow> inv (push x q)"
    and push_capacity: "capacity (push x q) = capacity q"
    and pop_contents: "inv q \<Longrightarrow> contents q = x # xs \<Longrightarrow> fst (pop q) = x \<and> contents (snd (pop q)) = xs"
    and pop_inv: "inv q \<Longrightarrow> contents q \<noteq> [] \<Longrightarrow> inv (snd (pop q))"
    and pop_capacity: "capacity (snd (pop q)) = capacity q"
begin

text \<open>A queue of distinct indices below its capacity.\<close>

definition holds :: "'q \<Rightarrow> nat \<Rightarrow> nat set \<Rightarrow> bool" where
  "holds q n S \<longleftrightarrow> inv q \<and> capacity q = n \<and> distinct (contents q) \<and> set (contents q) = S \<and> S \<subseteq> {..<n}"

lemma holds_push:
  assumes "holds q n S" "x < n" "x \<notin> S"
  shows "holds (push x q) n (insert x S) \<and> length (contents (push x q)) = Suc (length (contents q))"
proof -
  from assms have "insert x (set (contents q)) \<subseteq> {..<n}" by (auto simp: holds_def)
  from card_mono [OF _ this] have "card (insert x (set (contents q))) \<le> n" by simp
  with assms have "length (contents q) < capacity q"
    by (auto simp: holds_def distinct_card)
  with assms show ?thesis
    by (auto simp: holds_def push_contents push_inv push_capacity)
qed

lemma holds_pop:
  assumes "holds q n S" "contents q \<noteq> []"
  shows "fst (pop q) \<in> S \<and> holds (snd (pop q)) n (S - {fst (pop q)}) \<and>
    Suc (length (contents (snd (pop q)))) = length (contents q)"
proof -
  from assms(2) obtain x xs where c: "contents q = x # xs" by (cases "contents q") simp_all
  from assms(1) c pop_contents [of q x xs] pop_inv [of q] pop_capacity [of q] show ?thesis
    by (auto simp: holds_def)
qed

end

section \<open>The ring\<close>

record work_ring =
  ring_cells :: "nat list"
  ring_head :: nat
  ring_tail :: nat
  ring_pending :: nat

definition ring_push :: "nat \<Rightarrow> work_ring \<Rightarrow> work_ring" where
  "ring_push x q =
     q\<lparr>ring_cells := (ring_cells q)[ring_tail q := x],
       ring_tail := (ring_tail q + 1) mod length (ring_cells q),
       ring_pending := ring_pending q + 1\<rparr>"

definition ring_pop :: "work_ring \<Rightarrow> nat \<times> work_ring" where
  "ring_pop q =
     (ring_cells q ! ring_head q,
      q\<lparr>ring_head := (ring_head q + 1) mod length (ring_cells q), ring_pending := ring_pending q - 1\<rparr>)"

definition ring_contents :: "work_ring \<Rightarrow> nat list" where
  "ring_contents q =
     map (\<lambda>k. ring_cells q ! ((ring_head q + k) mod length (ring_cells q))) [0..<ring_pending q]"

definition ring_inv :: "work_ring \<Rightarrow> bool" where
  "ring_inv q \<longleftrightarrow>
     ring_head q < length (ring_cells q) \<and> ring_pending q \<le> length (ring_cells q) \<and>
     ring_tail q = (ring_head q + ring_pending q) mod length (ring_cells q)"

lemma length_ring_contents [simp]: "length (ring_contents q) = ring_pending q"
  by (simp add: ring_contents_def)

lemma ring_cells_differ:
  assumes "i < p" "p < n"
  shows "(h + i) mod n \<noteq> (h + p) mod (n::nat)"
proof
  assume "(h + i) mod n = (h + p) mod n"
  then have "n dvd (h + p) - (h + i)"
    using assms by (metis add_le_cancel_left less_imp_le mod_eq_dvd_iff_nat)
  with assms show False
    by (auto dest: dvd_imp_le)
qed

lemma ring_push_contents:
  assumes "ring_inv q" "ring_pending q < length (ring_cells q)"
  shows "ring_contents (ring_push x q) = ring_contents q @ [x]"
proof (rule nth_equalityI)
  fix i assume "i < length (ring_contents (ring_push x q))"
  then have i: "i < Suc (ring_pending q)" by (simp add: ring_push_def)
  let ?n = "length (ring_cells q)"
  have "ring_tail q < ?n" using assms by (auto simp: ring_inv_def intro: mod_less_divisor)
  with i assms ring_cells_differ [of i "ring_pending q" ?n "ring_head q"]
  show "ring_contents (ring_push x q) ! i = (ring_contents q @ [x]) ! i"
    by (cases "i = ring_pending q")
      (auto simp: ring_contents_def ring_push_def ring_inv_def nth_append nth_list_update simp del: upt_Suc)
qed (simp add: ring_push_def)

lemma ring_pop_contents:
  assumes "ring_inv q" "ring_contents q = x # xs"
  shows "fst (ring_pop q) = x \<and> ring_contents (snd (ring_pop q)) = xs"
proof -
  let ?n = "length (ring_cells q)"
  obtain p where p: "ring_pending q = Suc p"
    using assms(2) length_ring_contents [of q] by (cases "ring_pending q") auto
  have "ring_contents q = ring_cells q ! ring_head q #
      map (\<lambda>k. ring_cells q ! ((ring_head q + Suc k) mod ?n)) [0..<p]"
    using assms(1) by (simp add: ring_contents_def p upt_rec [of 0] map_Suc_upt [symmetric]
        ring_inv_def del: upt_Suc)
  moreover have "ring_contents (snd (ring_pop q)) =
      map (\<lambda>k. ring_cells q ! ((ring_head q + Suc k) mod ?n)) [0..<p]"
    by (simp add: ring_contents_def ring_pop_def p mod_simps)
  ultimately show ?thesis using assms(2) by (simp add: ring_pop_def)
qed

interpretation ring: index_queue ring_push ring_pop ring_contents "\<lambda>q. length (ring_cells q)" ring_inv
proof unfold_locales
  fix q x xs assume q: "ring_inv q"
  show "ring_contents (ring_push x q) = ring_contents q @ [x]" if "length (ring_contents q) < length (ring_cells q)"
    using ring_push_contents q that by simp
  show "ring_inv (ring_push x q)" if "length (ring_contents q) < length (ring_cells q)"
    using q that by (simp add: ring_inv_def ring_push_def mod_simps)
  show "fst (ring_pop q) = x \<and> ring_contents (snd (ring_pop q)) = xs" if "ring_contents q = x # xs"
    using ring_pop_contents q that by simp
  show "ring_inv (snd (ring_pop q))" if "ring_contents q \<noteq> []"
  proof -
    from that obtain p where "ring_pending q = Suc p"
      by (cases "ring_pending q") (simp_all add: ring_contents_def)
    with q show ?thesis
      by (auto simp: ring_inv_def ring_pop_def mod_simps intro!: mod_less_divisor)
  qed
qed (simp_all add: ring_push_def ring_pop_def)

end
