(* ===== verification/Constructor_Init.thy ===== *)
theory Constructor_Init
  imports Constructor_Trace Work_Ring
begin

text \<open>
  Where a constructor has initialised \<open>this\<close>: the data flow analysis of
  \<^verbatim>\<open>visitors/constructor_init.c\<close>. A work list runs the abstract machine over the instructions
  until the joined frames are stable, and reports the offset behind the invokespecial
  that consumes the uninitialised \<open>this\<close>. The loop always ends, and on code
  whose paths agree, as bytecode verification guarantees, the report is the one that
  the set of all paths gives.
\<close>

section \<open>States\<close>

datatype constructor_init_result =
    CONSTRUCTOR_INIT_FOUND | CONSTRUCTOR_INIT_MISSING | CONSTRUCTOR_INIT_AMBIGUOUS

record trace_state =
  reached :: bool
  queued :: bool
  s_locals :: "u1 list"
  s_stack :: "u1 list"

definition trace_state_zero :: trace_state where
  "trace_state_zero = \<lparr>reached = False, queued = False, s_locals = [], s_stack = []\<rparr>"

definition instruction_index_at :: "instruction_list \<Rightarrow> i4 \<Rightarrow> nat option" where
  "instruction_index_at list offset =
     (if offset < 0 then None
      else find_index (\<lambda>n. ins_offset n = of_int offset) (il_items list))"

text \<open>\<open>max_locals\<close> and \<open>max_stack\<close> are passed beside the work frame that has the same values.\<close>

definition merge_state :: "alloc \<Rightarrow> trace_state \<Rightarrow> trace_work \<Rightarrow> bool \<times> trace_state" where
  "merge_state mem state work =
     (if \<not> reached state then
        (if \<not> mem Alloc_bytes (if w_max_locals work = 0 then 1 else unat (w_max_locals work)) \<or>
            \<not> mem Alloc_bytes (if w_max_stack work = 0 then 1 else unat (w_max_stack work))
         then (False, state)
         else (True, state\<lparr>reached := True, s_locals := w_locals work, s_stack := w_stack work\<rparr>))
      else if length (s_stack state) \<noteq> depth work then (False, state)
      else
        let locals = join_slots (s_locals state) (w_locals work);
            stack = join_slots (s_stack state) (w_stack work)
        in (locals \<noteq> s_locals state \<or> stack \<noteq> s_stack state,
            state\<lparr>s_locals := locals, s_stack := stack\<rparr>))"

record trace_run =
  tr_states :: "trace_state list"
  tr_queue :: work_ring
  tr_found :: bool
  tr_ambiguous :: bool
  tr_found_offset :: u4

definition propagate :: "alloc \<Rightarrow> trace_work \<Rightarrow> nat \<Rightarrow> trace_run \<Rightarrow> trace_run" where
  "propagate mem work target run =
     (let (changed, next) = merge_state mem (tr_states run ! target) work in
      if changed \<and> \<not> queued next
      then run\<lparr>tr_states := (tr_states run)[target := next\<lparr>queued := True\<rparr>],
               tr_queue := ring_push target (tr_queue run)\<rparr>
      else run\<lparr>tr_states := (tr_states run)[target := next]\<rparr>)"

section \<open>The loop\<close>

text \<open>The instructions that one iteration propagates to, in the order of the calls.\<close>

definition resolve_targets :: "instruction_list \<Rightarrow> i4 list \<Rightarrow> nat list" where
  "resolve_targets list offsets = List.map_filter (instruction_index_at list) offsets"

definition successors :: "instruction_list \<Rightarrow> nat \<Rightarrow> bool \<Rightarrow> nat list" where
  "successors list index terminal =
     (let node = il_items list ! index;
          opcode = ins_opcode node;
          fall = (if index + 1 < unat (il_count list) then [index + 1] else []);
          branch = (\<lambda>target. resolve_targets list [target] @
            (if opcode \<noteq> JVM_OPC_goto \<and> opcode \<noteq> JVM_OPC_goto_w \<and> opcode \<noteq> JVM_OPC_jsr \<and> opcode \<noteq> JVM_OPC_jsr_w
             then fall else []))
      in case ins_u node of
           Op_Branch target \<Rightarrow> branch target
         | Op_BranchWide target \<Rightarrow> branch target
         | Op_TableSwitch other low high targets \<Rightarrow>
             resolve_targets list (other # take (nat (i4_wrap (high - low + 1))) targets)
         | Op_LookupSwitch other pairs \<Rightarrow> resolve_targets list (other # map pair_target pairs)
         | _ \<Rightarrow> if \<not> terminal then fall else [])"

definition state_work :: "code_editor \<Rightarrow> trace_state \<Rightarrow> trace_work" where
  "state_work ed state =
     \<lparr>w_locals = s_locals state, w_stack = s_stack state,
      w_max_locals = ed_max_locals ed, w_max_stack = ed_max_stack ed\<rparr>"

definition initializes_this :: "ClassFile \<Rightarrow> instruction \<Rightarrow> trace_work \<Rightarrow> bool" where
  "initializes_this cf node work =
     (case is_initializing_call cf node of
        None \<Rightarrow> False
      | Some arguments \<Rightarrow>
          depth work > unat arguments \<and> w_stack work ! (depth work - unat arguments - 1) = TRACE_THIS)"

definition offset_after :: "instruction \<Rightarrow> u4" where
  "offset_after node = ins_offset node + instruction_length_at node (ins_offset node)"

definition note_call :: "u4 \<Rightarrow> trace_run \<Rightarrow> trace_run" where
  "note_call after run =
     (if \<not> tr_found run then run\<lparr>tr_found := True, tr_found_offset := after\<rparr>
      else if after \<noteq> tr_found_offset run then run\<lparr>tr_ambiguous := True\<rparr>
      else run)"

definition trace_body :: "alloc \<Rightarrow> ClassFile \<Rightarrow> code_editor \<Rightarrow> trace_run \<Rightarrow> trace_run" where
  "trace_body mem cf ed run =
     (let (index, queue) = ring_pop (tr_queue run);
          state = (tr_states run ! index)\<lparr>queued := False\<rparr>;
          run = run\<lparr>tr_queue := queue, tr_states := (tr_states run)[index := state]\<rparr>;
          work = state_work ed state;
          node = il_items (ed_instructions ed) ! index
      in if initializes_this cf node work then note_call (offset_after node) run
         else
           case execute cf node work of
             None \<Rightarrow> run
           | Some (work, terminal) \<Rightarrow>
               fold (propagate mem work) (successors (ed_instructions ed) index terminal) run)"

partial_function (option) trace_loop ::
  "alloc \<Rightarrow> ClassFile \<Rightarrow> code_editor \<Rightarrow> trace_run \<Rightarrow> trace_run option" where
  "trace_loop mem cf ed run =
     (if ring_pending (tr_queue run) \<noteq> 0 then trace_loop mem cf ed (trace_body mem cf ed run)
      else Some run)"

definition initial_work :: "code_editor \<Rightarrow> trace_work" where
  "initial_work ed =
     \<lparr>w_locals = (replicate (unat (ed_max_locals ed)) TRACE_OTHER)[0 := TRACE_THIS], w_stack = [],
      w_max_locals = ed_max_locals ed, w_max_stack = ed_max_stack ed\<rparr>"

definition initial_run :: "nat \<Rightarrow> trace_state \<Rightarrow> trace_run" where
  "initial_run n entry =
     \<lparr>tr_states = (replicate n trace_state_zero)[0 := entry\<lparr>queued := True\<rparr>],
      tr_queue = \<lparr>ring_cells = replicate n 0, ring_head = 0, ring_tail = 1 mod n, ring_pending = 1\<rparr>,
      tr_found = False, tr_ambiguous = False, tr_found_offset = 0\<rparr>"

definition run_result :: "trace_run \<Rightarrow> constructor_init_result \<times> u4 option" where
  "run_result run =
     (if tr_ambiguous run then (CONSTRUCTOR_INIT_AMBIGUOUS, None)
      else if \<not> tr_found run then (CONSTRUCTOR_INIT_MISSING, None)
      else (CONSTRUCTOR_INIT_FOUND, Some (tr_found_offset run)))"

text \<open>
  \<open>None\<close> is the loop that does not end. The second component of the result is what the code
  writes to \<open>*out_offset\<close>, if it writes.
\<close>

definition constructor_init_offset ::
  "alloc \<Rightarrow> ClassFile \<Rightarrow> code_editor \<Rightarrow> (constructor_init_result \<times> u4 option) option" where
  "constructor_init_offset mem cf ed =
     (let n = unat (il_count (ed_instructions ed)) in
      if n = 0 \<or> ed_max_locals ed = 0 then Some (CONSTRUCTOR_INIT_MISSING, None)
      else if \<not> mem Alloc_trace_state n \<or> \<not> mem Alloc_u4 n \<or>
              \<not> mem Alloc_bytes (unat (ed_max_locals ed)) \<or>
              \<not> mem Alloc_bytes (if ed_max_stack ed = 0 then 1 else unat (ed_max_stack ed))
      then Some (CONSTRUCTOR_INIT_MISSING, None)
      else
        case merge_state mem trace_state_zero (initial_work ed) of
          (False, _) \<Rightarrow> Some (CONSTRUCTOR_INIT_MISSING, None)
        | (True, entry) \<Rightarrow> map_option run_result (trace_loop mem cf ed (initial_run n entry)))"

declare trace_loop.simps [code]

section \<open>Merging\<close>

definition fits :: "code_editor \<Rightarrow> trace_work \<Rightarrow> bool" where
  "fits ed w \<longleftrightarrow> wf_work w \<and> w_max_locals w = ed_max_locals ed \<and> w_max_stack w = ed_max_stack ed"

definition wf_state :: "code_editor \<Rightarrow> trace_state \<Rightarrow> bool" where
  "wf_state ed st \<longleftrightarrow> (reached st \<longrightarrow> wf_work (state_work ed st))"

lemma state_work_simps [simp]:
  "w_locals (state_work ed st) = s_locals st" "w_stack (state_work ed st) = s_stack st"
  "w_max_locals (state_work ed st) = ed_max_locals ed" "w_max_stack (state_work ed st) = ed_max_stack ed"
  by (simp_all add: state_work_def)

lemma state_work_queued [simp]: "state_work ed (st\<lparr>queued := q\<rparr>) = state_work ed st"
  by (simp add: state_work_def)

lemma wf_state_queued [simp]: "wf_state ed (st\<lparr>queued := q\<rparr>) = wf_state ed st"
  by (simp add: wf_state_def)

lemma fits_state: "wf_state ed st \<Longrightarrow> reached st \<Longrightarrow> fits ed (state_work ed st)"
  by (simp add: wf_state_def fits_def)

lemma fits_shape: "fits ed a \<Longrightarrow> fits ed b \<Longrightarrow> same_shape a b \<longleftrightarrow> depth a = depth b"
  by (auto simp: fits_def wf_work_def same_shape_def)

lemma fits_join: "fits ed a \<Longrightarrow> same_shape a b \<Longrightarrow> fits ed (join_work a b)"
  by (auto simp: fits_def wf_work_def same_shape_def)

text \<open>The three ways a merge can go: refused, first visit, join.\<close>

lemma merge_state_cases:
  assumes "wf_state ed st" "fits ed w" "merge_state mem st w = (changed, st')"
  obtains (refused) "\<not> changed" "st' = st" "if reached st then depth (state_work ed st) \<noteq> depth w else \<not> alloc_total mem"
  | (first) "changed" "\<not> reached st" "reached st'" "queued st' = queued st" "state_work ed st' = w"
  | (join) "reached st" "reached st'" "queued st' = queued st" "same_shape (state_work ed st) w"
      "state_work ed st' = join_work (state_work ed st) w" "changed \<longleftrightarrow> state_work ed st' \<noteq> state_work ed st"
      "\<not> changed \<longrightarrow> st' = st"
proof (cases "reached st")
  case False
  note unreached = this
  show thesis
  proof (cases changed)
    case True
    with unreached assms show thesis
      by (intro first) (auto simp: merge_state_def fits_def state_work_def split: if_splits)
  next
    case False
    with unreached assms(3) show thesis
      by (intro refused) (auto simp: merge_state_def alloc_total_def split: if_splits)
  qed
next
  case True
  note st = fits_state [OF assms(1) this]
  show thesis
  proof (cases "length (s_stack st) = depth w")
    case False
    with True assms(3) show thesis by (auto simp: merge_state_def intro: refused)
  next
    case same: True
    with st assms(2) have shape: "same_shape (state_work ed st) w" by (simp add: fits_shape)
    from True same assms(3) show thesis
      by (intro join [OF _ _ _ shape]) (auto simp: merge_state_def Let_def state_work_def join_work_def)
  qed
qed

subsection \<open>How much a state can still grow\<close>

definition slack :: "u1 list \<Rightarrow> nat" where
  "slack vs = (\<Sum>v\<leftarrow>vs. 255 - unat v)"

definition room :: "code_editor \<Rightarrow> trace_state \<Rightarrow> nat" where
  "room ed st =
     (if reached st then slack (s_locals st) + slack (s_stack st)
      else Suc (255 * (unat (ed_max_locals ed) + unat (ed_max_stack ed))))"

lemma slack_bound: "slack vs \<le> 255 * length vs"
  by (induction vs) (simp_all add: slack_def)

lemma u1_le_255: "unat (v :: u1) \<le> 255"
  using unat_u1_less [of v] by linarith

lemma or_grows: "(v :: u1) OR u \<noteq> v \<Longrightarrow> unat v < unat (v OR u)"
  by (metis le_word_or2 order_le_less word_less_nat_alt)

lemma slack_join: "length xs = length ys \<Longrightarrow> slack (join_slots xs ys) \<le> slack xs \<and>
    (join_slots xs ys \<noteq> xs \<longrightarrow> slack (join_slots xs ys) < slack xs)"
proof (induction xs ys rule: list_induct2)
  case (Cons x xs y ys)
  have head: "255 - unat (x OR y) \<le> 255 - unat x" "x OR y \<noteq> x \<Longrightarrow> 255 - unat (x OR y) < 255 - unat x"
    using or_grows [of x y] u1_le_255 [of x] u1_le_255 [of "x OR y"] by (cases "x OR y = x"; simp)+
  have eq: "join_slots (x # xs) (y # ys) = (x OR y) # join_slots xs ys"
    by (simp add: join_slots_def)
  from head Cons.IH show ?case
    unfolding eq slack_def list.map sum_list.Cons
    by (cases "x OR y = x") (auto intro: add_mono add_less_le_mono)
qed (simp add: join_slots_def)

lemma room_queued [simp]: "room ed (st\<lparr>queued := q\<rparr>) = room ed st"
  by (simp add: room_def)

lemma merge_state_room:
  assumes "wf_state ed st" "fits ed w" "merge_state mem st w = (changed, st')"
  shows "wf_state ed st' \<and> queued st' = queued st \<and> (changed \<longrightarrow> reached st' \<and> room ed st' < room ed st) \<and>
    (\<not> changed \<longrightarrow> st' = st)"
  using assms
proof (cases rule: merge_state_cases)
  case first
  then have "s_locals st' = w_locals w" "s_stack st' = w_stack w" by (metis state_work_simps)+
  moreover have "slack (w_locals w) + slack (w_stack w) \<le> 255 * (unat (ed_max_locals ed) + unat (ed_max_stack ed))"
    using assms(2) slack_bound [of "w_locals w"] slack_bound [of "w_stack w"]
    by (auto simp: fits_def wf_work_def)
  moreover have "wf_state ed st'" using first assms(2) by (simp add: wf_state_def fits_def)
  ultimately show ?thesis using first by (simp add: room_def)
next
  case join
  from join(4,5) have s: "s_locals st' = join_slots (s_locals st) (w_locals w)"
    "s_stack st' = join_slots (s_stack st) (w_stack w)"
    "length (s_locals st) = length (w_locals w)" "length (s_stack st) = length (w_stack w)"
    by (metis state_work_simps join_work_simps same_shape_def)+
  have "changed \<Longrightarrow> s_locals st' \<noteq> s_locals st \<or> s_stack st' \<noteq> s_stack st"
    using join(6) by (auto simp: state_work_def)
  with slack_join [OF s(3)] slack_join [OF s(4)] have "changed \<Longrightarrow> room ed st' < room ed st"
    using join(1,2) unfolding s(1,2) room_def by (auto simp: s)
  moreover have "wf_state ed st'"
    using fits_join [OF fits_state [OF assms(1) join(1)] join(4)] join(5) by (simp add: wf_state_def fits_def)
  ultimately show ?thesis using join(2,3,7) by blast
qed (use assms in simp)

section \<open>The loop ends\<close>

text \<open>
  What every iteration keeps, whatever the code under analysis: the frames have the shape the editor
  declares, and the ring holds exactly the queued indices.
\<close>

definition run_shape :: "code_editor \<Rightarrow> trace_run \<Rightarrow> bool" where
  "run_shape ed run \<longleftrightarrow>
     list_all (wf_state ed) (tr_states run) \<and>
     ring.holds (tr_queue run) (length (tr_states run)) {i. i < length (tr_states run) \<and> queued (tr_states run ! i)} \<and>
     list_all (\<lambda>st. queued st \<longrightarrow> reached st) (tr_states run)"

definition total_room :: "code_editor \<Rightarrow> trace_run \<Rightarrow> nat" where
  "total_room ed run = (\<Sum>st\<leftarrow>tr_states run. room ed st)"

definition n_states :: "trace_run \<Rightarrow> nat" where
  "n_states run = length (tr_states run)"

lemma run_shape_state: "run_shape ed run \<Longrightarrow> i < n_states run \<Longrightarrow> wf_state ed (tr_states run ! i)"
  by (simp add: run_shape_def n_states_def list_all_length)

lemma list_all_update: "list_all P xs \<Longrightarrow> P x \<Longrightarrow> list_all P (xs[i := x])"
  by (auto simp: list_all_iff dest: set_update_subset_insert [THEN subsetD])

lemma sum_list_update_less:
  fixes f :: "'a \<Rightarrow> nat"
  assumes "i < length xs" "f x < f (xs ! i)"
  shows "(\<Sum>x\<leftarrow>xs[i := x]. f x) < (\<Sum>x\<leftarrow>xs. f x)"
  using assms
proof (induction xs arbitrary: i)
  case (Cons y ys)
  then show ?case by (cases i) auto
qed simp

lemma sum_list_update_same:
  fixes f :: "'a \<Rightarrow> nat"
  assumes "f x = f (xs ! i)"
  shows "(\<Sum>x\<leftarrow>xs[i := x]. f x) = (\<Sum>x\<leftarrow>xs. f x)"
proof -
  have "map f (xs[i := x]) = map f xs"
    using assms by (cases "i < length xs") (simp_all add: map_update list_update_beyond list_update_same_conv)
  then show ?thesis by simp
qed

lemma queued_already: "queued st \<Longrightarrow> st\<lparr>queued := True\<rparr> = st"
  by (cases st) simp

text \<open>A propagation changes nothing, or uses up room and leaves its target queued.\<close>

lemma propagate_cases:
  assumes shape: "run_shape ed run" and w: "fits ed w" and t: "t < n_states run"
    and p: "propagate mem w t run = run'"
  obtains (same) "run' = run" "fst (merge_state mem (tr_states run ! t) w) = False"
  | (changed) st where "merge_state mem (tr_states run ! t) w = (True, st)"
      "tr_states run' = (tr_states run)[t := st\<lparr>queued := True\<rparr>]" "run_shape ed run'"
      "total_room ed run' < total_room ed run"
      "tr_found run' = tr_found run" "tr_ambiguous run' = tr_ambiguous run"
      "tr_found_offset run' = tr_found_offset run"
proof -
  let ?st = "tr_states run ! t" and ?Q = "\<lambda>run. {i. i < length (tr_states run) \<and> queued (tr_states run ! i)}"
  obtain ch st where m: "merge_state mem ?st w = (ch, st)" by fastforce
  have t': "t < length (tr_states run)" using t by (simp add: n_states_def)
  have wf: "wf_state ed ?st" using shape t' by (simp add: run_shape_def list_all_length)
  note mr = merge_state_room [OF wf w m]
  show thesis
  proof (cases ch)
    case False
    with mr m p t' show thesis by (intro same) (auto simp: propagate_def)
  next
    case True
    define st' where "st' = st\<lparr>queued := True\<rparr>"
    have st': "wf_state ed st'" "reached st'" "queued st'" "room ed st' < room ed ?st"
      using mr True by (simp_all add: st'_def)
    have states: "tr_states run' = (tr_states run)[t := st']"
      using p m True mr by (auto simp: propagate_def st'_def queued_already split: if_splits)
    have queue: "tr_queue run' = (if queued ?st then tr_queue run else ring_push t (tr_queue run))"
      using p m True mr by (auto simp: propagate_def split: if_splits)
    have Q: "?Q run' = insert t (?Q run)"
      using st' t' by (auto simp: states nth_list_update)
    have "ring.holds (tr_queue run') (length (tr_states run)) (insert t (?Q run))"
    proof (cases "queued ?st")
      case True
      then have "insert t (?Q run) = ?Q run" using t' by auto
      with True queue shape show ?thesis by (simp add: run_shape_def)
    next
      case False
      with queue shape t' ring.holds_push [of "tr_queue run" "length (tr_states run)" "?Q run" t] show ?thesis
        by (simp add: run_shape_def)
    qed
    then have "run_shape ed run'"
      using shape st' Q unfolding run_shape_def by (simp add: states list_all_update)
    moreover have "total_room ed run' < total_room ed run"
      using sum_list_update_less [OF t' st'(4)] by (simp add: total_room_def states)
    ultimately show thesis using m True states p
      by (intro changed [of st]) (auto simp: st'_def propagate_def split: if_splits)
  qed
qed

lemma propagate_bounds:
  assumes "run_shape ed run" "fits ed w" "t < n_states run"
  shows "run_shape ed (propagate mem w t run) \<and> n_states (propagate mem w t run) = n_states run \<and>
    (propagate mem w t run = run \<or> total_room ed (propagate mem w t run) < total_room ed run)"
  using assms refl
proof (cases rule: propagate_cases [where mem = mem])
  case same
  with assms show ?thesis by simp
next
  case (changed st)
  then show ?thesis by (simp add: n_states_def)
qed

lemma propagates_bounds:
  assumes "run_shape ed run" "fits ed w" "\<forall>t \<in> set ts. t < n_states run"
  shows "run_shape ed (fold (propagate mem w) ts run) \<and> n_states (fold (propagate mem w) ts run) = n_states run \<and>
    (fold (propagate mem w) ts run = run \<or> total_room ed (fold (propagate mem w) ts run) < total_room ed run)"
  using assms
proof (induction ts arbitrary: run)
  case (Cons t ts)
  let ?r = "propagate mem w t run"
  have b: "run_shape ed ?r" "n_states ?r = n_states run" "?r = run \<or> total_room ed ?r < total_room ed run"
    using propagate_bounds [of ed run w t mem] Cons.prems by auto
  show ?case using Cons.IH [OF b(1) Cons.prems(2)] Cons.prems b by auto
qed simp

text \<open>The run after the index has been taken off the ring.\<close>

definition popped :: "trace_run \<Rightarrow> nat \<times> trace_run" where
  "popped run =
     (let (index, queue) = ring_pop (tr_queue run)
      in (index, run\<lparr>tr_queue := queue,
                     tr_states := (tr_states run)[index := (tr_states run ! index)\<lparr>queued := False\<rparr>]\<rparr>))"

lemma trace_body_popped:
  assumes "popped run = (i, run1)" "i < n_states run"
  shows "trace_body mem cf ed run =
    (let node = il_items (ed_instructions ed) ! i; work = state_work ed (tr_states run1 ! i) in
     if initializes_this cf node work then note_call (offset_after node) run1
     else case execute cf node work of None \<Rightarrow> run1
          | Some (work, terminal) \<Rightarrow> fold (propagate mem work) (successors (ed_instructions ed) i terminal) run1)"
  using assms by (auto simp: trace_body_def popped_def n_states_def Let_def split: prod.splits)

lemma popped_shape:
  assumes shape: "run_shape ed run" and pending: "ring_pending (tr_queue run) \<noteq> 0"
    and pop: "popped run = (i, run1)"
  shows "i < n_states run \<and> run_shape ed run1 \<and> reached (tr_states run1 ! i) \<and> \<not> queued (tr_states run1 ! i) \<and>
    total_room ed run1 = total_room ed run \<and> n_states run1 = n_states run \<and>
    Suc (ring_pending (tr_queue run1)) = ring_pending (tr_queue run) \<and>
    tr_states run1 = (tr_states run)[i := (tr_states run ! i)\<lparr>queued := False\<rparr>] \<and>
    tr_found run1 = tr_found run \<and> tr_ambiguous run1 = tr_ambiguous run \<and>
    tr_found_offset run1 = tr_found_offset run"
proof -
  let ?n = "length (tr_states run)" and ?Q = "\<lambda>run. {i. i < length (tr_states run) \<and> queued (tr_states run ! i)}"
  from pop have i: "i = fst (ring_pop (tr_queue run))"
    and run1: "run1 = run\<lparr>tr_queue := snd (ring_pop (tr_queue run)),
      tr_states := (tr_states run)[i := (tr_states run ! i)\<lparr>queued := False\<rparr>]\<rparr>"
    by (auto simp: popped_def Let_def split: prod.splits)
  have ne: "ring_contents (tr_queue run) \<noteq> []"
    using pending length_ring_contents [of "tr_queue run"] by (metis length_0_conv)
  from shape have holds: "ring.holds (tr_queue run) ?n (?Q run)" by (simp add: run_shape_def)
  note pp = ring.holds_pop [OF holds ne, folded i]
  then have lt: "i < ?n" "queued (tr_states run ! i)" by auto
  have Q: "?Q run1 = ?Q run - {i}" using lt by (auto simp: run1 nth_list_update)
  have shape1: "run_shape ed run1"
    using shape pp lt unfolding run_shape_def Q
    by (simp add: run1 list_all_update list_all_length nth_list_update)
  have room: "total_room ed run1 = total_room ed run"
    by (simp add: run1 total_room_def sum_list_update_same)
  from lt shape have "reached (tr_states run ! i)" by (simp add: run_shape_def list_all_length)
  with pp lt shape1 room show ?thesis by (simp add: run1 n_states_def)
qed

lemma find_index_less: "find_index p xs = Some i \<Longrightarrow> i < length xs"
  by (simp add: find_index_Some)

lemma resolve_targets_less: "t \<in> set (resolve_targets list offsets) \<Longrightarrow> t < length (il_items list)"
  by (auto simp: resolve_targets_def List.map_filter_def instruction_index_at_def split: if_splits
      dest: find_index_less)

lemma successors_less:
  assumes "length (il_items list) < 2 ^ 32" "t \<in> set (successors list i terminal)"
  shows "t < length (il_items list)"
proof -
  have "unat (il_count list) = length (il_items list)"
    using assms(1) by (simp add: il_count_def)
  with assms(2) show ?thesis
    by (auto simp: successors_def Let_def split: operand.splits if_splits dest: resolve_targets_less)
qed

lemma fits_execute: "fits ed w \<Longrightarrow> execute cf node w = Some (w', terminal) \<Longrightarrow> fits ed w'"
  using trace_op_frame [OF trace_op_execute_work] execute_terminal by (metis fits_def)

text \<open>The termination measure: the room that is left, and then the number of pending indices.\<close>

definition run_measure :: "code_editor \<Rightarrow> trace_run \<Rightarrow> nat \<times> nat" where
  "run_measure ed run = (total_room ed run, ring_pending (tr_queue run))"

lemma trace_body_bounds:
  assumes shape: "run_shape ed run" and pending: "ring_pending (tr_queue run) \<noteq> 0"
    and n: "n_states run = length (il_items (ed_instructions ed))" "n_states run < 2 ^ 32"
  shows "run_shape ed (trace_body mem cf ed run) \<and> n_states (trace_body mem cf ed run) = n_states run \<and>
    (run_measure ed (trace_body mem cf ed run), run_measure ed run) \<in> less_than <*lex*> less_than"
proof -
  obtain i run1 where pop: "popped run = (i, run1)" by fastforce
  note p = popped_shape [OF shape pending pop]
  let ?node = "il_items (ed_instructions ed) ! i" and ?w = "state_work ed (tr_states run1 ! i)"
  have less: "(run_measure ed run', run_measure ed run) \<in> less_than <*lex*> less_than"
    if "run' = run1 \<or> total_room ed run' < total_room ed run1" for run'
    using that p by (auto simp: run_measure_def)
  have noted: "tr_states (note_call a run1) = tr_states run1" "tr_queue (note_call a run1) = tr_queue run1" for a
    by (simp_all add: note_call_def)
  show ?thesis
  proof (cases "initializes_this cf ?node ?w")
    case True
    with p have eq: "trace_body mem cf ed run = note_call (offset_after ?node) run1"
      by (simp add: trace_body_popped [OF pop] Let_def)
    have "run_shape ed (note_call a run1) = run_shape ed run1" "n_states (note_call a run1) = n_states run1"
      "run_measure ed (note_call a run1) = run_measure ed run1" for a
      by (simp_all add: noted run_shape_def n_states_def run_measure_def total_room_def)
    with p less [of run1] show ?thesis
      unfolding eq by simp
  next
    case False
    show ?thesis
    proof (cases "execute cf ?node ?w")
      case None
      with False p have "trace_body mem cf ed run = run1"
        by (simp add: trace_body_popped [OF pop] Let_def)
      with p less show ?thesis by simp
    next
      case (Some wt)
      obtain w' terminal where wt: "wt = (w', terminal)" by fastforce
      have "wf_state ed (tr_states run1 ! i)"
        using p run_shape_state by metis
      with p Some wt have w': "fits ed w'" by (blast intro: fits_execute fits_state)
      from False Some wt p have eq: "trace_body mem cf ed run =
          fold (propagate mem w') (successors (ed_instructions ed) i terminal) run1"
        by (simp add: trace_body_popped [OF pop] Let_def)
      from p w' have "\<forall>t \<in> set (successors (ed_instructions ed) i terminal). t < n_states run1"
        using successors_less n by metis
      with propagates_bounds [of ed run1 w' _ mem] p w' less show ?thesis
        unfolding eq by metis
    qed
  qed
qed

text \<open>The loop rule: an invariant that one iteration keeps holds at the end, and the end is reached.\<close>

lemma trace_loop_rule:
  assumes "run_shape ed run" "n_states run = length (il_items (ed_instructions ed))" "n_states run < 2 ^ 32"
    and "I run"
    and step: "\<And>run. run_shape ed run \<Longrightarrow> n_states run = length (il_items (ed_instructions ed)) \<Longrightarrow>
      ring_pending (tr_queue run) \<noteq> 0 \<Longrightarrow> I run \<Longrightarrow> I (trace_body mem cf ed run)"
  shows "\<exists>run'. trace_loop mem cf ed run = Some run' \<and> run_shape ed run' \<and> n_states run' = n_states run \<and>
    ring_pending (tr_queue run') = 0 \<and> I run'"
proof -
  have "wf (inv_image (less_than <*lex*> less_than) (run_measure ed))" by auto
  then show ?thesis
    using assms(1-4)
  proof (induction run rule: wf_induct_rule)
    case (less run)
    show ?case
    proof (cases "ring_pending (tr_queue run) = 0")
      case True
      with less.prems show ?thesis by (simp add: trace_loop.simps)
    next
      case False
      note b = trace_body_bounds [OF less.prems(1) False less.prems(2,3), of mem cf]
      with less.IH [of "trace_body mem cf ed run"] step less.prems False show ?thesis
        by (simp add: trace_loop.simps [of _ _ _ run])
    qed
  qed
qed

section \<open>Paths\<close>

text \<open>
  The reference: the frames that single paths through the code produce, each up to the call
  that initialises \<open>this\<close>. The report of the analysis is to be read off the set of offsets behind
  those calls.
\<close>

abbreviation node_at :: "code_editor \<Rightarrow> nat \<Rightarrow> instruction" where
  "node_at ed i \<equiv> il_items (ed_instructions ed) ! i"

inductive trace_path :: "ClassFile \<Rightarrow> code_editor \<Rightarrow> nat \<Rightarrow> trace_work \<Rightarrow> bool" for cf ed where
  path_entry: "trace_path cf ed 0 (initial_work ed)"
| path_step: "trace_path cf ed i w \<Longrightarrow> \<not> initializes_this cf (node_at ed i) w \<Longrightarrow>
    execute cf (node_at ed i) w = Some (w', terminal) \<Longrightarrow>
    t \<in> set (successors (ed_instructions ed) i terminal) \<Longrightarrow> trace_path cf ed t w'"

definition init_offsets :: "ClassFile \<Rightarrow> code_editor \<Rightarrow> u4 set" where
  "init_offsets cf ed =
     {offset_after (node_at ed i) | i w. trace_path cf ed i w \<and> initializes_this cf (node_at ed i) w}"

text \<open>
  What bytecode verification guarantees of a constructor: paths that meet agree on the depth of the
  stack, and on whether a call consumes the uninitialised \<open>this\<close>.
\<close>

definition paths_agree :: "ClassFile \<Rightarrow> code_editor \<Rightarrow> bool" where
  "paths_agree cf ed \<longleftrightarrow>
     (\<forall>i v w. trace_path cf ed i v \<longrightarrow> trace_path cf ed i w \<longrightarrow>
        depth v = depth w \<and>
        initializes_this cf (node_at ed i) v = initializes_this cf (node_at ed i) w)"

definition code_ok :: "code_editor \<Rightarrow> bool" where
  "code_ok ed \<longleftrightarrow>
     il_items (ed_instructions ed) \<noteq> [] \<and> length (il_items (ed_instructions ed)) < 2 ^ 32 \<and>
     ed_max_locals ed \<noteq> 0"

lemma fits_initial: "fits ed (initial_work ed)"
  by (simp add: fits_def initial_work_def wf_work_def)

lemma pure_initial: "pure_work (initial_work ed)"
  by (auto simp: pure_work_def initial_work_def dest: set_update_subset_insert [THEN subsetD])

lemma path_frame:
  assumes "trace_path cf ed i w" "code_ok ed"
  shows "i < length (il_items (ed_instructions ed)) \<and> fits ed w \<and> pure_work w"
  using assms
proof (induction rule: trace_path.induct)
  case path_entry
  then show ?case by (simp add: fits_initial pure_initial code_ok_def)
next
  case (path_step i w w' terminal t)
  then have w: "fits ed w" "pure_work w" "execute_work cf (node_at ed i) w = Some w'"
    by (blast dest: execute_terminal)+
  have "t < length (il_items (ed_instructions ed))"
    using path_step by (intro successors_less [of _ t i terminal]) (simp_all add: code_ok_def)
  moreover have "fits ed w'" using path_step.hyps(3) w(1) by (rule fits_execute [rotated])
  moreover have "pure_work w'"
    using w trace_op_pure [OF trace_op_execute_work w(3)] by (simp add: fits_def)
  ultimately show ?case by blast
qed

subsection \<open>Joins of paths\<close>

inductive joined :: "ClassFile \<Rightarrow> code_editor \<Rightarrow> nat \<Rightarrow> trace_work \<Rightarrow> bool" for cf ed where
  joined_path: "trace_path cf ed i w \<Longrightarrow> joined cf ed i w"
| joined_join: "joined cf ed i a \<Longrightarrow> joined cf ed i b \<Longrightarrow> same_shape a b \<Longrightarrow> joined cf ed i (join_work a b)"

definition is_mark :: "u1 \<Rightarrow> bool" where
  "is_mark v \<longleftrightarrow> v = 1 \<or> v = 2 \<or> v = 3"

definition marked :: "trace_work \<Rightarrow> bool" where
  "marked w \<longleftrightarrow> list_all is_mark (w_stack w)"

lemma is_mark_or: "is_mark v \<Longrightarrow> is_mark u \<Longrightarrow> is_mark (v OR u)"
  by (auto simp: is_mark_def)

lemma or_is_this: "is_mark v \<Longrightarrow> is_mark u \<Longrightarrow> v OR u = TRACE_THIS \<longleftrightarrow> v = TRACE_THIS \<and> u = TRACE_THIS"
  by (auto simp: is_mark_def)

lemma marked_join: "marked a \<Longrightarrow> marked b \<Longrightarrow> same_shape a b \<Longrightarrow> marked (join_work a b)"
  by (simp add: marked_def list_all_length same_shape_def is_mark_or)

lemma pure_marked: "pure_work w \<Longrightarrow> marked w"
  by (auto simp: marked_def pure_work_def list_all_iff is_mark_def)

lemma joined_frame:
  assumes "joined cf ed i w" "code_ok ed"
  shows "i < length (il_items (ed_instructions ed)) \<and> fits ed w \<and> marked w"
  using assms
proof (induction rule: joined.induct)
  case (joined_path i w)
  then show ?case using path_frame pure_marked by blast
next
  case (joined_join i a b)
  then show ?case by (simp add: fits_join marked_join)
qed

text \<open>A join initialises \<open>this\<close> exactly if both frames do, so agreement extends from paths to joins.\<close>

lemma initializes_join:
  assumes "same_shape a b" "marked a" "marked b"
    "initializes_this cf node a = initializes_this cf node b"
  shows "initializes_this cf node (join_work a b) = initializes_this cf node a"
proof (cases "is_initializing_call cf node")
  case (Some args)
  show ?thesis
  proof (cases "unat args < depth a")
    case True
    let ?k = "depth a - unat args - 1"
    have k: "?k < depth a" "depth b = depth a" using True assms(1) by (auto simp: same_shape_def)
    then have "is_mark (w_stack a ! ?k)" "is_mark (w_stack b ! ?k)"
      using assms(2,3) by (simp_all add: marked_def list_all_length)
    from or_is_this [OF this] True k assms(4) Some show ?thesis
      by (simp add: initializes_this_def)
  next
    case False
    with assms(1) Some show ?thesis by (simp add: initializes_this_def same_shape_def)
  qed
qed (simp add: initializes_this_def)

lemma joined_path_agree:
  assumes "joined cf ed i a" "trace_path cf ed i w" "paths_agree cf ed" "code_ok ed"
  shows "depth a = depth w \<and> initializes_this cf (node_at ed i) a = initializes_this cf (node_at ed i) w"
  using assms
proof (induction rule: joined.induct)
  case (joined_path i v)
  then show ?case unfolding paths_agree_def by blast
next
  case (joined_join i a b)
  then have "depth a = depth w" "depth b = depth w"
    "initializes_this cf (node_at ed i) a = initializes_this cf (node_at ed i) w"
    "initializes_this cf (node_at ed i) b = initializes_this cf (node_at ed i) w" by blast+
  moreover have "marked a" "marked b" using joined_frame joined_join by blast+
  ultimately show ?case
    using initializes_join [OF joined_join.hyps(3)] by simp
qed

lemma joined_has_path: "joined cf ed i a \<Longrightarrow> \<exists>w. trace_path cf ed i w"
  by (induction rule: joined.induct) auto

lemma joined_agree:
  assumes "joined cf ed i a" "joined cf ed i b" "paths_agree cf ed" "code_ok ed"
  shows "same_shape a b \<and> initializes_this cf (node_at ed i) a = initializes_this cf (node_at ed i) b"
proof -
  obtain w where w: "trace_path cf ed i w" using joined_has_path [OF assms(1)] by blast
  from joined_path_agree [OF assms(1) w assms(3,4)] joined_path_agree [OF assms(2) w assms(3,4)]
    joined_frame [OF assms(1,4)] joined_frame [OF assms(2,4)]
  show ?thesis by (auto simp: fits_shape)
qed

lemma joined_step:
  assumes "joined cf ed i a" "\<not> initializes_this cf (node_at ed i) a"
    "execute cf (node_at ed i) a = Some (a', terminal)"
    "t \<in> set (successors (ed_instructions ed) i terminal)" "paths_agree cf ed" "code_ok ed"
  shows "joined cf ed t a'"
  using assms
proof (induction arbitrary: a' rule: joined.induct)
  case (joined_path i w)
  then show ?case by (blast intro: joined.joined_path path_step)
next
  case (joined_join i a b)
  let ?f = "execute_work cf (node_at ed i)"
  have wf: "wf_work a" using joined_frame [OF joined_join.hyps(1) joined_join.prems(5)] by (simp add: fits_def)
  note op = trace_op_join [OF trace_op_execute_work wf joined_join.hyps(3), of cf "node_at ed i"]
  from execute_terminal [OF joined_join.prems(2)] have ex: "?f (join_work a b) = Some a'"
    and flag: "terminal = terminal_opcode (ins_opcode (node_at ed i))" by simp_all
  with op obtain x y where xy: "?f a = Some x" "?f b = Some y" "a' = join_work x y"
    by (cases "?f a"; cases "?f b") simp_all
  note jab = joined.joined_join [OF joined_join.hyps]
  have not: "\<not> initializes_this cf (node_at ed i) a" "\<not> initializes_this cf (node_at ed i) b"
    using joined_agree [OF jab joined_join.hyps(1) joined_join.prems(4,5)]
      joined_agree [OF jab joined_join.hyps(2) joined_join.prems(4,5)] joined_join.prems(1) by blast+
  note ex' = execute_Some [OF xy(1), folded flag] execute_Some [OF xy(2), folded flag]
  have "joined cf ed t x" "joined cf ed t y"
    by (rule joined_join.IH(1) [OF not(1) ex'(1) joined_join.prems(3-5)]
        joined_join.IH(2) [OF not(2) ex'(2) joined_join.prems(3-5)])+
  moreover have "same_shape x y"
    by (rule trace_op_shape [OF trace_op_execute_work wf joined_join.hyps(3) xy(1,2)])
  ultimately show ?case unfolding xy(3) by (rule joined.joined_join)
qed

section \<open>What the analysis has established\<close>

text \<open>
  The frame of an instruction covers a path's frame when it is above it. An instruction that is reached
  and not queued has been processed: its call is noted, or its successors cover what it produces.
\<close>

definition covers :: "code_editor \<Rightarrow> trace_run \<Rightarrow> nat \<Rightarrow> trace_work \<Rightarrow> bool" where
  "covers ed run t w \<longleftrightarrow> reached (tr_states run ! t) \<and> below w (state_work ed (tr_states run ! t))"

definition noted :: "trace_run \<Rightarrow> u4 \<Rightarrow> bool" where
  "noted run after \<longleftrightarrow> tr_found run \<and> (tr_ambiguous run \<or> after = tr_found_offset run)"

definition processed :: "ClassFile \<Rightarrow> code_editor \<Rightarrow> trace_run \<Rightarrow> nat \<Rightarrow> bool" where
  "processed cf ed run i \<longleftrightarrow>
     (let w = state_work ed (tr_states run ! i) in
      if initializes_this cf (node_at ed i) w then noted run (offset_after (node_at ed i))
      else \<forall>w' terminal. execute cf (node_at ed i) w = Some (w', terminal) \<longrightarrow>
             (\<forall>t \<in> set (successors (ed_instructions ed) i terminal). covers ed run t w'))"

definition grows :: "code_editor \<Rightarrow> trace_run \<Rightarrow> trace_run \<Rightarrow> bool" where
  "grows ed run run' \<longleftrightarrow>
     (\<forall>i < n_states run. \<forall>w. covers ed run i w \<longrightarrow> covers ed run' i w) \<and>
     (\<forall>i < n_states run. tr_states run' ! i = tr_states run ! i \<or> queued (tr_states run' ! i)) \<and>
     (\<forall>after. noted run after \<longrightarrow> noted run' after)"

definition is_init :: "ClassFile \<Rightarrow> code_editor \<Rightarrow> u4 \<Rightarrow> bool" where
  "is_init cf ed after \<longleftrightarrow>
     (\<exists>i w. joined cf ed i w \<and> initializes_this cf (node_at ed i) w \<and> after = offset_after (node_at ed i))"

definition run_sound :: "ClassFile \<Rightarrow> code_editor \<Rightarrow> trace_run \<Rightarrow> bool" where
  "run_sound cf ed run \<longleftrightarrow>
     (\<forall>i < n_states run. reached (tr_states run ! i) \<longrightarrow> joined cf ed i (state_work ed (tr_states run ! i))) \<and>
     (tr_found run \<longrightarrow> is_init cf ed (tr_found_offset run)) \<and>
     (tr_ambiguous run \<longrightarrow> tr_found run \<and> (\<exists>after. is_init cf ed after \<and> after \<noteq> tr_found_offset run))"

definition run_complete :: "ClassFile \<Rightarrow> code_editor \<Rightarrow> trace_run \<Rightarrow> bool" where
  "run_complete cf ed run \<longleftrightarrow>
     covers ed run 0 (initial_work ed) \<and>
     (\<forall>i < n_states run. reached (tr_states run ! i) \<longrightarrow> \<not> queued (tr_states run ! i) \<longrightarrow> processed cf ed run i)"

lemma grows_refl: "grows ed run run"
  by (simp add: grows_def)

lemma grows_trans:
  assumes "grows ed a b" "grows ed b c" "n_states b = n_states a"
  shows "grows ed a c"
  using assms unfolding grows_def by metis

lemma is_init_offsets:
  assumes "paths_agree cf ed" "code_ok ed"
  shows "is_init cf ed after \<longleftrightarrow> after \<in> init_offsets cf ed"
proof
  assume "is_init cf ed after"
  then obtain i a where a: "joined cf ed i a" "initializes_this cf (node_at ed i) a"
      "after = offset_after (node_at ed i)" by (auto simp: is_init_def)
  obtain w where w: "trace_path cf ed i w" using joined_has_path [OF a(1)] by blast
  with joined_path_agree [OF a(1) w assms] a show "after \<in> init_offsets cf ed"
    by (auto simp: init_offsets_def)
next
  assume "after \<in> init_offsets cf ed"
  then show "is_init cf ed after"
    by (auto simp: init_offsets_def is_init_def intro: joined_path)
qed

text \<open>Propagating a join of paths to its target covers it, and the target's frame stays a join of paths.\<close>

lemma propagate_joined:
  assumes shape: "run_shape ed run" and t: "t < n_states run" and w: "joined cf ed t w"
    and sound: "run_sound cf ed run" and hyps: "paths_agree cf ed" "code_ok ed" "alloc_total mem"
  shows "run_sound cf ed (propagate mem w t run) \<and> grows ed run (propagate mem w t run) \<and>
    covers ed (propagate mem w t run) t w"
proof -
  let ?st = "tr_states run ! t" and ?run = "propagate mem w t run"
  have fits: "fits ed w" using joined_frame [OF w hyps(2)] by blast
  have wf: "wf_state ed ?st" by (rule run_shape_state [OF shape t])
  have t': "t < length (tr_states run)" using t by (simp add: n_states_def)
  have st: "joined cf ed t (state_work ed ?st) \<and> same_shape (state_work ed ?st) w" if "reached ?st"
    using that sound t joined_agree [OF _ w hyps(1,2)] unfolding run_sound_def by blast
  show ?thesis
    using shape fits t refl
  proof (cases rule: propagate_cases [where mem = mem])
    case same
    then obtain st' where m: "merge_state mem ?st w = (False, st')" by (metis prod.collapse)
    have "reached ?st \<and> below w (state_work ed ?st)"
      using wf fits m
    proof (cases rule: merge_state_cases)
      case refused
      with hyps(3) st show ?thesis by (auto simp: same_shape_def split: if_splits)
    next
      case join
      with below_join2 [OF join(4)] show ?thesis by simp
    qed simp
    with same sound show ?thesis by (simp add: covers_def grows_refl)
  next
    case (changed st')
    have work: "reached st' \<and> joined cf ed t (state_work ed st') \<and> below w (state_work ed st') \<and>
        (reached ?st \<longrightarrow> below (state_work ed ?st) (state_work ed st'))"
      using wf fits changed(1)
    proof (cases rule: merge_state_cases)
      case first
      with w show ?thesis by simp
    next
      case join
      with st [OF join(1)] w below_join [OF join(4)] below_join2 [OF join(4)] show ?thesis
        by (simp add: joined_join)
    qed simp
    have nth: "tr_states ?run ! i = (if i = t then st'\<lparr>queued := True\<rparr> else tr_states run ! i)" for i
      using changed(2) t' by (simp add: nth_list_update)
    have n: "n_states ?run = n_states run" using changed(2) by (simp add: n_states_def)
    have "run_sound cf ed ?run"
      using sound work unfolding run_sound_def n changed(5-7) by (simp add: nth)
    moreover have "grows ed run ?run"
      using work unfolding grows_def noted_def changed(5-7)
      by (auto simp: nth covers_def intro: below_trans)
    ultimately show ?thesis using work by (simp add: covers_def nth)
  qed
qed

lemma propagates_joined:
  assumes "run_shape ed run" "run_sound cf ed run" "\<forall>t \<in> set ts. t < n_states run \<and> joined cf ed t w"
    and hyps: "paths_agree cf ed" "code_ok ed" "alloc_total mem"
  shows "run_sound cf ed (fold (propagate mem w) ts run) \<and> grows ed run (fold (propagate mem w) ts run) \<and>
    (\<forall>t \<in> set ts. covers ed (fold (propagate mem w) ts run) t w)"
  using assms(1-3)
proof (induction ts arbitrary: run)
  case (Cons t ts)
  let ?r = "propagate mem w t run" and ?f = "fold (propagate mem w) (t # ts) run"
  from Cons.prems have t: "t < n_states run" "joined cf ed t w" by simp_all
  have fits: "fits ed w" using joined_frame [OF t(2) hyps(2)] by blast
  note one = propagate_joined [OF Cons.prems(1) t Cons.prems(2) hyps]
  note b = propagate_bounds [OF Cons.prems(1) fits t(1), of mem]
  have IH: "run_sound cf ed ?f \<and> grows ed ?r ?f \<and> (\<forall>t \<in> set ts. covers ed ?f t w)"
    using Cons.IH [of ?r] one b Cons.prems(3) by simp
  moreover have "grows ed run ?f" using grows_trans one IH b by metis
  moreover have "covers ed ?f t w" using IH one b t(1) unfolding grows_def by metis
  ultimately show ?case by simp
qed (simp add: grows_refl)

lemma grows_processed:
  assumes g: "grows ed run run'" and i: "i < n_states run" "processed cf ed run i"
    and same: "state_work ed (tr_states run' ! i) = state_work ed (tr_states run ! i)"
    and n: "n_states run = length (il_items (ed_instructions ed))" "code_ok ed"
  shows "processed cf ed run' i"
proof -
  have "\<forall>t \<in> set (successors (ed_instructions ed) i terminal). t < n_states run" for terminal
    using n successors_less [of "ed_instructions ed" _ i terminal] by (auto simp: code_ok_def)
  with g i(2) show ?thesis
    unfolding processed_def same grows_def Let_def by (auto split: if_splits)
qed

lemma note_call_noted: "noted (note_call after run) after" "noted run a \<Longrightarrow> noted (note_call after run) a"
  by (auto simp: noted_def note_call_def)

lemma note_call_states [simp]: "tr_states (note_call after run) = tr_states run"
  by (simp add: note_call_def)

lemma n_states_note_call [simp]: "n_states (note_call after run) = n_states run"
  by (simp add: n_states_def)

text \<open>Whatever the iteration does to the popped run, the others stay processed and the popped one becomes so.\<close>

lemma complete_after:
  assumes complete: "run_complete cf ed run" and i: "i < n_states run"
    and run1: "tr_states run1 = (tr_states run)[i := (tr_states run ! i)\<lparr>queued := False\<rparr>]"
      "noted run1 = noted run"
    and g: "grows ed run1 run'" and own: "\<not> queued (tr_states run' ! i) \<Longrightarrow> processed cf ed run' i"
    and n: "n_states run = length (il_items (ed_instructions ed))" "n_states run' = n_states run" "code_ok ed"
  shows "run_complete cf ed run'"
proof -
  have nth: "tr_states run1 ! j = (if j = i then (tr_states run ! i)\<lparr>queued := False\<rparr> else tr_states run ! j)" for j
    using i by (simp add: run1 n_states_def nth_list_update)
  have n1: "n_states run1 = n_states run" by (simp add: n_states_def run1)
  have covers1: "covers ed run1 j w = covers ed run j w" for j w
    by (simp add: covers_def nth)
  have "processed cf ed run1 j = processed cf ed run j" for j
    unfolding processed_def covers1 run1(2) Let_def by (simp add: nth)
  then have old: "processed cf ed run1 j"
    if "j < n_states run" "j \<noteq> i" "reached (tr_states run ! j)" "\<not> queued (tr_states run ! j)" for j
    using complete that unfolding run_complete_def by blast
  have "0 < n_states run" using i by simp
  then have "covers ed run' 0 (initial_work ed)"
    using complete g covers1 n1 unfolding run_complete_def grows_def by metis
  moreover have "processed cf ed run' j"
    if j: "j < n_states run" "reached (tr_states run' ! j)" "\<not> queued (tr_states run' ! j)" for j
  proof (cases "j = i")
    case True
    with own j show ?thesis by simp
  next
    case False
    have same: "tr_states run' ! j = tr_states run1 ! j"
      using g j n1 unfolding grows_def by auto
    with False j nth have "reached (tr_states run ! j)" "\<not> queued (tr_states run ! j)" by simp_all
    from grows_processed [OF g _ old [OF j(1) False this]] j(1) n n1 same show ?thesis by simp
  qed
  ultimately show ?thesis by (simp add: run_complete_def n(2))
qed

lemma trace_body_sound_complete:
  assumes shape: "run_shape ed run" and n: "n_states run = length (il_items (ed_instructions ed))"
    and pending: "ring_pending (tr_queue run) \<noteq> 0"
    and sound: "run_sound cf ed run" and complete: "run_complete cf ed run"
    and hyps: "paths_agree cf ed" "code_ok ed" "alloc_total mem"
  shows "run_sound cf ed (trace_body mem cf ed run) \<and> run_complete cf ed (trace_body mem cf ed run)"
proof -
  obtain i run1 where pop: "popped run = (i, run1)" by fastforce
  note p = popped_shape [OF shape pending pop]
  then have i: "i < n_states run" and shape1: "run_shape ed run1" and n1: "n_states run1 = n_states run"
    and run1: "tr_states run1 = (tr_states run)[i := (tr_states run ! i)\<lparr>queued := False\<rparr>]"
      "tr_found run1 = tr_found run" "tr_ambiguous run1 = tr_ambiguous run"
      "tr_found_offset run1 = tr_found_offset run"
    and reached: "reached (tr_states run1 ! i)" by blast+
  have noted1: "noted run1 = noted run" by (rule ext) (simp add: noted_def run1)
  have i': "i < length (tr_states run)" using i by (simp add: n_states_def)
  have sound1: "run_sound cf ed run1"
    using sound i' unfolding run_sound_def n1 run1 by (simp add: nth_list_update)
  let ?node = "node_at ed i" and ?w = "state_work ed (tr_states run1 ! i)"
  have w: "joined cf ed i ?w" using sound1 reached i n1 by (simp add: run_sound_def)
  note after = complete_after [OF complete i run1(1) noted1 _ _ n _ hyps(2)]
  note body = trace_body_popped [OF pop i, of mem cf ed, unfolded Let_def]
  show ?thesis
  proof (cases "initializes_this cf ?node ?w")
    case True
    define run' where "run' = note_call (offset_after ?node) run1"
    have init: "is_init cf ed (offset_after ?node)" using w True by (auto simp: is_init_def)
    have g: "grows ed run1 run'"
      by (simp add: grows_def run'_def covers_def note_call_noted)
    have "processed cf ed run' i"
      using True by (simp add: processed_def run'_def note_call_noted)
    with g n1 have "run_complete cf ed run'" by (intro after) (simp_all add: run'_def)
    moreover have "run_sound cf ed run'"
      using sound1 init unfolding run_sound_def run'_def
      by (auto simp: note_call_def n_states_def)
    ultimately show ?thesis using True by (simp add: body run'_def)
  next
    case False
    show ?thesis
    proof (cases "execute cf ?node ?w")
      case None
      with False have "processed cf ed run1 i" by (simp add: processed_def)
      with n1 have "run_complete cf ed run1" by (intro after grows_refl) simp_all
      with False None sound1 show ?thesis by (simp add: body)
    next
      case (Some wt)
      obtain w' terminal where wt: "wt = (w', terminal)" by fastforce
      let ?ts = "successors (ed_instructions ed) i terminal"
      define run' where "run' = fold (propagate mem w') ?ts run1"
      have ts: "\<forall>t \<in> set ?ts. t < n_states run1 \<and> joined cf ed t w'"
        using joined_step [OF w False _ _ hyps(1,2)] Some wt successors_less n n1 hyps(2)
        by (auto simp: code_ok_def)
      note props = propagates_joined [OF shape1 sound1 ts hyps, folded run'_def]
      have "fits ed ?w" using joined_frame [OF w hyps(2)] by blast
      with Some wt have fits: "fits ed w'" by (blast intro: fits_execute)
      have n': "n_states run' = n_states run"
        using propagates_bounds [OF shape1 fits, of ?ts mem] ts n1 by (simp add: run'_def)
      have "processed cf ed run' i" if "\<not> queued (tr_states run' ! i)"
      proof -
        have "tr_states run' ! i = tr_states run1 ! i"
          using props that i n1 unfolding grows_def by auto
        with False Some wt props show ?thesis by (simp add: processed_def)
      qed
      with props n' have "run_complete cf ed run'" by (intro after) simp_all
      with props False Some wt show ?thesis by (simp add: body run'_def)
    qed
  qed
qed

section \<open>The start and the end of the loop\<close>

lemma merge_entry:
  assumes "merge_state mem trace_state_zero (initial_work ed) = (True, entry)"
  shows "state_work ed entry = initial_work ed \<and> reached entry \<and> wf_state ed entry"
proof -
  have "wf_state ed trace_state_zero" by (simp add: wf_state_def trace_state_zero_def)
  from this fits_initial assms have "state_work ed entry = initial_work ed \<and> reached entry"
    by (cases rule: merge_state_cases) (simp_all add: trace_state_zero_def)
  with fits_initial [of ed] show ?thesis by (simp add: wf_state_def fits_def)
qed

lemma nth_initial:
  "i < n \<Longrightarrow> tr_states (initial_run n entry) ! i = (if i = 0 then entry\<lparr>queued := True\<rparr> else trace_state_zero)"
  by (cases i) (simp_all add: initial_run_def)

lemma initial_run_shape:
  assumes "0 < n" "merge_state mem trace_state_zero (initial_work ed) = (True, entry)"
  shows "run_shape ed (initial_run n entry) \<and> n_states (initial_run n entry) = n"
proof -
  let ?run = "initial_run n entry"
  have len: "length (tr_states ?run) = n" by (simp add: initial_run_def)
  have Q: "{i. i < n \<and> queued (tr_states ?run ! i)} = {0}"
    using assms(1) by (auto simp: nth_initial trace_state_zero_def split: if_splits)
  have cells: "ring_contents (tr_queue ?run) = [0]" "ring_inv (tr_queue ?run)" "length (ring_cells (tr_queue ?run)) = n"
    using assms(1) by (auto simp: initial_run_def ring_contents_def ring_inv_def)
  have "ring.holds (tr_queue ?run) n {0}"
    using cells assms(1) by (simp add: ring.holds_def)
  with merge_entry [OF assms(2)] show ?thesis
    by (auto simp: run_shape_def n_states_def len Q list_all_length nth_initial wf_state_def trace_state_zero_def)
qed

lemma initial_run_sound_complete:
  assumes "0 < n" "merge_state mem trace_state_zero (initial_work ed) = (True, entry)"
  shows "run_sound cf ed (initial_run n entry) \<and> run_complete cf ed (initial_run n entry)"
proof -
  note e = merge_entry [OF assms(2)] and shape = initial_run_shape [OF assms]
  have flags: "\<not> tr_found (initial_run n entry)" "\<not> tr_ambiguous (initial_run n entry)"
    by (simp_all add: initial_run_def)
  show ?thesis
    using e assms(1) shape flags
    by (auto simp: run_sound_def run_complete_def nth_initial covers_def trace_state_zero_def
        intro: joined_path path_entry)
qed

lemma complete_covers:
  assumes path: "trace_path cf ed i w" and pending: "ring_pending (tr_queue run) = 0"
    and shape: "run_shape ed run" and n: "n_states run = length (il_items (ed_instructions ed))"
    and sound: "run_sound cf ed run" and complete: "run_complete cf ed run"
    and hyps: "paths_agree cf ed" "code_ok ed"
  shows "covers ed run i w \<and> processed cf ed run i \<and>
    initializes_this cf (node_at ed i) (state_work ed (tr_states run ! i)) = initializes_this cf (node_at ed i) w"
proof -
  have "ring_contents (tr_queue run) = []" using pending by (simp add: ring_contents_def)
  then have idle: "\<not> queued (tr_states run ! j)" if "j < n_states run" for j
    using shape that by (auto simp: run_shape_def ring.holds_def n_states_def)
  have settled: "processed cf ed run j \<and>
      initializes_this cf (node_at ed j) (state_work ed (tr_states run ! j)) = initializes_this cf (node_at ed j) v"
    if v: "trace_path cf ed j v" "covers ed run j v" for j v
  proof -
    have j: "j < n_states run" using path_frame [OF v(1) hyps(2)] n by simp
    have r: "reached (tr_states run ! j)" using v(2) by (simp add: covers_def)
    with sound j have "joined cf ed j (state_work ed (tr_states run ! j))" by (simp add: run_sound_def)
    with joined_path_agree [OF this v(1) hyps] complete j r idle show ?thesis
      by (simp add: run_complete_def)
  qed
  from path have "covers ed run i w"
  proof (induction rule: trace_path.induct)
    case path_entry
    with complete show ?case by (simp add: run_complete_def)
  next
    case (path_step i w w' terminal t)
    let ?s = "state_work ed (tr_states run ! i)"
    note s = settled [OF path_step.hyps(1) path_step.IH]
    have b: "below w ?s" using path_step.IH by (simp add: covers_def)
    have wf: "wf_work w" using path_frame [OF path_step.hyps(1) hyps(2)] by (simp add: fits_def)
    note ex = execute_terminal [OF path_step.hyps(3)]
    note op = trace_op_execute_work [of cf "node_at ed i"]
    have "execute_work cf (node_at ed i) ?s \<noteq> None"
      using trace_op_none [OF op wf, of ?s] b ex by (simp add: below_def)
    then obtain s' where s': "execute_work cf (node_at ed i) ?s = Some s'" by blast
    have "below w' s'"
      using trace_op_join [OF op wf, of ?s] trace_op_shape [OF op wf _ _ s'] b ex s'
      by (auto simp: below_def)
    moreover have "covers ed run t s'"
      using s path_step.hyps(2,4) execute_Some [OF s'] ex unfolding processed_def Let_def by auto
    ultimately show ?case using below_trans by (auto simp: covers_def)
  qed
  with settled [OF path] show ?thesis by blast
qed

text \<open>The report that a set of offsets calls for.\<close>

definition init_report :: "u4 set \<Rightarrow> constructor_init_result \<times> u4 option" where
  "init_report S =
     (if S = {} then (CONSTRUCTOR_INIT_MISSING, None)
      else if is_singleton S then (CONSTRUCTOR_INIT_FOUND, Some (the_elem S))
      else (CONSTRUCTOR_INIT_AMBIGUOUS, None))"

lemma run_result_report:
  assumes "ring_pending (tr_queue run) = 0" "run_shape ed run"
    and "n_states run = length (il_items (ed_instructions ed))"
    and sound: "run_sound cf ed run" and "run_complete cf ed run"
    and hyps: "paths_agree cf ed" "code_ok ed"
  shows "run_result run = init_report (init_offsets cf ed)"
proof -
  have all: "noted run a" if "a \<in> init_offsets cf ed" for a
    using that complete_covers [OF _ assms] by (auto simp: init_offsets_def processed_def Let_def)
  have fnd: "tr_found run \<Longrightarrow> tr_found_offset run \<in> init_offsets cf ed"
    and amb: "tr_ambiguous run \<Longrightarrow> tr_found run \<and> (\<exists>a \<in> init_offsets cf ed. a \<noteq> tr_found_offset run)"
    using sound unfolding run_sound_def is_init_offsets [OF hyps] by blast+
  consider (missing) "\<not> tr_found run" | (ambiguous) "tr_ambiguous run"
    | (found) "tr_found run" "\<not> tr_ambiguous run" by blast
  then show ?thesis
  proof cases
    case missing
    with all have "init_offsets cf ed = {}" by (auto simp: noted_def)
    with missing amb show ?thesis by (auto simp: run_result_def init_report_def)
  next
    case ambiguous
    with amb fnd obtain a where "a \<in> init_offsets cf ed" "tr_found_offset run \<in> init_offsets cf ed"
        "a \<noteq> tr_found_offset run" by blast
    then have "init_offsets cf ed \<noteq> {}" "\<not> is_singleton (init_offsets cf ed)"
      by (auto elim!: is_singletonE)
    with ambiguous show ?thesis by (simp add: run_result_def init_report_def)
  next
    case 3: found
    with all fnd have "init_offsets cf ed = {tr_found_offset run}" unfolding noted_def by blast
    with 3 show ?thesis by (simp add: run_result_def init_report_def)
  qed
qed

section \<open>Properties\<close>

text \<open>
  C15: the analysis always returns: for any instructions, any allocator and any constant pool the work
  list runs empty.\<close>

theorem constructor_init_terminates:
  assumes "length (il_items (ed_instructions ed)) < 2 ^ 32"
  shows "\<exists>r. constructor_init_offset mem cf ed = Some r"
proof -
  let ?n = "unat (il_count (ed_instructions ed))"
  have n: "?n = length (il_items (ed_instructions ed))" using assms by (simp add: il_count_def)
  have "\<exists>run. trace_loop mem cf ed (initial_run ?n entry) = Some run"
    if "0 < ?n" "merge_state mem trace_state_zero (initial_work ed) = (True, entry)" for entry
    using trace_loop_rule [of ed "initial_run ?n entry" "\<lambda>_. True" mem cf] initial_run_shape [OF that] n assms
    by auto
  then show ?thesis
    by (auto simp: constructor_init_offset_def Let_def split: prod.split bool.split)
qed

text \<open>
  C14: on code whose paths agree, the report is the one that the set of all paths calls for: missing when
  no path initialises \<open>this\<close>, the common offset when all initialising calls end at the same one,
  ambiguous when they do not.\<close>

theorem constructor_init_correct:
  assumes "code_ok ed" "paths_agree cf ed" "alloc_total mem"
  shows "constructor_init_offset mem cf ed = Some (init_report (init_offsets cf ed))"
proof -
  let ?n = "unat (il_count (ed_instructions ed))"
  have n: "?n = length (il_items (ed_instructions ed))" "0 < ?n" "?n < 2 ^ 32"
    using assms(1) by (auto simp: code_ok_def il_count_def)
  obtain entry where e: "merge_state mem trace_state_zero (initial_work ed) = (True, entry)"
    using assms(3) by (auto simp: merge_state_def trace_state_zero_def alloc_total_def)
  let ?run = "initial_run ?n entry" and ?I = "\<lambda>run. run_sound cf ed run \<and> run_complete cf ed run"
  note start = initial_run_shape [OF n(2) e] initial_run_sound_complete [OF n(2) e, of cf]
  obtain run where run: "trace_loop mem cf ed ?run = Some run" "run_shape ed run" "n_states run = ?n"
      "ring_pending (tr_queue run) = 0" "?I run"
    using trace_loop_rule [of ed ?run ?I mem cf] start n
      trace_body_sound_complete [OF _ _ _ _ _ assms(2,1,3)] by auto
  with run_result_report [OF run(4,2)] n(1) assms(1,2) have
    "run_result run = init_report (init_offsets cf ed)" by simp
  with run(1) e assms n show ?thesis
    by (simp add: constructor_init_offset_def Let_def alloc_total_def code_ok_def)
qed

subsection \<open>A constructor that calls its superclass\<close>

definition sample_class :: ClassFile where
  "sample_class =
     \<lparr>minor_version = 0, major_version = 52,
      cf_pool = \<lparr>pool_entries =
        [CP_None, CP_Utf8 (cstr ''<init>''), CP_Utf8 (cstr ''()V''), CP_NameAndType 1 2,
         CP_Class 5, CP_Utf8 (cstr ''B''), CP_Methodref 4 3, CP_Class 8, CP_Utf8 (cstr ''A'')],
        pool_count = 9\<rparr>,
      cf_access_flags = 0, this_class = 7, super_class = 4, cf_interfaces = vec_init,
      cf_fields = vec_init, cf_methods = vec_init, cf_attributes = vec_init\<rparr>"

definition sample_constructor :: code_editor where
  "sample_constructor = code_editor_init
     \<lparr>ed_max_stack := 1, ed_max_locals := 1,
      ed_instructions := \<lparr>il_items =
        [\<lparr>ins_offset = 0, ins_opcode = JVM_OPC_aload_0, ins_wide = False, ins_u = Op_None\<rparr>,
         \<lparr>ins_offset = 1, ins_opcode = JVM_OPC_invokespecial, ins_wide = False, ins_u = Op_CpIndex 6\<rparr>,
         \<lparr>ins_offset = 4, ins_opcode = JVM_OPC_return, ins_wide = False, ins_u = Op_None\<rparr>],
        il_capacity = 3, il_code_length = 5\<rparr>\<rparr>"

definition sample_entry :: trace_work where
  "sample_entry = \<lparr>w_locals = [TRACE_THIS], w_stack = [], w_max_locals = 1, w_max_stack = 1\<rparr>"

definition sample_call :: trace_work where
  "sample_call = \<lparr>w_locals = [TRACE_THIS], w_stack = [TRACE_THIS], w_max_locals = 1, w_max_stack = 1\<rparr>"

lemma sample_facts:
  "initial_work sample_constructor = sample_entry"
  "initializes_this sample_class (node_at sample_constructor 0) sample_entry = False"
  "execute sample_class (node_at sample_constructor 0) sample_entry = Some (sample_call, False)"
  "successors (ed_instructions sample_constructor) 0 False = [Suc 0]"
  "initializes_this sample_class (node_at sample_constructor (Suc 0)) sample_call = True"
  "offset_after (node_at sample_constructor (Suc 0)) = 4"
  by code_simp+

lemma sample_code_ok: "code_ok sample_constructor"
  by (simp add: code_ok_def sample_constructor_def)

lemma sample_path:
  "trace_path sample_class sample_constructor i w \<Longrightarrow>
   i = 0 \<and> w = sample_entry \<or> i = Suc 0 \<and> w = sample_call"
  by (induction rule: trace_path.induct) (auto simp: sample_facts)

lemma sample_path_call: "trace_path sample_class sample_constructor (Suc 0) sample_call"
  by (rule path_step [OF path_entry, where terminal = False]) (simp_all add: sample_facts)

theorem constructor_init_correct_witness:
  "constructor_init_offset heap_ok sample_class sample_constructor = Some (CONSTRUCTOR_INIT_FOUND, Some 4)"
proof -
  have "paths_agree sample_class sample_constructor"
    using sample_path unfolding paths_agree_def by (metis n_not_Suc_n)
  note report = constructor_init_correct [OF sample_code_ok this alloc_total_heap_ok]
  have "init_offsets sample_class sample_constructor = {4}"
  proof (intro equalityI subsetI)
    fix a assume "a \<in> init_offsets sample_class sample_constructor"
    then obtain i w where iw: "trace_path sample_class sample_constructor i w"
        "initializes_this sample_class (node_at sample_constructor i) w"
        "a = offset_after (node_at sample_constructor i)" by (auto simp: init_offsets_def)
    from sample_path [OF iw(1)] iw(2,3) show "a \<in> {4}" by (auto simp: sample_facts)
  next
    fix a :: u4 assume "a \<in> {4}"
    with sample_path_call sample_facts(5,6) show "a \<in> init_offsets sample_class sample_constructor"
      unfolding init_offsets_def by (metis (mono_tags, lifting) mem_Collect_eq singletonD)
  qed
  with report show ?thesis by (simp add: init_report_def)
qed

theorem constructor_init_terminates_witness:
  "\<exists>r. constructor_init_offset (\<lambda>_ _. False) sample_class sample_constructor = Some r"
  by (rule constructor_init_terminates) (simp add: sample_constructor_def)

subsection \<open>A constructor that passes an array of long on\<close>

text \<open>
  \<open>descriptor_slots\<close> counts two slots for a parameter of type \<open>long[]\<close>, so the analysis looks for \<open>this\<close>
  one slot too deep and misses the call.
\<close>

definition long_array_class :: ClassFile where
  "long_array_class = sample_class\<lparr>cf_pool := \<lparr>pool_entries =
     (pool_entries (cf_pool sample_class))[2 := CP_Utf8 (cstr ''([J)V'')], pool_count = 9\<rparr>\<rparr>"

definition long_array_constructor :: code_editor where
  "long_array_constructor = code_editor_init
     \<lparr>ed_max_stack := 2, ed_max_locals := 2,
      ed_instructions := \<lparr>il_items =
        [\<lparr>ins_offset = 0, ins_opcode = JVM_OPC_aload_0, ins_wide = False, ins_u = Op_None\<rparr>,
         \<lparr>ins_offset = 1, ins_opcode = JVM_OPC_aload_0 + 1, ins_wide = False, ins_u = Op_None\<rparr>,
         \<lparr>ins_offset = 2, ins_opcode = JVM_OPC_invokespecial, ins_wide = False, ins_u = Op_CpIndex 6\<rparr>,
         \<lparr>ins_offset = 5, ins_opcode = JVM_OPC_return, ins_wide = False, ins_u = Op_None\<rparr>],
        il_capacity = 4, il_code_length = 6\<rparr>\<rparr>"

lemma long_array_super_call_missed:
  "constructor_init_offset heap_ok long_array_class long_array_constructor =
     Some (CONSTRUCTOR_INIT_MISSING, None)"
  by code_simp

end
