(* ===== verification/Code_Insert.thy ===== *)
theory Code_Insert
  imports Code_Editor
begin

text \<open>
  What \<^verbatim>\<open>code_editor_insert\<close> does to the references of a Code attribute. Offsets
  and instruction indices are two views of the same positions; the locale states the
  laws of the conversion, and the interpretation proves them for the
  linear searches of the source on a list that is laid out without gaps.
\<close>

section \<open>Positions\<close>

locale code_positions =
  fixes to_index :: "'l \<Rightarrow> i4 \<Rightarrow> i4"
    and to_offset :: "'l \<Rightarrow> i4 \<Rightarrow> i4"
    and len :: "'l \<Rightarrow> nat"
    and good :: "'l \<Rightarrow> bool"
  assumes index_of_offset: "good l \<Longrightarrow> 0 \<le> k \<Longrightarrow> k \<le> int (len l) \<Longrightarrow> to_index l (to_offset l k) = k"
    and offset_of_index: "good l \<Longrightarrow> i4_range v \<Longrightarrow> 0 \<le> to_index l v \<Longrightarrow> to_offset l (to_index l v) = v"
    and index_bound: "good l \<Longrightarrow> to_index l v \<le> int (len l)"
    and offset_bound: "good l \<Longrightarrow> 0 \<le> k \<Longrightarrow> k \<le> int (len l) \<Longrightarrow>
          0 \<le> to_offset l k \<and> to_offset l k \<le> 65535"
    and offset_strict: "good l \<Longrightarrow> 0 \<le> j \<Longrightarrow> j < k \<Longrightarrow> k \<le> int (len l) \<Longrightarrow> to_offset l j < to_offset l k"
begin

lemma index_mono:
  assumes "good l" "i4_range v" "i4_range w" "0 \<le> to_index l v" "0 \<le> to_index l w" "v \<le> w"
  shows "to_index l v \<le> to_index l w"
proof (rule ccontr)
  assume "\<not> ?thesis"
  then have "to_offset l (to_index l w) < to_offset l (to_index l v)"
    using offset_strict [OF assms(1)] assms(5) index_bound [OF assms(1)] by simp
  with offset_of_index assms show False by simp
qed

lemma moved_index:
  assumes "good l'" "0 \<le> sh (to_index l v)" "sh (to_index l v) \<le> int (len l')"
  shows "to_index l' (to_offset l' (sh (to_index l v))) = sh (to_index l v)"
  using index_of_offset assms by blast

end

lemma enc_ins_nonempty: "0 < length (enc_ins n)"
  by (simp add: enc_ins_def enc_opcode_def)

definition good_list :: "instruction_list \<Rightarrow> bool" where
  "good_list l \<longleftrightarrow> laid_out 0 (il_items l) \<and>
     il_code_length l = of_nat (length (enc_list (il_items l))) \<and>
     length (enc_list (il_items l)) \<le> JVM_MAX_CODE_LENGTH"

abbreviation position :: "instruction list \<Rightarrow> nat \<Rightarrow> nat" where
  "position xs k \<equiv> length (enc_list (take k xs))"

lemma laid_out_nth: "laid_out p xs \<Longrightarrow> k < length xs \<Longrightarrow> ins_offset (xs ! k) = of_nat (p + position xs k)"
proof (induction xs arbitrary: p k)
  case (Cons x xs)
  then show ?case by (cases k) (auto simp: add.assoc)
qed simp

lemma position_strict: "j < k \<Longrightarrow> k \<le> length xs \<Longrightarrow> position xs j < position xs k"
proof (induction xs arbitrary: j k)
  case (Cons x xs)
  show ?case
  proof (cases j)
    case 0
    with Cons.prems enc_ins_nonempty [of x] show ?thesis by (cases k) auto
  next
    case (Suc j')
    with Cons.prems obtain k' where "k = Suc k'" by (cases k) auto
    with Suc Cons show ?thesis by simp
  qed
qed simp

lemma position_le: "position xs k \<le> length (enc_list xs)"
  by (metis append_take_drop_id enc_list_append le_add1 length_append)

lemma length_le_enc: "length xs \<le> length (enc_list xs)"
proof (induction xs)
  case (Cons x xs)
  with enc_ins_nonempty [of x] show ?case by (simp only: length_Cons enc_list_simps length_append)
qed simp

lemma find_index_unique:
  assumes "k < length xs" "P (xs ! k)" "\<And>j. j < k \<Longrightarrow> \<not> P (xs ! j)"
  shows "find_index P xs = Some k"
  using assms
proof (induction xs arbitrary: k)
  case (Cons x xs)
  show ?case
  proof (cases k)
    case 0
    with Cons.prems show ?thesis by simp
  next
    case (Suc k')
    have "\<not> P x" using Cons.prems(3) [of 0] Suc by simp
    moreover have "find_index P xs = Some k'"
      using Cons.IH [of k'] Cons.prems Suc by (metis Suc_less_eq length_Cons nth_Cons_Suc)
    ultimately show ?thesis using Suc by simp
  qed
qed simp

lemma find_index_D: "find_index P xs = Some k \<Longrightarrow> k < length xs \<and> P (xs ! k)"
  by (induction xs arbitrary: k) (auto split: if_splits)

lemma u4_eq: "m < 4294967296 \<Longrightarrow> n < 4294967296 \<Longrightarrow> (of_nat m :: u4) = of_nat n \<longleftrightarrow> m = n"
  by (metis unat_of_nat_u4)

lemma sint_of_nat_u4: "n < 2147483648 \<Longrightarrow> sint (of_nat n :: u4) = int n"
  using i4_wrap_id [of "int n"] i4_wrap_word [of "int n"] by (simp add: i4_range_def)

lemma good_list_bounds:
  assumes "good_list l"
  shows "length (il_items l) \<le> 65535" "position (il_items l) k \<le> 65535" "length (enc_list (il_items l)) \<le> 65535"
  using assms position_le [of k "il_items l"] length_le_enc [of "il_items l"]
  by (simp_all add: good_list_def JVM_MAX_CODE_LENGTH_def)

lemma index_to_offset_position:
  assumes "good_list l" "k \<le> length (il_items l)"
  shows "index_to_offset l (int k) = int (position (il_items l) k)"
proof (cases "k = length (il_items l)")
  case True
  with good_list_bounds [OF assms(1)] assms(1) show ?thesis
    by (simp add: index_to_offset_def il_count_def good_list_def sint_of_nat_u4)
next
  case False
  with assms(2) have k: "k < length (il_items l)" by simp
  have "\<not> (of_nat k :: u4) \<ge> of_nat (length (il_items l))"
    using k good_list_bounds(1) [OF assms(1)] by (simp add: word_le_nat_alt)
  moreover have "ins_offset (il_items l ! k) = of_nat (position (il_items l) k)"
    using laid_out_nth [of 0 "il_items l" k] k assms(1) by (simp add: good_list_def)
  ultimately show ?thesis
    using good_list_bounds(2) [OF assms(1), of k]
    by (simp add: index_to_offset_def il_count_def sint_of_nat_u4)
qed

lemma offset_to_index_position:
  assumes "good_list l" "k \<le> length (il_items l)"
  shows "offset_to_index l (int (position (il_items l) k)) = int k"
proof (cases "k = length (il_items l)")
  case True
  with good_list_bounds [OF assms(1)] assms(1) show ?thesis
    by (simp add: offset_to_index_def il_count_def good_list_def sint_of_nat_u4)
next
  case False
  with assms(2) have k: "k < length (il_items l)" by simp
  note b = good_list_bounds [OF assms(1)]
  have o: "ins_offset (il_items l ! j) = of_nat (position (il_items l) j)" if "j < length (il_items l)" for j
    using laid_out_nth [of 0 "il_items l" j] that assms(1) by (simp add: good_list_def)
  have "(of_nat (position (il_items l) k) :: u4) \<noteq> of_nat (length (enc_list (il_items l)))"
    using position_strict [of k "length (il_items l)" "il_items l"] k b(2) [of k] b(3) by (subst u4_eq) auto
  moreover have "find_index (\<lambda>n. ins_offset n = of_nat (position (il_items l) k)) (il_items l) = Some k"
  proof (rule find_index_unique [OF k])
    fix j
    assume "j < k"
    with k o [of j] position_strict [of j k "il_items l"] b(2) [of j] b(2) [of k]
    show "ins_offset (il_items l ! j) \<noteq> of_nat (position (il_items l) k)" by (simp add: u4_eq)
  qed (use o [OF k] in simp)
  ultimately show ?thesis using assms(1) by (simp add: offset_to_index_def good_list_def)
qed

lemma offset_to_index_valid:
  assumes "good_list l" "i4_range v" "0 \<le> offset_to_index l v"
  shows "\<exists>k \<le> length (il_items l). v = int (position (il_items l) k)"
proof -
  note b = good_list_bounds [OF assms(1)]
  have v: "0 \<le> v" "nat v < 4294967296" "of_int v = (of_nat (nat v) :: u4)"
    using assms(2,3) by (auto simp: offset_to_index_def i4_range_def split: if_splits)
  show ?thesis
  proof (cases "of_int v = il_code_length l")
    case True
    then have "(of_nat (nat v) :: u4) = of_nat (length (enc_list (il_items l)))"
      using assms(1) v(3) by (simp add: good_list_def)
    with v b(3) have "nat v = length (enc_list (il_items l))" by (subst (asm) u4_eq) auto
    with v(1) show ?thesis by (intro exI [of _ "length (il_items l)"]) simp
  next
    case False
    with assms(3) v(1) obtain k where k: "find_index (\<lambda>n. ins_offset n = of_int v) (il_items l) = Some k"
      by (auto simp: offset_to_index_def split: option.splits)
    from find_index_D [OF this] laid_out_nth [of 0 "il_items l" k] assms(1) v(3)
    have "k < length (il_items l)" "(of_nat (nat v) :: u4) = of_nat (position (il_items l) k)"
      by (auto simp: good_list_def)
    with v b(2) [of k] have "nat v = position (il_items l) k" by (subst (asm) u4_eq) auto
    with v(1) \<open>k < _\<close> show ?thesis by (intro exI [of _ k]) simp
  qed
qed

interpretation positions: code_positions offset_to_index index_to_offset "\<lambda>l. length (il_items l)" good_list
proof
  fix l and k :: i4
  assume l: "good_list l" and k: "0 \<le> k" "k \<le> int (length (il_items l))"
  then show "offset_to_index l (index_to_offset l k) = k"
    using index_to_offset_position [OF l, of "nat k"] offset_to_index_position [OF l, of "nat k"] by simp
next
  fix l v
  assume l: "good_list l" and v: "i4_range v" "0 \<le> offset_to_index l v"
  from offset_to_index_valid [OF l v] obtain k where "k \<le> length (il_items l)" "v = int (position (il_items l) k)"
    by blast
  with l show "index_to_offset l (offset_to_index l v) = v"
    by (simp add: offset_to_index_position index_to_offset_position)
next
  fix l v
  assume l: "good_list l"
  show "offset_to_index l v \<le> int (length (il_items l))"
    using good_list_bounds(1) [OF l]
    by (auto simp: offset_to_index_def il_count_def sint_of_nat_u4 split: option.splits dest: find_index_D)
next
  fix l and k :: i4
  assume l: "good_list l" and k: "0 \<le> k" "k \<le> int (length (il_items l))"
  then show "0 \<le> index_to_offset l k \<and> index_to_offset l k \<le> 65535"
    using index_to_offset_position [OF l, of "nat k"] good_list_bounds(2) [OF l, of "nat k"] by simp
next
  fix l and j k :: i4
  assume l: "good_list l" and jk: "0 \<le> j" "j < k" "k \<le> int (length (il_items l))"
  then show "index_to_offset l j < index_to_offset l k"
    using index_to_offset_position [OF l, of "nat j"] index_to_offset_position [OF l, of "nat k"]
      position_strict [of "nat j" "nat k" "il_items l"] by simp
qed


section \<open>Rewriting references\<close>

lemma map_prefix_simps [simp]:
  "length (map_prefix k f xs) = length xs"
  "take k (map_prefix k f xs) = map f (take k xs)"
  "map_prefix k f (map_prefix k g xs) = map_prefix k (\<lambda>x. f (g x)) xs"
  by (cases "k \<le> length xs"; simp add: map_prefix_def)+

lemma map_prefix_cong: "(\<And>x. x \<in> set (take k xs) \<Longrightarrow> f x = g x) \<Longrightarrow> map_prefix k f xs = map_prefix k g xs"
  by (simp add: map_prefix_def)

lemma switch_entries_rewrite [simp]:
  "instruction_switch_entries (rewrite_instruction f n) = instruction_switch_entries n"
  by (cases "ins_u n") (auto simp: instruction_switch_entries_def rewrite_instruction_def)

lemma rewrite_instruction_simps [simp]:
  "ins_offset (rewrite_instruction f n) = ins_offset n" "ins_opcode (rewrite_instruction f n) = ins_opcode n"
  "ins_wide (rewrite_instruction f n) = ins_wide n" "ins_kind (rewrite_instruction f n) = ins_kind n"
  by (simp_all add: rewrite_instruction_def, cases "ins_u n") auto

lemma switch_entries_offset [simp]:
  "instruction_switch_entries (n\<lparr>ins_offset := x\<rparr>) = instruction_switch_entries n"
  by (simp add: instruction_switch_entries_def)

lemma rewrite_instruction_offset:
  "rewrite_instruction f (n\<lparr>ins_offset := x\<rparr>) = (rewrite_instruction f n)\<lparr>ins_offset := x\<rparr>"
  by (simp add: rewrite_instruction_def)

lemma rewrite_operand_comp: "rewrite_operand f k (rewrite_operand g k u) = rewrite_operand (\<lambda>v. f (g v)) k u"
  by (cases u) auto

lemma operand_refs_rewrite: "operand_refs k (rewrite_operand f k u) = map f (operand_refs k u)"
  by (cases u) auto

lemma rewrite_operand_cong: "(\<And>v. v \<in> set (operand_refs k u) \<Longrightarrow> f v = g v) \<Longrightarrow> rewrite_operand f k u = rewrite_operand g k u"
  by (cases u) (auto intro!: map_prefix_cong)

lemma rewrite_instruction_comp:
  "rewrite_instruction f (rewrite_instruction g n) = rewrite_instruction (\<lambda>v. f (g v)) n"
  by (simp add: rewrite_instruction_def [of f "rewrite_instruction g n"])
     (simp add: rewrite_instruction_def rewrite_operand_comp)

lemma instruction_refs_rewrite: "instruction_refs (rewrite_instruction f n) = map f (instruction_refs n)"
  by (simp add: instruction_refs_def) (simp add: rewrite_instruction_def operand_refs_rewrite)

lemma rewrite_instruction_cong:
  "(\<And>v. v \<in> set (instruction_refs n) \<Longrightarrow> f v = g v) \<Longrightarrow> rewrite_instruction f n = rewrite_instruction g n"
  using rewrite_operand_cong [of "unat (instruction_switch_entries n)" "ins_u n" f g]
  by (simp add: rewrite_instruction_def instruction_refs_def)

lemma length_enc_rewrite [simp]: "length (enc_ins (rewrite_instruction f n)) = length (enc_ins n)"
proof -
  have "length (enc_operand opc w x (rewrite_operand f k u)) = length (enc_operand opc w y u)" for opc w x y k u
    by (cases u) (auto simp: length_concat_be4 length_concat_be8)
  then show ?thesis
    by (simp add: enc_ins_def enc_opcode_def enc_node_operand_def pad_len_def is_switch_def)
       (simp add: rewrite_instruction_def)
qed

lemma ins_shape_rewrite [simp]: "ins_shape (rewrite_instruction f n) = ins_shape n"
proof -
  show ?thesis
    by (simp add: ins_shape_def) (cases "ins_u n"; simp add: rewrite_instruction_def)
qed

lemma laid_out_rewrite [simp]: "laid_out p (map (rewrite_instruction f) xs) = laid_out p xs"
  by (induction xs arbitrary: p) auto

lemma length_enc_list_rewrite [simp]: "length (enc_list (map (rewrite_instruction f) xs)) = length (enc_list xs)"
  by (induction xs) auto


lemma rewrite_ins_references:
  "rewrite_references f g (ed\<lparr>ed_instructions := l\<rparr>) =
   (rewrite_references f g ed)\<lparr>ed_instructions := l\<lparr>il_items := map (rewrite_instruction f) (il_items l)\<rparr>\<rparr>"
  by (simp add: rewrite_references_def)

lemma narrow_comp: "0 \<le> g (uint v) \<Longrightarrow> g (uint v) \<le> 65535 \<Longrightarrow> narrow f (narrow g v) = narrow (\<lambda>x. f (g x)) v"
  by (simp add: narrow_def u2_back)

lemma narrow_cong: "f (uint v) = g (uint v) \<Longrightarrow> narrow f v = narrow g v"
  by (simp add: narrow_def)

lemma rewrite_exception_comp:
  "list_all (\<lambda>v. 0 \<le> g v \<and> g v \<le> 65535) (exception_refs e) \<Longrightarrow>
   rewrite_exception f (rewrite_exception g e) = rewrite_exception (\<lambda>x. f (g x)) e"
  by (simp add: rewrite_exception_def exception_refs_def narrow_comp)

lemma rewrite_local_comp:
  assumes "0 \<le> g (uint (lv_start_pc e))" "g (uint (lv_start_pc e)) \<le> g (local_end e)" "g (local_end e) \<le> 65535"
  shows "rewrite_local f (rewrite_local g e) = rewrite_local (\<lambda>x. f (g x)) e"
proof -
  have "uint (of_int (g (uint (lv_start_pc e))) :: u2) = g (uint (lv_start_pc e))"
    "uint (of_int (g (local_end e) - g (uint (lv_start_pc e))) :: u2) = g (local_end e) - g (uint (lv_start_pc e))"
    using assms u2_back [of "g (uint (lv_start_pc e))"] u2_back [of "g (local_end e) - g (uint (lv_start_pc e))"]
    by (simp_all del: of_int_diff)
  then show ?thesis by (simp add: rewrite_local_def local_end_def Let_def del: of_int_diff)
qed

lemma rewrite_frame_comp:
  "rewrite_frame f f' (rewrite_frame g g' fr) = rewrite_frame (\<lambda>x. f (g x)) (\<lambda>x. f' (g' x)) fr"
  by (simp add: rewrite_frame_def rewrite_type_def comp_def)

lemma rewrite_annotation_comp:
  "rewrite_annotation f f' (rewrite_annotation g g' r) = rewrite_annotation (\<lambda>x. f (g x)) (\<lambda>x. f' (g' x)) r"
  by (simp add: rewrite_annotation_def)

lemma positional_refsI:
  "n \<in> set (il_items (ed_instructions ed)) \<Longrightarrow> v \<in> set (instruction_refs n) \<Longrightarrow> v \<in> set (positional_refs ed)"
  "e \<in> set (items (ed_exceptions ed)) \<Longrightarrow> v \<in> set (exception_refs e) \<Longrightarrow> v \<in> set (positional_refs ed)"
  "ln \<in> set (line_numbers ed) \<Longrightarrow> uint (ln_start_pc ln) \<in> set (positional_refs ed)"
  "lv \<in> set (ed_locals ed) \<union> set (ed_local_types ed) \<Longrightarrow> uint (lv_start_pc lv) \<in> set (positional_refs ed)"
  "lv \<in> set (ed_locals ed) \<union> set (ed_local_types ed) \<Longrightarrow> local_end lv \<in> set (positional_refs ed)"
  "fr \<in> set (items (ed_stack_map ed)) \<Longrightarrow> frame_offset fr \<in> set (positional_refs ed)"
  "r \<in> set (items (type_annotations ed)) \<Longrightarrow> ref_kind r = TYPE_ANNOTATION_SPAN \<Longrightarrow> ref_start r \<in> set (positional_refs ed)"
  "r \<in> set (items (type_annotations ed)) \<Longrightarrow> ref_kind r = TYPE_ANNOTATION_SPAN \<Longrightarrow> ref_end r \<in> set (positional_refs ed)"
  unfolding positional_refs_def by force+

lemma identity_refsI:
  "fr \<in> set (items (ed_stack_map ed)) \<Longrightarrow> t \<in> set (frame_locals fr) \<union> set (frame_stack fr) \<Longrightarrow>
   vt_tag t = JVM_ITEM_Uninitialized \<Longrightarrow> vt_offset t \<in> set (identity_refs ed)"
  "r \<in> set (items (type_annotations ed)) \<Longrightarrow> ref_kind r \<noteq> TYPE_ANNOTATION_SPAN \<Longrightarrow> ref_start r \<in> set (identity_refs ed)"
  unfolding identity_refs_def types_refs_def by force+

text \<open>Rewriting twice is rewriting once, whatever happened to the instructions in between.\<close>

lemma rewrite_references_comp:
  assumes r: "\<And>v. v \<in> set (positional_refs ed) \<Longrightarrow> 0 \<le> g v \<and> g v \<le> 65535"
    and m: "\<And>v w. v \<in> set (positional_refs ed) \<Longrightarrow> w \<in> set (positional_refs ed) \<Longrightarrow> v \<le> w \<Longrightarrow> g v \<le> g w"
  shows "rewrite_references f f' ((rewrite_references g g' ed)\<lparr>ed_instructions := l\<rparr>) =
    (rewrite_references (\<lambda>v. f (g v)) (\<lambda>v. f' (g' v)) ed)
      \<lparr>ed_instructions := l\<lparr>il_items := map (rewrite_instruction f) (il_items l)\<rparr>\<rparr>"
proof -
  have "map (rewrite_exception f) (map (rewrite_exception g) (items (ed_exceptions ed))) =
      map (rewrite_exception (\<lambda>v. f (g v))) (items (ed_exceptions ed))"
    using r positional_refsI(2) by (auto simp: list_all_iff intro!: rewrite_exception_comp)
  moreover have "map (rewrite_line_number f) (map (rewrite_line_number g) (line_numbers ed)) =
      map (rewrite_line_number (\<lambda>v. f (g v))) (line_numbers ed)"
    using r positional_refsI(3) by (auto simp: rewrite_line_number_def narrow_comp)
  moreover have "rewrite_local f (rewrite_local g lv) = rewrite_local (\<lambda>v. f (g v)) lv"
    if "lv \<in> set (ed_locals ed) \<union> set (ed_local_types ed)" for lv
    using r [OF positional_refsI(4) [OF that]] r [OF positional_refsI(5) [OF that]]
      m [OF positional_refsI(4) [OF that] positional_refsI(5) [OF that]]
    by (intro rewrite_local_comp) (auto simp: local_end_def)
  ultimately show ?thesis
    by (simp add: rewrite_references_def rewrite_frame_comp rewrite_annotation_comp comp_def)
qed

lemma rewrite_references_cong:
  assumes p: "\<And>v. v \<in> set (positional_refs ed) \<Longrightarrow> f v = g v"
    and i: "\<And>v. v \<in> set (identity_refs ed) \<Longrightarrow> f' v = g' v"
  shows "rewrite_references f f' ed = rewrite_references g g' ed"
proof -
  have "rewrite_instruction f n = rewrite_instruction g n" if "n \<in> set (il_items (ed_instructions ed))" for n
    using p positional_refsI(1) [OF that] by (blast intro: rewrite_instruction_cong)
  moreover have "rewrite_exception f e = rewrite_exception g e" if "e \<in> set (items (ed_exceptions ed))" for e
    using p positional_refsI(2) [OF that] by (simp add: rewrite_exception_def exception_refs_def narrow_def)
  moreover have "rewrite_line_number f e = rewrite_line_number g e" if "e \<in> set (line_numbers ed)" for e
    using p positional_refsI(3) [OF that] by (simp add: rewrite_line_number_def narrow_def)
  moreover have "rewrite_local f e = rewrite_local g e" if "e \<in> set (ed_locals ed) \<union> set (ed_local_types ed)" for e
    using p positional_refsI(4,5) [OF that] by (simp add: rewrite_local_def)
  moreover have "rewrite_frame f f' fr = rewrite_frame g g' fr" if "fr \<in> set (items (ed_stack_map ed))" for fr
    using p positional_refsI(6) [OF that] i identity_refsI(1) [OF that]
    by (auto simp: rewrite_frame_def rewrite_type_def)
  moreover have "rewrite_annotation f f' r = rewrite_annotation g g' r" if "r \<in> set (items (type_annotations ed))" for r
    using p positional_refsI(7,8) [OF that] i identity_refsI(2) [OF that] by (simp add: rewrite_annotation_def)
  ultimately show ?thesis by (simp add: rewrite_references_def)
qed


section \<open>Insertion\<close>

lemma offset_to_index_capacity [simp]: "offset_to_index (l\<lparr>il_capacity := x\<rparr>) v = offset_to_index l v"
  by (simp add: offset_to_index_def il_count_def)

lemma index_to_offset_rewrite:
  "index_to_offset (l\<lparr>il_items := map (rewrite_instruction f) (il_items l)\<rparr>) v = index_to_offset l v" if "i4_range v"
proof -
  have "nat v < length (il_items l)" if "0 \<le> v" "\<not> (of_int v :: u4) \<ge> of_nat (length (il_items l))"
  proof -
    have "nat v < 4294967296" using that(1) \<open>i4_range v\<close> by (simp add: i4_range_def)
    then have "unat (of_int v :: u4) = nat v" using unat_of_nat_u4 [of "nat v"] that(1) by simp
    moreover have "unat (of_nat (length (il_items l)) :: u4) \<le> length (il_items l)"
      by (simp add: unat_of_nat)
    ultimately show ?thesis using that(2) by (simp add: word_le_nat_alt)
  qed
  then show ?thesis by (auto simp: index_to_offset_def il_count_def)
qed

lemma shift_bounds:
  assumes "0 \<le> k" "k \<le> int m" "0 \<le> at" "m + n \<le> 65535"
  shows "shift_after k at (of_nat n) = (if k > at then k + int n else k)"
    "shift_with k at (of_nat n) = (if k \<ge> at then k + int n else k)"
proof -
  have "sint (of_nat n :: u4) = int n" using assms(4) by (simp add: sint_of_nat_u4)
  moreover have "i4_range (k + int n)" using assms by (simp add: i4_range_def)
  ultimately show "shift_after k at (of_nat n) = (if k > at then k + int n else k)"
    "shift_with k at (of_nat n) = (if k \<ge> at then k + int n else k)"
    by (simp_all add: shift_after_def shift_with_def i4_wrap_id)
qed

lemma map_strip_length: "map strip_offset xs = map strip_offset ys \<Longrightarrow> length xs = length ys"
  by (metis length_map)

lemma rewrite_strip:
  assumes "map strip_offset xs = map strip_offset ys"
  shows "map strip_offset (map (rewrite_instruction f) xs) = map strip_offset (map (rewrite_instruction f) ys)"
proof -
  have "map strip_offset (map (rewrite_instruction f) zs) = map (rewrite_instruction f) (map strip_offset zs)" for zs
    by (simp add: rewrite_instruction_offset)
  with assms show ?thesis by metis
qed


definition moved :: "instruction_list \<Rightarrow> instruction_list \<Rightarrow> (i4 \<Rightarrow> i4) \<Rightarrow> i4 \<Rightarrow> i4" where
  "moved l l' sh v = index_to_offset l' (sh (offset_to_index l v))"

lemma snd_map_reference: "0 \<le> m l v \<Longrightarrow> snd (map_reference l m True v) = m l v"
  by (simp add: map_reference_def)

lemma snd_map_all_references:
  "snd (map_all_references ed m True) =
     rewrite_references (\<lambda>v. snd (map_reference (ed_instructions ed) m True v))
       (\<lambda>v. snd (map_reference (ed_instructions ed) m True v)) ed"
  by (simp add: map_all_references_def Let_def)

lemma first_pass:
  assumes "fst (map_all_references ed offset_to_index False)"
  shows "\<And>v. v \<in> set (positional_refs ed @ identity_refs ed) \<Longrightarrow> 0 \<le> offset_to_index (ed_instructions ed) v"
    "snd (map_all_references (ed\<lparr>ed_instructions := (ed_instructions ed)\<lparr>il_capacity := x\<rparr>\<rparr>) offset_to_index True) =
     (rewrite_references (offset_to_index (ed_instructions ed)) (offset_to_index (ed_instructions ed)) ed)
       \<lparr>ed_instructions := (ed_instructions ed)\<lparr>il_capacity := x,
          il_items := map (rewrite_instruction (offset_to_index (ed_instructions ed))) (il_items (ed_instructions ed))\<rparr>\<rparr>"
proof -
  let ?l = "ed_instructions ed" and ?l1 = "(ed_instructions ed)\<lparr>il_capacity := x\<rparr>"
  show ok: "0 \<le> offset_to_index ?l v" if "v \<in> set (positional_refs ed @ identity_refs ed)" for v
    using assms that by (auto simp: map_all_references_def map_reference_def Let_def list_all_iff not_less split: if_splits)
  let ?ed = "ed\<lparr>ed_instructions := ?l1\<rparr>"
  have refs: "positional_refs ?ed = positional_refs ed" "identity_refs ?ed = identity_refs ed"
    by (simp_all add: positional_refs_def identity_refs_def)
  have "rewrite_references (\<lambda>v. snd (map_reference ?l1 offset_to_index True v))
      (\<lambda>v. snd (map_reference ?l1 offset_to_index True v)) ?ed =
    rewrite_references (offset_to_index ?l) (offset_to_index ?l) ?ed"
    by (rule rewrite_references_cong) (use ok refs in \<open>auto simp: snd_map_reference\<close>)
  then show "snd (map_all_references ?ed offset_to_index True) =
     (rewrite_references (offset_to_index ?l) (offset_to_index ?l) ed)
       \<lparr>ed_instructions := ?l\<lparr>il_capacity := x, il_items := map (rewrite_instruction (offset_to_index ?l)) (il_items ?l)\<rparr>\<rparr>"
    by (simp add: snd_map_all_references rewrite_ins_references)
qed


lemma take_drop_map: "map f (take k xs) @ ys @ map f (drop k xs) = take k (map f xs) @ ys @ drop k (map f xs)"
  by (simp add: take_map drop_map)

text \<open>The instructions of the edited list, before anything is known about the other references.\<close>

lemma insert_body_instructions:
  fixes ed l at nodes x
  defines "l \<equiv> ed_instructions ed" and "count \<equiv> of_nat (length nodes) :: u4"
  assumes ok: "fst (map_all_references ed offset_to_index False)" and shape: "list_all ins_shape (il_items l @ nodes)"
  shows "\<exists>l4. ed_instructions (insert_body ed (l\<lparr>il_capacity := x\<rparr>) at nodes) =
        l4\<lparr>il_items := map (rewrite_instruction (\<lambda>v. snd (map_reference l4 index_to_offset True v))) (il_items l4)\<rparr> \<and>
      insert_body ed (l\<lparr>il_capacity := x\<rparr>) at nodes =
        rewrite_references (\<lambda>v. snd (map_reference l4 index_to_offset True v)) (\<lambda>v. snd (map_reference l4 index_to_offset True v))
          ((rewrite_references (\<lambda>v. shift_after v at count) (\<lambda>v. shift_with v at count)
            ((rewrite_references (offset_to_index l) (offset_to_index l) ed)
              \<lparr>ed_instructions := l\<lparr>il_capacity := x, il_items := take (nat at) (map (rewrite_instruction (offset_to_index l)) (il_items l)) @
                 nodes @ drop (nat at) (map (rewrite_instruction (offset_to_index l)) (il_items l))\<rparr>\<rparr>))\<lparr>ed_instructions := l4\<rparr>) \<and>
      map strip_offset (il_items l4) = map strip_offset (map (rewrite_instruction (\<lambda>v. shift_after v at count))
        (take (nat at) (map (rewrite_instruction (offset_to_index l)) (il_items l)) @ nodes @
         drop (nat at) (map (rewrite_instruction (offset_to_index l)) (il_items l)))) \<and>
      laid_out 0 (il_items l4) \<and> il_code_length l4 = of_nat (length (enc_list (il_items l4)))"
proof -
  let ?o = "offset_to_index l" and ?sa = "\<lambda>v. shift_after v at count" and ?sw = "\<lambda>v. shift_with v at count"
  let ?l2 = "l\<lparr>il_capacity := x, il_items := take (nat at) (map (rewrite_instruction ?o) (il_items l)) @ nodes @
      drop (nat at) (map (rewrite_instruction ?o) (il_items l))\<rparr>"
  let ?ed2 = "(rewrite_references ?o ?o ed)\<lparr>ed_instructions := ?l2\<rparr>"
  let ?l3 = "?l2\<lparr>il_items := map (rewrite_instruction ?sa) (il_items ?l2)\<rparr>"
  have e2: "splice (nat at) nodes (snd (map_all_references (ed\<lparr>ed_instructions := l\<lparr>il_capacity := x\<rparr>\<rparr>) offset_to_index True)) = ?ed2"
    unfolding l_def first_pass(2) [OF ok] by (simp add: splice_def)
  have e3: "ed_instructions (rewrite_references ?sa ?sw ?ed2) = ?l3" by (simp add: rewrite_references_def)
  define l4 where "l4 = instruction_list_recompute_offsets ?l3"
  have sh: "list_all ins_shape (il_items ?l3)"
    using shape by (auto simp: list_all_iff take_map drop_map dest: in_set_takeD in_set_dropD)
  note r = recompute_offsets_spec [OF sh, folded l4_def]
  have body: "insert_body ed (l\<lparr>il_capacity := x\<rparr>) at nodes =
      rewrite_references (\<lambda>v. snd (map_reference l4 index_to_offset True v)) (\<lambda>v. snd (map_reference l4 index_to_offset True v))
        ((rewrite_references ?sa ?sw ?ed2)\<lparr>ed_instructions := l4\<rparr>)"
    unfolding insert_body_def Let_def count_def [symmetric] e2 e3 l4_def [symmetric]
    by (simp add: snd_map_all_references)
  show ?thesis
    by (rule exI [of _ l4]) (use body r in \<open>simp add: rewrite_ins_references\<close>)
qed


lemma insert_body_spec:
  fixes ed at nodes x
  defines "l \<equiv> ed_instructions ed" and "count \<equiv> of_nat (length nodes) :: u4"
    and "l' \<equiv> ed_instructions (insert_body ed ((ed_instructions ed)\<lparr>il_capacity := x\<rparr>) at nodes)"
  assumes ok: "fst (map_all_references ed offset_to_index False)" and good: "good_list l"
    and shape: "list_all ins_shape (il_items l @ nodes)"
    and range: "\<And>v. v \<in> set (positional_refs ed @ identity_refs ed) \<Longrightarrow> i4_range v"
    and nrefs: "\<And>n v. n \<in> set nodes \<Longrightarrow> v \<in> set (instruction_refs n) \<Longrightarrow> 0 \<le> v \<and> v \<le> int (length (il_items l))"
    and at: "0 \<le> at" "at \<le> int (length (il_items l))"
    and small: "length (enc_list (il_items l')) \<le> JVM_MAX_CODE_LENGTH"
  defines "pos \<equiv> moved l l' (\<lambda>k. shift_after k at count)" and "idn \<equiv> moved l l' (\<lambda>k. shift_with k at count)"
  shows "good_list l'" "length (il_items l') = length (il_items l) + length nodes"
    "map strip_offset (il_items l') = map strip_offset
       (map (rewrite_instruction pos) (take (nat at) (il_items l)) @
        map (rewrite_instruction (\<lambda>k. index_to_offset l' (shift_after k at count))) nodes @
        map (rewrite_instruction pos) (drop (nat at) (il_items l)))"
    "insert_body ed (l\<lparr>il_capacity := x\<rparr>) at nodes = (rewrite_references pos idn ed)\<lparr>ed_instructions := l'\<rparr>"
proof -
  let ?o = "offset_to_index l" and ?sa = "\<lambda>v. shift_after v at count" and ?sw = "\<lambda>v. shift_with v at count"
  let ?xs = "take (nat at) (map (rewrite_instruction ?o) (il_items l)) @ nodes @
      drop (nat at) (map (rewrite_instruction ?o) (il_items l))"
  from insert_body_instructions [OF ok shape [unfolded l_def], of x at] obtain l4 where
    l': "l' = l4\<lparr>il_items := map (rewrite_instruction (\<lambda>v. snd (map_reference l4 index_to_offset True v))) (il_items l4)\<rparr>"
    and body: "insert_body ed (l\<lparr>il_capacity := x\<rparr>) at nodes =
        rewrite_references (\<lambda>v. snd (map_reference l4 index_to_offset True v)) (\<lambda>v. snd (map_reference l4 index_to_offset True v))
          ((rewrite_references ?sa ?sw ((rewrite_references ?o ?o ed)
              \<lparr>ed_instructions := l\<lparr>il_capacity := x, il_items := ?xs\<rparr>\<rparr>))\<lparr>ed_instructions := l4\<rparr>)"
    and strip: "map strip_offset (il_items l4) = map strip_offset (map (rewrite_instruction ?sa) ?xs)"
    and laid: "laid_out 0 (il_items l4)" "il_code_length l4 = of_nat (length (enc_list (il_items l4)))"
    unfolding l'_def l_def count_def by blast
  let ?h = "\<lambda>v. snd (map_reference l4 index_to_offset True v)"
  have g4: "good_list l4" and g': "good_list l'"
    using laid small by (auto simp: good_list_def l')
  show "good_list l'" by (rule g')
  have len4: "length (il_items l4) = length (il_items l) + length nodes"
    using map_strip_length [OF strip] by simp
  then show "length (il_items l') = length (il_items l) + length nodes" by (simp add: l')
  have sum: "length (il_items l) + length nodes \<le> 65535" using good_list_bounds(1) [OF g4] len4 by simp
  have ob: "0 \<le> ?o v" "?o v \<le> int (length (il_items l))" if "v \<in> set (positional_refs ed @ identity_refs ed)" for v
    using first_pass(1) [OF ok that] positions.index_bound [OF good, of v] by (simp_all add: l_def)
  have sh: "0 \<le> ?sa k \<and> ?sa k \<le> int (length (il_items l4))" "0 \<le> ?sw k \<and> ?sw k \<le> int (length (il_items l4))"
    if "0 \<le> k" "k \<le> int (length (il_items l))" for k
    using that shift_bounds [OF that at(1) sum] len4 by (auto simp: count_def)
  have h: "?h k = index_to_offset l' k" if "0 \<le> k" "k \<le> int (length (il_items l4))" for k
  proof -
    have "i4_range k" using that good_list_bounds(1) [OF g4] by (simp add: i4_range_def)
    then have "index_to_offset l' k = index_to_offset l4 k" unfolding l' by (rule index_to_offset_rewrite)
    then show ?thesis using positions.offset_bound [OF g4 that] by (simp add: snd_map_reference)
  qed
  have mono1: "?o v \<le> ?o w" if "v \<in> set (positional_refs ed)" "w \<in> set (positional_refs ed)" "v \<le> w" for v w
    using positions.index_mono [OF good] range ob(1) that by simp
  have mono2: "?sa (?o v) \<le> ?sa (?o w)" if "v \<in> set (positional_refs ed)" "w \<in> set (positional_refs ed)" "v \<le> w" for v w
    using mono1 [OF that] shift_bounds(1) [OF ob [of v] at(1) sum] shift_bounds(1) [OF ob [of w] at(1) sum] that
    by (auto simp: count_def)
  have c1: "rewrite_references ?sa ?sw ((rewrite_references ?o ?o ed)\<lparr>ed_instructions := l\<lparr>il_capacity := x, il_items := ?xs\<rparr>\<rparr>) =
      (rewrite_references (\<lambda>v. ?sa (?o v)) (\<lambda>v. ?sw (?o v)) ed)
        \<lparr>ed_instructions := l\<lparr>il_capacity := x, il_items := map (rewrite_instruction ?sa) ?xs\<rparr>\<rparr>"
    by (subst rewrite_references_comp) (use ob mono1 good_list_bounds(1) [OF good] in \<open>force+\<close>)
  have c2: "rewrite_references ?h ?h ((rewrite_references (\<lambda>v. ?sa (?o v)) (\<lambda>v. ?sw (?o v)) ed)\<lparr>ed_instructions := l4\<rparr>) =
      (rewrite_references (\<lambda>v. ?h (?sa (?o v))) (\<lambda>v. ?h (?sw (?o v))) ed)\<lparr>ed_instructions := l'\<rparr>"
    unfolding l' by (rule rewrite_references_comp) (use sh ob mono2 good_list_bounds(1) [OF g4] in \<open>force+\<close>)
  have c3: "rewrite_references (\<lambda>v. ?h (?sa (?o v))) (\<lambda>v. ?h (?sw (?o v))) ed = rewrite_references pos idn ed"
    by (rule rewrite_references_cong) (use sh ob h in \<open>auto simp: pos_def idn_def moved_def\<close>)
  show "insert_body ed (l\<lparr>il_capacity := x\<rparr>) at nodes = (rewrite_references pos idn ed)\<lparr>ed_instructions := l'\<rparr>"
    unfolding body c1 using c2 c3 by simp
  have i1: "rewrite_instruction ?h (rewrite_instruction ?sa (rewrite_instruction ?o n)) = rewrite_instruction pos n"
    if "n \<in> set (il_items l)" for n
    unfolding rewrite_instruction_comp
    by (rule rewrite_instruction_cong)
       (use positional_refsI(1) [OF that [unfolded l_def]] ob sh h in \<open>auto simp: pos_def moved_def\<close>)
  have i2: "rewrite_instruction ?h (rewrite_instruction ?sa n) =
      rewrite_instruction (\<lambda>k. index_to_offset l' (?sa k)) n" if "n \<in> set nodes" for n
    unfolding rewrite_instruction_comp
    by (rule rewrite_instruction_cong) (use nrefs [OF that] sh h in auto)
  have "map strip_offset (il_items l') = map strip_offset (map (rewrite_instruction ?h) (map (rewrite_instruction ?sa) ?xs))"
    unfolding l' using rewrite_strip [OF strip, of ?h] by simp
  also have "map (rewrite_instruction ?h) (map (rewrite_instruction ?sa) ?xs) =
      map (rewrite_instruction pos) (take (nat at) (il_items l)) @
      map (rewrite_instruction (\<lambda>k. index_to_offset l' (?sa k))) nodes @
      map (rewrite_instruction pos) (drop (nat at) (il_items l))"
    using i1 i2 by (auto simp: take_map drop_map dest: in_set_takeD in_set_dropD)
  finally show "map strip_offset (il_items l') = map strip_offset
       (map (rewrite_instruction pos) (take (nat at) (il_items l)) @
        map (rewrite_instruction (\<lambda>k. index_to_offset l' (shift_after k at count))) nodes @
        map (rewrite_instruction pos) (drop (nat at) (il_items l)))" .
qed


section \<open>Properties\<close>

definition editor_ok :: "code_editor \<Rightarrow> bool" where
  "editor_ok ed \<longleftrightarrow> good_list (ed_instructions ed) \<and> list_all ins_shape (il_items (ed_instructions ed)) \<and>
     list_all i4_range (positional_refs ed @ identity_refs ed)"

text \<open>Nodes to insert: their branch targets are indices into the list as it was.\<close>

definition nodes_ok :: "code_editor \<Rightarrow> instruction list \<Rightarrow> bool" where
  "nodes_ok ed nodes \<longleftrightarrow> nodes \<noteq> [] \<and> length nodes < 2 ^ 32 \<and> list_all ins_shape nodes \<and>
     list_all (\<lambda>n. list_all (\<lambda>k. 0 \<le> k \<and> k \<le> int (length (il_items (ed_instructions ed)))) (instruction_refs n)) nodes"

lemma insert_inv:
  assumes "code_editor_insert mem ed offset nodes extra = (CLASSFILE_OK, ed')" "nodes_ok ed nodes"
  defines "at \<equiv> offset_to_index (ed_instructions ed) (sint offset)"
  obtains x others where "fst (map_all_references ed offset_to_index False)" "0 \<le> at"
    "uint (ed_max_stack ed) + uint extra \<le> 65535"
    "ed' = (insert_body ed ((ed_instructions ed)\<lparr>il_capacity := x\<rparr>) at nodes)
        \<lparr>other_attributes := others,
         ed_max_stack := ed_max_stack (insert_body ed ((ed_instructions ed)\<lparr>il_capacity := x\<rparr>) at nodes) + extra\<rparr>"
proof -
  have n: "(of_nat (length nodes) :: u4) \<noteq> 0"
    using assms(2) u4_eq [of "length nodes" 0] by (auto simp: nodes_ok_def)
  obtain st list where r: "instruction_list_reserve mem (ed_instructions ed)
      (il_count (ed_instructions ed) + of_nat (length nodes)) = (st, list)" by (metis surj_pair)
  then have "st = CLASSFILE_OK \<Longrightarrow> \<exists>x. list = (ed_instructions ed)\<lparr>il_capacity := x\<rparr>"
    by (auto simp: instruction_list_reserve_def split: if_splits)
       (metis instruction_list.surjective instruction_list.update_convs(2))
  with assms(1) n r that show ?thesis
    unfolding code_editor_insert_def Let_def at_def [symmetric]
    by (auto simp: not_less split: if_splits prod.splits)
qed



definition sample_editor :: code_editor where
  "sample_editor = code_editor_init\<lparr>ed_max_stack := 1,
     ed_instructions := \<lparr>il_items =
        [\<lparr>ins_offset = 0, ins_opcode = 0, ins_wide = False, ins_u = Op_None\<rparr>,
         \<lparr>ins_offset = 1, ins_opcode = JVM_OPC_goto, ins_wide = False, ins_u = Op_Branch 1\<rparr>],
        il_capacity = 2, il_code_length = 4\<rparr>,
     ed_exceptions := \<lparr>items = [\<lparr>start_pc = 0, end_pc = 4, handler_pc = 1, catch_type = 0\<rparr>], vcap = 1\<rparr>,
     has_line_numbers := True, line_numbers := [\<lparr>ln_start_pc = 1, ln_line_number = 10\<rparr>],
     has_locals := True,
     ed_locals := [\<lparr>lv_start_pc = 0, lv_length = 4, lv_name_index = 3, lv_descriptor_index = 4, lv_index = 0\<rparr>]\<rparr>"

definition sample_nodes :: "instruction list" where
  "sample_nodes = replicate 2 \<lparr>ins_offset = 0, ins_opcode = 0, ins_wide = False, ins_u = Op_None\<rparr>"

lemma sample_editor_ok: "editor_ok sample_editor" "nodes_ok sample_editor sample_nodes"
proof -
  have "good_list (ed_instructions sample_editor)"
    by (simp add: good_list_def sample_editor_def enc_ins_def enc_opcode_def enc_node_operand_def pad_len_def is_switch_def
        JVM_MAX_CODE_LENGTH_def)
  then show "editor_ok sample_editor"
    by (simp add: editor_ok_def) (simp add: sample_editor_def ins_shape_def instruction_opcode_is_defined_def
        instruction_kind_of_def positional_refs_def identity_refs_def instruction_refs_def exception_refs_def
        local_end_def code_editor_init_def stack_map_table_init_def type_annotation_refs_init_def i4_range_def)
  show "nodes_ok sample_editor sample_nodes"
    by (simp add: nodes_ok_def sample_nodes_def list_all_iff ins_shape_def instruction_opcode_is_defined_def
        instruction_kind_of_def instruction_refs_def)
qed


text \<open>
  C13: an insertion that is refused leaves the editor exactly as it was: a bad offset, a
  reference that names no instruction boundary, a stack limit that would overflow and a
  failed allocation are all found before anything is rewritten. The only later failures are
  those of flushing the type annotations, and they are told apart by their status.
\<close>

theorem code_editor_insert_atomic:
  assumes "code_editor_insert mem ed offset nodes extra = (status, ed')"
    "status \<notin> {CLASSFILE_OK, CLASSFILE_ERR_UNSUPPORTED, CLASSFILE_ERR_CODE_TOO_LARGE}"
  shows "ed' = ed"
proof -
  have f: "fst (flush_loop rs l) \<in> {CLASSFILE_OK, CLASSFILE_ERR_UNSUPPORTED, CLASSFILE_ERR_CODE_TOO_LARGE}" for rs l
  proof (induction rs arbitrary: l)
    case (Cons r rs)
    then show ?case by (auto simp: flush_ref_def Let_def)
  qed simp
  obtain st list where r: "instruction_list_reserve mem (ed_instructions ed)
      (il_count (ed_instructions ed) + of_nat (length nodes)) = (st, list)" by (metis surj_pair)
  let ?e = "insert_body ed list (offset_to_index (ed_instructions ed) (sint offset)) nodes"
  obtain fs others where fl: "type_annotation_flush (type_annotations ?e) (other_attributes ?e) = (fs, others)"
    by (metis surj_pair)
  have "fs \<in> {CLASSFILE_OK, CLASSFILE_ERR_UNSUPPORTED, CLASSFILE_ERR_CODE_TOO_LARGE}"
    using f fl by (metis fst_conv type_annotation_flush_def)
  with assms r fl show ?thesis
    by (auto simp: code_editor_insert_def Let_def split: if_splits)
qed

theorem code_editor_insert_atomic_witness:
  "code_editor_insert heap_ok sample_editor 2 sample_nodes 3 = (CLASSFILE_ERR_BAD_OFFSET, sample_editor)"
proof -
  have "fst (code_editor_insert heap_ok sample_editor 2 sample_nodes 3) = CLASSFILE_ERR_BAD_OFFSET" by code_simp
  then obtain ed' where e: "code_editor_insert heap_ok sample_editor 2 sample_nodes 3 = (CLASSFILE_ERR_BAD_OFFSET, ed')"
    by (metis prod.collapse)
  from code_editor_insert_atomic [OF e] e show ?thesis by simp
qed

end
