(* ===== verification/Code_Roundtrip.thy ===== *)
theory Code_Roundtrip
  imports Code_Editor
begin

text \<open>
  Loading and storing a Code attribute (\<^verbatim>\<open>code_editor_load\<close>, \<^verbatim>\<open>code_editor_store\<close>)
  with nothing edited in between: the payload comes back byte for byte when its tables
  stand in the order \<^verbatim>\<open>code_editor_store\<close> writes them.
\<close>

section \<open>The debug tables\<close>

definition enc_line :: "line_number_entry \<Rightarrow> u1 list" where
  "enc_line e = be2 (ln_start_pc e) @ be2 (ln_line_number e)"

definition enc_lines :: "line_number_entry list \<Rightarrow> u1 list" where
  "enc_lines es = be2 (of_nat (length es)) @ concat (map enc_line es)"

definition enc_local :: "local_variable_entry \<Rightarrow> u1 list" where
  "enc_local e = be2 (lv_start_pc e) @ be2 (lv_length e) @ be2 (lv_name_index e) @
     be2 (lv_descriptor_index e) @ be2 (lv_index e)"

definition enc_locals :: "local_variable_entry list \<Rightarrow> u1 list" where
  "enc_locals es = be2 (of_nat (length es)) @ concat (map enc_local es)"

lemma read_line_number_entries_complete:
  "spans c (concat (map enc_line es)) c' \<Longrightarrow> read_line_number_entries (length es) c = (es, c')"
proof (induction es arbitrary: c)
  case (Cons e es)
  then obtain c1 c2 where "spans c (be2 (ln_start_pc e)) c1" "spans c1 (be2 (ln_line_number e)) c2"
    "spans c2 (concat (map enc_line es)) c'" by (auto simp: enc_line_def [of e] spans_append)
  with Cons.IH [of c2] show ?case by (auto dest!: spans_u2)
qed simp

lemma read_local_entries_complete:
  "spans c (concat (map enc_local es)) c' \<Longrightarrow> read_local_entries (length es) c = (es, c')"
proof (induction es arbitrary: c)
  case (Cons e es)
  then obtain c1 c2 c3 c4 c5 where "spans c (be2 (lv_start_pc e)) c1" "spans c1 (be2 (lv_length e)) c2"
    "spans c2 (be2 (lv_name_index e)) c3" "spans c3 (be2 (lv_descriptor_index e)) c4"
    "spans c4 (be2 (lv_index e)) c5" "spans c5 (concat (map enc_local es)) c'"
    by (auto simp: enc_local_def [of e] spans_append)
  with Cons.IH [of c5] show ?case by (auto dest!: spans_u2)
qed simp

lemma whole_payload:
  assumes "attr_info a = be2 n @ bs"
  obtains c1 c' where "byte_cursor_u2 (byte_cursor_init (attr_info a)) = (n, c1)" "cur_ok c1" "spans c1 bs c'" "cur_ok c'"
proof -
  let ?d = "attr_info a"
  have "spans (byte_cursor_init ?d) (be2 n @ bs) \<lparr>cur_data = ?d, cur_pos = length ?d, cur_ok = True\<rparr>"
    using assms spans_whole [of ?d] by metis
  then obtain c1 where c1: "spans (byte_cursor_init ?d) (be2 n) c1" "spans c1 bs \<lparr>cur_data = ?d, cur_pos = length ?d, cur_ok = True\<rparr>"
    by (auto simp: spans_append)
  from that [OF spans_u2 [OF c1(1)] _ c1(2)] spans_ok [OF c1(1)] show ?thesis by simp
qed

lemma grow_table_total: "alloc_total mem \<Longrightarrow> length xs + unat n \<le> 65535 \<Longrightarrow> grow_table mem k xs n = CLASSFILE_OK"
  by (simp add: grow_table_def alloc_total_def CLASSFILE_MAX_COUNT_def)

lemma read_line_numbers_complete:
  assumes "attr_info a = enc_lines es" "length es \<le> 65535" "line_numbers ed = []" "alloc_total mem"
  shows "read_line_numbers mem a ed =
    (CLASSFILE_OK, ed\<lparr>line_numbers := es, has_line_numbers := True, line_number_name_index := attribute_name_index a\<rparr>)"
proof -
  obtain c1 c' where c: "byte_cursor_u2 (byte_cursor_init (attr_info a)) = (of_nat (length es), c1)"
    "cur_ok c1" "spans c1 (concat (map enc_line es)) c'" "cur_ok c'"
    using assms(1) unfolding enc_lines_def by (rule whole_payload)
  have n: "unat (of_nat (length es) :: u2) = length es" using assms(2) by simp
  with c read_line_number_entries_complete [OF c(3)] grow_table_total [OF assms(4), of "line_numbers ed"] assms(2,3)
  show ?thesis by (simp add: read_line_numbers_def byte_cursor_ok_def)
qed

lemma read_locals_complete:
  assumes "attr_info a = enc_locals es" "length es \<le> 65535" "alloc_total mem"
  shows "read_locals mem a [] = (CLASSFILE_OK, es)"
proof -
  obtain c1 c' where c: "byte_cursor_u2 (byte_cursor_init (attr_info a)) = (of_nat (length es), c1)"
    "cur_ok c1" "spans c1 (concat (map enc_local es)) c'" "cur_ok c'"
    using assms(1) unfolding enc_locals_def by (rule whole_payload)
  have n: "unat (of_nat (length es) :: u2) = length es" using assms(2) by simp
  with c read_local_entries_complete [OF c(3)] grow_table_total [OF assms(3), of "[]"] assms(2)
  show ?thesis by (simp add: read_locals_def byte_cursor_ok_def Let_def)
qed

lemma emits_write_lines: "emits mem (write_line_numbers mem ed) (enc_lines (line_numbers ed))"
proof -
  have e: "emits mem (write_line_number mem x) (enc_line x)" for x
    using emits_comp [OF emits_u2 [of mem "ln_start_pc x"] emits_u2 [of mem "ln_line_number x"]]
    by (simp add: write_line_number_def [abs_def] enc_line_def)
  show ?thesis
    unfolding write_line_numbers_def [abs_def] enc_lines_def
    by (rule emits_comp [OF emits_u2 emits_fold [of mem "write_line_number mem", OF e]])
qed

lemma emits_write_locals: "emits mem (write_locals mem es) (enc_locals es)"
proof -
  have e: "emits mem (write_local mem x) (enc_local x)" for x
    using emits_comp [OF emits_comp [OF emits_comp [OF emits_comp [OF emits_u2 [of mem "lv_start_pc x"]
      emits_u2 [of mem "lv_length x"]] emits_u2 [of mem "lv_name_index x"]]
      emits_u2 [of mem "lv_descriptor_index x"]] emits_u2 [of mem "lv_index x"]]
    by (simp add: write_local_def [abs_def] enc_local_def)
  show ?thesis
    unfolding write_locals_def [abs_def] enc_locals_def
    by (rule emits_comp [OF emits_u2 emits_fold [of mem "write_local mem", OF e]])
qed

lemma take_buffer_emits:
  assumes "emits mem f bs" "alloc_total mem" "length bs \<le> 0xFFFFFFFF"
  shows "take_buffer (f byte_buffer_init) a name = (CLASSFILE_OK, a\<lparr>attribute_name_index := name, attr_info := bs\<rparr>)"
  using emitsD [OF assms(1)] emits_total [OF assms(1,2)] assms(3)
  by (simp add: take_buffer_def byte_buffer_ok_def byte_buffer_release_def)


section \<open>The nested attributes\<close>

datatype nested_kind = Line_Numbers | Local_Variables | Local_Variable_Types | Stack_Map_Frames | Opaque

definition nested_kind :: "constant_pool \<Rightarrow> attribute_info \<Rightarrow> nested_kind" where
  "nested_kind pool a =
     (let name = attribute_name_index a in
      if constant_pool_utf8_equals pool name (cstr ''LineNumberTable'') then Line_Numbers
      else if constant_pool_utf8_equals pool name (cstr ''LocalVariableTable'') then Local_Variables
      else if constant_pool_utf8_equals pool name (cstr ''LocalVariableTypeTable'') then Local_Variable_Types
      else if constant_pool_utf8_equals pool name (cstr ''StackMapTable'') then Stack_Map_Frames
      else Opaque)"

lemma load_nested_lines:
  assumes "nested_kind pool a = Line_Numbers"
  shows "load_nested mem pool a ed = read_line_numbers mem a ed"
  using assms by (simp add: nested_kind_def load_nested_def Let_def split: if_splits)

lemma load_nested_locals:
  assumes "nested_kind pool a = Local_Variables"
  shows "load_nested mem pool a ed = (let (status, locals) = read_locals mem a (ed_locals ed)
     in (status, ed\<lparr>ed_locals := locals, has_locals := (status = CLASSFILE_OK),
                    local_variable_name_index := attribute_name_index a\<rparr>))"
  using assms by (simp add: nested_kind_def load_nested_def Let_def split: if_splits)

lemma load_nested_local_types:
  assumes "nested_kind pool a = Local_Variable_Types"
  shows "load_nested mem pool a ed = (let (status, locals) = read_locals mem a (ed_local_types ed)
     in (status, ed\<lparr>ed_local_types := locals, has_local_types := (status = CLASSFILE_OK),
                    local_type_name_index := attribute_name_index a\<rparr>))"
  using assms by (simp add: nested_kind_def load_nested_def Let_def split: if_splits)

lemma load_nested_stack_map:
  assumes "nested_kind pool a = Stack_Map_Frames" "\<not> has_stack_map ed" "stack_map_table_parse mem a = Inr table"
  shows "load_nested mem pool a ed =
    (CLASSFILE_OK, ed\<lparr>ed_stack_map := table, has_stack_map := True, stack_map_name_index := attribute_name_index a\<rparr>)"
  using assms by (simp add: nested_kind_def load_nested_def Let_def split: if_splits)

lemma load_nested_opaque:
  assumes "nested_kind pool a = Opaque" "load_nested mem pool a ed = (CLASSFILE_OK, ed')" "vec_inv (other_attributes ed)"
  shows "vec_inv (other_attributes ed') \<and> items (other_attributes ed') = items (other_attributes ed) @ [a] \<and>
    (\<exists>others refs. ed' = ed\<lparr>other_attributes := others, type_annotations := refs\<rparr>)"
proof -
  have "load_nested mem pool a ed = copy_other mem pool a ed"
    using assms(1) by (simp add: nested_kind_def load_nested_def Let_def split: if_splits)
  with assms(2) have c: "copy_other mem pool a ed = (CLASSFILE_OK, ed')" by simp
  let ?z = "attribute_info_zero\<lparr>attribute_name_index := attribute_name_index a\<rparr>"
  obtain st copy where st: "attribute_info_set_info mem ?z (attr_info a) = (st, copy)" by (metis surj_pair)
  obtain st2 others where st2: "attribute_list_append mem (other_attributes ed) copy = (st2, others)" by (metis surj_pair)
  from c st st2 have ok: "st2 = CLASSFILE_OK" "st = CLASSFILE_OK"
    "\<exists>refs. ed' = ed\<lparr>other_attributes := others, type_annotations := refs\<rparr>"
    by (auto simp: copy_other_def Let_def split: if_splits prod.splits)
       (metis code_editor.surjective code_editor.update_convs(17,18))
  have "copy = a" using st ok(2) by (auto simp: attribute_info_set_info_def attribute_info_zero_def split: if_splits)
  with attribute_list.append_ok [OF assms(3)] st2 ok show ?thesis by auto
qed


section \<open>Storing what was loaded\<close>

text \<open>The nested attributes an editor stands for, in the order they are stored.\<close>

definition table_attribute :: "bool \<Rightarrow> u2 \<Rightarrow> u1 list \<Rightarrow> attribute_info list" where
  "table_attribute present name payload =
     (if present then [\<lparr>attribute_name_index = name, attr_info = payload\<rparr>] else [])"

definition nested_of :: "code_editor \<Rightarrow> attribute_info list" where
  "nested_of ed =
     table_attribute (has_line_numbers ed) (line_number_name_index ed) (enc_lines (line_numbers ed)) @
     table_attribute (has_locals ed) (local_variable_name_index ed) (enc_locals (ed_locals ed)) @
     table_attribute (has_local_types ed) (local_type_name_index ed) (enc_locals (ed_local_types ed)) @
     table_attribute (has_stack_map ed) (stack_map_name_index ed) (enc_smt (ed_stack_map ed)) @
     items (other_attributes ed)"

definition tables_ok :: "code_editor \<Rightarrow> bool" where
  "tables_ok ed \<longleftrightarrow> length (line_numbers ed) \<le> 65535 \<and> length (ed_locals ed) \<le> 65535 \<and>
     length (ed_local_types ed) \<le> 65535 \<and> (has_stack_map ed \<longrightarrow> wf_smt (ed_stack_map ed)) \<and>
     vec_inv (other_attributes ed) \<and> list_all wf_attribute (items (other_attributes ed))"

definition holds :: "classfile_status \<times> attribute_list \<Rightarrow> attribute_info list \<Rightarrow> bool" where
  "holds s xs \<longleftrightarrow> fst s = CLASSFILE_OK \<and> vec_inv (snd s) \<and> items (snd s) = xs"

lemma store_block_holds:
  assumes "alloc_total mem" "holds s xs" "present \<Longrightarrow> filled = (CLASSFILE_OK, a)" "length xs < 65535"
  shows "holds (store_block mem present filled s) (xs @ (if present then [a] else []))"
proof (cases present)
  case True
  obtain list where s: "s = (CLASSFILE_OK, list)" "vec_inv list" "items list = xs"
    using assms(2) by (cases s) (auto simp: holds_def)
  have "fst (attribute_list_append mem list a) = CLASSFILE_OK"
    using vec_append_total [OF s(2) _ assms(1)] s(3) assms(4) by (simp add: attribute_list_append_def)
  then obtain list' where l: "attribute_list_append mem list a = (CLASSFILE_OK, list')"
    by (metis prod.collapse)
  from attribute_list.append_ok [OF s(2) l] l s True assms(3) show ?thesis
    by (simp add: store_block_def holds_def)
qed (use assms(2) in \<open>cases s; simp add: store_block_def holds_def\<close>)

lemma store_others_holds:
  assumes "alloc_total mem" "list_all wf_attribute as" "holds s xs" "length xs + length as \<le> 65535"
  shows "holds (fold (\<lambda>a. store_block mem True
      (attribute_info_set_info mem (attribute_info_zero\<lparr>attribute_name_index := attribute_name_index a\<rparr>) (attr_info a))) as s)
    (xs @ as)"
  using assms(2-)
proof (induction as arbitrary: s xs)
  case (Cons a as)
  have "attribute_info_set_info mem (attribute_info_zero\<lparr>attribute_name_index := attribute_name_index a\<rparr>) (attr_info a) =
      (CLASSFILE_OK, a)"
    using assms(1) Cons.prems(1)
    by (auto simp: attribute_info_set_info_def attribute_info_zero_def alloc_total_def wf_attribute_def)
  with store_block_holds [OF assms(1) Cons.prems(2), of True _ a] Cons.prems(3)
    Cons.IH [of _ "xs @ [a]"] Cons.prems(1) show ?case by simp
qed simp

lemma length_enc_debug:
  "length (enc_lines es) = 2 + 4 * length es" "length (enc_locals ls) = 2 + 10 * length ls"
  by (induction es) (simp_all add: enc_lines_def enc_line_def length_concat o_def sum_list_triv,
      induction ls, simp_all add: enc_locals_def enc_local_def)

lemma store_attributes_holds:
  assumes "alloc_total mem" "tables_ok ed" "length (nested_of ed) \<le> 65535"
  shows "holds (store_attributes mem ed) (nested_of ed)"
proof -
  note ok = assms(2) [unfolded tables_ok_def]
  note take = take_buffer_emits [OF _ assms(1), of _ _ attribute_info_zero]
  have z: "attribute_info_zero\<lparr>attribute_name_index := n, attr_info := p\<rparr> = \<lparr>attribute_name_index = n, attr_info = p\<rparr>" for n p
    by (simp add: attribute_info_zero_def)
  have lines: "take_buffer (write_line_numbers mem ed byte_buffer_init) attribute_info_zero n =
      (CLASSFILE_OK, \<lparr>attribute_name_index = n, attr_info = enc_lines (line_numbers ed)\<rparr>)" for n
    using take [OF emits_write_lines [of mem ed], of n] ok by (simp add: length_enc_debug z)
  have locals: "take_buffer (write_locals mem ls byte_buffer_init) attribute_info_zero n =
      (CLASSFILE_OK, \<lparr>attribute_name_index = n, attr_info = enc_locals ls\<rparr>)" if "length ls \<le> 65535" for n ls
    using take [OF emits_write_locals [of mem ls], of n] that by (simp add: length_enc_debug z)
  have smt: "stack_map_table_write mem (ed_stack_map ed) (attribute_info_zero\<lparr>attribute_name_index := n\<rparr>) =
      (CLASSFILE_OK, \<lparr>attribute_name_index = n, attr_info = enc_smt (ed_stack_map ed)\<rparr>)" if "has_stack_map ed" for n
    using stack_map_table_write_eq(2) [OF _ _ assms(1), of "ed_stack_map ed"] ok that
    by (simp add: wf_smt_def frames_ascend_iff z)
  have h0: "holds (CLASSFILE_OK, attribute_list_init) []" by (simp add: holds_def attribute_list_init_def)
  note h1 = store_block_holds [OF assms(1) h0 lines, of "has_line_numbers ed" "line_number_name_index ed"]
  note h2 = store_block_holds [OF assms(1) h1 locals, of "has_locals ed" "ed_locals ed" "local_variable_name_index ed"]
  note h3 = store_block_holds [OF assms(1) h2 locals, of "has_local_types ed" "ed_local_types ed" "local_type_name_index ed"]
  note h4 = store_block_holds [OF assms(1) h3 smt, of "has_stack_map ed" "stack_map_name_index ed"]
  note h5 = store_others_holds [OF assms(1) _ h4, of "items (other_attributes ed)"]
  show ?thesis
    using h5 ok assms(3) by (simp add: store_attributes_def Let_def nested_of_def table_attribute_def)
qed


section \<open>Loading in the order of storing\<close>

fun kind_rank :: "nested_kind \<Rightarrow> nat" where
  "kind_rank Line_Numbers = 0"
| "kind_rank Local_Variables = 1"
| "kind_rank Local_Variable_Types = 2"
| "kind_rank Stack_Map_Frames = 3"
| "kind_rank Opaque = 4"

text \<open>The tables whose trailing bytes the loader would drop must not have any.\<close>

fun exact_table :: "nested_kind \<Rightarrow> attribute_info \<Rightarrow> bool" where
  "exact_table Line_Numbers a \<longleftrightarrow> (\<exists>es. length es \<le> 65535 \<and> attr_info a = enc_lines es)"
| "exact_table Local_Variables a \<longleftrightarrow> (\<exists>es. length es \<le> 65535 \<and> attr_info a = enc_locals es)"
| "exact_table Local_Variable_Types a \<longleftrightarrow> (\<exists>es. length es \<le> 65535 \<and> attr_info a = enc_locals es)"
| "exact_table _ a \<longleftrightarrow> wf_attribute a"

text \<open>Each table at most once and in the order of storing, opaque attributes behind them.\<close>

fun canonical :: "constant_pool \<Rightarrow> nat \<Rightarrow> attribute_info list \<Rightarrow> bool" where
  "canonical pool k [] \<longleftrightarrow> True"
| "canonical pool k (a # as) \<longleftrightarrow>
     k \<le> kind_rank (nested_kind pool a) \<and> exact_table (nested_kind pool a) a \<and>
     canonical pool (min 4 (Suc (kind_rank (nested_kind pool a)))) as"

definition stage :: "nat \<Rightarrow> code_editor \<Rightarrow> bool" where
  "stage k ed \<longleftrightarrow> (k \<le> 0 \<longrightarrow> \<not> has_line_numbers ed \<and> line_numbers ed = []) \<and>
     (k \<le> 1 \<longrightarrow> \<not> has_locals ed \<and> ed_locals ed = []) \<and>
     (k \<le> 2 \<longrightarrow> \<not> has_local_types ed \<and> ed_local_types ed = []) \<and>
     (k \<le> 3 \<longrightarrow> \<not> has_stack_map ed \<and> items (other_attributes ed) = [])"

text \<open>The part of an editor that the nested attributes do not touch.\<close>

definition body_of :: "code_editor \<Rightarrow> u2 \<times> u2 \<times> instruction_list \<times> exception_table" where
  "body_of ed = (ed_max_stack ed, ed_max_locals ed, ed_instructions ed, ed_exceptions ed)"

lemma stack_map_error: "stack_map_table_parse mem a = Inl e \<Longrightarrow> e \<noteq> CLASSFILE_OK"
proof -
  have loop: "read_types_loop n c = Inl e \<Longrightarrow> e \<noteq> CLASSFILE_OK" for n c e
    by (induction n arbitrary: c) (auto split: prod.splits if_splits sum.splits)
  have types: "read_types mem c n = Inl e \<Longrightarrow> e \<noteq> CLASSFILE_OK" for n c e
    by (auto simp: read_types_def dest: loop split: if_splits)
  have ft: "read_frame_types mem k tag c = Inl e \<Longrightarrow> e \<noteq> CLASSFILE_OK" for k tag c e
    by (auto simp: read_frame_types_def Let_def dest: types split: frame_kind.splits sum.splits prod.splits)
  have frame: "read_frame mem p c = Inl e \<Longrightarrow> e \<noteq> CLASSFILE_OK" for p c e
    by (auto simp: read_frame_def Let_def dest: ft split: prod.splits option.splits sum.splits if_splits)
  have frames: "read_frames mem n p c t = Inl e \<Longrightarrow> e \<noteq> CLASSFILE_OK" for n p c t e
    by (induction n arbitrary: p c t) (auto dest: frame split: sum.splits prod.splits)
  show "stack_map_table_parse mem a = Inl e \<Longrightarrow> e \<noteq> CLASSFILE_OK"
    by (auto simp: stack_map_table_parse_def Let_def dest: frames split: prod.splits sum.splits if_splits)
qed

lemma load_nested_stage:
  assumes "load_nested mem pool a ed = (CLASSFILE_OK, ed')" "alloc_total mem" "tables_ok ed"
    "stage k ed" "k \<le> kind_rank (nested_kind pool a)" "exact_table (nested_kind pool a) a"
  shows "tables_ok ed' \<and> stage (min 4 (Suc (kind_rank (nested_kind pool a)))) ed' \<and>
    nested_of ed' = nested_of ed @ [a] \<and> body_of ed' = body_of ed"
proof (cases "nested_kind pool a")
  case Line_Numbers
  with assms(6) obtain es where es: "length es \<le> 65535" "attr_info a = enc_lines es" by auto
  from read_line_numbers_complete [OF es(2,1) _ assms(2), of ed] load_nested_lines [OF Line_Numbers, of mem ed] assms Line_Numbers es
  show ?thesis by (auto simp: stage_def tables_ok_def nested_of_def table_attribute_def body_of_def)
next
  case Local_Variables
  with assms(6) obtain es where es: "length es \<le> 65535" "attr_info a = enc_locals es" by auto
  from read_locals_complete [OF es(2,1) assms(2)] load_nested_locals [OF Local_Variables, of mem ed] assms Local_Variables es
  show ?thesis by (auto simp: stage_def tables_ok_def nested_of_def table_attribute_def body_of_def)
next
  case Local_Variable_Types
  with assms(6) obtain es where es: "length es \<le> 65535" "attr_info a = enc_locals es" by auto
  from read_locals_complete [OF es(2,1) assms(2)] load_nested_local_types [OF Local_Variable_Types, of mem ed] assms
    Local_Variable_Types es
  show ?thesis by (auto simp: stage_def tables_ok_def nested_of_def table_attribute_def body_of_def)
next
  case Stack_Map_Frames
  with assms(4,5) have h: "\<not> has_stack_map ed" "items (other_attributes ed) = []" by (auto simp: stage_def)
  then obtain table where t: "stack_map_table_parse mem a = Inr table"
    using assms(1) Stack_Map_Frames stack_map_error [of mem a]
    by (auto simp: nested_kind_def load_nested_def Let_def split: if_splits sum.splits)
  from load_nested_stack_map [OF Stack_Map_Frames h(1) t] assms(1,3,4) h Stack_Map_Frames stack_map_table_parse_sound [OF t]
  show ?thesis by (auto simp: stage_def tables_ok_def nested_of_def table_attribute_def body_of_def)
next
  case Opaque
  with load_nested_opaque [OF Opaque assms(1)] assms(3,4,6) show ?thesis
    by (auto simp: stage_def tables_ok_def nested_of_def body_of_def)
qed

lemma load_nested_loop_stage:
  assumes "load_nested_loop mem pool as ed = (CLASSFILE_OK, ed')" "alloc_total mem" "tables_ok ed"
    "stage k ed" "canonical pool k as"
  shows "tables_ok ed' \<and> nested_of ed' = nested_of ed @ as \<and> body_of ed' = body_of ed"
  using assms
proof (induction as arbitrary: ed k)
  case (Cons a as)
  from Cons.prems(1) obtain ed1 where l: "load_nested mem pool a ed = (CLASSFILE_OK, ed1)"
    "load_nested_loop mem pool as ed1 = (CLASSFILE_OK, ed')" by (auto split: prod.splits if_splits)
  from load_nested_stage [OF l(1) Cons.prems(2-4)] Cons.prems(5) have
    "tables_ok ed1" "stage (min 4 (Suc (kind_rank (nested_kind pool a)))) ed1"
    "nested_of ed1 = nested_of ed @ [a]" "body_of ed1 = body_of ed" by auto
  with Cons.IH [OF l(2) Cons.prems(2)] Cons.prems(5) show ?case by auto
qed simp

lemma copy_exceptions_items:
  "copy_exceptions mem t = (CLASSFILE_OK, t') \<Longrightarrow> vec_inv t \<Longrightarrow> items t' = items t \<and> vec_inv t'"
  "alloc_total mem \<Longrightarrow> vec_inv t \<Longrightarrow> fst (copy_exceptions mem t) = CLASSFILE_OK"
proof -
  have r: "\<exists>u. exception_table.append_all mem w (items t) = (CLASSFILE_OK, u) \<and> items u = items t \<and> vec_inv u"
    if "exception_table_reserve mem exception_table_init (vec_count t) = (CLASSFILE_OK, w)" "vec_inv t" for w
    using exception_table.reserve_then_append_all [of exception_table_init mem "vec_count t" w "items t" mem] that
    by (simp add: exception_table_init_def vec_inv_count)
  show "copy_exceptions mem t = (CLASSFILE_OK, t') \<Longrightarrow> vec_inv t \<Longrightarrow> items t' = items t \<and> vec_inv t'"
    using r by (auto simp: copy_exceptions_def append_exceptions_eq split: prod.splits if_splits)
  show "alloc_total mem \<Longrightarrow> vec_inv t \<Longrightarrow> fst (copy_exceptions mem t) = CLASSFILE_OK"
    using r reserve_exact(1) [of mem "vec_count t"]
    by (force simp: copy_exceptions_def append_exceptions_eq exception_table_init_def split: prod.splits)
qed

lemma enc_code_items:
  assumes "max_stack c = max_stack d" "max_locals c = max_locals d" "code_code c = code_code d"
    "items (exceptions c) = items (exceptions d)" "items (code_attributes c) = items (code_attributes d)"
  shows "enc_code c = enc_code d"
  using assms by (simp add: enc_code_def enc_code_head_def code_length_def enc_exceptions_def enc_attributes_def vec_count_def)


lemma code_editor_loadD:
  assumes "code_editor_load mem a pool = Inr ed" "code_attribute_parse mem a = Inr code" "vec_inv (exceptions code)"
  shows "\<exists>list table out. instruction_list_parse mem (code_code code) = Inr list \<and>
    items table = items (exceptions code) \<and> vec_inv table \<and>
    body_of out = (max_stack code, max_locals code, list, table) \<and> tables_ok out \<and> stage 0 out \<and> nested_of out = [] \<and>
    load_nested_loop mem pool (items (code_attributes code)) out = (CLASSFILE_OK, ed)"
proof -
  obtain list table where l: "instruction_list_parse mem (code_code code) = Inr list"
    "copy_exceptions mem (exceptions code) = (CLASSFILE_OK, table)"
    and loop: "load_nested_loop mem pool (items (code_attributes code)) (code_editor_init\<lparr>ed_max_stack := max_stack code,
      ed_max_locals := max_locals code, ed_instructions := list, ed_exceptions := table\<rparr>) = (CLASSFILE_OK, ed)"
    using assms(1,2) by (auto simp: code_editor_load_def Let_def split: sum.splits prod.splits if_splits)
  have "vec_inv attribute_list_init" "items attribute_list_init = []" by (simp_all add: attribute_list_init_def)
  with l loop copy_exceptions_items(1) [OF l(2) assms(3)] show ?thesis
    by (intro exI [of _ list] exI [of _ table] exI conjI [OF l(1)])
       (auto simp: body_of_def tables_ok_def stage_def nested_of_def table_attribute_def code_editor_init_def)
qed

section \<open>Properties\<close>

text \<open>A method with a line number table and an attribute the editor does not know.\<close>

definition sample_pool :: constant_pool where
  "sample_pool = \<lparr>pool_entries = [CP_None, CP_Utf8 (cstr ''LineNumberTable''), CP_Utf8 (cstr ''Other'')], pool_count = 3\<rparr>"

definition sample_lines :: "line_number_entry list" where
  "sample_lines = [\<lparr>ln_start_pc = 0, ln_line_number = 7\<rparr>]"

definition sample_method :: code_attribute where
  "sample_method =
     \<lparr>max_stack = 1, max_locals = 1, code_code = [0x04, 0x57, 0xB1], exceptions = \<lparr>items = [], vcap = 0\<rparr>,
      code_attributes = \<lparr>items = [\<lparr>attribute_name_index = 1, attr_info = enc_lines sample_lines\<rparr>,
        \<lparr>attribute_name_index = 2, attr_info = [9]\<rparr>], vcap = 2\<rparr>\<rparr>"

text \<open>
  C24: a method that was loaded into the editor and not edited is stored byte for byte: the
  stored Code attribute is the one it was loaded from. The tables have to stand in the order
  the editor writes them, without trailing bytes, and the code must have no switch (whose
  padding the encoder normalises).
\<close>

theorem code_editor_load_store:
  assumes "code_attribute_parse mem a = Inr code" "enc_code code = attr_info a" "wf_attribute a"
    and "canonical pool 0 (items (code_attributes code))" "length (code_code code) \<le> JVM_MAX_CODE_LENGTH"
    and "code_editor_load mem a pool = Inr ed" "alloc_total mem" "alloc_total mem'"
    and "wide_branches_fit (il_items (ed_instructions ed))"
      "list_all (\<lambda>n. \<not> is_switch (ins_u n)) (il_items (ed_instructions ed))"
  shows "code_editor_store mem' ed a = Some (CLASSFILE_OK, a)"
proof -
  note wf = code_attribute_parse_sound(1) [OF assms(1), unfolded wf_code_def wf_attributes_def]
  from code_editor_loadD [OF assms(6,1)] wf obtain list table out where
    l: "instruction_list_parse mem (code_code code) = Inr list" "items table = items (exceptions code)"
      "vec_inv table" "body_of out = (max_stack code, max_locals code, list, table)"
    and out: "tables_ok out" "stage 0 out" "nested_of out = []"
    and loop: "load_nested_loop mem pool (items (code_attributes code)) out = (CLASSFILE_OK, ed)" by blast
  from load_nested_loop_stage [OF loop assms(7) out(1,2) assms(4)] out(3) l(4) have
    ed: "tables_ok ed" "nested_of ed = items (code_attributes code)"
      "ed_instructions ed = list" "ed_exceptions ed = table" "ed_max_stack ed = max_stack code" "ed_max_locals ed = max_locals code"
    by (auto simp: body_of_def)
  note s = instruction_list_parse_sound(1) [OF l(1)]
  have "wf_list (il_items list)"
    using code_bytes_encodable [OF s] code_bytes_iff [OF s] assms(5,9) ed(3)
    by (simp add: wf_list_def JVM_MAX_CODE_LENGTH_def)
  with instruction_list_encode_total [OF assms(8), of list] code_bytes_unpadded [OF s] assms(5,10) ed(3)
  have enc: "instruction_list_encode mem' list = Some (Inr (code_code code))" by (simp add: list_all_iff)
  from copy_exceptions_items(2) [OF assms(8) l(3)] obtain table' where
    t: "copy_exceptions mem' table = (CLASSFILE_OK, table')" by (metis prod.collapse)
  note ti = copy_exceptions_items(1) [OF t l(3)]
  from store_attributes_holds [OF assms(8) ed(1)] ed(2) wf vec_inv_length [of "code_attributes code"] obtain as where
    as: "store_attributes mem' ed = (CLASSFILE_OK, as)" "items as = items (code_attributes code)"
    by (cases "store_attributes mem' ed") (auto simp: holds_def)
  let ?c = "\<lparr>max_stack = max_stack code, max_locals = max_locals code, code_code = code_code code,
      exceptions = table', code_attributes = as\<rparr>"
  have "enc_code ?c = attr_info a" using enc_code_items [of ?c code] as(2) ti l(2) assms(2) by simp
  moreover from this assms(3) have "length (enc_code ?c) \<le> 0xFFFFFFFF" by (simp add: wf_attribute_def)
  ultimately have "code_attribute_write mem' ?c a = (CLASSFILE_OK, a)"
    using code_attribute_write_total [OF assms(8), of ?c a] by simp
  with enc t as(1) ed show ?thesis by (simp add: code_editor_store_def)
qed

theorem code_editor_load_store_witness:
  "\<exists>ed. code_editor_load heap_ok \<lparr>attribute_name_index = 7, attr_info = enc_code sample_method\<rparr> sample_pool = Inr ed \<and>
     code_editor_store heap_ok ed \<lparr>attribute_name_index = 7, attr_info = enc_code sample_method\<rparr> =
       Some (CLASSFILE_OK, \<lparr>attribute_name_index = 7, attr_info = enc_code sample_method\<rparr>)"
proof -
  let ?a = "\<lparr>attribute_name_index = 7, attr_info = enc_code sample_method\<rparr>"
  let ?ok = "\<lambda>ed. wide_branches_fit (il_items (ed_instructions ed)) \<and>
      list_all (\<lambda>n. \<not> is_switch (ins_u n)) (il_items (ed_instructions ed))"
  have "code_attribute_parse heap_ok ?a = Inr sample_method"
    by (rule code_attribute_parse_complete [of sample_method heap_ok ?a, THEN trans])
      (simp_all add: alloc_total_heap_ok sample_method_def wf_code_def wf_attributes_def wf_attribute_def vec_inv_def
        code_trim_def vec_trim_def vec_count_def enc_lines_def sample_lines_def enc_line_def)
  moreover have "wf_attribute ?a"
    by (simp add: wf_attribute_def enc_code_def enc_code_head_def enc_exceptions_def enc_attributes_def enc_attribute_def
        sample_method_def enc_lines_def sample_lines_def enc_line_def)
  moreover have "canonical sample_pool 0 (items (code_attributes sample_method))"
  proof -
    have "nested_kind sample_pool \<lparr>attribute_name_index = 1, attr_info = p\<rparr> = Line_Numbers"
      "nested_kind sample_pool \<lparr>attribute_name_index = 2, attr_info = p\<rparr> = Opaque" for p
      by (simp_all add: nested_kind_def sample_pool_def constant_pool_utf8_equals_def constant_pool_utf8_def
          constant_pool_at_def word_le_nat_alt)
    then show ?thesis by (auto simp: sample_method_def wf_attribute_def sample_lines_def intro: exI [of _ sample_lines])
  qed
  moreover have "case code_editor_load heap_ok ?a sample_pool of Inl _ \<Rightarrow> False | Inr ed \<Rightarrow> ?ok ed"
    by code_simp
  then obtain ed where "code_editor_load heap_ok ?a sample_pool = Inr ed" "?ok ed" by (auto split: sum.splits)
  moreover have "length (code_code sample_method) \<le> JVM_MAX_CODE_LENGTH"
    by (simp add: sample_method_def JVM_MAX_CODE_LENGTH_def)
  ultimately show ?thesis
    using code_editor_load_store [of heap_ok ?a sample_method sample_pool ed heap_ok] alloc_total_heap_ok by auto
qed

end
