(* ===== verification/Call_Insertion.thy ===== *)
theory Call_Insertion
  imports Call_Forwarding Constructor_Init Code_Insert Code_Roundtrip
begin

text \<open>
  The second half of \<^verbatim>\<open>class_transform.c\<close>: inserting a call of a static method with forwarded arguments,
  a call that may skip the body, and a call of a native method added to the class itself.

  The operations return \<open>None\<close> where the code has no result: the padding loop of the
  encoder that does not end after a failed allocation, and a copy whose length underflows. Otherwise they return
  the transform status, the cause and the class file.
\<close>

section \<open>Emitted code\<close>

definition node :: "u1 \<Rightarrow> operand \<Rightarrow> instruction" where
  "node opcode u = \<lparr>ins_offset = 0, ins_opcode = opcode, ins_wide = False, ins_u = u\<rparr>"

definition call_prologue :: "i4 \<Rightarrow> forwarded_parameter list \<Rightarrow> u2 \<Rightarrow> instruction list" where
  "call_prologue argument ps methodref =
     node JVM_OPC_sipush (Op_Immediate argument) #
     map (\<lambda>p. node (load_opcode p) (Op_Local (fp_slot p))) ps @
     [node JVM_OPC_invokestatic (Op_CpIndex methodref)]"

definition pushed_slots :: "forwarded_parameter list \<Rightarrow> u2" where
  "pushed_slots ps =
     fold (\<lambda>p pushed. pushed + (if load_opcode p = JVM_OPC_lload \<or> load_opcode p = JVM_OPC_dload then 2 else 1)) ps 1"

section \<open>Shared steps\<close>

text \<open>The checks on the method that is called into; \<open>Inr\<close> is the position of its Code attribute.\<close>

definition called_body :: "ClassFile \<Rightarrow> bool \<Rightarrow> nat \<Rightarrow> transform_status + nat" where
  "called_body cf constructors_too index =
     (let method = method_at cf index in
      if (if constructors_too then is_initializer cf method
          else classFile_utf8_equals cf (name_index method) (cstr ''<clinit>'')) then Inl TRANSFORM_ERR_INITIALIZER
      else if access_flags method AND JVM_ACC_ABSTRACT \<noteq> 0 then Inl TRANSFORM_ERR_ABSTRACT
      else if access_flags method AND JVM_ACC_NATIVE \<noteq> 0 then Inl TRANSFORM_ERR_ALREADY_NATIVE
      else case find_code cf index of None \<Rightarrow> Inl TRANSFORM_ERR_NO_CODE | Some k \<Rightarrow> Inr k)"

abbreviation code_at :: "ClassFile \<Rightarrow> nat \<Rightarrow> nat \<Rightarrow> attribute_info" where
  "code_at cf index k \<equiv> items (attributes (method_at cf index)) ! k"

definition put_code :: "nat \<Rightarrow> nat \<Rightarrow> attribute_info \<Rightarrow> ClassFile \<Rightarrow> ClassFile" where
  "put_code index k code cf =
     (let attrs = attributes (method_at cf index)
      in put_attributes index (attrs\<lparr>items := (items attrs)[k := code]\<rparr>) cf)"

text \<open>In a constructor nothing may run before \<open>this\<close> is initialised.\<close>

definition safe_offset_for :: "alloc \<Rightarrow> ClassFile \<Rightarrow> bool \<Rightarrow> code_editor \<Rightarrow> u4 \<Rightarrow> (transform_status + u4) option" where
  "safe_offset_for mem cf is_constructor ed at_offset =
     (if \<not> is_constructor then Some (Inr at_offset)
      else
        map_option (\<lambda>(init, found).
          if init \<noteq> CONSTRUCTOR_INIT_FOUND
          then Inl (if init = CONSTRUCTOR_INIT_AMBIGUOUS then TRANSFORM_ERR_AMBIGUOUS_INIT
                    else TRANSFORM_ERR_INITIALIZER)
          else
            let safe_offset = (case found of Some a \<Rightarrow> a | None \<Rightarrow> 0)
            in Inr (if at_offset < safe_offset then safe_offset else at_offset))
          (constructor_init_offset mem cf ed))"

definition save_code ::
  "alloc \<Rightarrow> code_editor \<Rightarrow> nat \<Rightarrow> nat \<Rightarrow> ClassFile \<Rightarrow> (classfile_status \<times> ClassFile) option" where
  "save_code mem ed index k cf =
     map_option (\<lambda>(status, code). (status, put_code index k code cf))
       (code_editor_store mem ed (code_at cf index k))"

definition insert_and_store ::
  "alloc \<Rightarrow> code_editor \<Rightarrow> u4 \<Rightarrow> instruction list \<Rightarrow> u2 \<Rightarrow> nat \<Rightarrow> nat \<Rightarrow> ClassFile \<Rightarrow>
   (classfile_status \<times> ClassFile) option" where
  "insert_and_store mem ed at_offset nodes extra index k cf =
     (let (status, ed) = code_editor_insert mem ed at_offset nodes extra
      in if status \<noteq> CLASSFILE_OK then Some (status, cf) else save_code mem ed index k cf)"

definition edit_failure :: "classfile_status \<Rightarrow> ClassFile \<Rightarrow> transformed" where
  "edit_failure status cf =
     (if status = CLASSFILE_ERR_BAD_OFFSET then refuse TRANSFORM_ERR_BAD_OFFSET cf else fail status cf)"

section \<open>A static call\<close>

text \<open>The part behind the choice of the offset: name the callee, emit the prologue, store the code.\<close>

definition emit_static_call ::
  "alloc \<Rightarrow> ClassFile \<Rightarrow> nat \<Rightarrow> nat \<Rightarrow> code_editor \<Rightarrow> cstring \<Rightarrow> bool \<Rightarrow> u4 \<Rightarrow> u2 \<Rightarrow> cstring \<Rightarrow> i4 \<Rightarrow> bool \<Rightarrow>
   transformed option" where
  "emit_static_call mem cf index k ed descriptor is_static at_offset owner_index callee argument forward_arguments =
     (case describe_parameters descriptor is_static 64 of
        None \<Rightarrow> Some (refuse TRANSFORM_ERR_METHOD_NOT_FOUND cf)
      | Some (parameters, _) \<Rightarrow>
          let parameters = (if forward_arguments then parameters else []) in
          (case build_callee_descriptor parameters 1024 of
             None \<Rightarrow> Some (refuse TRANSFORM_ERR_METHOD_NOT_FOUND cf)
           | Some callee_descriptor \<Rightarrow>
               (case classFile_intern_methodref mem cf owner_index callee callee_descriptor of
                  (status, cf, None) \<Rightarrow> Some (fail status cf)
                | (status, cf, Some methodref) \<Rightarrow>
                    map_option (\<lambda>(status, cf).
                      if status \<noteq> CLASSFILE_OK then edit_failure status cf else refuse TRANSFORM_OK cf)
                      (insert_and_store mem ed at_offset (call_prologue argument parameters methodref)
                         (pushed_slots parameters) index k cf))))"

definition class_transform_insert_static_call ::
  "alloc \<Rightarrow> ClassFile \<Rightarrow> cstring \<Rightarrow> cstring \<Rightarrow> u4 \<Rightarrow> cstring \<Rightarrow> cstring \<Rightarrow> i4 \<Rightarrow> bool \<Rightarrow> transformed option" where
  "class_transform_insert_static_call mem cf name descriptor at_offset owner callee argument forward_arguments =
     (if argument < - 32768 \<or> argument > 32767 then Some (refuse TRANSFORM_ERR_BAD_OFFSET cf)
      else
        case classFile_find_method cf name (Some descriptor) of
          None \<Rightarrow> Some (refuse TRANSFORM_ERR_METHOD_NOT_FOUND cf)
        | Some index \<Rightarrow>
            (case called_body cf False index of
               Inl status \<Rightarrow> Some (refuse status cf)
             | Inr _ \<Rightarrow>
                 let is_constructor = is_instance_initializer cf (method_at cf index);
                     is_static = access_flags (method_at cf index) AND JVM_ACC_STATIC \<noteq> 0
                 in
                 (case classFile_intern_class mem cf owner of
                    (status, cf, None) \<Rightarrow> Some (fail status cf)
                  | (status, cf, Some owner_index) \<Rightarrow>
                      (case find_code cf index of
                         None \<Rightarrow> None
                       | Some k \<Rightarrow>
                           (case code_editor_load mem (code_at cf index k) (cf_pool cf) of
                              Inl status \<Rightarrow> Some (fail status cf)
                            | Inr ed \<Rightarrow>
                                (case safe_offset_for mem cf is_constructor ed at_offset of
                                   None \<Rightarrow> None
                                 | Some (Inl status) \<Rightarrow> Some (refuse status cf)
                                 | Some (Inr at_offset) \<Rightarrow>
                                     emit_static_call mem cf index k ed descriptor is_static at_offset
                                       owner_index callee argument forward_arguments))))))"

section \<open>A call that may skip the body\<close>

text \<open>The descriptor of the value callee in its eight bytes; the result follows \<open>(I)\<close>.\<close>

fun value_descriptor_loop :: "cstring \<Rightarrow> cstring \<Rightarrow> cstring option" where
  "value_descriptor_loop [] out = Some out"
| "value_descriptor_loop (c # cursor) out =
     (if length out + 1 \<ge> 8 then None
      else if c \<noteq> JVM_SIGNATURE_ARRAY \<and> c \<noteq> JVM_SIGNATURE_CLASS then Some (out @ [c])
      else value_descriptor_loop cursor (out @ [c]))"

text \<open>What is returned instead of the body's result. \<open>returned\<close> is the text behind the closing parenthesis.\<close>

definition value_nodes ::
  "alloc \<Rightarrow> ClassFile \<Rightarrow> u2 \<Rightarrow> cstring option \<Rightarrow> i4 \<Rightarrow> cstring \<Rightarrow>
   (classfile_status \<times> ClassFile + ClassFile \<times> instruction list) option" where
  "value_nodes mem cf owner_index value_callee argument returned =
     (let is_reference = hd returned = JVM_SIGNATURE_CLASS \<or> hd returned = JVM_SIGNATURE_ARRAY in
      case value_callee of
        None \<Rightarrow> Some (Inr (cf, [node (default_opcode_for (hd returned)) Op_None]))
      | Some value_callee \<Rightarrow>
          (case value_descriptor_loop returned (cstr ''(I)'') of
             None \<Rightarrow> Some (Inl (CLASSFILE_ERR_UNSUPPORTED, cf))
           | Some value_descriptor \<Rightarrow>
               (case classFile_intern_methodref mem cf owner_index value_callee
                       (if is_reference then cstr ''(I)Ljava/lang/Object;'' else value_descriptor) of
                  (status, cf, None) \<Rightarrow> Some (Inl (status, cf))
                | (status, cf, Some value_ref) \<Rightarrow>
                    let nodes = [node JVM_OPC_sipush (Op_Immediate argument),
                                 node JVM_OPC_invokestatic (Op_CpIndex value_ref)]
                    in if \<not> is_reference then Some (Inr (cf, nodes))
                       else if length returned \<ge> 512 then Some (Inl (CLASSFILE_ERR_UNSUPPORTED, cf))
                       else if hd returned = JVM_SIGNATURE_CLASS \<and> length returned < 2 then None
                       else
                         (case classFile_intern_class mem cf
                                 (if hd returned = JVM_SIGNATURE_CLASS
                                  then take (length returned - 2) (tl returned) else returned) of
                            (status, cf, None) \<Rightarrow> Some (Inl (status, cf))
                          | (status, cf, Some cast_index) \<Rightarrow>
                              Some (Inr (cf, nodes @ [node JVM_OPC_checkcast (Op_CpIndex cast_index)]))))))"

text \<open>
  The splice of the guard: the body starts behind the inserted nodes, the branch goes there, and the
  place gets the entry frame.
\<close>

definition patch_branch :: "nat \<Rightarrow> i4 \<Rightarrow> code_editor \<Rightarrow> code_editor" where
  "patch_branch branch_node target ed =
     (let list = ed_instructions ed
      in ed\<lparr>ed_instructions := list\<lparr>il_items := (il_items list)
           [branch_node := (il_items list ! branch_node)\<lparr>ins_u := Op_Branch target\<rparr>]\<rparr>\<rparr>)"

definition frame_body ::
  "alloc \<Rightarrow> ClassFile \<Rightarrow> code_editor \<Rightarrow> cstring \<Rightarrow> bool \<Rightarrow> i4 \<Rightarrow>
   classfile_status \<times> ClassFile \<times> code_editor" where
  "frame_body mem cf ed descriptor is_static body_offset =
     (let (status, cf, frame) = build_entry_frame mem cf descriptor is_static body_offset
      in if status \<noteq> CLASSFILE_OK then (status, cf, ed)
         else
           let (status, table, taken) = insert_frame mem (ed_stack_map ed) frame;
               ed = ed\<lparr>ed_stack_map := table\<rparr>
           in if status \<noteq> CLASSFILE_OK then (status, cf, ed)
              else if has_stack_map ed then (CLASSFILE_OK, cf, ed)
              else
                (case classFile_intern_utf8 mem cf (cstr ''StackMapTable'') of
                   (status, cf, None) \<Rightarrow> (status, cf, ed)
                 | (status, cf, Some attribute_name) \<Rightarrow>
                     (CLASSFILE_OK, cf, ed\<lparr>stack_map_name_index := attribute_name, has_stack_map := True\<rparr>)))"

definition splice_guard ::
  "alloc \<Rightarrow> ClassFile \<Rightarrow> nat \<Rightarrow> code_editor \<Rightarrow> cstring \<Rightarrow> bool \<Rightarrow> nat \<Rightarrow> instruction list \<Rightarrow> u2 \<Rightarrow>
   transformed option" where
  "splice_guard mem cf index ed descriptor is_static branch_node nodes pushed =
     (let (status, ed) = code_editor_insert mem ed 0 nodes pushed
      in if status \<noteq> CLASSFILE_OK then Some (edit_failure status cf)
         else if il_count (ed_instructions ed) \<le> of_nat (length nodes)
         then Some (fail CLASSFILE_ERR_UNSUPPORTED cf)
         else
           let body_offset = sint (ins_offset (il_items (ed_instructions ed) ! length nodes));
               (status, cf, ed) = frame_body mem cf (patch_branch branch_node body_offset ed)
                                    descriptor is_static body_offset
           in if status \<noteq> CLASSFILE_OK then Some (fail status cf)
              else
                (case find_code cf index of
                   None \<Rightarrow> None
                 | Some k \<Rightarrow>
                     map_option (\<lambda>(status, cf).
                       if status \<noteq> CLASSFILE_OK then fail status cf else refuse TRANSFORM_OK cf)
                       (save_code mem ed index k cf)))"

definition class_transform_insert_guarded_call ::
  "alloc \<Rightarrow> ClassFile \<Rightarrow> cstring \<Rightarrow> cstring \<Rightarrow> cstring \<Rightarrow> cstring \<Rightarrow> cstring option \<Rightarrow> i4 \<Rightarrow> transformed option" where
  "class_transform_insert_guarded_call mem cf name descriptor owner callee value_callee argument =
     (if argument < - 32768 \<or> argument > 32767 then Some (refuse TRANSFORM_ERR_BAD_OFFSET cf)
      else
        case classFile_find_method cf name (Some descriptor) of
          None \<Rightarrow> Some (refuse TRANSFORM_ERR_METHOD_NOT_FOUND cf)
        | Some index \<Rightarrow>
            (case called_body cf True index of
               Inl status \<Rightarrow> Some (refuse status cf)
             | Inr k \<Rightarrow>
                 let is_static = access_flags (method_at cf index) AND JVM_ACC_STATIC \<noteq> 0;
                     returned = tl (dropWhile (\<lambda>c. c \<noteq> JVM_SIGNATURE_ENDFUNC) descriptor)
                 in if returned = [] then Some (refuse TRANSFORM_ERR_METHOD_NOT_FOUND cf)
                    else
                 (case classFile_intern_class mem cf owner of
                    (status, cf, None) \<Rightarrow> Some (fail status cf)
                  | (status, cf, Some owner_index) \<Rightarrow>
                      (case code_editor_load mem (code_at cf index k) (cf_pool cf) of
                         Inl status \<Rightarrow> Some (fail status cf)
                       | Inr ed \<Rightarrow>
                           (case describe_parameters descriptor is_static 64 of
                              None \<Rightarrow> Some (refuse TRANSFORM_ERR_METHOD_NOT_FOUND cf)
                            | Some (parameters, _) \<Rightarrow>
                                (case build_callee_descriptor parameters 1024 of
                                   None \<Rightarrow> Some (refuse TRANSFORM_ERR_METHOD_NOT_FOUND cf)
                                 | Some callee_descriptor \<Rightarrow>
                                     (case classFile_intern_methodref mem cf owner_index callee
                                             (butlast callee_descriptor @ [JVM_SIGNATURE_BOOLEAN]) of
                                        (status, cf, None) \<Rightarrow> Some (fail status cf)
                                      | (status, cf, Some methodref) \<Rightarrow>
                                          (case (if hd returned = JVM_SIGNATURE_VOID then Some (Inr (cf, []))
                                                 else value_nodes mem cf owner_index value_callee argument returned) of
                                             None \<Rightarrow> None
                                           | Some (Inl (status, cf)) \<Rightarrow> Some (fail status cf)
                                           | Some (Inr (cf, value)) \<Rightarrow>
                                               let prologue = call_prologue argument parameters methodref;
                                                   nodes = prologue @ node JVM_OPC_ifeq (Op_Branch 0) # value @
                                                     [node (return_opcode_for (hd returned)) Op_None];
                                                   pushed = pushed_slots parameters;
                                                   pushed = (if hd returned \<noteq> JVM_SIGNATURE_VOID \<and> pushed < 2
                                                             then 2 else pushed)
                                               in splice_guard mem cf index ed descriptor is_static
                                                    (length prologue) nodes pushed))))))))"

section \<open>A call of a native method of the class\<close>

text \<open>The part behind the append of the hook method; a failure takes the method out again.\<close>

definition call_hook ::
  "alloc \<Rightarrow> ClassFile \<Rightarrow> nat \<Rightarrow> bool \<Rightarrow> bool \<Rightarrow> u4 \<Rightarrow> u2 \<Rightarrow> transformed option" where
  "call_hook mem cf index is_constructor is_static at_offset methodref =
     (let hook_index = vec_count (cf_methods cf) - 1;
          rollback = (\<lambda>cf. cf\<lparr>cf_methods := member_list_remove (cf_methods cf) hook_index\<rparr>)
      in case find_code cf index of
           None \<Rightarrow> None
         | Some k \<Rightarrow>
             (case code_editor_load mem (code_at cf index k) (cf_pool cf) of
                Inl status \<Rightarrow> Some (fail status (rollback cf))
              | Inr ed \<Rightarrow>
                  (case safe_offset_for mem cf is_constructor ed at_offset of
                     None \<Rightarrow> None
                   | Some (Inl status) \<Rightarrow> Some (refuse status (rollback cf))
                   | Some (Inr at_offset) \<Rightarrow>
                       map_option (\<lambda>(status, cf).
                         if status \<noteq> CLASSFILE_OK then edit_failure status (rollback cf)
                         else refuse TRANSFORM_OK cf)
                         (insert_and_store mem ed at_offset
                            ((if is_static then [] else [node JVM_OPC_aload_0 Op_None]) @
                             [node (if is_static then JVM_OPC_invokestatic else JVM_OPC_invokespecial)
                                (Op_CpIndex methodref)])
                            1 index k cf))))"

definition class_transform_insert_call ::
  "alloc \<Rightarrow> ClassFile \<Rightarrow> cstring \<Rightarrow> cstring \<Rightarrow> u4 \<Rightarrow> cstring \<Rightarrow> transformed option" where
  "class_transform_insert_call mem cf name descriptor at_offset hook_name =
     (if cf_access_flags cf AND JVM_ACC_INTERFACE \<noteq> 0 then Some (refuse TRANSFORM_ERR_INTERFACE cf)
      else if classFile_find_method cf hook_name (Some (cstr ''()V'')) \<noteq> None
      then Some (refuse TRANSFORM_ERR_NAME_IN_USE cf)
      else
        case classFile_find_method cf name (Some descriptor) of
          None \<Rightarrow> Some (refuse TRANSFORM_ERR_METHOD_NOT_FOUND cf)
        | Some index \<Rightarrow>
            (case called_body cf False index of
               Inl status \<Rightarrow> Some (refuse status cf)
             | Inr _ \<Rightarrow>
                 let is_constructor = is_instance_initializer cf (method_at cf index);
                     is_static = access_flags (method_at cf index) AND JVM_ACC_STATIC \<noteq> 0
                 in
                 (case classFile_intern_utf8 mem cf hook_name of
                    (status, cf, None) \<Rightarrow> Some (fail status cf)
                  | (status, cf, Some hook_name_index) \<Rightarrow>
                      (case classFile_intern_utf8 mem cf (cstr ''()V'') of
                         (status, cf, None) \<Rightarrow> Some (fail status cf)
                       | (status, cf, Some void_index) \<Rightarrow>
                           (case classFile_intern_methodref mem cf (this_class cf) hook_name (cstr ''()V'') of
                              (status, cf, None) \<Rightarrow> Some (fail status cf)
                            | (status, cf, Some methodref) \<Rightarrow>
                                let hook = member_info_init
                                      \<lparr>access_flags := JVM_ACC_PRIVATE OR JVM_ACC_FINAL OR JVM_ACC_NATIVE OR
                                         (if is_static then JVM_ACC_STATIC else 0),
                                       name_index := hook_name_index, descriptor_index := void_index\<rparr>;
                                    (status, methods) = member_list_append mem (cf_methods cf) hook;
                                    cf = cf\<lparr>cf_methods := methods\<rparr>
                                in if status \<noteq> CLASSFILE_OK then Some (fail status cf)
                                   else call_hook mem cf index is_constructor is_static at_offset methodref)))))"

section \<open>A failure changes nothing but the pool\<close>

definition kept :: "ClassFile \<Rightarrow> ClassFile \<Rightarrow> bool" where
  "kept cf cf' \<longleftrightarrow>
     cf' = cf\<lparr>cf_pool := cf_pool cf', cf_methods := cf_methods cf'\<rparr> \<and>
     items (cf_methods cf') = items (cf_methods cf) \<and> pool_extends (cf_pool cf) (cf_pool cf') \<and>
     pool_inv (cf_pool cf')"

text \<open>A computation on a class that ends in a failure keeps the class.\<close>

definition keeps :: "ClassFile \<Rightarrow> transformed option \<Rightarrow> bool" where
  "keeps cf r \<longleftrightarrow> pool_inv (cf_pool cf) \<longrightarrow> vec_inv (cf_methods cf) \<longrightarrow>
     (case r of None \<Rightarrow> True | Some (status, _, cf') \<Rightarrow> status = TRANSFORM_OK \<or> kept cf cf')"

named_theorems keeps_rules

lemma kept_refl: "pool_inv (cf_pool cf) \<Longrightarrow> kept cf cf"
  by (simp add: kept_def)

lemma interned_methods: "interned cf cf' \<Longrightarrow> cf_methods cf' = cf_methods cf"
  unfolding interned_def by (metis ClassFile.select_convs(9) ClassFile.surjective ClassFile.update_convs(3))

lemma interned_kept: "interned cf cf1 \<Longrightarrow> kept cf1 cf2 \<Longrightarrow> kept cf cf2"
  unfolding kept_def interned_def
  by (cases cf; cases cf1; cases cf2) (auto intro: pool_extends_trans)

lemma keeps_trivial: "\<not> pool_inv (cf_pool cf) \<Longrightarrow> keeps cf r"
  by (simp add: keeps_def)

lemma keeps_same [keeps_rules]:
  "keeps cf None" "keeps cf (Some (s, c, cf))" "keeps cf (Some (fail status cf))"
  "keeps cf (Some (edit_failure status cf))"
  by (simp_all add: keeps_def fail_def edit_failure_def kept_refl)

lemma keeps_interned: "interned cf cf1 \<Longrightarrow> keeps cf1 r \<Longrightarrow> keeps cf r"
  using interned_kept [of cf cf1] interned_inv [of cf cf1] interned_methods [of cf cf1]
  by (auto simp: keeps_def split: option.splits prod.splits)

lemma keeps_splits [keeps_rules]:
  "keeps cf f \<Longrightarrow> keeps cf g \<Longrightarrow> keeps cf (if b then f else g)"
  "keeps cf f \<Longrightarrow> (\<And>x. keeps cf (h x)) \<Longrightarrow> keeps cf (case opt of None \<Rightarrow> f | Some x \<Rightarrow> h x)"
  "(\<And>x. keeps cf (l x)) \<Longrightarrow> (\<And>y. keeps cf (r y)) \<Longrightarrow> keeps cf (case s of Inl x \<Rightarrow> l x | Inr y \<Rightarrow> r y)"
  "(\<And>x y. keeps cf (p x y)) \<Longrightarrow> keeps cf (case q of (x, y) \<Rightarrow> p x y)"
  by (simp_all split: option.split sum.split prod.split)

text \<open>Whatever a step interned is kept; the rest works on the grown class.\<close>

lemma keeps_intern:
  assumes "\<And>st cf1 i. intern = (st, cf1, i) \<Longrightarrow> pool_inv (cf_pool cf) \<Longrightarrow> interned cf cf1"
    and "\<And>st cf1. keeps cf1 (f st cf1)" "\<And>st cf1 i. keeps cf1 (g st cf1 i)"
  shows "keeps cf (case intern of (st, cf1, None) \<Rightarrow> f st cf1 | (st, cf1, Some i) \<Rightarrow> g st cf1 i)"
proof (cases "pool_inv (cf_pool cf)")
  case True
  obtain st cf1 i where i: "intern = (st, cf1, i)" by (metis prod_cases3)
  have "keeps cf1 (case i of None \<Rightarrow> f st cf1 | Some i \<Rightarrow> g st cf1 i)"
    using assms(2,3) by (cases i) simp_all
  with assms(1) [OF i True] i show ?thesis by (simp add: keeps_interned)
qed (rule keeps_trivial)

lemmas keeps_intern_class = keeps_intern [OF conjunct1 [OF intern_class_spec]]
lemmas keeps_intern_methodref = keeps_intern [OF conjunct1 [OF intern_methodref_spec]]
lemmas keeps_intern_utf8 = keeps_intern [OF conjunct1 [OF intern_utf8_all]]

declare keeps_intern_class [keeps_rules] keeps_intern_methodref [keeps_rules] keeps_intern_utf8 [keeps_rules]

lemma put_code_same: "put_code index k (code_at cf index k) cf = cf"
  by (simp add: put_code_def put_attributes_def)

lemma store_failure: "code_editor_store mem ed code = Some (status, code') \<Longrightarrow> status \<noteq> CLASSFILE_OK \<Longrightarrow> code' = code"
  by (auto simp: code_editor_store_def code_attribute_write_def Let_def split: option.splits sum.splits if_splits prod.splits)

lemma save_code_failure:
  "save_code mem ed index k cf = Some (status, cf') \<Longrightarrow> status \<noteq> CLASSFILE_OK \<Longrightarrow> cf' = cf"
  by (auto simp: save_code_def put_code_same dest!: store_failure)

lemma insert_and_store_failure:
  "insert_and_store mem ed at_offset nodes extra index k cf = Some (status, cf') \<Longrightarrow> status \<noteq> CLASSFILE_OK \<Longrightarrow> cf' = cf"
  by (auto simp: insert_and_store_def Let_def split: prod.splits if_splits dest: save_code_failure)

lemma keeps_edit [keeps_rules]:
  "keeps cf (map_option (\<lambda>(status, cf). if status \<noteq> CLASSFILE_OK then edit_failure status cf else refuse TRANSFORM_OK cf)
     (insert_and_store mem ed at_offset nodes extra index k cf))"
  using insert_and_store_failure [of mem ed at_offset nodes extra index k cf]
  by (cases "insert_and_store mem ed at_offset nodes extra index k cf")
    (auto simp: keeps_def edit_failure_def fail_def kept_refl split: if_splits)

lemma keeps_save [keeps_rules]:
  "keeps cf (map_option (\<lambda>(status, cf). if status \<noteq> CLASSFILE_OK then fail status cf else refuse TRANSFORM_OK cf)
     (save_code mem ed index k cf))"
  using save_code_failure [of mem ed index k cf]
  by (cases "save_code mem ed index k cf") (auto simp: keeps_def fail_def kept_refl split: if_splits)

lemma emit_static_call_keeps [keeps_rules]:
  "keeps cf (emit_static_call mem cf index k ed descriptor is_static at_offset owner_index callee argument forward)"
  unfolding emit_static_call_def Let_def by (intro keeps_rules)

lemma static_call_keeps:
  "keeps cf (class_transform_insert_static_call mem cf name descriptor at_offset owner callee argument forward)"
  unfolding class_transform_insert_static_call_def Let_def by (intro keeps_rules)

lemma value_nodes_interned:
  assumes "value_nodes mem cf owner_index value_callee argument returned = Some r" "pool_inv (cf_pool cf)"
  shows "interned cf (case r of Inl (_, cf') \<Rightarrow> cf' | Inr (cf', _) \<Rightarrow> cf')"
proof (cases value_callee)
  case None
  with assms show ?thesis by (auto simp: value_nodes_def)
next
  case (Some callee)
  show ?thesis
  proof (cases "value_descriptor_loop returned (cstr ''(I)'')")
    case None
    with Some assms show ?thesis by (auto simp: value_nodes_def)
  next
    case vd: (Some d)
    let ?ref = "hd returned = JVM_SIGNATURE_CLASS \<or> hd returned = JVM_SIGNATURE_ARRAY"
    obtain st1 cf1 i1 where m: "classFile_intern_methodref mem cf owner_index callee
        (if ?ref then cstr ''(I)Ljava/lang/Object;'' else d) = (st1, cf1, i1)" by (metis prod_cases3)
    have k1: "interned cf cf1" using intern_methodref_spec [OF m assms(2)] by blast
    obtain st2 cf2 i2 where c: "classFile_intern_class mem cf1 (if hd returned = JVM_SIGNATURE_CLASS
        then take (length returned - 2) (tl returned) else returned) = (st2, cf2, i2)" by (metis prod_cases3)
    have "interned cf cf2"
      using intern_class_spec [OF c interned_inv [OF k1 assms(2)]] interned_trans [OF k1] by blast
    with k1 Some vd m c assms(1) show ?thesis
      by (auto simp: value_nodes_def Let_def split: option.splits if_splits)
  qed
qed

lemma keeps_value [keeps_rules]:
  assumes "\<And>cf1 v. keeps cf1 (g cf1 v)"
  shows "keeps cf (case (if b then Some (Inr (cf, [])) else value_nodes mem cf owner_index value_callee argument returned) of
     None \<Rightarrow> None
   | Some (Inl (status, cf1)) \<Rightarrow> Some (fail status cf1)
   | Some (Inr (cf1, v)) \<Rightarrow> g cf1 v)"
proof (cases "\<not> pool_inv (cf_pool cf) \<or> b \<or> value_nodes mem cf owner_index value_callee argument returned = None")
  case True
  with assms show ?thesis by (cases b) (auto intro: keeps_same keeps_trivial)
next
  case False
  then obtain r where r: "value_nodes mem cf owner_index value_callee argument returned = Some r" by blast
  from value_nodes_interned [OF r] False have i: "interned cf (case r of Inl (_, cf') \<Rightarrow> cf' | Inr (cf', _) \<Rightarrow> cf')"
    by blast
  have "keeps (case r of Inl (_, cf') \<Rightarrow> cf' | Inr (cf', _) \<Rightarrow> cf')
      (case r of Inl (status, cf1) \<Rightarrow> Some (fail status cf1) | Inr (cf1, v) \<Rightarrow> g cf1 v)"
    using assms by (auto intro: keeps_same split: sum.split)
  with keeps_interned [OF i] False r show ?thesis by simp
qed

lemma frame_loop_interned:
  "frame_loop mem cf cursor locals = (st, cf', ls) \<Longrightarrow> pool_inv (cf_pool cf) \<Longrightarrow> interned cf cf'"
proof (induction mem cf cursor locals arbitrary: st cf' ls rule: frame_loop.induct)
  case (1 mem cf cursor locals)
  let ?array = "\<lambda>c. c = JVM_SIGNATURE_ARRAY"
  from 1(3) consider "cf' = cf"
    | name where "classFile_intern_class mem cf name = (st, cf', None)"
    | c ys d zs name rest st1 cf1 i where "cursor = c # ys" "c \<noteq> JVM_SIGNATURE_ENDFUNC" "length locals \<noteq> 256"
        "dropWhile ?array cursor = d # zs" "c = JVM_SIGNATURE_ARRAY \<or> d = JVM_SIGNATURE_CLASS"
        "reference_name (takeWhile ?array cursor) d zs = Some (name, rest)" "\<not> 512 \<le> length name"
        "classFile_intern_class mem cf name = (st1, cf1, Some i)"
        "frame_loop mem cf1 rest (locals @ [object_type i]) = (st, cf', ls)"
    | c ys d zs t where "cursor = c # ys" "c \<noteq> JVM_SIGNATURE_ENDFUNC" "length locals \<noteq> 256"
        "dropWhile ?array cursor = d # zs" "\<not> (c = JVM_SIGNATURE_ARRAY \<or> d = JVM_SIGNATURE_CLASS)"
        "primitive_type d = Some t" "frame_loop mem cf zs (locals @ [t]) = (st, cf', ls)"
    by (subst (asm) frame_loop.simps) (simp split: list.splits if_splits option.splits prod.splits)
  then show ?case
  proof cases
    case 2
    with intern_class_spec [OF 2 1(4)] show ?thesis by blast
  next
    case 3
    from intern_class_spec [OF 3(8) 1(4)] have i: "interned cf cf1" by blast
    have "interned cf1 cf'"
      by (rule 1(1) [OF 3(1,2,3,4,5,6) refl 3(7) 3(8) [symmetric] refl refl 3(9) interned_inv [OF i 1(4)]])
    with i show ?thesis by (rule interned_trans)
  next
    case 4
    show ?thesis by (rule 1(2) [OF 4(1,2,3,4,5,6,7) 1(4)])
  qed simp
qed

lemma frame_body_interned:
  assumes "frame_body mem cf ed descriptor is_static body_offset = (st, cf', ed')" "pool_inv (cf_pool cf)"
  shows "interned cf cf'"
proof -
  obtain st1 cf1 ls where l: "frame_loop mem cf (tl descriptor) (if \<not> is_static then [object_type (this_class cf)] else []) =
      (st1, cf1, ls)" by (metis prod_cases3)
  note i1 = frame_loop_interned [OF l assms(2)]
  obtain st2 cf2 n where u: "classFile_intern_utf8 mem cf1 (cstr ''StackMapTable'') = (st2, cf2, n)" by (metis prod_cases3)
  have "interned cf cf2"
    using intern_utf8_all [OF u interned_inv [OF i1 assms(2)]] interned_trans [OF i1] by blast
  with i1 l u assms(1) show ?thesis
    by (auto simp: frame_body_def build_entry_frame_def Let_def split: prod.splits if_splits option.splits)
qed

lemma splice_guard_keeps [keeps_rules]:
  "keeps cf (splice_guard mem cf index ed descriptor is_static branch_node nodes pushed)"
proof -
  obtain st ed1 where e: "code_editor_insert mem ed 0 nodes pushed = (st, ed1)" by (metis surj_pair)
  let ?o = "sint (ins_offset (il_items (ed_instructions ed1) ! length nodes))"
  obtain st2 cf2 ed2 where f: "frame_body mem cf (patch_branch branch_node ?o ed1) descriptor is_static ?o = (st2, cf2, ed2)"
    by (metis prod_cases3)
  show ?thesis
  proof (cases "pool_inv (cf_pool cf)")
    case True
    note i = frame_body_interned [OF f True]
    show ?thesis
      unfolding splice_guard_def Let_def e f prod.case
      by (intro keeps_rules keeps_interned [OF i])
  qed (rule keeps_trivial)
qed

lemma guarded_call_keeps:
  "keeps cf (class_transform_insert_guarded_call mem cf name descriptor owner callee value_callee argument)"
  unfolding class_transform_insert_guarded_call_def Let_def by (intro keeps_rules)

text \<open>The rollback removes the method that was appended last.\<close>

lemma remove_appended:
  assumes "member_list_append mem v x = (CLASSFILE_OK, v')" "vec_inv v"
  shows "items (member_list_remove v' (vec_count v' - 1)) = items v"
proof -
  from member_list.append_ok [OF assms(2,1)] have v': "items v' = items v @ [x]" "vec_inv v'" by auto
  have "length (items v') \<le> 65535" using v'(2) vec_inv_length by blast
  then have "vec_count v' - 1 = of_nat (length (items v))"
    by (simp add: vec_count_def v'(1))
  with vec_remove_drop_at [OF v'(2), of "length (items v)"] v' show ?thesis
    by (simp add: member_list_remove_def drop_at_append)
qed

lemma kept_rollback:
  assumes "member_list_append mem (cf_methods cf) hook = (CLASSFILE_OK, methods)" "vec_inv (cf_methods cf)"
    "pool_inv (cf_pool cf)"
  shows "kept cf (cf\<lparr>cf_methods := member_list_remove methods (vec_count methods - 1)\<rparr>)"
  using remove_appended [OF assms(1,2)] assms(3) by (cases cf) (simp add: kept_def)

lemma call_hook_keeps:
  assumes "member_list_append mem (cf_methods cf) hook = (CLASSFILE_OK, methods)"
  shows "keeps cf (call_hook mem (cf\<lparr>cf_methods := methods\<rparr>) index is_constructor is_static at_offset methodref)"
proof -
  let ?cf = "cf\<lparr>cf_methods := methods\<rparr>"
  have fields: "cf_methods ?cf = methods" "?cf\<lparr>cf_methods := v\<rparr> = cf\<lparr>cf_methods := v\<rparr>" for v by simp_all
  have undone: "keeps cf (Some (s, c, cf\<lparr>cf_methods := member_list_remove methods (vec_count methods - 1)\<rparr>))" for s c
    using kept_rollback [OF assms] by (simp add: keeps_def)
  have edit: "keeps cf (map_option (\<lambda>(status, cf). if status \<noteq> CLASSFILE_OK
        then edit_failure status (cf\<lparr>cf_methods := member_list_remove (cf_methods cf) (vec_count methods - 1)\<rparr>)
        else refuse TRANSFORM_OK cf) (insert_and_store mem ed at nodes extra index k ?cf))" for ed at nodes extra k
    using insert_and_store_failure [of mem ed at nodes extra index k ?cf] kept_rollback [OF assms]
    by (cases "insert_and_store mem ed at nodes extra index k ?cf") (auto simp: edit_failure_def fail_def keeps_def split: if_splits)
  show ?thesis
    unfolding call_hook_def Let_def fail_def fields by (intro keeps_rules undone edit)
qed

lemma append_hook_keeps:
  "keeps cf (case member_list_append mem (cf_methods cf) hook of (status, methods) \<Rightarrow>
     if status \<noteq> CLASSFILE_OK then Some (fail status (cf\<lparr>cf_methods := methods\<rparr>))
     else call_hook mem (cf\<lparr>cf_methods := methods\<rparr>) index is_constructor is_static at_offset methodref)"
proof -
  obtain st methods where a: "member_list_append mem (cf_methods cf) hook = (st, methods)" by (metis surj_pair)
  have "kept cf (cf\<lparr>cf_methods := methods\<rparr>)"
    if "vec_inv (cf_methods cf)" "pool_inv (cf_pool cf)" "st \<noteq> CLASSFILE_OK"
    using member_list.append_fail [OF that(1) a that(3)] that(2) by (simp add: kept_refl)
  then show ?thesis using call_hook_keeps a by (auto simp: keeps_def fail_def)
qed

lemma insert_call_keeps:
  "keeps cf (class_transform_insert_call mem cf name descriptor at_offset hook_name)"
  unfolding class_transform_insert_call_def Let_def by (intro append_hook_keeps keeps_rules)

section \<open>Properties of the insertions\<close>

text \<open>
  C20: an insertion of a call that does not succeed leaves the class as it was, up to entries that
  were added to the constant pool: all methods, in particular, are the same, even
  where the hook method had been appended already.\<close>

theorem failed_insertion_keeps_class:
  assumes "class_ok cf"
    and "r \<in> {class_transform_insert_static_call mem cf name descriptor at_offset owner callee argument forward,
              class_transform_insert_guarded_call mem cf name descriptor owner callee value_callee argument,
              class_transform_insert_call mem cf name descriptor at_offset hook_name}"
    and "r = Some (status, cause, cf')" "status \<noteq> TRANSFORM_OK"
  shows "kept cf cf'"
  using assms static_call_keeps [of cf mem name descriptor at_offset owner callee argument forward]
    guarded_call_keeps [of cf mem name descriptor owner callee value_callee argument]
    insert_call_keeps [of cf mem name descriptor at_offset hook_name]
  by (auto simp: keeps_def class_ok_def split: option.splits)

theorem failed_insertion_keeps_class_witness:
  "\<exists>cf'. class_transform_insert_call heap_ok hook_class (cstr ''m'') (cstr ''()V'') 7 (cstr ''h'') =
     Some (TRANSFORM_ERR_BAD_OFFSET, CLASSFILE_OK, cf') \<and> kept hook_class cf'"
proof -
  let ?r = "class_transform_insert_call heap_ok hook_class (cstr ''m'') (cstr ''()V'') 7 (cstr ''h'')"
  have "map_option (\<lambda>(s, c, _). (s, c)) ?r = Some (TRANSFORM_ERR_BAD_OFFSET, CLASSFILE_OK)" by code_simp
  then obtain cf' where r: "?r = Some (TRANSFORM_ERR_BAD_OFFSET, CLASSFILE_OK, cf')" by auto
  from failed_insertion_keeps_class [OF hook_class_ok insertI2 [OF insertI2 [OF singletonI]] r] r show ?thesis by blast
qed

text \<open>What a method that refuses nothing gives.\<close>

lemma called_body_found: "called_body cf constructors_too index = Inr k \<Longrightarrow> find_code cf index = Some k"
  by (auto simp: called_body_def Let_def split: if_splits option.splits)

lemma find_code_interned:
  assumes "class_ok cf" "interned cf cf1" "index < length (items (cf_methods cf))"
  shows "find_code cf1 index = find_code cf index"
proof -
  have "member_ok (cf_pool cf) (method_at cf index)" using assms(1,3) by (simp add: class_ok_def list_all_length)
  moreover have "pool_extends (cf_pool cf) (cf_pool cf1)" using assms(2) unfolding interned_def by blast
  ultimately show ?thesis by (simp add: find_code_def interned_methods [OF assms(2)] attribute_find_extends)
qed

lemma emit_static_call_ok:
  assumes "emit_static_call mem cf i k ed descriptor is_static place c callee argument forward = Some (TRANSFORM_OK, cause, cf')"
    and "pool_inv (cf_pool cf)"
  obtains ps slots m ed' code cf2 where
    "describe_parameters descriptor is_static 64 = Some (ps, slots)"
    "pool_methodref (cf_pool cf2) m c callee (callee_text (if forward then ps else []))" "interned cf cf2"
    "code_editor_insert mem ed place (call_prologue argument (if forward then ps else []) m)
       (pushed_slots (if forward then ps else [])) = (CLASSFILE_OK, ed')"
    "code_editor_store mem ed' (code_at cf i k) = Some (CLASSFILE_OK, code)" "cf' = put_code i k code cf2"
proof -
  from assms(1) obtain ps slots where ps: "describe_parameters descriptor is_static 64 = Some (ps, slots)"
    by (auto simp: emit_static_call_def split: option.splits)
  let ?args = "if forward then ps else []"
  note def = emit_static_call_def [of mem cf i k ed descriptor is_static place c callee argument forward,
      unfolded ps option.case prod.case Let_def]
  from assms(1) have d: "build_callee_descriptor ?args 1024 = Some (callee_text ?args)"
    unfolding def build_callee_descriptor_eq by (auto split: if_splits)
  obtain st cf2 m2 where m2: "classFile_intern_methodref mem cf c callee (callee_text ?args) = (st, cf2, m2)"
    by (metis prod_cases3)
  note s2 = intern_methodref_spec [OF m2 assms(2)]
  note def = def [unfolded d m2 option.case prod.case]
  from assms(1) obtain m where m: "m2 = Some m" unfolding def by (cases m2) (auto simp: fail_def)
  note def = def [unfolded m option.case]
  obtain st3 ed' where ins: "code_editor_insert mem ed place (call_prologue argument ?args m) (pushed_slots ?args) = (st3, ed')"
    by (metis surj_pair)
  have m12: "cf_methods cf2 = cf_methods cf" using s2 interned_methods by blast
  from assms(1) obtain code where "st3 = CLASSFILE_OK"
      "code_editor_store mem ed' (code_at cf i k) = Some (CLASSFILE_OK, code)" "cf' = put_code i k code cf2"
    unfolding def insert_and_store_def ins save_code_def m12 Let_def prod.case
    by (auto simp: edit_failure_def fail_def split: if_splits)
  with that ps ins s2 m show thesis by blast
qed

lemma static_call_found:
  assumes "class_ok cf"
    and "class_transform_insert_static_call mem cf name descriptor at_offset owner callee argument forward =
      Some (TRANSFORM_OK, cause, cf')"
  obtains i k cf1 c ed place where
    "classFile_find_method cf name (Some descriptor) = Some i" "find_code cf i = Some k"
    "interned cf cf1" "pool_class (cf_pool cf1) c owner"
    "code_editor_load mem (code_at cf i k) (cf_pool cf1) = Inr ed"
    "safe_offset_for mem cf1 (is_instance_initializer cf (method_at cf i)) ed at_offset = Some (Inr place)"
    "emit_static_call mem cf1 i k ed descriptor (access_flags (method_at cf i) AND JVM_ACC_STATIC \<noteq> 0) place c
       callee argument forward = Some (TRANSFORM_OK, cause, cf')"
proof -
  from assms(2) have arg: "\<not> (argument < - 32768 \<or> argument > 32767)"
    by (auto simp: class_transform_insert_static_call_def split: if_splits)
  from assms(2) arg obtain i where i: "classFile_find_method cf name (Some descriptor) = Some i"
    by (auto simp: class_transform_insert_static_call_def split: option.splits)
  from assms(2) arg i obtain k where b: "called_body cf False i = Inr k"
    by (cases "called_body cf False i")
      (auto simp: class_transform_insert_static_call_def called_body_def Let_def split: if_splits option.splits)
  have lt: "i < length (items (cf_methods cf))" using i by (simp add: find_method_names find_index_Some)
  obtain st1 cf1 c1 where c1: "classFile_intern_class mem cf owner = (st1, cf1, c1)" by (metis prod_cases3)
  have s1: "interned cf cf1" "\<And>c. c1 = Some c \<Longrightarrow> pool_class (cf_pool cf1) c owner"
    using intern_class_spec [OF c1] assms(1) by (simp_all add: class_ok_def)
  from assms(2) arg i b c1 obtain c where c: "c1 = Some c"
    by (cases c1) (auto simp: class_transform_insert_static_call_def fail_def Let_def)
  note k1 = find_code_interned [OF assms(1) s1(1) lt, unfolded called_body_found [OF b]]
  note def = class_transform_insert_static_call_def [of mem cf name descriptor at_offset owner callee argument forward,
      unfolded i b c1 c Let_def option.case sum.case prod.case k1 interned_methods [OF s1(1)] if_not_P [OF arg]]
  from assms(2) obtain ed where ed: "code_editor_load mem (code_at cf i k) (cf_pool cf1) = Inr ed"
    unfolding def by (auto simp: fail_def split: sum.splits)
  let ?safe = "safe_offset_for mem cf1 (is_instance_initializer cf (method_at cf i)) ed at_offset"
  from assms(2) obtain place where place: "?safe = Some (Inr place)"
    unfolding def ed sum.case
    by (cases ?safe rule: option.exhaust) (auto simp: safe_offset_for_def Let_def split: sum.splits if_splits)
  have "emit_static_call mem cf1 i k ed descriptor (access_flags (method_at cf i) AND JVM_ACC_STATIC \<noteq> 0) place c
       callee argument forward = Some (TRANSFORM_OK, cause, cf')"
    using assms(2) unfolding def ed by (simp add: place)
  then show thesis by (rule that [OF i called_body_found [OF b] s1(1) s1(2) [OF c] ed place])
qed


text \<open>With enough memory an editor with encodable code and no tables is stored.\<close>

lemma bare_editor_stored:
  assumes "alloc_total mem" "wf_list (il_items (ed_instructions ed))"
    "length (enc_list (il_items (ed_instructions ed))) \<le> JVM_MAX_CODE_LENGTH"
    "vec_inv (ed_exceptions ed)" "items (ed_exceptions ed) = []" "tables_ok ed" "nested_of ed = []"
  shows "\<exists>code'. code_editor_store mem ed code = Some (CLASSFILE_OK, code')"
proof -
  from copy_exceptions_items(2) [OF assms(1,4)] obtain table where
    t: "copy_exceptions mem (ed_exceptions ed) = (CLASSFILE_OK, table)" by (metis prod.collapse)
  have ti: "items table = []" using copy_exceptions_items(1) [OF t assms(4)] assms(5) by simp
  from store_attributes_holds [OF assms(1,6)] assms(7) obtain as where
    as: "store_attributes mem ed = (CLASSFILE_OK, as)" "items as = []"
    by (cases "store_attributes mem ed") (auto simp: holds_def)
  let ?c = "\<lparr>max_stack = ed_max_stack ed, max_locals = ed_max_locals ed,
      code_code = enc_list (il_items (ed_instructions ed)), exceptions = table, code_attributes = as\<rparr>"
  have "length (enc_code ?c) \<le> 0xFFFFFFFF"
    using assms(3) ti as(2)
    by (simp add: enc_code_def enc_code_head_def enc_exceptions_def enc_attributes_def JVM_MAX_CODE_LENGTH_def)
  from code_attribute_write_total [OF assms(1) this, of code] instruction_list_encode_total [OF assms(1,2)] assms(3) t as(1)
  show ?thesis by (auto simp: code_editor_store_def)
qed

definition bare_ready :: "code_editor \<Rightarrow> bool" where
  "bare_ready ed \<longleftrightarrow>
     il_items (ed_instructions ed) =
       [\<lparr>ins_offset = 0, ins_opcode = JVM_OPC_sipush, ins_wide = False, ins_u = Op_Immediate 5\<rparr>,
        \<lparr>ins_offset = 3, ins_opcode = JVM_OPC_invokestatic, ins_wide = False, ins_u = Op_CpIndex 11\<rparr>,
        \<lparr>ins_offset = 6, ins_opcode = JVM_OPC_return, ins_wide = False, ins_u = Op_None\<rparr>] \<and>
     items (ed_exceptions ed) = [] \<and> \<not> has_line_numbers ed \<and> \<not> has_locals ed \<and> \<not> has_local_types ed \<and>
     \<not> has_stack_map ed \<and> items (other_attributes ed) = [] \<and> line_numbers ed = [] \<and> ed_locals ed = [] \<and>
     ed_local_types ed = []"

lemma hook_call_ready:
  "\<exists>cf1 c ed cf2 m ed'. classFile_intern_class heap_ok hook_class (cstr ''H'') = (CLASSFILE_OK, cf1, Some c) \<and>
     find_code cf1 0 = Some 0 \<and> code_editor_load heap_ok (code_at cf1 0 0) (cf_pool cf1) = Inr ed \<and>
     classFile_intern_methodref heap_ok cf1 c (cstr ''c'') (cstr ''(I)V'') = (CLASSFILE_OK, cf2, Some m) \<and>
     code_editor_insert heap_ok ed 0 (call_prologue 5 [] m) 1 = (CLASSFILE_OK, ed') \<and> bare_ready ed'"
proof -
  have F: "(case classFile_intern_class heap_ok hook_class (cstr ''H'') of (st1, cf1, i1) \<Rightarrow>
      st1 = CLASSFILE_OK \<and> find_code cf1 0 = Some 0 \<and>
      (case i1 of None \<Rightarrow> False | Some c \<Rightarrow>
       (case code_editor_load heap_ok (code_at cf1 0 0) (cf_pool cf1) of Inl _ \<Rightarrow> False | Inr ed \<Rightarrow>
        (case classFile_intern_methodref heap_ok cf1 c (cstr ''c'') (cstr ''(I)V'') of (st2, cf2, i2) \<Rightarrow>
           st2 = CLASSFILE_OK \<and>
           (case i2 of None \<Rightarrow> False | Some m \<Rightarrow>
            (case code_editor_insert heap_ok ed 0 (call_prologue 5 [] m) 1 of (st3, ed') \<Rightarrow>
               st3 = CLASSFILE_OK \<and> bare_ready ed'))))))" by code_simp
  obtain st1 cf1 i1 where a: "classFile_intern_class heap_ok hook_class (cstr ''H'') = (st1, cf1, i1)" by (metis prod_cases3)
  note F = F [unfolded a prod.case]
  obtain c where c: "i1 = Some c" using F by (cases i1) simp_all
  obtain ed where ed: "code_editor_load heap_ok (code_at cf1 0 0) (cf_pool cf1) = Inr ed"
    using F unfolding c by (cases "code_editor_load heap_ok (code_at cf1 0 0) (cf_pool cf1)") simp_all
  obtain st2 cf2 i2 where b: "classFile_intern_methodref heap_ok cf1 c (cstr ''c'') (cstr ''(I)V'') = (st2, cf2, i2)"
    by (metis prod_cases3)
  note F = F [unfolded c ed b option.case sum.case prod.case]
  obtain m where m: "i2 = Some m" using F by (cases i2) simp_all
  obtain st3 ed' where e: "code_editor_insert heap_ok ed 0 (call_prologue 5 [] m) 1 = (st3, ed')" by (metis surj_pair)
  from F a c ed b m show ?thesis unfolding m e option.case prod.case e by (metis e)
qed

lemma bare_ready_stored: "bare_ready ed \<Longrightarrow> \<exists>code'. code_editor_store heap_ok ed code = Some (CLASSFILE_OK, code')"
  by (rule bare_editor_stored [OF alloc_total_heap_ok])
    (simp_all add: bare_ready_def wf_list_def wf_ins_def ins_shape_def enc_ins_def enc_opcode_def enc_node_operand_def
      pad_len_def is_switch_def instruction_opcode_is_defined_def instruction_kind_of_def JVM_MAX_CODE_LENGTH_def
      tables_ok_def nested_of_def table_attribute_def vec_inv_def)

lemma hook_static_call:
  "\<exists>cf'. class_transform_insert_static_call heap_ok hook_class (cstr ''m'') (cstr ''()V'') 0 (cstr ''H'') (cstr ''c'') 5 True =
     Some (TRANSFORM_OK, CLASSFILE_OK, cf')"
proof -
  from hook_call_ready obtain cf1 c ed cf2 m ed' where
    run: "classFile_intern_class heap_ok hook_class (cstr ''H'') = (CLASSFILE_OK, cf1, Some c)"
      "find_code cf1 0 = Some 0" "code_editor_load heap_ok (code_at cf1 0 0) (cf_pool cf1) = Inr ed"
      "classFile_intern_methodref heap_ok cf1 c (cstr ''c'') (cstr ''(I)V'') = (CLASSFILE_OK, cf2, Some m)"
      "code_editor_insert heap_ok ed 0 (call_prologue 5 [] m) 1 = (CLASSFILE_OK, ed')" "bare_ready ed'" by blast
  obtain code where code: "code_editor_store heap_ok ed' (code_at cf2 0 0) = Some (CLASSFILE_OK, code)"
    using bare_ready_stored [OF run(6)] by blast
  have start: "classFile_find_method hook_class (cstr ''m'') (Some (cstr ''()V'')) = Some 0"
    "called_body hook_class False 0 = Inr 0" "\<not> is_instance_initializer hook_class (method_at hook_class 0)"
    "access_flags (method_at hook_class 0) AND JVM_ACC_STATIC \<noteq> 0"
    "describe_parameters (cstr ''()V'') True 64 = Some ([], 0)"
    "build_callee_descriptor [] 1024 = Some (cstr ''(I)V'')" "pushed_slots [] = 1" by code_simp+
  show ?thesis
    by (simp add: class_transform_insert_static_call_def emit_static_call_def start run safe_offset_for_def
        insert_and_store_def save_code_def code del: cstr_simps)
qed


end
