(* ===== verification/Prologue_Typing.thy ===== *)
theory Prologue_Typing
  imports Call_Insertion
begin

text \<open>
  The inserted code against a typed operand stack, as the bytecode verifier sees it: every load reads a
  local of its kind, the call finds its arguments on the stack and the stack is afterwards what it was, within the depth
  that is added to \<open>max_stack\<close>.
\<close>

section \<open>A typed stack\<close>

datatype kind = KInt | KLong | KFloat | KDouble | KRef

fun kind_of :: "jtype \<Rightarrow> kind" where
  "kind_of JLong = KLong"
| "kind_of JFloat = KFloat"
| "kind_of JDouble = KDouble"
| "kind_of (JClass _) = KRef"
| "kind_of (JArray _) = KRef"
| "kind_of _ = KInt"

definition kind_slots :: "kind \<Rightarrow> nat" where
  "kind_slots k = (if k = KLong \<or> k = KDouble then 2 else 1)"

definition stack_slots :: "kind list \<Rightarrow> nat" where
  "stack_slots st = (\<Sum>k\<leftarrow>st. kind_slots k)"

text \<open>The locals at the entry of a method: each value in the slot behind the previous ones.\<close>

fun entry_locals :: "nat \<Rightarrow> jtype list \<Rightarrow> nat \<Rightarrow> kind option" where
  "entry_locals slot [] = Map.empty"
| "entry_locals slot (t # ts) = (entry_locals (slot + type_slots t) ts)(slot \<mapsto> kind_of t)"

definition load_kind :: "u1 \<Rightarrow> kind option" where
  "load_kind opcode =
     (if opcode = JVM_OPC_iload then Some KInt
      else if opcode = JVM_OPC_lload then Some KLong
      else if opcode = JVM_OPC_fload then Some KFloat
      else if opcode = JVM_OPC_dload then Some KDouble
      else if opcode = JVM_OPC_aload then Some KRef
      else None)"

text \<open>\<open>callee\<close> gives the argument and result kinds of a method reference; the top of the stack is the head.\<close>

type_synonym callee_kinds = "u2 \<Rightarrow> (kind list \<times> kind list) option"

definition typed_step ::
  "(nat \<Rightarrow> kind option) \<Rightarrow> callee_kinds \<Rightarrow> instruction \<Rightarrow> kind list \<Rightarrow> kind list option" where
  "typed_step locals callee n st =
     (case ins_u n of
        Op_Immediate _ \<Rightarrow> if ins_opcode n = JVM_OPC_sipush then Some (KInt # st) else None
      | Op_Local i \<Rightarrow>
          (case load_kind (ins_opcode n) of
             None \<Rightarrow> None
           | Some k \<Rightarrow> if locals (unat i) = Some k then Some (k # st) else None)
      | Op_CpIndex i \<Rightarrow>
          if ins_opcode n = JVM_OPC_invokestatic then
            (case callee i of
               None \<Rightarrow> None
             | Some (args, result) \<Rightarrow>
                 if take (length args) st = rev args then Some (result @ drop (length args) st) else None)
          else None
      | Op_Branch _ \<Rightarrow> if ins_opcode n = JVM_OPC_ifeq \<and> st \<noteq> [] \<and> hd st = KInt then Some (tl st) else None
      | _ \<Rightarrow> None)"

fun typed_run ::
  "(nat \<Rightarrow> kind option) \<Rightarrow> callee_kinds \<Rightarrow> instruction list \<Rightarrow> kind list \<Rightarrow> kind list option" where
  "typed_run locals callee [] st = Some st"
| "typed_run locals callee (n # ns) st =
     (case typed_step locals callee n st of None \<Rightarrow> None | Some st \<Rightarrow> typed_run locals callee ns st)"

lemma typed_run_append:
  "typed_run locals callee (xs @ ys) st =
     (case typed_run locals callee xs st of None \<Rightarrow> None | Some st \<Rightarrow> typed_run locals callee ys st)"
  by (induction xs arbitrary: st) (simp_all split: option.split)

section \<open>Loads\<close>

lemma kind_slots_of [simp]: "kind_slots (kind_of t) = type_slots t"
  by (cases t) (simp_all add: kind_slots_def)

lemma load_kind_for [simp]: "load_kind (load_for t) = Some (kind_of t)"
  by (cases t) (simp_all add: load_kind_def)

lemma load_wide [simp]: "load_for t = JVM_OPC_lload \<or> load_for t = JVM_OPC_dload \<longleftrightarrow> type_slots t = 2"
  by (cases t) simp_all

lemma type_slots_cases: "type_slots t = 1 \<or> type_slots t = 2"
  by (cases t) simp_all

text \<open>Every forwarded value is loaded from the slot where the entry locals have its kind.\<close>

lemma forward_loads:
  assumes "s + (\<Sum>t\<leftarrow>ts. type_slots t) \<le> 65535"
  shows "list_all2 (\<lambda>p t. load_opcode p = load_for t \<and> s \<le> unat (fp_slot p) \<and>
      entry_locals s ts (unat (fp_slot p)) = Some (kind_of t)) (forward_types (of_nat s) ts) ts"
  using assms
proof (induction ts arbitrary: s)
  case (Cons t ts)
  let ?s = "s + type_slots t"
  have "list_all2 (\<lambda>p u. load_opcode p = load_for u \<and> ?s \<le> unat (fp_slot p) \<and>
      entry_locals ?s ts (unat (fp_slot p)) = Some (kind_of u)) (forward_types (of_nat ?s) ts) ts"
    by (rule Cons.IH) (use Cons.prems in simp)
  then have "list_all2 (\<lambda>p u. load_opcode p = load_for u \<and> s \<le> unat (fp_slot p) \<and>
      entry_locals s (t # ts) (unat (fp_slot p)) = Some (kind_of u)) (forward_types (of_nat ?s) ts) ts"
    by (rule list_all2_mono) (use type_slots_cases [of t] in auto)
  moreover have "unat (of_nat s :: u2) = s" using Cons.prems by (simp add: unat_of_nat)
  ultimately show ?case by simp
qed simp

lemma typed_loads:
  assumes "list_all2 (\<lambda>p t. load_opcode p = load_for t \<and> locals (unat (fp_slot p)) = Some (kind_of t)) ps ts"
  shows "typed_run locals callee (map (\<lambda>p. node (load_opcode p) (Op_Local (fp_slot p))) ps) st =
    Some (rev (map kind_of ts) @ st)"
  using assms
  by (induction arbitrary: st rule: list_all2_induct) (simp_all add: typed_step_def node_def)

lemma pushed_slots_forward:
  "pushed_slots (forward_types s ts) = 1 + of_nat (\<Sum>t\<leftarrow>ts. type_slots t)"
proof -
  have "fold (\<lambda>p pushed. pushed + (if load_opcode p = JVM_OPC_lload \<or> load_opcode p = JVM_OPC_dload then 2 else 1))
      (forward_types s ts) n = n + of_nat (\<Sum>t\<leftarrow>ts. type_slots t)" for n :: u2
  proof (induction ts arbitrary: s n)
    case (Cons t ts)
    with type_slots_cases [of t] show ?case by (auto simp: add.assoc)
  qed simp
  then show ?thesis by (simp add: pushed_slots_def)
qed

section \<open>The callee\<close>

text \<open>What a value is forwarded as.\<close>

definition forwarded_type :: "jtype \<Rightarrow> jtype" where
  "forwarded_type t = (if is_reference t then JClass (cstr ''java/lang/Object'') else t)"

lemma forwarded_kind [simp]: "kind_of (forwarded_type t) = kind_of t"
  by (cases t) (simp_all add: forwarded_type_def)

lemma letter_text:
  "(if letter_for t = JVM_SIGNATURE_CLASS then kObject else [letter_for t]) = type_text (forwarded_type t)"
  by (cases t) (simp_all add: forwarded_type_def kObject_def)

lemma callee_text_types: "callee_text (forward_types s ts) = method_text (JInt # map forwarded_type ts) None"
proof -
  have "concat (map forwarded_text (forward_types s ts)) = concat (map type_text (map forwarded_type ts))"
    by (induction ts arbitrary: s) (simp_all add: forwarded_text_def letter_text [symmetric])
  then show ?thesis by (simp add: callee_text_def method_text_def)
qed

section \<open>The whole prologue\<close>

lemma sum_slots_le: "(\<Sum>t\<leftarrow>ts. type_slots t) \<le> 2 * length ts"
proof (induction ts)
  case (Cons t ts)
  with type_slots_cases [of t] show ?case by auto
qed simp

lemma stack_slots_kinds: "stack_slots (rev (map kind_of ts) @ st) = (\<Sum>t\<leftarrow>ts. type_slots t) + stack_slots st"
  by (simp add: stack_slots_def rev_map [symmetric] comp_def sum_list_rev)

lemma sum_take_le: "(\<Sum>t\<leftarrow>take k ts. type_slots t) \<le> (\<Sum>t\<leftarrow>ts. type_slots t)"
  by (metis append_take_drop_id le_add1 map_append sum_list_append)

lemma typed_sipush [simp]: "typed_step locals callee (node JVM_OPC_sipush (Op_Immediate a)) st = Some (KInt # st)"
  by (simp add: typed_step_def node_def)

lemma typed_invoke:
  "callee i = Some (args, result) \<Longrightarrow>
   typed_step locals callee (node JVM_OPC_invokestatic (Op_CpIndex i)) (rev args @ st) = Some (result @ st)"
  by (simp add: typed_step_def node_def)



end
