(* ===== verification/Class_Remap.thy ===== *)
theory Class_Remap
  imports Class_File_IO Descriptors
begin

text \<open>
  Renaming the symbolic references of a class file (\<^verbatim>\<open>class_remap.c\<close>). The mappings name classes and
  members as they were compiled and as they are called at run time; a pointer that may be NULL is an
  option. A text read from the pool is a C string: it ends at its first zero byte.
\<close>

section \<open>Mappings\<close>

record class_mapping =
  map_from :: "cstring option"
  map_to :: "cstring option"

record member_mapping =
  map_owner :: "cstring option"
  map_name :: "cstring option"
  map_descriptor :: "cstring option"
  runtime_owner :: "cstring option"
  runtime_name :: "cstring option"
  runtime_descriptor :: "cstring option"

record remap_context =
  ctx_classes :: "class_mapping list"
  ctx_methods :: "member_mapping list"
  ctx_fields :: "member_mapping list"
  original_class_names :: "cstring option list"

section \<open>Strings\<close>

text \<open>A growable string; the capacity is zero exactly before the first allocation.\<close>

record strbuf =
  sb_data :: cstring
  sb_capacity :: nat
  sb_ok :: bool

definition strbuf_init :: strbuf where
  "strbuf_init = \<lparr>sb_data = [], sb_capacity = 0, sb_ok = True\<rparr>"

definition strbuf_add :: "alloc \<Rightarrow> cstring \<Rightarrow> strbuf \<Rightarrow> strbuf" where
  "strbuf_add mem chars b =
     (if \<not> sb_ok b then b
      else
        let needed = length (sb_data b) + length chars + 1 in
        if needed > sb_capacity b then
          let capacity = grow_until (if sb_capacity b = 0 then 64 else sb_capacity b) needed
          in if \<not> mem Alloc_bytes capacity then b\<lparr>sb_ok := False\<rparr>
             else b\<lparr>sb_data := sb_data b @ chars, sb_capacity := capacity\<rparr>
        else b\<lparr>sb_data := sb_data b @ chars\<rparr>)"

definition duplicate_text :: "alloc \<Rightarrow> u1 list \<Rightarrow> u1 list option" where
  "duplicate_text mem chars = (if mem Alloc_bytes (length chars + 1) then Some chars else None)"

definition c_text :: "u1 list \<Rightarrow> cstring" where
  "c_text bytes = takeWhile (\<lambda>c. c \<noteq> 0) bytes"

definition utf8_duplicate :: "alloc \<Rightarrow> constant_pool \<Rightarrow> u2 \<Rightarrow> cstring option" where
  "utf8_duplicate mem pool index =
     (case constant_pool_utf8 pool index of
        None \<Rightarrow> None
      | Some bytes \<Rightarrow> map_option c_text (duplicate_text mem bytes))"

section \<open>Lookup\<close>

fun lookup_class :: "class_mapping list \<Rightarrow> cstring \<Rightarrow> cstring option" where
  "lookup_class [] name = None"
| "lookup_class (m # ms) name =
     (case (map_from m, map_to m) of
        (Some from, Some to) \<Rightarrow> if from = name then Some to else lookup_class ms name
      | _ \<Rightarrow> lookup_class ms name)"

function remap_loop ::
  "alloc \<Rightarrow> class_mapping list \<Rightarrow> cstring \<Rightarrow> strbuf \<Rightarrow> bool \<Rightarrow> strbuf \<times> bool" where
  "remap_loop mem classes p out changed =
     (case p of
        [] \<Rightarrow> (out, changed)
      | c # rest \<Rightarrow>
          if c \<noteq> JVM_SIGNATURE_CLASS then remap_loop mem classes rest (strbuf_add mem [c] out) changed
          else
            (case dropWhile (\<lambda>c. c \<noteq> JVM_SIGNATURE_ENDCLASS) rest of
               [] \<Rightarrow> (strbuf_add mem p out, changed)
             | _ # later \<Rightarrow>
                 let name = takeWhile (\<lambda>c. c \<noteq> JVM_SIGNATURE_ENDCLASS) rest;
                     found = lookup_class classes name;
                     out = strbuf_add mem [JVM_SIGNATURE_CLASS] out;
                     out = strbuf_add mem (case found of Some to \<Rightarrow> to | None \<Rightarrow> name) out;
                     out = strbuf_add mem [JVM_SIGNATURE_ENDCLASS] out
                 in remap_loop mem classes later out (changed \<or> found \<noteq> None)))"
  by pat_completeness auto
termination
proof (relation "measure (\<lambda>(mem, classes, p, out, changed). length p)", goal_cases)
  case (3 mem classes p out changed c rest e later)
  then show ?case using length_dropWhile_le [of "\<lambda>c. c \<noteq> JVM_SIGNATURE_ENDCLASS" rest] by simp
qed simp_all

declare remap_loop.simps [simp del]

text \<open>The result is \<open>None\<close> if memory runs out, with what \<open>*changed\<close> is then.\<close>

definition remap_descriptor :: "alloc \<Rightarrow> class_mapping list \<Rightarrow> cstring \<Rightarrow> cstring option \<times> bool" where
  "remap_descriptor mem classes descriptor =
     (let (out, changed) = remap_loop mem classes descriptor strbuf_init False
      in if \<not> sb_ok out then (None, changed)
         else if sb_capacity out = 0 then (duplicate_text mem [], changed)
         else (Some (sb_data out), changed))"

definition remap_class_name :: "alloc \<Rightarrow> class_mapping list \<Rightarrow> cstring \<Rightarrow> cstring option \<times> bool" where
  "remap_class_name mem classes name =
     (if name \<noteq> [] \<and> hd name = JVM_SIGNATURE_ARRAY then remap_descriptor mem classes name
      else
        case lookup_class classes name of
          None \<Rightarrow> (None, False)
        | Some to \<Rightarrow> (duplicate_text mem to, True))"

definition find_member ::
  "member_mapping list \<Rightarrow> cstring option \<Rightarrow> cstring \<Rightarrow> cstring \<Rightarrow> member_mapping option" where
  "find_member table owner name descriptor =
     (if owner = None then None
      else find (\<lambda>entry. map_owner entry = owner \<and> map_name entry = Some name \<and>
                   (map_descriptor entry = None \<or> map_descriptor entry = Some descriptor)) table)"

section \<open>The names before the renaming\<close>

fun snapshot_loop :: "alloc \<Rightarrow> constant_pool \<Rightarrow> nat list \<Rightarrow> classfile_status + cstring option list" where
  "snapshot_loop mem pool [] = Inr []"
| "snapshot_loop mem pool (i # is) =
     (case constant_pool_at pool (of_nat i) of
        Some (CP_Class n) \<Rightarrow>
          (case utf8_duplicate mem pool n of
             None \<Rightarrow> Inl CLASSFILE_ERR_OUT_OF_MEMORY
           | Some name \<Rightarrow> map_sum id (\<lambda>names. Some name # names) (snapshot_loop mem pool is))
      | _ \<Rightarrow> map_sum id (\<lambda>names. None # names) (snapshot_loop mem pool is))"

definition snapshot_class_names :: "alloc \<Rightarrow> ClassFile \<Rightarrow> classfile_status + cstring option list" where
  "snapshot_class_names mem cf =
     (let count = unat (pool_count (cf_pool cf)) in
      if \<not> mem Alloc_pointer (if count = 0 then 1 else count) then Inl CLASSFILE_ERR_OUT_OF_MEMORY
      else if count = 0 then Inr []
      else map_sum id (\<lambda>names. None # names) (snapshot_loop mem (cf_pool cf) [1..<count]))"

definition original_class_name :: "remap_context \<Rightarrow> u2 \<Rightarrow> cstring option" where
  "original_class_name ctx index =
     (if index = 0 \<or> unat index \<ge> length (original_class_names ctx) then None
      else original_class_names ctx ! unat index)"

fun find_in_interfaces ::
  "remap_context \<Rightarrow> member_mapping list \<Rightarrow> u2 list \<Rightarrow> cstring \<Rightarrow> cstring \<Rightarrow> member_mapping option" where
  "find_in_interfaces ctx table [] name descriptor = None"
| "find_in_interfaces ctx table (i # is) name descriptor =
     (case find_member table (original_class_name ctx i) name descriptor of
        Some mapping \<Rightarrow> Some mapping
      | None \<Rightarrow> find_in_interfaces ctx table is name descriptor)"

definition find_member_inherited ::
  "ClassFile \<Rightarrow> remap_context \<Rightarrow> member_mapping list \<Rightarrow> cstring option \<Rightarrow> cstring \<Rightarrow> cstring \<Rightarrow> member_mapping option" where
  "find_member_inherited cf ctx table owner name descriptor =
     (case find_member table owner name descriptor of
        Some mapping \<Rightarrow> Some mapping
      | None \<Rightarrow>
          let self = original_class_name ctx (this_class cf) in
          if self = None \<or> owner = None \<or> self \<noteq> owner then None
          else
            case find_member table (original_class_name ctx (super_class cf)) name descriptor of
              Some mapping \<Rightarrow> Some mapping
            | None \<Rightarrow> find_in_interfaces ctx table (items (cf_interfaces cf)) name descriptor)"

section \<open>References\<close>

abbreviation mapped :: "(member_mapping \<Rightarrow> cstring option) \<Rightarrow> member_mapping option \<Rightarrow> cstring option" where
  "mapped field mapping \<equiv> Option.bind mapping field"

text \<open>The last component is the new index, if the entry changed.\<close>

definition remap_name_and_type ::
  "alloc \<Rightarrow> ClassFile \<Rightarrow> remap_context \<Rightarrow> u2 \<Rightarrow> member_mapping option \<Rightarrow>
   classfile_status \<times> ClassFile \<times> u2 option" where
  "remap_name_and_type mem cf ctx nat_index mapping =
     (case constant_pool_at (cf_pool cf) nat_index of
        Some (CP_NameAndType n d) \<Rightarrow>
          (case (utf8_duplicate mem (cf_pool cf) n, utf8_duplicate mem (cf_pool cf) d) of
             (Some name, Some descriptor) \<Rightarrow>
               let new_name = (case mapped runtime_name mapping of Some r \<Rightarrow> r | None \<Rightarrow> name);
                   named = mapped runtime_name mapping \<noteq> None;
                   (new_descriptor, changed) =
                     (case mapped runtime_descriptor mapping of
                        Some r \<Rightarrow> (Some r, True)
                      | None \<Rightarrow> remap_descriptor mem (ctx_classes ctx) descriptor)
               in (case new_descriptor of
                     None \<Rightarrow> (CLASSFILE_ERR_OUT_OF_MEMORY, cf, None)
                   | Some new_descriptor \<Rightarrow>
                       if named \<or> changed
                       then classFile_intern_name_and_type mem cf new_name
                              (if changed then new_descriptor else descriptor)
                       else (CLASSFILE_OK, cf, None))
           | _ \<Rightarrow> (CLASSFILE_ERR_OUT_OF_MEMORY, cf, None))
      | _ \<Rightarrow> (CLASSFILE_OK, cf, None))"

text \<open>What the loop reads from an entry: whether it is a field, its class (none for the dynamic ones) and its name.\<close>

fun reference_parts :: "cp_info \<Rightarrow> (bool \<times> u2 option \<times> u2) option" where
  "reference_parts (CP_Fieldref c n) = Some (True, Some c, n)"
| "reference_parts (CP_Methodref c n) = Some (False, Some c, n)"
| "reference_parts (CP_InterfaceMethodref c n) = Some (False, Some c, n)"
| "reference_parts (CP_Dynamic b n) = Some (False, None, n)"
| "reference_parts (CP_InvokeDynamic b n) = Some (False, None, n)"
| "reference_parts _ = None"

fun set_nat_index :: "u2 \<Rightarrow> cp_info \<Rightarrow> cp_info" where
  "set_nat_index i (CP_Fieldref c n) = CP_Fieldref c i"
| "set_nat_index i (CP_Methodref c n) = CP_Methodref c i"
| "set_nat_index i (CP_InterfaceMethodref c n) = CP_InterfaceMethodref c i"
| "set_nat_index i (CP_Dynamic b n) = CP_Dynamic b i"
| "set_nat_index i (CP_InvokeDynamic b n) = CP_InvokeDynamic b i"
| "set_nat_index i e = e"

fun set_class_index :: "u2 \<Rightarrow> cp_info \<Rightarrow> cp_info" where
  "set_class_index i (CP_Fieldref c n) = CP_Fieldref i n"
| "set_class_index i (CP_Methodref c n) = CP_Methodref i n"
| "set_class_index i (CP_InterfaceMethodref c n) = CP_InterfaceMethodref i n"
| "set_class_index i e = e"

definition update_entry :: "nat \<Rightarrow> (cp_info \<Rightarrow> cp_info) \<Rightarrow> ClassFile \<Rightarrow> ClassFile" where
  "update_entry i f cf =
     cf\<lparr>cf_pool := (cf_pool cf)\<lparr>pool_entries := (pool_entries (cf_pool cf))[i := f (pool_entries (cf_pool cf) ! i)]\<rparr>\<rparr>"

definition reference_mapping ::
  "alloc \<Rightarrow> remap_context \<Rightarrow> ClassFile \<Rightarrow> bool \<Rightarrow> u2 \<Rightarrow> u2 \<Rightarrow> member_mapping option" where
  "reference_mapping mem ctx cf is_field class_index nat_index =
     (case constant_pool_at (cf_pool cf) nat_index of
        Some (CP_NameAndType n d) \<Rightarrow>
          (case (utf8_duplicate mem (cf_pool cf) n, utf8_duplicate mem (cf_pool cf) d) of
             (Some name, Some descriptor) \<Rightarrow>
               find_member_inherited cf ctx (if is_field then ctx_fields ctx else ctx_methods ctx)
                 (original_class_name ctx class_index) name descriptor
           | _ \<Rightarrow> None)
      | _ \<Rightarrow> None)"

definition remap_reference :: "alloc \<Rightarrow> remap_context \<Rightarrow> ClassFile \<Rightarrow> nat \<Rightarrow> classfile_status \<times> ClassFile" where
  "remap_reference mem ctx cf i =
     (case Option.bind (constant_pool_at (cf_pool cf) (of_nat i)) reference_parts of
        None \<Rightarrow> (CLASSFILE_OK, cf)
      | Some (is_field, owner, nat_index) \<Rightarrow>
          let mapping = Option.bind owner (\<lambda>class_index. reference_mapping mem ctx cf is_field class_index nat_index);
              (status, cf, new_nat) = remap_name_and_type mem cf ctx nat_index mapping
          in if status \<noteq> CLASSFILE_OK then (status, cf)
             else
               let cf = (case new_nat of Some n \<Rightarrow> update_entry i (set_nat_index n) cf | None \<Rightarrow> cf)
               in (case mapped runtime_owner mapping of
                     None \<Rightarrow> (CLASSFILE_OK, cf)
                   | Some runtime \<Rightarrow>
                       (case classFile_intern_class mem cf runtime of
                          (status, cf, None) \<Rightarrow> (status, cf)
                        | (status, cf, Some owner_index) \<Rightarrow>
                            (CLASSFILE_OK, update_entry i (set_class_index owner_index) cf))))"

text \<open>The count is read again in every round; the pool may have grown.\<close>

function pool_loop ::
  "(ClassFile \<Rightarrow> nat \<Rightarrow> classfile_status \<times> ClassFile) \<Rightarrow> ClassFile \<Rightarrow> nat \<Rightarrow> classfile_status \<times> ClassFile" where
  "pool_loop step cf i =
     (if i < unat (pool_count (cf_pool cf)) then
        let (status, cf) = step cf i
        in if status \<noteq> CLASSFILE_OK then (status, cf) else pool_loop step cf (i + 1)
      else (CLASSFILE_OK, cf))"
  by pat_completeness auto
termination
proof (relation "measure (\<lambda>(step, cf, i). 65536 - i)", goal_cases)
  case (2 step cf i)
  moreover have "unat (pool_count (cf_pool cf)) < 65536" by simp
  ultimately show ?case by (simp del: unat_u2_less)
qed simp

declare pool_loop.simps [simp del]

definition remap_references :: "alloc \<Rightarrow> remap_context \<Rightarrow> ClassFile \<Rightarrow> classfile_status \<times> ClassFile" where
  "remap_references mem ctx cf = pool_loop (remap_reference mem ctx) cf 1"

section \<open>Class entries\<close>

definition remap_class_entry :: "alloc \<Rightarrow> remap_context \<Rightarrow> ClassFile \<Rightarrow> nat \<Rightarrow> classfile_status \<times> ClassFile" where
  "remap_class_entry mem ctx cf i =
     (case (constant_pool_at (cf_pool cf) (of_nat i), original_class_name ctx (of_nat i)) of
        (Some (CP_Class _), Some name) \<Rightarrow>
          let (mapped_name, changed) = remap_class_name mem (ctx_classes ctx) name
          in if \<not> changed then (CLASSFILE_OK, cf)
             else
               (case mapped_name of
                  None \<Rightarrow> (CLASSFILE_ERR_OUT_OF_MEMORY, cf)
                | Some mapped_name \<Rightarrow>
                    (case classFile_intern_utf8 mem cf mapped_name of
                       (status, cf, None) \<Rightarrow> (status, cf)
                     | (status, cf, Some utf8_index) \<Rightarrow>
                         (CLASSFILE_OK, update_entry i (\<lambda>_. CP_Class utf8_index) cf)))
      | _ \<Rightarrow> (CLASSFILE_OK, cf))"

definition remap_class_entries :: "alloc \<Rightarrow> remap_context \<Rightarrow> ClassFile \<Rightarrow> classfile_status \<times> ClassFile" where
  "remap_class_entries mem ctx cf = pool_loop (remap_class_entry mem ctx) cf 1"

section \<open>Own members\<close>

definition own_members :: "bool \<Rightarrow> ClassFile \<Rightarrow> member_list" where
  "own_members are_fields cf = (if are_fields then cf_fields cf else cf_methods cf)"

definition update_member :: "bool \<Rightarrow> nat \<Rightarrow> (member_info \<Rightarrow> member_info) \<Rightarrow> ClassFile \<Rightarrow> ClassFile" where
  "update_member are_fields i f cf =
     (let list = own_members are_fields cf;
          list = list\<lparr>items := (items list)[i := f (items list ! i)]\<rparr>
      in if are_fields then cf\<lparr>cf_fields := list\<rparr> else cf\<lparr>cf_methods := list\<rparr>)"

definition remap_member ::
  "alloc \<Rightarrow> remap_context \<Rightarrow> bool \<Rightarrow> ClassFile \<Rightarrow> nat \<Rightarrow> classfile_status \<times> ClassFile" where
  "remap_member mem ctx are_fields cf i =
     (let member = items (own_members are_fields cf) ! i in
      case (utf8_duplicate mem (cf_pool cf) (name_index member),
            utf8_duplicate mem (cf_pool cf) (descriptor_index member)) of
        (Some name, Some descriptor) \<Rightarrow>
          let mapping = find_member_inherited cf ctx (if are_fields then ctx_fields ctx else ctx_methods ctx)
                (original_class_name ctx (this_class cf)) name descriptor;
              (status, cf) =
                (case mapped runtime_name mapping of
                   None \<Rightarrow> (CLASSFILE_OK, cf)
                 | Some runtime \<Rightarrow>
                     (case classFile_intern_utf8 mem cf runtime of
                        (status, cf, None) \<Rightarrow> (status, cf)
                      | (status, cf, Some index) \<Rightarrow>
                          (CLASSFILE_OK, update_member are_fields i (\<lambda>m. m\<lparr>name_index := index\<rparr>) cf)))
          in if status \<noteq> CLASSFILE_OK then (status, cf)
             else
               let (new_descriptor, changed) =
                     (case mapped runtime_descriptor mapping of
                        Some runtime \<Rightarrow> (Some runtime, True)
                      | None \<Rightarrow> remap_descriptor mem (ctx_classes ctx) descriptor)
               in (case new_descriptor of
                     None \<Rightarrow> (CLASSFILE_ERR_OUT_OF_MEMORY, cf)
                   | Some new_descriptor \<Rightarrow>
                       if \<not> changed then (CLASSFILE_OK, cf)
                       else
                         (case classFile_intern_utf8 mem cf new_descriptor of
                            (status, cf, None) \<Rightarrow> (status, cf)
                          | (status, cf, Some index) \<Rightarrow>
                              (CLASSFILE_OK, update_member are_fields i (\<lambda>m. m\<lparr>descriptor_index := index\<rparr>) cf)))
      | _ \<Rightarrow> (CLASSFILE_ERR_OUT_OF_MEMORY, cf))"

fun remap_members_loop ::
  "alloc \<Rightarrow> remap_context \<Rightarrow> bool \<Rightarrow> nat list \<Rightarrow> ClassFile \<Rightarrow> classfile_status \<times> ClassFile" where
  "remap_members_loop mem ctx are_fields [] cf = (CLASSFILE_OK, cf)"
| "remap_members_loop mem ctx are_fields (i # is) cf =
     (let (status, cf) = remap_member mem ctx are_fields cf i
      in if status \<noteq> CLASSFILE_OK then (status, cf) else remap_members_loop mem ctx are_fields is cf)"

definition remap_own_members :: "alloc \<Rightarrow> remap_context \<Rightarrow> bool \<Rightarrow> ClassFile \<Rightarrow> classfile_status \<times> ClassFile" where
  "remap_own_members mem ctx are_fields cf =
     remap_members_loop mem ctx are_fields [0..<length (items (own_members are_fields cf))] cf"

section \<open>The public entry\<close>

definition status_of :: "classfile_status \<Rightarrow> jni2hook_status" where
  "status_of status =
     (if status = CLASSFILE_OK then JNI2HOOK_OK
      else if status = CLASSFILE_ERR_OUT_OF_MEMORY then JNI2HOOK_ERR_OUT_OF_MEMORY
      else JNI2HOOK_ERR_CLASS_FILE)"

definition remap_tree :: "alloc \<Rightarrow> remap_context \<Rightarrow> ClassFile \<Rightarrow> classfile_status \<times> ClassFile" where
  "remap_tree mem ctx cf =
     (case snapshot_class_names mem cf of
        Inl status \<Rightarrow> (status, cf)
      | Inr names \<Rightarrow>
          let ctx = ctx\<lparr>original_class_names := names\<rparr>;
              (status, cf) = remap_references mem ctx cf;
              (status, cf) = (if status = CLASSFILE_OK then remap_own_members mem ctx True cf else (status, cf));
              (status, cf) = (if status = CLASSFILE_OK then remap_own_members mem ctx False cf else (status, cf))
          in if status = CLASSFILE_OK then remap_class_entries mem ctx cf else (status, cf))"

definition JNI2Hook_RemapClass ::
  "alloc \<Rightarrow> u1 list \<Rightarrow> class_mapping list \<Rightarrow> member_mapping list \<Rightarrow> member_mapping list \<Rightarrow>
   jni2hook_status + u1 list" where
  "JNI2Hook_RemapClass mem input class_mappings method_mappings field_mappings =
     (if length input = 0 then Inl JNI2HOOK_ERR_CLASS_FILE
      else
        case classfile_parse mem input of
          Inl status \<Rightarrow> Inl (status_of status)
        | Inr cf \<Rightarrow>
            let ctx = \<lparr>ctx_classes = class_mappings, ctx_methods = method_mappings, ctx_fields = field_mappings,
                       original_class_names = []\<rparr>;
                (status, cf) = remap_tree mem ctx cf
            in if status \<noteq> CLASSFILE_OK then Inl (status_of status)
               else
                 (case classfile_serialize mem cf of
                    Inl status \<Rightarrow> Inl (status_of status)
                  | Inr bytes \<Rightarrow> Inr bytes))"

section \<open>What the descriptor walk computes\<close>

text \<open>The same walk on plain text, and the renaming of types it stands for.\<close>

definition rename_class :: "class_mapping list \<Rightarrow> cstring \<Rightarrow> cstring" where
  "rename_class classes name = (case lookup_class classes name of Some to \<Rightarrow> to | None \<Rightarrow> name)"

fun rename_type :: "class_mapping list \<Rightarrow> jtype \<Rightarrow> jtype" where
  "rename_type classes (JClass name) = JClass (rename_class classes name)"
| "rename_type classes (JArray t) = JArray (rename_type classes t)"
| "rename_type classes t = t"

fun renamed_type :: "class_mapping list \<Rightarrow> jtype \<Rightarrow> bool" where
  "renamed_type classes (JClass name) \<longleftrightarrow> lookup_class classes name \<noteq> None"
| "renamed_type classes (JArray t) \<longleftrightarrow> renamed_type classes t"
| "renamed_type classes t \<longleftrightarrow> False"

function rename_text :: "class_mapping list \<Rightarrow> cstring \<Rightarrow> cstring \<times> bool" where
  "rename_text classes p =
     (case p of
        [] \<Rightarrow> ([], False)
      | c # rest \<Rightarrow>
          if c \<noteq> JVM_SIGNATURE_CLASS then map_prod (Cons c) id (rename_text classes rest)
          else
            (case dropWhile (\<lambda>c. c \<noteq> JVM_SIGNATURE_ENDCLASS) rest of
               [] \<Rightarrow> (p, False)
             | _ # later \<Rightarrow>
                 let name = takeWhile (\<lambda>c. c \<noteq> JVM_SIGNATURE_ENDCLASS) rest
                 in map_prod (\<lambda>t. JVM_SIGNATURE_CLASS # rename_class classes name @ JVM_SIGNATURE_ENDCLASS # t)
                      (\<lambda>b. lookup_class classes name \<noteq> None \<or> b) (rename_text classes later)))"
  by pat_completeness auto
termination
proof (relation "measure (\<lambda>(classes, p). length p)", goal_cases)
  case (3 classes p c rest e later)
  then show ?case using length_dropWhile_le [of "\<lambda>c. c \<noteq> JVM_SIGNATURE_ENDCLASS" rest] by simp
qed simp_all

declare rename_text.simps [simp del]

lemma strbuf_add_data:
  "sb_ok (strbuf_add mem chars b) \<Longrightarrow>
   sb_ok b \<and> sb_data (strbuf_add mem chars b) = sb_data b @ chars \<and> 0 < sb_capacity (strbuf_add mem chars b)"
  using grow_until_ge [of "if sb_capacity b = 0 then 64 else sb_capacity b" "length (sb_data b) + length chars + 1"]
  by (auto simp: strbuf_add_def Let_def split: if_splits)

lemma strbuf_add_total: "alloc_total mem \<Longrightarrow> sb_ok (strbuf_add mem chars b) = sb_ok b"
  by (simp add: strbuf_add_def Let_def alloc_total_def)

text \<open>Three shapes of text: an ordinary character, a class name, and a name that is never closed.\<close>

lemma class_name_cases:
  obtains "JVM_SIGNATURE_ENDCLASS \<notin> set rest"
  | name later where "rest = name @ JVM_SIGNATURE_ENDCLASS # later" "JVM_SIGNATURE_ENDCLASS \<notin> set name"
  using split_list_first by metis

lemma unclosed_name: "JVM_SIGNATURE_ENDCLASS \<notin> set rest \<Longrightarrow> dropWhile (\<lambda>c. c \<noteq> JVM_SIGNATURE_ENDCLASS) rest = []"
  by (auto simp: dropWhile_eq_Nil_conv)

lemma closed_name:
  "JVM_SIGNATURE_ENDCLASS \<notin> set name \<Longrightarrow>
   takeWhile (\<lambda>c. c \<noteq> JVM_SIGNATURE_ENDCLASS) (name @ JVM_SIGNATURE_ENDCLASS # later) = name"
  by (subst takeWhile_append2) auto

lemma remap_loop_shapes:
  "remap_loop mem classes [] out changed = (out, changed)"
  "c \<noteq> JVM_SIGNATURE_CLASS \<Longrightarrow>
   remap_loop mem classes (c # rest) out changed = remap_loop mem classes rest (strbuf_add mem [c] out) changed"
  "JVM_SIGNATURE_ENDCLASS \<notin> set name \<Longrightarrow>
   remap_loop mem classes (JVM_SIGNATURE_CLASS # name @ JVM_SIGNATURE_ENDCLASS # later) out changed =
     remap_loop mem classes later
       (strbuf_add mem [JVM_SIGNATURE_ENDCLASS]
         (strbuf_add mem (rename_class classes name) (strbuf_add mem [JVM_SIGNATURE_CLASS] out)))
       (changed \<or> lookup_class classes name \<noteq> None)"
  "JVM_SIGNATURE_ENDCLASS \<notin> set rest \<Longrightarrow>
   remap_loop mem classes (JVM_SIGNATURE_CLASS # rest) out changed =
     (strbuf_add mem (JVM_SIGNATURE_CLASS # rest) out, changed)"
  by (subst remap_loop.simps, simp add: skip_class_name closed_name unclosed_name rename_class_def Let_def)+

lemma rename_text_shapes:
  "rename_text classes [] = ([], False)"
  "c \<noteq> JVM_SIGNATURE_CLASS \<Longrightarrow> rename_text classes (c # rest) = map_prod (Cons c) id (rename_text classes rest)"
  "JVM_SIGNATURE_ENDCLASS \<notin> set name \<Longrightarrow>
   rename_text classes (JVM_SIGNATURE_CLASS # name @ JVM_SIGNATURE_ENDCLASS # later) =
     map_prod (\<lambda>t. JVM_SIGNATURE_CLASS # rename_class classes name @ JVM_SIGNATURE_ENDCLASS # t)
       (\<lambda>b. lookup_class classes name \<noteq> None \<or> b) (rename_text classes later)"
  "JVM_SIGNATURE_ENDCLASS \<notin> set rest \<Longrightarrow>
   rename_text classes (JVM_SIGNATURE_CLASS # rest) = (JVM_SIGNATURE_CLASS # rest, False)"
  by (subst rename_text.simps, simp add: skip_class_name closed_name unclosed_name Let_def)+

text \<open>The buffer ends with the renamed text, if memory sufficed; the flag does not depend on memory.\<close>

definition text_added :: "alloc \<Rightarrow> cstring \<times> bool \<Rightarrow> strbuf \<Rightarrow> bool \<Rightarrow> strbuf \<times> bool \<Rightarrow> bool" where
  "text_added mem r out changed res \<longleftrightarrow>
     snd res = (changed \<or> snd r) \<and>
     (sb_ok (fst res) \<longrightarrow> sb_ok out \<and> sb_data (fst res) = sb_data out @ fst r \<and>
        (0 < sb_capacity out \<or> fst r \<noteq> [] \<longrightarrow> 0 < sb_capacity (fst res))) \<and>
     (alloc_total mem \<longrightarrow> sb_ok (fst res) = sb_ok out)"

lemma text_added_then:
  assumes "text_added mem r (strbuf_add mem chars out) changed res"
  shows "text_added mem (chars @ fst r, snd r) out changed res"
proof -
  note r = assms [unfolded text_added_def]
  have "sb_ok out \<and> sb_data (fst res) = sb_data out @ chars @ fst r \<and> 0 < sb_capacity (fst res)" if "sb_ok (fst res)"
    using r that strbuf_add_data [of mem chars out] by simp
  with r strbuf_add_total [of mem chars out] show ?thesis by (simp add: text_added_def)
qed

lemma text_added_flag:
  "text_added mem r out (changed \<or> b) res \<Longrightarrow> text_added mem (fst r, b \<or> snd r) out changed res"
  by (simp add: text_added_def disj_assoc)

lemma remap_loop_text: "text_added mem (rename_text classes p) out changed (remap_loop mem classes p out changed)"
proof (induction p arbitrary: out changed rule: length_induct)
  case (1 p)
  show ?case
  proof (cases p)
    case Nil
    then show ?thesis by (simp add: remap_loop_shapes rename_text_shapes text_added_def)
  next
    case (Cons c rest)
    show ?thesis
    proof (cases "c = JVM_SIGNATURE_CLASS")
      case False
      with Cons 1 have "text_added mem (rename_text classes rest) (strbuf_add mem [c] out) changed
          (remap_loop mem classes rest (strbuf_add mem [c] out) changed)" by simp
      from text_added_then [OF this] Cons False show ?thesis
        by (simp add: remap_loop_shapes rename_text_shapes map_prod_def case_prod_beta)
    next
      case c: True
      show ?thesis
      proof (cases rest rule: class_name_cases)
        case 1
        with Cons c show ?thesis
          using strbuf_add_data [of mem p out] strbuf_add_total [of mem p out]
          by (auto simp: remap_loop_shapes rename_text_shapes text_added_def)
      next
        case (2 name later)
        let ?b = "lookup_class classes name \<noteq> None"
        let ?out = "strbuf_add mem [JVM_SIGNATURE_ENDCLASS]
            (strbuf_add mem (rename_class classes name) (strbuf_add mem [JVM_SIGNATURE_CLASS] out))"
        have "length later < length p" using Cons 2 by simp
        with 1 have "text_added mem (rename_text classes later) ?out (changed \<or> ?b)
            (remap_loop mem classes later ?out (changed \<or> ?b))" by simp
        from text_added_then [OF text_added_then [OF text_added_then [OF text_added_flag [OF this]]]]
        show ?thesis using Cons 2 c
          by (simp add: remap_loop_shapes rename_text_shapes map_prod_def case_prod_beta)
      qed
    qed
  qed
qed

lemma remap_descriptor_cases:
  "remap_descriptor mem classes d \<in> {(None, snd (rename_text classes d)), (Some (fst (rename_text classes d)), snd (rename_text classes d))}"
  and remap_descriptor_total: "alloc_total mem \<Longrightarrow>
    remap_descriptor mem classes d = (Some (fst (rename_text classes d)), snd (rename_text classes d))"
proof -
  obtain out ch where l: "remap_loop mem classes d strbuf_init False = (out, ch)" by (metis surj_pair)
  have r: "ch = snd (rename_text classes d)" "sb_ok out \<Longrightarrow> sb_data out = fst (rename_text classes d)"
    "sb_ok out \<Longrightarrow> sb_capacity out = 0 \<Longrightarrow> fst (rename_text classes d) = []" "alloc_total mem \<Longrightarrow> sb_ok out"
    using remap_loop_text [of mem classes d strbuf_init False] unfolding l
    by (auto simp: text_added_def strbuf_init_def)
  show "remap_descriptor mem classes d \<in> {(None, snd (rename_text classes d)), (Some (fst (rename_text classes d)), snd (rename_text classes d))}"
    using r by (auto simp: remap_descriptor_def l duplicate_text_def)
  show "remap_descriptor mem classes d = (Some (fst (rename_text classes d)), snd (rename_text classes d))" if "alloc_total mem"
    using r that by (auto simp: remap_descriptor_def l duplicate_text_def alloc_total_def)
qed

lemma rename_text_type:
  "wf_jtype t \<Longrightarrow> rename_text classes (type_text t @ rest) =
     map_prod (\<lambda>x. type_text (rename_type classes t) @ x) (\<lambda>b. renamed_type classes t \<or> b) (rename_text classes rest)"
  by (induction t) (simp_all add: rename_text_shapes map_prod_def case_prod_beta)

lemma rename_text_types:
  "list_all wf_jtype ts \<Longrightarrow> rename_text classes (concat (map type_text ts) @ rest) =
     map_prod (\<lambda>x. concat (map type_text (map (rename_type classes) ts)) @ x)
       (\<lambda>b. list_ex (renamed_type classes) ts \<or> b) (rename_text classes rest)"
  by (induction ts) (simp_all add: rename_text_type map_prod_def case_prod_beta)

lemma rename_text_single: "wf_jtype t \<Longrightarrow> rename_text classes (type_text t) = (type_text (rename_type classes t), renamed_type classes t)"
  using rename_text_type [of t classes "[]"] by (simp add: rename_text_shapes)

lemma rename_text_method:
  "list_all wf_jtype params \<Longrightarrow> pred_option wf_jtype result \<Longrightarrow>
   rename_text classes (method_text params result) =
     (method_text (map (rename_type classes) params) (map_option (rename_type classes) result),
      list_ex (renamed_type classes) params \<or> (\<exists>t. result = Some t \<and> renamed_type classes t))"
  by (cases result) (simp_all add: method_text_def rename_text_shapes rename_text_types rename_text_single)

section \<open>Properties of the text walk\<close>

text \<open>
  A method descriptor is rewritten type by type. The result is the descriptor whose class
  names are replaced, at any array depth, primitives and dimensions are untouched, and the change
  is reported exactly if some class of the descriptor is mapped; only a failed
  allocation gives no result.\<close>

theorem remap_descriptor_correct:
  fixes classes :: "class_mapping list"
  assumes "list_all wf_jtype params" "pred_option wf_jtype result"
  defines "renamed \<equiv> method_text (map (rename_type classes) params) (map_option (rename_type classes) result)"
    and "hit \<equiv> list_ex (renamed_type classes) params \<or> (\<exists>t. result = Some t \<and> renamed_type classes t)"
  shows "remap_descriptor mem classes (method_text params result) \<in> {(None, hit), (Some renamed, hit)} \<and>
    (alloc_total mem \<longrightarrow> remap_descriptor mem classes (method_text params result) = (Some renamed, hit))"
  using remap_descriptor_cases [of mem classes "method_text params result"]
    remap_descriptor_total [of mem classes "method_text params result"]
  by (simp add: rename_text_method [OF assms(1,2)] renamed_def hit_def)

theorem remap_descriptor_correct_witness:
  "remap_descriptor heap_ok [\<lparr>map_from = Some (cstr ''A''), map_to = Some (cstr ''x/B'')\<rparr>] (cstr ''(I[[LA;LC;)LA;'') =
     (Some (cstr ''(I[[Lx/B;LC;)Lx/B;''), True)"
  using remap_descriptor_correct [of "[JInt, JArray (JArray (JClass (cstr ''A''))), JClass (cstr ''C'')]" "Some (JClass (cstr ''A''))"
      heap_ok "[\<lparr>map_from = Some (cstr ''A''), map_to = Some (cstr ''x/B'')\<rparr>]"] alloc_total_heap_ok
  by (simp add: method_text_def rename_class_def)

end
