(* ===== verification/Remap_Correct.thy ===== *)
theory Remap_Correct
  imports Class_Remap
begin

text \<open>
  What the passes of the renaming do to a class file. A pass over the pool is a chain of steps,
  one per index; each changes at most the entry of its index and adds entries behind the others. So an entry can be
  followed through a pass: it is the original one when its turn comes, and what its step made of it at
  the end.
\<close>

section \<open>Passes over the pool\<close>

type_synonym pool_step = "ClassFile \<Rightarrow> nat \<Rightarrow> classfile_status \<times> ClassFile"

inductive chain :: "pool_step \<Rightarrow> nat \<Rightarrow> nat \<Rightarrow> ClassFile \<Rightarrow> ClassFile \<Rightarrow> bool" for step where
  chain_done: "chain step i i cf cf"
| chain_step: "step cf i = (CLASSFILE_OK, cf1) \<Longrightarrow> chain step (Suc i) j cf1 cf2 \<Longrightarrow> chain step i j cf cf2"

lemma chain_le: "chain step i j cf cf' \<Longrightarrow> i \<le> j"
  by (induction rule: chain.induct) simp_all

lemma pool_loop_chain:
  "pool_loop step cf i = (CLASSFILE_OK, cf') \<Longrightarrow> i \<le> 65536 \<Longrightarrow>
   \<exists>j. chain step i j cf cf' \<and> unat (pool_count (cf_pool cf')) \<le> j \<and> j \<le> 65536"
proof (induction step cf i rule: pool_loop.induct)
  case (1 step cf i)
  show ?case
  proof (cases "i < unat (pool_count (cf_pool cf))")
    case True
    obtain st cf1 where s: "step cf i = (st, cf1)" by (metis surj_pair)
    from 1(2) True s have ok: "st = CLASSFILE_OK" "pool_loop step cf1 (i + 1) = (CLASSFILE_OK, cf')"
      by (subst (asm) pool_loop.simps, simp split: if_splits)+
    have "i + 1 \<le> 65536" using True unat_u2_less [of "pool_count (cf_pool cf)"] by linarith
    with 1(1) [OF True s [symmetric] refl] ok obtain j where "chain step (i + 1) j cf1 cf'"
      "unat (pool_count (cf_pool cf')) \<le> j" "j \<le> 65536" by auto
    with s ok(1) show ?thesis by (auto intro: chain_step)
  next
    case False
    with 1(2,3) show ?thesis by (subst (asm) pool_loop.simps) (auto intro: chain_done)
  qed
qed

lemma chain_split:
  "chain step i j cf cf' \<Longrightarrow> i \<le> k \<Longrightarrow> k < j \<Longrightarrow>
   \<exists>a b. chain step i k cf a \<and> step a k = (CLASSFILE_OK, b) \<and> chain step (Suc k) j b cf'"
proof (induction rule: chain.induct)
  case (chain_step cf i cf1 j cf2)
  show ?case
  proof (cases "k = i")
    case True
    with chain_step show ?thesis by (blast intro: chain.chain_done)
  next
    case False
    with chain_step obtain a b where "chain step (Suc i) k cf1 a" "step a k = (CLASSFILE_OK, b)"
      "chain step (Suc k) j b cf2" by auto
    with chain_step(1) show ?thesis by (blast intro: chain.chain_step)
  qed
qed simp

text \<open>
  A step that changes at most its own entry, and that one only if it is of the kind \<open>P\<close>.
\<close>

definition touches :: "(nat \<Rightarrow> cp_info \<Rightarrow> bool) \<Rightarrow> ClassFile \<Rightarrow> ClassFile \<Rightarrow> bool" where
  "touches may cf cf' \<longleftrightarrow>
     cf' = cf\<lparr>cf_pool := cf_pool cf'\<rparr> \<and> pool_inv (cf_pool cf') \<and>
     (\<forall>i. constant_pool_at (cf_pool cf) i \<noteq> None \<longrightarrow> constant_pool_at (cf_pool cf') i \<noteq> None) \<and>
     (\<forall>i e. constant_pool_at (cf_pool cf) i = Some e \<longrightarrow> \<not> may (unat i) e \<longrightarrow>
        constant_pool_at (cf_pool cf') i = Some e)"

lemma touches_refl: "pool_inv (cf_pool cf) \<Longrightarrow> touches may cf cf"
  by (simp add: touches_def)

lemma touches_trans:
  assumes "touches may a b" "touches may' b c"
  shows "touches (\<lambda>i e. may i e \<or> may' i e) a c"
proof -
  have "c = a\<lparr>cf_pool := cf_pool c\<rparr>"
    using assms unfolding touches_def by (cases a; cases b; cases c) simp
  with assms show ?thesis unfolding touches_def by (auto intro: order_trans)
qed

lemma touches_mono: "touches may a b \<Longrightarrow> (\<And>i e. may i e \<Longrightarrow> may' i e) \<Longrightarrow> touches may' a b"
  unfolding touches_def by blast

lemma interned_touches:
  assumes "interned cf cf'" "pool_inv (cf_pool cf)"
  shows "touches (\<lambda>_ _. False) cf cf'"
  using assms unfolding touches_def interned_def pool_extends_def by blast

lemma wf_slots_update:
  "wf_slots es \<Longrightarrow> k < length es \<Longrightarrow> cp_tag (es ! k) \<noteq> 0 \<Longrightarrow> wf_cp e \<Longrightarrow> cp_tag e = cp_tag (es ! k) \<Longrightarrow>
   wf_slots (es[k := e])"
proof (induction es arbitrary: k rule: length_induct)
  case (1 es)
  then obtain x rest where es: "es = x # rest" by (cases es) auto
  show ?case
  proof (cases k)
    case 0
    with 1 es show ?thesis by (simp add: wf_slots_step)
  next
    case (Suc j)
    show ?thesis
    proof (cases "two_slots x")
      case True
      with 1(2) es obtain es' where es': "rest = CP_None # es'" "wf_slots es'" by (auto simp: wf_slots_step)
      with 1 es Suc obtain l where "j = Suc l" by (cases j) auto
      with 1 es es' Suc True show ?thesis by (simp add: wf_slots_step)
    next
      case False
      with 1 es Suc show ?thesis by (simp add: wf_slots_step)
    qed
  qed
qed

lemma update_entry_touches:
  assumes "pool_inv (cf_pool cf)" "constant_pool_at (cf_pool cf) (of_nat i) = Some e" "i < 65536"
    "wf_cp (f e)" "cp_tag (f e) = cp_tag e"
  shows "touches (\<lambda>j _. j = i) cf (update_entry i f cf)"
    and "constant_pool_at (cf_pool (update_entry i f cf)) (of_nat i) = Some (f e)"
proof -
  let ?pool = "cf_pool cf" and ?pool' = "cf_pool (update_entry i f cf)"
  have u: "unat (of_nat i :: u2) = i" using assms(3) by simp
  have e: "pool_entries ?pool ! i = e" "0 < i" "i < unat (pool_count ?pool)" "cp_tag e \<noteq> 0"
    using assms(2) u by (auto simp: constant_pool_at_def Let_def word_le_nat_alt split: if_splits intro: gr0I)
  have len: "i < length (pool_entries ?pool)" using e assms(1) by (simp add: pool_inv_def)
  have fields: "pool_count ?pool' = pool_count ?pool" "pool_entries ?pool' = (pool_entries ?pool)[i := f e]"
    by (simp_all add: update_entry_def e)
  have at: "constant_pool_at ?pool' j = (if unat j = i then Some (f e) else constant_pool_at ?pool j)" for j
    using e len assms(5) by (auto simp: constant_pool_at_def fields Let_def nth_list_update word_le_nat_alt)
  have "pool_used ?pool' = (pool_used ?pool)[i - 1 := f e]"
    using e by (simp add: pool_used_def fields take_update_swap drop_update_swap)
  moreover have "pool_used ?pool ! (i - 1) = e" "i - 1 < length (pool_used ?pool)"
    using e len assms(1) by (auto simp: pool_used_def pool_inv_def)
  ultimately have "wf_slots (pool_used ?pool')"
    using assms(1,4,5) e(4) wf_slots_update [of "pool_used ?pool" "i - 1" "f e"] by (simp add: pool_inv_def)
  then have "pool_inv ?pool'"
    using assms(1) e by (auto simp: pool_inv_def fields nth_list_update)
  then show "touches (\<lambda>j _. j = i) cf (update_entry i f cf)"
    using at by (simp add: touches_def fields) (simp add: update_entry_def)
  show "constant_pool_at ?pool' (of_nat i) = Some (f e)" using at u by simp
qed

section \<open>Texts\<close>

definition nul_free :: "cstring \<Rightarrow> bool" where
  "nul_free s \<longleftrightarrow> 0 \<notin> set s"

text \<open>The strings of a mapping are C strings.\<close>

definition ctx_ok :: "remap_context \<Rightarrow> bool" where
  "ctx_ok ctx \<longleftrightarrow>
     list_all (\<lambda>m. pred_option nul_free (map_to m)) (ctx_classes ctx) \<and>
     list_all (\<lambda>m. pred_option nul_free (runtime_name m) \<and> pred_option nul_free (runtime_descriptor m) \<and>
        pred_option nul_free (runtime_owner m)) (ctx_methods ctx @ ctx_fields ctx)"

definition text_at :: "constant_pool \<Rightarrow> u2 \<Rightarrow> cstring option" where
  "text_at pool i = map_option c_text (constant_pool_utf8 pool i)"

lemma c_text_nul_free [simp]: "nul_free (c_text s)"
  by (auto simp: nul_free_def c_text_def dest: set_takeWhileD)

lemma c_text_id [simp]: "nul_free s \<Longrightarrow> c_text s = s"
  by (auto simp: nul_free_def c_text_def takeWhile_eq_all_conv)

lemma utf8_duplicate_text: "utf8_duplicate mem pool i = Some t \<Longrightarrow> text_at pool i = Some t"
  by (auto simp: utf8_duplicate_def text_at_def duplicate_text_def split: option.splits if_splits)

lemma text_at_nul_free: "text_at pool i = Some t \<Longrightarrow> nul_free t"
  by (auto simp: text_at_def)

lemma lookup_class_nul_free:
  "list_all (\<lambda>m. pred_option nul_free (map_to m)) classes \<Longrightarrow> lookup_class classes name = Some to \<Longrightarrow> nul_free to"
  by (induction classes) (auto split: option.splits if_splits)

lemma rename_class_nul_free:
  "list_all (\<lambda>m. pred_option nul_free (map_to m)) classes \<Longrightarrow> nul_free name \<Longrightarrow> nul_free (rename_class classes name)"
  using lookup_class_nul_free by (auto simp: rename_class_def split: option.splits)

lemma rename_text_nul_free:
  assumes "list_all (\<lambda>m. pred_option nul_free (map_to m)) classes"
  shows "nul_free p \<Longrightarrow> nul_free (fst (rename_text classes p))"
proof (induction p rule: length_induct)
  case (1 p)
  show ?case
  proof (cases p)
    case (Cons c rest)
    show ?thesis
    proof (cases rest rule: class_name_cases)
      case no: 1
      with 1 Cons show ?thesis
        by (cases "c = JVM_SIGNATURE_CLASS") (auto simp: rename_text_shapes nul_free_def)
    next
      case (2 name later)
      with 1 Cons rename_class_nul_free [OF assms, of name] show ?thesis
        by (cases "c = JVM_SIGNATURE_CLASS") (auto simp: rename_text_shapes nul_free_def)
    qed
  qed (simp add: rename_text_shapes nul_free_def)
qed

lemma rename_text_unchanged: "\<not> snd (rename_text classes p) \<Longrightarrow> fst (rename_text classes p) = p"
proof (induction p rule: length_induct)
  case (1 p)
  show ?case
  proof (cases p)
    case (Cons c rest)
    show ?thesis
    proof (cases rest rule: class_name_cases)
      case no: 1
      with 1 Cons show ?thesis
        by (cases "c = JVM_SIGNATURE_CLASS") (auto simp: rename_text_shapes)
    next
      case (2 name later)
      with 1 Cons show ?thesis
        by (cases "c = JVM_SIGNATURE_CLASS") (auto simp: rename_text_shapes rename_class_def)
    qed
  qed (simp add: rename_text_shapes)
qed

section \<open>Names and types\<close>

definition member_at :: "constant_pool \<Rightarrow> u2 \<Rightarrow> (cstring \<times> cstring) option" where
  "member_at pool i =
     (case constant_pool_at pool i of
        Some (CP_NameAndType n d) \<Rightarrow>
          (case (text_at pool n, text_at pool d) of (Some name, Some desc) \<Rightarrow> Some (name, desc) | _ \<Rightarrow> None)
      | _ \<Rightarrow> None)"

text \<open>The new name and descriptor of a member: what its mapping says, else its own with renamed classes.\<close>

definition new_member :: "class_mapping list \<Rightarrow> member_mapping option \<Rightarrow> cstring \<times> cstring \<Rightarrow> cstring \<times> cstring" where
  "new_member classes mapping m =
     (case mapped runtime_name mapping of Some r \<Rightarrow> r | None \<Rightarrow> fst m,
      case mapped runtime_descriptor mapping of Some r \<Rightarrow> r | None \<Rightarrow> fst (rename_text classes (snd m)))"

definition mapping_ok :: "member_mapping option \<Rightarrow> bool" where
  "mapping_ok mapping \<longleftrightarrow> pred_option nul_free (mapped runtime_name mapping) \<and>
     pred_option nul_free (mapped runtime_descriptor mapping) \<and> pred_option nul_free (mapped runtime_owner mapping)"

lemma text_at_utf8: "constant_pool_utf8_equals pool i s \<Longrightarrow> nul_free s \<Longrightarrow> text_at pool i = Some s"
  by (auto simp: constant_pool_utf8_equals_def text_at_def split: option.splits)

lemma member_at_name_and_type:
  "pool_name_and_type pool i name desc \<Longrightarrow> nul_free name \<Longrightarrow> nul_free desc \<Longrightarrow> member_at pool i = Some (name, desc)"
  by (auto simp: pool_name_and_type_def member_at_def text_at_utf8 split: option.splits cp_info.splits)

lemma member_at_nul_free: "member_at pool i = Some (name, desc) \<Longrightarrow> nul_free name \<and> nul_free desc"
  by (auto simp: member_at_def text_at_nul_free split: option.splits cp_info.splits)

lemma text_at_kept:
  assumes "touches may cf cf'" "\<And>i e. may i e \<Longrightarrow> reference_parts e \<noteq> None \<or> (\<exists>n. e = CP_Class n)"
  shows "text_at (cf_pool cf) i = Some t \<Longrightarrow> text_at (cf_pool cf') i = Some t"
    and "member_at (cf_pool cf) i = Some m \<Longrightarrow> member_at (cf_pool cf') i = Some m"
proof -
  have keep: "constant_pool_at (cf_pool cf') i = Some e"
    if "constant_pool_at (cf_pool cf) i = Some e" "reference_parts e = None" "\<forall>n. e \<noteq> CP_Class n" for i e
    using assms that unfolding touches_def by blast
  have utf8: "text_at (cf_pool cf') i = Some t" if "text_at (cf_pool cf) i = Some t" for i t
    using that keep [of i] by (auto simp: text_at_def constant_pool_utf8_def split: option.splits cp_info.splits)
  show "text_at (cf_pool cf) i = Some t \<Longrightarrow> text_at (cf_pool cf') i = Some t" by (rule utf8)
  show "member_at (cf_pool cf) i = Some m \<Longrightarrow> member_at (cf_pool cf') i = Some m"
    using keep [of i] by (auto simp: member_at_def split: option.splits cp_info.splits dest!: utf8)
qed

lemma new_member_nul_free:
  "mapping_ok mapping \<Longrightarrow> ctx_ok ctx \<Longrightarrow> nul_free (fst m) \<Longrightarrow> nul_free (snd m) \<Longrightarrow>
   nul_free (fst (new_member (ctx_classes ctx) mapping m)) \<and> nul_free (snd (new_member (ctx_classes ctx) mapping m))"
  by (auto simp: new_member_def mapping_ok_def ctx_ok_def rename_text_nul_free split: option.splits)

text \<open>The part of \<open>remap_name_and_type\<close> and \<open>remap_member\<close> that settles the descriptor.\<close>

lemma settled_descriptor:
  assumes "(case mapped runtime_descriptor mapping of Some r \<Rightarrow> (Some r, True) | None \<Rightarrow> remap_descriptor mem classes desc) =
      (Some d, changed)"
  shows "(if changed then d else desc) = snd (new_member classes mapping (name, desc))"
    and "\<not> changed \<Longrightarrow> snd (new_member classes mapping (name, desc)) = desc"
  using assms remap_descriptor_cases [of mem classes desc] rename_text_unchanged [of classes desc]
  by (auto simp: new_member_def split: option.splits)

lemma remap_name_and_type_spec:
  assumes run: "remap_name_and_type mem cf ctx n mapping = (CLASSFILE_OK, cf', new)" and "pool_inv (cf_pool cf)"
    "member_at (cf_pool cf) n = Some m" "mapping_ok mapping" "ctx_ok ctx"
  shows "interned cf cf' \<and>
    member_at (cf_pool cf') (case new of Some n' \<Rightarrow> n' | None \<Rightarrow> n) = Some (new_member (ctx_classes ctx) mapping m)"
proof -
  let ?classes = "ctx_classes ctx"
  obtain nn dd name desc where m: "constant_pool_at (cf_pool cf) n = Some (CP_NameAndType nn dd)"
    "text_at (cf_pool cf) nn = Some name" "text_at (cf_pool cf) dd = Some desc" "m = (name, desc)"
    using assms(3) by (auto simp: member_at_def split: option.splits cp_info.splits)
  have dup: "utf8_duplicate mem (cf_pool cf) nn = Some name" "utf8_duplicate mem (cf_pool cf) dd = Some desc"
    using run m utf8_duplicate_text [of mem "cf_pool cf"]
    by (auto simp: remap_name_and_type_def split: option.splits)
  obtain dopt changed where d: "(case mapped runtime_descriptor mapping of Some r \<Rightarrow> (Some r, True)
      | None \<Rightarrow> remap_descriptor mem ?classes desc) = (dopt, changed)" by (metis surj_pair)
  from run m dup d obtain d' where d': "dopt = Some d'"
    by (cases dopt) (auto simp: remap_name_and_type_def)
  note desc = settled_descriptor [OF d [unfolded d']]
  have new: "new_member ?classes mapping m =
      (case mapped runtime_name mapping of Some r \<Rightarrow> r | None \<Rightarrow> name, if changed then d' else desc)"
    using desc(1) [of name] by (cases "mapped runtime_name mapping") (simp_all add: m(4) new_member_def)
  show ?thesis
  proof (cases "mapped runtime_name mapping \<noteq> None \<or> changed")
    case True
    with run m dup d d' have i: "classFile_intern_name_and_type mem cf (fst (new_member ?classes mapping m))
        (snd (new_member ?classes mapping m)) = (CLASSFILE_OK, cf', new)"
      unfolding new by (simp add: remap_name_and_type_def)
    have "nul_free name" "nul_free desc" using m(2,3) by (auto dest: text_at_nul_free)
    with new_member_nul_free [OF assms(4,5), of m] m(4) intern_name_and_type_spec [OF i assms(2)] show ?thesis
      by (auto simp: member_at_name_and_type)
  next
    case False
    with run m dup d d' have "cf' = cf" "new = None" by (auto simp: remap_name_and_type_def)
    moreover have "new_member ?classes mapping m = m" using False new m(4) by auto
    ultimately show ?thesis using assms(3) by simp
  qed
qed

section \<open>One reference\<close>

lemma find_member_ok:
  assumes "list_all (\<lambda>m. pred_option nul_free (runtime_name m) \<and> pred_option nul_free (runtime_descriptor m) \<and>
      pred_option nul_free (runtime_owner m)) table"
  shows "mapping_ok (find_member_inherited cf ctx table owner name desc)"
proof -
  have single: "find_member table o' name desc = Some m \<Longrightarrow> m \<in> set table" for o' m
    by (auto simp: find_member_def find_Some_iff split: if_splits)
  have ifaces: "find_in_interfaces ctx table is name desc = Some m \<Longrightarrow> m \<in> set table" for "is" m
    by (induction "is") (auto split: option.splits dest: single)
  have "find_member_inherited cf ctx table owner name desc = Some m \<Longrightarrow> m \<in> set table" for m
    by (auto simp: find_member_inherited_def Let_def split: option.splits if_splits dest: single ifaces)
  with assms show ?thesis
    by (cases "find_member_inherited cf ctx table owner name desc") (auto simp: mapping_ok_def list_all_iff)
qed

definition table_of :: "remap_context \<Rightarrow> bool \<Rightarrow> member_mapping list" where
  "table_of ctx is_field = (if is_field then ctx_fields ctx else ctx_methods ctx)"

text \<open>The mapping of a reference with an owner, in terms of the texts.\<close>

definition mapping_for ::
  "ClassFile \<Rightarrow> remap_context \<Rightarrow> bool \<Rightarrow> u2 option \<Rightarrow> cstring \<times> cstring \<Rightarrow> member_mapping option" where
  "mapping_for cf ctx is_field owner m =
     Option.bind owner (\<lambda>c. find_member_inherited cf ctx (table_of ctx is_field) (original_class_name ctx c) (fst m) (snd m))"

lemma mapping_for_ok: "ctx_ok ctx \<Longrightarrow> mapping_ok (mapping_for cf ctx is_field owner m)"
proof (cases owner)
  case (Some c)
  moreover assume "ctx_ok ctx"
  ultimately show ?thesis
    using find_member_ok [of "table_of ctx is_field"] by (auto simp: mapping_for_def table_of_def ctx_ok_def)
qed (simp add: mapping_for_def mapping_ok_def)

lemma pool_class_kept:
  assumes "touches may cf cf'" "pool_class (cf_pool cf) c name" "\<And>i e. may i e \<Longrightarrow> reference_parts e \<noteq> None"
  shows "pool_class (cf_pool cf') c name"
proof -
  have "constant_pool_at (cf_pool cf') i = Some e" if "constant_pool_at (cf_pool cf) i = Some e" "reference_parts e = None" for i e
    using assms(1,3) that unfolding touches_def by blast
  with assms(2) show ?thesis
    by (auto simp: pool_class_def constant_pool_utf8_equals_iff split: option.splits cp_info.splits)
qed

abbreviation own_entry :: "nat \<Rightarrow> nat \<Rightarrow> cp_info \<Rightarrow> bool" where
  "own_entry i \<equiv> \<lambda>j e. j = i \<and> reference_parts e \<noteq> None"

lemma set_index_parts:
  "reference_parts e = Some (f, owner, n) \<Longrightarrow> reference_parts (set_nat_index n' e) = Some (f, owner, n')"
  "reference_parts e = Some (f, Some c, n) \<Longrightarrow> reference_parts (set_class_index c' e) = Some (f, Some c', n)"
  "cp_tag (set_nat_index n' e) = cp_tag e" "cp_tag (set_class_index c' e) = cp_tag e"
  "reference_parts e \<noteq> None \<Longrightarrow> wf_cp (set_nat_index n' e)" "reference_parts e \<noteq> None \<Longrightarrow> wf_cp (set_class_index c' e)"
  by (cases e; simp)+

lemma update_kind_touches:
  assumes "pool_inv (cf_pool cf)" "constant_pool_at (cf_pool cf) (of_nat i) = Some e" "i < 65536" "kind e"
    "wf_cp (f e)" "cp_tag (f e) = cp_tag e"
  shows "touches (\<lambda>k e. k = i \<and> kind e) cf (update_entry i f cf)"
proof -
  have "unat j = i \<Longrightarrow> j = of_nat i" for j :: u2 by auto
  then have "unat j = i \<Longrightarrow> e' = e" if "constant_pool_at (cf_pool cf) j = Some e'" for j e'
    using that assms(2) by auto
  with update_entry_touches(1) [where f = f, OF assms(1-3,5,6)] assms(4) show ?thesis
    unfolding touches_def by blast
qed

lemmas update_reference_touches = update_kind_touches [where kind = "\<lambda>e. reference_parts e \<noteq> None"]

lemma touches_own_trans: "touches (own_entry i) a b \<Longrightarrow> touches (own_entry i) b c \<Longrightarrow> touches (own_entry i) a c"
  by (drule (1) touches_trans) (erule touches_mono, blast)

text \<open>
  What the step makes of a reference whose name and descriptor can be read: the entry of the same kind with the new
  name and descriptor, and with its own class unless the mapping moves it.
\<close>

definition reference_remapped ::
  "remap_context \<Rightarrow> member_mapping option \<Rightarrow> cp_info \<Rightarrow> cstring \<times> cstring \<Rightarrow> constant_pool \<Rightarrow> cp_info \<Rightarrow> bool" where
  "reference_remapped ctx mapping e m pool e' \<longleftrightarrow>
     (\<exists>f owner n owner' n'. reference_parts e = Some (f, owner, n) \<and> reference_parts e' = Some (f, owner', n') \<and>
        cp_tag e' = cp_tag e \<and> member_at pool n' = Some (new_member (ctx_classes ctx) mapping m) \<and>
        (case mapped runtime_owner mapping of
           None \<Rightarrow> owner' = owner
         | Some r \<Rightarrow> \<exists>c. owner' = Some c \<and> pool_class pool c r))"

text \<open>Both lookups of the texts give the same answer, so a mapping is only missed when the step fails.\<close>

lemma reference_mapping_eq:
  assumes "remap_name_and_type mem cf ctx n mapping = (CLASSFILE_OK, cf1, new)" "member_at (cf_pool cf) n = Some m"
  shows "Option.bind owner (\<lambda>c. reference_mapping mem ctx cf f c n) = mapping_for cf ctx f owner m"
proof -
  obtain nn dd where at: "constant_pool_at (cf_pool cf) n = Some (CP_NameAndType nn dd)"
    "text_at (cf_pool cf) nn = Some (fst m)" "text_at (cf_pool cf) dd = Some (snd m)"
    using assms(2) by (auto simp: member_at_def split: option.splits cp_info.splits)
  moreover have "utf8_duplicate mem (cf_pool cf) nn = Some (fst m)" "utf8_duplicate mem (cf_pool cf) dd = Some (snd m)"
    using assms(1) at utf8_duplicate_text [of mem "cf_pool cf"]
    by (auto simp: remap_name_and_type_def split: option.splits)
  ultimately show ?thesis by (simp add: reference_mapping_def mapping_for_def table_of_def)
qed

lemma remap_reference_ok:
  assumes run: "remap_reference mem ctx cf i = (CLASSFILE_OK, cf')"
    and e: "constant_pool_at (cf_pool cf) (of_nat i) = Some e" "reference_parts e = Some (f, owner, n)"
    and m: "member_at (cf_pool cf) n = Some m"
  obtains cf1 new cf2 where "remap_name_and_type mem cf ctx n (mapping_for cf ctx f owner m) = (CLASSFILE_OK, cf1, new)"
    "cf2 = (case new of Some n' \<Rightarrow> update_entry i (set_nat_index n') cf1 | None \<Rightarrow> cf1)"
    "(case mapped runtime_owner (mapping_for cf ctx f owner m) of
        None \<Rightarrow> cf' = cf2
      | Some r \<Rightarrow> \<exists>st cf3 ci. classFile_intern_class mem cf2 r = (st, cf3, ci) \<and> (ci = None \<longrightarrow> st = CLASSFILE_OK) \<and>
                          (\<forall>c. ci = Some c \<longrightarrow> cf' = update_entry i (set_class_index c) cf3))"
proof -
  let ?m0 = "Option.bind owner (\<lambda>c. reference_mapping mem ctx cf f c n)"
  obtain st cf1 new where r1: "remap_name_and_type mem cf ctx n ?m0 = (st, cf1, new)" by (metis prod_cases3)
  have ok: "st = CLASSFILE_OK" using run e r1 by (auto simp: remap_reference_def Let_def split: if_splits)
  note eq = reference_mapping_eq [OF r1 [unfolded ok] m, of owner f]
  let ?cf2 = "case new of Some n' \<Rightarrow> update_entry i (set_nat_index n') cf1 | None \<Rightarrow> cf1"
  have "case mapped runtime_owner (mapping_for cf ctx f owner m) of
      None \<Rightarrow> cf' = ?cf2
    | Some r \<Rightarrow> \<exists>st cf3 ci. classFile_intern_class mem ?cf2 r = (st, cf3, ci) \<and> (ci = None \<longrightarrow> st = CLASSFILE_OK) \<and>
                        (\<forall>c. ci = Some c \<longrightarrow> cf' = update_entry i (set_class_index c) cf3)"
    using run e r1 ok
    by (auto simp: remap_reference_def Let_def eq split: option.splits prod.splits)
  with that [OF _ refl] r1 ok eq show thesis by auto
qed

lemma remap_reference_spec:
  assumes run: "remap_reference mem ctx cf i = (CLASSFILE_OK, cf')" and inv: "pool_inv (cf_pool cf)" and i: "i < 65536"
    and e: "constant_pool_at (cf_pool cf) (of_nat i) = Some e" "reference_parts e = Some (f, owner, n)"
    and m: "member_at (cf_pool cf) n = Some m" and ctx: "ctx_ok ctx"
  shows "touches (own_entry i) cf cf' \<and>
    (\<exists>e'. constant_pool_at (cf_pool cf') (of_nat i) = Some e' \<and>
       reference_remapped ctx (mapping_for cf ctx f owner m) e m (cf_pool cf') e')"
  using run e m
proof (rule remap_reference_ok)
  fix cf1 new cf2
  let ?map = "mapping_for cf ctx f owner m" and ?n = "case new of Some n' \<Rightarrow> n' | None \<Rightarrow> n"
  let ?e = "case new of Some n' \<Rightarrow> set_nat_index n' e | None \<Rightarrow> e"
  assume r1: "remap_name_and_type mem cf ctx n ?map = (CLASSFILE_OK, cf1, new)"
    and cf2: "cf2 = (case new of Some n' \<Rightarrow> update_entry i (set_nat_index n') cf1 | None \<Rightarrow> cf1)"
    and cf': "case mapped runtime_owner ?map of None \<Rightarrow> cf' = cf2
      | Some r \<Rightarrow> \<exists>st cf3 ci. classFile_intern_class mem cf2 r = (st, cf3, ci) \<and> (ci = None \<longrightarrow> st = CLASSFILE_OK) \<and>
                          (\<forall>c. ci = Some c \<longrightarrow> cf' = update_entry i (set_class_index c) cf3)"
  note s1 = remap_name_and_type_spec [OF r1 inv m mapping_for_ok [OF ctx] ctx]
  have i1: "interned cf cf1" and inv1: "pool_inv (cf_pool cf1)" and e1: "constant_pool_at (cf_pool cf1) (of_nat i) = Some e"
    using s1 interned_inv inv interned_at e(1) by blast+
  have r: "reference_parts e \<noteq> None" using e(2) by simp
  have t2: "touches (own_entry i) cf1 cf2" "constant_pool_at (cf_pool cf2) (of_nat i) = Some ?e"
    using update_reference_touches [OF inv1 e1 i r] update_entry_touches(2) [OF inv1 e1 i] touches_refl [OF inv1] e1
    by (auto simp: cf2 set_index_parts r split: option.splits)
  have parts: "reference_parts ?e = Some (f, owner, ?n)" "cp_tag ?e = cp_tag e"
    using e(2) by (auto simp: set_index_parts split: option.splits)
  have t: "touches (own_entry i) cf cf2"
    using touches_own_trans [OF touches_mono [OF interned_touches [OF i1 inv]] t2(1)] by blast
  have inv2: "pool_inv (cf_pool cf2)" using t by (simp add: touches_def)
  have m2: "member_at (cf_pool cf2) ?n = Some (new_member (ctx_classes ctx) ?map m)"
    using text_at_kept(2) [OF t2(1)] s1 by blast
  show ?thesis
  proof (cases "mapped runtime_owner ?map")
    case None
    with cf' t t2(2) parts m2 e(2) show ?thesis by (auto simp: reference_remapped_def)
  next
    case (Some rt)
    then obtain c0 where owner: "owner = Some c0" by (cases owner) (auto simp: mapping_for_def)
    from cf' Some obtain st cf3 ci where c3: "classFile_intern_class mem cf2 rt = (st, cf3, ci)"
        "ci = None \<longrightarrow> st = CLASSFILE_OK" "\<forall>c. ci = Some c \<longrightarrow> cf' = update_entry i (set_class_index c) cf3" by auto
    from intern_class_spec [OF c3(1) inv2] c3(2) obtain c where c: "ci = Some c" "interned cf2 cf3"
      "pool_class (cf_pool cf3) c rt" by auto
    note inv3 = interned_inv [OF c(2) inv2] and e3 = interned_at [OF c(2) t2(2)]
    have r3: "reference_parts ?e \<noteq> None" using parts by simp
    have t3: "touches (own_entry i) cf3 cf'" "constant_pool_at (cf_pool cf') (of_nat i) = Some (set_class_index c ?e)"
      using update_reference_touches [OF inv3 e3 i r3, of "set_class_index c"]
        update_entry_touches(2) [OF inv3 e3 i, of "set_class_index c"] c3(3) c(1) r3 by (auto simp: set_index_parts)
    have "touches (own_entry i) cf cf'"
      using touches_own_trans [OF touches_own_trans [OF t touches_mono [OF interned_touches [OF c(2) inv2]]] t3(1)] by blast
    moreover have "member_at (cf_pool cf') ?n = Some (new_member (ctx_classes ctx) ?map m)"
      using text_at_kept(2) [OF touches_mono [OF interned_touches [OF c(2) inv2]]] text_at_kept(2) [OF t3(1)] m2 by blast
    moreover have "pool_class (cf_pool cf') c rt" by (rule pool_class_kept [OF t3(1) c(3)]) blast
    ultimately show ?thesis
      using t3(2) parts e(2) owner Some set_index_parts(2) [of ?e f c0 ?n c] by (auto simp: reference_remapped_def set_index_parts)
  qed
qed

section \<open>All references\<close>

lemma remap_reference_touches:
  assumes "remap_reference mem ctx cf i = (CLASSFILE_OK, cf')" "pool_inv (cf_pool cf)" "i < 65536" "ctx_ok ctx"
  shows "touches (own_entry i) cf cf'"
proof (cases "Option.bind (constant_pool_at (cf_pool cf) (of_nat i)) reference_parts")
  case None
  with assms(1) have "cf' = cf" by (auto simp: remap_reference_def)
  with assms(2) show ?thesis by (simp add: touches_refl)
next
  case (Some p)
  then obtain e f owner n where e: "constant_pool_at (cf_pool cf) (of_nat i) = Some e" "reference_parts e = Some (f, owner, n)"
    by (cases "constant_pool_at (cf_pool cf) (of_nat i)") (auto, metis prod_cases3)
  show ?thesis
  proof (cases "member_at (cf_pool cf) n")
    case None
    have "cf' = cf"
      using assms(1) e None utf8_duplicate_text [of mem "cf_pool cf"]
      by (auto simp: remap_reference_def reference_mapping_def remap_name_and_type_def member_at_def Let_def
          split: option.splits cp_info.splits prod.splits)
    with assms(2) show ?thesis by (simp add: touches_refl)
  next
    case (Some m)
    from remap_reference_spec [OF assms(1-3) e Some assms(4)] show ?thesis by blast
  qed
qed

text \<open>A chain of steps that each touch their own entry touches the entries of its range.\<close>

lemma chain_touches:
  assumes "chain step i j cf cf'" "j \<le> 65536" "pool_inv (cf_pool cf)"
    and "\<And>cf cf' i. step cf i = (CLASSFILE_OK, cf') \<Longrightarrow> pool_inv (cf_pool cf) \<Longrightarrow> i < 65536 \<Longrightarrow>
      touches (\<lambda>k e. k = i \<and> kind e) cf cf'"
  shows "touches (\<lambda>k e. i \<le> k \<and> k < j \<and> kind e) cf cf'"
  using assms(1-3)
proof (induction rule: chain.induct)
  case (chain_done i cf)
  then show ?case by (simp add: touches_refl)
next
  case (chain_step cf i cf1 j cf2)
  have "Suc i \<le> j" using chain_le [OF chain_step(2)] .
  with chain_step(4) have "i < 65536" by simp
  note t = assms(4) [OF chain_step(1,5) this]
  moreover have "touches (\<lambda>k e. Suc i \<le> k \<and> k < j \<and> kind e) cf1 cf2"
    using chain_step(3,4) t by (simp add: touches_def)
  ultimately show ?case
    by (rule touches_mono [OF touches_trans]) (use \<open>Suc i \<le> j\<close> in auto)
qed

text \<open>How an entry fares in a pass: its step sees it as it was, and leaves it as it stays.\<close>

lemma pass_entry:
  assumes "pool_loop step cf 1 = (CLASSFILE_OK, cf')" "pool_inv (cf_pool cf)"
    and step: "\<And>cf cf' i. step cf i = (CLASSFILE_OK, cf') \<Longrightarrow> pool_inv (cf_pool cf) \<Longrightarrow> i < 65536 \<Longrightarrow>
      touches (\<lambda>k e. k = i \<and> kind e) cf cf'"
    and e: "constant_pool_at (cf_pool cf) i = Some e"
  shows "\<exists>a b. touches (\<lambda>k e. k < unat i \<and> kind e) cf a \<and> constant_pool_at (cf_pool a) i = Some e \<and>
    step a (unat i) = (CLASSFILE_OK, b) \<and> touches (\<lambda>k e. unat i < k \<and> kind e) b cf'"
proof -
  obtain j where j: "chain step 1 j cf cf'" "unat (pool_count (cf_pool cf')) \<le> j" "j \<le> 65536"
    using pool_loop_chain [OF assms(1)] by auto
  have "touches (\<lambda>k e. 1 \<le> k \<and> k < j \<and> kind e) cf cf'"
    by (rule chain_touches [OF j(1,3) assms(2) step])
  then have "constant_pool_at (cf_pool cf') i \<noteq> None" using e by (simp add: touches_def)
  then have "unat i < j" "1 \<le> unat i"
    using j(2) by (auto simp: constant_pool_at_def word_le_nat_alt Suc_le_eq unat_gt_0 split: if_splits)
  from chain_split [OF j(1) this(2,1)] obtain a b where ab: "chain step 1 (unat i) cf a"
    "step a (unat i) = (CLASSFILE_OK, b)" "chain step (Suc (unat i)) j b cf'" by blast
  have i: "unat i < 65536" by simp
  have ta: "touches (\<lambda>k e. 1 \<le> k \<and> k < unat i \<and> kind e) cf a"
    by (rule chain_touches [OF ab(1) less_imp_le [OF i] assms(2) step])
  then have inv: "pool_inv (cf_pool a)" by (simp add: touches_def)
  have tb: "pool_inv (cf_pool b)" using step [OF ab(2) inv i] by (simp add: touches_def)
  have "touches (\<lambda>k e. unat i < k \<and> kind e) b cf'"
    by (rule touches_mono [OF chain_touches [OF ab(3) j(3) tb step]]) auto
  moreover have "touches (\<lambda>k e. k < unat i \<and> kind e) cf a" by (rule touches_mono [OF ta]) simp
  moreover have "constant_pool_at (cf_pool a) i = Some e" using ta e by (simp add: touches_def)
  ultimately show ?thesis using ab(2) by blast
qed

lemma touches_fields:
  assumes "touches may cf cf'"
  shows "this_class cf' = this_class cf" "super_class cf' = super_class cf" "cf_interfaces cf' = cf_interfaces cf"
    "cf_fields cf' = cf_fields cf" "cf_methods cf' = cf_methods cf"
proof -
  have "cf' = cf\<lparr>cf_pool := cf_pool cf'\<rparr>" using assms unfolding touches_def by blast
  then obtain pool where "cf' = cf\<lparr>cf_pool := pool\<rparr>" by blast
  then show "this_class cf' = this_class cf" "super_class cf' = super_class cf" "cf_interfaces cf' = cf_interfaces cf"
    "cf_fields cf' = cf_fields cf" "cf_methods cf' = cf_methods cf" by simp_all
qed

lemma mapping_for_same:
  assumes "this_class cf' = this_class cf" "super_class cf' = super_class cf" "cf_interfaces cf' = cf_interfaces cf"
  shows "mapping_for cf' ctx f owner m = mapping_for cf ctx f owner m"
  unfolding mapping_for_def find_member_inherited_def assms ..

lemma reference_remapped_kept:
  assumes "touches may cf cf'" "\<And>i e. may i e \<Longrightarrow> reference_parts e \<noteq> None"
    "reference_remapped ctx mapping e m (cf_pool cf) e'"
  shows "reference_remapped ctx mapping e m (cf_pool cf') e'"
proof -
  have "member_at (cf_pool cf') n = Some x" if "member_at (cf_pool cf) n = Some x" for n x
    using text_at_kept(2) [OF assms(1) _ that] assms(2) by blast
  moreover have "pool_class (cf_pool cf') c r" if "pool_class (cf_pool cf) c r" for c r
    by (rule pool_class_kept [OF assms(1) that assms(2)])
  ultimately show ?thesis
    using assms(3) unfolding reference_remapped_def by (cases "mapped runtime_owner mapping") (simp; blast)+
qed

lemma remap_references_spec:
  assumes run: "remap_references mem ctx cf = (CLASSFILE_OK, cf')" and inv: "pool_inv (cf_pool cf)" and ctx: "ctx_ok ctx"
  shows "touches (\<lambda>_ e. reference_parts e \<noteq> None) cf cf'"
    and "constant_pool_at (cf_pool cf) i = Some e \<Longrightarrow> reference_parts e = Some (f, owner, n) \<Longrightarrow>
      member_at (cf_pool cf) n = Some m \<Longrightarrow>
      \<exists>e'. constant_pool_at (cf_pool cf') i = Some e' \<and>
        reference_remapped ctx (mapping_for cf ctx f owner m) e m (cf_pool cf') e'"
proof -
  note step = remap_reference_touches [OF _ _ _ ctx, of mem]
  obtain j where j: "chain (remap_reference mem ctx) 1 j cf cf'" "j \<le> 65536"
    using pool_loop_chain [OF run [unfolded remap_references_def]] by auto
  from chain_touches [OF j inv step] show "touches (\<lambda>_ e. reference_parts e \<noteq> None) cf cf'"
    by (rule touches_mono) auto
  assume e: "constant_pool_at (cf_pool cf) i = Some e" "reference_parts e = Some (f, owner, n)"
    and m: "member_at (cf_pool cf) n = Some m"
  from pass_entry [OF run [unfolded remap_references_def] inv step e(1)] obtain a b where
    a: "touches (\<lambda>k e. k < unat i \<and> reference_parts e \<noteq> None) cf a" "constant_pool_at (cf_pool a) i = Some e"
    and b: "remap_reference mem ctx a (unat i) = (CLASSFILE_OK, b)"
      "touches (\<lambda>k e. unat i < k \<and> reference_parts e \<noteq> None) b cf'" by blast
  have ia: "pool_inv (cf_pool a)" using a(1) by (simp add: touches_def)
  have ma: "member_at (cf_pool a) n = Some m" by (rule text_at_kept(2) [OF a(1) _ m]) blast
  have i: "of_nat (unat i) = i" "unat i < 65536" by simp_all
  from remap_reference_spec [OF b(1) ia i(2) _ e(2) ma ctx] a(2) obtain e' where
    e': "constant_pool_at (cf_pool b) i = Some e'"
      "reference_remapped ctx (mapping_for a ctx f owner m) e m (cf_pool b) e'" by auto
  have "constant_pool_at (cf_pool cf') i = Some e'" using b(2) e'(1) by (simp add: touches_def)
  moreover have "reference_remapped ctx (mapping_for a ctx f owner m) e m (cf_pool cf') e'"
    by (rule reference_remapped_kept [OF b(2) _ e'(2)]) blast
  ultimately show "\<exists>e'. constant_pool_at (cf_pool cf') i = Some e' \<and>
      reference_remapped ctx (mapping_for cf ctx f owner m) e m (cf_pool cf') e'"
    using mapping_for_same [OF touches_fields(1-3) [OF a(1)]] by auto
qed

section \<open>All classes\<close>

definition class_text :: "constant_pool \<Rightarrow> u2 \<Rightarrow> cstring option" where
  "class_text pool i = (case constant_pool_at pool i of Some (CP_Class n) \<Rightarrow> text_at pool n | _ \<Rightarrow> None)"

text \<open>An array class is named by its descriptor.\<close>

definition rename_entry :: "class_mapping list \<Rightarrow> cstring \<Rightarrow> cstring" where
  "rename_entry classes name =
     (if name \<noteq> [] \<and> hd name = JVM_SIGNATURE_ARRAY then fst (rename_text classes name) else rename_class classes name)"

abbreviation is_class :: "cp_info \<Rightarrow> bool" where
  "is_class e \<equiv> \<exists>n. e = CP_Class n"

lemma remap_class_name_spec:
  "remap_class_name mem classes name = (r, changed) \<Longrightarrow>
   (if changed then r = None \<or> r = Some (rename_entry classes name) else rename_entry classes name = name)"
  using remap_descriptor_cases [of mem classes name] rename_text_unchanged [of classes name]
  by (auto simp: remap_class_name_def rename_entry_def rename_class_def duplicate_text_def split: if_splits option.splits)

lemma remap_class_entry_spec:
  assumes run: "remap_class_entry mem ctx cf i = (CLASSFILE_OK, cf')" and inv: "pool_inv (cf_pool cf)" and i: "i < 65536"
    and ctx: "ctx_ok ctx"
  shows "touches (\<lambda>k e. k = i \<and> is_class e) cf cf' \<and>
    (\<forall>name. original_class_name ctx (of_nat i) = Some name \<longrightarrow> class_text (cf_pool cf) (of_nat i) = Some name \<longrightarrow>
       class_text (cf_pool cf') (of_nat i) = Some (rename_entry (ctx_classes ctx) name))"
proof (cases "\<exists>n name. constant_pool_at (cf_pool cf) (of_nat i) = Some (CP_Class n) \<and> original_class_name ctx (of_nat i) = Some name")
  case False
  with run have "cf' = cf" by (auto simp: remap_class_entry_def split: option.splits cp_info.splits)
  with False inv show ?thesis
    by (auto simp: class_text_def touches_refl split: option.splits cp_info.splits)
next
  case True
  then obtain n name where e: "constant_pool_at (cf_pool cf) (of_nat i) = Some (CP_Class n)"
    and name: "original_class_name ctx (of_nat i) = Some name" by blast
  obtain r changed where c: "remap_class_name mem (ctx_classes ctx) name = (r, changed)" by (metis surj_pair)
  note spec = remap_class_name_spec [OF c]
  show ?thesis
  proof (cases changed)
    case False
    with run e name c have "cf' = cf" by (simp add: remap_class_entry_def)
    with False spec name inv show ?thesis by (simp add: touches_refl)
  next
    case ch: True
    with run e name c spec have r: "r = Some (rename_entry (ctx_classes ctx) name)" by (auto simp: remap_class_entry_def)
    obtain st cf1 u where u: "classFile_intern_utf8 mem cf (rename_entry (ctx_classes ctx) name) = (st, cf1, u)"
      by (metis prod_cases3)
    note s = intern_utf8_all [OF u inv]
    from run e name c ch r u s obtain k where k: "u = Some k" "cf' = update_entry i (\<lambda>_. CP_Class k) cf1"
      by (cases u) (auto simp: remap_class_entry_def)
    have i1: "interned cf cf1" and at: "constant_pool_at (cf_pool cf1) k = Some (CP_Utf8 (rename_entry (ctx_classes ctx) name))"
      using s k(1) by blast+
    note inv1 = interned_inv [OF i1 inv] and e1 = interned_at [OF i1 e]
    note t = update_entry_touches [OF inv1 e1 i, of "\<lambda>_. CP_Class k", simplified, folded k(2)]
    have t1: "touches (\<lambda>k e. k = i \<and> is_class e) cf1 cf'"
      unfolding k(2) by (rule update_kind_touches [OF inv1 e1 i]) simp_all
    have "touches (\<lambda>k e. k = i \<and> is_class e) cf cf'"
      by (rule touches_mono [OF touches_trans [OF interned_touches [OF i1 inv] t1]]) simp
    moreover have "constant_pool_at (cf_pool cf') k = Some (CP_Utf8 (rename_entry (ctx_classes ctx) name))"
      using t1 at by (simp add: touches_def)
    moreover have "nul_free (rename_entry (ctx_classes ctx) name)" if "nul_free name"
      using ctx that by (simp add: rename_entry_def ctx_ok_def rename_text_nul_free rename_class_nul_free)
    ultimately show ?thesis using t(2) name
      by (auto simp: class_text_def text_at_def constant_pool_utf8_def split: option.splits cp_info.splits)
  qed
qed

lemma class_text_kept:
  assumes "touches may cf cf'" "class_text (cf_pool cf) i = Some name"
    "\<And>k e. may k e \<Longrightarrow> (k \<noteq> unat i \<and> is_class e) \<or> reference_parts e \<noteq> None"
  shows "class_text (cf_pool cf') i = Some name"
proof -
  obtain n where n: "constant_pool_at (cf_pool cf) i = Some (CP_Class n)" "text_at (cf_pool cf) n = Some name"
    using assms(2) by (auto simp: class_text_def split: option.splits cp_info.splits)
  have "\<not> may (unat i) (CP_Class n)" using assms(3) [of "unat i" "CP_Class n"] by auto
  then have "constant_pool_at (cf_pool cf') i = Some (CP_Class n)"
    using assms(1) n(1) unfolding touches_def by blast
  moreover have "text_at (cf_pool cf') n = Some name"
    by (rule text_at_kept(1) [OF assms(1) _ n(2)]) (use assms(3) in blast)
  ultimately show ?thesis by (simp add: class_text_def)
qed

lemma remap_class_entries_spec:
  assumes run: "remap_class_entries mem ctx cf = (CLASSFILE_OK, cf')" and inv: "pool_inv (cf_pool cf)" and ctx: "ctx_ok ctx"
  shows "touches (\<lambda>_ e. is_class e) cf cf'"
    and "class_text (cf_pool cf) i = Some name \<Longrightarrow> original_class_name ctx i = Some name \<Longrightarrow>
      class_text (cf_pool cf') i = Some (rename_entry (ctx_classes ctx) name)"
proof -
  have step: "touches (\<lambda>k e. k = i \<and> is_class e) cf cf'"
    if "remap_class_entry mem ctx cf i = (CLASSFILE_OK, cf')" "pool_inv (cf_pool cf)" "i < 65536" for cf cf' i
    using remap_class_entry_spec [OF that ctx] by blast
  obtain j where j: "chain (remap_class_entry mem ctx) 1 j cf cf'" "j \<le> 65536"
    using pool_loop_chain [OF run [unfolded remap_class_entries_def]] by auto
  from chain_touches [OF j inv step] show "touches (\<lambda>_ e. is_class e) cf cf'"
    by (rule touches_mono) auto
  assume name: "class_text (cf_pool cf) i = Some name" "original_class_name ctx i = Some name"
  then obtain e where e: "constant_pool_at (cf_pool cf) i = Some e" by (auto simp: class_text_def split: option.splits)
  from pass_entry [OF run [unfolded remap_class_entries_def] inv step e] obtain a b where
    a: "touches (\<lambda>k e. k < unat i \<and> is_class e) cf a"
    and b: "remap_class_entry mem ctx a (unat i) = (CLASSFILE_OK, b)" "touches (\<lambda>k e. unat i < k \<and> is_class e) b cf'"
    by blast
  have ia: "pool_inv (cf_pool a)" using a by (simp add: touches_def)
  have "class_text (cf_pool a) i = Some name" by (rule class_text_kept [OF a name(1)]) auto
  with remap_class_entry_spec [OF b(1) ia _ ctx] name(2)
  have "class_text (cf_pool b) i = Some (rename_entry (ctx_classes ctx) name)" by simp
  then show "class_text (cf_pool cf') i = Some (rename_entry (ctx_classes ctx) name)"
    by (rule class_text_kept [OF b(2)]) auto
qed

text \<open>An entry the snapshot has no name for, in particular one added by an earlier pass, is left alone.\<close>

lemma remap_class_entries_unnamed:
  assumes run: "remap_class_entries mem ctx cf = (CLASSFILE_OK, cf')" and inv: "pool_inv (cf_pool cf)" and ctx: "ctx_ok ctx"
    and name: "class_text (cf_pool cf) i = Some name" "original_class_name ctx i = None"
  shows "class_text (cf_pool cf') i = Some name"
proof -
  have step: "touches (\<lambda>k e. k = i \<and> is_class e) cf cf'"
    if "remap_class_entry mem ctx cf i = (CLASSFILE_OK, cf')" "pool_inv (cf_pool cf)" "i < 65536" for cf cf' i
    using remap_class_entry_spec [OF that ctx] by blast
  obtain e where e: "constant_pool_at (cf_pool cf) i = Some e" using name(1) by (auto simp: class_text_def split: option.splits)
  from pass_entry [OF run [unfolded remap_class_entries_def] inv step e] obtain a b where
    a: "touches (\<lambda>k e. k < unat i \<and> is_class e) cf a"
    and b: "remap_class_entry mem ctx a (unat i) = (CLASSFILE_OK, b)" "touches (\<lambda>k e. unat i < k \<and> is_class e) b cf'"
    by blast
  have "class_text (cf_pool a) i = Some name" by (rule class_text_kept [OF a name(1)]) auto
  moreover have "b = a" using b(1) name(2) by (auto simp: remap_class_entry_def split: option.splits cp_info.splits)
  ultimately show ?thesis using class_text_kept [OF b(2)] by auto
qed

section \<open>The names before the renaming\<close>

lemma snapshot_loop_texts:
  "snapshot_loop mem pool is = Inr names \<Longrightarrow> names = map (\<lambda>i. class_text pool (of_nat i)) is"
proof (induction "is" arbitrary: names)
  case (Cons i "is")
  obtain r where r: "snapshot_loop mem pool is = r" by blast
  show ?case
  proof (cases "\<exists>n. constant_pool_at pool (of_nat i) = Some (CP_Class n)")
    case True
    with Cons r show ?thesis
      by (cases r) (auto simp: class_text_def utf8_duplicate_text split: option.splits)
  next
    case False
    with Cons r show ?thesis
      by (cases r) (auto simp: class_text_def split: option.splits cp_info.splits)
  qed
qed simp

lemma snapshot_texts:
  assumes "snapshot_class_names mem cf = Inr names"
  shows "original_class_name (ctx\<lparr>original_class_names := names\<rparr>) i = class_text (cf_pool cf) i"
proof -
  let ?count = "unat (pool_count (cf_pool cf))"
  have none: "class_text (cf_pool cf) i = None" if "i = 0 \<or> ?count \<le> unat i"
    using that by (auto simp: class_text_def constant_pool_at_def word_le_nat_alt)
  show ?thesis
  proof (cases "?count = 0")
    case True
    with assms have "names = []" by (auto simp: snapshot_class_names_def Let_def split: if_splits)
    with True none show ?thesis by (simp add: original_class_name_def)
  next
    case False
    then obtain ns where ns: "snapshot_loop mem (cf_pool cf) [1..<?count] = Inr ns" "names = None # ns"
      using assms by (cases "snapshot_loop mem (cf_pool cf) [1..<?count]") (auto simp: snapshot_class_names_def Let_def split: if_splits)
    have names: "names = None # map (\<lambda>i. class_text (cf_pool cf) (of_nat i)) [1..<?count]"
      using snapshot_loop_texts [OF ns(1)] ns(2) by simp
    show ?thesis
    proof (cases "i = 0 \<or> ?count \<le> unat i")
      case True
      with none names False show ?thesis by (auto simp: original_class_name_def)
    next
      case in_pool: False
      then have pos: "0 < unat i" by (simp add: unat_gt_0)
      with in_pool have "unat i - 1 < ?count - 1" by auto
      then have "names ! unat i = class_text (cf_pool cf) i" using pos unfolding names by (simp add: nth_Cons' nth_map nth_upt)
      with in_pool names show ?thesis by (auto simp: original_class_name_def)
    qed
  qed
qed

section \<open>Own members\<close>

text \<open>What the pass over a member list leaves alone.\<close>

definition member_frame :: "bool \<Rightarrow> ClassFile \<Rightarrow> ClassFile \<Rightarrow> bool" where
  "member_frame isf cf cf' \<longleftrightarrow>
     (\<exists>pool list. cf' = (if isf then cf\<lparr>cf_pool := pool, cf_fields := list\<rparr> else cf\<lparr>cf_pool := pool, cf_methods := list\<rparr>)) \<and>
     vcap (own_members isf cf') = vcap (own_members isf cf) \<and>
     pool_extends (cf_pool cf) (cf_pool cf') \<and> pool_inv (cf_pool cf')"

definition member_texts :: "constant_pool \<Rightarrow> member_info \<Rightarrow> (cstring \<times> cstring) option" where
  "member_texts pool m =
     (case (text_at pool (name_index m), text_at pool (descriptor_index m)) of
        (Some name, Some desc) \<Rightarrow> Some (name, desc) | _ \<Rightarrow> None)"

lemma text_at_extends: "pool_extends pool pool' \<Longrightarrow> text_at pool i = Some t \<Longrightarrow> text_at pool' i = Some t"
  by (auto simp: text_at_def constant_pool_utf8_def pool_extends_def split: option.splits cp_info.splits)

lemma member_texts_extends:
  "pool_extends pool pool' \<Longrightarrow> member_texts pool m = Some t \<Longrightarrow> member_texts pool' m = Some t"
  by (auto simp: member_texts_def split: option.splits dest: text_at_extends)

lemma member_frame_refl: "pool_inv (cf_pool cf) \<Longrightarrow> member_frame isf cf cf"
proof -
  have "cf = (if isf then cf\<lparr>cf_pool := cf_pool cf, cf_fields := cf_fields cf\<rparr>
      else cf\<lparr>cf_pool := cf_pool cf, cf_methods := cf_methods cf\<rparr>)" by simp
  moreover assume "pool_inv (cf_pool cf)"
  ultimately show ?thesis unfolding member_frame_def by (metis pool_extends_refl)
qed

lemma member_frame_trans:
  assumes "member_frame isf a b" "member_frame isf b c"
  shows "member_frame isf a c"
proof -
  obtain pool list pool' list' where
    "b = (if isf then a\<lparr>cf_pool := pool, cf_fields := list\<rparr> else a\<lparr>cf_pool := pool, cf_methods := list\<rparr>)"
    "c = (if isf then b\<lparr>cf_pool := pool', cf_fields := list'\<rparr> else b\<lparr>cf_pool := pool', cf_methods := list'\<rparr>)"
    using assms unfolding member_frame_def by blast
  then have "\<exists>pool list. c = (if isf then a\<lparr>cf_pool := pool, cf_fields := list\<rparr> else a\<lparr>cf_pool := pool, cf_methods := list\<rparr>)"
    by (intro exI [of _ pool'] exI [of _ list']) simp
  moreover have "vcap (own_members isf c) = vcap (own_members isf a)" "pool_extends (cf_pool a) (cf_pool c)" "pool_inv (cf_pool c)"
    using assms pool_extends_trans unfolding member_frame_def by (simp, blast+)
  ultimately show ?thesis unfolding member_frame_def by blast
qed

lemma member_frame_same:
  assumes "member_frame isf cf cf'"
  shows "this_class cf' = this_class cf" "super_class cf' = super_class cf" "cf_interfaces cf' = cf_interfaces cf"
    "own_members (\<not> isf) cf' = own_members (\<not> isf) cf"
  using assms unfolding member_frame_def own_members_def by auto

lemma interned_frame:
  assumes "interned cf cf'" "pool_inv (cf_pool cf)"
  shows "member_frame isf cf cf'" "own_members b cf' = own_members b cf"
proof -
  obtain pool where cf': "cf' = cf\<lparr>cf_pool := pool\<rparr>" using assms(1) unfolding interned_def by blast
  then have "\<exists>pool list. cf' = (if isf then cf\<lparr>cf_pool := pool, cf_fields := list\<rparr> else cf\<lparr>cf_pool := pool, cf_methods := list\<rparr>)"
    by (intro exI [of _ pool] exI [of _ "if isf then cf_fields cf else cf_methods cf"]) simp
  moreover show "own_members b cf' = own_members b cf" for b by (simp add: cf' own_members_def)
  ultimately show "member_frame isf cf cf'" using assms unfolding member_frame_def interned_def by simp
qed

lemma update_member_frame:
  "pool_inv (cf_pool cf) \<Longrightarrow> member_frame isf cf (update_member isf i f cf)"
proof -
  let ?cf = "update_member isf i f cf"
  have "?cf = (if isf then cf\<lparr>cf_pool := cf_pool cf, cf_fields := cf_fields ?cf\<rparr>
      else cf\<lparr>cf_pool := cf_pool cf, cf_methods := cf_methods ?cf\<rparr>)" "cf_pool ?cf = cf_pool cf"
    "vcap (own_members isf ?cf) = vcap (own_members isf cf)"
    by (simp_all add: update_member_def own_members_def Let_def)
  moreover assume "pool_inv (cf_pool cf)"
  ultimately show ?thesis unfolding member_frame_def by (metis pool_extends_refl)
qed

lemma update_member_items:
  "items (own_members isf (update_member isf i f cf)) =
     (items (own_members isf cf))[i := f (items (own_members isf cf) ! i)]"
  "cf_pool (update_member isf i f cf) = cf_pool cf"
  by (simp_all add: update_member_def own_members_def Let_def)

text \<open>A member of the result: the same flags and attributes, under its new name and descriptor.\<close>

definition member_remapped :: "remap_context \<Rightarrow> ClassFile \<Rightarrow> bool \<Rightarrow> member_info \<Rightarrow> constant_pool \<Rightarrow> member_info \<Rightarrow> bool" where
  "member_remapped ctx cf isf m pool m' \<longleftrightarrow>
     m' = m\<lparr>name_index := name_index m', descriptor_index := descriptor_index m'\<rparr> \<and>
     (\<forall>t. member_texts (cf_pool cf) m = Some t \<longrightarrow>
        member_texts pool m' =
          Some (new_member (ctx_classes ctx) (mapping_for cf ctx isf (Some (this_class cf)) t) t))"


text \<open>One index of a member is set to a text; the shape of both halves of \<open>remap_member\<close>.\<close>

lemma member_index_set:
  assumes run: "(case classFile_intern_utf8 mem cf t of
       (status, cf, None) \<Rightarrow> (status, cf)
     | (status, cf, Some index) \<Rightarrow> (CLASSFILE_OK, update_member isf i (set_index index) cf)) = (CLASSFILE_OK, cf')"
    and inv: "pool_inv (cf_pool cf)" and t: "nul_free t"
  obtains k where "member_frame isf cf cf'" "text_at (cf_pool cf') k = Some t"
    "items (own_members isf cf') = (items (own_members isf cf))[i := set_index k (items (own_members isf cf) ! i)]"
proof -
  obtain st cf1 u where u: "classFile_intern_utf8 mem cf t = (st, cf1, u)" by (metis prod_cases3)
  note s = intern_utf8_all [OF u inv]
  from run u s obtain k where k: "u = Some k" "cf' = update_member isf i (set_index k) cf1" by (cases u) auto
  have i1: "interned cf cf1" and at: "constant_pool_at (cf_pool cf1) k = Some (CP_Utf8 t)" using s k(1) by blast+
  have "member_frame isf cf cf'"
    unfolding k(2) by (rule member_frame_trans [OF interned_frame(1) [OF i1 inv] update_member_frame [OF interned_inv [OF i1 inv]]])
  moreover have "text_at (cf_pool cf') k = Some t"
    using at t by (simp add: k(2) update_member_items text_at_def constant_pool_utf8_def)
  ultimately show thesis using that [of k] interned_frame(2) [OF i1 inv, of isf] by (simp add: k(2) update_member_items)
qed

lemma remap_member_ok:
  assumes run: "remap_member mem ctx isf cf i = (CLASSFILE_OK, cf')"
  obtains name desc mapping cf1 nd changed where
    "text_at (cf_pool cf) (name_index (items (own_members isf cf) ! i)) = Some name"
    "text_at (cf_pool cf) (descriptor_index (items (own_members isf cf) ! i)) = Some desc"
    "mapping = mapping_for cf ctx isf (Some (this_class cf)) (name, desc)"
    "(case mapped runtime_name mapping of
        None \<Rightarrow> (CLASSFILE_OK, cf)
      | Some runtime \<Rightarrow>
          (case classFile_intern_utf8 mem cf runtime of
             (status, cf, None) \<Rightarrow> (status, cf)
           | (status, cf, Some index) \<Rightarrow> (CLASSFILE_OK, update_member isf i (\<lambda>m. m\<lparr>name_index := index\<rparr>) cf))) = (CLASSFILE_OK, cf1)"
    "(case mapped runtime_descriptor mapping of Some r \<Rightarrow> (Some r, True)
      | None \<Rightarrow> remap_descriptor mem (ctx_classes ctx) desc) = (Some nd, changed)"
    "(if \<not> changed then (CLASSFILE_OK, cf1)
      else case classFile_intern_utf8 mem cf1 nd of
             (status, cf, None) \<Rightarrow> (status, cf)
           | (status, cf, Some index) \<Rightarrow> (CLASSFILE_OK, update_member isf i (\<lambda>m. m\<lparr>descriptor_index := index\<rparr>) cf)) = (CLASSFILE_OK, cf')"
proof -
  let ?m = "items (own_members isf cf) ! i"
  obtain name desc where dup: "utf8_duplicate mem (cf_pool cf) (name_index ?m) = Some name"
    "utf8_duplicate mem (cf_pool cf) (descriptor_index ?m) = Some desc"
    using run by (auto simp: remap_member_def Let_def split: option.splits)
  define mapping where "mapping = mapping_for cf ctx isf (Some (this_class cf)) (name, desc)"
  have mapping: "find_member_inherited cf ctx (if isf then ctx_fields ctx else ctx_methods ctx)
      (original_class_name ctx (this_class cf)) name desc = mapping"
    by (simp add: mapping_def mapping_for_def table_of_def)
  define first where "first = (case mapped runtime_name mapping of
      None \<Rightarrow> (CLASSFILE_OK, cf)
    | Some runtime \<Rightarrow>
        (case classFile_intern_utf8 mem cf runtime of
           (status, cf, None) \<Rightarrow> (status, cf)
         | (status, cf, Some index) \<Rightarrow> (CLASSFILE_OK, update_member isf i (\<lambda>m. m\<lparr>name_index := index\<rparr>) cf)))"
  obtain st cf1 where f: "first = (st, cf1)" by (metis surj_pair)
  obtain nd changed where nd: "(case mapped runtime_descriptor mapping of Some r \<Rightarrow> (Some r, True)
      | None \<Rightarrow> remap_descriptor mem (ctx_classes ctx) desc) = (nd, changed)" by (metis surj_pair)
  have st: "st = CLASSFILE_OK"
    using run f nd by (auto simp: remap_member_def dup mapping first_def [symmetric] Let_def split: if_splits)
  moreover obtain d where "nd = Some d"
    using run f nd by (cases nd) (auto simp: remap_member_def dup mapping first_def [symmetric] Let_def split: if_splits)
  ultimately show thesis
    using that [OF utf8_duplicate_text [OF dup(1)] utf8_duplicate_text [OF dup(2)] mapping_def, folded first_def, of cf1 d changed]
      run f nd by (simp add: remap_member_def dup mapping first_def [symmetric] Let_def)
qed

lemma remap_member_spec:
  assumes run: "remap_member mem ctx isf cf i = (CLASSFILE_OK, cf')" and inv: "pool_inv (cf_pool cf)"
    and i: "i < length (items (own_members isf cf))" and ctx: "ctx_ok ctx"
  shows "member_frame isf cf cf' \<and>
    (\<exists>m'. items (own_members isf cf') = (items (own_members isf cf))[i := m'] \<and>
       member_remapped ctx cf isf (items (own_members isf cf) ! i) (cf_pool cf') m')"
  using run
proof (rule remap_member_ok)
  fix name desc mapping cf1 nd changed
  let ?m = "items (own_members isf cf) ! i"
  assume texts: "text_at (cf_pool cf) (name_index ?m) = Some name" "text_at (cf_pool cf) (descriptor_index ?m) = Some desc"
    and mapping: "mapping = mapping_for cf ctx isf (Some (this_class cf)) (name, desc)"
    and first: "(case mapped runtime_name mapping of
        None \<Rightarrow> (CLASSFILE_OK, cf)
      | Some runtime \<Rightarrow>
          (case classFile_intern_utf8 mem cf runtime of
             (status, cf, None) \<Rightarrow> (status, cf)
           | (status, cf, Some index) \<Rightarrow> (CLASSFILE_OK, update_member isf i (\<lambda>m. m\<lparr>name_index := index\<rparr>) cf))) = (CLASSFILE_OK, cf1)"
    and nd: "(case mapped runtime_descriptor mapping of Some r \<Rightarrow> (Some r, True)
      | None \<Rightarrow> remap_descriptor mem (ctx_classes ctx) desc) = (Some nd, changed)"
    and second: "(if \<not> changed then (CLASSFILE_OK, cf1)
      else case classFile_intern_utf8 mem cf1 nd of
             (status, cf, None) \<Rightarrow> (status, cf)
           | (status, cf, Some index) \<Rightarrow> (CLASSFILE_OK, update_member isf i (\<lambda>m. m\<lparr>descriptor_index := index\<rparr>) cf)) = (CLASSFILE_OK, cf')"
  have ok: "mapping_ok mapping" unfolding mapping by (rule mapping_for_ok [OF ctx])
  let ?new = "new_member (ctx_classes ctx) mapping (name, desc)"
  obtain n where f: "member_frame isf cf cf1" "items (own_members isf cf1) = (items (own_members isf cf))[i := ?m\<lparr>name_index := n\<rparr>]"
    "text_at (cf_pool cf1) n = Some (fst ?new)"
  proof (cases "mapped runtime_name mapping")
    case None
    with first texts inv that [of "name_index ?m"] show thesis by (simp add: member_frame_refl new_member_def)
  next
    case (Some r)
    with ok have "nul_free r" by (simp add: mapping_ok_def)
    from first Some have "(case classFile_intern_utf8 mem cf r of (status, cf, None) \<Rightarrow> (status, cf)
        | (status, cf, Some index) \<Rightarrow> (CLASSFILE_OK, update_member isf i (\<lambda>m. m\<lparr>name_index := index\<rparr>) cf)) = (CLASSFILE_OK, cf1)"
      by simp
    from member_index_set [OF this inv \<open>nul_free r\<close>] that Some show thesis by (auto simp: new_member_def)
  qed
  have inv1: "pool_inv (cf_pool cf1)" using f(1) by (simp add: member_frame_def)
  have d1: "text_at (cf_pool cf1) (descriptor_index ?m) = Some desc"
    using f(1) texts(2) text_at_extends by (auto simp: member_frame_def)
  obtain d where s: "member_frame isf cf1 cf'" "text_at (cf_pool cf') d = Some (snd ?new)"
    "items (own_members isf cf') = (items (own_members isf cf))[i := ?m\<lparr>name_index := n, descriptor_index := d\<rparr>]"
  proof (cases changed)
    case False
    with second f(2) d1 inv1 settled_descriptor(2) [OF nd, of name] that [of "descriptor_index ?m"] show thesis
      by (simp add: member_frame_refl)
  next
    case True
    have "nul_free (snd ?new)"
      using new_member_nul_free [OF ok ctx, of "(name, desc)"] texts by (simp add: text_at_nul_free)
    with True settled_descriptor(1) [OF nd, of name] have "nul_free nd" "nd = snd ?new" by simp_all
    from second True have "(case classFile_intern_utf8 mem cf1 nd of (status, cf, None) \<Rightarrow> (status, cf)
        | (status, cf, Some index) \<Rightarrow> (CLASSFILE_OK, update_member isf i (\<lambda>m. m\<lparr>descriptor_index := index\<rparr>) cf)) = (CLASSFILE_OK, cf')"
      by simp
    from member_index_set [OF this inv1 \<open>nul_free nd\<close>] that f(2) i \<open>nd = snd ?new\<close> show thesis by auto
  qed
  have "text_at (cf_pool cf') n = Some (fst ?new)"
    using s(1) f(3) text_at_extends by (auto simp: member_frame_def)
  then have "member_remapped ctx cf isf ?m (cf_pool cf') (?m\<lparr>name_index := n, descriptor_index := d\<rparr>)"
    using texts s(2) mapping by (simp add: member_remapped_def member_texts_def)
  with s(3) member_frame_trans [OF f(1) s(1)] show ?thesis by blast
qed

lemma member_remapped_frame:
  assumes "member_frame list a b"
  shows "member_remapped ctx b isf m pool m' \<Longrightarrow> member_remapped ctx a isf m pool m'"
    and "member_remapped ctx cf isf m (cf_pool a) m' \<Longrightarrow> member_remapped ctx cf isf m (cf_pool b) m'"
proof -
  have ext: "pool_extends (cf_pool a) (cf_pool b)" using assms by (simp add: member_frame_def)
  show "member_remapped ctx b isf m pool m' \<Longrightarrow> member_remapped ctx a isf m pool m'"
    using member_texts_extends [OF ext] mapping_for_same [OF member_frame_same(1-3) [OF assms]] member_frame_same(1) [OF assms]
    by (simp add: member_remapped_def)
  show "member_remapped ctx cf isf m (cf_pool a) m' \<Longrightarrow> member_remapped ctx cf isf m (cf_pool b) m'"
    using member_texts_extends [OF ext] by (auto simp: member_remapped_def)
qed

text \<open>The pass over a list of members.\<close>

lemma remap_members_loop_spec:
  assumes "remap_members_loop mem ctx isf is cf = (CLASSFILE_OK, cf')" "pool_inv (cf_pool cf)"
    "list_all (\<lambda>i. i < length (items (own_members isf cf))) is" "distinct is" "ctx_ok ctx"
  shows "member_frame isf cf cf' \<and> length (items (own_members isf cf')) = length (items (own_members isf cf)) \<and>
    (\<forall>i < length (items (own_members isf cf)).
       if i \<in> set is then member_remapped ctx cf isf (items (own_members isf cf) ! i) (cf_pool cf') (items (own_members isf cf') ! i)
       else items (own_members isf cf') ! i = items (own_members isf cf) ! i)"
  using assms
proof (induction "is" arbitrary: cf)
  case Nil
  then show ?case by (simp add: member_frame_refl)
next
  case (Cons i "is")
  let ?l = "\<lambda>c. items (own_members isf c)"
  obtain cf1 where s: "remap_member mem ctx isf cf i = (CLASSFILE_OK, cf1)" "remap_members_loop mem ctx isf is cf1 = (CLASSFILE_OK, cf')"
    using Cons.prems(1) by (auto simp: Let_def split: prod.splits if_splits)
  from remap_member_spec [OF s(1) Cons.prems(2) _ Cons.prems(5)] Cons.prems(3) obtain m' where
    f: "member_frame isf cf cf1" "?l cf1 = (?l cf)[i := m']" "member_remapped ctx cf isf (?l cf ! i) (cf_pool cf1) m'" by auto
  then have inv1: "pool_inv (cf_pool cf1)" by (simp add: member_frame_def)
  have "list_all (\<lambda>i. i < length (?l cf1)) is" "distinct is" using Cons.prems(3,4) f(2) by simp_all
  from Cons.IH [OF s(2) inv1 this Cons.prems(5)] have
    r: "member_frame isf cf1 cf'" "length (?l cf') = length (?l cf)"
      "\<And>k. k < length (?l cf) \<Longrightarrow> k \<in> set is \<Longrightarrow> member_remapped ctx cf1 isf (?l cf1 ! k) (cf_pool cf') (?l cf' ! k)"
      "\<And>k. k < length (?l cf) \<Longrightarrow> k \<notin> set is \<Longrightarrow> ?l cf' ! k = ?l cf1 ! k"
    using f(2) by auto
  have "member_remapped ctx cf isf (?l cf ! k) (cf_pool cf') (?l cf' ! k)" if "k < length (?l cf)" "k \<in> set is" for k
  proof -
    have "k \<noteq> i" using that(2) Cons.prems(4) by auto
    with f(2) have "?l cf1 ! k = ?l cf ! k" by simp
    with r(3) [OF that] member_remapped_frame(1) [OF f(1)] show ?thesis by simp
  qed
  moreover have "?l cf' ! i = m'" using r(4) [of i] f(2) Cons.prems(3,4) by simp
  ultimately show ?case
    using r(2,4) f(2) member_frame_trans [OF f(1) r(1)] member_remapped_frame(2) [OF r(1) f(3)] by auto
qed

lemma remap_own_members_spec:
  assumes "remap_own_members mem ctx isf cf = (CLASSFILE_OK, cf')" "pool_inv (cf_pool cf)" "ctx_ok ctx"
  shows "member_frame isf cf cf'"
    "list_all2 (\<lambda>m m'. member_remapped ctx cf isf m (cf_pool cf') m') (items (own_members isf cf)) (items (own_members isf cf'))"
  using remap_members_loop_spec [OF assms(1) [unfolded remap_own_members_def] assms(2) _ _ assms(3)]
  by (auto simp: list_all2_conv_all_nth list_all_iff)

section \<open>The whole renaming\<close>

text \<open>
  The mapping of a member in terms of the class file alone. A member is looked up under its class and, if that is the
  class of the file, under its super class and its interfaces.
\<close>

definition searched_owners :: "ClassFile \<Rightarrow> u2 \<Rightarrow> u2 list" where
  "searched_owners cf c =
     c # (if class_text (cf_pool cf) c \<noteq> None \<and> class_text (cf_pool cf) (this_class cf) = class_text (cf_pool cf) c
          then super_class cf # items (cf_interfaces cf) else [])"

definition declared_in :: "constant_pool \<Rightarrow> member_mapping list \<Rightarrow> cstring \<times> cstring \<Rightarrow> u2 \<Rightarrow> member_mapping option" where
  "declared_in pool table m c =
     Option.bind (class_text pool c) (\<lambda>owner.
       find (\<lambda>entry. map_owner entry = Some owner \<and> map_name entry = Some (fst m) \<and>
               map_descriptor entry \<in> {None, Some (snd m)}) table)"

definition declared_mapping ::
  "remap_context \<Rightarrow> ClassFile \<Rightarrow> bool \<Rightarrow> u2 option \<Rightarrow> cstring \<times> cstring \<Rightarrow> member_mapping option" where
  "declared_mapping ctx cf is_field owner m =
     Option.bind owner (\<lambda>c.
       Option.bind (find (\<lambda>o'. declared_in (cf_pool cf) (table_of ctx is_field) m o' \<noteq> None) (searched_owners cf c))
         (declared_in (cf_pool cf) (table_of ctx is_field) m))"

lemma mapping_for_declared:
  assumes names: "\<And>i. original_class_name ctx i = class_text (cf_pool cf) i"
  shows "mapping_for cf ctx is_field owner m = declared_mapping ctx cf is_field owner m"
proof (cases owner)
  case (Some c)
  let ?table = "table_of ctx is_field" and ?text = "class_text (cf_pool cf)"
  let ?in = "declared_in (cf_pool cf) ?table m"
  have member: "find_member ?table (?text i) (fst m) (snd m) = ?in i" for i
    by (cases "?text i") (auto simp: find_member_def declared_in_def intro!: arg_cong [where f = "\<lambda>P. find P ?table"])
  have ifaces: "find_in_interfaces ctx ?table is (fst m) (snd m) = Option.bind (find (\<lambda>o'. ?in o' \<noteq> None) is) ?in" for "is"
    by (induction "is") (auto simp: names member split: option.splits)
  show ?thesis
    by (auto simp: mapping_for_def Some declared_mapping_def find_member_inherited_def names member ifaces searched_owners_def Let_def
        split: option.splits)
qed (simp add: mapping_for_def declared_mapping_def)

lemma declared_mapping_names [simp]: "declared_mapping (ctx\<lparr>original_class_names := ns\<rparr>) cf f owner m = declared_mapping ctx cf f owner m"
  by (simp add: declared_mapping_def table_of_def)

lemma ctx_ok_names [simp]: "ctx_ok (ctx\<lparr>original_class_names := ns\<rparr>) = ctx_ok ctx"
  by (simp add: ctx_ok_def)

lemma snapshot_error: "snapshot_class_names mem cf = Inl st \<Longrightarrow> st = CLASSFILE_ERR_OUT_OF_MEMORY"
proof -
  have loop: "snapshot_loop mem pool is = Inl st \<Longrightarrow> st = CLASSFILE_ERR_OUT_OF_MEMORY" for pool "is"
  proof (induction "is")
    case (Cons i "is")
    then show ?case by (cases "snapshot_loop mem pool is") (auto split: option.splits cp_info.splits)
  qed simp
  let ?loop = "snapshot_loop mem (cf_pool cf) [1..<unat (pool_count (cf_pool cf))]"
  assume "snapshot_class_names mem cf = Inl st"
  then show ?thesis using loop by (cases ?loop) (auto simp: snapshot_class_names_def Let_def split: if_splits)
qed

text \<open>The four passes of a successful renaming.\<close>

lemma remap_tree_passes:
  assumes "remap_tree mem ctx cf = (CLASSFILE_OK, cf')"
  obtains ctx' cf1 cf2 cf3 ns where "ctx' = ctx\<lparr>original_class_names := ns\<rparr>" "\<And>i. original_class_name ctx' i = class_text (cf_pool cf) i"
    "remap_references mem ctx' cf = (CLASSFILE_OK, cf1)" "remap_own_members mem ctx' True cf1 = (CLASSFILE_OK, cf2)"
    "remap_own_members mem ctx' False cf2 = (CLASSFILE_OK, cf3)" "remap_class_entries mem ctx' cf3 = (CLASSFILE_OK, cf')"
proof (cases "snapshot_class_names mem cf")
  case (Inr ns)
  let ?ctx = "ctx\<lparr>original_class_names := ns\<rparr>"
  obtain s1 cf1 where p1: "remap_references mem ?ctx cf = (s1, cf1)" by (metis surj_pair)
  obtain s2 cf2 where p2: "remap_own_members mem ?ctx True cf1 = (s2, cf2)" by (metis surj_pair)
  obtain s3 cf3 where p3: "remap_own_members mem ?ctx False cf2 = (s3, cf3)" by (metis surj_pair)
  from assms Inr p1 p2 p3 have "s1 = CLASSFILE_OK" "s2 = CLASSFILE_OK" "s3 = CLASSFILE_OK" "remap_class_entries mem ?ctx cf3 = (CLASSFILE_OK, cf')"
    by (auto simp: remap_tree_def Let_def split: if_splits)
  with that [OF refl snapshot_texts [OF Inr]] p1 p2 p3 show thesis by blast
qed (use assms snapshot_error in \<open>force simp: remap_tree_def\<close>)

lemma pool_extends_texts:
  assumes "pool_extends pool pool'"
  shows class_text_extends: "class_text pool i = Some t \<Longrightarrow> class_text pool' i = Some t"
    and member_at_extends: "member_at pool i = Some m \<Longrightarrow> member_at pool' i = Some m"
proof -
  have at: "constant_pool_at pool j = Some e \<Longrightarrow> constant_pool_at pool' j = Some e" for j e
    using assms unfolding pool_extends_def by blast
  show "class_text pool i = Some t \<Longrightarrow> class_text pool' i = Some t"
    using at [of i] text_at_extends [OF assms] by (auto simp: class_text_def split: option.splits cp_info.splits)
  show "member_at pool i = Some m \<Longrightarrow> member_at pool' i = Some m"
    using at [of i] by (auto simp: member_at_def split: option.splits cp_info.splits dest!: text_at_extends [OF assms])
qed

lemma class_text_pool_class: "pool_class pool c name \<Longrightarrow> nul_free name \<Longrightarrow> class_text pool c = Some name"
  by (auto simp: pool_class_def class_text_def text_at_utf8 split: option.splits cp_info.splits)

text \<open>The pool through the last three passes: only class entries change, and those as the last pass says.\<close>

lemma later_passes:
  assumes "remap_own_members mem ctx True cf1 = (CLASSFILE_OK, cf2)" "remap_own_members mem ctx False cf2 = (CLASSFILE_OK, cf3)"
    "remap_class_entries mem ctx cf3 = (CLASSFILE_OK, cf')" and inv: "pool_inv (cf_pool cf1)" and ctx: "ctx_ok ctx"
  shows "constant_pool_at (cf_pool cf1) i = Some e \<Longrightarrow> \<not> is_class e \<Longrightarrow> constant_pool_at (cf_pool cf') i = Some e"
    and "member_at (cf_pool cf1) i = Some m \<Longrightarrow> member_at (cf_pool cf') i = Some m"
    and "class_text (cf_pool cf1) i = Some name \<Longrightarrow> original_class_name ctx i \<in> {None, Some name} \<Longrightarrow>
      class_text (cf_pool cf') i = Some (if original_class_name ctx i = None then name else rename_entry (ctx_classes ctx) name)"
proof -
  note f2 = remap_own_members_spec(1) [OF assms(1) inv ctx]
  then have inv2: "pool_inv (cf_pool cf2)" by (simp add: member_frame_def)
  note f3 = remap_own_members_spec(1) [OF assms(2) inv2 ctx]
  then have inv3: "pool_inv (cf_pool cf3)" by (simp add: member_frame_def)
  have ext: "pool_extends (cf_pool cf1) (cf_pool cf3)"
    using f2 f3 pool_extends_trans unfolding member_frame_def by blast
  note t = remap_class_entries_spec(1) [OF assms(3) inv3 ctx]
  show "constant_pool_at (cf_pool cf1) i = Some e \<Longrightarrow> \<not> is_class e \<Longrightarrow> constant_pool_at (cf_pool cf') i = Some e"
    using ext t unfolding pool_extends_def touches_def by blast
  show "member_at (cf_pool cf1) i = Some m \<Longrightarrow> member_at (cf_pool cf') i = Some m"
    using text_at_kept(2) [OF t] member_at_extends [OF ext] by blast
  show "class_text (cf_pool cf') i = Some (if original_class_name ctx i = None then name else rename_entry (ctx_classes ctx) name)"
    if "class_text (cf_pool cf1) i = Some name" "original_class_name ctx i \<in> {None, Some name}"
    using that class_text_extends [OF ext that(1)] remap_class_entries_spec(2) [OF assms(3) inv3 ctx]
      remap_class_entries_unnamed [OF assms(3) inv3 ctx] by auto
qed

lemma class_text_references:
  assumes "touches (\<lambda>_ e. reference_parts e \<noteq> None) cf cf'"
  shows "class_text (cf_pool cf) i = Some name \<Longrightarrow> class_text (cf_pool cf') i = Some name"
  using class_text_kept [OF assms] by blast

lemma remap_tree_frames:
  assumes "remap_tree mem ctx cf = (CLASSFILE_OK, cf')" and inv: "pool_inv (cf_pool cf)" and "ctx_ok ctx"
  obtains ctx' cf1 cf2 cf3 where
    "ctx_classes ctx' = ctx_classes ctx" "ctx_ok ctx'" "\<And>i. original_class_name ctx' i = class_text (cf_pool cf) i"
    "\<And>f owner m. mapping_for cf ctx' f owner m = declared_mapping ctx cf f owner m"
    "remap_references mem ctx' cf = (CLASSFILE_OK, cf1)" "remap_own_members mem ctx' True cf1 = (CLASSFILE_OK, cf2)"
    "remap_own_members mem ctx' False cf2 = (CLASSFILE_OK, cf3)" "remap_class_entries mem ctx' cf3 = (CLASSFILE_OK, cf')"
    "touches (\<lambda>_ e. reference_parts e \<noteq> None) cf cf1" "member_frame True cf1 cf2" "member_frame False cf2 cf3"
    "touches (\<lambda>_ e. is_class e) cf3 cf'" "pool_inv (cf_pool cf1)" "pool_inv (cf_pool cf2)"
  using assms(1)
proof (rule remap_tree_passes)
  fix ctx' ns cf1 cf2 cf3
  assume ctx': "ctx' = ctx\<lparr>original_class_names := ns\<rparr>" and names: "\<And>i. original_class_name ctx' i = class_text (cf_pool cf) i"
    and p: "remap_references mem ctx' cf = (CLASSFILE_OK, cf1)" "remap_own_members mem ctx' True cf1 = (CLASSFILE_OK, cf2)"
      "remap_own_members mem ctx' False cf2 = (CLASSFILE_OK, cf3)" "remap_class_entries mem ctx' cf3 = (CLASSFILE_OK, cf')"
  have ctx: "ctx_ok ctx'" "ctx_classes ctx' = ctx_classes ctx" using assms(3) by (simp_all add: ctx')
  have mapping: "mapping_for cf ctx' f owner m = declared_mapping ctx cf f owner m" for f owner m
    by (simp add: mapping_for_declared [OF names]) (simp add: ctx')
  note t1 = remap_references_spec(1) [OF p(1) inv ctx(1)]
  then have inv1: "pool_inv (cf_pool cf1)" by (simp add: touches_def)
  note f2 = remap_own_members_spec(1) [OF p(2) inv1 ctx(1)]
  then have inv2: "pool_inv (cf_pool cf2)" by (simp add: member_frame_def)
  note f3 = remap_own_members_spec(1) [OF p(3) inv2 ctx(1)]
  then have inv3: "pool_inv (cf_pool cf3)" by (simp add: member_frame_def)
  show thesis
    by (rule that [OF ctx(2,1) names mapping p t1 f2 f3 remap_class_entries_spec(1) [OF p(4) inv3 ctx(1)] inv1 inv2])
qed

subsection \<open>An example\<close>

text \<open>
  A class \<^verbatim>\<open>A extends B\<close> with a method \<^verbatim>\<open>m(LA;)V\<close> and a reference to it; \<^verbatim>\<open>B.m\<close> is
  called \<^verbatim>\<open>n\<close> at run time and \<^verbatim>\<open>A\<close> is called \<^verbatim>\<open>Z\<close>.
\<close>

abbreviation mappings :: "class_mapping list \<Rightarrow> member_mapping list \<Rightarrow> member_mapping list \<Rightarrow> remap_context" where
  "mappings cm mm fm \<equiv> \<lparr>ctx_classes = cm, ctx_methods = mm, ctx_fields = fm, original_class_names = []\<rparr>"

definition example_class :: ClassFile where
  "example_class =
     \<lparr>minor_version = 0, major_version = 52,
      cf_pool = \<lparr>pool_entries = [CP_None, CP_Utf8 (cstr ''m''), CP_Utf8 (cstr ''(LA;)V''), CP_Class 4, CP_Utf8 (cstr ''A''),
                                 CP_Class 6, CP_Utf8 (cstr ''B''), CP_NameAndType 1 2, CP_Methodref 3 7], pool_count = 9\<rparr>,
      cf_access_flags = 0, this_class = 3, super_class = 5, cf_interfaces = vec_init, cf_fields = vec_init,
      cf_methods = \<lparr>items = [\<lparr>access_flags = JVM_ACC_STATIC, name_index = 1, descriptor_index = 2, attributes = vec_init\<rparr>], vcap = 1\<rparr>,
      cf_attributes = vec_init\<rparr>"

definition example_mappings :: remap_context where
  "example_mappings = mappings [\<lparr>map_from = Some (cstr ''A''), map_to = Some (cstr ''Z'')\<rparr>]
     [\<lparr>map_owner = Some (cstr ''B''), map_name = Some (cstr ''m''), map_descriptor = None,
       runtime_owner = None, runtime_name = Some (cstr ''n''), runtime_descriptor = None\<rparr>] []"

lemma example_ok: "pool_inv (cf_pool example_class)" "ctx_ok example_mappings"
  by (simp_all add: example_class_def example_mappings_def ctx_ok_def nul_free_def pool_inv_def pool_used_def
      CLASSFILE_MAX_COUNT_def cp_info_slots_def less_Suc_eq)

lemma example_runs: "remap_tree heap_ok example_mappings example_class = (CLASSFILE_OK, snd (remap_tree heap_ok example_mappings example_class))"
proof -
  have "fst (remap_tree heap_ok example_mappings example_class) = CLASSFILE_OK" by code_simp
  then show ?thesis by (metis prod.collapse)
qed

lemma example_texts:
  "class_text (cf_pool example_class) 3 = Some (cstr ''A'')"
  "rename_entry (ctx_classes example_mappings) (cstr ''A'') = cstr ''Z''"
  "constant_pool_at (cf_pool example_class) 8 = Some (CP_Methodref 3 7)"
  "member_at (cf_pool example_class) 7 = Some (cstr ''m'', cstr ''(LA;)V'')"
  "mapped runtime_owner (declared_mapping example_mappings example_class False (Some 3) (cstr ''m'', cstr ''(LA;)V'')) = None"
  "new_member (ctx_classes example_mappings) (declared_mapping example_mappings example_class False (Some 3) (cstr ''m'', cstr ''(LA;)V''))
     (cstr ''m'', cstr ''(LA;)V'') = (cstr ''n'', cstr ''(LZ;)V'')"
  by code_simp+

subsection \<open>Properties\<close>

text \<open>
  C22: in a successful renaming every class entry of the file ends up with the name the class mappings give it, an array class
  by its element type, and an unmapped class with its old name; the indices that refer to classes, among them the class itself, its super class
  and its interfaces, are not changed.\<close>

theorem remap_renames_classes:
  assumes "remap_tree mem ctx cf = (CLASSFILE_OK, cf')" "pool_inv (cf_pool cf)" "ctx_ok ctx"
    "class_text (cf_pool cf) i = Some name"
  shows "class_text (cf_pool cf') i = Some (rename_entry (ctx_classes ctx) name) \<and> pool_inv (cf_pool cf') \<and>
    this_class cf' = this_class cf \<and> super_class cf' = super_class cf \<and> cf_interfaces cf' = cf_interfaces cf"
  using assms(1-3)
proof (rule remap_tree_frames)
  fix ctx' cf1 cf2 cf3
  assume ctx: "ctx_classes ctx' = ctx_classes ctx" "ctx_ok ctx'" "\<And>i. original_class_name ctx' i = class_text (cf_pool cf) i"
    and p: "remap_own_members mem ctx' True cf1 = (CLASSFILE_OK, cf2)"
      "remap_own_members mem ctx' False cf2 = (CLASSFILE_OK, cf3)" "remap_class_entries mem ctx' cf3 = (CLASSFILE_OK, cf')"
    and f: "touches (\<lambda>_ e. reference_parts e \<noteq> None) cf cf1" "member_frame True cf1 cf2" "member_frame False cf2 cf3"
      "touches (\<lambda>_ e. is_class e) cf3 cf'" and inv: "pool_inv (cf_pool cf1)"
  show ?thesis
    using later_passes(3) [OF p inv ctx(2) class_text_references [OF f(1) assms(4)]] ctx(1,3) assms(4) f(4)
      touches_fields(1-3) [OF f(1)] touches_fields(1-3) [OF f(4)] member_frame_same(1-3) [OF f(2)] member_frame_same(1-3) [OF f(3)]
    by (simp add: touches_def)
qed

theorem remap_renames_classes_witness:
  "class_text (cf_pool (snd (remap_tree heap_ok example_mappings example_class))) 3 = Some (cstr ''Z'')"
  using remap_renames_classes [OF example_runs example_ok example_texts(1)] unfolding example_texts by blast



text \<open>
  C23: in a successful renaming the fields and methods of the class keep their order, flags and attributes. A member whose name
  and descriptor can be read gets those of its mapping, found as for a reference to it, so a method that overrides a
  renamed one is renamed with it; without a mapping it keeps its name, and the classes in its descriptor are renamed.
  Nothing else of the class file changes but the pool.\<close>

theorem remap_renames_members:
  assumes "remap_tree mem ctx cf = (CLASSFILE_OK, cf')" "pool_inv (cf_pool cf)" "ctx_ok ctx"
  defines "renamed \<equiv> \<lambda>is_field m m'.
    m' = m\<lparr>name_index := name_index m', descriptor_index := descriptor_index m'\<rparr> \<and>
    (\<forall>t. member_texts (cf_pool cf) m = Some t \<longrightarrow>
       member_texts (cf_pool cf') m' =
         Some (new_member (ctx_classes ctx) (declared_mapping ctx cf is_field (Some (this_class cf)) t) t))"
  shows "list_all2 (renamed True) (items (cf_fields cf)) (items (cf_fields cf')) \<and>
    list_all2 (renamed False) (items (cf_methods cf)) (items (cf_methods cf')) \<and>
    cf' = cf\<lparr>cf_pool := cf_pool cf', cf_fields := cf_fields cf', cf_methods := cf_methods cf'\<rparr>"
  using assms(1-3)
proof (rule remap_tree_frames)
  fix ctx' cf1 cf2 cf3
  assume ctx: "ctx_classes ctx' = ctx_classes ctx" "ctx_ok ctx'"
    and declared: "\<And>f owner m. mapping_for cf ctx' f owner m = declared_mapping ctx cf f owner m"
    and p: "remap_own_members mem ctx' True cf1 = (CLASSFILE_OK, cf2)" "remap_own_members mem ctx' False cf2 = (CLASSFILE_OK, cf3)"
    and f: "touches (\<lambda>_ e. reference_parts e \<noteq> None) cf cf1" "member_frame True cf1 cf2" "member_frame False cf2 cf3"
      "touches (\<lambda>_ e. is_class e) cf3 cf'" and inv: "pool_inv (cf_pool cf1)" "pool_inv (cf_pool cf2)"
  have text1: "text_at (cf_pool cf) i = Some t \<Longrightarrow> text_at (cf_pool cf1) i = Some t" for i t
    using text_at_kept(1) [OF f(1)] by blast
  have text4: "text_at (cf_pool cf3) i = Some t \<Longrightarrow> text_at (cf_pool cf') i = Some t" for i t
    using text_at_kept(1) [OF f(4)] by blast
  have start: "member_texts (cf_pool cf) m = Some t \<Longrightarrow> member_texts (cf_pool cf1) m = Some t" for m t
    by (auto simp: member_texts_def split: option.splits dest!: text1)
  have finish: "member_texts (cf_pool cf3) m = Some t \<Longrightarrow> member_texts (cf_pool cf') m = Some t" for m t
    by (auto simp: member_texts_def split: option.splits dest!: text4)
  note same = touches_fields [OF f(1)] touches_fields [OF f(4)] member_frame_same [OF f(2)] member_frame_same [OF f(3)]
  have step: "renamed isf m m'" if "member_remapped ctx' cf1 isf m (cf_pool cf3) m'" for isf m m'
    using that start finish declared [symmetric] mapping_for_same [OF touches_fields(1-3) [OF f(1)]]
    by (auto simp: renamed_def member_remapped_def ctx(1) touches_fields(1) [OF f(1)])
  have "list_all2 (renamed True) (items (cf_fields cf)) (items (cf_fields cf'))"
    using remap_own_members_spec(2) [OF p(1) inv(1) ctx(2)] same
    by (auto simp: own_members_def elim!: list_all2_mono intro!: step member_remapped_frame(2) [OF f(3)])
  moreover have "list_all2 (renamed False) (items (cf_methods cf)) (items (cf_methods cf'))"
    using remap_own_members_spec(2) [OF p(2) inv(2) ctx(2)] same
    by (auto simp: own_members_def elim!: list_all2_mono intro!: step member_remapped_frame(1) [OF f(2)])
  moreover obtain p1 p4 where "cf1 = cf\<lparr>cf_pool := p1\<rparr>" "cf' = cf3\<lparr>cf_pool := p4\<rparr>"
    using f(1,4) unfolding touches_def by blast
  moreover obtain p2 l2 p3 l3 where "cf2 = cf1\<lparr>cf_pool := p2, cf_fields := l2\<rparr>" "cf3 = cf2\<lparr>cf_pool := p3, cf_methods := l3\<rparr>"
    using f(2,3) unfolding member_frame_def by auto
  ultimately show ?thesis by simp
qed

theorem remap_renames_members_witness:
  "list_all2 (\<lambda>m m'. member_texts (cf_pool (snd (remap_tree heap_ok example_mappings example_class))) m' = Some (cstr ''n'', cstr ''(LZ;)V''))
     (items (cf_methods example_class)) (items (cf_methods (snd (remap_tree heap_ok example_mappings example_class))))"
proof -
  let ?cf = "snd (remap_tree heap_ok example_mappings example_class)"
  note all = remap_renames_members [OF example_runs example_ok, THEN conjunct2, THEN conjunct1]
  have "\<forall>m \<in> set (items (cf_methods example_class)). member_texts (cf_pool example_class) m = Some (cstr ''m'', cstr ''(LA;)V'')"
    "this_class example_class = 3" by code_simp+
  with all show ?thesis
    by (auto simp: example_texts(6) list_all2_conv_all_nth simp del: cstr_simps)
qed

section \<open>The public entry\<close>

lemma remap_class_ok:
  assumes "JNI2Hook_RemapClass mem input cm mm fm = Inr bytes"
  obtains cf cf' where "classfile_parse mem input = Inr cf" "remap_tree mem (mappings cm mm fm) cf = (CLASSFILE_OK, cf')"
    "classfile_serialize mem cf' = Inr bytes"
proof -
  obtain cf where cf: "classfile_parse mem input = Inr cf"
    using assms by (cases "classfile_parse mem input") (auto simp: JNI2Hook_RemapClass_def split: if_splits)
  obtain st cf' where r: "remap_tree mem (mappings cm mm fm) cf = (st, cf')" by (metis surj_pair)
  with assms cf that show thesis
    by (cases "classfile_serialize mem cf'") (auto simp: JNI2Hook_RemapClass_def split: if_splits)
qed

lemma wf_members_kept:
  assumes "wf_members list" "vcap list' = vcap list"
    "list_all2 (\<lambda>m m'. attributes m' = attributes m) (items list) (items list')"
  shows "wf_members list'"
  using assms list_all2_lengthD [OF assms(3)]
  by (auto simp: wf_members_def vec_inv_def wf_member_def list_all_length list_all2_conv_all_nth)

lemma member_remapped_attributes: "member_remapped ctx cf isf m pool m' \<Longrightarrow> attributes m' = attributes m"
  unfolding member_remapped_def by (metis member_info.select_convs(4) member_info.surjective member_info.update_convs(2,3))

lemma remap_tree_wf:
  assumes "remap_tree mem ctx cf = (CLASSFILE_OK, cf')" "wf_classfile cf" "ctx_ok ctx" "class_text (cf_pool cf) i = Some name"
  shows "wf_classfile cf'"
proof -
  have "pool_inv (cf_pool cf)" using assms(2) by (simp add: wf_classfile_def wf_pool_def)
  from assms(1) this assms(3) show ?thesis
  proof (rule remap_tree_frames)
    fix ctx' cf1 cf2 cf3
    assume ctx: "ctx_ok ctx'" "\<And>i. original_class_name ctx' i = class_text (cf_pool cf) i"
      and p: "remap_own_members mem ctx' True cf1 = (CLASSFILE_OK, cf2)" "remap_own_members mem ctx' False cf2 = (CLASSFILE_OK, cf3)"
        "remap_class_entries mem ctx' cf3 = (CLASSFILE_OK, cf')"
      and f: "touches (\<lambda>_ e. reference_parts e \<noteq> None) cf cf1" "member_frame True cf1 cf2" "member_frame False cf2 cf3"
        "touches (\<lambda>_ e. is_class e) cf3 cf'" and inv: "pool_inv (cf_pool cf1)" "pool_inv (cf_pool cf2)"
    note t = later_passes(3) [OF p inv(1) ctx(1) class_text_references [OF f(1) assms(4)]]
    have "class_text (cf_pool cf') i \<noteq> None" using t assms(4) ctx(2) by simp
    then have "0 < unat (pool_count (cf_pool cf'))"
      by (auto simp: class_text_def constant_pool_at_def word_le_nat_alt split: if_splits option.splits)
    then have pool: "wf_pool (cf_pool cf')" using f(4) by (simp add: wf_pool_def touches_def)
    note same = touches_fields [OF f(1)] touches_fields [OF f(4)] member_frame_same [OF f(2)] member_frame_same [OF f(3)]
    have "wf_members (cf_fields cf2)"
      using wf_members_kept [OF _ _ list_all2_mono [OF remap_own_members_spec(2) [OF p(1) inv(1) ctx(1)] member_remapped_attributes]]
        assms(2) f(2) same by (simp add: own_members_def member_frame_def wf_classfile_def)
    moreover have "wf_members (cf_methods cf3)"
      using wf_members_kept [OF _ _ list_all2_mono [OF remap_own_members_spec(2) [OF p(2) inv(2) ctx(1)] member_remapped_attributes]]
        assms(2) f(3) same by (simp add: own_members_def member_frame_def wf_classfile_def)
    moreover obtain p1 p4 where "cf1 = cf\<lparr>cf_pool := p1\<rparr>" "cf' = cf3\<lparr>cf_pool := p4\<rparr>"
      using f(1,4) unfolding touches_def by blast
    moreover obtain p2 l2 p3 l3 where "cf2 = cf1\<lparr>cf_pool := p2, cf_fields := l2\<rparr>" "cf3 = cf2\<lparr>cf_pool := p3, cf_methods := l3\<rparr>"
      using f(2,3) unfolding member_frame_def by auto
    ultimately show ?thesis using pool assms(2) by (simp add: wf_classfile_def)
  qed
qed

text \<open>
  the bytes the renaming returns are a class file again: reading them gives the renamed tree, with exact
  capacities. The mappings are C strings and the class has a name.\<close>

theorem remap_output_parses:
  assumes "JNI2Hook_RemapClass mem input cm mm fm = Inr bytes" "ctx_ok (mappings cm mm fm)" "alloc_total mem'"
    "classfile_parse mem input = Inr cf" "class_text (cf_pool cf) (this_class cf) \<noteq> None"
  shows "\<exists>cf'. remap_tree mem (mappings cm mm fm) cf = (CLASSFILE_OK, cf') \<and>
    classfile_parse mem' bytes = Inr (classfile_trim cf')"
proof -
  from assms(1,4) obtain cf' where r: "remap_tree mem (mappings cm mm fm) cf = (CLASSFILE_OK, cf')"
    "classfile_serialize mem cf' = Inr bytes" by (auto elim: remap_class_ok)
  obtain name where "class_text (cf_pool cf) (this_class cf) = Some name" using assms(5) by blast
  note wf = remap_tree_wf [OF r(1) classfile_parse_sound(2) [OF assms(4)] assms(2) this]
  then have "pool_inv (cf_pool cf')" by (simp add: wf_classfile_def wf_pool_def)
  with classfile_serialize_enc(1) [of cf' mem] r(2) have "bytes = enc_classfile cf'" by auto
  with classfile_parse_complete [OF wf assms(3), of "[]"] r(1) show ?thesis by simp
qed

theorem remap_output_parses_witness:
  "\<exists>bytes cf'. JNI2Hook_RemapClass heap_ok tiny_class [\<lparr>map_from = Some (cstr ''A''), map_to = Some (cstr ''Z'')\<rparr>] [] [] = Inr bytes \<and>
     classfile_parse heap_ok bytes = Inr (classfile_trim cf')"
proof -
  let ?cm = "[\<lparr>map_from = Some (cstr ''A''), map_to = Some (cstr ''Z'')\<rparr>]"
  obtain cf where cf: "classfile_parse heap_ok tiny_class = Inr cf" using tiny_class_parses by blast
  have "case classfile_parse heap_ok tiny_class of Inr cf \<Rightarrow> class_text (cf_pool cf) (this_class cf) \<noteq> None | _ \<Rightarrow> False" by code_simp
  then have named: "class_text (cf_pool cf) (this_class cf) \<noteq> None" by (simp add: cf)
  have "case classfile_parse heap_ok tiny_class of Inr cf \<Rightarrow> fst (remap_tree heap_ok (mappings ?cm [] []) cf) = CLASSFILE_OK | _ \<Rightarrow> False"
    by code_simp
  then obtain cf' where r: "remap_tree heap_ok (mappings ?cm [] []) cf = (CLASSFILE_OK, cf')" by (auto simp: cf) (metis prod.collapse)
  have ctx: "ctx_ok (mappings ?cm [] [])" by (simp add: ctx_ok_def nul_free_def)
  from named obtain name where "class_text (cf_pool cf) (this_class cf) = Some name" by blast
  from remap_tree_wf [OF r classfile_parse_sound(2) [OF cf] ctx this] have "pool_inv (cf_pool cf')"
    by (simp add: wf_classfile_def wf_pool_def)
  from classfile_serialize_enc(2) [OF this alloc_total_heap_ok] r cf
  have b: "JNI2Hook_RemapClass heap_ok tiny_class ?cm [] [] = Inr (enc_classfile cf')"
    by (simp add: JNI2Hook_RemapClass_def tiny_class_def [THEN arg_cong [where f = "\<lambda>b. b = []"]])
  from remap_output_parses [OF b ctx alloc_total_heap_ok cf named] b show ?thesis by blast
qed

subsection \<open>Without mappings\<close>

definition no_mappings :: "remap_context \<Rightarrow> bool" where
  "no_mappings ctx \<longleftrightarrow> ctx_classes ctx = [] \<and> ctx_methods ctx = [] \<and> ctx_fields ctx = []"

lemma rename_text_empty: "\<not> snd (rename_text [] p)"
proof (induction p rule: length_induct)
  case (1 p)
  show ?case
  proof (cases p)
    case (Cons c rest)
    show ?thesis
    proof (cases rest rule: class_name_cases)
      case no: 1
      with 1 Cons show ?thesis by (cases "c = JVM_SIGNATURE_CLASS") (simp_all add: rename_text_shapes)
    next
      case (2 name later)
      with 1 Cons show ?thesis by (cases "c = JVM_SIGNATURE_CLASS") (simp_all add: rename_text_shapes)
    qed
  qed (simp add: rename_text_shapes)
qed

lemma find_member_empty: "find_member_inherited cf ctx [] owner name desc = None"
proof -
  have "find_member [] o' name desc = None" for o' by (simp add: find_member_def)
  moreover from this have "find_in_interfaces ctx [] is name desc = None" for "is" by (induction "is") simp_all
  ultimately show ?thesis by (simp add: find_member_inherited_def Let_def)
qed

text \<open>A pass changes nothing, and fails only if memory runs out.\<close>

abbreviation unchanged :: "ClassFile \<Rightarrow> classfile_status \<times> ClassFile \<Rightarrow> bool" where
  "unchanged cf r \<equiv> r = (CLASSFILE_OK, cf) \<or> r = (CLASSFILE_ERR_OUT_OF_MEMORY, cf)"

lemma pool_loop_unchanged: "(\<And>i. unchanged cf (step cf i)) \<Longrightarrow> unchanged cf (pool_loop step cf i)"
proof (induction step cf i rule: pool_loop.induct)
  case (1 step cf i)
  from 1(2) [of i] show ?case
  proof
    assume s: "step cf i = (CLASSFILE_OK, cf)"
    with 1 show ?thesis by (subst (1 2) pool_loop.simps) (auto simp: Let_def)
  qed (auto simp: pool_loop.simps [of step cf i])
qed

lemma remap_descriptor_empty:
  obtains r where "\<And>d. remap_descriptor mem [] d = (r d, False)"
proof
  show "remap_descriptor mem [] d = (fst (remap_descriptor mem [] d), False)" for d
    using remap_descriptor_cases [of mem "[]" d] rename_text_empty [of d] by auto
qed

lemma remap_reference_unchanged: "no_mappings ctx \<Longrightarrow> unchanged cf (remap_reference mem ctx cf i)"
proof -
  assume no: "no_mappings ctx"
  obtain r where r: "\<And>d. remap_descriptor mem [] d = (r d, False)" using remap_descriptor_empty [of mem] by blast
  from no have "reference_mapping mem ctx cf f c n = None" for f c n
    by (auto simp: reference_mapping_def no_mappings_def find_member_empty split: option.splits cp_info.splits)
  then have m: "Option.bind owner (\<lambda>c. reference_mapping mem ctx cf f c n) = None" for owner f n by (cases owner) simp_all
  have n: "remap_name_and_type mem cf ctx n None = (CLASSFILE_OK, cf, None) \<or>
      remap_name_and_type mem cf ctx n None = (CLASSFILE_ERR_OUT_OF_MEMORY, cf, None)" for n
    using no by (auto simp: remap_name_and_type_def no_mappings_def r split: option.splits cp_info.splits)
  show ?thesis
  proof (cases "Option.bind (constant_pool_at (cf_pool cf) (of_nat i)) reference_parts")
    case (Some p)
    then obtain f owner k where p: "Option.bind (constant_pool_at (cf_pool cf) (of_nat i)) reference_parts = Some (f, owner, k)"
      by (cases p) auto
    from n [of k] show ?thesis by (auto simp: remap_reference_def p m)
  qed (simp add: remap_reference_def)
qed

lemma remap_class_entry_unchanged: "no_mappings ctx \<Longrightarrow> unchanged cf (remap_class_entry mem ctx cf i)"
proof -
  obtain r where r: "\<And>d. remap_descriptor mem [] d = (r d, False)" using remap_descriptor_empty [of mem] by blast
  assume "no_mappings ctx"
  then show ?thesis
    by (auto simp: remap_class_entry_def remap_class_name_def no_mappings_def r split: option.splits cp_info.splits)
qed

lemma remap_member_unchanged: "no_mappings ctx \<Longrightarrow> unchanged cf (remap_member mem ctx isf cf i)"
proof -
  obtain r where r: "\<And>d. remap_descriptor mem [] d = (r d, False)" using remap_descriptor_empty [of mem] by blast
  assume "no_mappings ctx"
  then show ?thesis
    by (simp add: remap_member_def Let_def no_mappings_def find_member_empty r split: option.splits)
qed

lemma remap_own_members_unchanged: "no_mappings ctx \<Longrightarrow> unchanged cf (remap_own_members mem ctx isf cf)"
proof -
  assume no: "no_mappings ctx"
  have "unchanged cf (remap_members_loop mem ctx isf is cf)" for "is"
  proof (induction "is")
    case (Cons i "is")
    with remap_member_unchanged [OF no, of mem isf cf i] show ?case by auto
  qed simp
  then show ?thesis by (simp add: remap_own_members_def)
qed

lemma remap_tree_unchanged: "no_mappings ctx \<Longrightarrow> unchanged cf (remap_tree mem ctx cf)"
proof (cases "snapshot_class_names mem cf")
  case (Inr ns)
  let ?ctx = "ctx\<lparr>original_class_names := ns\<rparr>"
  assume "no_mappings ctx"
  then have no: "no_mappings ?ctx" by (simp add: no_mappings_def)
  have "unchanged cf (remap_references mem ?ctx cf)" "unchanged cf (remap_class_entries mem ?ctx cf)"
    unfolding remap_references_def remap_class_entries_def
    by (rule pool_loop_unchanged, rule remap_reference_unchanged [OF no])
      (rule pool_loop_unchanged, rule remap_class_entry_unchanged [OF no])
  with remap_own_members_unchanged [OF no, of mem True cf] remap_own_members_unchanged [OF no, of mem False cf] Inr
  show ?thesis by (auto simp: remap_tree_def Let_def)
qed (use snapshot_error in \<open>force simp: remap_tree_def\<close>)

text \<open>
  without mappings the renaming returns the bytes it was given, or reports that memory ran out; only bytes that are no
  class file give another error.\<close>

theorem remap_without_mappings:
  assumes "classfile_parse mem input = Inr cf"
  shows "JNI2Hook_RemapClass mem input [] [] [] \<in> {Inr input, Inl JNI2HOOK_ERR_OUT_OF_MEMORY}"
proof -
  have "input \<noteq> []" using classfile_parse_sound(1) [OF assms] by (auto simp: enc_classfile_def be4_def)
  moreover have "pool_inv (cf_pool cf)" using classfile_parse_sound(2) [OF assms] by (simp add: wf_classfile_def wf_pool_def)
  note classfile_serialize_enc(1) [OF this, of mem]
  moreover have "unchanged cf (remap_tree mem (mappings [] [] []) cf)"
    by (rule remap_tree_unchanged) (simp add: no_mappings_def)
  ultimately show ?thesis
    using assms classfile_parse_sound(1) [OF assms] by (auto simp: JNI2Hook_RemapClass_def status_of_def)
qed

theorem remap_without_mappings_witness:
  "JNI2Hook_RemapClass heap_ok tiny_class [] [] [] \<in> {Inr tiny_class, Inl JNI2HOOK_ERR_OUT_OF_MEMORY} \<and>
   (\<exists>cf. classfile_parse heap_ok tiny_class = Inr cf)"
  using remap_without_mappings tiny_class_parses by blast

end
