(* ===== verification/Bytecode_Scan.thy ===== *)
theory Bytecode_Scan
  imports Code_Attribute "HOL-Library.Multiset"
begin

text \<open>
  Searching bytecode for a byte pattern with wildcards: \<^verbatim>\<open>hook/bytecode_scan.c\<close>. The pattern
  is compiled from text, matched against code arrays, and searched for in a parsed class
  file or in the classes a running VM has loaded. The VM is a parameter: what its queries
  answer is a record of functions, and every buffer and reference the scan takes
  or gives back is an event of a trace.
\<close>

section \<open>Patterns\<close>

record bytecode_pattern =
  pat_bytes :: "u1 list"
  pat_masks :: "u1 list"

abbreviation pat_length :: "bytecode_pattern \<Rightarrow> nat" where
  "pat_length p \<equiv> length (pat_bytes p)"

definition bytecode_pattern_zero :: bytecode_pattern where
  "bytecode_pattern_zero = \<lparr>pat_bytes = [], pat_masks = []\<rparr>"

definition bytecode_pattern_destroy :: "bytecode_pattern \<Rightarrow> bytecode_pattern" where
  "bytecode_pattern_destroy p = bytecode_pattern_zero"

definition hex_value :: "u1 \<Rightarrow> int" where
  "hex_value v =
     (if v \<ge> 48 \<and> v \<le> 57 then uint v - 48
      else if v \<ge> 97 \<and> v \<le> 102 then uint v - 97 + 10
      else if v \<ge> 65 \<and> v \<le> 70 then uint v - 65 + 10
      else - 1)"

text \<open>\<^verbatim>\<open>isspace\<close> of the C locale.\<close>

definition isspace :: "u1 \<Rightarrow> bool" where
  "isspace c \<longleftrightarrow> c = 32 \<or> (9 \<le> c \<and> c \<le> 13)"

abbreviation nonspace :: "u1 \<Rightarrow> bool" where
  "nonspace c \<equiv> \<not> isspace c"

text \<open>The first pass over the text, which counts the tokens and so sizes both arrays.\<close>

function count_tokens :: "cstring \<Rightarrow> nat \<Rightarrow> nat" where
  "count_tokens text n =
     (let rest = dropWhile isspace text in
      if rest = [] then n else count_tokens (dropWhile nonspace rest) (Suc n))"
  by auto

lemma token_shortens:
  assumes "dropWhile isspace text \<noteq> []"
  shows "length (dropWhile nonspace (dropWhile isspace text)) < length text"
proof -
  obtain c cs where c: "dropWhile isspace text = c # cs" using assms by (cases "dropWhile isspace text") auto
  then have "nonspace c" by (metis dropWhile_eq_Cons_conv)
  with c have "length (dropWhile nonspace (dropWhile isspace text)) \<le> length cs" by (simp add: length_dropWhile_le)
  also have "length cs < length text" using length_dropWhile_le [of isspace "text"] c by simp
  finally show ?thesis .
qed

termination count_tokens
  by (relation "measure (\<lambda>(text, _). length text)") (auto simp: token_shortens)

definition is_wildcard :: "u1 list \<Rightarrow> bool" where
  "is_wildcard token \<longleftrightarrow> length token = 1 \<and> token ! 0 = 63 \<or> length token = 2 \<and> token ! 0 = 63 \<and> token ! 1 = 63"

text \<open>One token: the byte and the mask it stores, or None for a token that is no pattern element.\<close>

definition compile_token :: "u1 list \<Rightarrow> (u1 \<times> u1) option" where
  "compile_token token =
     (if is_wildcard token then Some (0, 0)
      else
        let high = (if length token = 2 then hex_value (token ! 0) else - 1);
            low = (if length token = 2 then hex_value (token ! 1) else - 1)
        in if high < 0 \<or> low < 0 then None else Some (of_int (high * 16 OR low), 0xFF))"

text \<open>The second pass, which fills the arrays from the front.\<close>

function compile_loop :: "cstring \<Rightarrow> bytecode_pattern \<Rightarrow> bytecode_pattern option" where
  "compile_loop text out =
     (let rest = dropWhile isspace text in
      if rest = [] then Some out
      else
        (case compile_token (takeWhile nonspace rest) of
           None \<Rightarrow> None
         | Some (byte, m) \<Rightarrow>
             compile_loop (dropWhile nonspace rest)
               \<lparr>pat_bytes = pat_bytes out @ [byte], pat_masks = pat_masks out @ [m]\<rparr>))"
  by auto
termination compile_loop
  by (relation "measure (\<lambda>(text, _). length text)") (auto simp: token_shortens)

definition bytecode_pattern_compile :: "alloc \<Rightarrow> cstring option \<Rightarrow> jni2hook_status \<times> bytecode_pattern" where
  "bytecode_pattern_compile mem text =
     (case text of
        None \<Rightarrow> (JNI2HOOK_ERR_INVALID_PATTERN, bytecode_pattern_zero)
      | Some text \<Rightarrow>
          let n = count_tokens text 0 in
          if n = 0 then (JNI2HOOK_ERR_INVALID_PATTERN, bytecode_pattern_zero)
          else if \<not> mem Alloc_bytes n then (JNI2HOOK_ERR_OUT_OF_MEMORY, bytecode_pattern_zero)
          else
            (case compile_loop text bytecode_pattern_zero of
               None \<Rightarrow> (JNI2HOOK_ERR_INVALID_PATTERN, bytecode_pattern_zero)
             | Some out \<Rightarrow> (JNI2HOOK_OK, out)))"

definition pattern_matches_at :: "bytecode_pattern \<Rightarrow> u1 list \<Rightarrow> nat \<Rightarrow> bool" where
  "pattern_matches_at p bytes offset \<longleftrightarrow>
     list_all (\<lambda>i. \<not> (pat_masks p ! i \<noteq> 0 \<and> bytes ! (offset + i) \<noteq> pat_bytes p ! i)) [0..<pat_length p]"

function find_loop :: "bytecode_pattern \<Rightarrow> u1 list \<Rightarrow> nat \<Rightarrow> nat \<Rightarrow> nat option" where
  "find_loop p bytes final offset =
     (if offset \<le> final then
        if pattern_matches_at p bytes offset then Some offset else find_loop p bytes final (Suc offset)
      else None)"
  by auto
termination find_loop
  by (relation "measure (\<lambda>(p, bytes, final, offset). Suc final - offset)") auto

text \<open>The result is the offset of the match; no bytes at all is the null pointer.\<close>

definition bytecode_pattern_find :: "bytecode_pattern \<Rightarrow> u1 list option \<Rightarrow> nat option" where
  "bytecode_pattern_find p bytes =
     (case bytes of
        None \<Rightarrow> None
      | Some bytes \<Rightarrow>
          if length bytes < pat_length p then None
          else find_loop p bytes (length bytes - pat_length p) 0)"

section \<open>A parsed class file\<close>

definition read_code_length :: "u1 list \<Rightarrow> u4" where
  "read_code_length info =
     push_bit 24 (ucast (info ! 4)) OR push_bit 16 (ucast (info ! 5)) OR push_bit 8 (ucast (info ! 6)) OR ucast (info ! 7)"

fun find_in_methods :: "bytecode_pattern \<Rightarrow> constant_pool \<Rightarrow> nat \<Rightarrow> member_info list \<Rightarrow> (nat \<times> u4) option" where
  "find_in_methods p pool i [] = None"
| "find_in_methods p pool i (m # ms) =
     (let skip = find_in_methods p pool (Suc i) ms in
      case attribute_list_find (attributes m) pool (cstr ''Code'') of
        None \<Rightarrow> skip
      | Some k \<Rightarrow>
          let code = items (attributes m) ! k in
          if attribute_length code < 8 then skip
          else
            let info = attr_info code; len = read_code_length info in
            if unat len + 8 > unat (attribute_length code) then skip
            else
              (case bytecode_pattern_find p (Some (take (unat len) (drop 8 info))) of
                 None \<Rightarrow> skip
               | Some match \<Rightarrow> Some (i, of_nat match)))"

definition bytecode_pattern_find_in_class_file :: "bytecode_pattern option \<Rightarrow> ClassFile option \<Rightarrow> (nat \<times> u4) option" where
  "bytecode_pattern_find_in_class_file pattern class_file =
     (case (pattern, class_file) of
        (Some p, Some cf) \<Rightarrow> find_in_methods p (cf_pool cf) 0 (items (cf_methods cf))
      | _ \<Rightarrow> None)"

section \<open>A running VM\<close>

type_synonym jclass = nat
type_synonym jmethodID = nat
type_synonym jvmtiError = nat

abbreviation JVMTI_ERROR_ABSENT_INFORMATION :: jvmtiError where
  "JVMTI_ERROR_ABSENT_INFORMATION \<equiv> 101"

abbreviation JVMTI_ERROR_NATIVE_METHOD :: jvmtiError where
  "JVMTI_ERROR_NATIVE_METHOD \<equiv> 104"

text \<open>
  The queries of the tool interface: Inl is an error code other than \<^verbatim>\<open>JVMTI_ERROR_NONE\<close>,
  a bytecode answer of None is a null buffer.
\<close>

record jvmti_scan =
  GetLoadedClasses :: "jvmtiError + jclass list"
  GetClassMethods :: "jclass \<Rightarrow> jvmtiError + jmethodID list"
  GetBytecodes :: "jmethodID \<Rightarrow> jvmtiError + u1 list option"

record jni2hook_search_stats =
  classes_total :: nat
  classes_scanned :: nat
  classes_unavailable :: nat
  methods_scanned :: nat
  methods_unavailable :: nat
  methods_without_code :: nat

definition stats_zero :: jni2hook_search_stats where
  "stats_zero = \<lparr>classes_total = 0, classes_scanned = 0, classes_unavailable = 0,
     methods_scanned = 0, methods_unavailable = 0, methods_without_code = 0\<rparr>"

datatype vm_buffer = Classes_Buffer | Methods_Buffer jclass | Code_Buffer jmethodID | Pool_Buffer jclass

datatype vm_event = Acquired vm_buffer | Deallocated vm_buffer | Dropped_Ref jclass

text \<open>The counters are only kept when the caller passed a place for them.\<close>

type_synonym stats_arg = "jni2hook_search_stats option"

fun scan_methods ::
  "jvmti_scan \<Rightarrow> bytecode_pattern \<Rightarrow> jmethodID list \<Rightarrow> stats_arg \<Rightarrow>
   (jmethodID \<times> u4) option \<times> stats_arg \<times> vm_event list" where
  "scan_methods vm p [] stats = (None, stats, [])"
| "scan_methods vm p (m # ms) stats =
     (case GetBytecodes vm m of
        Inl error \<Rightarrow>
          scan_methods vm p ms (map_option (\<lambda>s.
            if error = JVMTI_ERROR_NATIVE_METHOD \<or> error = JVMTI_ERROR_ABSENT_INFORMATION
            then s\<lparr>methods_without_code := methods_without_code s + 1\<rparr>
            else s\<lparr>methods_unavailable := methods_unavailable s + 1\<rparr>) stats)
      | Inr bytecode \<Rightarrow>
          if bytecode = None \<or> bytecode = Some [] then
            let (found, stats, trace) = scan_methods vm p ms
                  (map_option (\<lambda>s. s\<lparr>methods_without_code := methods_without_code s + 1\<rparr>) stats)
            in (found, stats,
                (if bytecode \<noteq> None then [Acquired (Code_Buffer m), Deallocated (Code_Buffer m)] else []) @ trace)
          else
            let stats = map_option (\<lambda>s. s\<lparr>methods_scanned := methods_scanned s + 1\<rparr>) stats;
                trace = [Acquired (Code_Buffer m), Deallocated (Code_Buffer m)] in
            (case bytecode_pattern_find p bytecode of
               Some match \<Rightarrow> (Some (m, of_nat match), stats, trace)
             | None \<Rightarrow> (let (found, stats, rest) = scan_methods vm p ms stats in (found, stats, trace @ rest))))"

definition scan_prepared_class ::
  "jvmti_scan \<Rightarrow> jclass \<Rightarrow> bytecode_pattern \<Rightarrow> stats_arg \<Rightarrow>
   (jmethodID \<times> u4) option \<times> stats_arg \<times> vm_event list" where
  "scan_prepared_class vm target p stats =
     (case GetClassMethods vm target of
        Inl error \<Rightarrow> (None, map_option (\<lambda>s. s\<lparr>classes_unavailable := classes_unavailable s + 1\<rparr>) stats, [])
      | Inr methods \<Rightarrow>
          let (found, stats, trace) = scan_methods vm p methods
                (map_option (\<lambda>s. s\<lparr>classes_scanned := classes_scanned s + 1\<rparr>) stats)
          in (found, stats, Acquired (Methods_Buffer target) # trace @ [Deallocated (Methods_Buffer target)]))"

text \<open>The null checks of the entry point; \<open>jvmti\<close> and the out pointers are present.\<close>

definition bytecode_pattern_find_in_prepared_class ::
  "jvmti_scan \<Rightarrow> jclass \<Rightarrow> bytecode_pattern option \<Rightarrow> (jmethodID \<times> u4) option \<times> vm_event list" where
  "bytecode_pattern_find_in_prepared_class vm target pattern =
     (case pattern of
        None \<Rightarrow> (None, [])
      | Some p \<Rightarrow>
          if target = 0 then (None, [])
          else let (found, stats, trace) = scan_prepared_class vm target p None in (found, trace))"

fun scan_classes ::
  "jvmti_scan \<Rightarrow> bytecode_pattern \<Rightarrow> jclass list \<Rightarrow> (jmethodID \<times> u4) option \<Rightarrow> stats_arg \<Rightarrow>
   (jmethodID \<times> u4) option \<times> stats_arg \<times> vm_event list" where
  "scan_classes vm p [] found stats = (found, stats, [])"
| "scan_classes vm p (c # cs) found stats =
     (let (found, stats, trace) =
            (case found of None \<Rightarrow> scan_prepared_class vm c p stats | Some _ \<Rightarrow> (found, stats, []));
          (found, stats, rest) = scan_classes vm p cs found stats
      in (found, stats, trace @ Dropped_Ref c # rest))"

record scan_result =
  scan_status :: jni2hook_status
  scan_found :: "(jmethodID \<times> u4) option"
  scan_stats :: stats_arg
  scan_error :: "jvmtiError option"
  scan_trace :: "vm_event list"

definition bytecode_scan_find :: "alloc \<Rightarrow> jvmti_scan \<Rightarrow> cstring option \<Rightarrow> stats_arg \<Rightarrow> scan_result" where
  "bytecode_scan_find mem vm pattern_text out_stats =
     (let (status, pattern) = bytecode_pattern_compile mem pattern_text;
          fail = (\<lambda>status stats error. \<lparr>scan_status = status, scan_found = None, scan_stats = stats,
                    scan_error = error, scan_trace = []\<rparr>) in
      if status \<noteq> JNI2HOOK_OK then fail status out_stats None
      else
        let stats = map_option (\<lambda>_. stats_zero) out_stats in
        (case GetLoadedClasses vm of
           Inl error \<Rightarrow> fail JNI2HOOK_ERR_JVMTI stats (Some error)
         | Inr classes \<Rightarrow>
             let stats = map_option (\<lambda>s. s\<lparr>classes_total := length classes\<rparr>) stats;
                 (found, stats, trace) = scan_classes vm pattern classes None stats
             in \<lparr>scan_status = (if found \<noteq> None then JNI2HOOK_OK else JNI2HOOK_ERR_NOT_FOUND),
                 scan_found = found, scan_stats = stats, scan_error = None,
                 scan_trace = Acquired Classes_Buffer # trace @ [Deallocated Classes_Buffer]\<rparr>))"

definition bytecode_scan_find_in_class ::
  "alloc \<Rightarrow> jvmti_scan \<Rightarrow> jclass \<Rightarrow> cstring option \<Rightarrow> scan_result" where
  "bytecode_scan_find_in_class mem vm target pattern_text =
     (let (status, pattern) = bytecode_pattern_compile mem pattern_text in
      if status \<noteq> JNI2HOOK_OK
      then \<lparr>scan_status = status, scan_found = None, scan_stats = None, scan_error = None, scan_trace = []\<rparr>
      else
        let (found, stats, trace) = scan_prepared_class vm target pattern None
        in \<lparr>scan_status = (if found \<noteq> None then JNI2HOOK_OK else JNI2HOOK_ERR_NOT_FOUND),
            scan_found = found, scan_stats = stats, scan_error = None, scan_trace = trace\<rparr>)"

section \<open>What a pattern text means\<close>

datatype element = Any | Byte u1

fun element_of :: "u1 \<times> u1 \<Rightarrow> element" where
  "element_of (b, m) = (if m = 0 then Any else Byte b)"

definition elements :: "bytecode_pattern \<Rightarrow> element list" where
  "elements p = map element_of (zip (pat_bytes p) (pat_masks p))"

definition pattern_ok :: "bytecode_pattern \<Rightarrow> bool" where
  "pattern_ok p \<longleftrightarrow> length (pat_masks p) = pat_length p"

definition hex_digit :: "nat \<Rightarrow> u1 \<Rightarrow> bool" where
  "hex_digit n c \<longleftrightarrow> n < 16 \<and> (c = cstr ''0123456789abcdef'' ! n \<or> c = cstr ''0123456789ABCDEF'' ! n)"

fun spelling :: "element \<Rightarrow> u1 list \<Rightarrow> bool" where
  "spelling Any t \<longleftrightarrow> t = cstr ''?'' \<or> t = cstr ''??''"
| "spelling (Byte b) t \<longleftrightarrow>
     (\<exists>c d. t = [c, d] \<and> hex_digit (unat b div 16) c \<and> hex_digit (unat b mod 16) d)"

text \<open>The grammar of pattern texts: spellings of elements set apart by white space.\<close>

inductive spells :: "cstring \<Rightarrow> element list \<Rightarrow> bool" where
  spells_end: "list_all isspace ws \<Longrightarrow> spells ws []"
| spells_element: "list_all isspace ws \<Longrightarrow> spelling e t \<Longrightarrow> rest = [] \<or> isspace (hd rest) \<Longrightarrow>
     spells rest es \<Longrightarrow> spells (ws @ t @ rest) (e # es)"

inductive_simps spells_simps: "spells s []" "spells s (e # es)"

function tokens :: "cstring \<Rightarrow> u1 list list" where
  "tokens s = (let rest = dropWhile isspace s in
     if rest = [] then [] else takeWhile nonspace rest # tokens (dropWhile nonspace rest))"
  by auto
termination tokens by (relation "measure length") (auto simp: token_shortens)

declare tokens.simps [simp del] count_tokens.simps [simp del] compile_loop.simps [simp del] find_loop.simps [simp del]

lemma count_tokens_eq: "count_tokens s n = n + length (tokens s)"
  by (induction s n rule: count_tokens.induct)
     (simp add: count_tokens.simps [of "_" _] tokens.simps [of "_"] Let_def)

lemma compile_loop_eq:
  "compile_loop s out = map_option (\<lambda>l. \<lparr>pat_bytes = pat_bytes out @ map fst l, pat_masks = pat_masks out @ map snd l\<rparr>)
     (those (map compile_token (tokens s)))"
proof (induction s out rule: compile_loop.induct)
  case (1 s out)
  then show ?case
    by (subst compile_loop.simps, subst tokens.simps)
       (auto simp: Let_def option.map_comp o_def split: option.splits prod.splits)
qed

lemma tokens_word:
  assumes "list_all isspace ws" "list_all nonspace t" "t \<noteq> []" "rest = [] \<or> isspace (hd rest)"
  shows "tokens (ws @ t @ rest) = t # tokens rest"
proof -
  have "dropWhile isspace (ws @ t @ rest) = t @ rest"
    using assms(1-3) by (cases t) (simp_all add: list_all_iff dropWhile_append)
  moreover have "takeWhile nonspace (t @ rest) = t" "dropWhile nonspace (t @ rest) = rest"
    using assms(2,4) by (cases rest; simp add: list_all_iff takeWhile_append dropWhile_append)+
  ultimately show ?thesis using assms(3) by (subst tokens.simps) (simp add: Let_def)
qed

lemma hex_digit_unat:
  "hex_digit n c \<longleftrightarrow> n < 10 \<and> unat c = 48 + n \<or> 10 \<le> n \<and> n < 16 \<and> (unat c = 87 + n \<or> unat c = 55 + n)"
proof -
  have w: "c = x \<longleftrightarrow> unat c = unat x" for x by (simp add: word_unat_eq_iff)
  show ?thesis
  proof (cases "n < 16")
    case True
    then consider "n = 0" | "n = 1" | "n = 2" | "n = 3" | "n = 4" | "n = 5" | "n = 6" | "n = 7" | "n = 8" | "n = 9"
      | "n = 10" | "n = 11" | "n = 12" | "n = 13" | "n = 14" | "n = 15" by atomize_elim presburger
    then show ?thesis unfolding hex_digit_def w by cases simp_all
  qed (simp add: hex_digit_def)
qed

definition digit_value :: "nat \<Rightarrow> int" where
  "digit_value k =
     (if k \<ge> 48 \<and> k \<le> 57 then int k - 48 else if k \<ge> 97 \<and> k \<le> 102 then int k - 97 + 10
      else if k \<ge> 65 \<and> k \<le> 70 then int k - 65 + 10 else - 1)"

lemma hex_value_unat: "hex_value c = digit_value (unat c)"
  by (simp add: hex_value_def digit_value_def word_le_nat_alt)

lemma digit_value_iff:
  "digit_value k = int n \<longleftrightarrow> n < 10 \<and> k = 48 + n \<or> 10 \<le> n \<and> n < 16 \<and> (k = 87 + n \<or> k = 55 + n)"
  "- 1 \<le> digit_value k \<and> digit_value k < 16"
  by (auto simp: digit_value_def split: if_splits)

lemma hex_digit_value: "hex_digit n c \<longleftrightarrow> hex_value c = int n"
  by (simp only: hex_digit_unat hex_value_unat digit_value_iff)

lemma hex_value_bound: "- 1 \<le> hex_value c \<and> hex_value c < 16"
  by (simp only: hex_value_unat digit_value_iff)

lemma nibble_or: "list_all (\<lambda>h. list_all (\<lambda>l. int h * 16 OR int l = int h * 16 + int l) [0..<16]) [0..<16]"
  by code_simp

lemma compile_token_spelling:
  "compile_token t = Some (b, m) \<longleftrightarrow> spelling (element_of (b, m)) t \<and> (m = 0 \<and> b = 0 \<or> m = 0xFF)"
proof (cases "is_wildcard t")
  case True
  then have "t = [63] \<or> t = [63, 63]" by (auto simp: is_wildcard_def length_Suc_conv numeral_2_eq_2)
  moreover have "\<not> hex_digit k 63" for k by (simp add: hex_digit_unat)
  ultimately show ?thesis using True by (auto simp: compile_token_def)
next
  case False
  then have no: "\<not> spelling Any t" by (auto simp: is_wildcard_def)
  show ?thesis
  proof (cases "\<exists>c d. t = [c, d]")
    case two: True
    then obtain c d where t: "t = [c, d]" by blast
    show ?thesis
    proof (cases "hex_value c < 0 \<or> hex_value d < 0")
      case True
      then have "\<not> spelling (Byte b) t" by (auto simp: t hex_digit_value)
      with True no False t show ?thesis by (auto simp: compile_token_def)
    next
      case nn: False
      then obtain h l where hl: "hex_value c = int h" "hex_value d = int l" "h < 16" "l < 16"
        using hex_value_bound [of c] hex_value_bound [of d] by (metis nat_eq_iff2 not_less nat_less_iff of_nat_numeral)
      have "int h * 16 OR int l = int (h * 16 + l)" using nibble_or hl(3,4) by (simp add: list_all_iff)
      then have "compile_token t = Some (of_nat (h * 16 + l), 0xFF)"
        using False nn hl t by (simp add: compile_token_def)
      moreover have "unat b div 16 = h \<and> unat b mod 16 = l \<longleftrightarrow> b = of_nat (h * 16 + l)"
      proof -
        have "unat (of_nat (h * 16 + l) :: u1) = h * 16 + l" using hl(3,4) by (subst unat_of_nat) simp
        then show ?thesis using hl(4) by (auto simp: word_unat_eq_iff simp del: of_nat_add of_nat_mult)
      qed
      ultimately show ?thesis using no t hl by (auto simp: hex_digit_value)
    qed
  next
    case two: False
    then have "length t \<noteq> 2" by (auto simp: length_Suc_conv numeral_2_eq_2)
    with two no False show ?thesis by (auto simp: compile_token_def)
  qed
qed

lemma spelling_word: "spelling e t \<Longrightarrow> t \<noteq> [] \<and> list_all nonspace t"
proof -
  have "hex_digit n c \<Longrightarrow> nonspace c" for n c
    by (auto simp: hex_digit_unat isspace_def word_unat_eq_iff word_le_nat_alt)
  moreover have "nonspace 63" by (simp add: isspace_def)
  ultimately show "spelling e t \<Longrightarrow> t \<noteq> [] \<and> list_all nonspace t" by (cases e) auto
qed

lemma spells_tokens: "spells s es \<longleftrightarrow> list_all2 spelling es (tokens s)"
proof
  show "spells s es \<Longrightarrow> list_all2 spelling es (tokens s)"
  proof (induction rule: spells.induct)
    case (spells_end ws)
    then have "dropWhile isspace ws = []" by (simp add: list_all_iff)
    then show ?case by (simp add: tokens.simps)
  next
    case (spells_element ws e t rest es)
    with tokens_word [of ws t rest] spelling_word show ?case by auto
  qed
  show "list_all2 spelling es (tokens s) \<Longrightarrow> spells s es"
  proof (induction s arbitrary: es rule: tokens.induct)
    case (1 s)
    let ?r = "dropWhile isspace s"
    have ws: "list_all isspace (takeWhile isspace s)" by (auto simp: list_all_iff dest: set_takeWhileD)
    show ?case
    proof (cases "?r = []")
      case True
      with 1(2) have "es = []" by (simp add: tokens.simps [of s])
      with True show ?thesis by (auto simp: list_all_iff intro: spells_end)
    next
      case False
      with 1(2) obtain e es' where es: "es = e # es'" "spelling e (takeWhile nonspace ?r)"
        "list_all2 spelling es' (tokens (dropWhile nonspace ?r))"
        by (cases es) (auto simp: tokens.simps [of s] Let_def split: if_splits)
      have "dropWhile nonspace ?r = [] \<or> isspace (hd (dropWhile nonspace ?r))"
        using hd_dropWhile [of nonspace ?r] by blast
      from spells_element [OF ws es(2) this 1(1) [OF refl False es(3)]] es(1) show ?thesis by simp
    qed
  qed
qed

lemma those_eq_Some: "those xs = Some ys \<longleftrightarrow> xs = map Some ys"
proof (induction xs arbitrary: ys)
  case (Cons x xs)
  then show ?case by (cases x; cases ys) auto
qed auto

lemma elements_zip: "elements \<lparr>pat_bytes = map fst l, pat_masks = map snd l\<rparr> = map element_of l"
  by (simp add: elements_def zip_map_fst_snd)

lemma spelled_exists: "spelling e t \<Longrightarrow> \<exists>b m. compile_token t = Some (b, m) \<and> element_of (b, m) = e"
  by (cases e; rule exI [of _ "case e of Any \<Rightarrow> 0 | Byte b \<Rightarrow> b"];
      rule exI [of _ "case e of Any \<Rightarrow> 0 | Byte b \<Rightarrow> 0xFF"]) (auto simp: compile_token_spelling)

lemma compile_tokens:
  "(\<exists>l. those (map compile_token ts) = Some l \<and> map element_of l = es) \<longleftrightarrow> list_all2 spelling es ts"
proof
  show "\<exists>l. those (map compile_token ts) = Some l \<and> map element_of l = es \<Longrightarrow> list_all2 spelling es ts"
    by (auto simp: those_eq_Some list_all2_conv_all_nth list_eq_iff_nth_eq)
       (metis compile_token_spelling surj_pair)
  show "list_all2 spelling es ts \<Longrightarrow> \<exists>l. those (map compile_token ts) = Some l \<and> map element_of l = es"
  proof (induction rule: list_all2_induct)
    case (Cons e es t ts)
    with spelled_exists [of e t] show ?case by force
  qed simp
qed

lemma compile_cases:
  assumes "alloc_total mem"
  shows "bytecode_pattern_compile mem (Some s) =
    (case those (map compile_token (tokens s)) of
       None \<Rightarrow> (JNI2HOOK_ERR_INVALID_PATTERN, bytecode_pattern_zero)
     | Some l \<Rightarrow> if l = [] then (JNI2HOOK_ERR_INVALID_PATTERN, bytecode_pattern_zero)
               else (JNI2HOOK_OK, \<lparr>pat_bytes = map fst l, pat_masks = map snd l\<rparr>))"
  using assms
  by (cases "tokens s")
     (auto simp: bytecode_pattern_compile_def count_tokens_eq compile_loop_eq alloc_total_def bytecode_pattern_zero_def
       split: option.splits)

section \<open>What a search finds\<close>

fun fits :: "element \<Rightarrow> u1 \<Rightarrow> bool" where
  "fits Any b \<longleftrightarrow> True"
| "fits (Byte c) b \<longleftrightarrow> b = c"

definition occurs :: "bytecode_pattern \<Rightarrow> u1 list \<Rightarrow> nat \<Rightarrow> bool" where
  "occurs p bytes offset \<longleftrightarrow>
     (\<exists>before window after. bytes = before @ window @ after \<and> length before = offset \<and>
        list_all2 fits (elements p) window)"

text \<open>
  A search routine promises the first occurrence; what its clients build on is only
  that promise. They look through a sequence of places, some of which have nothing to search.
\<close>

locale first_match =
  fixes find :: "'p \<Rightarrow> 'b \<Rightarrow> nat option"
    and hit :: "'p \<Rightarrow> 'b \<Rightarrow> nat \<Rightarrow> bool"
    and ok :: "'p \<Rightarrow> bool"
  assumes find_Some: "ok p \<Longrightarrow> find p b = Some i \<longleftrightarrow> hit p b i \<and> (\<forall>j < i. \<not> hit p b j)"
    and find_None: "ok p \<Longrightarrow> find p b = None \<longleftrightarrow> (\<forall>i. \<not> hit p b i)"
begin

definition hit_first :: "'p \<Rightarrow> 'b \<Rightarrow> nat \<Rightarrow> bool" where
  "hit_first p b i \<longleftrightarrow> hit p b i \<and> (\<forall>j < i. \<not> hit p b j)"

fun search :: "'p \<Rightarrow> ('k \<times> 'b option) list \<Rightarrow> ('k \<times> nat) option" where
  "search p [] = None"
| "search p ((k, None) # ws) = search p ws"
| "search p ((k, Some b) # ws) = (case find p b of None \<Rightarrow> search p ws | Some i \<Rightarrow> Some (k, i))"

definition silent :: "'p \<Rightarrow> 'k \<times> 'b option \<Rightarrow> bool" where
  "silent p w \<longleftrightarrow> (\<forall>b i. snd w = Some b \<longrightarrow> \<not> hit p b i)"

lemma silent_find: "ok p \<Longrightarrow> silent p (k, c) \<longleftrightarrow> (case c of None \<Rightarrow> True | Some b \<Rightarrow> find p b = None)"
  by (simp add: silent_def find_None split: option.splits)

lemma search_None: "ok p \<Longrightarrow> search p ws = None \<longleftrightarrow> list_all (silent p) ws"
proof (induction ws)
  case (Cons w ws)
  obtain k c where w: "w = (k, c)" by (cases w)
  from Cons show ?case
    by (cases c; cases "find p (the c)") (auto simp: w silent_find)
qed simp

lemma search_Some:
  "ok p \<Longrightarrow> search p ws = Some (k, i) \<longleftrightarrow>
     (\<exists>us b vs. ws = us @ (k, Some b) # vs \<and> hit_first p b i \<and> list_all (silent p) us)"
proof (induction ws)
  case (Cons w ws)
  obtain k' c where w: "w = (k', c)" by (cases w)
  let ?at = "\<lambda>ws us b vs. ws = us @ (k, Some b) # vs \<and> hit_first p b i \<and> list_all (silent p) us"
  have quiet: "(\<exists>us b vs. ?at (w # ws) us b vs) \<longleftrightarrow> (\<exists>us b vs. ?at ws us b vs)" if s: "silent p w"
  proof
    assume "\<exists>us b vs. ?at (w # ws) us b vs"
    then obtain us b vs where at: "?at (w # ws) us b vs" by blast
    with s obtain us' where "us = w # us'" by (cases us) (auto simp: silent_def hit_first_def)
    with at show "\<exists>us b vs. ?at ws us b vs" by auto
  next
    assume "\<exists>us b vs. ?at ws us b vs"
    then obtain us b vs where "?at ws us b vs" by blast
    with s show "\<exists>us b vs. ?at (w # ws) us b vs" by (intro exI [of _ "w # us"] exI [of _ b] exI [of _ vs]) simp
  qed
  show ?case
  proof (cases c)
    case None
    then have "silent p w" using w by (simp add: silent_def)
    with quiet w Cons None show ?thesis by simp
  next
    case (Some b)
    show ?thesis
    proof (cases "find p b")
      case None
      then have "silent p w" using find_None [OF Cons.prems] w Some by (simp add: silent_def)
      with quiet w Cons Some None show ?thesis by simp
    next
      case fi: (Some j)
      then have j: "hit_first p b j" using find_Some [OF Cons.prems] by (simp add: hit_first_def)
      have loud: "\<not> silent p w" using w Some fi Cons.prems by (simp add: silent_find)
      have "(\<exists>us b' vs. ?at (w # ws) us b' vs) \<longleftrightarrow> k' = k \<and> hit_first p b i"
      proof
        assume "\<exists>us b' vs. ?at (w # ws) us b' vs"
        then obtain us b' vs where at: "?at (w # ws) us b' vs" by blast
        with loud have "us = []" by (cases us) auto
        with at w Some show "k' = k \<and> hit_first p b i" by simp
      qed (use w Some in \<open>auto intro: exI [of _ "[]"]\<close>)
      moreover have "hit_first p b i \<longleftrightarrow> i = j"
        using j unfolding hit_first_def by (metis linorder_neqE_nat)
      ultimately show ?thesis using w Some fi by auto
    qed
  qed
qed simp

end

lemma find_loop_first:
  "find_loop p bs final k = Some i \<longleftrightarrow>
     k \<le> i \<and> i \<le> final \<and> pattern_matches_at p bs i \<and> (\<forall>j. k \<le> j \<and> j < i \<longrightarrow> \<not> pattern_matches_at p bs j)"
  "find_loop p bs final k = None \<longleftrightarrow> (\<forall>j. k \<le> j \<and> j \<le> final \<longrightarrow> \<not> pattern_matches_at p bs j)"
proof (induction p bs final k rule: find_loop.induct)
  case (1 p bs final k)
  have le: "k \<le> j \<longleftrightarrow> j = k \<or> Suc k \<le> j" for j by auto
  { case 1 then show ?case using "1.IH"(1)
      by (subst find_loop.simps) (auto simp: le) }
  { case 2 then show ?case using "1.IH"(2)
      by (subst find_loop.simps) (auto simp: le) }
qed

lemma occurs_iff:
  assumes "pattern_ok p"
  shows "occurs p bs k \<longleftrightarrow> k + pat_length p \<le> length bs \<and> pattern_matches_at p bs k"
proof -
  have len: "length (elements p) = pat_length p" using assms by (simp add: elements_def pattern_ok_def)
  have "fits (elements p ! i) b \<longleftrightarrow> \<not> (pat_masks p ! i \<noteq> 0 \<and> b \<noteq> pat_bytes p ! i)" if "i < pat_length p" for i b
    using that assms by (simp add: elements_def pattern_ok_def)
  then have at: "list_all2 fits (elements p) w \<longleftrightarrow> length w = pat_length p \<and>
      (\<forall>i < pat_length p. \<not> (pat_masks p ! i \<noteq> 0 \<and> w ! i \<noteq> pat_bytes p ! i))" for w
    by (auto simp: list_all2_conv_all_nth len)
  have m: "pattern_matches_at p bs k \<longleftrightarrow>
      (\<forall>i < pat_length p. \<not> (pat_masks p ! i \<noteq> 0 \<and> bs ! (k + i) \<noteq> pat_bytes p ! i))"
    by (auto simp: pattern_matches_at_def list_all_iff)
  show ?thesis
  proof
    assume "occurs p bs k"
    then obtain u w v where "bs = u @ w @ v" "length u = k" "list_all2 fits (elements p) w"
      by (auto simp: occurs_def)
    with at m show "k + pat_length p \<le> length bs \<and> pattern_matches_at p bs k" by (auto simp: nth_append)
  next
    assume r: "k + pat_length p \<le> length bs \<and> pattern_matches_at p bs k"
    then have "list_all2 fits (elements p) (take (pat_length p) (drop k bs))" using at m by auto
    moreover have "bs = take k bs @ take (pat_length p) (drop k bs) @ drop (pat_length p) (drop k bs)"
      by (simp only: append_take_drop_id)
    moreover have "length (take k bs) = k" using r by simp
    ultimately show "occurs p bs k" unfolding occurs_def by blast
  qed
qed

interpretation scan: first_match "\<lambda>p b. bytecode_pattern_find p (Some b)" occurs pattern_ok
proof
  fix p b i assume "pattern_ok p"
  note o = occurs_iff [OF this, of b]
  show "bytecode_pattern_find p (Some b) = Some i \<longleftrightarrow> occurs p b i \<and> (\<forall>j < i. \<not> occurs p b j)"
    by (auto simp: bytecode_pattern_find_def find_loop_first o)
  show "bytecode_pattern_find p (Some b) = None \<longleftrightarrow> (\<forall>i. \<not> occurs p b i)"
    by (auto simp: bytecode_pattern_find_def find_loop_first o)
qed

subsection \<open>A parsed class file\<close>

definition code_window :: "attribute_info \<Rightarrow> u1 list option" where
  "code_window code =
     (let len = read_code_length (attr_info code) in
      if attribute_length code < 8 \<or> unat len + 8 > unat (attribute_length code) then None
      else Some (take (unat len) (drop 8 (attr_info code))))"

definition code_of :: "constant_pool \<Rightarrow> member_info \<Rightarrow> attribute_info option" where
  "code_of pool m = map_option (\<lambda>k. items (attributes m) ! k) (attribute_list_find (attributes m) pool (cstr ''Code''))"

definition as_u4 :: "('k \<times> nat) option \<Rightarrow> ('k \<times> u4) option" where
  "as_u4 = map_option (\<lambda>(k, i). (k, of_nat i))"

lemma as_u4_simps [simp]: "as_u4 None = None" "as_u4 (Some (k, i)) = Some (k, of_nat i)"
  by (simp_all add: as_u4_def)

lemma as_u4_Some: "as_u4 r = Some (k, off) \<longleftrightarrow> (\<exists>i. r = Some (k, i) \<and> off = of_nat i)"
  by (auto simp: as_u4_def)

lemma find_in_methods_search:
  "find_in_methods p pool i ms =
     as_u4 (scan.search p (zip [i..<i + length ms] (map (\<lambda>m. Option.bind (code_of pool m) code_window) ms)))"
proof (induction ms arbitrary: i)
  case (Cons m ms)
  have up: "[i..<i + length (m # ms)] = i # [Suc i..<Suc i + length ms]"
    using upt_conv_Cons [of i "i + length (m # ms)"] by simp
  show ?case
    unfolding up using Cons.IH [of "Suc i"]
    by (auto simp: code_of_def code_window_def Let_def split: option.splits)
qed simp

lemma code_window_parsed:
  assumes "code_attribute_parse mem a = Inr code" "wf_attribute a"
  shows "code_window a = Some (code_code code)"
proof -
  from code_attribute_parse_sound [OF assms(1)] obtain k where
    wf: "length (code_code code) < 2 ^ 32" and e: "enc_code code = attr_info a @ replicate k 0" "k \<le> 4"
    by (auto simp: wf_code_def)
  let ?h = "be2 (max_stack code) @ be2 (max_locals code) @ be4 (code_length code)"
  let ?t = "enc_exceptions (exceptions code) @ enc_attributes (code_attributes code)"
  have enc: "enc_code code = ?h @ code_code code @ ?t" by (simp add: enc_code_def enc_code_head_def)
  have "length ?t \<ge> 4" by (simp add: enc_exceptions_def enc_attributes_def)
  then have l: "8 + length (code_code code) \<le> length (attr_info a)"
    using arg_cong [OF e(1), of length] e(2) arg_cong [OF enc, of length] by simp
  have "take (8 + length (code_code code)) (attr_info a) = take (8 + length (code_code code)) (enc_code code)"
    using l by (simp add: e(1))
  also have "\<dots> = ?h @ code_code code" unfolding enc by simp
  finally obtain z where z: "attr_info a = ?h @ code_code code @ z"
    by (metis append.assoc append_take_drop_id)
  have r: "read_code_length (attr_info a) = code_length code"
    unfolding z read_code_length_def by (simp add: be2_def be4_def get4_be4 [unfolded get4_def])
  have "unat (code_length code) = length (code_code code)" using wf by (simp add: code_length_def)
  moreover have "unat (attribute_length a) = length (attr_info a)"
    using assms(2) by (simp add: attribute_length_def wf_attribute_def)
  moreover have "\<not> attribute_length a < 8" using l calculation(2) by (simp add: word_less_nat_alt)
  moreover have "drop 8 (attr_info a) = code_code code @ z" unfolding z by (simp add: be2_def be4_def)
  ultimately show ?thesis using l by (simp add: code_window_def r)
qed

definition method_code :: "alloc \<Rightarrow> constant_pool \<Rightarrow> member_info \<Rightarrow> u1 list option" where
  "method_code mem pool m =
     Option.bind (code_of pool m) (\<lambda>a. case code_attribute_parse mem a of Inl _ \<Rightarrow> None | Inr code \<Rightarrow> Some (code_code code))"

lemma zip_split:
  "(\<exists>us b vs. zip [0..<length ws] ws = us @ (i, Some b) # vs \<and> P b \<and> list_all Q us) \<longleftrightarrow>
     i < length ws \<and> (\<exists>b. ws ! i = Some b \<and> P b) \<and> (\<forall>j < i. Q (j, ws ! j))"
proof
  assume "\<exists>us b vs. zip [0..<length ws] ws = us @ (i, Some b) # vs \<and> P b \<and> list_all Q us"
  then obtain us b vs where z: "zip [0..<length ws] ws = us @ (i, Some b) # vs" "P b" "list_all Q us" by blast
  have n: "length us < length ws" using arg_cong [OF z(1), of length] by simp
  have at: "j < length ws \<Longrightarrow> (us @ (i, Some b) # vs) ! j = (j, ws ! j)" for j by (simp flip: z(1))
  from at [OF n] have i: "i = length us" "ws ! i = Some b" by auto
  have "Q (j, ws ! j)" if "j < i" for j
    using at [of j] that i(1) n z(3) by (auto simp: nth_append list_all_length dest: sym)
  with i n z(2) show "i < length ws \<and> (\<exists>b. ws ! i = Some b \<and> P b) \<and> (\<forall>j < i. Q (j, ws ! j))" by auto
next
  assume r: "i < length ws \<and> (\<exists>b. ws ! i = Some b \<and> P b) \<and> (\<forall>j < i. Q (j, ws ! j))"
  then obtain b where b: "ws ! i = Some b" "P b" by blast
  let ?z = "zip [0..<length ws] ws"
  have "?z = take i ?z @ (i, Some b) # drop (Suc i) ?z" using r b(1) id_take_nth_drop [of i ?z] by simp
  moreover have "list_all Q (take i ?z)" using r by (simp add: list_all_length)
  ultimately show "\<exists>us b vs. ?z = us @ (i, Some b) # vs \<and> P b \<and> list_all Q us" using b(2) by blast
qed

subsection \<open>A running VM\<close>

definition vm_code :: "jvmti_scan \<Rightarrow> jmethodID \<Rightarrow> u1 list option" where
  "vm_code vm m = (case GetBytecodes vm m of Inr (Some bs) \<Rightarrow> if bs = [] then None else Some bs | _ \<Rightarrow> None)"

definition vm_methods :: "jvmti_scan \<Rightarrow> jclass \<Rightarrow> jmethodID list" where
  "vm_methods vm c = (case GetClassMethods vm c of Inl _ \<Rightarrow> [] | Inr ms \<Rightarrow> ms)"

definition vm_windows :: "jvmti_scan \<Rightarrow> jclass list \<Rightarrow> (jmethodID \<times> u1 list option) list" where
  "vm_windows vm cs = concat (map (\<lambda>c. map (\<lambda>m. (m, vm_code vm m)) (vm_methods vm c)) cs)"

lemma scan_methods_search:
  "fst (scan_methods vm p ms stats) = as_u4 (scan.search p (map (\<lambda>m. (m, vm_code vm m)) ms))"
proof (induction ms arbitrary: stats)
  case (Cons m ms)
  show ?case
    by (cases "GetBytecodes vm m")
       (auto simp: vm_code_def Let_def case_prod_beta Cons.IH split: option.splits)
qed simp

lemma scan_prepared_search:
  "fst (scan_prepared_class vm c p stats) = as_u4 (scan.search p (map (\<lambda>m. (m, vm_code vm m)) (vm_methods vm c)))"
  by (simp add: scan_prepared_class_def vm_methods_def Let_def case_prod_beta scan_methods_search split: sum.splits)

lemma search_append:
  "scan.search p (us @ vs) = (case scan.search p us of None \<Rightarrow> scan.search p vs | Some r \<Rightarrow> Some r)"
  by (induction p us rule: scan.search.induct) (auto split: option.splits)

lemma scan_classes_search:
  "fst (scan_classes vm p cs found stats) =
     (case found of None \<Rightarrow> as_u4 (scan.search p (vm_windows vm cs)) | Some r \<Rightarrow> Some r)"
proof (induction cs arbitrary: found stats)
  case Nil
  then show ?case by (simp add: vm_windows_def split: option.splits)
next
  case (Cons c cs)
  have w: "vm_windows vm (c # cs) = map (\<lambda>m. (m, vm_code vm m)) (vm_methods vm c) @ vm_windows vm cs"
    by (simp add: vm_windows_def)
  obtain f st tr where r: "(case found of None \<Rightarrow> scan_prepared_class vm c p stats | Some _ \<Rightarrow> (found, stats, [])) = (f, st, tr)"
    by (metis prod_cases3)
  have "fst (scan_classes vm p (c # cs) found stats) = fst (scan_classes vm p cs f st)"
    using r by (simp split: prod.splits)
  with Cons.IH [of f st] r scan_prepared_search [of vm c p stats] show ?case
    by (cases found; cases "scan.search p (map (\<lambda>m. (m, vm_code vm m)) (vm_methods vm c))")
       (auto simp: w search_append)
qed

text \<open>Every buffer is given back, in the reverse order it was taken in.\<close>

fun balanced :: "vm_event list \<Rightarrow> vm_buffer list \<Rightarrow> bool" where
  "balanced [] held \<longleftrightarrow> held = []"
| "balanced (Acquired b # es) held \<longleftrightarrow> balanced es (b # held)"
| "balanced (Deallocated b # es) held \<longleftrightarrow> held \<noteq> [] \<and> hd held = b \<and> balanced es (tl held)"
| "balanced (Dropped_Ref c # es) held \<longleftrightarrow> balanced es held"

definition neutral :: "vm_event list \<Rightarrow> bool" where
  "neutral es \<longleftrightarrow> (\<forall>rest held. balanced (es @ rest) held = balanced rest held)"

fun dropped :: "vm_event list \<Rightarrow> jclass list" where
  "dropped [] = []"
| "dropped (Dropped_Ref c # es) = c # dropped es"
| "dropped (_ # es) = dropped es"

lemma dropped_append [simp]: "dropped (xs @ ys) = dropped xs @ dropped ys"
  by (induction xs rule: dropped.induct) auto

lemma neutral_simps [simp]: "neutral []" "neutral xs \<Longrightarrow> neutral ys \<Longrightarrow> neutral (xs @ ys)"
  "neutral xs \<Longrightarrow> neutral (Acquired b # xs @ [Deallocated b])" "neutral (Dropped_Ref c # xs) = neutral xs"
  by (auto simp: neutral_def)

lemma scan_methods_trace:
  "scan_methods vm p ms stats = (found, stats', es) \<Longrightarrow> neutral es \<and> dropped es = []"
proof (induction ms arbitrary: stats found stats' es)
  case (Cons m ms)
  have n: "neutral [Acquired (Code_Buffer m), Deallocated (Code_Buffer m)]"
    using neutral_simps(3) [of "[]"] by simp
  have app: "neutral (Acquired (Code_Buffer m) # Deallocated (Code_Buffer m) # xs)" if "neutral xs" for xs
    using neutral_simps(2) [OF n that] by simp
  from Cons show ?case
    by (auto simp: Let_def intro: app n split: sum.splits prod.splits if_splits option.splits)
qed simp

lemma scan_prepared_trace: "scan_prepared_class vm c p stats = (found, stats', es) \<Longrightarrow> neutral es \<and> dropped es = []"
  by (auto simp: scan_prepared_class_def Let_def dest: scan_methods_trace split: sum.splits prod.splits)

lemma scan_classes_trace:
  "scan_classes vm p cs found stats = (found', stats', es) \<Longrightarrow> neutral es \<and> dropped es = cs"
proof (induction cs arbitrary: found stats found' stats' es)
  case (Cons c cs)
  obtain f st tr where r: "(case found of None \<Rightarrow> scan_prepared_class vm c p stats | Some _ \<Rightarrow> (found, stats, [])) = (f, st, tr)"
    by (metis prod_cases3)
  then have tr: "neutral tr \<and> dropped tr = []"
    using scan_prepared_trace [of vm c p stats] by (auto split: option.splits)
  obtain rest where "scan_classes vm p cs f st = (found', stats', rest)" "es = tr @ Dropped_Ref c # rest"
    using Cons.prems r by (auto split: prod.splits)
  with Cons.IH [of f st] tr show ?case by auto
qed simp

section \<open>Properties\<close>

text \<open>
  C30: a text compiles exactly when it is a non-empty sequence of pattern elements set apart by
  white space, an element being one or two question marks or two hexadecimal digits; the
  compiled pattern then has exactly those elements, and as many of them as the first pass
  counted. Any other text is refused as an invalid pattern and leaves an empty one.
\<close>

theorem pattern_compile_correct:
  assumes "alloc_total mem"
  shows "((\<exists>p. bytecode_pattern_compile mem (Some s) = (JNI2HOOK_OK, p) \<and> elements p = es) \<longleftrightarrow>
            es \<noteq> [] \<and> spells s es) \<and>
    (fst (bytecode_pattern_compile mem (Some s)) = JNI2HOOK_OK \<and>
       pattern_ok (snd (bytecode_pattern_compile mem (Some s))) \<and>
       pat_length (snd (bytecode_pattern_compile mem (Some s))) = count_tokens s 0 \<or>
     bytecode_pattern_compile mem (Some s) = (JNI2HOOK_ERR_INVALID_PATTERN, bytecode_pattern_zero))"
proof (cases "those (map compile_token (tokens s))")
  case None
  with compile_cases [OF assms, of s] show ?thesis by (simp add: spells_tokens compile_tokens [symmetric])
next
  case (Some l)
  have "length l = length (tokens s)" using Some by (metis length_map those_eq_Some)
  with compile_cases [OF assms, of s] Some show ?thesis
    by (auto simp: spells_tokens compile_tokens [symmetric] elements_zip pattern_ok_def count_tokens_eq)
qed


theorem pattern_compile_correct_witness:
  "\<exists>p. bytecode_pattern_compile heap_ok (Some (cstr ''2a ??'')) = (JNI2HOOK_OK, p) \<and> elements p = [Byte 0x2A, Any]"
proof -
  have "\<exists>p. bytecode_pattern_compile heap_ok (Some (cstr ''2a ??'')) = (JNI2HOOK_OK, p)"
    by (rule exI [of _ "\<lparr>pat_bytes = [0x2A, 0], pat_masks = [0xFF, 0]\<rparr>"]) code_simp
  then obtain p where p: "bytecode_pattern_compile heap_ok (Some (cstr ''2a ??'')) = (JNI2HOOK_OK, p)" ..
  have "spelling (Byte 0x2A) (cstr ''2a'')" "spelling Any (cstr ''??'')" by (simp_all add: hex_digit_def)
  then have "spells ([] @ cstr ''2a'' @ cstr '' ??'') [Byte 0x2A, Any]"
    using spells_element [of "[]" Any "cstr ''??''" "[]" "[]", OF _ _ _ spells_end]
      spells_element [of "[cstr '' '' ! 0]" Any "cstr ''??''" "[]" "[]", OF _ _ _ spells_end]
    by (intro spells_element) (auto simp: isspace_def)
  with pattern_compile_correct [OF alloc_total_heap_ok, of "cstr ''2a ??''" "[Byte 0x2A, Any]"] show ?thesis by simp
qed

text \<open>
  C29: the search routine agrees with its specification: it returns the least offset at which
  the bytes fit the elements of the pattern, and nothing when there is no such offset.
\<close>

theorem pattern_find_least:
  assumes "pattern_ok p"
  shows "bytecode_pattern_find p (Some bytes) =
    (if \<exists>i. occurs p bytes i then Some (LEAST i. occurs p bytes i) else None)"
proof (cases "\<exists>i. occurs p bytes i")
  case True
  then show ?thesis
    using scan.find_Some [OF assms, of bytes "LEAST i. occurs p bytes i"] LeastI_ex [OF True] not_less_Least
    by (auto simp: True)
next
  case False
  then show ?thesis using scan.find_None [OF assms, of bytes] by simp
qed

theorem pattern_find_least_witness:
  "bytecode_pattern_find \<lparr>pat_bytes = [0x2A, 0], pat_masks = [0xFF, 0]\<rparr> (Some [1, 0x2A, 7]) =
     Some (LEAST i. occurs \<lparr>pat_bytes = [0x2A, 0], pat_masks = [0xFF, 0]\<rparr> [1, 0x2A, 7] i)"
proof -
  let ?p = "\<lparr>pat_bytes = [0x2A, 0], pat_masks = [0xFF, 0]\<rparr> :: bytecode_pattern"
  have ok: "pattern_ok ?p" by (simp add: pattern_ok_def)
  have "occurs ?p [1, 0x2A, 7] 1" by (simp add: occurs_iff [OF ok] pattern_matches_at_def)
  with pattern_find_least [OF ok, of "[1, 0x2A, 7]"] show ?thesis by auto
qed

text \<open>
  searching a class file that the parsers accept finds the first method, in file order,
  whose bytecode contains the pattern, and the first offset in it; a method without
  code is passed over. The bytes the search looks at are exactly the code array the Code
  attribute parser delivers.
\<close>

theorem find_in_class_file_correct:
  assumes "pattern_ok p"
    and "\<forall>m \<in> set (items (cf_methods cf)). \<forall>a. code_of (cf_pool cf) m = Some a \<longrightarrow>
      wf_attribute a \<and> (\<exists>code. code_attribute_parse mem a = Inr code)"
  shows "bytecode_pattern_find_in_class_file (Some p) (Some cf) = Some (i, offset) \<longleftrightarrow>
    i < length (items (cf_methods cf)) \<and>
    (\<exists>code k. method_code mem (cf_pool cf) (items (cf_methods cf) ! i) = Some code \<and>
       offset = of_nat k \<and> occurs p code k \<and> (\<forall>j < k. \<not> occurs p code j)) \<and>
    (\<forall>j < i. \<forall>code k. method_code mem (cf_pool cf) (items (cf_methods cf) ! j) = Some code \<longrightarrow> \<not> occurs p code k)"
proof -
  let ?ms = "items (cf_methods cf)"
  let ?ws = "map (method_code mem (cf_pool cf)) ?ms"
  have "Option.bind (code_of (cf_pool cf) m) code_window = method_code mem (cf_pool cf) m" if "m \<in> set ?ms" for m
    using assms(2) that code_window_parsed by (fastforce simp: method_code_def bind_eq_Some_conv split: Option.bind_splits)
  then have "bytecode_pattern_find_in_class_file (Some p) (Some cf) = as_u4 (scan.search p (zip [0..<length ?ws] ?ws))"
    by (simp add: bytecode_pattern_find_in_class_file_def find_in_methods_search cong: map_cong)
  moreover have "as_u4 (scan.search p (zip [0..<length ?ws] ?ws)) = Some (i, offset) \<longleftrightarrow>
      (\<exists>k. offset = of_nat k \<and> i < length ?ws \<and> (\<exists>b. ?ws ! i = Some b \<and> scan.hit_first p b k) \<and>
         (\<forall>j < i. scan.silent p (j, ?ws ! j)))"
    unfolding as_u4_Some scan.search_Some [OF assms(1)] zip_split by blast
  ultimately show ?thesis by (auto simp: scan.hit_first_def scan.silent_def)
qed

theorem find_in_class_file_correct_witness:
  "\<exists>cf. bytecode_pattern_find_in_class_file (Some \<lparr>pat_bytes = [0x57], pat_masks = [0xFF]\<rparr>) (Some cf) = Some (1, 1)"
proof -
  let ?p = "\<lparr>pat_bytes = [0x57], pat_masks = [0xFF]\<rparr> :: bytecode_pattern"
  let ?code = "\<lparr>attribute_name_index = 1, attr_info = enc_code sample_code\<rparr>"
  let ?bare = "member_info_init" and ?m = "member_info_init\<lparr>attributes := \<lparr>items = [?code], vcap = 1\<rparr>\<rparr>"
  let ?pool = "\<lparr>pool_entries = [CP_None, CP_Utf8 (cstr ''Code'')], pool_count = 2\<rparr>"
  let ?cf = "(the (classFile_create heap_ok))\<lparr>cf_pool := ?pool, cf_methods := \<lparr>items = [?bare, ?m], vcap = 2\<rparr>\<rparr>"
  have ok: "pattern_ok ?p" by (simp add: pattern_ok_def)
  have parse: "code_attribute_parse heap_ok ?code = Inr (code_trim sample_code)"
    by (rule code_attribute_parse_complete [OF sample_code_wf(1) alloc_total_heap_ok]) simp
  have cf: "items (cf_methods ?cf) = [?bare, ?m]" "cf_pool ?cf = ?pool"
    by (simp_all add: classFile_create_def)
  have c0: "code_of ?pool ?bare = None"
    by (simp add: code_of_def attribute_list_find_def member_info_init_def attribute_list_init_def)
  have c1: "code_of ?pool ?m = Some ?code"
    by (simp add: code_of_def attribute_list_find_def constant_pool_utf8_equals_def constant_pool_utf8_def
        constant_pool_at_def word_le_nat_alt)
  have hyp: "\<forall>m \<in> set (items (cf_methods ?cf)). \<forall>a. code_of (cf_pool ?cf) m = Some a \<longrightarrow>
      wf_attribute a \<and> (\<exists>code. code_attribute_parse heap_ok a = Inr code)"
    using sample_code_wf(2) parse c0 c1 unfolding cf by (auto simp: wf_attribute_def)
  have body: "method_code heap_ok ?pool ?bare = None" "method_code heap_ok ?pool ?m = Some [0x04, 0x57, 0xB1]"
    using c0 c1 parse by (simp_all add: method_code_def code_trim_def sample_code_def)
  have "occurs ?p [0x04, 0x57, 0xB1] 1" "\<not> occurs ?p [0x04, 0x57, 0xB1] 0"
    by (simp_all add: occurs_iff [OF ok] pattern_matches_at_def)
  then have "bytecode_pattern_find_in_class_file (Some ?p) (Some ?cf) = Some (1, 1)"
    using find_in_class_file_correct [OF ok hyp, of 1 1] body unfolding cf
    by (auto intro!: exI [of _ "1 :: nat"])
  then show ?thesis ..
qed

text \<open>
  C31: searching the loaded classes returns the first match in the order the VM lists classes
  and methods: a method of an available class whose bytecode contains the pattern, at
  its first offset, with no match in any method listed before it. Without a match the
  search reports that nothing was found.
\<close>

theorem scan_find_correct:
  assumes "bytecode_pattern_compile mem (Some s) = (JNI2HOOK_OK, p)" "alloc_total mem" "GetLoadedClasses vm = Inr cs"
  shows "(scan_found (bytecode_scan_find mem vm (Some s) stats) = Some (m, offset) \<longleftrightarrow>
      (\<exists>us b vs k. vm_windows vm cs = us @ (m, Some b) # vs \<and> offset = of_nat k \<and>
         occurs p b k \<and> (\<forall>j < k. \<not> occurs p b j) \<and>
         (\<forall>(m', w) \<in> set us. \<forall>b' j. w = Some b' \<longrightarrow> \<not> occurs p b' j))) \<and>
    scan_status (bytecode_scan_find mem vm (Some s) stats) =
      (if \<exists>m b j. (m, Some b) \<in> set (vm_windows vm cs) \<and> occurs p b j then JNI2HOOK_OK else JNI2HOOK_ERR_NOT_FOUND)"
proof -
  let ?r = "bytecode_scan_find mem vm (Some s) stats"
  have ok: "pattern_ok p"
    using compile_cases [OF assms(2), of s] assms(1) by (auto simp: pattern_ok_def split: option.splits if_splits)
  have f: "scan_found ?r = as_u4 (scan.search p (vm_windows vm cs))"
    "scan_status ?r = (if scan.search p (vm_windows vm cs) \<noteq> None then JNI2HOOK_OK else JNI2HOOK_ERR_NOT_FOUND)"
    using scan_classes_search [of vm p cs None] assms(1,3)
    by (simp_all add: bytecode_scan_find_def Let_def case_prod_beta as_u4_def)
  have "scan_found ?r = Some (m, offset) \<longleftrightarrow>
      (\<exists>us b vs k. vm_windows vm cs = us @ (m, Some b) # vs \<and> offset = of_nat k \<and>
         occurs p b k \<and> (\<forall>j < k. \<not> occurs p b j) \<and>
         (\<forall>(m', w) \<in> set us. \<forall>b' j. w = Some b' \<longrightarrow> \<not> occurs p b' j))"
    unfolding f(1) as_u4_Some scan.search_Some [OF ok] scan.hit_first_def list_all_iff scan.silent_def
    by (auto simp: case_prod_beta)
  moreover have "scan.search p (vm_windows vm cs) = None \<longleftrightarrow> \<not> (\<exists>m b j. (m, Some b) \<in> set (vm_windows vm cs) \<and> occurs p b j)"
    unfolding scan.search_None [OF ok] list_all_iff scan.silent_def by force
  ultimately show ?thesis using f(2) by auto
qed

theorem scan_find_correct_witness:
  "scan_status (bytecode_scan_find heap_ok \<lparr>GetLoadedClasses = Inr [8, 9],
       GetClassMethods = (\<lambda>c. if c = 8 then Inl 22 else Inr [40, 41]),
       GetBytecodes = (\<lambda>m. if m = 40 then Inl 104 else Inr (Some [0x2A, 0xB1]))\<rparr> (Some (cstr ''b1'')) None) = JNI2HOOK_OK"
proof -
  let ?vm = "\<lparr>GetLoadedClasses = Inr [8, 9],
       GetClassMethods = (\<lambda>c. if c = 8 then Inl 22 else Inr [40, 41]),
       GetBytecodes = (\<lambda>m. if m = 40 then Inl 104 else Inr (Some [0x2A, 0xB1]))\<rparr> :: jvmti_scan"
  let ?p = "\<lparr>pat_bytes = [0xB1], pat_masks = [0xFF]\<rparr> :: bytecode_pattern"
  have c: "bytecode_pattern_compile heap_ok (Some (cstr ''b1'')) = (JNI2HOOK_OK, ?p)" by code_simp
  have "(41, Some [0x2A, 0xB1]) \<in> set (vm_windows ?vm [8, 9])"
    by (simp add: vm_windows_def vm_methods_def vm_code_def)
  moreover have "occurs ?p [0x2A, 0xB1] 1" by (simp add: occurs_iff pattern_ok_def pattern_matches_at_def)
  ultimately show ?thesis
    using scan_find_correct [OF c alloc_total_heap_ok, of ?vm "[8, 9]" None 0 0] by auto
qed

text \<open>
  C32: a search over the loaded classes gives back everything it took from the VM. However the
  queries answer, each buffer is deallocated exactly once, in reverse order of acquisition,
  and the local reference of every listed class is dropped, also behind the match.
\<close>

theorem scan_find_releases:
  "balanced (scan_trace (bytecode_scan_find mem vm pattern_text stats)) [] \<and>
   dropped (scan_trace (bytecode_scan_find mem vm pattern_text stats)) =
     (if scan_status (bytecode_scan_find mem vm pattern_text stats) \<in> {JNI2HOOK_OK, JNI2HOOK_ERR_NOT_FOUND}
      then (case GetLoadedClasses vm of Inr cs \<Rightarrow> cs | Inl _ \<Rightarrow> []) else [])"
proof -
  obtain status p where c: "bytecode_pattern_compile mem pattern_text = (status, p)" by (metis surj_pair)
  have st: "status \<noteq> JNI2HOOK_ERR_NOT_FOUND"
    using c by (auto simp: bytecode_pattern_compile_def Let_def split: option.splits if_splits)
  show ?thesis
  proof (cases "status = JNI2HOOK_OK")
    case False
    with c st show ?thesis by (simp add: bytecode_scan_find_def)
  next
    case True
    show ?thesis
    proof (cases "GetLoadedClasses vm")
      case (Inl e)
      with c True show ?thesis by (simp add: bytecode_scan_find_def Let_def)
    next
      case (Inr cs)
      obtain f st es where r: "scan_classes vm p cs None
          (map_option (\<lambda>s. s\<lparr>classes_total := length cs\<rparr>) (map_option (\<lambda>_. stats_zero) stats)) = (f, st, es)"
        by (metis prod_cases3)
      note t = scan_classes_trace [OF r]
      then have "balanced (Acquired Classes_Buffer # es @ [Deallocated Classes_Buffer]) []"
        by (simp add: neutral_def)
      with t c True Inr r show ?thesis by (simp add: bytecode_scan_find_def Let_def)
    qed
  qed
qed

end
