(* ===== verification/Hook_State.thy ===== *)
theory Hook_State
  imports Bytecode_Scan Class_File_IO "HOL-Library.Multiset"
begin

text \<open>
  The state the live part of the library keeps between calls (\<^verbatim>\<open>hook/class_cache.c\<close>,
  \<^verbatim>\<open>hook/class_watch.c\<close>, the globals of \<^verbatim>\<open>hook/jvm.c\<close>) and the parameter that
  stands for the VM. Every entry point runs under a lock, so an operation is one
  function on the state.

  References are named by the object they refer to: \<^verbatim>\<open>IsSameObject\<close> is equality, and the
  multiset of live global references counts how often each object is held.
\<close>

type_synonym jobject = nat

datatype watch_state = WATCH_WAITING | WATCH_CAPTURED | WATCH_READY | WATCH_FAILED | WATCH_CANCELLED

record method_watch =
  w_pattern :: bytecode_pattern
  w_state :: watch_state
  w_failure :: jni2hook_status
  w_class_name :: "cstring option"
  w_loader :: "jobject option"
  w_bootstrap :: bool
  w_method_name :: "cstring option"
  w_signature :: "cstring option"
  w_static :: bool
  w_declaring :: "jclass option"
  w_method :: "jmethodID option"
  w_offset :: u4
  w_by_name :: bool
  w_registered :: bool

record cached_class =
  cc_klass :: jclass
  cc_name :: "cstring option"
  cc_bytes :: "u1 list"

text \<open>
  Watches live at addresses; \<open>g_watches\<close> is the linked list of the registered ones. The two
  event modes and the references are what the VM keeps on behalf of the library.
\<close>

record live_state =
  jvmti_bound :: bool
  file_events :: bool
  prepare_events :: bool
  global_refs :: "jobject multiset"
  g_entries :: "cached_class list"
  g_capacity :: nat
  g_capture_class :: "jclass option"
  g_capture_name :: "cstring option"
  g_captured :: bool
  g_started :: bool
  g_watch_events :: bool
  watch_heap :: "nat \<Rightarrow> method_watch option"
  g_watches :: "nat list"

text \<open>One \<^verbatim>\<open>ClassFileLoadHook\<close> callback: class being redefined, loader, name and bytes, each possibly null.\<close>

record class_load =
  load_redefined :: "jclass option"
  load_loader :: "jobject option"
  load_name :: "cstring option"
  load_data :: "u1 list option"

datatype event_kind = JVMTI_EVENT_CLASS_FILE_LOAD_HOOK | JVMTI_EVENT_CLASS_PREPARE

text \<open>
  What the VM answers while one operation runs. \<open>NewGlobalRef_ok\<close> is asked with the address of
  the watch that wants the reference, so that the answers within one operation can
  differ. A retransformation returns its error code and the callbacks it made.
\<close>

record jvm =
  scan_api :: jvmti_scan
  env_available :: bool
  SetEventNotificationMode_error :: "bool \<Rightarrow> event_kind \<Rightarrow> jvmtiError"
  SetEventCallbacks_error :: jvmtiError
  NewGlobalRef_ok :: "nat \<Rightarrow> jobject \<Rightarrow> bool"
  GetMethodDeclaringClass :: "jmethodID \<Rightarrow> jvmtiError + jclass option"
  GetClassLoader :: "jclass \<Rightarrow> jvmtiError + jobject option"
  GetClassSignature :: "jclass \<Rightarrow> jvmtiError + cstring option"
  GetMethodID :: "jclass \<Rightarrow> cstring option \<Rightarrow> cstring option \<Rightarrow> jmethodID option"
  GetStaticMethodID :: "jclass \<Rightarrow> cstring option \<Rightarrow> cstring option \<Rightarrow> jmethodID option"
  IsModifiableClass :: "jclass \<Rightarrow> jvmtiError + bool"
  RetransformClasses :: "jclass \<Rightarrow> jvmtiError \<times> class_load list"

abbreviation JVMTI_ERROR_NONE :: jvmtiError where
  "JVMTI_ERROR_NONE \<equiv> 0"

section \<open>The environment\<close>

definition NewGlobalRef :: "jvm \<Rightarrow> nat \<Rightarrow> jobject \<Rightarrow> live_state \<Rightarrow> jobject option \<times> live_state" where
  "NewGlobalRef vm who ob s =
     (if NewGlobalRef_ok vm who ob then (Some ob, s\<lparr>global_refs := add_mset ob (global_refs s)\<rparr>) else (None, s))"

definition DeleteGlobalRef :: "jobject \<Rightarrow> live_state \<Rightarrow> live_state" where
  "DeleteGlobalRef ob s = s\<lparr>global_refs := global_refs s - {#ob#}\<rparr>"

definition SetEventNotificationMode :: "jvm \<Rightarrow> bool \<Rightarrow> event_kind \<Rightarrow> live_state \<Rightarrow> jvmtiError \<times> live_state" where
  "SetEventNotificationMode vm enable kind s =
     (let error = SetEventNotificationMode_error vm enable kind in
      if error \<noteq> JVMTI_ERROR_NONE then (error, s)
      else (error, case kind of
              JVMTI_EVENT_CLASS_FILE_LOAD_HOOK \<Rightarrow> s\<lparr>file_events := enable\<rparr>
            | JVMTI_EVENT_CLASS_PREPARE \<Rightarrow> s\<lparr>prepare_events := enable\<rparr>))"

section \<open>Strings\<close>

text \<open>C strings end at the first null byte.\<close>

definition strcmp_equal :: "cstring \<Rightarrow> cstring \<Rightarrow> bool" where
  "strcmp_equal a b \<longleftrightarrow> takeWhile (\<lambda>c. c \<noteq> 0) a = takeWhile (\<lambda>c. c \<noteq> 0) b"

definition duplicate_text :: "alloc \<Rightarrow> cstring option \<Rightarrow> cstring option" where
  "duplicate_text mem t =
     (case t of
        None \<Rightarrow> None
      | Some t \<Rightarrow>
          let copy = takeWhile (\<lambda>c. c \<noteq> 0) t in if mem Alloc_bytes (length copy + 1) then Some copy else None)"

definition jvm_take_string :: "alloc \<Rightarrow> cstring option \<Rightarrow> cstring option" where
  "jvm_take_string mem t =
     (case t of None \<Rightarrow> None | Some t \<Rightarrow> if mem Alloc_bytes (length t + 1) then Some t else None)"

definition jvm_class_name_of :: "alloc \<Rightarrow> jvm \<Rightarrow> live_state \<Rightarrow> jclass \<Rightarrow> cstring option" where
  "jvm_class_name_of mem vm s klass =
     (if \<not> jvmti_bound s then None
      else
        (case GetClassSignature vm klass of
           Inl error \<Rightarrow> None
         | Inr signature \<Rightarrow>
             (case jvm_take_string mem signature of
                None \<Rightarrow> None
              | Some owned \<Rightarrow>
                  if length owned \<ge> 2 \<and> owned ! 0 = 76 \<and> owned ! (length owned - 1) = 59
                  then Some (take (length owned - 2) (drop 1 owned))
                  else Some owned)))"

definition class_file_name :: "alloc \<Rightarrow> ClassFile \<Rightarrow> cstring option" where
  "class_file_name mem cf =
     (case constant_pool_at (cf_pool cf) (this_class cf) of
        Some (CP_Class index) \<Rightarrow> duplicate_utf8 mem (cf_pool cf) index
      | _ \<Rightarrow> None)"

section \<open>Watches\<close>

definition watch_zero :: method_watch where
  "watch_zero = \<lparr>w_pattern = bytecode_pattern_zero, w_state = WATCH_WAITING, w_failure = JNI2HOOK_OK,
     w_class_name = None, w_loader = None, w_bootstrap = False, w_method_name = None, w_signature = None,
     w_static = False, w_declaring = None, w_method = None, w_offset = 0, w_by_name = False, w_registered = False\<rparr>"

text \<open>Reading and writing a watch behind its pointer.\<close>

definition watch_at :: "live_state \<Rightarrow> nat \<Rightarrow> method_watch" where
  "watch_at s a = (case watch_heap s a of Some w \<Rightarrow> w | None \<Rightarrow> watch_zero)"

definition put_watch :: "nat \<Rightarrow> method_watch \<Rightarrow> live_state \<Rightarrow> live_state" where
  "put_watch a w s = s\<lparr>watch_heap := (watch_heap s)(a \<mapsto> w)\<rparr>"

definition drop_ref :: "bool \<Rightarrow> jobject option \<Rightarrow> live_state \<Rightarrow> live_state" where
  "drop_ref env r s = (case r of Some ob \<Rightarrow> if env then DeleteGlobalRef ob s else s | None \<Rightarrow> s)"

definition release_candidate :: "bool \<Rightarrow> nat \<Rightarrow> live_state \<Rightarrow> live_state" where
  "release_candidate env a s =
     put_watch a ((watch_at s a)\<lparr>w_loader := None, w_class_name := None, w_method_name := None, w_signature := None\<rparr>)
       (drop_ref env (w_loader (watch_at s a)) s)"

definition release_ready :: "bool \<Rightarrow> nat \<Rightarrow> live_state \<Rightarrow> live_state" where
  "release_ready env a s =
     put_watch a ((watch_at s a)\<lparr>w_declaring := None, w_method := None\<rparr>)
       (drop_ref env (w_declaring (watch_at s a)) s)"

definition fail_watch :: "nat \<Rightarrow> jni2hook_status \<Rightarrow> live_state \<Rightarrow> live_state" where
  "fail_watch a failure s =
     (let s = release_ready True a (release_candidate True a s)
      in put_watch a ((watch_at s a)\<lparr>w_failure := failure, w_state := WATCH_FAILED\<rparr>) s)"

end
