(* ===== verification/Class_Watch.thy ===== *)
theory Class_Watch
  imports Hook_State
begin

text \<open>
  Watches for methods of classes that are not loaded yet: the callbacks and the queries of
  \<^verbatim>\<open>hook/class_watch.c\<close>. A watch waits, is captured when a class file with its pattern is
  loaded, and becomes ready when that class is prepared.
\<close>

section \<open>Queries\<close>

definition class_watch_resolve_loaded ::
  "jvm \<Rightarrow> nat option \<Rightarrow> jmethodID option \<Rightarrow> u4 \<Rightarrow> live_state \<Rightarrow> jni2hook_status \<times> live_state" where
  "class_watch_resolve_loaded vm watch meth offset s =
     (case (watch, meth) of
        (Some a, Some m) \<Rightarrow>
          if \<not> env_available vm \<or> \<not> jvmti_bound s then (JNI2HOOK_ERR_JVMTI, s)
          else if \<not> w_registered (watch_at s a) \<or> w_state (watch_at s a) = WATCH_READY then (JNI2HOOK_OK, s)
          else
            (case GetMethodDeclaringClass vm m of
               Inr (Some declaring) \<Rightarrow>
                 (case NewGlobalRef vm a declaring s of
                    (None, s) \<Rightarrow> (JNI2HOOK_ERR_OUT_OF_MEMORY, fail_watch a JNI2HOOK_ERR_OUT_OF_MEMORY s)
                  | (Some owned, s) \<Rightarrow>
                      let s = release_ready True a (release_candidate True a s)
                      in (JNI2HOOK_OK,
                          put_watch a ((watch_at s a)\<lparr>w_declaring := Some owned, w_method := Some m,
                            w_offset := offset, w_state := WATCH_READY\<rparr>) s))
             | _ \<Rightarrow> (JNI2HOOK_ERR_JVMTI, fail_watch a JNI2HOOK_ERR_JVMTI s))
      | _ \<Rightarrow> (JNI2HOOK_ERR_JVMTI, s))"

definition class_watch_get :: "nat option \<Rightarrow> live_state \<Rightarrow> jni2hook_status \<times> (jmethodID option \<times> u4) option" where
  "class_watch_get watch s =
     (case watch of
        None \<Rightarrow> (JNI2HOOK_ERR_INVALID_PATTERN, None)
      | Some a \<Rightarrow>
          (case w_state (watch_at s a) of
             WATCH_READY \<Rightarrow> (JNI2HOOK_OK, Some (w_method (watch_at s a), w_offset (watch_at s a)))
           | WATCH_FAILED \<Rightarrow> (w_failure (watch_at s a), None)
           | WATCH_CANCELLED \<Rightarrow> (JNI2HOOK_ERR_NOT_INITIALIZED, None)
           | _ \<Rightarrow> (JNI2HOOK_ERR_NOT_FOUND, None)))"

section \<open>A class file is loaded\<close>

text \<open>The body of the loop: one watch, against the parsed class file.\<close>

definition capture_candidate ::
  "alloc \<Rightarrow> jvm \<Rightarrow> jobject option \<Rightarrow> ClassFile \<Rightarrow> nat \<Rightarrow> live_state \<Rightarrow> live_state" where
  "capture_candidate mem vm loader cf a s =
     (if w_state (watch_at s a) \<noteq> WATCH_WAITING then s
      else
        (case bytecode_pattern_find_in_class_file (Some (w_pattern (watch_at s a))) (Some cf) of
           None \<Rightarrow> s
         | Some (index, offset) \<Rightarrow>
             let meth = items (cf_methods cf) ! index;
                 (ref, s) = (case loader of None \<Rightarrow> (None, s) | Some ob \<Rightarrow> NewGlobalRef vm a ob s);
                 w = (watch_at s a)\<lparr>
                   w_class_name := duplicate_text mem (class_file_name mem cf),
                   w_method_name := duplicate_utf8 mem (cf_pool cf) (name_index meth),
                   w_signature := duplicate_utf8 mem (cf_pool cf) (descriptor_index meth),
                   w_static := member_info_is_static meth,
                   w_bootstrap := (loader = None), w_loader := ref, w_offset := offset\<rparr>;
                 s = put_watch a w s in
             if w_class_name w = None \<or> w_method_name w = None \<or> w_signature w = None \<or>
                (loader \<noteq> None \<and> w_loader w = None)
             then fail_watch a JNI2HOOK_ERR_OUT_OF_MEMORY s
             else put_watch a (w\<lparr>w_state := WATCH_CAPTURED\<rparr>) s))"

definition class_watch_on_class_file_load ::
  "alloc \<Rightarrow> jvm \<Rightarrow> jobject option \<Rightarrow> u1 list option \<Rightarrow> live_state \<Rightarrow> live_state" where
  "class_watch_on_class_file_load mem vm loader class_data s =
     (case class_data of
        None \<Rightarrow> s
      | Some bytes \<Rightarrow>
          if \<not> env_available vm \<or> bytes = [] then s
          else if \<not> list_ex (\<lambda>a. \<not> w_by_name (watch_at s a) \<and> w_state (watch_at s a) = WATCH_WAITING) (g_watches s)
          then s
          else
            (case classfile_parse mem bytes of
               Inl _ \<Rightarrow> s
             | Inr cf \<Rightarrow> fold (capture_candidate mem vm loader cf) (g_watches s) s))"

section \<open>A class is prepared\<close>

definition method_id_of :: "jvm \<Rightarrow> jclass \<Rightarrow> method_watch \<Rightarrow> jmethodID option" where
  "method_id_of vm klass w =
     (if w_static w then GetStaticMethodID vm klass (w_method_name w) (w_signature w)
      else GetMethodID vm klass (w_method_name w) (w_signature w))"

text \<open>The first loop: a watch that is still waiting, against the prepared class.\<close>

definition waiting_match :: "alloc \<Rightarrow> jvm \<Rightarrow> jclass \<Rightarrow> nat \<Rightarrow> live_state \<Rightarrow> (jmethodID \<times> u4) option" where
  "waiting_match mem vm klass a s =
     (if w_by_name (watch_at s a) then
        let same = (case (jvm_class_name_of mem vm s klass, w_class_name (watch_at s a)) of
                      (Some prepared, Some name) \<Rightarrow> strcmp_equal prepared name | _ \<Rightarrow> False)
        in if \<not> same then None else map_option (\<lambda>m. (m, 0)) (method_id_of vm klass (watch_at s a))
      else fst (bytecode_pattern_find_in_prepared_class (scan_api vm) klass (Some (w_pattern (watch_at s a)))))"

definition resolve_waiting :: "alloc \<Rightarrow> jvm \<Rightarrow> jclass \<Rightarrow> nat \<Rightarrow> live_state \<Rightarrow> live_state" where
  "resolve_waiting mem vm klass a s =
     (if w_state (watch_at s a) \<noteq> WATCH_WAITING then s
      else
        (case waiting_match mem vm klass a s of
           None \<Rightarrow> s
         | Some (m, offset) \<Rightarrow>
             (case NewGlobalRef vm a klass s of
                (None, s) \<Rightarrow> fail_watch a JNI2HOOK_ERR_OUT_OF_MEMORY s
              | (Some owned, s) \<Rightarrow>
                  put_watch a ((watch_at s a)\<lparr>w_declaring := Some owned, w_method := Some m, w_offset := offset,
                    w_state := WATCH_READY\<rparr>) s)))"

text \<open>The last loop: a captured watch, against the name and the loader of the prepared class.\<close>

definition resolve_captured :: "jvm \<Rightarrow> jclass \<Rightarrow> cstring \<Rightarrow> jobject option \<Rightarrow> nat \<Rightarrow> live_state \<Rightarrow> live_state" where
  "resolve_captured vm klass class_name loader a s =
     (let w = watch_at s a in
      if w_state w \<noteq> WATCH_CAPTURED \<or>
         \<not> (case w_class_name w of Some name \<Rightarrow> strcmp_equal name class_name | None \<Rightarrow> False) then s
      else if \<not> (w_bootstrap w \<and> loader = None \<or> \<not> w_bootstrap w \<and> loader \<noteq> None \<and> w_loader w = loader) then s
      else
        (case method_id_of vm klass w of
           None \<Rightarrow> fail_watch a JNI2HOOK_ERR_JNI s
         | Some m \<Rightarrow>
             (case NewGlobalRef vm a klass s of
                (None, s) \<Rightarrow> fail_watch a JNI2HOOK_ERR_OUT_OF_MEMORY s
              | (Some owned, s) \<Rightarrow>
                  let s = release_candidate True a s
                  in put_watch a ((watch_at s a)\<lparr>w_declaring := Some owned, w_method := Some m, w_state := WATCH_READY\<rparr>) s)))"

definition class_watch_on_class_prepare :: "alloc \<Rightarrow> jvm \<Rightarrow> jclass option \<Rightarrow> live_state \<Rightarrow> live_state" where
  "class_watch_on_class_prepare mem vm klass s =
     (case klass of
        None \<Rightarrow> s
      | Some k \<Rightarrow>
          if \<not> env_available vm then s
          else
            let s = fold (resolve_waiting mem vm k) (g_watches s) s in
            if \<not> list_ex (\<lambda>a. w_state (watch_at s a) = WATCH_CAPTURED) (g_watches s) then s
            else
              (case (jvm_class_name_of mem vm s k, GetClassLoader vm k) of
                 (Some class_name, Inr loader) \<Rightarrow> fold (resolve_captured vm k class_name loader) (g_watches s) s
               | _ \<Rightarrow> s))"

section \<open>Clearing\<close>

definition cancel_watch :: "bool \<Rightarrow> nat \<Rightarrow> live_state \<Rightarrow> live_state" where
  "cancel_watch env a s =
     (let s = release_ready env a (release_candidate env a s)
      in put_watch a ((watch_at s a)\<lparr>w_registered := False, w_state := WATCH_CANCELLED\<rparr>) s)"

definition class_watch_clear :: "bool \<Rightarrow> live_state \<Rightarrow> live_state" where
  "class_watch_clear env s = fold (cancel_watch env) (g_watches s) (s\<lparr>g_watches := []\<rparr>)"

end
