(* ===== verification/Class_Cache.thy ===== *)
theory Class_Cache
  imports Class_Watch
begin

text \<open>
  The bytes of every class before its first redefinition: \<^verbatim>\<open>hook/class_cache.c\<close>. A class
  is captured by retransforming it with the load hook enabled; the callback stores what
  it is handed, once per class. The same file owns the event modes that watches need.
\<close>

section \<open>Entries\<close>

definition find_entry :: "bool \<Rightarrow> jclass option \<Rightarrow> live_state \<Rightarrow> nat option" where
  "find_entry env klass s =
     (case klass of
        None \<Rightarrow> None
      | Some k \<Rightarrow> if \<not> env then None else find_index (\<lambda>e. cc_klass e = k) (g_entries s))"

definition release_entry :: "bool \<Rightarrow> cached_class \<Rightarrow> live_state \<Rightarrow> live_state" where
  "release_entry env e s = drop_ref env (Some (cc_klass e)) s"

text \<open>The reference a cache entry asks for is answered under an address no watch has.\<close>

definition cache_requester :: nat where
  "cache_requester = 0"

definition store :: "alloc \<Rightarrow> jvm \<Rightarrow> jclass \<Rightarrow> cstring option \<Rightarrow> u1 list \<Rightarrow> live_state \<Rightarrow> bool \<times> live_state" where
  "store mem vm k name bytes s =
     (if \<not> env_available vm then (False, s)
      else if find_entry True (Some k) s \<noteq> None then (True, s)
      else
        let capacity = (if length (g_entries s) = g_capacity s
                        then if g_capacity s \<noteq> 0 then g_capacity s * 2 else 16 else g_capacity s) in
        if length (g_entries s) = g_capacity s \<and> \<not> mem Alloc_cached_class capacity then (False, s)
        else
          let s = s\<lparr>g_capacity := capacity\<rparr> in
          (case NewGlobalRef vm cache_requester k s of
             (None, s) \<Rightarrow> (False, s)
           | (Some owned, s) \<Rightarrow>
               if name \<noteq> None \<and> \<not> mem Alloc_bytes (length (the name) + 1) then (False, DeleteGlobalRef owned s)
               else if \<not> mem Alloc_bytes (if length bytes \<noteq> 0 then length bytes else 1) then (False, DeleteGlobalRef owned s)
               else (True, s\<lparr>g_entries := g_entries s @ [\<lparr>cc_klass = owned, cc_name = name, cc_bytes = bytes\<rparr>]\<rparr>)))"

section \<open>Callbacks\<close>

definition capture_load :: "alloc \<Rightarrow> jvm \<Rightarrow> jclass \<Rightarrow> cstring option \<Rightarrow> u1 list \<Rightarrow> live_state \<Rightarrow> live_state" where
  "capture_load mem vm redefined name bytes s =
     (case (g_capture_class s, name, g_capture_name s) of
        (Some c, Some n, Some cn) \<Rightarrow>
          if strcmp_equal n cn \<and> redefined = c then
            let (ok, s) = store mem vm redefined name bytes s in if ok then s\<lparr>g_captured := True\<rparr> else s
          else s
      | _ \<Rightarrow> s)"

definition on_class_file_load :: "alloc \<Rightarrow> jvm \<Rightarrow> class_load \<Rightarrow> live_state \<Rightarrow> live_state" where
  "on_class_file_load mem vm l s =
     (case load_data l of
        None \<Rightarrow> s
      | Some bytes \<Rightarrow>
          if \<not> env_available vm then s
          else
            (case load_redefined l of
               Some k \<Rightarrow> capture_load mem vm k (load_name l) bytes s
             | None \<Rightarrow> class_watch_on_class_file_load mem vm (load_loader l) (Some bytes) s))"

definition on_class_prepare :: "alloc \<Rightarrow> jvm \<Rightarrow> jclass option \<Rightarrow> live_state \<Rightarrow> live_state" where
  "on_class_prepare mem vm klass s = class_watch_on_class_prepare mem vm klass s"

section \<open>Events\<close>

definition class_cache_start :: "jvm \<Rightarrow> live_state \<Rightarrow> bool \<times> live_state" where
  "class_cache_start vm s =
     (if \<not> jvmti_bound s then (False, s)
      else if g_started s then (True, s)
      else if SetEventCallbacks_error vm \<noteq> JVMTI_ERROR_NONE then (False, s)
      else (True, s\<lparr>g_started := True\<rparr>))"

definition class_cache_stop :: "jvm \<Rightarrow> live_state \<Rightarrow> live_state" where
  "class_cache_stop vm s =
     (let s = (if jvmti_bound s \<and> g_started s
               then snd (SetEventNotificationMode vm False JVMTI_EVENT_CLASS_PREPARE
                      (snd (SetEventNotificationMode vm False JVMTI_EVENT_CLASS_FILE_LOAD_HOOK s)))
               else s)
      in s\<lparr>g_started := False, g_captured := False, g_watch_events := False\<rparr>)"

definition class_cache_set_watch_events :: "jvm \<Rightarrow> bool \<Rightarrow> live_state \<Rightarrow> bool \<times> live_state" where
  "class_cache_set_watch_events vm enabled s =
     (if \<not> jvmti_bound s then (False, s)
      else if \<not> g_started s then (False, s)
      else if g_watch_events s = enabled then (True, s)
      else
        let (error, s) =
              (if enabled then
                 let (error, s) = SetEventNotificationMode vm True JVMTI_EVENT_CLASS_FILE_LOAD_HOOK s;
                     (error, s) = (if error = JVMTI_ERROR_NONE
                                   then SetEventNotificationMode vm True JVMTI_EVENT_CLASS_PREPARE s else (error, s))
                 in if error \<noteq> JVMTI_ERROR_NONE
                    then (error, snd (SetEventNotificationMode vm False JVMTI_EVENT_CLASS_FILE_LOAD_HOOK s))
                    else (error, s)
               else
                 let (error, s) = SetEventNotificationMode vm False JVMTI_EVENT_CLASS_PREPARE s in
                 if g_capture_class s = None then
                   let (file_error, s) = SetEventNotificationMode vm False JVMTI_EVENT_CLASS_FILE_LOAD_HOOK s
                   in (if error = JVMTI_ERROR_NONE then file_error else error, s)
                 else (error, s))
        in (error = JVMTI_ERROR_NONE, if error = JVMTI_ERROR_NONE then s\<lparr>g_watch_events := enabled\<rparr> else s))"

section \<open>Capturing\<close>

abbreviation JVMTI_ERROR_UNMODIFIABLE_CLASS :: jvmtiError where
  "JVMTI_ERROR_UNMODIFIABLE_CLASS \<equiv> 79"

abbreviation JVMTI_ERROR_OUT_OF_MEMORY :: jvmtiError where
  "JVMTI_ERROR_OUT_OF_MEMORY \<equiv> 110"

abbreviation JVMTI_ERROR_INTERNAL :: jvmtiError where
  "JVMTI_ERROR_INTERNAL \<equiv> 113"

text \<open>The capture itself: with the hook enabled, the VM retransforms the class and calls back.\<close>

definition retransform_capture :: "alloc \<Rightarrow> jvm \<Rightarrow> jclass \<Rightarrow> live_state \<Rightarrow> jvmtiError \<times> live_state" where
  "retransform_capture mem vm k s =
     (let (error, s) = SetEventNotificationMode vm True JVMTI_EVENT_CLASS_FILE_LOAD_HOOK s in
      if error \<noteq> JVMTI_ERROR_NONE then (error, s)
      else
        let (error, loads) = RetransformClasses vm k;
            s = fold (on_class_file_load mem vm) loads s
        in (error, if \<not> g_watch_events s
                   then snd (SetEventNotificationMode vm False JVMTI_EVENT_CLASS_FILE_LOAD_HOOK s) else s))"

definition class_cache_ensure ::
  "alloc \<Rightarrow> jvm \<Rightarrow> jclass option \<Rightarrow> cstring option \<Rightarrow> live_state \<Rightarrow> (bool \<times> jvmtiError) \<times> live_state" where
  "class_cache_ensure mem vm klass class_name s =
     (case klass of
        None \<Rightarrow> ((False, JVMTI_ERROR_NONE), s)
      | Some k \<Rightarrow>
          if \<not> env_available vm \<or> \<not> jvmti_bound s then ((False, JVMTI_ERROR_NONE), s)
          else if find_entry True (Some k) s \<noteq> None then ((True, JVMTI_ERROR_NONE), s)
          else
            (case class_cache_start vm s of
               (False, s) \<Rightarrow> ((False, JVMTI_ERROR_NONE), s)
             | (True, s) \<Rightarrow>
                 (case IsModifiableClass vm k of
                    Inl error \<Rightarrow> ((False, error), s)
                  | Inr False \<Rightarrow> ((False, JVMTI_ERROR_UNMODIFIABLE_CLASS), s)
                  | Inr True \<Rightarrow>
                      (case NewGlobalRef vm cache_requester k s of
                         (None, s) \<Rightarrow>
                           ((False, JVMTI_ERROR_OUT_OF_MEMORY),
                            s\<lparr>g_capture_class := None, g_capture_name := class_name, g_captured := False\<rparr>)
                       | (Some c, s) \<Rightarrow>
                           let s = s\<lparr>g_capture_class := Some c, g_capture_name := class_name, g_captured := False\<rparr>;
                               (error, s) = retransform_capture mem vm k s;
                               s = (DeleteGlobalRef c s)\<lparr>g_capture_class := None, g_capture_name := None\<rparr> in
                           if error \<noteq> JVMTI_ERROR_NONE then ((False, error), s)
                           else
                             let captured = (g_captured s \<and> find_entry True (Some k) s \<noteq> None)
                             in ((captured, if captured then JVMTI_ERROR_NONE else JVMTI_ERROR_INTERNAL), s)))))"

definition class_cache_get :: "bool \<Rightarrow> jclass option \<Rightarrow> live_state \<Rightarrow> u1 list option" where
  "class_cache_get env klass s = map_option (\<lambda>i. cc_bytes (g_entries s ! i)) (find_entry env klass s)"

text \<open>\<open>env\<close> is the environment of the caller; the entry is released with that of the current thread.\<close>

definition class_cache_forget :: "jvm \<Rightarrow> bool \<Rightarrow> jclass option \<Rightarrow> live_state \<Rightarrow> live_state" where
  "class_cache_forget vm env klass s =
     (case find_entry env klass s of
        None \<Rightarrow> s
      | Some i \<Rightarrow>
          (release_entry (env_available vm) (g_entries s ! i) s)
            \<lparr>g_entries := take i (g_entries s) @ drop (Suc i) (g_entries s)\<rparr>)"

definition class_cache_clear :: "jvm \<Rightarrow> live_state \<Rightarrow> live_state" where
  "class_cache_clear vm s =
     (fold (release_entry (env_available vm)) (g_entries s) s)\<lparr>g_entries := [], g_capacity := 0, g_captured := False\<rparr>"

definition class_cache_size :: "live_state \<Rightarrow> nat" where
  "class_cache_size s = length (g_entries s)"

end
