(* ===== verification/Watch_Lifecycle.thy ===== *)
theory Watch_Lifecycle
  imports Class_Cache
begin

text \<open>
  Creating and destroying watches, the state machine that the entry points of
  \<^verbatim>\<open>hook/class_watch.c\<close> and \<^verbatim>\<open>hook/class_cache.c\<close> form together, and the
  invariant of its reachable states: who holds which global reference, and which fields of
  a watch are present in which state.
\<close>

section \<open>Creating and destroying\<close>

text \<open>\<open>block\<close> is what \<^verbatim>\<open>calloc\<close> returned for the watch.\<close>

definition class_watch_destroy :: "jvm \<Rightarrow> bool \<Rightarrow> nat option \<Rightarrow> live_state \<Rightarrow> live_state" where
  "class_watch_destroy vm env watch s =
     (case watch of
        None \<Rightarrow> s
      | Some a \<Rightarrow>
          let s = (if w_registered (watch_at s a)
                   then put_watch a ((watch_at s a)\<lparr>w_registered := False\<rparr>) (s\<lparr>g_watches := remove1 a (g_watches s)\<rparr>)
                   else s);
              s = (if g_watches s = [] then snd (class_cache_set_watch_events vm False s) else s);
              s = release_ready env a (release_candidate env a s)
          in s\<lparr>watch_heap := (watch_heap s)(a := None)\<rparr>)"

definition class_watch_create_named ::
  "alloc \<Rightarrow> jvm \<Rightarrow> nat option \<Rightarrow> cstring option \<Rightarrow> cstring option \<Rightarrow> cstring option \<Rightarrow> bool \<Rightarrow> live_state \<Rightarrow>
   (jni2hook_status \<times> nat option) \<times> live_state" where
  "class_watch_create_named mem vm block class_name meth_name sig meth_static s =
     (if \<not> env_available vm \<or> class_name = None \<or> meth_name = None \<or> sig = None
      then ((JNI2HOOK_ERR_NOT_FOUND, None), s)
      else
        (case block of
           None \<Rightarrow> ((JNI2HOOK_ERR_OUT_OF_MEMORY, None), s)
         | Some a \<Rightarrow>
             let w = watch_zero\<lparr>w_by_name := True, w_class_name := duplicate_text mem class_name,
                   w_method_name := duplicate_text mem meth_name, w_signature := duplicate_text mem sig,
                   w_static := meth_static, w_state := WATCH_WAITING, w_failure := JNI2HOOK_OK\<rparr> in
             if w_class_name w = None \<or> w_method_name w = None \<or> w_signature w = None
             then ((JNI2HOOK_ERR_OUT_OF_MEMORY, None), s)
             else
               let s = put_watch a (w\<lparr>w_registered := True\<rparr>) (s\<lparr>g_watches := a # g_watches s\<rparr>) in
               (case class_cache_set_watch_events vm True s of
                  (False, s) \<Rightarrow> ((JNI2HOOK_ERR_JVMTI, None), class_watch_destroy vm True (Some a) s)
                | (True, s) \<Rightarrow> ((JNI2HOOK_OK, Some a), s))))"

definition class_watch_create ::
  "alloc \<Rightarrow> jvm \<Rightarrow> nat option \<Rightarrow> cstring option \<Rightarrow> live_state \<Rightarrow> (jni2hook_status \<times> nat option) \<times> live_state" where
  "class_watch_create mem vm block pattern s =
     (if \<not> env_available vm then ((JNI2HOOK_ERR_INVALID_PATTERN, None), s)
      else
        (case block of
           None \<Rightarrow> ((JNI2HOOK_ERR_OUT_OF_MEMORY, None), s)
         | Some a \<Rightarrow>
             let (status, p) = bytecode_pattern_compile mem pattern in
             if status \<noteq> JNI2HOOK_OK then ((status, None), s)
             else
               let w = watch_zero\<lparr>w_pattern := p, w_state := WATCH_WAITING, w_failure := JNI2HOOK_OK\<rparr>;
                   s = put_watch a (w\<lparr>w_registered := True\<rparr>) (s\<lparr>g_watches := a # g_watches s\<rparr>) in
               (case class_cache_set_watch_events vm True s of
                  (False, s) \<Rightarrow>
                    ((JNI2HOOK_ERR_JVMTI, None),
                     s\<lparr>g_watches := tl (g_watches s), watch_heap := (watch_heap s)(a := None)\<rparr>)
                | (True, s) \<Rightarrow> ((JNI2HOOK_OK, Some a), s))))"

section \<open>What a watch holds\<close>

definition opt_ref :: "'a option \<Rightarrow> 'a multiset" where
  "opt_ref r = (case r of None \<Rightarrow> {#} | Some x \<Rightarrow> {#x#})"

lemma opt_ref_simps [simp]: "opt_ref None = {#}" "opt_ref (Some x) = {#x#}"
  by (simp_all add: opt_ref_def)

definition watch_refs :: "method_watch \<Rightarrow> jobject multiset" where
  "watch_refs w = opt_ref (w_loader w) + opt_ref (w_declaring w)"

definition names_present :: "method_watch \<Rightarrow> bool" where
  "names_present w \<longleftrightarrow> w_class_name w \<noteq> None \<and> w_method_name w \<noteq> None \<and> w_signature w \<noteq> None"

definition watch_ok :: "method_watch \<Rightarrow> bool" where
  "watch_ok w \<longleftrightarrow>
     (case w_state w of
        WATCH_WAITING \<Rightarrow> w_loader w = None \<and> w_declaring w = None \<and> (w_by_name w \<longrightarrow> names_present w)
      | WATCH_CAPTURED \<Rightarrow> names_present w \<and> w_declaring w = None \<and> (w_loader w = None \<longleftrightarrow> w_bootstrap w)
      | WATCH_READY \<Rightarrow> w_loader w = None \<and> w_declaring w \<noteq> None \<and> w_method w \<noteq> None
      | _ \<Rightarrow> w_loader w = None \<and> w_declaring w = None)"

text \<open>The transitions a registered watch can make.\<close>

definition transitions :: "(watch_state \<times> watch_state) list" where
  "transitions =
     [(WATCH_WAITING, WATCH_CAPTURED), (WATCH_WAITING, WATCH_READY), (WATCH_WAITING, WATCH_FAILED),
      (WATCH_CAPTURED, WATCH_READY), (WATCH_CAPTURED, WATCH_FAILED), (WATCH_FAILED, WATCH_READY)]"

definition moves :: "watch_state \<Rightarrow> watch_state \<Rightarrow> bool" where
  "moves x y \<longleftrightarrow> x = y \<or> (x, y) \<in> set transitions"

text \<open>What one iteration of a callback does: one watch changes, and the references follow it.\<close>

definition watch_change :: "nat \<Rightarrow> live_state \<Rightarrow> live_state \<Rightarrow> bool" where
  "watch_change a s s' \<longleftrightarrow>
     (\<exists>w g. s' = s\<lparr>watch_heap := (watch_heap s)(a \<mapsto> w), global_refs := g\<rparr> \<and>
        g + watch_refs (watch_at s a) = global_refs s + watch_refs w \<and> watch_ok w \<and>
        w_registered w = w_registered (watch_at s a) \<and> moves (w_state (watch_at s a)) (w_state w))"

definition watch_ready_to_run :: "nat \<Rightarrow> live_state \<Rightarrow> bool" where
  "watch_ready_to_run a s \<longleftrightarrow> watch_heap s a \<noteq> None \<and> watch_ok (watch_at s a) \<and> watch_refs (watch_at s a) \<subseteq># global_refs s"

lemma watch_at_put [simp]: "watch_at (put_watch a w s) b = (if b = a then w else watch_at s b)"
  by (simp add: watch_at_def put_watch_def)

lemma watch_at_refs [simp]: "watch_at (s\<lparr>global_refs := g\<rparr>) a = watch_at s a"
  by (simp add: watch_at_def)

lemma drop_ref_True: "drop_ref True r s = s\<lparr>global_refs := global_refs s - opt_ref r\<rparr>"
  by (cases r) (simp_all add: drop_ref_def DeleteGlobalRef_def)

lemma watch_change_refl: "watch_ready_to_run a s \<Longrightarrow> watch_change a s s"
  by (auto simp: watch_ready_to_run_def watch_change_def watch_at_def moves_def fun_upd_idem
      intro!: exI [of _ "watch_at s a"] exI [of _ "global_refs s"])

definition released :: "method_watch \<Rightarrow> method_watch" where
  "released w = w\<lparr>w_loader := None, w_class_name := None, w_method_name := None, w_signature := None,
     w_declaring := None, w_method := None\<rparr>"

lemma release_both:
  "release_ready True a (release_candidate True a s) =
     s\<lparr>watch_heap := (watch_heap s)(a \<mapsto> released (watch_at s a)), global_refs := global_refs s - watch_refs (watch_at s a)\<rparr>"
  by (simp add: release_ready_def release_candidate_def drop_ref_True put_watch_def watch_at_def watch_refs_def
      released_def)

lemma fail_watch_eq:
  "fail_watch a failure s = s\<lparr>watch_heap := (watch_heap s)(a \<mapsto>
       (released (watch_at s a))\<lparr>w_failure := failure, w_state := WATCH_FAILED\<rparr>),
     global_refs := global_refs s - watch_refs (watch_at s a)\<rparr>"
  unfolding fail_watch_def release_both Let_def by (simp add: put_watch_def watch_at_def)

lemma released_simps [simp]: "watch_refs (released w) = {#}" "w_registered (released w) = w_registered w"
  "w_loader (released w) = None" "w_declaring (released w) = None"
  by (simp_all add: released_def watch_refs_def)

lemma watch_changeI:
  "s' = s\<lparr>watch_heap := (watch_heap s)(a \<mapsto> w), global_refs := g\<rparr> \<Longrightarrow>
   g + watch_refs (watch_at s a) = global_refs s + watch_refs w \<Longrightarrow> watch_ok w \<Longrightarrow>
   w_registered w = w_registered (watch_at s a) \<Longrightarrow> moves (w_state (watch_at s a)) (w_state w) \<Longrightarrow> watch_change a s s'"
  unfolding watch_change_def by blast

lemma fail_watch_change:
  assumes "watch_refs (watch_at s a) \<subseteq># global_refs s" "w_state (watch_at s a) \<noteq> WATCH_READY"
    "w_state (watch_at s a) \<noteq> WATCH_CANCELLED"
  shows "watch_change a s (fail_watch a failure s)"
proof (rule watch_changeI [OF fail_watch_eq])
  show "moves (w_state (watch_at s a)) (w_state ((released (watch_at s a))\<lparr>w_failure := failure, w_state := WATCH_FAILED\<rparr>))"
    using assms(2,3) by (cases "w_state (watch_at s a)") (simp_all add: moves_def transitions_def)
qed (use assms(1) in \<open>auto simp: watch_ok_def watch_refs_def\<close>)

lemma swap_ref: "A \<subseteq># B \<Longrightarrow> add_mset k B - A + A = add_mset k B"
  by (metis mset_subset_eq_add_right subset_mset.diff_add subset_mset.order_trans union_mset_add_mset_left add_cancel_left_left)

text \<open>A fresh reference that the watch at \<open>a\<close> does not hold yet.\<close>

lemma NewGlobalRef_cases:
  "NewGlobalRef vm a ob s = (r, s') \<Longrightarrow>
     r = None \<and> s' = s \<or> r = Some ob \<and> s' = s\<lparr>global_refs := add_mset ob (global_refs s)\<rparr>"
  by (auto simp: NewGlobalRef_def split: if_splits)

lemma resolve_waiting_change:
  assumes "watch_ready_to_run a s"
  shows "watch_change a s (resolve_waiting mem vm k a s)"
proof (cases "w_state (watch_at s a) = WATCH_WAITING \<and> waiting_match mem vm k a s \<noteq> None")
  case True
  then obtain m off where m: "waiting_match mem vm k a s = Some (m, off)" by auto
  obtain r s1 where r: "NewGlobalRef vm a k s = (r, s1)" by (metis surj_pair)
  from NewGlobalRef_cases [OF r] show ?thesis
  proof
    assume "r = None \<and> s1 = s"
    with r m True fail_watch_change [of s a] assms show ?thesis
      by (simp add: resolve_waiting_def watch_ready_to_run_def)
  next
    assume ref: "r = Some k \<and> s1 = s\<lparr>global_refs := add_mset k (global_refs s)\<rparr>"
    let ?w = "(watch_at s a)\<lparr>w_declaring := Some k, w_method := Some m, w_offset := off, w_state := WATCH_READY\<rparr>"
    have w: "w_loader (watch_at s a) = None" "w_declaring (watch_at s a) = None"
      using assms True by (auto simp: watch_ready_to_run_def watch_ok_def)
    show ?thesis
      by (rule watch_changeI [where w = ?w and g = "add_mset k (global_refs s)"])
         (use w ref r m True in \<open>auto simp: resolve_waiting_def put_watch_def watch_ok_def watch_refs_def moves_def transitions_def\<close>)
  qed
qed (use watch_change_refl [OF assms] in \<open>auto simp: resolve_waiting_def split: option.splits\<close>)

lemma resolve_captured_change:
  assumes "watch_ready_to_run a s"
  shows "watch_change a s (resolve_captured vm k name loader a s)"
proof (cases "resolve_captured vm k name loader a s = s")
  case False
  then have cap: "w_state (watch_at s a) = WATCH_CAPTURED"
    by (auto simp: resolve_captured_def Let_def split: if_splits)
  have fails: "watch_change a s (fail_watch a f s)" for f
    using fail_watch_change [of s a f] assms cap by (simp add: watch_ready_to_run_def)
  show ?thesis
  proof (cases "method_id_of vm k (watch_at s a)")
    case None
    with False fails show ?thesis by (auto simp: resolve_captured_def Let_def split: if_splits)
  next
    case (Some m)
    obtain r s1 where r: "NewGlobalRef vm a k s = (r, s1)" by (metis surj_pair)
    from NewGlobalRef_cases [OF r] show ?thesis
    proof
      assume "r = None \<and> s1 = s"
      with r Some False fails show ?thesis by (auto simp: resolve_captured_def Let_def split: if_splits)
    next
      assume ref: "r = Some k \<and> s1 = s\<lparr>global_refs := add_mset k (global_refs s)\<rparr>"
      let ?w = "(watch_at s a)\<lparr>w_loader := None, w_class_name := None, w_method_name := None, w_signature := None,
          w_declaring := Some k, w_method := Some m, w_state := WATCH_READY\<rparr>"
      let ?g = "add_mset k (global_refs s) - opt_ref (w_loader (watch_at s a))"
      have w: "w_declaring (watch_at s a) = None" "opt_ref (w_loader (watch_at s a)) \<subseteq># global_refs s"
        using assms cap by (auto simp: watch_ready_to_run_def watch_ok_def watch_refs_def)
      then have g: "?g + opt_ref (w_loader (watch_at s a)) = add_mset k (global_refs s)"
        by (simp only: swap_ref)
      have eq: "resolve_captured vm k name loader a s = s\<lparr>watch_heap := (watch_heap s)(a \<mapsto> ?w), global_refs := ?g\<rparr>"
        using False ref r Some
        by (auto simp: resolve_captured_def Let_def release_candidate_def drop_ref_True put_watch_def watch_at_def
            split: if_splits)
      show ?thesis
        by (rule watch_changeI [OF eq])
           (use w g cap in \<open>auto simp: watch_ok_def watch_refs_def moves_def transitions_def\<close>)
    qed
  qed
qed (use watch_change_refl [OF assms] in simp)

lemma capture_candidate_change:
  assumes "watch_ready_to_run a s"
  shows "watch_change a s (capture_candidate mem vm loader cf a s)"
proof (cases "w_state (watch_at s a) = WATCH_WAITING \<and>
    bytecode_pattern_find_in_class_file (Some (w_pattern (watch_at s a))) (Some cf) \<noteq> None")
  case True
  then obtain i off where m: "bytecode_pattern_find_in_class_file (Some (w_pattern (watch_at s a))) (Some cf) = Some (i, off)"
    by auto
  have wait: "w_state (watch_at s a) = WATCH_WAITING" using True ..
  have w: "w_loader (watch_at s a) = None" "w_declaring (watch_at s a) = None"
    using assms wait by (auto simp: watch_ready_to_run_def watch_ok_def)
  let ?m = "items (cf_methods cf) ! i"
  obtain ref s1 where r: "(case loader of None \<Rightarrow> (None, s) | Some ob \<Rightarrow> NewGlobalRef vm a ob s) = (ref, s1)" by (metis surj_pair)
  then have s1: "s1 = s\<lparr>global_refs := global_refs s + opt_ref ref\<rparr>" "ref = loader \<or> ref = None"
    by (auto simp: NewGlobalRef_def split: option.splits if_splits)
  define w' where "w' = (watch_at s a)\<lparr>
      w_class_name := duplicate_text mem (class_file_name mem cf),
      w_method_name := duplicate_utf8 mem (cf_pool cf) (name_index ?m),
      w_signature := duplicate_utf8 mem (cf_pool cf) (descriptor_index ?m),
      w_static := member_info_is_static ?m,
      w_bootstrap := (loader = None), w_loader := ref, w_offset := off\<rparr>"
  have eq: "capture_candidate mem vm loader cf a s =
      (if w_class_name w' = None \<or> w_method_name w' = None \<or> w_signature w' = None \<or> (loader \<noteq> None \<and> w_loader w' = None)
       then fail_watch a JNI2HOOK_ERR_OUT_OF_MEMORY (put_watch a w' s1)
       else put_watch a (w'\<lparr>w_state := WATCH_CAPTURED\<rparr>) (put_watch a w' s1))"
    using wait m r s1(1) unfolding capture_candidate_def w'_def by (simp add: Let_def del: not_None_eq)
  have f: "w_state w' = WATCH_WAITING" "w_declaring w' = None" "w_registered w' = w_registered (watch_at s a)"
    "w_loader w' = ref" "w_bootstrap w' = (loader = None)"
    using wait w by (simp_all add: w'_def)
  show ?thesis
  proof (cases "w_class_name w' = None \<or> w_method_name w' = None \<or> w_signature w' = None \<or> (loader \<noteq> None \<and> w_loader w' = None)")
    case bad: True
    let ?w = "(released w')\<lparr>w_failure := JNI2HOOK_ERR_OUT_OF_MEMORY, w_state := WATCH_FAILED\<rparr>"
    have "capture_candidate mem vm loader cf a s = s\<lparr>watch_heap := (watch_heap s)(a \<mapsto> ?w), global_refs := global_refs s\<rparr>"
      using eq bad f s1(1) by (simp add: fail_watch_eq put_watch_def watch_at_def watch_refs_def)
    then show ?thesis
      by (rule watch_changeI) (use w f wait in \<open>auto simp: watch_ok_def watch_refs_def moves_def transitions_def\<close>)
  next
    case good: False
    have "capture_candidate mem vm loader cf a s =
        s\<lparr>watch_heap := (watch_heap s)(a \<mapsto> w'\<lparr>w_state := WATCH_CAPTURED\<rparr>), global_refs := global_refs s + opt_ref ref\<rparr>"
      unfolding eq if_not_P [OF good] s1(1) by (simp add: put_watch_def)
    then show ?thesis
      by (rule watch_changeI)
         (use w f wait good s1(2) in \<open>auto simp: watch_ok_def watch_refs_def moves_def transitions_def names_present_def\<close>)
  qed
qed (use watch_change_refl [OF assms] in \<open>auto simp: capture_candidate_def split: option.splits\<close>)

lemma resolve_loaded_change:
  assumes "watch_ready_to_run a s" "w_registered (watch_at s a)" "w_state (watch_at s a) \<noteq> WATCH_CANCELLED"
  shows "watch_change a s (snd (class_watch_resolve_loaded vm (Some a) m off s))"
proof (cases "snd (class_watch_resolve_loaded vm (Some a) m off s) = s")
  case False
  then obtain mm where mm: "m = Some mm" "env_available vm" "jvmti_bound s" "w_state (watch_at s a) \<noteq> WATCH_READY"
    by (auto simp: class_watch_resolve_loaded_def split: option.splits if_splits)
  have fails: "watch_change a s (fail_watch a f s)" for f
    using fail_watch_change [of s a f] assms mm(4) by (simp add: watch_ready_to_run_def)
  show ?thesis
  proof (cases "\<exists>d. GetMethodDeclaringClass vm mm = Inr (Some d)")
    case True
    then obtain d where d: "GetMethodDeclaringClass vm mm = Inr (Some d)" ..
    obtain r s1 where r: "NewGlobalRef vm a d s = (r, s1)" by (metis surj_pair)
    from NewGlobalRef_cases [OF r] show ?thesis
    proof
      assume "r = None \<and> s1 = s"
      with r d mm fails assms(2) show ?thesis by (simp add: class_watch_resolve_loaded_def)
    next
      assume ref: "r = Some d \<and> s1 = s\<lparr>global_refs := add_mset d (global_refs s)\<rparr>"
      let ?w = "(released (watch_at s a))\<lparr>w_declaring := Some d, w_method := Some mm, w_offset := off, w_state := WATCH_READY\<rparr>"
      let ?g = "add_mset d (global_refs s) - watch_refs (watch_at s a)"
      have eq: "snd (class_watch_resolve_loaded vm (Some a) m off s) =
          s\<lparr>watch_heap := (watch_heap s)(a \<mapsto> ?w), global_refs := ?g\<rparr>"
        using r d mm ref assms(2)
        by (simp add: class_watch_resolve_loaded_def release_both) (simp add: put_watch_def watch_at_def)
      have "?g + watch_refs (watch_at s a) = add_mset d (global_refs s)"
        using assms(1) by (simp only: swap_ref watch_ready_to_run_def)
      then show ?thesis
        by (intro watch_changeI [OF eq])
           (use assms(3) mm(4) in \<open>cases "w_state (watch_at s a)"; auto simp: watch_ok_def watch_refs_def moves_def transitions_def\<close>)+
    qed
  next
    case none: False
    with False mm fails assms(2) show ?thesis
      by (auto simp: class_watch_resolve_loaded_def split: sum.splits option.splits)
  qed
qed (use watch_change_refl [OF assms(1)] in simp)

section \<open>The invariant\<close>

definition watches_held :: "live_state \<Rightarrow> jobject multiset" where
  "watches_held s = sum_list (map (\<lambda>a. watch_refs (watch_at s a)) (g_watches s))"

definition cache_held :: "live_state \<Rightarrow> jobject multiset" where
  "cache_held s = mset (map cc_klass (g_entries s)) + opt_ref (g_capture_class s)"

definition live_inv :: "live_state \<Rightarrow> bool" where
  "live_inv s \<longleftrightarrow> distinct (g_watches s) \<and>
     (\<forall>a. a \<in> set (g_watches s) \<longleftrightarrow> (\<exists>w. watch_heap s a = Some w \<and> w_registered w)) \<and>
     (\<forall>a w. watch_heap s a = Some w \<longrightarrow> watch_ok w \<and> (w_registered w \<longleftrightarrow> w_state w \<noteq> WATCH_CANCELLED)) \<and>
     global_refs s = watches_held s + cache_held s \<and>
     distinct (map cc_klass (g_entries s)) \<and> length (g_entries s) \<le> g_capacity s"

lemma sum_list_update_at:
  fixes f g :: "'a \<Rightarrow> 'b multiset"
  assumes "distinct xs" "a \<in> set xs" "\<And>b. b \<noteq> a \<Longrightarrow> g b = f b"
  shows "sum_list (map g xs) + f a = sum_list (map f xs) + g a"
  using assms(1,2)
proof (induction xs)
  case (Cons x xs)
  show ?case
  proof (cases "x = a")
    case True
    with Cons.prems have "map g xs = map f xs" by (intro map_cong refl assms(3)) auto
    then have "sum_list (map g xs) = sum_list (map f xs)" by (simp only:)
    with True show ?thesis by (simp add: ac_simps)
  next
    case False
    with Cons assms(3) [OF False] show ?thesis by (simp add: add.assoc)
  qed
qed simp

lemma watch_at_heap: "watch_heap s a = Some w \<Longrightarrow> watch_at s a = w"
  by (simp add: watch_at_def)

lemma live_inv_ready:
  assumes "live_inv s" "a \<in> set (g_watches s)"
  shows "watch_ready_to_run a s" "w_registered (watch_at s a)" "w_state (watch_at s a) \<noteq> WATCH_CANCELLED"
proof -
  from assms obtain w where w: "watch_heap s a = Some w" "w_registered w" "watch_ok w" "w_state w \<noteq> WATCH_CANCELLED"
    by (auto simp: live_inv_def)
  have "watch_refs (watch_at s a) \<subseteq># watches_held s"
    using assms(2) by (auto simp: watches_held_def dest!: split_list)
  also have "\<dots> \<subseteq># global_refs s" using assms(1) by (simp add: live_inv_def)
  finally show "watch_ready_to_run a s" using w by (simp add: watch_ready_to_run_def watch_at_heap)
  show "w_registered (watch_at s a)" "w_state (watch_at s a) \<noteq> WATCH_CANCELLED" using w by (simp_all add: watch_at_heap)
qed

text \<open>Everything but the watches and the references stays as it is.\<close>

definition same_frame :: "live_state \<Rightarrow> live_state \<Rightarrow> bool" where
  "same_frame s s' \<longleftrightarrow> (\<exists>h g. s' = s\<lparr>watch_heap := h, global_refs := g\<rparr> \<and> dom h = dom (watch_heap s) \<and>
     (\<forall>a. moves (w_state (watch_at s a)) (w_state (watch_at s' a))))"

lemma moves_trans: "moves x y \<Longrightarrow> moves y z \<Longrightarrow> moves x z"
  by (auto simp: moves_def transitions_def)

lemma moves_refl [simp]: "moves x x"
  by (simp add: moves_def)

lemma same_frame_refl [simp]: "same_frame s s"
  unfolding same_frame_def by (intro exI [of _ "watch_heap s"] exI [of _ "global_refs s"]) simp

lemma same_frame_trans: "same_frame s t \<Longrightarrow> same_frame t u \<Longrightarrow> same_frame s u"
  unfolding same_frame_def
proof (elim exE conjE)
  fix h g h' g'
  assume t: "t = s\<lparr>watch_heap := h, global_refs := g\<rparr>" "dom h = dom (watch_heap s)"
      "\<forall>a. moves (w_state (watch_at s a)) (w_state (watch_at t a))"
    and u: "u = t\<lparr>watch_heap := h', global_refs := g'\<rparr>" "dom h' = dom (watch_heap t)"
      "\<forall>a. moves (w_state (watch_at t a)) (w_state (watch_at u a))"
  have "u = s\<lparr>watch_heap := h', global_refs := g'\<rparr>" "dom h' = dom (watch_heap s)" using t(1,2) u(1,2) by simp_all
  moreover have "\<forall>a. moves (w_state (watch_at s a)) (w_state (watch_at u a))" using t(3) u(3) moves_trans by blast
  ultimately show "\<exists>h g. u = s\<lparr>watch_heap := h, global_refs := g\<rparr> \<and> dom h = dom (watch_heap s) \<and>
      (\<forall>a. moves (w_state (watch_at s a)) (w_state (watch_at u a)))" by blast
qed

lemma same_frameD:
  assumes "same_frame s s'"
  shows "dom (watch_heap s') = dom (watch_heap s)" "\<forall>a. moves (w_state (watch_at s a)) (w_state (watch_at s' a))"
    "g_watches s' = g_watches s" "g_capture_class s' = g_capture_class s" "jvmti_bound s' = jvmti_bound s"
    "g_entries s' = g_entries s"
  using assms unfolding same_frame_def by (elim exE conjE; simp)+

lemma watch_change_frame:
  assumes "watch_change a s s'" "watch_ready_to_run a s"
  shows "same_frame s s'"
proof -
  from assms obtain w g where w: "s' = s\<lparr>watch_heap := (watch_heap s)(a \<mapsto> w), global_refs := g\<rparr>"
    "moves (w_state (watch_at s a)) (w_state w)" by (auto simp: watch_change_def)
  have "moves (w_state (watch_at s b)) (w_state (watch_at s' b))" for b
    using w by (simp add: watch_at_def)
  with w(1) assms(2) show ?thesis
    by (auto simp: same_frame_def watch_ready_to_run_def intro!: exI [of _ "(watch_heap s)(a \<mapsto> w)"] split: if_splits)
qed

lemma watch_change_inv:
  assumes "watch_change a s s'" "live_inv s" "a \<in> set (g_watches s)"
  shows "live_inv s'"
proof -
  note r = live_inv_ready [OF assms(2,3)]
  from assms(1) obtain w g where w: "s' = s\<lparr>watch_heap := (watch_heap s)(a \<mapsto> w), global_refs := g\<rparr>"
    "g + watch_refs (watch_at s a) = global_refs s + watch_refs w" "watch_ok w"
    "w_registered w = w_registered (watch_at s a)" "moves (w_state (watch_at s a)) (w_state w)"
    by (auto simp: watch_change_def)
  have at: "watch_at s' b = (if b = a then w else watch_at s b)" for b using w(1) by (simp add: watch_at_def)
  have state: "w_state w \<noteq> WATCH_CANCELLED" using w(5) r(3) by (auto simp: moves_def transitions_def)
  let ?r = "watch_refs (watch_at s a)"
  have held: "watches_held s' + ?r = watches_held s + watch_refs w"
    using sum_list_update_at [of "g_watches s" a "\<lambda>b. watch_refs (watch_at s' b)" "\<lambda>b. watch_refs (watch_at s b)"]
      assms(2,3) w(1) at by (simp add: watches_held_def live_inv_def)
  have "g + ?r = watches_held s + cache_held s + watch_refs w"
    using w(2) assms(2) by (simp add: live_inv_def)
  also have "\<dots> = (watches_held s + watch_refs w) + cache_held s'"
    using w(1) by (simp add: cache_held_def ac_simps)
  also have "\<dots> = (watches_held s' + cache_held s') + ?r" unfolding held [symmetric] by (simp add: ac_simps)
  finally have "g = watches_held s' + cache_held s'" by (rule add_right_imp_eq)
  moreover have "g_watches s' = g_watches s" "g_entries s' = g_entries s" "g_capacity s' = g_capacity s"
    "watch_heap s' = (watch_heap s)(a \<mapsto> w)" "global_refs s' = g" using w(1) by simp_all
  ultimately show ?thesis using assms(2,3) w(3,4) r(2) state unfolding live_inv_def by auto
qed

lemma fold_watches_inv:
  assumes "\<And>a s. watch_ready_to_run a s \<Longrightarrow> watch_change a s (f a s)"
    and "live_inv s" "set as \<subseteq> set (g_watches s)"
  shows "live_inv (fold f as s) \<and> same_frame s (fold f as s)"
  using assms(2,3)
proof (induction as arbitrary: s)
  case (Cons a as)
  have a: "a \<in> set (g_watches s)" using Cons.prems(2) by simp
  note r = live_inv_ready [OF Cons.prems(1) a]
  note c = assms(1) [OF r(1)]
  have fr: "same_frame s (f a s)" by (rule watch_change_frame [OF c r(1)])
  then have "g_watches (f a s) = g_watches s" by (auto simp: same_frame_def)
  with Cons.IH [OF watch_change_inv [OF c Cons.prems(1) a]] Cons.prems(2) fr show ?case
    by (auto intro: same_frame_trans)
qed simp

section \<open>Every operation keeps the invariant\<close>

lemma load_inv:
  assumes "live_inv s"
  shows "live_inv (class_watch_on_class_file_load mem vm loader bytes s) \<and>
    same_frame s (class_watch_on_class_file_load mem vm loader bytes s)"
  using assms fold_watches_inv [OF capture_candidate_change assms order_refl]
  by (auto simp: class_watch_on_class_file_load_def split: option.splits sum.splits)

lemma prepare_inv:
  assumes "live_inv s"
  shows "live_inv (class_watch_on_class_prepare mem vm klass s) \<and>
    same_frame s (class_watch_on_class_prepare mem vm klass s)"
proof (cases "klass = None \<or> \<not> env_available vm")
  case False
  then obtain k where k: "klass = Some k" "env_available vm" by auto
  let ?s = "fold (resolve_waiting mem vm k) (g_watches s) s"
  have i: "live_inv ?s \<and> same_frame s ?s" by (rule fold_watches_inv [OF resolve_waiting_change assms order_refl])
  have "live_inv (fold (resolve_captured vm k n l) (g_watches ?s) ?s) \<and>
      same_frame s (fold (resolve_captured vm k n l) (g_watches ?s) ?s)" for n l
    using fold_watches_inv [of "resolve_captured vm k n l", OF resolve_captured_change conjunct1 [OF i] order_refl]
      i same_frame_trans by blast
  with i k show ?thesis
    by (auto simp: class_watch_on_class_prepare_def Let_def split: option.splits sum.splits)
qed (use assms in \<open>auto simp: class_watch_on_class_prepare_def split: option.splits\<close>)

text \<open>The fields the invariant does not speak about.\<close>

lemma live_inv_irrelevant [simp]:
  "live_inv (s\<lparr>file_events := b\<rparr>) = live_inv s" "live_inv (s\<lparr>prepare_events := b\<rparr>) = live_inv s"
  "live_inv (s\<lparr>g_started := b\<rparr>) = live_inv s" "live_inv (s\<lparr>g_captured := b\<rparr>) = live_inv s"
  "live_inv (s\<lparr>g_watch_events := b\<rparr>) = live_inv s" "live_inv (s\<lparr>g_capture_name := n\<rparr>) = live_inv s"
  by (simp_all add: live_inv_def watches_held_def cache_held_def watch_at_def)

definition silenced :: "live_state \<Rightarrow> live_state" where
  "silenced s = s\<lparr>file_events := False, prepare_events := False, g_watch_events := False\<rparr>"

definition events_only :: "live_state \<Rightarrow> live_state \<Rightarrow> bool" where
  "events_only s s' \<longleftrightarrow> silenced s' = silenced s"

lemma events_only_refl [simp]: "events_only s s"
  by (simp add: events_only_def)

lemma events_only_trans: "events_only s t \<Longrightarrow> events_only t u \<Longrightarrow> events_only s u"
  by (simp add: events_only_def)

lemma silenced_set [simp]:
  "silenced (snd (SetEventNotificationMode vm e k s)) = silenced s" "silenced (s\<lparr>g_watch_events := b\<rparr>) = silenced s"
  by (cases k) (simp_all add: SetEventNotificationMode_def Let_def silenced_def)

lemma set_watch_events_only: "events_only s (snd (class_cache_set_watch_events vm e s))"
  by (simp add: events_only_def class_cache_set_watch_events_def Let_def case_prod_beta)

lemma silenced_fields [simp]:
  "live_inv (silenced s) = live_inv s" "g_watches (silenced s) = g_watches s" "watch_heap (silenced s) = watch_heap s"
  "g_capture_class (silenced s) = g_capture_class s" "global_refs (silenced s) = global_refs s"
  by (simp_all add: silenced_def)

lemma events_only_fields:
  assumes "events_only s s'"
  shows "live_inv s' = live_inv s" "g_watches s' = g_watches s" "watch_heap s' = watch_heap s"
    "g_capture_class s' = g_capture_class s" "global_refs s' = global_refs s" "watch_at s' = watch_at s"
proof -
  have e: "silenced s' = silenced s" using assms by (simp add: events_only_def)
  show h: "watch_heap s' = watch_heap s" using arg_cong [OF e, of watch_heap] by simp
  then show "watch_at s' = watch_at s" by (simp add: fun_eq_iff watch_at_def)
  show "live_inv s' = live_inv s" using arg_cong [OF e, of live_inv] by simp
  show "g_watches s' = g_watches s" using arg_cong [OF e, of g_watches] by simp
  show "g_capture_class s' = g_capture_class s" using arg_cong [OF e, of g_capture_class] by simp
  show "global_refs s' = global_refs s" using arg_cong [OF e, of global_refs] by simp
qed

subsection \<open>The cache\<close>

lemma find_entry_None: "find_entry True (Some k) s = None \<longleftrightarrow> k \<notin> cc_klass ` set (g_entries s)"
  by (auto simp: find_entry_def find_index_None)

text \<open>What the cache operations do to the watches: nothing.\<close>

definition same_watches :: "live_state \<Rightarrow> live_state \<Rightarrow> bool" where
  "same_watches s s' \<longleftrightarrow> watch_heap s' = watch_heap s \<and> g_watches s' = g_watches s \<and> g_capture_class s' = g_capture_class s"

lemma live_inv_cache_change:
  assumes "live_inv s" "same_watches s s'" "global_refs s' + mset (map cc_klass (g_entries s)) =
      global_refs s + mset (map cc_klass (g_entries s'))"
    "distinct (map cc_klass (g_entries s'))" "length (g_entries s') \<le> g_capacity s'"
  shows "live_inv s'"
proof -
  let ?m = "\<lambda>s. mset (map cc_klass (g_entries s))"
  have at: "watch_at s' = watch_at s" using assms(2) by (simp add: same_watches_def watch_at_def fun_eq_iff)
  have held: "watches_held s' = watches_held s" using assms(2) at by (simp add: watches_held_def same_watches_def)
  have c: "cache_held s' + ?m s = cache_held s + ?m s'" "g_capture_class s' = g_capture_class s"
    using assms(2) by (simp_all add: cache_held_def same_watches_def)
  have "global_refs s' + ?m s = watches_held s + cache_held s + ?m s'"
    using assms(1,3) by (simp add: live_inv_def)
  also have "\<dots> = (watches_held s' + cache_held s') + ?m s"
    using c(1) held by (simp add: ac_simps) 
  finally have "global_refs s' = watches_held s' + cache_held s'" by (rule add_right_imp_eq)
  with assms show ?thesis by (simp add: live_inv_def same_watches_def)
qed

lemma store_inv:
  assumes "live_inv s" "store mem vm k name bytes s = (ok, s')"
  shows "live_inv s' \<and> same_watches s s'"
proof (cases "s' = s")
  case False
  let ?c = "if length (g_entries s) = g_capacity s
      then if g_capacity s \<noteq> 0 then g_capacity s * 2 else 16 else g_capacity s"
  have new: "k \<notin> cc_klass ` set (g_entries s)" and "env_available vm"
    using False assms(2) find_entry_None [of k s] by (auto simp: store_def split: if_splits)
  have room: "length (g_entries s) < ?c" using assms(1) by (auto simp: live_inv_def)
  obtain r s1 where r: "NewGlobalRef vm cache_requester k (s\<lparr>g_capacity := ?c\<rparr>) = (r, s1)" by (metis surj_pair)
  have cases: "s' = s\<lparr>g_capacity := ?c\<rparr> \<or>
      s' = s\<lparr>g_capacity := ?c, global_refs := add_mset k (global_refs s),
             g_entries := g_entries s @ [\<lparr>cc_klass = k, cc_name = name, cc_bytes = bytes\<rparr>]\<rparr>"
    using False assms(2) r NewGlobalRef_cases [OF r]
    by (auto simp: store_def Let_def DeleteGlobalRef_def split: if_splits option.splits)
  then have sw: "same_watches s s'" by (auto simp: same_watches_def)
  show ?thesis
  proof (rule conjI [OF live_inv_cache_change [OF assms(1) sw] sw])
    show "distinct (map cc_klass (g_entries s'))" "length (g_entries s') \<le> g_capacity s'"
      using cases assms(1) new room by (auto simp: live_inv_def simp del: if_split)
  qed (use cases in auto)
qed (use assms(1) in \<open>simp add: same_watches_def\<close>)

lemma on_load_inv:
  assumes "live_inv s"
  shows "live_inv (on_class_file_load mem vm l s) \<and>
    g_capture_class (on_class_file_load mem vm l s) = g_capture_class s"
proof -
  have c: "live_inv (capture_load mem vm k n b s) \<and> g_capture_class (capture_load mem vm k n b s) = g_capture_class s" for k n b
  proof (cases "capture_load mem vm k n b s = s")
    case False
    obtain ok s' where st: "store mem vm k n b s = (ok, s')" by (metis surj_pair)
    with False have "capture_load mem vm k n b s = (if ok then s'\<lparr>g_captured := True\<rparr> else s')"
      by (auto simp: capture_load_def split: option.splits if_splits)
    with store_inv [OF assms st] show ?thesis by (simp add: same_watches_def)
  qed (simp add: assms)
  have "g_capture_class (class_watch_on_class_file_load mem vm x y s) = g_capture_class s" for x y
    using load_inv [OF assms, of mem vm x y] by (auto simp: same_frame_def)
  with c load_inv [OF assms] assms show ?thesis by (simp add: on_class_file_load_def split: option.splits)
qed

lemma fold_loads_inv:
  "live_inv s \<Longrightarrow> live_inv (fold (on_class_file_load mem vm) loads s) \<and>
     g_capture_class (fold (on_class_file_load mem vm) loads s) = g_capture_class s"
  by (induction loads arbitrary: s) (simp_all add: on_load_inv)

lemma retransform_inv:
  assumes "live_inv s" "retransform_capture mem vm k s = (e, s')"
  shows "live_inv s' \<and> g_capture_class s' = g_capture_class s"
proof -
  have ev: "events_only t (snd (SetEventNotificationMode vm b kind t))" for t b kind by (simp add: events_only_def)
  note f = events_only_fields [OF ev]
  let ?t = "snd (SetEventNotificationMode vm True JVMTI_EVENT_CLASS_FILE_LOAD_HOOK s)"
  have t: "live_inv ?t" "g_capture_class ?t = g_capture_class s" using f(1,4) assms(1) by simp_all
  have "s' = snd (retransform_capture mem vm k s)" using assms(2) by simp
  then show ?thesis
    using f(1,4) t fold_loads_inv [OF t(1), of mem vm]
    by (simp add: retransform_capture_def Let_def case_prod_beta)
qed

lemma capture_ref_inv:
  assumes "live_inv s" "g_capture_class s = None"
  shows "live_inv (s\<lparr>global_refs := add_mset k (global_refs s), g_capture_class := Some k\<rparr>)"
  using assms by (simp add: live_inv_def cache_held_def watches_held_def watch_at_def)

lemma capture_drop_inv:
  assumes "live_inv s" "g_capture_class s = Some k"
  shows "live_inv ((DeleteGlobalRef k s)\<lparr>g_capture_class := None, g_capture_name := None\<rparr>)"
  using assms by (simp add: live_inv_def cache_held_def watches_held_def watch_at_def DeleteGlobalRef_def)

lemma ensure_inv:
  assumes "live_inv s" "g_capture_class s = None"
  shows "live_inv (snd (class_cache_ensure mem vm klass name s)) \<and>
    g_capture_class (snd (class_cache_ensure mem vm klass name s)) = None"
proof (cases "snd (class_cache_ensure mem vm klass name s) = s")
  case False
  then obtain k where k: "klass = Some k" by (cases klass) (simp_all add: class_cache_ensure_def)
  obtain ok s1 where st: "class_cache_start vm s = (ok, s1)" by (metis surj_pair)
  then have s1: "live_inv s1" "g_capture_class s1 = None" using assms by (auto simp: class_cache_start_def split: if_splits)
  obtain r s2 where r: "NewGlobalRef vm cache_requester k s1 = (r, s2)" by (metis surj_pair)
  let ?s3 = "s1\<lparr>global_refs := add_mset k (global_refs s1), g_capture_class := Some k, g_capture_name := name, g_captured := False\<rparr>"
  obtain e s4 where e: "retransform_capture mem vm k ?s3 = (e, s4)" by (metis surj_pair)
  have "live_inv ?s3" using capture_ref_inv [OF s1, of k] by simp
  from retransform_inv [OF this e] have s4: "live_inv s4" "g_capture_class s4 = Some k" by simp_all
  note d = capture_drop_inv [OF s4]
  have "s1\<lparr>g_capture_class := None\<rparr> = s1" using s1(2) by (cases s1) simp
  then have "live_inv (s1\<lparr>g_capture_class := None\<rparr>)" using s1(1) by simp
  with False k st r e NewGlobalRef_cases [OF r] s1 d show ?thesis
    by (auto simp: class_cache_ensure_def Let_def split: if_splits bool.splits sum.splits)
qed (simp add: assms)

lemma forget_inv:
  assumes "live_inv s" "env_available vm"
  shows "live_inv (class_cache_forget vm env klass s)"
proof (cases "find_entry env klass s")
  case (Some i)
  then have i: "i < length (g_entries s)" by (auto simp: find_entry_def find_index_Some split: option.splits if_splits)
  let ?e = "g_entries s ! i" and ?es = "take i (g_entries s) @ drop (Suc i) (g_entries s)"
  have m: "g_entries s = take i (g_entries s) @ ?e # drop (Suc i) (g_entries s)" by (rule id_take_nth_drop [OF i])
  have ms: "mset (map cc_klass (g_entries s)) = add_mset (cc_klass ?e) (mset (map cc_klass ?es))" by (subst m) simp
  have eq: "class_cache_forget vm env klass s = s\<lparr>global_refs := global_refs s - {#cc_klass ?e#}, g_entries := ?es\<rparr>"
    using Some assms(2) by (simp add: class_cache_forget_def release_entry_def drop_ref_True)
  show ?thesis
  proof (rule live_inv_cache_change [OF assms(1)], goal_cases)
    case 1 show ?case unfolding eq by (simp add: same_watches_def)
  next
    case 2
    have "cc_klass ?e \<in># global_refs s" using assms(1) i by (simp add: live_inv_def cache_held_def)
    then show ?case unfolding eq ms by simp
  next
    case 3
    have "distinct (map cc_klass (take i (g_entries s) @ ?e # drop (Suc i) (g_entries s)))"
      using assms(1) m by (simp add: live_inv_def)
    then show ?case unfolding eq by simp
  next
    case 4
    have "length (g_entries s) \<le> g_capacity s" using assms(1) by (simp add: live_inv_def)
    with i show ?case unfolding eq by simp
  qed
qed (simp add: class_cache_forget_def assms)

lemma release_entries:
  "fold (release_entry True) es s = s\<lparr>global_refs := global_refs s - mset (map cc_klass es)\<rparr>"
  by (induction es arbitrary: s) (simp_all add: release_entry_def drop_ref_True)

lemma cache_clear_inv:
  assumes "live_inv s" "env_available vm"
  shows "live_inv (class_cache_clear vm s)"
proof -
  have eq: "class_cache_clear vm s = s\<lparr>global_refs := global_refs s - mset (map cc_klass (g_entries s)), g_entries := [],
      g_capacity := 0, g_captured := False\<rparr>"
    using assms(2) release_entries [of "g_entries s" s] by (simp add: class_cache_clear_def)
  show ?thesis
    by (rule live_inv_cache_change [OF assms(1)])
       (use assms(1) in \<open>auto simp: eq same_watches_def live_inv_def cache_held_def\<close>)
qed

subsection \<open>Registration\<close>

lemma register_inv:
  assumes "live_inv s" "watch_heap s a = None" "w_state w = WATCH_WAITING" "watch_ok w" "w_registered w"
  shows "live_inv (put_watch a w (s\<lparr>g_watches := a # g_watches s\<rparr>))" (is "live_inv ?s")
proof -
  have a: "a \<notin> set (g_watches s)" using assms(1,2) by (auto simp: live_inv_def)
  have "watches_held ?s = watch_refs w + watches_held s"
    using a by (auto simp: watches_held_def put_watch_def watch_at_def intro!: arg_cong [of _ _ sum_list])
  moreover have "watch_refs w = {#}" using assms(3,4) by (simp add: watch_ok_def watch_refs_def)
  moreover have "cache_held ?s = cache_held s" by (simp add: cache_held_def put_watch_def)
  ultimately show ?thesis using assms a by (auto simp: live_inv_def put_watch_def)
qed

lemma unregister_inv:
  assumes "live_inv s" "watch_heap s a = Some w" "w_registered w"
  shows "live_inv (s\<lparr>g_watches := remove1 a (g_watches s), watch_heap := (watch_heap s)(a := None),
    global_refs := global_refs s - watch_refs w\<rparr>)" (is "live_inv ?s")
proof -
  have a: "a \<in> set (g_watches s)" "distinct (g_watches s)" using assms by (auto simp: live_inv_def)
  have r: "\<And>b. b \<in> set (remove1 a (g_watches s)) \<longleftrightarrow> b \<in> set (g_watches s) \<and> b \<noteq> a" using a(2) by simp
  have "watches_held ?s = sum_list (map (\<lambda>b. watch_refs (watch_at s b)) (remove1 a (g_watches s)))"
    unfolding watches_held_def using a(2) by (auto simp: watch_at_def intro!: arg_cong [of _ _ sum_list])
  then have held: "watches_held s = watch_refs w + watches_held ?s"
    using sum_list_map_remove1 [OF a(1), of "\<lambda>b. watch_refs (watch_at s b)"] assms(2)
    by (simp add: watches_held_def watch_at_heap)
  have "global_refs s = watches_held s + cache_held ?s" using assms(1) by (simp add: live_inv_def cache_held_def)
  also have "\<dots> = watch_refs w + (watches_held ?s + cache_held ?s)" unfolding held by (simp only: add.assoc)
  finally have "global_refs s - watch_refs w = watches_held ?s + cache_held ?s" by (metis add_diff_cancel_left')
  moreover have "global_refs ?s = global_refs s - watch_refs w" by simp
  ultimately have "global_refs ?s = watches_held ?s + cache_held ?s" by (simp only:)
  moreover have "distinct (g_watches ?s)" "distinct (map cc_klass (g_entries ?s))" "length (g_entries ?s) \<le> g_capacity ?s"
    "\<forall>b. b \<in> set (g_watches ?s) \<longleftrightarrow> (\<exists>w. watch_heap ?s b = Some w \<and> w_registered w)"
    "\<forall>b v. watch_heap ?s b = Some v \<longrightarrow> watch_ok v \<and> (w_registered v \<longleftrightarrow> w_state v \<noteq> WATCH_CANCELLED)"
    using assms(1) a r by (auto simp: live_inv_def)
  ultimately show ?thesis unfolding live_inv_def by (intro conjI)
qed

lemma free_unregistered_inv:
  assumes "live_inv s" "\<not> (\<exists>w. watch_heap s a = Some w \<and> w_registered w)"
  shows "live_inv (s\<lparr>watch_heap := (watch_heap s)(a := None)\<rparr>)" (is "live_inv ?s")
proof -
  have a: "a \<notin> set (g_watches s)" using assms by (auto simp: live_inv_def)
  then have "watches_held ?s = watches_held s"
    by (auto simp: watches_held_def watch_at_def intro!: arg_cong [of _ _ sum_list])
  moreover have "cache_held ?s = cache_held s" by (simp add: cache_held_def)
  ultimately show ?thesis using assms a by (auto simp: live_inv_def)
qed

lemma destroy_eq:
  assumes "watch_heap s a = Some w"
  shows "\<exists>t. events_only (if w_registered w then s\<lparr>g_watches := remove1 a (g_watches s)\<rparr> else s) t \<and>
    class_watch_destroy vm True (Some a) s =
      t\<lparr>watch_heap := (watch_heap s)(a := None), global_refs := global_refs s - watch_refs w\<rparr>"
proof -
  let ?u = "if w_registered w then put_watch a (w\<lparr>w_registered := False\<rparr>) (s\<lparr>g_watches := remove1 a (g_watches s)\<rparr>) else s"
  let ?v = "if g_watches ?u = [] then snd (class_cache_set_watch_events vm False ?u) else ?u"
  have ev: "events_only ?u ?v" using set_watch_events_only by simp
  note f = events_only_fields [OF ev]
  have "class_watch_destroy vm True (Some a) s =
      (release_ready True a (release_candidate True a ?v))\<lparr>watch_heap := (watch_heap (release_ready True a (release_candidate True a ?v)))(a := None)\<rparr>"
    using assms by (simp add: class_watch_destroy_def watch_at_heap Let_def)
  also have "\<dots> = ?v\<lparr>watch_heap := (watch_heap s)(a := None), global_refs := global_refs s - watch_refs w\<rparr>"
    unfolding release_both using f(3,5,6) assms by (simp add: put_watch_def watch_at_def watch_refs_def)
  finally have d: "class_watch_destroy vm True (Some a) s =
      (?v\<lparr>watch_heap := watch_heap s\<rparr>)\<lparr>watch_heap := (watch_heap s)(a := None), global_refs := global_refs s - watch_refs w\<rparr>"
    by simp
  have "events_only (if w_registered w then s\<lparr>g_watches := remove1 a (g_watches s)\<rparr> else s) (?v\<lparr>watch_heap := watch_heap s\<rparr>)"
  proof -
    have "silenced (?v\<lparr>watch_heap := watch_heap s\<rparr>) = (silenced ?v)\<lparr>watch_heap := watch_heap s\<rparr>" by (simp add: silenced_def)
    also have "\<dots> = (silenced ?u)\<lparr>watch_heap := watch_heap s\<rparr>" using ev by (simp add: events_only_def)
    also have "\<dots> = silenced (if w_registered w then s\<lparr>g_watches := remove1 a (g_watches s)\<rparr> else s)"
      by (simp add: silenced_def put_watch_def)
    finally show ?thesis by (simp add: events_only_def)
  qed
  with d show ?thesis by blast
qed

lemma destroy_inv:
  assumes "live_inv s" "watch_heap s a = Some w"
  shows "live_inv (class_watch_destroy vm True (Some a) s)"
    "g_capture_class (class_watch_destroy vm True (Some a) s) = g_capture_class s"
proof -
  obtain t where t: "events_only (if w_registered w then s\<lparr>g_watches := remove1 a (g_watches s)\<rparr> else s) t"
    "class_watch_destroy vm True (Some a) s = t\<lparr>watch_heap := (watch_heap s)(a := None), global_refs := global_refs s - watch_refs w\<rparr>"
    using destroy_eq [OF assms(2)] by blast
  let ?s = "(if w_registered w then s\<lparr>g_watches := remove1 a (g_watches s)\<rparr> else s)
      \<lparr>watch_heap := (watch_heap s)(a := None), global_refs := global_refs s - watch_refs w\<rparr>"
  have ev: "events_only ?s (class_watch_destroy vm True (Some a) s)"
  proof -
    have "silenced (t\<lparr>watch_heap := h, global_refs := g\<rparr>) = (silenced t)\<lparr>watch_heap := h, global_refs := g\<rparr>" for t h g
      by (simp add: silenced_def)
    with t show ?thesis by (simp add: events_only_def del: if_split)
  qed
  have "live_inv ?s"
  proof (cases "w_registered w")
    case True
    with unregister_inv [OF assms True] show ?thesis by simp
  next
    case False
    then have "watch_refs w = {#}"
      using assms by (auto simp: live_inv_def watch_ok_def watch_refs_def split: watch_state.splits)
    moreover have "live_inv (s\<lparr>watch_heap := (watch_heap s)(a := None)\<rparr>)"
      by (rule free_unregistered_inv [OF assms(1)]) (use assms(2) False in auto)
    ultimately show ?thesis using False by simp
  qed
  with events_only_fields [OF ev] show "live_inv (class_watch_destroy vm True (Some a) s)"
    "g_capture_class (class_watch_destroy vm True (Some a) s) = g_capture_class s" by simp_all
qed

lemma create_inv:
  assumes "live_inv s" "watch_heap s a = None"
  shows "live_inv (snd (class_watch_create mem vm (Some a) pattern s)) \<and>
    g_capture_class (snd (class_watch_create mem vm (Some a) pattern s)) = g_capture_class s"
proof (cases "snd (class_watch_create mem vm (Some a) pattern s) = s")
  case False
  then obtain p where p: "bytecode_pattern_compile mem pattern = (JNI2HOOK_OK, p)" "env_available vm"
    by (auto simp: class_watch_create_def split: if_splits prod.splits)
  let ?w = "watch_zero\<lparr>w_pattern := p, w_state := WATCH_WAITING, w_failure := JNI2HOOK_OK\<rparr>\<lparr>w_registered := True\<rparr>"
  let ?s = "put_watch a ?w (s\<lparr>g_watches := a # g_watches s\<rparr>)"
  have i: "live_inv ?s" by (rule register_inv [OF assms]) (simp_all add: watch_zero_def watch_ok_def)
  obtain ok t where t: "class_cache_set_watch_events vm True ?s = (ok, t)" by (metis surj_pair)
  have ev: "events_only ?s t" using set_watch_events_only [of ?s vm True] t by simp
  note f = events_only_fields [OF ev]
  have "live_inv (t\<lparr>g_watches := tl (g_watches t), watch_heap := (watch_heap t)(a := None)\<rparr>)"
  proof -
    have "live_inv t" "watch_heap t a = Some ?w" using i f by (simp_all add: put_watch_def)
    from unregister_inv [OF this] f(2) show ?thesis
      by (simp add: put_watch_def watch_refs_def watch_zero_def)
  qed
  with p t i f show ?thesis
    by (cases ok) (simp_all add: class_watch_create_def put_watch_def)
qed (simp add: assms)

lemma create_named_inv:
  assumes "live_inv s" "watch_heap s a = None"
  shows "live_inv (snd (class_watch_create_named mem vm (Some a) c m sg st s)) \<and>
    g_capture_class (snd (class_watch_create_named mem vm (Some a) c m sg st s)) = g_capture_class s"
proof (cases "snd (class_watch_create_named mem vm (Some a) c m sg st s) = s")
  case False
  let ?w0 = "watch_zero\<lparr>w_by_name := True, w_class_name := duplicate_text mem c,
      w_method_name := duplicate_text mem m, w_signature := duplicate_text mem sg,
      w_static := st, w_state := WATCH_WAITING, w_failure := JNI2HOOK_OK\<rparr>"
  let ?w = "?w0\<lparr>w_registered := True\<rparr>"
  let ?s = "put_watch a ?w (s\<lparr>g_watches := a # g_watches s\<rparr>)"
  have n: "duplicate_text mem c \<noteq> None" "duplicate_text mem m \<noteq> None" "duplicate_text mem sg \<noteq> None"
    "env_available vm" "c \<noteq> None" "m \<noteq> None" "sg \<noteq> None"
    using False by (auto simp: class_watch_create_named_def Let_def split: if_splits)
  have i: "live_inv ?s"
    by (rule register_inv [OF assms]) (use n in \<open>simp_all add: watch_zero_def watch_ok_def names_present_def\<close>)
  obtain ok t where t: "class_cache_set_watch_events vm True ?s = (ok, t)" by (metis surj_pair)
  have ev: "events_only ?s t" using set_watch_events_only [of ?s vm True] t by simp
  note f = events_only_fields [OF ev]
  have "live_inv t" "watch_heap t a = Some ?w" "g_capture_class t = g_capture_class s"
    using i f by (simp_all add: put_watch_def)
  with destroy_inv [of t a ?w vm] n t show ?thesis
    by (cases ok) (auto simp: class_watch_create_named_def Let_def)
qed (simp add: assms)

lemma cancel_fold:
  "distinct as \<Longrightarrow> fold (cancel_watch True) as s =
     s\<lparr>watch_heap := (\<lambda>b. if b \<in> set as then Some ((released (watch_at s b))\<lparr>w_registered := False, w_state := WATCH_CANCELLED\<rparr>)
                          else watch_heap s b),
       global_refs := global_refs s - sum_list (map (\<lambda>a. watch_refs (watch_at s a)) as)\<rparr>"
proof (induction as arbitrary: s)
  case (Cons a as)
  let ?c = "\<lambda>b. (released (watch_at s b))\<lparr>w_registered := False, w_state := WATCH_CANCELLED\<rparr>"
  let ?s = "s\<lparr>watch_heap := (watch_heap s)(a \<mapsto> ?c a), global_refs := global_refs s - watch_refs (watch_at s a)\<rparr>"
  define s1 where "s1 = ?s"
  have c: "cancel_watch True a s = s1"
    unfolding cancel_watch_def release_both Let_def s1_def by (simp add: put_watch_def watch_at_def)
  have at: "b \<in> set as \<Longrightarrow> watch_at s1 b = watch_at s b" for b using Cons.prems by (auto simp: s1_def watch_at_def)
  have h: "(\<lambda>b. if b \<in> set as then Some ((released (watch_at s1 b))\<lparr>w_registered := False, w_state := WATCH_CANCELLED\<rparr>)
      else watch_heap s1 b) = (\<lambda>b. if b \<in> set (a # as) then Some (?c b) else watch_heap s b)"
    using at Cons.prems by (auto simp: fun_eq_iff s1_def)
  have r: "map (\<lambda>a. watch_refs (watch_at s1 a)) as = map (\<lambda>a. watch_refs (watch_at s a)) as" using at by simp
  have "fold (cancel_watch True) (a # as) s = fold (cancel_watch True) as s1" by (simp add: c)
  also have "\<dots> = s1\<lparr>watch_heap := (\<lambda>b. if b \<in> set (a # as) then Some (?c b) else watch_heap s b),
      global_refs := global_refs s1 - sum_list (map (\<lambda>a. watch_refs (watch_at s a)) as)\<rparr>"
    using Cons.IH [of s1] Cons.prems unfolding h r by simp
  finally show ?case by (simp add: s1_def)
qed simp

lemma watch_clear_inv:
  assumes "live_inv s"
  shows "live_inv (class_watch_clear True s)" (is "live_inv ?s")
proof -
  have d: "distinct (g_watches s)" using assms by (simp add: live_inv_def)
  note eq = class_watch_clear_def cancel_fold [OF d, of "s\<lparr>g_watches := []\<rparr>"]
  have at: "watch_at (s\<lparr>g_watches := []\<rparr>) = watch_at s" by (simp add: fun_eq_iff watch_at_def)
  have "global_refs ?s = global_refs s - watches_held s" by (simp add: eq at watches_held_def)
  moreover have "watches_held ?s = {#}" "cache_held ?s = cache_held s" by (simp_all add: eq watches_held_def cache_held_def)
  moreover have "global_refs s = watches_held s + cache_held s" using assms by (simp add: live_inv_def)
  ultimately have "global_refs ?s = watches_held ?s + cache_held ?s" by simp
  moreover have "g_watches ?s = []" "g_entries ?s = g_entries s" "g_capacity ?s = g_capacity s" by (simp_all add: eq)
  moreover have "\<not> w_registered w \<and> watch_ok w \<and> w_state w = WATCH_CANCELLED" if "watch_heap ?s b = Some w" for b w
  proof (cases "b \<in> set (g_watches s)")
    case True
    with that show ?thesis by (auto simp: eq watch_ok_def)
  next
    case False
    with that have b: "watch_heap s b = Some w" by (simp add: eq)
    with False assms have "\<not> w_registered w" unfolding live_inv_def by blast
    with b assms show ?thesis unfolding live_inv_def by blast
  qed
  ultimately show ?thesis using assms unfolding live_inv_def by auto
qed

section \<open>The state machine\<close>

text \<open>
  One step is one entry point: an API call, or a callback of the VM. The addresses of new
  watches are fresh, the others are allocated, and references are released on threads
  that are attached to the VM.
\<close>

inductive live_step :: "live_state \<Rightarrow> live_state \<Rightarrow> bool" where
  step_create: "watch_heap s a = None \<Longrightarrow> live_step s (snd (class_watch_create mem vm (Some a) pattern s))"
| step_create_named: "watch_heap s a = None \<Longrightarrow> live_step s (snd (class_watch_create_named mem vm (Some a) c m sg st s))"
| step_resolve: "watch_heap s a = Some w \<Longrightarrow> live_step s (snd (class_watch_resolve_loaded vm (Some a) m off s))"
| step_destroy: "watch_heap s a = Some w \<Longrightarrow> live_step s (class_watch_destroy vm True (Some a) s)"
| step_load: "live_step s (on_class_file_load mem vm l s)"
| step_prepare: "live_step s (on_class_prepare mem vm klass s)"
| step_watch_clear: "live_step s (class_watch_clear True s)"
| step_start: "live_step s (snd (class_cache_start vm s))"
| step_stop: "live_step s (class_cache_stop vm s)"
| step_ensure: "live_step s (snd (class_cache_ensure mem vm klass name s))"
| step_forget: "env_available vm \<Longrightarrow> live_step s (class_cache_forget vm True klass s)"
| step_cache_clear: "env_available vm \<Longrightarrow> live_step s (class_cache_clear vm s)"

definition live_init :: live_state where
  "live_init = \<lparr>jvmti_bound = True, file_events = False, prepare_events = False, global_refs = {#},
     g_entries = [], g_capacity = 0, g_capture_class = None, g_capture_name = None, g_captured = False,
     g_started = False, g_watch_events = False, watch_heap = (\<lambda>_. None), g_watches = []\<rparr>"

inductive live_reachable :: "live_state \<Rightarrow> bool" where
  reach_init: "live_reachable live_init"
| reach_step: "live_reachable s \<Longrightarrow> live_step s s' \<Longrightarrow> live_reachable s'"

lemma resolve_unregistered:
  "\<not> w_registered (watch_at s a) \<Longrightarrow> snd (class_watch_resolve_loaded vm (Some a) m off s) = s"
  by (simp add: class_watch_resolve_loaded_def split: option.splits)

lemma resolve_inv:
  assumes "live_inv s"
  shows "live_inv (snd (class_watch_resolve_loaded vm (Some a) m off s)) \<and>
    same_frame s (snd (class_watch_resolve_loaded vm (Some a) m off s))"
proof (cases "a \<in> set (g_watches s)")
  case True
  note r = live_inv_ready [OF assms True]
  note c = resolve_loaded_change [OF r, of vm m off]
  from watch_change_inv [OF c assms True] watch_change_frame [OF c r(1)] show ?thesis by blast
next
  case False
  then have "\<not> w_registered (watch_at s a)"
    using assms by (auto simp: live_inv_def watch_at_def watch_zero_def split: option.splits)
  with resolve_unregistered assms show ?thesis by simp
qed

lemma stop_inv:
  "live_inv s \<Longrightarrow> live_inv (class_cache_stop vm s)" "g_capture_class (class_cache_stop vm s) = g_capture_class s"
proof -
  have ev: "events_only t (snd (SetEventNotificationMode vm b kind t))" for t b kind by (simp add: events_only_def)
  show "live_inv s \<Longrightarrow> live_inv (class_cache_stop vm s)" "g_capture_class (class_cache_stop vm s) = g_capture_class s"
    using events_only_fields(1,4) [OF ev] by (simp_all add: class_cache_stop_def Let_def)
qed

lemma live_step_inv:
  assumes "live_step s s'" "live_inv s" "g_capture_class s = None"
  shows "live_inv s' \<and> g_capture_class s' = None"
  using assms
proof (induction rule: live_step.induct)
  case (step_resolve s a w vm m off)
  with resolve_inv [of s vm a m off] show ?case by (auto simp: same_frame_def)
next
  case (step_prepare s mem vm klass)
  with prepare_inv [of s mem vm klass] show ?case by (auto simp: same_frame_def on_class_prepare_def)
next
  case (step_watch_clear s)
  moreover have "g_capture_class (class_watch_clear True s) = None"
    using step_watch_clear cancel_fold [of "g_watches s" "s\<lparr>g_watches := []\<rparr>"] by (simp add: class_watch_clear_def live_inv_def)
  ultimately show ?case using watch_clear_inv by blast
next
  case (step_forget vm s klass)
  then show ?case using forget_inv [of s vm]
    by (auto simp: class_cache_forget_def release_entry_def drop_ref_True split: option.splits)
next
  case (step_cache_clear vm s)
  then show ?case using cache_clear_inv [of s vm] release_entries by (simp add: class_cache_clear_def)
qed (simp_all add: create_inv create_named_inv destroy_inv on_load_inv stop_inv ensure_inv class_cache_start_def)

lemma live_reachable_live_inv: "live_reachable s \<Longrightarrow> live_inv s \<and> g_capture_class s = None"
proof (induction rule: live_reachable.induct)
  case reach_init
  show ?case by (simp add: live_init_def live_inv_def watches_held_def cache_held_def)
next
  case (reach_step s s')
  with live_step_inv show ?case by blast
qed

section \<open>How one watch and one cache entry fare\<close>

lemma on_load_watches:
  assumes "live_inv s"
  shows "dom (watch_heap (on_class_file_load mem vm l s)) = dom (watch_heap s) \<and>
    (\<forall>a. moves (w_state (watch_at s a)) (w_state (watch_at (on_class_file_load mem vm l s) a)))"
proof -
  have c: "watch_heap (capture_load mem vm k n b s) = watch_heap s" for k n b
  proof (cases "capture_load mem vm k n b s = s")
    case False
    obtain ok s' where st: "store mem vm k n b s = (ok, s')" by (metis surj_pair)
    with False have "capture_load mem vm k n b s = (if ok then s'\<lparr>g_captured := True\<rparr> else s')"
      by (auto simp: capture_load_def split: option.splits if_splits)
    with store_inv [OF assms st] show ?thesis by (simp add: same_watches_def)
  qed simp
  then have "watch_at (capture_load mem vm k n b s) = watch_at s" for k n b by (simp add: watch_at_def fun_eq_iff)
  moreover note l = conjunct2 [OF load_inv [OF assms]]
  ultimately show ?thesis
    using c same_frameD(1,2) [OF l] by (simp add: on_class_file_load_def split: option.splits)
qed

lemma fold_loads_watches:
  "live_inv s \<Longrightarrow> dom (watch_heap (fold (on_class_file_load mem vm) loads s)) = dom (watch_heap s) \<and>
    (\<forall>a. moves (w_state (watch_at s a)) (w_state (watch_at (fold (on_class_file_load mem vm) loads s) a)))"
proof (induction loads arbitrary: s)
  case (Cons l loads)
  note s = on_load_watches [OF Cons.prems, of mem vm l]
  from Cons.IH [OF conjunct1 [OF on_load_inv [OF Cons.prems, of mem vm l]]] s moves_trans show ?case
    by (simp, blast)
qed simp

lemma retransform_watches:
  assumes "live_inv t"
  shows "moves (w_state (watch_at t a)) (w_state (watch_at (snd (retransform_capture mem vm k t)) a))"
proof -
  have ev: "events_only t (snd (SetEventNotificationMode vm b kind t))" for t b kind by (simp add: events_only_def)
  note f = events_only_fields [OF ev]
  let ?u = "snd (SetEventNotificationMode vm True JVMTI_EVENT_CLASS_FILE_LOAD_HOOK t)"
  have u: "live_inv ?u" "watch_at ?u = watch_at t" using f(1,6) assms by simp_all
  from fold_loads_watches [OF u(1), of mem vm] f(6) u(2) show ?thesis
    by (simp add: retransform_capture_def Let_def case_prod_beta)
qed

lemma ensure_watches:
  assumes "live_inv s" "g_capture_class s = None"
  shows "moves (w_state (watch_at s a)) (w_state (watch_at (snd (class_cache_ensure mem vm klass name s)) a))"
proof (cases "snd (class_cache_ensure mem vm klass name s) = s")
  case False
  then obtain k where k: "klass = Some k" by (cases klass) (simp_all add: class_cache_ensure_def)
  obtain ok s1 where st: "class_cache_start vm s = (ok, s1)" by (metis surj_pair)
  then have s1: "live_inv s1" "g_capture_class s1 = None" "watch_heap s1 = watch_heap s"
    using assms by (auto simp: class_cache_start_def split: if_splits)
  obtain r s2 where r: "NewGlobalRef vm cache_requester k s1 = (r, s2)" by (metis surj_pair)
  let ?s3 = "s1\<lparr>global_refs := add_mset k (global_refs s1), g_capture_class := Some k, g_capture_name := name, g_captured := False\<rparr>"
  obtain e s4 where e: "retransform_capture mem vm k ?s3 = (e, s4)" by (metis surj_pair)
  have at: "watch_at s1 = watch_at s" "watch_at ?s3 = watch_at s" using s1(3) by (simp_all add: watch_at_def fun_eq_iff)
  have "live_inv ?s3" using capture_ref_inv [OF s1(1,2), of k] by simp
  from retransform_watches [OF this, of a mem vm k] e at(2) have s4: "moves (w_state (watch_at s a)) (w_state (watch_at s4 a))"
    by simp
  have up: "watch_at (DeleteGlobalRef k s4\<lparr>g_capture_class := None, g_capture_name := None\<rparr>) = watch_at s4"
    "watch_at (s1\<lparr>g_capture_class := c, g_capture_name := name, g_captured := b\<rparr>) = watch_at s1" for c b
    by (simp_all add: watch_at_def DeleteGlobalRef_def fun_eq_iff)
  from k st r e NewGlobalRef_cases [OF r] s4 at(1) show ?thesis
    by (auto simp: class_cache_ensure_def Let_def up split: if_splits bool.splits sum.splits)
qed simp

lemma destroy_heap: "watch_heap s a = Some w \<Longrightarrow> watch_heap (class_watch_destroy vm True (Some a) s) = (watch_heap s)(a := None)"
  using destroy_eq [of s a w vm] by auto

lemma set_watch_events_heap: "watch_heap (snd (class_cache_set_watch_events vm e s)) = watch_heap s"
  using events_only_fields(3) [OF set_watch_events_only] .

lemma create_heap: "x \<noteq> a \<Longrightarrow> watch_heap (snd (class_watch_create mem vm (Some a) pattern s)) x = watch_heap s x"
  using set_watch_events_heap [of vm True]
  by (auto simp: class_watch_create_def Let_def put_watch_def case_prod_beta split: bool.splits)

lemma create_named_heap:
  assumes "x \<noteq> a"
  shows "watch_heap (snd (class_watch_create_named mem vm (Some a) c m sg st s)) x = watch_heap s x"
proof (cases "snd (class_watch_create_named mem vm (Some a) c m sg st s) = s")
  case False
  let ?w = "watch_zero\<lparr>w_by_name := True, w_class_name := duplicate_text mem c,
      w_method_name := duplicate_text mem m, w_signature := duplicate_text mem sg,
      w_static := st, w_state := WATCH_WAITING, w_failure := JNI2HOOK_OK\<rparr>\<lparr>w_registered := True\<rparr>"
  let ?s = "put_watch a ?w (s\<lparr>g_watches := a # g_watches s\<rparr>)"
  obtain ok t where t: "class_cache_set_watch_events vm True ?s = (ok, t)" by (metis surj_pair)
  have h: "watch_heap t = (watch_heap s)(a \<mapsto> ?w)"
    using set_watch_events_heap [of vm True ?s] t by (simp add: put_watch_def)
  have "snd (class_watch_create_named mem vm (Some a) c m sg st s) = (if ok then t else class_watch_destroy vm True (Some a) t)"
    using False t by (auto simp: class_watch_create_named_def Let_def split: bool.splits if_splits)
  with h assms destroy_heap [of t a ?w vm] show ?thesis by auto
qed simp

lemma same_frame_moves:
  "same_frame s s' \<Longrightarrow> watch_heap s a = Some w \<Longrightarrow> watch_heap s' a = Some w' \<Longrightarrow> moves (w_state w) (w_state w')"
  by (metis same_frame_def watch_at_heap)

lemma live_step_moves:
  assumes "live_step s s'" "live_inv s" "g_capture_class s = None" "watch_heap s a = Some w" "watch_heap s' a = Some w'"
  shows "moves (w_state w) (w_state w') \<or> w_state w' = WATCH_CANCELLED"
  using assms
proof (induction rule: live_step.induct)
  case (step_create s b mem vm pattern)
  then have "w' = w" using create_heap [of a b mem vm pattern s] by (cases "a = b") auto
  then show ?case by simp
next
  case (step_create_named s b mem vm c m sg st)
  then have "w' = w" using create_named_heap [of a b mem vm c m sg st s] by (cases "a = b") auto
  then show ?case by simp
next
  case (step_resolve s b v vm m off)
  then show ?case using resolve_inv [of s vm b m off] same_frame_moves by blast
next
  case (step_destroy s b v vm)
  then have "w' = w" by (auto simp: destroy_heap split: if_splits)
  then show ?case by simp
next
  case (step_load s mem vm l)
  then show ?case using on_load_watches [of s mem vm l] watch_at_heap by metis
next
  case (step_prepare s mem vm klass)
  then show ?case using prepare_inv [of s mem vm klass] same_frame_moves unfolding on_class_prepare_def by blast
next
  case (step_watch_clear s)
  then have "distinct (g_watches s)" by (simp add: live_inv_def)
  with step_watch_clear show ?case
    by (auto simp: class_watch_clear_def cancel_fold split: if_splits)
next
  case (step_start s vm)
  then show ?case by (auto simp: class_cache_start_def split: if_splits)
next
  case (step_stop s vm)
  have "events_only t (snd (SetEventNotificationMode vm b kind t))" for t b kind by (simp add: events_only_def)
  from events_only_fields(3) [OF this] step_stop show ?case by (auto simp: class_cache_stop_def Let_def split: if_splits)
next
  case (step_ensure s mem vm klass name)
  then show ?case using ensure_watches [of s a mem vm klass name] watch_at_heap by metis
next
  case (step_forget vm s klass)
  then show ?case by (auto simp: class_cache_forget_def release_entry_def drop_ref_True split: option.splits)
next
  case (step_cache_clear vm s)
  then show ?case by (auto simp: class_cache_clear_def release_entries)
qed

section \<open>From capture to resolution\<close>

lemma watch_change_other: "watch_change b s s' \<Longrightarrow> a \<noteq> b \<Longrightarrow> watch_heap s' a = watch_heap s a"
  by (auto simp: watch_change_def)

lemma fold_other:
  assumes "\<And>a s. watch_ready_to_run a s \<Longrightarrow> watch_change a s (f a s)"
    and "live_inv s" "set as \<subseteq> set (g_watches s)" "a \<notin> set as"
  shows "watch_heap (fold f as s) a = watch_heap s a"
  using assms(2-4)
proof (induction as arbitrary: s)
  case (Cons b as)
  have b: "b \<in> set (g_watches s)" using Cons.prems(2) by simp
  note r = live_inv_ready [OF Cons.prems(1) b]
  note c = assms(1) [OF r(1)]
  have "g_watches (f b s) = g_watches s" using same_frameD(3) [OF watch_change_frame [OF c r(1)]] .
  with Cons.IH [OF watch_change_inv [OF c Cons.prems(1) b]] Cons.prems watch_change_other [OF c, of a] show ?case by simp
qed simp

text \<open>A loop over all watches treats each of them in a state that still has it as it was.\<close>

lemma fold_at:
  assumes step: "\<And>a s. watch_ready_to_run a s \<Longrightarrow> watch_change a s (f a s)"
    and inv: "live_inv s" and a: "a \<in> set (g_watches s)"
  shows "\<exists>t. live_inv t \<and> same_frame s t \<and> watch_at t a = watch_at s a \<and>
    watch_at (fold f (g_watches s) s) a = watch_at (f a t) a"
proof -
  obtain xs ys where xy: "g_watches s = xs @ a # ys" using a by (auto dest: split_list)
  have d: "a \<notin> set xs" "a \<notin> set ys" using inv xy by (auto simp: live_inv_def)
  let ?t = "fold f xs s"
  have t: "live_inv ?t \<and> same_frame s ?t" by (rule fold_watches_inv [OF step inv]) (auto simp: xy)
  have ta: "watch_heap ?t a = watch_heap s a" by (rule fold_other [OF step inv]) (auto simp: xy d)
  have g: "g_watches ?t = g_watches s" using same_frameD(3) t by blast
  with t a have r: "watch_ready_to_run a ?t" by (intro live_inv_ready(1)) simp_all
  note c = step [OF r]
  have u: "live_inv (f a ?t)" using watch_change_inv [OF c] t a g by simp
  have "g_watches (f a ?t) = g_watches s" using same_frameD(3) [OF watch_change_frame [OF c r]] g by simp
  then have "watch_heap (fold f ys (f a ?t)) a = watch_heap (f a ?t) a"
    using fold_other [OF step u, of ys a] d(2) xy by auto
  with t ta xy show ?thesis by (intro exI [of _ ?t]) (simp add: watch_at_def)
qed

lemma load_captures:
  assumes "live_inv s" "a \<in> set (g_watches s)" "w_state (watch_at s a) = WATCH_WAITING"
    and "b \<in> set (g_watches s)" "\<not> w_by_name (watch_at s b)" "w_state (watch_at s b) = WATCH_WAITING"
    and "env_available vm" "bytes \<noteq> []" "classfile_parse mem bytes = Inr cf"
    and "bytecode_pattern_find_in_class_file (Some (w_pattern (watch_at s a))) (Some cf) = Some (i, off)"
    and "duplicate_text mem (class_file_name mem cf) = Some cn"
      "duplicate_utf8 mem (cf_pool cf) (name_index (items (cf_methods cf) ! i)) = Some mn"
      "duplicate_utf8 mem (cf_pool cf) (descriptor_index (items (cf_methods cf) ! i)) = Some sg"
    and "\<And>ob. loader = Some ob \<Longrightarrow> NewGlobalRef_ok vm a ob"
  shows "watch_at (class_watch_on_class_file_load mem vm loader (Some bytes) s) a = (watch_at s a)\<lparr>
      w_class_name := Some cn, w_method_name := Some mn, w_signature := Some sg,
      w_static := member_info_is_static (items (cf_methods cf) ! i), w_bootstrap := (loader = None),
      w_loader := loader, w_offset := off, w_state := WATCH_CAPTURED\<rparr>"
proof -
  have "list_ex (\<lambda>a. \<not> w_by_name (watch_at s a) \<and> w_state (watch_at s a) = WATCH_WAITING) (g_watches s)"
    using assms(4-6) by (auto simp: list_ex_iff)
  then have l: "class_watch_on_class_file_load mem vm loader (Some bytes) s =
      fold (capture_candidate mem vm loader cf) (g_watches s) s"
    using assms(7-9) by (simp add: class_watch_on_class_file_load_def)
  from fold_at [of "capture_candidate mem vm loader cf" s a, OF capture_candidate_change assms(1,2)] obtain t where
    t: "watch_at t a = watch_at s a" "watch_at (fold (capture_candidate mem vm loader cf) (g_watches s) s) a =
      watch_at (capture_candidate mem vm loader cf a t) a" by blast
  have r: "(case loader of None \<Rightarrow> (None, t) | Some ob \<Rightarrow> NewGlobalRef vm a ob t) =
      (loader, t\<lparr>global_refs := global_refs t + opt_ref loader\<rparr>)"
    using assms(14) by (auto simp: NewGlobalRef_def split: option.splits)
  show ?thesis
    unfolding l t(2) using assms(3,10-13) t(1) r
    by (simp add: capture_candidate_def Let_def del: not_None_eq)
qed

lemma prepare_resolves:
  assumes "live_inv s" "a \<in> set (g_watches s)" "w_state (watch_at s a) = WATCH_CAPTURED"
    and "w_class_name (watch_at s a) = Some cn" "w_bootstrap (watch_at s a) \<longleftrightarrow> loader = None" "w_loader (watch_at s a) = loader"
    and "env_available vm" "jvm_class_name_of mem vm s k = Some kn" "strcmp_equal cn kn" "GetClassLoader vm k = Inr loader"
    and "method_id_of vm k (watch_at s a) = Some m" "NewGlobalRef_ok vm a k"
  shows "class_watch_get (Some a) (class_watch_on_class_prepare mem vm (Some k) s) =
    (JNI2HOOK_OK, Some (Some m, w_offset (watch_at s a)))"
proof -
  let ?s = "fold (resolve_waiting mem vm k) (g_watches s) s"
  have i: "live_inv ?s \<and> same_frame s ?s" by (rule fold_watches_inv [OF resolve_waiting_change assms(1) order_refl])
  from fold_at [of "resolve_waiting mem vm k" s a, OF resolve_waiting_change assms(1,2)] obtain t where
    "watch_at t a = watch_at s a" "watch_at ?s a = watch_at (resolve_waiting mem vm k a t) a" by blast
  then have s1: "watch_at ?s a = watch_at s a" using assms(3) by (simp add: resolve_waiting_def)
  have fr: "g_watches ?s = g_watches s" "jvmti_bound ?s = jvmti_bound s" using same_frameD(3,5) i by blast+
  have a: "a \<in> set (g_watches ?s)" using fr(1) assms(2) by simp
  have ex: "list_ex (\<lambda>a. w_state (watch_at ?s a) = WATCH_CAPTURED) (g_watches ?s)"
    unfolding list_ex_iff using a s1 assms(3) by (intro bexI [of _ a]) simp_all
  have n: "jvm_class_name_of mem vm ?s k = Some kn" using assms(8) fr(2) by (simp add: jvm_class_name_of_def)
  have p: "class_watch_on_class_prepare mem vm (Some k) s = fold (resolve_captured vm k kn loader) (g_watches ?s) ?s"
    using assms(7,10) ex n by (simp add: class_watch_on_class_prepare_def Let_def)
  from fold_at [of "resolve_captured vm k kn loader", OF resolve_captured_change conjunct1 [OF i] a] obtain u where
    u: "watch_at u a = watch_at ?s a" "watch_at (fold (resolve_captured vm k kn loader) (g_watches ?s) ?s) a =
      watch_at (resolve_captured vm k kn loader a u) a" by blast
  have "NewGlobalRef vm a k u = (Some k, u\<lparr>global_refs := add_mset k (global_refs u)\<rparr>)"
    using assms(12) by (simp add: NewGlobalRef_def)
  with u s1 assms show ?thesis
    by (simp add: class_watch_get_def p u(2) resolve_captured_def Let_def release_candidate_def drop_ref_True)
       (auto simp: watch_at_def put_watch_def)
qed

section \<open>The cache as a map\<close>

definition cached :: "live_state \<Rightarrow> jclass \<Rightarrow> u1 list option" where
  "cached s = map_of (map (\<lambda>e. (cc_klass e, cc_bytes e)) (g_entries s))"

lemma find_index_map_of:
  "map_option (\<lambda>i. cc_bytes (es ! i)) (find_index (\<lambda>e. cc_klass e = k) es) =
     map_of (map (\<lambda>e. (cc_klass e, cc_bytes e)) es) k"
  by (induction es) (auto simp: option.map_comp o_def)

lemma get_cached: "class_cache_get True (Some k) s = cached s k"
  by (simp add: class_cache_get_def find_entry_def cached_def find_index_map_of)

lemma find_entry_cached: "find_entry True (Some k) s = None \<longleftrightarrow> cached s k = None"
  unfolding get_cached [symmetric] class_cache_get_def by simp

lemma map_of_delete_at:
  "distinct (map cc_klass es) \<Longrightarrow> i < length es \<Longrightarrow>
   map_of (map (\<lambda>e. (cc_klass e, cc_bytes e)) (take i es @ drop (Suc i) es)) =
     (map_of (map (\<lambda>e. (cc_klass e, cc_bytes e)) es))(cc_klass (es ! i) := None)"
proof (induction es arbitrary: i)
  case (Cons e es)
  show ?case
  proof (cases i)
    case 0
    have "map_of (map (\<lambda>e. (cc_klass e, cc_bytes e)) es) (cc_klass e) = None"
      using Cons.prems(1) by (auto simp: map_of_eq_None_iff)
    with 0 show ?thesis by (auto simp: fun_eq_iff)
  next
    case (Suc j)
    with Cons.prems have "cc_klass (es ! j) \<noteq> cc_klass e" by (metis distinct.simps(2) image_eqI length_Cons
        list.simps(9) list.set_map nth_mem Suc_less_eq)
    with Suc Cons.IH [of j] Cons.prems show ?thesis by (auto simp: fun_eq_iff)
  qed
qed simp

lemma forget_cached:
  assumes "live_inv s"
  shows "cached (class_cache_forget vm True (Some k) s) = (cached s)(k := None)"
proof (cases "find_entry True (Some k) s")
  case None
  then have "cached s k = None" using find_entry_cached by blast
  with None show ?thesis by (simp add: class_cache_forget_def fun_upd_idem)
next
  case (Some i)
  then have i: "i < length (g_entries s)" "cc_klass (g_entries s ! i) = k" by (auto simp: find_entry_def find_index_Some)
  with Some map_of_delete_at [of "g_entries s" i] assms show ?thesis
    by (simp add: class_cache_forget_def cached_def live_inv_def)
qed

text \<open>What a sequence of callbacks may add: the class being captured, with bytes one of them carried.\<close>

definition captures :: "jclass \<Rightarrow> class_load list \<Rightarrow> live_state \<Rightarrow> live_state \<Rightarrow> bool" where
  "captures k loads s s' \<longleftrightarrow> cached s' = cached s \<or>
     cached s k = None \<and> (\<exists>l b. l \<in> set loads \<and> load_redefined l = Some k \<and> load_data l = Some b \<and> cached s' = (cached s)(k \<mapsto> b))"

lemma store_cached:
  "store mem vm k name bytes s = (ok, s') \<Longrightarrow>
     cached s' = cached s \<or> cached s k = None \<and> cached s' = (cached s)(k \<mapsto> bytes)"
  using find_entry_cached [of k s]
  by (auto simp: store_def Let_def cached_def NewGlobalRef_def DeleteGlobalRef_def map_add_def fun_eq_iff
      split: if_splits option.splits prod.splits)

lemma on_load_cached:
  assumes "live_inv s" "g_capture_class s = Some k"
  shows "captures k [l] s (on_class_file_load mem vm l s)"
proof -
  have "cached (class_watch_on_class_file_load mem vm x y s) = cached s" for x y
    using same_frameD(6) [OF conjunct2 [OF load_inv [OF assms(1)]]] by (simp add: cached_def)
  moreover have "captures k [l] s (capture_load mem vm r n b s)" if "load_redefined l = Some r" "load_data l = Some b" for r n b
  proof (cases "capture_load mem vm r n b s = s")
    case False
    obtain ok s' where st: "store mem vm r n b s = (ok, s')" by (metis surj_pair)
    with False assms(2) have "r = k" "cached (capture_load mem vm r n b s) = cached s'"
      by (auto simp: capture_load_def cached_def split: option.splits if_splits)
    with store_cached [OF st] that show ?thesis by (auto simp: captures_def)
  qed (simp add: captures_def)
  ultimately show ?thesis by (auto simp: on_class_file_load_def captures_def split: option.splits)
qed

lemma fold_loads_cached:
  "live_inv s \<Longrightarrow> g_capture_class s = Some k \<Longrightarrow> captures k loads s (fold (on_class_file_load mem vm) loads s)"
proof (induction loads arbitrary: s)
  case (Cons l loads)
  let ?t = "on_class_file_load mem vm l s"
  note t = on_load_inv [OF Cons.prems(1), of mem vm l]
  have "captures k loads ?t (fold (on_class_file_load mem vm) loads ?t)" using Cons.IH t Cons.prems(2) by simp
  with on_load_cached [OF Cons.prems, of l mem vm] show ?case unfolding captures_def by auto
qed (simp add: captures_def)

lemma events_only_cached: "events_only s s' \<Longrightarrow> cached s' = cached s"
proof -
  assume "events_only s s'"
  then have "g_entries (silenced s') = g_entries (silenced s)" by (simp add: events_only_def)
  then show ?thesis by (simp add: silenced_def cached_def)
qed

lemma retransform_cached:
  assumes "live_inv s" "g_capture_class s = Some k" "retransform_capture mem vm k s = (e, s')"
  shows "captures k (snd (RetransformClasses vm k)) s s'"
proof -
  have ev: "events_only t (snd (SetEventNotificationMode vm b kind t))" for t b kind by (simp add: events_only_def)
  note f = events_only_fields [OF ev]
  let ?u = "snd (SetEventNotificationMode vm True JVMTI_EVENT_CLASS_FILE_LOAD_HOOK s)"
  have u: "live_inv ?u" "g_capture_class ?u = Some k" using f(1,4) assms by simp_all
  have "s' = snd (retransform_capture mem vm k s)" using assms(3) by simp
  then show ?thesis
    using fold_loads_cached [OF u, of "snd (RetransformClasses vm k)" mem vm] events_only_cached [OF ev]
    by (simp add: retransform_capture_def Let_def case_prod_beta captures_def)
qed

lemma ensure_cached:
  assumes "live_inv s" "g_capture_class s = None" "class_cache_ensure mem vm (Some k) name s = ((ok, e), s')"
  shows "captures k (snd (RetransformClasses vm k)) s s' \<and> (ok \<longrightarrow> cached s' k \<noteq> None)"
proof -
  obtain st s1 where st: "class_cache_start vm s = (st, s1)" by (metis surj_pair)
  then have s1: "live_inv s1" "g_capture_class s1 = None" "cached s1 = cached s"
    using assms by (auto simp: class_cache_start_def cached_def split: if_splits)
  obtain r s2 where r: "NewGlobalRef vm cache_requester k s1 = (r, s2)" by (metis surj_pair)
  let ?s3 = "s1\<lparr>global_refs := add_mset k (global_refs s1), g_capture_class := Some k, g_capture_name := name, g_captured := False\<rparr>"
  obtain e' s4 where e: "retransform_capture mem vm k ?s3 = (e', s4)" by (metis surj_pair)
  have "live_inv ?s3" using capture_ref_inv [OF s1(1,2), of k] by simp
  from retransform_cached [OF this _ e] s1(3) have c: "captures k (snd (RetransformClasses vm k)) s s4"
    by (simp add: captures_def cached_def)
  have up: "cached (DeleteGlobalRef k t\<lparr>g_capture_class := None, g_capture_name := None\<rparr>) = cached t"
    "cached (t\<lparr>g_capture_class := c, g_capture_name := n, g_captured := b\<rparr>) = cached t" for t c n b
    by (simp_all add: cached_def DeleteGlobalRef_def)
  note cases = assms(3) st r e NewGlobalRef_cases [OF r] s1(3)
  have "cached s' = cached s \<or> cached s' = cached s4"
    using cases by (auto simp: class_cache_ensure_def Let_def up split: if_splits bool.splits sum.splits)
  then have "captures k (snd (RetransformClasses vm k)) s s'" using c by (auto simp: captures_def)
  moreover have "ok \<Longrightarrow> find_entry True (Some k) s' \<noteq> None"
    using cases by (auto simp: class_cache_ensure_def Let_def split: if_splits bool.splits sum.splits)
  ultimately show ?thesis by (simp add: find_entry_cached)
qed

section \<open>Properties\<close>

text \<open>
  C25: in every state the entry points can reach, no global reference leaks and none is
  released twice: the references held are exactly those of the registered watches and of
  the cached classes. A captured watch has its class, method and signature (so
  the comparison with the prepared class never reads a null pointer), a ready one has its
  class and method, and failed and cancelled ones hold nothing.
\<close>

theorem live_references_exact:
  assumes "live_reachable s"
  shows "global_refs s = watches_held s + mset (map cc_klass (g_entries s)) \<and>
    distinct (g_watches s) \<and> distinct (map cc_klass (g_entries s)) \<and>
    (\<forall>a w. watch_heap s a = Some w \<longrightarrow> watch_ok w \<and> (a \<in> set (g_watches s) \<longleftrightarrow> w_state w \<noteq> WATCH_CANCELLED))"
proof -
  note r = live_reachable_live_inv [OF assms]
  then have "g_capture_class s = None" ..
  with r show ?thesis unfolding live_inv_def cache_held_def by auto
qed


text \<open>A watch that was created, captured and resolved, and one more that a failed reference took down.\<close>

definition quiet_vm :: jvm where
  "quiet_vm = \<lparr>scan_api = \<lparr>GetLoadedClasses = Inr [], GetClassMethods = (\<lambda>_. Inr []), GetBytecodes = (\<lambda>_. Inl 104)\<rparr>,
     env_available = True, SetEventNotificationMode_error = (\<lambda>_ _. 0), SetEventCallbacks_error = 0,
     NewGlobalRef_ok = (\<lambda>_ _. True), GetMethodDeclaringClass = (\<lambda>_. Inr (Some 9)), GetClassLoader = (\<lambda>_. Inr None),
     GetClassSignature = (\<lambda>_. Inr (Some (cstr ''LA;''))), GetMethodID = (\<lambda>_ _ _. Some 40),
     GetStaticMethodID = (\<lambda>_ _ _. Some 41), IsModifiableClass = (\<lambda>_. Inr True),
     RetransformClasses = (\<lambda>k. (0, [\<lparr>load_redefined = Some k, load_loader = None, load_name = Some (cstr ''A''),
        load_data = Some [0xCA]\<rparr>]))\<rparr>"

definition watched_state :: live_state where
  "watched_state = snd (class_watch_create_named heap_ok quiet_vm (Some 5) (Some (cstr ''A'')) (Some (cstr ''m''))
     (Some (cstr ''()V'')) True (snd (class_cache_start quiet_vm live_init)))"

lemma watched_reachable: "live_reachable watched_state"
  unfolding watched_state_def
  by (intro reach_step [OF reach_step [OF reach_init step_start] step_create_named])
     (simp add: class_cache_start_def live_init_def)

definition prepared_state :: live_state where
  "prepared_state = on_class_prepare heap_ok quiet_vm (Some 9) watched_state"

lemma prepared_watch:
  "\<exists>w w'. watch_heap watched_state 5 = Some w \<and> w_state w = WATCH_WAITING \<and>
     watch_heap prepared_state 5 = Some w' \<and> w_state w' = WATCH_READY"
proof -
  have "case (watch_heap watched_state 5, watch_heap prepared_state 5) of
      (Some w, Some w') \<Rightarrow> w_state w = WATCH_WAITING \<and> w_state w' = WATCH_READY | _ \<Rightarrow> False" by code_simp
  then show ?thesis by (auto split: option.splits)
qed

theorem live_references_exact_witness:
  "\<exists>s. live_reachable s \<and> global_refs s = watches_held s + mset (map cc_klass (g_entries s)) \<and> global_refs s \<noteq> {#}"
proof -
  have "live_reachable prepared_state" unfolding prepared_state_def by (rule reach_step [OF watched_reachable step_prepare])
  moreover have "global_refs prepared_state \<noteq> {#}" by code_simp
  ultimately show ?thesis using live_references_exact [of prepared_state] by blast
qed


text \<open>The class C with one static method, and a second watch, for the return instruction in it.\<close>

definition returning_class :: "u1 list" where
  "returning_class =
     [202, 254, 186, 190, 0, 0, 0, 52, 0, 6, 1, 0, 1, 67, 7, 0, 1, 1, 0, 1, 109, 1, 0, 3, 40, 41, 86, 1, 0, 4, 67, 111,
      100, 101, 0, 33, 0, 2, 0, 0, 0, 0, 0, 0, 0, 1, 0, 9, 0, 3, 0, 4, 0, 1, 0, 5, 0, 0, 0, 14, 0, 1, 0, 1, 0, 0, 0, 2,
      4, 177, 0, 0, 0, 0, 0, 0]"

definition two_watches :: live_state where
  "two_watches = snd (class_watch_create heap_ok quiet_vm (Some 6) (Some (cstr ''b1'')) watched_state)"

lemma two_watches_reachable: "live_reachable two_watches"
  unfolding two_watches_def by (rule reach_step [OF watched_reachable step_create]) code_simp

lemma two_watches_state:
  "6 \<in> set (g_watches two_watches)" "w_state (watch_at two_watches 6) = WATCH_WAITING" "\<not> w_by_name (watch_at two_watches 6)"
  "5 \<in> set (g_watches two_watches)" "w_state (watch_at two_watches 5) = WATCH_WAITING" "w_by_name (watch_at two_watches 5)"
  "w_pattern (watch_at two_watches 5) = bytecode_pattern_zero"
  by code_simp+

lemma returning_class_parses:
  obtains cf where "classfile_parse heap_ok returning_class = Inr cf"
    "bytecode_pattern_find_in_class_file (Some (w_pattern (watch_at two_watches 6))) (Some cf) = Some (0, 1)"
    "duplicate_text heap_ok (class_file_name heap_ok cf) = Some (cstr ''C'')"
    "duplicate_utf8 heap_ok (cf_pool cf) (name_index (items (cf_methods cf) ! 0)) = Some (cstr ''m'')"
    "duplicate_utf8 heap_ok (cf_pool cf) (descriptor_index (items (cf_methods cf) ! 0)) = Some (cstr ''()V'')"
    "member_info_is_static (items (cf_methods cf) ! 0)" "0 < length (items (cf_methods cf))"
    "Option.bind (code_of (cf_pool cf) (items (cf_methods cf) ! 0)) code_window = Some [4, 177]"
proof -
  have "case classfile_parse heap_ok returning_class of Inl _ \<Rightarrow> False | Inr cf \<Rightarrow>
      bytecode_pattern_find_in_class_file (Some (w_pattern (watch_at two_watches 6))) (Some cf) = Some (0, 1) \<and>
      duplicate_text heap_ok (class_file_name heap_ok cf) = Some (cstr ''C'') \<and>
      duplicate_utf8 heap_ok (cf_pool cf) (name_index (items (cf_methods cf) ! 0)) = Some (cstr ''m'') \<and>
      duplicate_utf8 heap_ok (cf_pool cf) (descriptor_index (items (cf_methods cf) ! 0)) = Some (cstr ''()V'') \<and>
      member_info_is_static (items (cf_methods cf) ! 0) \<and> 0 < length (items (cf_methods cf)) \<and>
      Option.bind (code_of (cf_pool cf) (items (cf_methods cf) ! 0)) code_window = Some [4, 177]"
    by code_simp
  then show thesis using that by (auto split: sum.splits)
qed

text \<open>
  C27: a watch for a future class delivers the method it matched. When a class file with the
  watch's pattern is loaded and the class of that name is then prepared by the same loader, the
  watch answers with the method id that the VM gives for the name and descriptor
  of the first method with a match, and with the offset of the match in its code.
\<close>

theorem watch_delivers_match:
  assumes "live_reachable s" "a \<in> set (g_watches s)"
    and "w_state (watch_at s a) = WATCH_WAITING" "\<not> w_by_name (watch_at s a)"
    and "env_available vm" "bytes \<noteq> []" "classfile_parse mem bytes = Inr cf"
    and "bytecode_pattern_find_in_class_file (Some (w_pattern (watch_at s a))) (Some cf) = Some (i, off)"
    and "duplicate_text mem (class_file_name mem cf) = Some cn"
      "duplicate_utf8 mem (cf_pool cf) (name_index (items (cf_methods cf) ! i)) = Some mn"
      "duplicate_utf8 mem (cf_pool cf) (descriptor_index (items (cf_methods cf) ! i)) = Some sg"
    and "\<And>ob. loader = Some ob \<Longrightarrow> NewGlobalRef_ok vm a ob"
    and "env_available vm'" "jvm_class_name_of mem vm' s k = Some kn" "strcmp_equal cn kn"
      "GetClassLoader vm' k = Inr loader" "NewGlobalRef_ok vm' a k"
    and "(if member_info_is_static (items (cf_methods cf) ! i) then GetStaticMethodID vm' k (Some mn) (Some sg)
          else GetMethodID vm' k (Some mn) (Some sg)) = Some m"
  shows "class_watch_get (Some a) (class_watch_on_class_prepare mem vm' (Some k)
           (class_watch_on_class_file_load mem vm loader (Some bytes) s)) = (JNI2HOOK_OK, Some (Some m, off))"
proof -
  let ?s = "class_watch_on_class_file_load mem vm loader (Some bytes) s"
  note inv = conjunct1 [OF live_reachable_live_inv [OF assms(1)]]
  note l = load_inv [OF inv, of mem vm loader "Some bytes"]
  note c = load_captures [OF inv assms(2,3,2,4,3,5-12)]
  have fr: "g_watches ?s = g_watches s" "jvmti_bound ?s = jvmti_bound s" using same_frameD(3,5) l by blast+
  have "class_watch_get (Some a) (class_watch_on_class_prepare mem vm' (Some k) ?s) =
      (JNI2HOOK_OK, Some (Some m, w_offset (watch_at ?s a)))"
  proof (rule prepare_resolves)
    show "jvm_class_name_of mem vm' ?s k = Some kn" using assms(14) fr(2) by (simp add: jvm_class_name_of_def)
    show "method_id_of vm' k (watch_at ?s a) = Some m" using assms(18) by (simp add: c method_id_of_def split: if_splits)
  qed (use l fr assms c in simp_all)
  with c show ?thesis by simp
qed

theorem watch_delivers_match_witness:
  "class_watch_get (Some 6) (class_watch_on_class_prepare heap_ok (quiet_vm\<lparr>GetClassSignature := (\<lambda>_. Inr (Some (cstr ''LC;'')))\<rparr>) (Some 9)
     (class_watch_on_class_file_load heap_ok quiet_vm None (Some returning_class) two_watches)) =
   (JNI2HOOK_OK, Some (Some 41, 1))"
proof -
  obtain cf where cf: "classfile_parse heap_ok returning_class = Inr cf"
    "bytecode_pattern_find_in_class_file (Some (w_pattern (watch_at two_watches 6))) (Some cf) = Some (0, 1)"
    "duplicate_text heap_ok (class_file_name heap_ok cf) = Some (cstr ''C'')"
    "duplicate_utf8 heap_ok (cf_pool cf) (name_index (items (cf_methods cf) ! 0)) = Some (cstr ''m'')"
    "duplicate_utf8 heap_ok (cf_pool cf) (descriptor_index (items (cf_methods cf) ! 0)) = Some (cstr ''()V'')"
    "member_info_is_static (items (cf_methods cf) ! 0)" by (rule returning_class_parses)
  let ?vm = "quiet_vm\<lparr>GetClassSignature := (\<lambda>_. Inr (Some (cstr ''LC;'')))\<rparr>"
  have vm: "env_available quiet_vm" "env_available ?vm" "GetClassLoader ?vm 9 = Inr None" "NewGlobalRef_ok ?vm 6 9"
    "GetStaticMethodID ?vm 9 (Some (cstr ''m'')) (Some (cstr ''()V'')) = Some 41"
    by (simp_all add: quiet_vm_def)
  have "jvm_class_name_of heap_ok ?vm two_watches 9 = Some (cstr ''C'')" by code_simp
  moreover have "strcmp_equal (cstr ''C'') (cstr ''C'')" by (simp add: strcmp_equal_def)
  moreover have "returning_class \<noteq> []" by (simp add: returning_class_def)
  ultimately show ?thesis
    using vm cf by (intro watch_delivers_match [OF two_watches_reachable two_watches_state(1-3) _ _ cf(1-5)]) auto
qed



text \<open>
  C28: the cache implements a map from classes to their original bytes. A lookup reads the map,
  forgetting removes one class and clearing all of them; capturing a class adds at most
  that class, with bytes of one of the callbacks the VM made for it, never
  replaces bytes it already has, and has the class in the map when it reports success.
\<close>

theorem cache_refines_map:
  assumes "live_reachable s"
  shows "class_cache_get True (Some k) s = cached s k \<and>
    cached (class_cache_forget vm True (Some k) s) = (cached s)(k := None) \<and>
    cached (class_cache_clear vm s) = Map.empty \<and>
    (class_cache_ensure mem vm (Some k) name s = ((ok, e), s') \<longrightarrow>
       captures k (snd (RetransformClasses vm k)) s s' \<and> (ok \<longrightarrow> cached s' k \<noteq> None))"
proof -
  note r = live_reachable_live_inv [OF assms]
  have "cached (class_cache_clear vm s) = Map.empty" by (simp add: cached_def class_cache_clear_def)
  with r get_cached forget_cached ensure_cached [of s mem vm k name ok e s'] show ?thesis by blast
qed

theorem cache_refines_map_witness:
  "\<exists>s'. class_cache_ensure heap_ok quiet_vm (Some 9) (Some (cstr ''A'')) live_init = ((True, 0), s') \<and>
     cached s' 9 \<noteq> None"
proof -
  let ?r = "class_cache_ensure heap_ok quiet_vm (Some 9) (Some (cstr ''A'')) live_init"
  have "fst ?r = (True, 0)" by code_simp
  then obtain s' where s': "?r = ((True, 0), s')" by (metis prod.collapse)
  with cache_refines_map [OF reach_init, of 9 quiet_vm heap_ok "Some (cstr ''A'')" True 0 s'] show ?thesis by blast
qed

end
