(* ===== verification/Trampoline.thy ===== *)
theory Trampoline
  imports JVM_Constants
begin

unbundle bit_operations_syntax

text \<open>
  The resident forwarder of a hook (\<^verbatim>\<open>hook/trampoline.c\<close>, on x86-64 and POSIX). A page holds a few
  instructions, an armed flag and the address of the target. The instructions are given the meaning the
  processor gives the encodings that occur, so that the emitted bytes can be run.
\<close>

section \<open>Memory\<close>

type_synonym u8 = "64 word"

definition le8 :: "u8 \<Rightarrow> u1 list" where
  "le8 w = map (\<lambda>i. ucast (drop_bit (8 * i) w)) [0..<8]"

definition un_le :: "u1 list \<Rightarrow> u8" where
  "un_le bs = foldr (\<lambda>b acc. push_bit 8 acc OR ucast b) bs 0"

text \<open>\<^verbatim>\<open>memcpy\<close> into a page.\<close>

definition blit :: "nat \<Rightarrow> u1 list \<Rightarrow> u1 list \<Rightarrow> u1 list" where
  "blit at bs page = take at page @ bs @ drop (at + length bs) page"

definition window :: "nat \<Rightarrow> nat \<Rightarrow> u1 list \<Rightarrow> u1 list" where
  "window at n page = take n (drop at page)"

record exec_page =
  page_bytes :: "u1 list"
  page_exec :: bool

type_synonym pages = "nat \<Rightarrow> exec_page option"

section \<open>The emitter\<close>

abbreviation TRAMPOLINE_PAGE :: nat where "TRAMPOLINE_PAGE \<equiv> 4096"
abbreviation TRAMPOLINE_ARMED :: nat where "TRAMPOLINE_ARMED \<equiv> 64"
abbreviation TRAMPOLINE_TARGET :: nat where "TRAMPOLINE_TARGET \<equiv> 72"

definition k_prologue :: "u1 list" where
  "k_prologue =
     [0xF3, 0x0F, 0x1E, 0xFA,
      0x48, 0x83, 0x3D, 0x34, 0x00, 0x00, 0x00, 0x00,
      0x74, 0x06,
      0xFF, 0x25, 0x34, 0x00, 0x00, 0x00]"

definition emit_zero_return :: "u1 \<Rightarrow> u1 list" where
  "emit_zero_return kind =
     (if kind = 86 then [0xC3]
      else if kind = 74 \<or> kind = 76 \<or> kind = 91 then [0x48, 0x31, 0xC0, 0xC3]
      else if kind = 70 then [0x0F, 0x57, 0xC0, 0xC3]
      else if kind = 68 then [0x66, 0x0F, 0x57, 0xC0, 0xC3]
      else [0x31, 0xC0, 0xC3])"

text \<open>
  \<open>reserved\<close> is what \<^verbatim>\<open>mmap\<close> returned, \<open>protect\<close> whether \<^verbatim>\<open>mprotect\<close> succeeds for the wanted access. A target that
  is null is the address zero.
\<close>

definition protect_page :: "(bool \<Rightarrow> bool) \<Rightarrow> nat \<Rightarrow> bool \<Rightarrow> pages \<Rightarrow> bool \<times> pages" where
  "protect_page protect p executable pages =
     (if protect executable then (True, pages(p := map_option (page_exec_update (\<lambda>_. executable)) (pages p)))
      else (False, pages))"

definition trampoline_create ::
  "nat option \<Rightarrow> (bool \<Rightarrow> bool) \<Rightarrow> u8 \<Rightarrow> u1 \<Rightarrow> pages \<Rightarrow> nat option \<times> pages" where
  "trampoline_create reserved protect target kind pages =
     (if target = 0 then (None, pages)
      else
        case reserved of
          None \<Rightarrow> (None, pages)
        | Some p \<Rightarrow>
            let page = replicate TRAMPOLINE_PAGE 0;
                page = blit 0 k_prologue page;
                page = blit (length k_prologue) (emit_zero_return kind) page;
                page = blit TRAMPOLINE_ARMED (le8 1) page;
                page = blit TRAMPOLINE_TARGET (le8 target) page;
                pages = pages(p \<mapsto> \<lparr>page_bytes = page, page_exec = False\<rparr>)
            in case protect_page protect p True pages of
                 (False, pages) \<Rightarrow> (None, pages(p := None))
               | (True, pages) \<Rightarrow> (Some p, pages))"

definition trampoline_disarm :: "(bool \<Rightarrow> bool) \<Rightarrow> nat option \<Rightarrow> pages \<Rightarrow> pages" where
  "trampoline_disarm protect trampoline pages =
     (case trampoline of
        None \<Rightarrow> pages
      | Some p \<Rightarrow>
          (case protect_page protect p False pages of
             (False, pages) \<Rightarrow> pages
           | (True, pages) \<Rightarrow>
               let pages = pages(p := map_option (page_bytes_update (blit TRAMPOLINE_ARMED (le8 0))) (pages p))
               in snd (protect_page protect p True pages)))"

section \<open>The processor\<close>

text \<open>
  The instructions that occur, by their encodings. The program counter is an offset into the page; a displacement or a
  branch distance in the page is small and not negative.
\<close>

record cpu =
  pc :: nat
  zero_flag :: bool
  rax :: u8
  xmm0 :: u8

datatype outcome = Running cpu | Jumped u8 cpu | Returned cpu | Fault

definition load8 :: "u1 list \<Rightarrow> nat \<Rightarrow> u8" where
  "load8 page at = un_le (window at 8 page)"

definition x86_step :: "u1 list \<Rightarrow> cpu \<Rightarrow> outcome" where
  "x86_step page c =
     (let code = drop (pc c) page in
      if take 4 code = [0xF3, 0x0F, 0x1E, 0xFA] then Running (c\<lparr>pc := pc c + 4\<rparr>)
      else if take 3 code = [0x48, 0x83, 0x3D] \<and> window 4 4 code = [0, 0, 0, 0] then
        Running (c\<lparr>pc := pc c + 8, zero_flag := (load8 page (pc c + 8 + unat (code ! 3)) = 0)\<rparr>)
      else if take 1 code = [0x74] then
        Running (c\<lparr>pc := pc c + 2 + (if zero_flag c then unat (code ! 1) else 0)\<rparr>)
      else if take 2 code = [0xFF, 0x25] \<and> window 3 3 code = [0, 0, 0] then
        Jumped (load8 page (pc c + 6 + unat (code ! 2))) c
      else if take 3 code = [0x48, 0x31, 0xC0] then Running (c\<lparr>pc := pc c + 3, rax := 0\<rparr>)
      else if take 2 code = [0x31, 0xC0] then Running (c\<lparr>pc := pc c + 2, rax := 0\<rparr>)
      else if take 3 code = [0x0F, 0x57, 0xC0] then Running (c\<lparr>pc := pc c + 3, xmm0 := 0\<rparr>)
      else if take 4 code = [0x66, 0x0F, 0x57, 0xC0] then Running (c\<lparr>pc := pc c + 4, xmm0 := 0\<rparr>)
      else if take 1 code = [0xC3] then Returned c
      else Fault)"

fun x86_run :: "nat \<Rightarrow> u1 list \<Rightarrow> cpu \<Rightarrow> outcome" where
  "x86_run 0 page c = Running c"
| "x86_run (Suc n) page c = (case x86_step page c of Running c' \<Rightarrow> x86_run n page c' | r \<Rightarrow> r)"

text \<open>Calling an address: a page that is missing or not executable faults.\<close>

definition call_page :: "nat \<Rightarrow> pages \<Rightarrow> nat \<Rightarrow> cpu \<Rightarrow> outcome" where
  "call_page n pages p c =
     (case pages p of
        Some page \<Rightarrow> if page_exec page then x86_run n (page_bytes page) (c\<lparr>pc := 0\<rparr>) else Fault
      | None \<Rightarrow> Fault)"

section \<open>What a trampoline does\<close>

lemma bit_un_le:
  "8 * n \<le> 64 \<Longrightarrow>
   bit (un_le (map (\<lambda>i. ucast (drop_bit (8 * i) w)) [k..<k + n])) j \<longleftrightarrow> j < 8 * n \<and> bit w (8 * k + j)"
proof (induction n arbitrary: k j)
  case (Suc n)
  let ?rest = "un_le (map (\<lambda>i. ucast (drop_bit (8 * i) w)) [Suc k..<Suc k + n])"
  have "[k..<k + Suc n] = k # [Suc k..<Suc k + n]" by (simp add: upt_conv_Cons)
  then have "un_le (map (\<lambda>i. ucast (drop_bit (8 * i) w)) [k..<k + Suc n]) = push_bit 8 ?rest OR ucast (ucast (drop_bit (8 * k) w) :: u1)"
    by (simp add: un_le_def)
  then have "bit (un_le (map (\<lambda>i. ucast (drop_bit (8 * i) w)) [k..<k + Suc n])) j \<longleftrightarrow>
      j < 64 \<and> 8 \<le> j \<and> bit ?rest (j - 8) \<or> j < 8 \<and> bit w (8 * k + j)"
    by (auto simp: bit_simps)
  moreover have "8 * Suc k + (j - 8) = 8 * k + j" if "8 \<le> j" using that by simp
  ultimately show ?case using Suc.IH [of "Suc k" "j - 8"] Suc.prems by auto
qed (simp add: un_le_def)

lemma un_le_le8 [simp]: "un_le (le8 w) = w"
proof (rule bit_word_eqI)
  fix j assume "j < LENGTH(64)"
  then show "bit (un_le (le8 w)) j = bit w j" using bit_un_le [of 8 w 0 j] by (simp add: le8_def)
qed

lemma length_le8 [simp]: "length (le8 w) = 8"
  by (simp add: le8_def)

lemma length_blit [simp]: "at + length bs \<le> length page \<Longrightarrow> length (blit at bs page) = length page"
  by (simp add: blit_def)

lemma window_blit_same [simp]: "at \<le> length page \<Longrightarrow> window at (length bs) (blit at bs page) = bs"
  by (simp add: blit_def window_def)

lemma window_blit_other:
  "at + n \<le> k \<or> k + length bs \<le> at \<Longrightarrow> k + length bs \<le> length page \<Longrightarrow> window at n (blit k bs page) = window at n page"
  by (auto simp: blit_def window_def drop_take min_def)

text \<open>A page as \<open>trampoline_create\<close> leaves it, with the flag it then has.\<close>

definition forwards :: "u1 list \<Rightarrow> u1 \<Rightarrow> u8 \<Rightarrow> u8 \<Rightarrow> bool" where
  "forwards page kind flag target \<longleftrightarrow>
     length page = TRAMPOLINE_PAGE \<and> window 0 20 page = k_prologue \<and>
     window 20 (length (emit_zero_return kind)) page = emit_zero_return kind \<and>
     load8 page TRAMPOLINE_ARMED = flag \<and> load8 page TRAMPOLINE_TARGET = target"

lemma length_k_prologue [simp]: "length k_prologue = 20"
  by (simp add: k_prologue_def)

lemma length_zero_return: "length (emit_zero_return kind) \<le> 5"
  by (simp add: emit_zero_return_def)

lemma created_forwards:
  "forwards (blit TRAMPOLINE_TARGET (le8 target) (blit TRAMPOLINE_ARMED (le8 1)
     (blit (length k_prologue) (emit_zero_return kind) (blit 0 k_prologue (replicate TRAMPOLINE_PAGE 0))))) kind 1 target"
proof -
  let ?p0 = "blit 0 k_prologue (replicate TRAMPOLINE_PAGE 0)"
  let ?p1 = "blit 20 (emit_zero_return kind) ?p0"
  let ?p2 = "blit TRAMPOLINE_ARMED (le8 1) ?p1"
  have len: "length ?p0 = 4096" "length ?p1 = 4096" "length ?p2 = 4096" using length_zero_return [of kind] by simp_all
  have code: "window 0 20 ?p0 = k_prologue" "window 20 (length (emit_zero_return kind)) ?p1 = emit_zero_return kind"
    using window_blit_same [of 0 "replicate 4096 0" k_prologue] by simp_all
  have data: "window 72 8 (blit 72 (le8 target) ?p2) = le8 target" "window 64 8 ?p2 = le8 1"
    using window_blit_same [of 72 ?p2 "le8 target"] window_blit_same [of 64 ?p1 "le8 1"] len by simp_all
  show ?thesis using length_zero_return [of kind] len code data
    by (simp add: forwards_def load8_def window_blit_other)
qed

lemma disarmed_forwards: "forwards page kind flag target \<Longrightarrow> forwards (blit TRAMPOLINE_ARMED (le8 0) page) kind 0 target"
  using length_zero_return [of kind] window_blit_same [of 64 page "le8 0"]
  by (simp add: forwards_def load8_def window_blit_other)

text \<open>Where a result of the kind is returned: the general register, the vector register, or nowhere.\<close>

definition returns_zero :: "u1 \<Rightarrow> cpu \<Rightarrow> bool" where
  "returns_zero kind c \<longleftrightarrow>
     (if kind = 86 then True else if kind = 70 \<or> kind = 68 then xmm0 c = 0 else rax c = 0)"

lemma forwards_code:
  assumes "forwards page kind flag target"
  obtains rest where "page = k_prologue @ emit_zero_return kind @ rest"
proof -
  let ?n = "length (emit_zero_return kind)"
  have "page = window 0 20 page @ window 20 ?n page @ drop (20 + ?n) page"
    by (simp add: window_def) (metis append_take_drop_id drop_drop add.commute)
  with assms that show thesis by (simp add: forwards_def)
qed

lemma prologue_steps:
  assumes "forwards page kind flag target"
  shows "pc c = 0 \<Longrightarrow> x86_step page c = Running (c\<lparr>pc := 4\<rparr>)"
    "pc c = 4 \<Longrightarrow> x86_step page c = Running (c\<lparr>pc := 12, zero_flag := (flag = 0)\<rparr>)"
    "pc c = 12 \<Longrightarrow> x86_step page c = Running (c\<lparr>pc := if zero_flag c then 20 else 14\<rparr>)"
    "pc c = 14 \<Longrightarrow> x86_step page c = Jumped target c"
proof -
  from assms obtain rest where page: "page = k_prologue @ emit_zero_return kind @ rest" by (rule forwards_code)
  have data: "load8 page 64 = flag" "load8 page 72 = target" using assms by (simp_all add: forwards_def)
  have code: "drop 0 page = k_prologue @ emit_zero_return kind @ rest"
    "drop 4 page = drop 4 k_prologue @ emit_zero_return kind @ rest"
    "drop 12 page = drop 12 k_prologue @ emit_zero_return kind @ rest"
    "drop 14 page = drop 14 k_prologue @ emit_zero_return kind @ rest" by (simp_all add: page)
  show "pc c = 0 \<Longrightarrow> x86_step page c = Running (c\<lparr>pc := 4\<rparr>)"
    by (simp add: x86_step_def code del: drop0) (simp add: k_prologue_def)
  show "pc c = 4 \<Longrightarrow> x86_step page c = Running (c\<lparr>pc := 12, zero_flag := (flag = 0)\<rparr>)"
    using data by (simp add: x86_step_def code) (simp add: k_prologue_def window_def)
  show "pc c = 12 \<Longrightarrow> x86_step page c = Running (c\<lparr>pc := if zero_flag c then 20 else 14\<rparr>)"
    by (simp add: x86_step_def code) (simp add: k_prologue_def window_def)
  show "pc c = 14 \<Longrightarrow> x86_step page c = Jumped target c"
    using data by (simp add: x86_step_def code) (simp add: k_prologue_def window_def)
qed

lemma zero_return_steps:
  assumes "forwards page kind flag target" "pc c = 20"
  shows "\<exists>c'. x86_run (Suc (Suc n)) page c = Returned c' \<and> returns_zero kind c'"
proof -
  from assms(1) obtain rest where page: "page = k_prologue @ emit_zero_return kind @ rest" by (rule forwards_code)
  then have code: "drop (20 + k) page = drop k (emit_zero_return kind @ rest)" for k by simp
  note c = code [of 0, simplified] code [of 2, simplified] code [of 3, simplified] code [of 4, simplified]
  show ?thesis
    by (auto simp: x86_step_def assms(2) c returns_zero_def emit_zero_return_def)
qed

lemma five_steps:
  assumes "5 \<le> n"
  obtains m where "n = Suc (Suc (Suc (Suc (Suc m))))"
  using assms by (auto simp: numeral_eq_Suc Suc_le_eq dest!: less_imp_Suc_add)

lemma run_armed:
  assumes "forwards page kind flag target" "flag \<noteq> 0" "5 \<le> n"
  shows "x86_run n page (c\<lparr>pc := 0\<rparr>) = Jumped target (c\<lparr>pc := 14, zero_flag := False\<rparr>)"
  using assms(3)
proof (rule five_steps)
  fix m assume "n = Suc (Suc (Suc (Suc (Suc m))))"
  with assms(2) prologue_steps [OF assms(1)] show ?thesis by simp
qed

lemma run_disarmed:
  assumes "forwards page kind 0 target" "5 \<le> n"
  shows "\<exists>c'. x86_run n page (c\<lparr>pc := 0\<rparr>) = Returned c' \<and> returns_zero kind c'"
  using assms(2)
proof (rule five_steps)
  fix m assume n: "n = Suc (Suc (Suc (Suc (Suc m))))"
  have "x86_run n page (c\<lparr>pc := 0\<rparr>) = x86_run (Suc (Suc m)) page (c\<lparr>zero_flag := True, pc := 20\<rparr>)"
    using prologue_steps [OF assms(1)] unfolding n by simp
  with zero_return_steps [OF assms(1), of "c\<lparr>zero_flag := True, pc := 20\<rparr>" m] show ?thesis by simp
qed

section \<open>Properties\<close>

text \<open>
  C36: a call of a trampoline jumps to its target with the registers that carry arguments untouched, and after it has been
  disarmed returns a zero of the result type. Disarming cannot report a failure: if the page cannot be made
  writable the calls still reach the target, and if it cannot be made executable again they fault.\<close>

theorem trampoline_forwards:
  assumes "trampoline_create reserved protect target kind pages = (Some p, pages')" "5 \<le> n"
  shows "call_page n pages' p c = Jumped target (c\<lparr>pc := 14, zero_flag := False\<rparr>) \<and>
    (let after = call_page n (trampoline_disarm protect' (Some p) pages') p c in
     if \<not> protect' False then after = Jumped target (c\<lparr>pc := 14, zero_flag := False\<rparr>)
     else if protect' True then \<exists>c'. after = Returned c' \<and> returns_zero kind c'
     else after = Fault)"
proof -
  from assms(1) obtain page where page: "pages' p = Some \<lparr>page_bytes = page, page_exec = True\<rparr>" "forwards page kind 1 target"
    using created_forwards [of target kind]
    by (auto simp: trampoline_create_def protect_page_def Let_def split: if_splits option.splits)
  note armed = run_armed [OF page(2) _ assms(2), of c, simplified]
  note disarmed = run_disarmed [OF disarmed_forwards [OF page(2)] assms(2), of c]
  show ?thesis
    using armed disarmed page(1) by (auto simp: call_page_def trampoline_disarm_def protect_page_def Let_def)
qed

theorem trampoline_forwards_witness:
  "\<exists>pages. trampoline_create (Some 7) (\<lambda>_. True) 0x1000 86 (\<lambda>_. None) = (Some 7, pages) \<and>
     call_page 5 pages 7 \<lparr>pc = 0, zero_flag = False, rax = 1, xmm0 = 2\<rparr> = Jumped 0x1000 \<lparr>pc = 14, zero_flag = False, rax = 1, xmm0 = 2\<rparr>"
proof -
  obtain pages where c: "trampoline_create (Some 7) (\<lambda>_. True) 0x1000 86 (\<lambda>_. None) = (Some 7, pages)"
    by (simp add: trampoline_create_def protect_page_def Let_def)
  from trampoline_forwards [OF c order_refl, of "\<lparr>pc = 0, zero_flag = False, rax = 1, xmm0 = 2\<rparr>"] c show ?thesis by simp
qed

end
