(* ===== verification/Field_Scan.thy ===== *)
theory Field_Scan
  imports Bytecode_Scan
begin

text \<open>
  Finding the field that an instruction inside a pattern match accesses (\<^verbatim>\<open>hook/field_scan.c\<close>). The VM is asked for
  the code of the matched method and for the constant pool of the class; both answers are parameters. As in the
  bytecode scan a trace records the buffers of the VM.
\<close>

section \<open>The scan\<close>

type_synonym jfieldID = nat

text \<open>
  The constant pool comes with its count and its size in bytes; the code is asked for again after the scan, and may then
  be answered differently.
\<close>

record field_vm =
  field_scan_api :: jvmti_scan
  GetBytecodes_again :: "jmethodID \<Rightarrow> jvmtiError + u1 list option"
  GetConstantPool :: "jclass \<Rightarrow> jvmtiError + int \<times> int \<times> u1 list option"
  GetFieldID :: "jclass \<Rightarrow> cstring \<Rightarrow> cstring \<Rightarrow> jfieldID option"
  GetStaticFieldID :: "jclass \<Rightarrow> cstring \<Rightarrow> cstring \<Rightarrow> jfieldID option"

definition utf8_to_buffer :: "constant_pool \<Rightarrow> u2 \<Rightarrow> nat \<Rightarrow> cstring option" where
  "utf8_to_buffer pool index room =
     (case constant_pool_utf8 pool index of
        None \<Rightarrow> None
      | Some bytes \<Rightarrow> if length bytes + 1 > room then None else Some (takeWhile (\<lambda>c. c \<noteq> 0) bytes))"

definition read_pool_of ::
  "alloc \<Rightarrow> field_vm \<Rightarrow> jclass \<Rightarrow> (classfile_status + constant_pool) \<times> vm_event list" where
  "read_pool_of mem vm target =
     (let released = [Acquired (Pool_Buffer target), Deallocated (Pool_Buffer target)] in
      case GetConstantPool vm target of
        Inl error \<Rightarrow> (Inl CLASSFILE_ERR_TRUNCATED, [])
      | Inr (pool_size, byte_count, None) \<Rightarrow> (Inl CLASSFILE_ERR_TRUNCATED, [])
      | Inr (pool_size, byte_count, Some bytes) \<Rightarrow>
          if byte_count < 0 \<or> pool_size < 1 then (Inl CLASSFILE_ERR_TRUNCATED, released)
          else
            let total = nat byte_count + 2 in
            if \<not> mem Alloc_bytes total then (Inl CLASSFILE_ERR_OUT_OF_MEMORY, released)
            else
              let buffer = be2 (of_int pool_size) @ take (nat byte_count) bytes
              in (map_sum id fst (constant_pool_read mem (byte_cursor_init buffer) constant_pool_init), released))"

definition access_static :: "u1 \<Rightarrow> bool" where
  "access_static opcode \<longleftrightarrow> opcode = JVM_OPC_getstatic \<or> opcode = JVM_OPC_putstatic"

definition field_access :: "u1 \<Rightarrow> bool" where
  "field_access opcode \<longleftrightarrow>
     opcode = JVM_OPC_getstatic \<or> opcode = JVM_OPC_putstatic \<or> opcode = JVM_OPC_getfield \<or> opcode = JVM_OPC_putfield"

text \<open>From the index in the instruction to the field: the name and the type of the reference, looked up in the target.\<close>

definition resolve_field ::
  "field_vm \<Rightarrow> jclass \<Rightarrow> constant_pool \<Rightarrow> u2 \<Rightarrow> bool \<Rightarrow> jfieldID option" where
  "resolve_field vm target pool field_index is_static =
     (case constant_pool_at pool field_index of
        Some (CP_Fieldref c n) \<Rightarrow>
          (case constant_pool_at pool n of
             Some (CP_NameAndType name_at desc_at) \<Rightarrow>
               (case (utf8_to_buffer pool name_at 256, utf8_to_buffer pool desc_at 512) of
                  (Some name, Some descriptor) \<Rightarrow>
                    if is_static then GetStaticFieldID vm target name descriptor else GetFieldID vm target name descriptor
                | _ \<Rightarrow> None)
           | _ \<Rightarrow> None)
      | _ \<Rightarrow> None)"

record field_result =
  field_status :: jni2hook_status
  field_found :: "(jfieldID \<times> bool) option"
  field_error :: "jvmtiError option"
  field_trace :: "vm_event list"

definition field_scan_find_in_class ::
  "alloc \<Rightarrow> field_vm \<Rightarrow> jclass option \<Rightarrow> cstring option \<Rightarrow> u4 \<Rightarrow> field_result" where
  "field_scan_find_in_class mem vm target pattern instruction_offset =
     (let fail = (\<lambda>status trace. \<lparr>field_status = status, field_found = None, field_error = None, field_trace = trace\<rparr>) in
      case (target, pattern) of
        (Some target, Some pattern) \<Rightarrow>
          let scan = bytecode_scan_find_in_class mem (field_scan_api vm) target (Some pattern) in
          (case scan_found scan of
             None \<Rightarrow> (fail (scan_status scan) (scan_trace scan))\<lparr>field_error := scan_error scan\<rparr>
           | Some (m, match_offset) \<Rightarrow>
               (case GetBytecodes_again vm m of
                  Inl error \<Rightarrow> fail JNI2HOOK_ERR_JVMTI (scan_trace scan)
                | Inr None \<Rightarrow> fail JNI2HOOK_ERR_JVMTI (scan_trace scan)
                | Inr (Some code) \<Rightarrow>
                    let at = unat match_offset + unat instruction_offset;
                        trace = scan_trace scan @ [Acquired (Code_Buffer m), Deallocated (Code_Buffer m)] in
                    if at + 3 > length code then fail JNI2HOOK_ERR_NOT_FOUND trace
                    else if \<not> field_access (code ! at) then fail JNI2HOOK_ERR_NOT_FOUND trace
                    else
                      let (pool, released) = read_pool_of mem vm target;
                          trace = trace @ released in
                      (case pool of
                         Inl status \<Rightarrow> fail JNI2HOOK_ERR_JVMTI trace
                       | Inr pool \<Rightarrow>
                           let is_static = access_static (code ! at) in
                           (case resolve_field vm target pool (get2 (code ! (at + 1)) (code ! (at + 2))) is_static of
                              None \<Rightarrow> fail JNI2HOOK_ERR_NOT_FOUND trace
                            | Some field \<Rightarrow>
                                \<lparr>field_status = JNI2HOOK_OK, field_found = Some (field, is_static), field_error = None,
                                 field_trace = trace\<rparr>))))
      | _ \<Rightarrow> fail JNI2HOOK_ERR_NOT_FOUND [])"

section \<open>Properties\<close>

lemma neutral_pair: "neutral [Acquired b, Deallocated b]"
  using neutral_simps(3) [of "[]"] by simp

lemma find_in_class_neutral: "neutral (scan_trace (bytecode_scan_find_in_class mem vm target pattern))"
  using scan_prepared_trace by (auto simp: bytecode_scan_find_in_class_def Let_def split: prod.split)

lemma read_pool_neutral: "neutral (snd (read_pool_of mem vm target))"
  using neutral_pair by (auto simp: read_pool_of_def Let_def split: sum.split option.split)

text \<open>
  whatever the VM answers, the buffers of the method list, of the code and of the constant pool are each deallocated
  exactly once, also on every failing path.\<close>

theorem field_scan_releases: "balanced (field_trace (field_scan_find_in_class mem vm target pattern offset)) []"
proof (cases "target = None \<or> pattern = None")
  case False
  then obtain k p where kp: "target = Some k" "pattern = Some p" by auto
  let ?scan = "bytecode_scan_find_in_class mem (field_scan_api vm) k (Some p)"
  let ?r = "field_scan_find_in_class mem vm target pattern offset"
  have n: "neutral (scan_trace ?scan)" "neutral [Acquired (Code_Buffer m), Deallocated (Code_Buffer m)]" "neutral (snd (read_pool_of mem vm k))" for m
    by (rule find_in_class_neutral neutral_pair read_pool_neutral)+
  note sum = neutral_simps(2) [OF n(1,2)] neutral_simps(2) [OF neutral_simps(2) [OF n(1,2)] n(3), simplified]
  have "neutral (field_trace ?r)"
    using n(1) sum by (simp add: field_scan_find_in_class_def kp Let_def case_prod_beta split: option.split sum.split)
  then show ?thesis unfolding neutral_def by (metis append_Nil2 balanced.simps(1))
qed (auto simp: field_scan_find_in_class_def split: option.split)


text \<open>The names of a reference, read from the pool the VM gave.\<close>

definition reference_named :: "constant_pool \<Rightarrow> u2 \<Rightarrow> cstring \<Rightarrow> cstring \<Rightarrow> bool" where
  "reference_named pool index name descriptor \<longleftrightarrow>
     (\<exists>c n name_at desc_at. constant_pool_at pool index = Some (CP_Fieldref c n) \<and>
        constant_pool_at pool n = Some (CP_NameAndType name_at desc_at) \<and>
        constant_pool_utf8 pool name_at = Some name \<and> constant_pool_utf8 pool desc_at = Some descriptor)"

lemma trim_at: "constant_pool_at (pool_trim pool) i = constant_pool_at pool i"
  by (cases "i < pool_count pool") (auto simp: constant_pool_at_def pool_trim_def word_less_nat_alt not_less word_le_nat_alt)

lemma trim_named: "reference_named (pool_trim pool) i name descriptor = reference_named pool i name descriptor"
  by (simp add: reference_named_def constant_pool_utf8_def trim_at)

lemma utf8_fits: "constant_pool_utf8 pool i = Some t \<Longrightarrow> length t < room \<Longrightarrow> 0 \<notin> set t \<Longrightarrow> utf8_to_buffer pool i room = Some t"
  by (auto simp: utf8_to_buffer_def takeWhile_eq_all_conv)

lemma resolve_named:
  assumes "reference_named pool i name descriptor" "length name < 256" "length descriptor < 512" "0 \<notin> set name" "0 \<notin> set descriptor"
  shows "resolve_field vm k pool i st = (if st then GetStaticFieldID vm k name descriptor else GetFieldID vm k name descriptor)"
proof -
  obtain c n name_at desc_at where p: "constant_pool_at pool i = Some (CP_Fieldref c n)" "constant_pool_at pool n = Some (CP_NameAndType name_at desc_at)"
    "constant_pool_utf8 pool name_at = Some name" "constant_pool_utf8 pool desc_at = Some descriptor"
    using assms(1) by (auto simp: reference_named_def)
  with utf8_fits [OF p(3) assms(2,4)] utf8_fits [OF p(4) assms(3,5)] show ?thesis by (simp add: resolve_field_def)
qed

lemma pool_given:
  assumes "wf_pool pool" "alloc_total mem"
    "GetConstantPool vm k = Inr (int (unat (pool_count pool)), int (length entries), Some entries)" "enc_pool pool = be2 (pool_count pool) @ entries"
  shows "fst (read_pool_of mem vm k) = Inr (pool_trim pool)"
proof -
  have "constant_pool_read mem (byte_cursor_init (enc_pool pool)) constant_pool_init = Inr (pool_trim pool, \<lparr>cur_data = enc_pool pool, cur_pos = length (enc_pool pool), cur_ok = True\<rparr>)"
    by (rule constant_pool_read_complete [OF assms(1,2)]) (simp add: spans_whole)
  moreover have "mem Alloc_bytes (length entries + 2)" using assms(2) by (simp add: alloc_total_def)
  moreover have "\<not> int (unat (pool_count pool)) < 1" using assms(1) unfolding wf_pool_def by linarith
  ultimately show ?thesis using assms(3,4) by (simp add: read_pool_of_def Let_def)
qed

text \<open>
  C37: the field of an instruction inside a match. If the VM hands out the constant pool of the class as the class file has it, the
  instruction at the offset behind the match accesses a field, and the names of its reference fit the buffers, then the
  answer is the field of the searched class with that name and type, static or not as the instruction says; when that class has no such field, the answer is
  that none was found. The class that the reference names is not asked.\<close>

theorem field_scan_resolves:
  assumes "alloc_total mem" "scan_found (bytecode_scan_find_in_class mem (field_scan_api vm) k (Some pattern)) = Some (m, match)"
    and "GetBytecodes_again vm m = Inr (Some code)" "at = unat match + unat offset" "at + 3 \<le> length code" "field_access (code ! at)"
    and "wf_pool pool" "GetConstantPool vm k = Inr (int (unat (pool_count pool)), int (length entries), Some entries)"
    and "enc_pool pool = be2 (pool_count pool) @ entries"
    and "reference_named pool (get2 (code ! (at + 1)) (code ! (at + 2))) name descriptor"
    and "length name < 256" "length descriptor < 512" "0 \<notin> set name" "0 \<notin> set descriptor"
  shows "let st = (code ! at \<in> {JVM_OPC_getstatic, JVM_OPC_putstatic});
           field = (if st then GetStaticFieldID vm k name descriptor else GetFieldID vm k name descriptor);
           r = field_scan_find_in_class mem vm (Some k) (Some pattern) offset
         in field_found r = map_option (\<lambda>f. (f, st)) field \<and> field_status r = (if field = None then JNI2HOOK_ERR_NOT_FOUND else JNI2HOOK_OK)"
proof -
  from assms(10) have "reference_named (pool_trim pool) (get2 (code ! (at + 1)) (code ! (at + 2))) name descriptor" by (simp add: trim_named)
  note r = resolve_named [OF this assms(11-14)]
  obtain es where p: "read_pool_of mem vm k = (Inr (pool_trim pool), es)"
    using pool_given [OF assms(7,1,8,9)] by (metis prod.collapse)
  show ?thesis
    using assms(2-6) r p by (auto simp: field_scan_find_in_class_def Let_def access_static_def split: option.split)
qed

text \<open>A class with the field f, and a method that reads it.\<close>

definition field_pool :: constant_pool where
  "field_pool = \<lparr>pool_entries = [CP_None, CP_Fieldref 0 2, CP_NameAndType 3 4, CP_Utf8 (cstr ''f''), CP_Utf8 (cstr ''I'')], pool_count = 5\<rparr>"

definition reading_vm :: field_vm where
  "reading_vm = \<lparr>
     field_scan_api = \<lparr>GetLoadedClasses = Inr [9], GetClassMethods = (\<lambda>_. Inr [3]), GetBytecodes = (\<lambda>_. Inr (Some [42, 180, 0, 1, 172]))\<rparr>,
     GetBytecodes_again = (\<lambda>_. Inr (Some [42, 180, 0, 1, 172])),
     GetConstantPool = (\<lambda>_. Inr (5, 18, Some (concat (map enc_cp (pool_used field_pool))))),
     GetFieldID = (\<lambda>k name descriptor. if name = cstr ''f'' \<and> descriptor = cstr ''I'' then Some 77 else None),
     GetStaticFieldID = (\<lambda>_ _ _. None)\<rparr>"

lemma field_pool_ok: "wf_pool field_pool"
  by (simp add: wf_pool_def field_pool_def pool_inv_def pool_used_def CLASSFILE_MAX_COUNT_def cp_info_slots_def)

theorem field_scan_resolves_witness:
  "field_found (field_scan_find_in_class heap_ok reading_vm (Some 9) (Some (cstr ''2a b4'')) 1) = Some (77, False)"
proof -
  have scan: "scan_found (bytecode_scan_find_in_class heap_ok (field_scan_api reading_vm) 9 (Some (cstr ''2a b4''))) = Some (3, 0)" by code_simp
  have ref: "reference_named field_pool (get2 0 1) (cstr ''f'') (cstr ''I'')"
    unfolding reference_named_def by (rule exI [of _ 0], rule exI [of _ 2], rule exI [of _ 3], rule exI [of _ 4]) code_simp
  have len: "length (concat (map enc_cp (pool_used field_pool))) = 18" "unat (pool_count field_pool) = 5" by code_simp+
  let ?code = "[42, 180, 0, 1, 172] :: u1 list"
  have "let st = (?code ! 1 \<in> {JVM_OPC_getstatic, JVM_OPC_putstatic});
           field = (if st then GetStaticFieldID reading_vm 9 (cstr ''f'') (cstr ''I'') else GetFieldID reading_vm 9 (cstr ''f'') (cstr ''I''));
           r = field_scan_find_in_class heap_ok reading_vm (Some 9) (Some (cstr ''2a b4'')) 1
         in field_found r = map_option (\<lambda>f. (f, st)) field \<and> field_status r = (if field = None then JNI2HOOK_ERR_NOT_FOUND else JNI2HOOK_OK)"
    by (rule field_scan_resolves [where code = ?code and pool = field_pool and entries = "concat (map enc_cp (pool_used field_pool))",
          OF alloc_total_heap_ok scan])
       (use ref len field_pool_ok in \<open>simp_all add: reading_vm_def enc_pool_def field_access_def cstr_def\<close>)
  then show ?thesis by (simp add: Let_def reading_vm_def)
qed

end
