(* ===== verification/Hook_Registry.thy ===== *)
theory Hook_Registry
  imports Watch_Lifecycle Call_Insertion Trampoline Field_Scan
begin

text \<open>
  The registry of hooks and the public calls of \<^verbatim>\<open>jni2hook.c\<close>. A class with hooks is always rebuilt from the
  bytes it had before its first redefinition: every hook is applied to the parsed original, the result is handed
  to the VM, and the native functions are bound. The calls take the global lock, so each is one function
  on the state.
\<close>

section \<open>State\<close>

datatype hook_kind = HOOK_MAKE_NATIVE | HOOK_INSERT_CALL

text \<open>An address the VM can call: the function of the user, or a trampoline page that forwards to it.\<close>

datatype code_pointer = Native_Function u8 | Trampoline_Page nat

record hook_entry =
  he_method :: jmethodID
  he_name :: cstring
  he_signature :: cstring
  he_added_name :: cstring
  he_function :: u8
  he_trampoline :: "nat option"
  he_static :: bool
  he_original :: "jmethodID option"
  he_offset :: u4
  he_kind :: hook_kind

record hooked_class =
  hc_name :: cstring
  hc_klass :: jclass
  hc_hooks :: "hook_entry list"
  hc_capacity :: nat

type_synonym jthread = nat

text \<open>What the library asked the VM to do, with the answer. The newest call is first.\<close>

datatype hook_event =
    Redefine jclass "u1 list" jvmtiError
  | Bind jclass cstring cstring code_pointer bool
  | Suspended "jthread list"
  | Resumed "jthread list"
  | Flag_Set bool

text \<open>The global references of the registry are counted apart from those of the watches and of the cache.\<close>

record hook_state =
  live :: live_state
  class_refs :: "jobject multiset"
  trampolines :: pages
  g_classes :: "hooked_class list"
  g_class_cap :: nat
  g_insert_serial :: u8
  g_initialized :: bool
  g_can_suspend :: bool
  g_last_error :: jvmtiError
  g_flag_state :: int
  vm_log :: "hook_event list"

text \<open>
  The answers of the VM and of the operating system. They may depend on everything that was asked before, so no two
  queries have to agree.
\<close>

record hook_vm =
  vm_base :: "hook_event list \<Rightarrow> jvm"
  RedefineClasses :: "hook_event list \<Rightarrow> jclass \<Rightarrow> u1 list \<Rightarrow> jvmtiError"
  RegisterNatives_ok :: "hook_event list \<Rightarrow> jclass \<Rightarrow> cstring \<Rightarrow> cstring \<Rightarrow> code_pointer \<Rightarrow> bool"
  GetMethodName :: "jmethodID \<Rightarrow> jvmtiError + cstring option \<times> cstring option"
  GetMethodModifiers :: "jmethodID \<Rightarrow> jvmtiError + u4"
  GetCurrentThread :: "hook_event list \<Rightarrow> jvmtiError + jthread option"
  GetAllThreads :: "hook_event list \<Rightarrow> jvmtiError + jthread list"
  SuspendThreadList :: "hook_event list \<Rightarrow> jthread list \<Rightarrow> jvmtiError list"
  mmap_page :: "nat option"
  mprotect_ok :: "hook_event list \<Rightarrow> nat \<Rightarrow> bool \<Rightarrow> bool"
  set_bool_flag :: "hook_event list \<Rightarrow> bool \<Rightarrow> bool option"
  create_jvmti_ok :: bool
  AddCapabilities_error :: jvmtiError
  granted_redefine :: bool
  granted_retransform :: bool
  granted_suspend :: bool

definition vm_now :: "hook_vm \<Rightarrow> hook_state \<Rightarrow> jvm" where
  "vm_now vm s = vm_base vm (vm_log s)"

definition jvm_env :: "hook_vm \<Rightarrow> hook_state \<Rightarrow> bool" where
  "jvm_env vm s = env_available (vm_now vm s)"

definition jvm_jvmti :: "hook_state \<Rightarrow> bool" where
  "jvm_jvmti s = jvmti_bound (live s)"

definition note_event :: "hook_event \<Rightarrow> hook_state \<Rightarrow> hook_state" where
  "note_event e s = s\<lparr>vm_log := e # vm_log s\<rparr>"

fun JNI2Hook_StatusMessage :: "jni2hook_status \<Rightarrow> string" where
  "JNI2Hook_StatusMessage JNI2HOOK_OK = ''ok''"
| "JNI2Hook_StatusMessage JNI2HOOK_ERR_NOT_INITIALIZED = ''JNI2Hook_Init has not run''"
| "JNI2Hook_StatusMessage JNI2HOOK_ERR_NO_JNI = ''could not obtain a JNIEnv''"
| "JNI2Hook_StatusMessage JNI2HOOK_ERR_NO_JVMTI = ''could not obtain a jvmtiEnv''"
| "JNI2Hook_StatusMessage JNI2HOOK_ERR_CAPABILITIES = ''the VM refused the required JVMTI capabilities''"
| "JNI2Hook_StatusMessage JNI2HOOK_ERR_JVMTI = ''a JVMTI operation failed''"
| "JNI2Hook_StatusMessage JNI2HOOK_ERR_JNI = ''a JNI operation failed''"
| "JNI2Hook_StatusMessage JNI2HOOK_ERR_JAVA_EXCEPTION = ''a Java exception was thrown''"
| "JNI2Hook_StatusMessage JNI2HOOK_ERR_CLASS_NOT_CACHED = ''the declaring class could not be captured''"
| "JNI2Hook_StatusMessage JNI2HOOK_ERR_CLASS_FILE = ''the class file could not be read or written''"
| "JNI2Hook_StatusMessage JNI2HOOK_ERR_TRANSFORM = ''the method cannot be hooked''"
| "JNI2Hook_StatusMessage JNI2HOOK_ERR_ALREADY_HOOKED = ''this method is already hooked''"
| "JNI2Hook_StatusMessage JNI2HOOK_ERR_NOT_HOOKED = ''this method is not hooked''"
| "JNI2Hook_StatusMessage JNI2HOOK_ERR_INVALID_PATTERN = ''the bytecode pattern is invalid''"
| "JNI2Hook_StatusMessage JNI2HOOK_ERR_NOT_FOUND = ''no method matched the bytecode pattern''"
| "JNI2Hook_StatusMessage JNI2HOOK_ERR_OUT_OF_MEMORY = ''out of memory''"

definition jvmti_failed :: "jvmtiError \<Rightarrow> hook_state \<Rightarrow> jni2hook_status \<times> hook_state" where
  "jvmti_failed error s = (JNI2HOOK_ERR_JVMTI, s\<lparr>g_last_error := error\<rparr>)"

section \<open>Lookup\<close>

definition find_class :: "hook_vm \<Rightarrow> jclass option \<Rightarrow> hook_state \<Rightarrow> nat option" where
  "find_class vm klass s =
     (if \<not> jvm_env vm s then None
      else case klass of None \<Rightarrow> None | Some k \<Rightarrow> find_index (\<lambda>c. hc_klass c = k) (g_classes s))"

definition find_class_of_method :: "jmethodID \<Rightarrow> hook_state \<Rightarrow> nat option" where
  "find_class_of_method m s = find_index (\<lambda>c. list_ex (\<lambda>e. he_method e = m) (hc_hooks c)) (g_classes s)"

definition method_conflicts :: "jmethodID \<Rightarrow> hook_kind \<Rightarrow> hook_state \<Rightarrow> bool" where
  "method_conflicts m kind s \<longleftrightarrow>
     list_ex (\<lambda>c. list_ex (\<lambda>e. he_method e = m \<and> (kind = HOOK_MAKE_NATIVE \<or> he_kind e = HOOK_MAKE_NATIVE)) (hc_hooks c))
       (g_classes s)"

definition COPY_SUFFIX :: cstring where
  "COPY_SUFFIX = cstr ''$jni2hook''"

definition INSERT_PREFIX :: cstring where
  "INSERT_PREFIX = cstr ''$jni2hook$''"

text \<open>The decimal text of the serial number.\<close>

fun decimal :: "nat \<Rightarrow> cstring" where
  "decimal n = (if n < 10 then [of_nat (48 + n)] else decimal (n div 10) @ [of_nat (48 + n mod 10)])"

declare decimal.simps [simp del]

definition make_insert_name :: "alloc \<Rightarrow> hook_state \<Rightarrow> cstring option \<times> hook_state" where
  "make_insert_name mem s =
     (if \<not> mem Alloc_bytes (length INSERT_PREFIX + 1 + 20) then (None, s)
      else (Some (INSERT_PREFIX @ decimal (unat (g_insert_serial s))), s\<lparr>g_insert_serial := g_insert_serial s + 1\<rparr>))"

definition make_copy_name :: "alloc \<Rightarrow> cstring \<Rightarrow> cstring option" where
  "make_copy_name mem name =
     (if mem Alloc_bytes (length name + length COPY_SUFFIX + 1) then Some (name @ COPY_SUFFIX) else None)"

section \<open>Entries\<close>

definition free_entry :: "hook_vm \<Rightarrow> hook_entry \<Rightarrow> hook_state \<Rightarrow> hook_state" where
  "free_entry vm e s =
     s\<lparr>trampolines := (case he_trampoline e of
          None \<Rightarrow> trampolines s
        | Some p \<Rightarrow> trampoline_disarm (mprotect_ok vm (vm_log s) p) (Some p) (trampolines s))\<rparr>"

text \<open>The class at the index goes, and those behind it move down.\<close>

definition drop_class :: "hook_vm \<Rightarrow> nat \<Rightarrow> hook_state \<Rightarrow> hook_state" where
  "drop_class vm i s =
     (let c = g_classes s ! i;
          s = (if jvm_env vm s then s\<lparr>class_refs := class_refs s - {#hc_klass c#}\<rparr> else s);
          s = fold (free_entry vm) (hc_hooks c) s
      in s\<lparr>g_classes := take i (g_classes s) @ drop (Suc i) (g_classes s)\<rparr>)"

definition put_hooks :: "nat \<Rightarrow> hook_entry list \<Rightarrow> hook_state \<Rightarrow> hook_state" where
  "put_hooks i hooks s = s\<lparr>g_classes := (g_classes s)[i := (g_classes s ! i)\<lparr>hc_hooks := hooks\<rparr>]\<rparr>"

section \<open>Threads\<close>

definition suspend_others :: "alloc \<Rightarrow> hook_vm \<Rightarrow> hook_state \<Rightarrow> jthread list \<times> hook_state" where
  "suspend_others mem vm s =
     (if \<not> jvm_jvmti s \<or> \<not> g_can_suspend s then ([], s)
      else
        case GetCurrentThread vm (vm_log s) of
          Inl _ \<Rightarrow> ([], s)
        | Inr current \<Rightarrow>
            (case GetAllThreads vm (vm_log s) of
               Inl _ \<Rightarrow> ([], s)
             | Inr threads \<Rightarrow>
                 let kept = filter (\<lambda>t. \<not> (jvm_env vm s \<and> current = Some t)) threads in
                 if kept = [] then ([], s)
                 else if \<not> mem Alloc_jvmtiError (length kept) then ([], s)
                 else
                   let results = SuspendThreadList vm (vm_log s) kept;
                       suspended = map fst (filter (\<lambda>(t, r). r = JVMTI_ERROR_NONE) (zip kept results))
                   in (suspended, note_event (Suspended suspended) s)))"

definition resume_others :: "jthread list \<Rightarrow> hook_state \<Rightarrow> hook_state" where
  "resume_others suspended s =
     (if jvm_jvmti s \<and> suspended \<noteq> [] then note_event (Resumed suspended) s else s)"

section \<open>Rebuilding a class\<close>

text \<open>\<^verbatim>\<open>strcmp\<close> up to the size of its result.\<close>

fun strcmp :: "cstring \<Rightarrow> cstring \<Rightarrow> int" where
  "strcmp [] [] = 0"
| "strcmp [] (d # ds) = - 1"
| "strcmp (c # cs) [] = 1"
| "strcmp (c # cs) (d # ds) = (if c = d then strcmp cs ds else if c < d then - 1 else 1)"

definition compare_insert_entries :: "hook_entry \<Rightarrow> hook_entry \<Rightarrow> int" where
  "compare_insert_entries left right =
     (let order = strcmp (he_name left) (he_name right) in
      if order \<noteq> 0 then order
      else
        let order = strcmp (he_signature left) (he_signature right) in
        if order \<noteq> 0 then order
        else if he_offset left > he_offset right then - 1
        else if he_offset left < he_offset right then 1
        else 0)"

text \<open>The inner loop of the insertion sort runs down from the end of the sorted part, which is kept reversed.\<close>

fun sift :: "hook_entry \<Rightarrow> hook_entry list \<Rightarrow> hook_entry list" where
  "sift e [] = [e]"
| "sift e (x # xs) = (if compare_insert_entries e x < 0 then x # sift e xs else e # x # xs)"

definition sort_inserts :: "hook_entry list \<Rightarrow> hook_entry list" where
  "sort_inserts es = rev (foldl (\<lambda>sorted e. sift e sorted) [] es)"

definition transform_result :: "transform_status \<Rightarrow> jni2hook_status" where
  "transform_result r = (if r = TRANSFORM_ERR_CLASSFILE then JNI2HOOK_ERR_CLASS_FILE else JNI2HOOK_ERR_TRANSFORM)"

fun make_natives :: "alloc \<Rightarrow> hook_entry list \<Rightarrow> ClassFile \<Rightarrow> transform_status \<times> ClassFile" where
  "make_natives mem [] cf = (TRANSFORM_OK, cf)"
| "make_natives mem (e # es) cf =
     (if he_kind e = HOOK_INSERT_CALL then make_natives mem es cf
      else
        let (status, cause, cf) = class_transform_make_native mem cf (he_name e) (he_signature e) (he_added_name e)
        in if status \<noteq> TRANSFORM_OK then (status, cf) else make_natives mem es cf)"

fun insert_calls :: "alloc \<Rightarrow> hook_entry list \<Rightarrow> ClassFile \<Rightarrow> (transform_status \<times> ClassFile) option" where
  "insert_calls mem [] cf = Some (TRANSFORM_OK, cf)"
| "insert_calls mem (e # es) cf =
     (case class_transform_insert_call mem cf (he_name e) (he_signature e) (he_offset e) (he_added_name e) of
        None \<Rightarrow> None
      | Some (status, cause, cf) \<Rightarrow> if status \<noteq> TRANSFORM_OK then Some (status, cf) else insert_calls mem es cf)"

text \<open>The definition a class is given: nothing is returned if an insertion does not come back.\<close>

definition rebuild :: "alloc \<Rightarrow> u1 list \<Rightarrow> hook_entry list \<Rightarrow> (jni2hook_status + u1 list) option" where
  "rebuild mem original hooks =
     (if hooks = [] then Some (Inr original)
      else
        case classfile_parse mem original of
          Inl _ \<Rightarrow> Some (Inl JNI2HOOK_ERR_CLASS_FILE)
        | Inr cf \<Rightarrow>
            let inserts = filter (\<lambda>e. he_kind e = HOOK_INSERT_CALL) hooks in
            if inserts \<noteq> [] \<and> \<not> mem Alloc_pointer (length inserts) then Some (Inl JNI2HOOK_ERR_OUT_OF_MEMORY)
            else
              let (status, cf) = make_natives mem hooks cf in
              if status \<noteq> TRANSFORM_OK then Some (Inl (transform_result status))
              else
                case insert_calls mem (sort_inserts inserts) cf of
                  None \<Rightarrow> None
                | Some (status, cf) \<Rightarrow>
                    if status \<noteq> TRANSFORM_OK then Some (Inl (transform_result status))
                    else
                      (case classfile_serialize mem cf of
                         Inl _ \<Rightarrow> Some (Inl JNI2HOOK_ERR_CLASS_FILE)
                       | Inr bytes \<Rightarrow> Some (Inr bytes)))"

text \<open>What is bound for an entry: the method itself, or the method added for an inserted call.\<close>

definition binding_name :: "hook_entry \<Rightarrow> cstring" where
  "binding_name e = (if he_kind e = HOOK_MAKE_NATIVE then he_name e else he_added_name e)"

definition binding_signature :: "hook_entry \<Rightarrow> cstring" where
  "binding_signature e = (if he_kind e = HOOK_MAKE_NATIVE then he_signature e else cstr ''()V'')"

definition binding_pointer :: "hook_entry \<Rightarrow> code_pointer" where
  "binding_pointer e = (case he_trampoline e of Some p \<Rightarrow> Trampoline_Page p | None \<Rightarrow> Native_Function (he_function e))"

definition first_failure :: "jni2hook_status \<Rightarrow> jni2hook_status \<Rightarrow> jni2hook_status" where
  "first_failure result new = (if result = JNI2HOOK_OK then new else result)"

fun bind_hooks ::
  "hook_vm \<Rightarrow> jclass \<Rightarrow> hook_entry list \<Rightarrow> jni2hook_status \<Rightarrow> hook_state \<Rightarrow> jni2hook_status \<times> hook_entry list \<times> hook_state" where
  "bind_hooks vm k [] result s = (result, [], s)"
| "bind_hooks vm k (e # es) result s =
     (let ok = RegisterNatives_ok vm (vm_log s) k (binding_name e) (binding_signature e) (binding_pointer e);
          s = note_event (Bind k (binding_name e) (binding_signature e) (binding_pointer e) ok) s;
          original = (if he_static e then GetStaticMethodID (vm_now vm s) k (Some (he_added_name e)) (Some (he_signature e))
                      else GetMethodID (vm_now vm s) k (Some (he_added_name e)) (Some (he_signature e)));
          (result, e) =
            (if \<not> ok then (first_failure result JNI2HOOK_ERR_JNI, e)
             else if he_kind e = HOOK_MAKE_NATIVE
             then (if original = None then first_failure result JNI2HOOK_ERR_JNI else result, e\<lparr>he_original := original\<rparr>)
             else (result, e));
          (result, es, s) = bind_hooks vm k es result s
      in (result, e # es, s))"

text \<open>
  The class keeps its place in the registry; only the identifiers of the copies change in its entries. The result
  is the status, the entries and the state.
\<close>

definition redefine ::
  "alloc \<Rightarrow> hook_vm \<Rightarrow> jclass \<Rightarrow> u1 list \<Rightarrow> hook_entry list \<Rightarrow> hook_state \<Rightarrow> jni2hook_status \<times> hook_entry list \<times> hook_state" where
  "redefine mem vm k bytes hooks s =
     (let (suspended, s) = (if hooks \<noteq> [] then suspend_others mem vm s else ([], s));
          error = RedefineClasses vm (vm_log s) k bytes;
          s = note_event (Redefine k bytes error) s;
          (result, hooks, s) =
            (if error \<noteq> JVMTI_ERROR_NONE then (let (result, s) = jvmti_failed error s in (result, hooks, s))
             else bind_hooks vm k hooks JNI2HOOK_OK s)
      in (result, hooks, resume_others suspended s))"

definition reapply ::
  "alloc \<Rightarrow> hook_vm \<Rightarrow> jclass \<Rightarrow> hook_entry list \<Rightarrow> hook_state \<Rightarrow> (jni2hook_status \<times> hook_entry list \<times> hook_state) option" where
  "reapply mem vm k hooks s =
     (if \<not> jvm_jvmti s then Some (JNI2HOOK_ERR_NO_JVMTI, hooks, s)
      else if \<not> jvm_env vm s then Some (JNI2HOOK_ERR_NO_JNI, hooks, s)
      else
        case class_cache_get True (Some k) (live s) of
          None \<Rightarrow> Some (JNI2HOOK_ERR_CLASS_NOT_CACHED, hooks, s)
        | Some original \<Rightarrow>
            (case rebuild mem original hooks of
               None \<Rightarrow> None
             | Some (Inl status) \<Rightarrow> Some (status, hooks, s)
             | Some (Inr bytes) \<Rightarrow> Some (redefine mem vm k bytes hooks s)))"

section \<open>Installing\<close>

text \<open>What is known of a method before anything is changed.\<close>

record hook_request =
  rq_class :: jclass
  rq_class_name :: cstring
  rq_name :: cstring
  rq_signature :: cstring
  rq_added_name :: cstring
  rq_static :: bool

definition added_name_for :: "alloc \<Rightarrow> hook_kind \<Rightarrow> cstring \<Rightarrow> hook_state \<Rightarrow> cstring option \<times> hook_state" where
  "added_name_for mem kind name s =
     (if kind = HOOK_MAKE_NATIVE then (make_copy_name mem name, s) else make_insert_name mem s)"

definition describe_method ::
  "alloc \<Rightarrow> hook_vm \<Rightarrow> jmethodID \<Rightarrow> hook_kind \<Rightarrow> hook_state \<Rightarrow> (jni2hook_status + hook_request) \<times> hook_state" where
  "describe_method mem vm m kind s =
     (case GetMethodDeclaringClass (vm_now vm s) m of
        Inl error \<Rightarrow> map_prod Inl id (jvmti_failed error s)
      | Inr None \<Rightarrow> (Inl JNI2HOOK_ERR_JVMTI, s)
      | Inr (Some k) \<Rightarrow>
          (case jvm_class_name_of mem (vm_now vm s) (live s) k of
             None \<Rightarrow> (Inl JNI2HOOK_ERR_JVMTI, s)
           | Some class_name \<Rightarrow>
               (case GetMethodName vm m of
                  Inl error \<Rightarrow> map_prod Inl id (jvmti_failed error s)
                | Inr (raw_name, raw_signature) \<Rightarrow>
                    (case (jvm_take_string mem raw_name, jvm_take_string mem raw_signature) of
                       (Some name, Some signature) \<Rightarrow>
                         (case added_name_for mem kind name s of
                            (None, s) \<Rightarrow> (Inl JNI2HOOK_ERR_OUT_OF_MEMORY, s)
                          | (Some added, s) \<Rightarrow>
                              (case GetMethodModifiers vm m of
                                 Inl error \<Rightarrow> map_prod Inl id (jvmti_failed error s)
                               | Inr modifiers \<Rightarrow>
                                   (case class_cache_ensure mem (vm_now vm s) (Some k) (Some class_name) (live s) of
                                      ((False, error), l) \<Rightarrow>
                                        (Inl JNI2HOOK_ERR_CLASS_NOT_CACHED, s\<lparr>live := l, g_last_error := error\<rparr>)
                                    | ((True, error), l) \<Rightarrow>
                                        (Inr \<lparr>rq_class = k, rq_class_name = class_name, rq_name = name, rq_signature = signature,
                                              rq_added_name = added, rq_static = (modifiers AND 8 \<noteq> 0)\<rparr>,
                                         s\<lparr>live := l\<rparr>))))
                     | _ \<Rightarrow> (Inl JNI2HOOK_ERR_OUT_OF_MEMORY, s)))))"

text \<open>The record of the class, found or appended; its reference is asked for under an address of its own.\<close>

definition registry_requester :: nat where
  "registry_requester = 1"

definition reserve_class ::
  "alloc \<Rightarrow> hook_vm \<Rightarrow> hook_request \<Rightarrow> hook_state \<Rightarrow> nat option \<times> hook_state" where
  "reserve_class mem vm rq s =
     (case find_class vm (Some (rq_class rq)) s of
        Some i \<Rightarrow> (Some i, s)
      | None \<Rightarrow>
          let count = length (g_classes s);
              capacity = (if count = g_class_cap s then if g_class_cap s \<noteq> 0 then g_class_cap s * 2 else 8 else g_class_cap s) in
          if count = g_class_cap s \<and> \<not> mem Alloc_hooked_class capacity then (None, s)
          else
            let s = s\<lparr>g_class_cap := capacity\<rparr>;
                copied = mem Alloc_bytes (length (rq_class_name rq) + 1);
                held = NewGlobalRef_ok (vm_now vm s) registry_requester (rq_class rq);
                s = (if held then s\<lparr>class_refs := add_mset (rq_class rq) (class_refs s)\<rparr> else s)
            in if \<not> copied \<or> \<not> held then (None, s)
               else (Some count,
                     s\<lparr>g_classes := g_classes s @
                        [\<lparr>hc_name = rq_class_name rq, hc_klass = rq_class rq, hc_hooks = [], hc_capacity = 0\<rparr>]\<rparr>))"

definition reserve_entry :: "alloc \<Rightarrow> nat \<Rightarrow> hook_state \<Rightarrow> bool \<times> hook_state" where
  "reserve_entry mem i s =
     (let c = g_classes s ! i in
      if length (hc_hooks c) = hc_capacity c then
        let capacity = (if hc_capacity c \<noteq> 0 then hc_capacity c * 2 else 4)
        in if \<not> mem Alloc_hook_entry capacity then (False, s)
           else (True, s\<lparr>g_classes := (g_classes s)[i := c\<lparr>hc_capacity := capacity\<rparr>]\<rparr>)
      else (True, s))"

text \<open>
  The letter behind the parenthesis of the signature. The kind of the entry is read before it is set, so that
  it is always that of a native method.
\<close>

definition return_letter :: "cstring \<Rightarrow> u1" where
  "return_letter signature =
     (case dropWhile (\<lambda>c. c \<noteq> 41) signature of [] \<Rightarrow> 86 | [_] \<Rightarrow> 0 | _ # letter # _ \<Rightarrow> letter)"

definition new_entry ::
  "hook_vm \<Rightarrow> jmethodID \<Rightarrow> u4 \<Rightarrow> u8 \<Rightarrow> hook_kind \<Rightarrow> hook_request \<Rightarrow> hook_state \<Rightarrow> hook_entry \<times> hook_state" where
  "new_entry vm m offset fn kind rq s =
     (let (page, pages) = trampoline_create (mmap_page vm) 
            (\<lambda>executable. case mmap_page vm of Some p \<Rightarrow> mprotect_ok vm (vm_log s) p executable | None \<Rightarrow> False) fn
            (return_letter (rq_signature rq)) (trampolines s)
      in (\<lparr>he_method = m, he_name = rq_name rq, he_signature = rq_signature rq, he_added_name = rq_added_name rq,
           he_function = fn, he_trampoline = page, he_static = rq_static rq, he_original = None, he_offset = offset,
           he_kind = kind\<rparr>,
          s\<lparr>trampolines := pages\<rparr>))"

text \<open>The new entry is taken back; the class goes with its last entry, else the others are applied again.\<close>

definition rollback ::
  "alloc \<Rightarrow> hook_vm \<Rightarrow> nat \<Rightarrow> jni2hook_status \<Rightarrow> hook_state \<Rightarrow> (jni2hook_status \<times> jmethodID option \<times> hook_state) option" where
  "rollback mem vm i result s =
     (let c = g_classes s ! i;
          hooks = butlast (hc_hooks c);
          s = free_entry vm (last (hc_hooks c)) (put_hooks i hooks s)
      in if hooks = [] then Some (result, None, drop_class vm i s)
         else map_option (\<lambda>(_, hooks, s). (result, None, put_hooks i hooks s)) (reapply mem vm (hc_klass c) hooks s))"

definition install ::
  "alloc \<Rightarrow> hook_vm \<Rightarrow> jmethodID \<Rightarrow> u4 \<Rightarrow> u8 \<Rightarrow> hook_kind \<Rightarrow> hook_state \<Rightarrow>
   (jni2hook_status \<times> jmethodID option \<times> hook_state) option" where
  "install mem vm m offset fn kind s =
     (if m = 0 \<or> fn = 0 then Some (JNI2HOOK_ERR_TRANSFORM, None, s)
      else if \<not> g_initialized s then Some (JNI2HOOK_ERR_NOT_INITIALIZED, None, s)
      else if \<not> jvm_jvmti s then Some (JNI2HOOK_ERR_NO_JVMTI, None, s)
      else if \<not> jvm_env vm s then Some (JNI2HOOK_ERR_NO_JNI, None, s)
      else if method_conflicts m kind s then Some (JNI2HOOK_ERR_ALREADY_HOOKED, None, s)
      else
        case describe_method mem vm m kind s of
          (Inl status, s) \<Rightarrow> Some (status, None, s)
        | (Inr rq, s) \<Rightarrow>
            (case reserve_class mem vm rq s of
               (None, s) \<Rightarrow> Some (JNI2HOOK_ERR_OUT_OF_MEMORY, None, s)
             | (Some i, s) \<Rightarrow>
                 (case reserve_entry mem i s of
                    (False, s) \<Rightarrow> Some (JNI2HOOK_ERR_OUT_OF_MEMORY, None, s)
                  | (True, s) \<Rightarrow>
                      let (e, s) = new_entry vm m offset fn kind rq s;
                          hooks = hc_hooks (g_classes s ! i) @ [e] in
                      (case reapply mem vm (hc_klass (g_classes s ! i)) hooks (put_hooks i hooks s) of
                         None \<Rightarrow> None
                       | Some (result, hooks, s) \<Rightarrow>
                           let s = put_hooks i hooks s in
                           if result \<noteq> JNI2HOOK_OK then rollback mem vm i result s
                           else Some (JNI2HOOK_OK, if kind = HOOK_MAKE_NATIVE then he_original (last hooks) else None, s)))))"

definition JNI2Hook_Install ::
  "alloc \<Rightarrow> hook_vm \<Rightarrow> jmethodID \<Rightarrow> u8 \<Rightarrow> hook_state \<Rightarrow> (jni2hook_status \<times> jmethodID option \<times> hook_state) option" where
  "JNI2Hook_Install mem vm m fn s = install mem vm m 0 fn HOOK_MAKE_NATIVE s"

definition JNI2Hook_InstallAt ::
  "alloc \<Rightarrow> hook_vm \<Rightarrow> jmethodID \<Rightarrow> u4 \<Rightarrow> u8 \<Rightarrow> hook_state \<Rightarrow> (jni2hook_status \<times> hook_state) option" where
  "JNI2Hook_InstallAt mem vm m offset fn s =
     map_option (\<lambda>(status, _, s). (status, s)) (install mem vm m offset fn HOOK_INSERT_CALL s)"

section \<open>Uninstalling\<close>

text \<open>The loop swaps every entry that stays to the front, in order.\<close>

function partition_loop ::
  "(hook_entry \<Rightarrow> bool) \<Rightarrow> nat \<Rightarrow> nat \<Rightarrow> hook_entry list \<Rightarrow> nat \<times> hook_entry list" where
  "partition_loop matches i front hooks =
     (if i < length hooks then
        if matches (hooks ! i) then partition_loop matches (i + 1) front hooks
        else partition_loop matches (i + 1) (front + 1)
               (if front \<noteq> i then hooks[front := hooks ! i, i := hooks ! front] else hooks)
      else (front, hooks))"
  by pat_completeness auto
termination by (relation "measure (\<lambda>(matches, i, front, hooks). length hooks - i)") auto

declare partition_loop.simps [simp del]

definition uninstall_matching ::
  "alloc \<Rightarrow> hook_vm \<Rightarrow> jmethodID \<Rightarrow> (hook_entry \<Rightarrow> bool) \<Rightarrow> hook_state \<Rightarrow> (jni2hook_status \<times> hook_state) option" where
  "uninstall_matching mem vm m matches s =
     (if \<not> g_initialized s then Some (JNI2HOOK_ERR_NOT_INITIALIZED, s)
      else
        case find_class_of_method m s of
          None \<Rightarrow> Some (JNI2HOOK_ERR_NOT_HOOKED, s)
        | Some i \<Rightarrow>
            let c = g_classes s ! i;
                (kept, arranged) = partition_loop matches 0 0 (hc_hooks c);
                s = put_hooks i arranged s in
            if kept = length (hc_hooks c) then Some (JNI2HOOK_ERR_NOT_HOOKED, s)
            else
              (case reapply mem vm (hc_klass c) (take kept arranged) (put_hooks i (take kept arranged) s) of
                 None \<Rightarrow> None
               | Some (result, hooks, s) \<Rightarrow>
                   if result \<noteq> JNI2HOOK_OK then Some (result, put_hooks i (hooks @ drop kept arranged) s)
                   else
                     let s = fold (free_entry vm) (drop kept arranged) (put_hooks i hooks s)
                     in Some (JNI2HOOK_OK, if hooks = [] then drop_class vm i s else s)))"

definition matches_method :: "jmethodID \<Rightarrow> hook_entry \<Rightarrow> bool" where
  "matches_method m e \<longleftrightarrow> he_method e = m"

definition matches_insert :: "jmethodID \<Rightarrow> u4 \<Rightarrow> u8 \<Rightarrow> hook_entry \<Rightarrow> bool" where
  "matches_insert m offset fn e \<longleftrightarrow>
     he_kind e = HOOK_INSERT_CALL \<and> he_method e = m \<and> he_offset e = offset \<and> he_function e = fn"

definition JNI2Hook_Uninstall :: "alloc \<Rightarrow> hook_vm \<Rightarrow> jmethodID \<Rightarrow> hook_state \<Rightarrow> (jni2hook_status \<times> hook_state) option" where
  "JNI2Hook_Uninstall mem vm m s = uninstall_matching mem vm m (matches_method m) s"

definition JNI2Hook_UninstallAt ::
  "alloc \<Rightarrow> hook_vm \<Rightarrow> jmethodID \<Rightarrow> u4 \<Rightarrow> u8 \<Rightarrow> hook_state \<Rightarrow> (jni2hook_status \<times> hook_state) option" where
  "JNI2Hook_UninstallAt mem vm m offset fn s =
     (if m = 0 \<or> fn = 0 then Some (JNI2HOOK_ERR_NOT_HOOKED, s)
      else uninstall_matching mem vm m (matches_insert m offset fn) s)"

definition JNI2Hook_IsInstalled :: "jmethodID \<Rightarrow> hook_state \<Rightarrow> bool" where
  "JNI2Hook_IsInstalled m s \<longleftrightarrow> g_initialized s \<and> find_class_of_method m s \<noteq> None"

section \<open>Starting and stopping\<close>

definition jvm_bind :: "hook_vm \<Rightarrow> bool \<Rightarrow> hook_state \<Rightarrow> bool \<times> hook_state" where
  "jvm_bind vm given s =
     (if \<not> given then (False, s)
      else
        let bound = (jvm_jvmti s \<or> create_jvmti_ok vm)
        in (bound, s\<lparr>live := (live s)\<lparr>jvmti_bound := bound\<rparr>\<rparr>))"

text \<open>The flag that lets a redefinition add methods; what it was before is remembered.\<close>

definition force_flag :: "hook_vm \<Rightarrow> hook_state \<Rightarrow> hook_state" where
  "force_flag vm s =
     (case set_bool_flag vm (vm_log s) True of
        None \<Rightarrow> s
      | Some previous \<Rightarrow> (note_event (Flag_Set True) s)\<lparr>g_flag_state := if previous then 0 else 1\<rparr>)"

definition JNI2Hook_Init :: "hook_vm \<Rightarrow> bool \<Rightarrow> hook_state \<Rightarrow> jni2hook_status \<times> hook_state" where
  "JNI2Hook_Init vm given s =
     (if g_initialized s then (JNI2HOOK_OK, s)
      else
        case jvm_bind vm given s of
          (False, s) \<Rightarrow> (JNI2HOOK_ERR_NO_JVMTI, s)
        | (True, s) \<Rightarrow>
            if \<not> jvm_env vm s then (JNI2HOOK_ERR_NO_JNI, s)
            else if AddCapabilities_error vm \<noteq> JVMTI_ERROR_NONE
            then (JNI2HOOK_ERR_CAPABILITIES, s\<lparr>g_last_error := AddCapabilities_error vm\<rparr>)
            else if \<not> granted_redefine vm \<or> \<not> granted_retransform vm then (JNI2HOOK_ERR_CAPABILITIES, s)
            else
              let s = force_flag vm (s\<lparr>g_can_suspend := granted_suspend vm\<rparr>) in
              (case class_cache_start (vm_now vm s) (live s) of
                 (False, l) \<Rightarrow> (JNI2HOOK_ERR_JVMTI, s\<lparr>live := l\<rparr>)
               | (True, l) \<Rightarrow> (JNI2HOOK_OK, s\<lparr>live := l, g_initialized := True\<rparr>)))"

text \<open>The classes go from the last to the first, each restored to its original.\<close>

fun shutdown_loop :: "alloc \<Rightarrow> hook_vm \<Rightarrow> nat \<Rightarrow> jni2hook_status \<Rightarrow> hook_state \<Rightarrow> (jni2hook_status \<times> hook_state) option" where
  "shutdown_loop mem vm 0 result s = Some (result, s)"
| "shutdown_loop mem vm (Suc i) result s =
     (let c = g_classes s ! i in
      case reapply mem vm (hc_klass c) [] (put_hooks i [] s) of
        None \<Rightarrow> None
      | Some (restored, _, s) \<Rightarrow>
          shutdown_loop mem vm i (if restored \<noteq> JNI2HOOK_OK \<and> result = JNI2HOOK_OK then restored else result)
            (drop_class vm i (fold (free_entry vm) (hc_hooks c) s)))"

definition JNI2Hook_Shutdown :: "alloc \<Rightarrow> hook_vm \<Rightarrow> hook_state \<Rightarrow> (jni2hook_status \<times> hook_state) option" where
  "JNI2Hook_Shutdown mem vm s =
     (if \<not> g_initialized s then Some (JNI2HOOK_OK, s)
      else
        case shutdown_loop mem vm (length (g_classes s)) JNI2HOOK_OK s of
          None \<Rightarrow> None
        | Some (result, s) \<Rightarrow>
            let s = s\<lparr>g_classes := [], g_class_cap := 0, g_insert_serial := 0\<rparr>;
                s = (if g_flag_state s = 1 \<and> set_bool_flag vm (vm_log s) False \<noteq> None then note_event (Flag_Set False) s else s);
                s = s\<lparr>g_flag_state := - 1\<rparr>;
                l = class_watch_clear (jvm_env vm s) (live s);
                l = class_cache_stop (vm_now vm s) (class_cache_clear (vm_now vm s) l)
            in Some (result, s\<lparr>live := l\<lparr>jvmti_bound := False\<rparr>, g_can_suspend := False, g_initialized := False\<rparr>))"

end
