(* ===== verification/Hook_Api.thy ===== *)
theory Hook_Api
  imports Hook_Registry
begin

text \<open>
  The other public calls of \<^verbatim>\<open>jni2hook.c\<close>: attaching, searching for methods and fields, watches, and direct access to
  classes. Each checks its arguments, takes the lock if the library is initialised, asks for the environments of the
  VM and passes on to the component that does the work. A null pointer is \<open>None\<close>; out pointers are present.
\<close>

section \<open>Attaching\<close>

definition JNI_OK :: int where "JNI_OK = 0"
definition JNI_EDETACHED :: int where "JNI_EDETACHED = - 2"

text \<open>\<open>found\<close>: a running VM; \<open>env_status\<close> and \<open>env\<close>: the answer of \<^verbatim>\<open>GetEnv\<close>; \<open>attached\<close>: that of the attachment.\<close>

definition JNI2Hook_InitFromRunningVm ::
  "hook_vm \<Rightarrow> bool \<Rightarrow> int \<Rightarrow> bool \<Rightarrow> bool \<Rightarrow> hook_state \<Rightarrow> jni2hook_status \<times> hook_state" where
  "JNI2Hook_InitFromRunningVm vm found env_status env attached s =
     (if \<not> found then (JNI2HOOK_ERR_NO_JVMTI, s)
      else if env_status = JNI_EDETACHED then
        if \<not> attached then (JNI2HOOK_ERR_NO_JNI, s) else JNI2Hook_Init vm True s
      else if env_status \<noteq> JNI_OK \<or> \<not> env then (JNI2HOOK_ERR_NO_JNI, s)
      else JNI2Hook_Init vm True s)"

definition JNI2Hook_Attach :: "hook_vm \<Rightarrow> hook_state \<Rightarrow> jni2hook_status" where
  "JNI2Hook_Attach vm s =
     (if \<not> g_initialized s then JNI2HOOK_ERR_NOT_INITIALIZED
      else if \<not> jvm_env vm s then JNI2HOOK_ERR_NO_JNI
      else JNI2HOOK_OK)"

section \<open>Searching\<close>

text \<open>The error of a failed VM call is kept; no error was reported otherwise.\<close>

definition keep_error :: "jni2hook_status \<Rightarrow> jvmtiError option \<Rightarrow> hook_state \<Rightarrow> hook_state" where
  "keep_error status error s =
     (if status = JNI2HOOK_ERR_JVMTI
      then s\<lparr>g_last_error := case error of Some e \<Rightarrow> e | None \<Rightarrow> JVMTI_ERROR_NONE\<rparr> else s)"

definition find_method ::
  "alloc \<Rightarrow> hook_vm \<Rightarrow> jclass option \<Rightarrow> cstring option \<Rightarrow> stats_arg \<Rightarrow> hook_state \<Rightarrow>
   (jni2hook_status \<times> (jmethodID \<times> u4) option \<times> stats_arg) \<times> hook_state" where
  "find_method mem vm target pattern stats s =
     (if pattern = None then ((JNI2HOOK_ERR_INVALID_PATTERN, None, stats), s)
      else if \<not> g_initialized s then ((JNI2HOOK_ERR_NOT_INITIALIZED, None, stats), s)
      else if \<not> jvm_env vm s then ((JNI2HOOK_ERR_NO_JNI, None, stats), s)
      else if \<not> jvm_jvmti s then ((JNI2HOOK_ERR_NO_JVMTI, None, stats), s)
      else
        let r = (case target of
                   None \<Rightarrow> bytecode_scan_find mem (scan_api (vm_now vm s)) pattern stats
                 | Some k \<Rightarrow> bytecode_scan_find_in_class mem (scan_api (vm_now vm s)) k pattern)
        in ((scan_status r, scan_found r, scan_stats r), keep_error (scan_status r) (scan_error r) s))"

definition JNI2Hook_FindMethod ::
  "alloc \<Rightarrow> hook_vm \<Rightarrow> cstring option \<Rightarrow> stats_arg \<Rightarrow> hook_state \<Rightarrow>
   (jni2hook_status \<times> (jmethodID \<times> u4) option \<times> stats_arg) \<times> hook_state" where
  "JNI2Hook_FindMethod mem vm pattern stats s = find_method mem vm None pattern stats s"

definition JNI2Hook_FindMethodInClass ::
  "alloc \<Rightarrow> hook_vm \<Rightarrow> jclass option \<Rightarrow> cstring option \<Rightarrow> hook_state \<Rightarrow> (jni2hook_status \<times> (jmethodID \<times> u4) option) \<times> hook_state" where
  "JNI2Hook_FindMethodInClass mem vm target pattern s =
     (case target of
        None \<Rightarrow> ((JNI2HOOK_ERR_INVALID_PATTERN, None), s)
      | Some k \<Rightarrow> map_prod (\<lambda>(status, found, _). (status, found)) id (find_method mem vm (Some k) pattern None s))"

definition JNI2Hook_FindFieldInClass ::
  "alloc \<Rightarrow> hook_vm \<Rightarrow> field_vm \<Rightarrow> jclass option \<Rightarrow> cstring option \<Rightarrow> u4 \<Rightarrow> hook_state \<Rightarrow>
   (jni2hook_status \<times> (jfieldID \<times> bool) option) \<times> hook_state" where
  "JNI2Hook_FindFieldInClass mem vm fvm target pattern offset s =
     (if \<not> g_initialized s then ((JNI2HOOK_ERR_NOT_INITIALIZED, None), s)
      else if \<not> jvm_env vm s then ((JNI2HOOK_ERR_NO_JNI, None), s)
      else if \<not> jvm_jvmti s then ((JNI2HOOK_ERR_NO_JVMTI, None), s)
      else
        let r = field_scan_find_in_class mem fvm target pattern offset
        in ((field_status r, field_found r), keep_error (field_status r) (field_error r) s))"

section \<open>Watches\<close>

definition JNI2Hook_WatchMethod ::
  "alloc \<Rightarrow> hook_vm \<Rightarrow> nat option \<Rightarrow> cstring option \<Rightarrow> hook_state \<Rightarrow> (jni2hook_status \<times> nat option) \<times> hook_state" where
  "JNI2Hook_WatchMethod mem vm block pattern s =
     (if pattern = None then ((JNI2HOOK_ERR_INVALID_PATTERN, None), s)
      else if \<not> g_initialized s then ((JNI2HOOK_ERR_NOT_INITIALIZED, None), s)
      else if \<not> jvm_env vm s then ((JNI2HOOK_ERR_NO_JNI, None), s)
      else if \<not> jvm_jvmti s then ((JNI2HOOK_ERR_NO_JVMTI, None), s)
      else
        let ((result, watch), l) = class_watch_create mem (vm_now vm s) block pattern (live s) in
        if result \<noteq> JNI2HOOK_OK then ((result, None), s\<lparr>live := l\<rparr>)
        else
          let r = bytecode_scan_find mem (scan_api (vm_now vm s)) pattern None in
          if scan_status r = JNI2HOOK_OK then
            let (result, l) = class_watch_resolve_loaded (vm_now vm s) watch (map_option fst (scan_found r))
                  (case scan_found r of Some (_, offset) \<Rightarrow> offset | None \<Rightarrow> 0) l
            in ((result, if result = JNI2HOOK_OK then watch else None), s\<lparr>live := l\<rparr>)
          else if scan_status r = JNI2HOOK_ERR_NOT_FOUND then ((JNI2HOOK_OK, watch), s\<lparr>live := l\<rparr>)
          else
            ((scan_status r, None),
             (keep_error (scan_status r) (scan_error r) s)\<lparr>live := class_watch_destroy (vm_now vm s) True watch l\<rparr>))"

definition JNI2Hook_WatchMethodByName ::
  "alloc \<Rightarrow> hook_vm \<Rightarrow> nat option \<Rightarrow> cstring option \<Rightarrow> cstring option \<Rightarrow> cstring option \<Rightarrow> bool \<Rightarrow> hook_state \<Rightarrow>
   (jni2hook_status \<times> nat option) \<times> hook_state" where
  "JNI2Hook_WatchMethodByName mem vm block class_name meth_name sig meth_static s =
     (if class_name = None \<or> meth_name = None \<or> sig = None then ((JNI2HOOK_ERR_NOT_FOUND, None), s)
      else if \<not> g_initialized s then ((JNI2HOOK_ERR_NOT_INITIALIZED, None), s)
      else if \<not> jvm_env vm s then ((JNI2HOOK_ERR_NO_JNI, None), s)
      else map_prod id (\<lambda>l. s\<lparr>live := l\<rparr>)
             (class_watch_create_named mem (vm_now vm s) block class_name meth_name sig meth_static (live s)))"

definition JNI2Hook_GetWatchedMethod ::
  "nat option \<Rightarrow> hook_state \<Rightarrow> jni2hook_status \<times> (jmethodID option \<times> u4) option" where
  "JNI2Hook_GetWatchedMethod watch s =
     (if \<not> g_initialized s then (JNI2HOOK_ERR_NOT_INITIALIZED, None) else class_watch_get watch (live s))"

text \<open>A watch is destroyed without an environment when the library is not initialised.\<close>

definition JNI2Hook_DestroyMethodWatch :: "hook_vm \<Rightarrow> nat option \<Rightarrow> hook_state \<Rightarrow> hook_state" where
  "JNI2Hook_DestroyMethodWatch vm watch s =
     (if watch = None then s
      else s\<lparr>live := class_watch_destroy (vm_now vm s) (g_initialized s \<and> jvm_env vm s) watch (live s)\<rparr>)"

section \<open>Classes\<close>

text \<open>Every local reference of the list is dropped; the first class with the name is returned under a new one.\<close>

fun find_loaded :: "alloc \<Rightarrow> jvm \<Rightarrow> (jclass \<Rightarrow> bool) \<Rightarrow> live_state \<Rightarrow> cstring \<Rightarrow> jclass list \<Rightarrow> jclass option \<Rightarrow> jclass option \<times> vm_event list" where
  "find_loaded mem vm ref_ok l name [] found = (found, [])"
| "find_loaded mem vm ref_ok l name (c # cs) found =
     (let found' = (if found = None \<and> (case jvm_class_name_of mem vm l c of Some n \<Rightarrow> strcmp_equal n name | None \<Rightarrow> False) \<and> ref_ok c
                    then Some c else found);
          (result, trace) = find_loaded mem vm ref_ok l name cs found'
      in (result, Dropped_Ref c # trace))"

definition JNI2Hook_FindLoadedClass ::
  "alloc \<Rightarrow> hook_vm \<Rightarrow> (jclass \<Rightarrow> bool) \<Rightarrow> cstring option \<Rightarrow> hook_state \<Rightarrow> (jni2hook_status \<times> jclass option \<times> vm_event list) \<times> hook_state" where
  "JNI2Hook_FindLoadedClass mem vm ref_ok internal_name s =
     (case internal_name of
        None \<Rightarrow> ((JNI2HOOK_ERR_NOT_FOUND, None, []), s)
      | Some name \<Rightarrow>
          if \<not> g_initialized s then ((JNI2HOOK_ERR_NOT_INITIALIZED, None, []), s)
          else if \<not> jvm_env vm s then ((JNI2HOOK_ERR_NO_JNI, None, []), s)
          else if \<not> jvm_jvmti s then ((JNI2HOOK_ERR_NO_JVMTI, None, []), s)
          else
            (case GetLoadedClasses (scan_api (vm_now vm s)) of
               Inl error \<Rightarrow> ((JNI2HOOK_ERR_JVMTI, None, []), s\<lparr>g_last_error := error\<rparr>)
             | Inr classes \<Rightarrow>
                 let (found, trace) = find_loaded mem (vm_now vm s) ref_ok (live s) name classes None;
                     trace = Acquired Classes_Buffer # trace @ [Deallocated Classes_Buffer]
                 in ((if found = None then JNI2HOOK_ERR_NOT_FOUND else JNI2HOOK_OK, found, trace), s)))"

definition JNI2Hook_GetClassLoader ::
  "hook_vm \<Rightarrow> jclass option \<Rightarrow> hook_state \<Rightarrow> (jni2hook_status \<times> jobject option) \<times> hook_state" where
  "JNI2Hook_GetClassLoader vm klass s =
     (case klass of
        None \<Rightarrow> ((JNI2HOOK_ERR_NOT_FOUND, None), s)
      | Some k \<Rightarrow>
          if \<not> g_initialized s then ((JNI2HOOK_ERR_NOT_INITIALIZED, None), s)
          else if \<not> jvm_jvmti s then ((JNI2HOOK_ERR_NO_JVMTI, None), s)
          else
            (case GetClassLoader (vm_now vm s) k of
               Inl error \<Rightarrow> ((JNI2HOOK_ERR_JVMTI, None), s\<lparr>g_last_error := error\<rparr>)
             | Inr loader \<Rightarrow> ((JNI2HOOK_OK, loader), s)))"

text \<open>\<open>define\<close> is the answer of the VM: the class it returned, and whether an exception is pending.\<close>

definition JNI2Hook_DefineClass ::
  "hook_vm \<Rightarrow> (cstring \<Rightarrow> jobject option \<Rightarrow> u1 list \<Rightarrow> jclass option \<times> bool) \<Rightarrow> jobject option \<Rightarrow> cstring option \<Rightarrow>
   u1 list option \<Rightarrow> hook_state \<Rightarrow> jni2hook_status \<times> jclass option" where
  "JNI2Hook_DefineClass vm define_class loader internal_name bytes s =
     (case (internal_name, bytes) of
        (Some name, Some bytes) \<Rightarrow>
          if length bytes = 0 \<or> int (length bytes) > 0x7FFFFFFF then (JNI2HOOK_ERR_CLASS_FILE, None)
          else if \<not> g_initialized s then (JNI2HOOK_ERR_NOT_INITIALIZED, None)
          else if \<not> jvm_env vm s then (JNI2HOOK_ERR_NO_JNI, None)
          else
            (case define_class name loader bytes of
               (defined, True) \<Rightarrow> (JNI2HOOK_ERR_JAVA_EXCEPTION, None)
             | (None, False) \<Rightarrow> (JNI2HOOK_ERR_JNI, None)
             | (Some k, False) \<Rightarrow> (JNI2HOOK_OK, Some k))
      | _ \<Rightarrow> (JNI2HOOK_ERR_CLASS_FILE, None))"

definition JNI2Hook_RedefineClass ::
  "hook_vm \<Rightarrow> jclass option \<Rightarrow> u1 list option \<Rightarrow> hook_state \<Rightarrow> jni2hook_status \<times> hook_state" where
  "JNI2Hook_RedefineClass vm klass bytes s =
     (case (klass, bytes) of
        (Some k, Some bytes) \<Rightarrow>
          if length bytes = 0 \<or> int (length bytes) > 0x7FFFFFFF then (JNI2HOOK_ERR_CLASS_FILE, s)
          else if \<not> g_initialized s then (JNI2HOOK_ERR_NOT_INITIALIZED, s)
          else if \<not> jvm_jvmti s then (JNI2HOOK_ERR_NO_JVMTI, s)
          else
            let error = RedefineClasses vm (vm_log s) k bytes;
                s = note_event (Redefine k bytes error) s
            in if error \<noteq> JVMTI_ERROR_NONE then jvmti_failed error s else (JNI2HOOK_OK, s)
      | _ \<Rightarrow> (JNI2HOOK_ERR_CLASS_FILE, s))"

end
