(* ===== verification/Registry_Correct.thy ===== *)
theory Registry_Correct
  imports Hook_Api
begin

text \<open>
  What the registry promises. To its callers it is a map from classes to lists of hooks; installing appends, uninstalling
  filters, and a call that fails leaves the map as it was. To the VM, a class with hooks has the
  definition that its hooks make of the original bytes.
\<close>

section \<open>The order of insertions\<close>

lemma strcmp_zero: "strcmp a b = 0 \<longleftrightarrow> a = b"
  by (induction a b rule: strcmp.induct) auto

lemma strcmp_refl [simp]: "strcmp a a = 0"
  by (simp add: strcmp_zero)

lemma strcmp_le: "strcmp a b \<le> 0 \<longleftrightarrow> a = b \<or> strcmp a b < 0"
  using strcmp_zero [of a b] by auto

lemma strcmp_less: "strcmp a b < 0 \<longleftrightarrow> strcmp b a > 0"
  by (induction a b rule: strcmp.induct) auto

lemma strcmp_trans: "strcmp a b \<le> 0 \<Longrightarrow> strcmp b c \<le> 0 \<Longrightarrow> strcmp a c \<le> 0"
proof (induction a b arbitrary: c rule: strcmp.induct)
  case (4 x xs y ys)
  then show ?case by (cases c) (auto split: if_splits)
next
  case (1)
  then show ?case by (cases c) auto
next
  case (2 d ds)
  then show ?case by (cases c) auto
qed auto

text \<open>\<open>e\<close> may stand before \<open>x\<close>.\<close>

abbreviation before :: "hook_entry \<Rightarrow> hook_entry \<Rightarrow> bool" where
  "before e x \<equiv> compare_insert_entries e x \<le> 0"

definition insert_key :: "hook_entry \<Rightarrow> cstring \<times> cstring \<times> u4" where
  "insert_key e = (he_name e, he_signature e, he_offset e)"

lemma compare_zero: "compare_insert_entries e x = 0 \<longleftrightarrow> insert_key e = insert_key x"
  by (auto simp: compare_insert_entries_def insert_key_def Let_def strcmp_zero split: if_splits)

lemma compare_cases:
  "compare_insert_entries e x =
     (if he_name e \<noteq> he_name x then strcmp (he_name e) (he_name x)
      else if he_signature e \<noteq> he_signature x then strcmp (he_signature e) (he_signature x)
      else if he_offset e > he_offset x then - 1 else if he_offset e < he_offset x then 1 else 0)"
  by (simp add: compare_insert_entries_def Let_def strcmp_zero)

lemma compare_less: "compare_insert_entries e x < 0 \<longleftrightarrow> compare_insert_entries x e > 0"
  by (auto simp: compare_cases strcmp_less)

lemma before_total: "\<not> compare_insert_entries e x < 0 \<longleftrightarrow> before x e"
  using compare_less [of e x] compare_less [of x e] compare_zero [of e x] compare_zero [of x e] by (auto simp: not_less le_less)

lemma before_iff:
  "before e x \<longleftrightarrow> strcmp (he_name e) (he_name x) < 0 \<or> he_name e = he_name x \<and>
     (strcmp (he_signature e) (he_signature x) < 0 \<or> he_signature e = he_signature x \<and> he_offset x \<le> he_offset e)"
  by (auto simp: compare_insert_entries_def Let_def strcmp_zero strcmp_le not_less)

lemma strcmp_less_trans: "strcmp a b < 0 \<Longrightarrow> strcmp b c < 0 \<Longrightarrow> strcmp a c < 0"
  using strcmp_trans [of a b c] strcmp_zero [of a c] strcmp_less [of a b] by (auto simp: le_less)

lemma before_trans: "before a b \<Longrightarrow> before b c \<Longrightarrow> before a c"
  unfolding before_iff using strcmp_less_trans by auto

lemma mset_sift: "mset (sift e xs) = add_mset e (mset xs)"
  by (induction xs) auto

lemma mset_sort_inserts: "mset (sort_inserts es) = mset es"
proof -
  have "mset (foldl (\<lambda>sorted e. sift e sorted) acc es) = mset acc + mset es" for acc
    by (induction es arbitrary: acc) (simp_all add: mset_sift)
  then show ?thesis by (simp add: sort_inserts_def)
qed

text \<open>The reversed list is sorted downwards, and entries with the same key keep their order.\<close>

lemma sorted_sift: "sorted_wrt (\<lambda>x y. before y x) xs \<Longrightarrow> sorted_wrt (\<lambda>x y. before y x) (sift e xs)"
proof (induction xs)
  case (Cons x xs)
  have set: "set (sift e xs) = insert e (set xs)" using mset_sift [of e xs] by (metis set_mset_mset set_mset_add_mset_insert)
  show ?case
  proof (cases "compare_insert_entries e x < 0")
    case True
    with Cons set show ?thesis by auto
  next
    case False
    then have "before x e" using before_total by blast
    moreover from this have "before y e" if "y \<in> set xs" for y using Cons.prems that before_trans by auto
    ultimately show ?thesis using Cons.prems False by auto
  qed
qed simp

lemma filter_sift: "filter (\<lambda>x. insert_key x = key) (sift e xs) =
    (if insert_key e = key then e # filter (\<lambda>x. insert_key x = key) xs else filter (\<lambda>x. insert_key x = key) xs)"
proof (induction xs)
  case (Cons x xs)
  show ?case
  proof (cases "compare_insert_entries e x < 0")
    case True
    then have "insert_key e \<noteq> insert_key x" using compare_zero [of e x] by auto
    with True Cons show ?thesis by auto
  qed auto
qed simp

text \<open>
  C11: the insertions are applied in an order in which no one moves the offset of another: all of them, those of one method from
  the highest offset to the lowest, and several at the same place in the order they were installed.\<close>

theorem insertions_ordered:
  "mset (sort_inserts es) = mset es \<and>
   sorted_wrt (\<lambda>x y. he_name x = he_name y \<and> he_signature x = he_signature y \<longrightarrow> he_offset y \<le> he_offset x) (sort_inserts es) \<and>
   filter (\<lambda>x. (he_name x, he_signature x, he_offset x) = key) (sort_inserts es) =
     filter (\<lambda>x. (he_name x, he_signature x, he_offset x) = key) es"
proof -
  have s: "sorted_wrt (\<lambda>x y. before y x) (foldl (\<lambda>sorted e. sift e sorted) acc es)"
    if "sorted_wrt (\<lambda>x y. before y x) acc" for acc
    using that by (induction es arbitrary: acc) (simp_all add: sorted_sift)
  then have "sorted_wrt before (sort_inserts es)" by (simp add: sort_inserts_def sorted_wrt_rev)
  then have "sorted_wrt (\<lambda>x y. he_name x = he_name y \<and> he_signature x = he_signature y \<longrightarrow> he_offset y \<le> he_offset x) (sort_inserts es)"
    by (rule sorted_wrt_mono_rel [rotated]) (auto simp: before_iff)
  moreover have "filter (\<lambda>x. insert_key x = key) (foldl (\<lambda>sorted e. sift e sorted) acc es) =
      rev (filter (\<lambda>x. insert_key x = key) es) @ filter (\<lambda>x. insert_key x = key) acc" for acc
    by (induction es arbitrary: acc) (simp_all add: filter_sift)
  then have "filter (\<lambda>x. insert_key x = key) (sort_inserts es) = filter (\<lambda>x. insert_key x = key) es"
    by (simp add: sort_inserts_def rev_filter [symmetric])
  ultimately show ?thesis by (simp add: mset_sort_inserts insert_key_def)
qed

text \<open>Two insertions into one method, the later one in front of the earlier one.\<close>

definition call_at :: "u4 \<Rightarrow> hook_entry" where
  "call_at offset = \<lparr>he_method = 3, he_name = cstr ''m'', he_signature = cstr ''()V'', he_added_name = cstr ''jni2hook$3$0'',
     he_function = 0x1000, he_trampoline = None, he_static = True, he_original = None, he_offset = offset, he_kind = HOOK_INSERT_CALL\<rparr>"

theorem insertions_ordered_witness:
  "mset (sort_inserts [call_at 2, call_at 5]) = {#call_at 2, call_at 5#} \<and>
   he_offset (sort_inserts [call_at 2, call_at 5] ! 1) \<le> he_offset (sort_inserts [call_at 2, call_at 5] ! 0) \<and>
   filter (\<lambda>x. he_offset x = 2) (sort_inserts [call_at 2, call_at 5]) = [call_at 2]"
proof -
  let ?es = "[call_at 2, call_at 5]"
  note o = insertions_ordered [of ?es "(cstr ''m'', cstr ''()V'', 2)"]
  note m = o [THEN conjunct1]
  have len: "length (sort_inserts ?es) = 2" using mset_eq_length [OF m] by simp
  have in_es: "set (sort_inserts ?es) = {call_at 2, call_at 5}" using mset_eq_setD [OF m] by simp
  have named: "he_name x = cstr ''m'' \<and> he_signature x = cstr ''()V''" if "x \<in> set (sort_inserts ?es)" for x
    using that unfolding in_es by (elim insertE) (simp_all add: call_at_def)
  have "sorted_wrt (\<lambda>x y. he_name x = he_name y \<and> he_signature x = he_signature y \<longrightarrow> he_offset y \<le> he_offset x) (sort_inserts ?es)"
    using o by blast
  from sorted_wrt_nth_less [OF this, of 0 1] len
  have ordered: "he_name x = he_name y \<and> he_signature x = he_signature y \<longrightarrow> he_offset y \<le> he_offset x"
    if "x = sort_inserts ?es ! 0" "y = sort_inserts ?es ! 1" for x y using that by simp
  have "sort_inserts ?es ! 0 \<in> set (sort_inserts ?es)" "sort_inserts ?es ! 1 \<in> set (sort_inserts ?es)" by (rule nth_mem, simp add: len)+
  note ends = this [THEN named]
  have "he_offset (sort_inserts ?es ! 1) \<le> he_offset (sort_inserts ?es ! 0)" using ordered [OF refl refl] ends by metis
  moreover have "filter (\<lambda>x. he_offset x = 2) (sort_inserts ?es) =
      filter (\<lambda>x. (he_name x, he_signature x, he_offset x) = (cstr ''m'', cstr ''()V'', 2)) (sort_inserts ?es)"
    by (rule filter_cong [OF refl]) (simp add: named)
  moreover have "filter (\<lambda>x. (he_name x, he_signature x, he_offset x) = (cstr ''m'', cstr ''()V'', 2)) ?es = [call_at 2]"
    by (simp add: call_at_def)
  ultimately show ?thesis using m o by (simp only: mset.simps)
qed

section \<open>What the VM was told\<close>

text \<open>
  Read from the log: the bytes of the last redefinition of a class that the VM accepted, the functions bound since, and the threads that were
  suspended and not resumed.
\<close>

fun current_definition :: "hook_event list \<Rightarrow> jclass \<Rightarrow> u1 list option" where
  "current_definition [] k = None"
| "current_definition (Redefine k' bytes error # log) k =
     (if k' = k \<and> error = JVMTI_ERROR_NONE then Some bytes else current_definition log k)"
| "current_definition (_ # log) k = current_definition log k"

fun bound_since :: "hook_event list \<Rightarrow> jclass \<Rightarrow> (cstring \<times> cstring \<times> code_pointer) list" where
  "bound_since [] k = []"
| "bound_since (Redefine k' bytes error # log) k = (if k' = k \<and> error = JVMTI_ERROR_NONE then [] else bound_since log k)"
| "bound_since (Bind k' name signature pointer ok # log) k =
     (if k' = k \<and> ok then bound_since log k @ [(name, signature, pointer)] else bound_since log k)"
| "bound_since (_ # log) k = bound_since log k"

fun still_suspended :: "hook_event list \<Rightarrow> jthread multiset" where
  "still_suspended [] = {#}"
| "still_suspended (Suspended ts # log) = mset ts + still_suspended log"
| "still_suspended (Resumed ts # log) = still_suspended log - mset ts"
| "still_suspended (_ # log) = still_suspended log"

text \<open>The identifier of the copy is what the VM hands out at each redefinition; the rest of an entry is what was installed.\<close>

definition blank :: "hook_entry \<Rightarrow> hook_entry" where
  "blank e = e\<lparr>he_original := None\<rparr>"

definition binding :: "hook_entry \<Rightarrow> cstring \<times> cstring \<times> code_pointer" where
  "binding e = (binding_name e, binding_signature e, binding_pointer e)"

lemma blank_fields [simp]:
  "he_method (blank e) = he_method e" "he_name (blank e) = he_name e" "he_signature (blank e) = he_signature e"
  "he_added_name (blank e) = he_added_name e" "he_function (blank e) = he_function e" "he_trampoline (blank e) = he_trampoline e"
  "he_static (blank e) = he_static e" "he_offset (blank e) = he_offset e" "he_kind (blank e) = he_kind e"
  "blank (blank e) = blank e" "blank (e\<lparr>he_original := x\<rparr>) = blank e"
  by (simp_all add: blank_def)

lemma binding_blank [simp]: "binding (blank e) = binding e"
  by (simp add: binding_def binding_name_def binding_signature_def binding_pointer_def split: option.split)

lemma make_natives_blank: "make_natives mem (map blank es) cf = make_natives mem es cf"
  by (induction es arbitrary: cf) (simp_all add: case_prod_beta Let_def)

lemma insert_calls_blank: "insert_calls mem (map blank es) cf = insert_calls mem es cf"
  by (induction es arbitrary: cf) (simp_all split: option.split)

lemma compare_blank: "compare_insert_entries (blank e) (blank x) = compare_insert_entries e x"
  by (simp only: compare_insert_entries_def blank_fields)

lemma sift_blank: "sift (blank e) (map blank xs) = map blank (sift e xs)"
  by (induction xs) (simp_all add: compare_blank)

lemma sort_inserts_blank: "sort_inserts (map blank es) = map blank (sort_inserts es)"
proof -
  have "foldl (\<lambda>sorted e. sift e sorted) (map blank acc) (map blank es) = map blank (foldl (\<lambda>sorted e. sift e sorted) acc es)" for acc
    by (induction es arbitrary: acc) (simp_all add: sift_blank)
  from this [of "[]"] show ?thesis by (simp add: sort_inserts_def rev_map)
qed

lemma rebuild_blank: "rebuild mem original (map blank hooks) = rebuild mem original hooks"
proof -
  have "filter (\<lambda>e. he_kind e = HOOK_INSERT_CALL) (map blank hooks) = map blank (filter (\<lambda>e. he_kind e = HOOK_INSERT_CALL) hooks)"
    by (simp add: filter_map o_def)
  then show ?thesis
    by (simp add: rebuild_def Let_def case_prod_beta make_natives_blank insert_calls_blank sort_inserts_blank split: sum.split)
qed

section \<open>Applying the hooks of a class\<close>

text \<open>What binding the functions leaves alone, and what it adds to the log when nothing fails.\<close>

definition only_logged :: "jclass \<Rightarrow> hook_state \<Rightarrow> hook_state \<Rightarrow> bool" where
  "only_logged k s s' \<longleftrightarrow> (\<exists>log error. s' = s\<lparr>vm_log := log, g_last_error := error\<rparr>) \<and>
     still_suspended (vm_log s') = still_suspended (vm_log s) \<and>
     (\<forall>k'. k' \<noteq> k \<longrightarrow> current_definition (vm_log s') k' = current_definition (vm_log s) k' \<and>
        bound_since (vm_log s') k' = bound_since (vm_log s) k')"

lemma only_logged_refl [simp]: "only_logged k s s"
  by (auto simp: only_logged_def intro!: exI [of _ "vm_log s"] exI [of _ "g_last_error s"])

lemma only_logged_fields:
  assumes "only_logged k s s'"
  shows "live s' = live s" "class_refs s' = class_refs s" "trampolines s' = trampolines s" "g_classes s' = g_classes s"
    "g_class_cap s' = g_class_cap s" "g_insert_serial s' = g_insert_serial s" "g_initialized s' = g_initialized s"
    "g_can_suspend s' = g_can_suspend s" "g_flag_state s' = g_flag_state s"
proof -
  obtain log error where "s' = s\<lparr>vm_log := log, g_last_error := error\<rparr>" using assms by (auto simp: only_logged_def)
  then show "live s' = live s" "class_refs s' = class_refs s" "trampolines s' = trampolines s" "g_classes s' = g_classes s"
    "g_class_cap s' = g_class_cap s" "g_insert_serial s' = g_insert_serial s" "g_initialized s' = g_initialized s"
    "g_can_suspend s' = g_can_suspend s" "g_flag_state s' = g_flag_state s" by simp_all
qed

lemma only_logged_trans: "only_logged k s t \<Longrightarrow> only_logged k t u \<Longrightarrow> only_logged k s u"
  by (auto simp: only_logged_def) blast

lemma only_logged_error [simp]: "only_logged k s (s\<lparr>g_last_error := error\<rparr>)"
  by (auto simp: only_logged_def intro!: exI [of _ "vm_log s"])

lemma only_logged_note [intro]:
  "(\<And>k'. k' \<noteq> k \<Longrightarrow> current_definition (e # vm_log s) k' = current_definition (vm_log s) k' \<and>
      bound_since (e # vm_log s) k' = bound_since (vm_log s) k') \<Longrightarrow>
   still_suspended (e # vm_log s) = still_suspended (vm_log s) \<Longrightarrow> only_logged k s (note_event e s)"
  by (auto simp: only_logged_def note_event_def intro!: exI [of _ "g_last_error s"])

lemma bind_hooks_effect:
  "bind_hooks vm k hooks result s = (result', hooks', s') \<Longrightarrow>
     only_logged k s s' \<and> map blank hooks' = map blank hooks \<and> current_definition (vm_log s') = current_definition (vm_log s) \<and>
     (result' = JNI2HOOK_OK \<longrightarrow> result = JNI2HOOK_OK \<and> bound_since (vm_log s') k = bound_since (vm_log s) k @ map binding hooks \<and>
        (\<forall>e\<in>set hooks'. he_kind e = HOOK_MAKE_NATIVE \<longrightarrow> he_original e \<noteq> None))"
proof (induction hooks arbitrary: result s result' hooks' s')
  case (Cons e es)
  define ok where "ok = RegisterNatives_ok vm (vm_log s) k (binding_name e) (binding_signature e) (binding_pointer e)"
  define t where "t = note_event (Bind k (binding_name e) (binding_signature e) (binding_pointer e) ok) s"
  define original where "original = (if he_static e then GetStaticMethodID (vm_now vm t) k (Some (he_added_name e)) (Some (he_signature e))
      else GetMethodID (vm_now vm t) k (Some (he_added_name e)) (Some (he_signature e)))"
  obtain r e' where re: "(r, e') = (if \<not> ok then (first_failure result JNI2HOOK_ERR_JNI, e)
             else if he_kind e = HOOK_MAKE_NATIVE
             then (if original = None then first_failure result JNI2HOOK_ERR_JNI else result, e\<lparr>he_original := original\<rparr>)
             else (result, e))" by (metis surj_pair)
  obtain es' where b: "bind_hooks vm k es r t = (result', es', s')" "hooks' = e' # es'"
    using Cons.prems
    unfolding bind_hooks.simps Let_def ok_def [symmetric] t_def [symmetric] original_def [symmetric] re [symmetric]
    by (auto split: prod.splits)
  have t: "only_logged k s t" "current_definition (vm_log t) = current_definition (vm_log s)"
    "ok \<Longrightarrow> bound_since (vm_log t) k = bound_since (vm_log s) k @ [binding e]"
    by (auto simp: t_def) (simp_all add: note_event_def binding_def fun_eq_iff)
  have e': "blank e' = blank e" "r = JNI2HOOK_OK \<Longrightarrow> result = JNI2HOOK_OK \<and> ok \<and> (he_kind e' = HOOK_MAKE_NATIVE \<longrightarrow> he_original e' \<noteq> None)"
    using re by (auto simp: first_failure_def split: if_splits)
  from Cons.IH [OF b(1)] t e' b(2) show ?case by (auto intro: only_logged_trans)
qed simp

lemma suspend_resume:
  assumes "suspend_others mem vm s = (suspended, t)" "only_logged k t u"
  shows "only_logged k s (resume_others suspended u)" "bound_since (vm_log (resume_others suspended u)) k = bound_since (vm_log u) k"
    "current_definition (vm_log (resume_others suspended u)) = current_definition (vm_log u)"
    "jvm_jvmti t = jvm_jvmti s"
proof -
  have t: "t = s \<and> suspended = [] \<or> t = note_event (Suspended suspended) s \<and> jvm_jvmti s"
    using assms(1) by (auto simp: suspend_others_def Let_def split: if_splits sum.splits)
  note u = only_logged_fields [OF assms(2)]
  show "jvm_jvmti t = jvm_jvmti s" using t by (auto simp: note_event_def jvm_jvmti_def)
  show "bound_since (vm_log (resume_others suspended u)) k = bound_since (vm_log u) k"
    "current_definition (vm_log (resume_others suspended u)) = current_definition (vm_log u)"
    by (auto simp: resume_others_def note_event_def)
  have s: "still_suspended (vm_log (resume_others suspended u)) = still_suspended (vm_log s)"
    using t assms(2) u(1) by (auto simp: resume_others_def note_event_def only_logged_def jvm_jvmti_def)
  obtain log error where log: "u = t\<lparr>vm_log := log, g_last_error := error\<rparr>" using assms(2) by (auto simp: only_logged_def)
  obtain before where before: "t = s\<lparr>vm_log := before\<rparr>"
  proof
    from t show "t = s\<lparr>vm_log := vm_log t\<rparr>" by (auto simp: note_event_def)
  qed
  have "resume_others suspended u = s\<lparr>vm_log := if jvm_jvmti u \<and> suspended \<noteq> [] then Resumed suspended # log else log, g_last_error := error\<rparr>"
    by (simp add: resume_others_def note_event_def log before)
  then have "\<exists>log error. resume_others suspended u = s\<lparr>vm_log := log, g_last_error := error\<rparr>" by blast
  moreover have "current_definition (vm_log (resume_others suspended u)) k' = current_definition (vm_log s) k' \<and>
      bound_since (vm_log (resume_others suspended u)) k' = bound_since (vm_log s) k'" if "k' \<noteq> k" for k'
  proof -
    have "current_definition (vm_log t) k' = current_definition (vm_log s) k' \<and> bound_since (vm_log t) k' = bound_since (vm_log s) k'"
      using t by (auto simp: note_event_def)
    with that assms(2) show ?thesis by (simp add: only_logged_def resume_others_def note_event_def)
  qed
  ultimately show "only_logged k s (resume_others suspended u)" using s unfolding only_logged_def by blast
qed

lemma redefine_effect:
  assumes "redefine mem vm k bytes hooks s = (result, hooks', s')"
  shows "only_logged k s s' \<and> map blank hooks' = map blank hooks \<and>
    (result = JNI2HOOK_OK \<longrightarrow> current_definition (vm_log s') k = Some bytes \<and> bound_since (vm_log s') k = map binding hooks \<and>
       (\<forall>e\<in>set hooks'. he_kind e = HOOK_MAKE_NATIVE \<longrightarrow> he_original e \<noteq> None))"
proof -
  obtain suspended t where t: "(if hooks \<noteq> [] then suspend_others mem vm s else ([], s)) = (suspended, t)" by (metis surj_pair)
  define error where "error = RedefineClasses vm (vm_log t) k bytes"
  define u where "u = note_event (Redefine k bytes error) t"
  have u: "only_logged k t u" "error = JVMTI_ERROR_NONE \<Longrightarrow> current_definition (vm_log u) k = Some bytes \<and> bound_since (vm_log u) k = []"
    by (auto simp: u_def) (simp_all add: note_event_def)
  obtain v where v: "(if error \<noteq> JVMTI_ERROR_NONE then (let (result, s) = jvmti_failed error u in (result, hooks, s))
      else bind_hooks vm k hooks JNI2HOOK_OK u) = (result, hooks', v)" "s' = resume_others suspended v"
    using assms unfolding redefine_def t Let_def prod.case error_def [symmetric] u_def [symmetric] by (auto split: prod.splits)
  have v': "only_logged k u v" "map blank hooks' = map blank hooks"
    "result = JNI2HOOK_OK \<Longrightarrow> current_definition (vm_log v) k = Some bytes \<and> bound_since (vm_log v) k = map binding hooks \<and>
       (\<forall>e\<in>set hooks'. he_kind e = HOOK_MAKE_NATIVE \<longrightarrow> he_original e \<noteq> None)"
  proof -
    show "only_logged k u v" "map blank hooks' = map blank hooks"
      using v(1) bind_hooks_effect [of vm k hooks JNI2HOOK_OK u result hooks' v]
      by (auto simp: jvmti_failed_def split: if_splits)
    show "result = JNI2HOOK_OK \<Longrightarrow> current_definition (vm_log v) k = Some bytes \<and> bound_since (vm_log v) k = map binding hooks \<and>
       (\<forall>e\<in>set hooks'. he_kind e = HOOK_MAKE_NATIVE \<longrightarrow> he_original e \<noteq> None)"
      using v(1) u(2) bind_hooks_effect [of vm k hooks JNI2HOOK_OK u result hooks' v]
      by (auto simp: jvmti_failed_def split: if_splits)
  qed
  have tv: "only_logged k t v" using u(1) v'(1) only_logged_trans by blast
  show ?thesis
  proof (cases "hooks = []")
    case True
    with t v(2) tv v' show ?thesis by (simp add: resume_others_def)
  next
    case False
    with t have "suspend_others mem vm s = (suspended, t)" by simp
    from suspend_resume [OF this tv] v(2) v' show ?thesis by simp
  qed
qed

lemma reapply_effect:
  assumes "reapply mem vm k hooks s = Some (result, hooks', s')"
  shows "only_logged k s s'" "map blank hooks' = map blank hooks"
    "result = JNI2HOOK_OK \<Longrightarrow> \<exists>original bytes. cached (live s) k = Some original \<and> rebuild mem original hooks = Some (Inr bytes) \<and>
       current_definition (vm_log s') k = Some bytes \<and> bound_since (vm_log s') k = map binding hooks \<and>
       (\<forall>e\<in>set hooks'. he_kind e = HOOK_MAKE_NATIVE \<longrightarrow> he_original e \<noteq> None)"
proof -
  have failed: "rebuild mem original hooks \<noteq> Some (Inl JNI2HOOK_OK)" for original
    by (auto simp: rebuild_def Let_def transform_result_def split: sum.splits prod.splits option.splits if_splits)
  note cases = assms [unfolded reapply_def get_cached]
  show "only_logged k s s'" "map blank hooks' = map blank hooks"
    using cases redefine_effect [of mem vm k _ hooks s result hooks' s'] by (auto split: if_splits option.splits sum.splits)
  show "result = JNI2HOOK_OK \<Longrightarrow> \<exists>original bytes. cached (live s) k = Some original \<and> rebuild mem original hooks = Some (Inr bytes) \<and>
       current_definition (vm_log s') k = Some bytes \<and> bound_since (vm_log s') k = map binding hooks \<and>
       (\<forall>e\<in>set hooks'. he_kind e = HOOK_MAKE_NATIVE \<longrightarrow> he_original e \<noteq> None)"
    using cases failed redefine_effect [of mem vm k _ hooks s result hooks' s'] by (auto split: if_splits option.splits sum.splits)
qed

section \<open>The registry as a map\<close>

definition hooks_of :: "hook_state \<Rightarrow> jclass \<Rightarrow> hook_entry list" where
  "hooks_of s k = concat (map (\<lambda>c. if hc_klass c = k then map blank (hc_hooks c) else []) (g_classes s))"

definition all_hooks :: "hook_state \<Rightarrow> hook_entry multiset" where
  "all_hooks s = mset (map blank (concat (map hc_hooks (g_classes s))))"

definition klasses :: "hook_state \<Rightarrow> jclass list" where
  "klasses s = map hc_klass (g_classes s)"

text \<open>The class has the definition its hooks make of its original, and their functions are bound to it.\<close>

definition applied :: "alloc \<Rightarrow> hook_state \<Rightarrow> jclass \<Rightarrow> bool" where
  "applied mem s k \<longleftrightarrow>
     (case cached (live s) k of
        None \<Rightarrow> False
      | Some original \<Rightarrow>
          (case rebuild mem original (hooks_of s k) of
             Some (Inr bytes) \<Rightarrow>
               current_definition (vm_log s) k = Some bytes \<and> bound_since (vm_log s) k = map binding (hooks_of s k)
           | _ \<Rightarrow> False))"

lemma free_entry_fields [simp]:
  "g_classes (free_entry vm e s) = g_classes s" "live (free_entry vm e s) = live s" "vm_log (free_entry vm e s) = vm_log s"
  "class_refs (free_entry vm e s) = class_refs s" "g_initialized (free_entry vm e s) = g_initialized s"
  "g_class_cap (free_entry vm e s) = g_class_cap s" "jvm_env vm' (free_entry vm e s) = jvm_env vm' s"
  "jvm_jvmti (free_entry vm e s) = jvm_jvmti s" "g_can_suspend (free_entry vm e s) = g_can_suspend s"
  by (simp_all add: free_entry_def jvm_env_def vm_now_def jvm_jvmti_def)

lemma free_entries_fields [simp]:
  "g_classes (fold (free_entry vm) es s) = g_classes s" "live (fold (free_entry vm) es s) = live s"
  "vm_log (fold (free_entry vm) es s) = vm_log s" "class_refs (fold (free_entry vm) es s) = class_refs s"
  "g_initialized (fold (free_entry vm) es s) = g_initialized s" "g_class_cap (fold (free_entry vm) es s) = g_class_cap s"
  "jvm_env vm' (fold (free_entry vm) es s) = jvm_env vm' s" "jvm_jvmti (fold (free_entry vm) es s) = jvm_jvmti s"
  by (induction es arbitrary: s) simp_all

lemma put_hooks_fields [simp]:
  "live (put_hooks i hs s) = live s" "vm_log (put_hooks i hs s) = vm_log s" "class_refs (put_hooks i hs s) = class_refs s"
  "g_initialized (put_hooks i hs s) = g_initialized s" "g_class_cap (put_hooks i hs s) = g_class_cap s"
  "trampolines (put_hooks i hs s) = trampolines s" "length (g_classes (put_hooks i hs s)) = length (g_classes s)"
  "jvm_env vm (put_hooks i hs s) = jvm_env vm s" "jvm_jvmti (put_hooks i hs s) = jvm_jvmti s"
  "i < length (g_classes s) \<Longrightarrow> g_classes (put_hooks i hs s) ! i = (g_classes s ! i)\<lparr>hc_hooks := hs\<rparr>"
  by (simp_all add: put_hooks_def jvm_env_def vm_now_def jvm_jvmti_def)

lemma drop_class_fields [simp]:
  "live (drop_class vm i s) = live s" "vm_log (drop_class vm i s) = vm_log s"
  "g_initialized (drop_class vm i s) = g_initialized s" "g_class_cap (drop_class vm i s) = g_class_cap s"
  "g_classes (drop_class vm i s) = take i (g_classes s) @ drop (Suc i) (g_classes s)"
  "jvm_env vm' (drop_class vm i s) = jvm_env vm' s" "jvm_jvmti (drop_class vm i s) = jvm_jvmti s"
  by (simp_all add: drop_class_def Let_def jvm_env_def vm_now_def jvm_jvmti_def)

lemma klasses_put_hooks [simp]: "klasses (put_hooks i hs s) = klasses s"
  by (cases "i < length (g_classes s)") (simp_all add: klasses_def put_hooks_def map_update list_update_same_conv list_update_beyond)

lemma view_cong:
  assumes "g_classes s' = g_classes s"
  shows "hooks_of s' = hooks_of s" "all_hooks s' = all_hooks s" "klasses s' = klasses s"
  using assms by (auto simp: hooks_of_def all_hooks_def klasses_def)

text \<open>The list is cut at the class in question, so that each of the views is a sum of three parts.\<close>

lemma cut_classes:
  assumes "i < length (g_classes s)"
  obtains xs c ys where "g_classes s = xs @ c # ys" "i = length xs" "g_classes s ! i = c"
  using assms id_take_nth_drop [OF assms] by (metis length_take min.absorb4)

lemma hooks_of_absent: "k \<notin> set (klasses s) \<Longrightarrow> hooks_of s k = []"
  by (induction "g_classes s" arbitrary: s) (auto simp: hooks_of_def klasses_def)

lemma only_klass: "k \<notin> hc_klass ` set cs \<Longrightarrow> concat (map (\<lambda>c. if hc_klass c = k then map blank (hc_hooks c) else []) cs) = []"
  by (induction cs) auto

lemma hooks_of_put:
  assumes "i < length (g_classes s)" "distinct (klasses s)"
  shows "hooks_of (put_hooks i hs s) = (hooks_of s)(hc_klass (g_classes s ! i) := map blank hs)"
    "hooks_of s (hc_klass (g_classes s ! i)) = map blank (hc_hooks (g_classes s ! i))"
proof -
  from cut_classes [OF assms(1)] obtain xs c ys where c: "g_classes s = xs @ c # ys" "i = length xs" "g_classes s ! i = c" .
  with assms(2) have d: "hc_klass c \<notin> hc_klass ` set xs" "hc_klass c \<notin> hc_klass ` set ys" by (auto simp: klasses_def)
  show "hooks_of (put_hooks i hs s) = (hooks_of s)(hc_klass (g_classes s ! i) := map blank hs)"
    using c d by (auto simp: fun_eq_iff hooks_of_def put_hooks_def only_klass)
  show "hooks_of s (hc_klass (g_classes s ! i)) = map blank (hc_hooks (g_classes s ! i))"
    using c d by (simp add: hooks_of_def only_klass)
qed

lemma hooks_of_drop:
  assumes "i < length (g_classes s)" "distinct (klasses s)"
  shows "hooks_of (drop_class vm i s) = (hooks_of s)(hc_klass (g_classes s ! i) := [])"
proof -
  from cut_classes [OF assms(1)] obtain xs c ys where c: "g_classes s = xs @ c # ys" "i = length xs" "g_classes s ! i = c" .
  with assms(2) have d: "hc_klass c \<notin> hc_klass ` set xs" "hc_klass c \<notin> hc_klass ` set ys" by (auto simp: klasses_def)
  show ?thesis using c d by (auto simp: fun_eq_iff hooks_of_def only_klass)
qed

lemma all_hooks_put:
  assumes "i < length (g_classes s)"
  shows "all_hooks (put_hooks i hs s) + mset (map blank (hc_hooks (g_classes s ! i))) = all_hooks s + mset (map blank hs)"
proof -
  from cut_classes [OF assms] obtain xs c ys where c: "g_classes s = xs @ c # ys" "i = length xs" "g_classes s ! i = c" .
  then show ?thesis by (simp add: all_hooks_def put_hooks_def)
qed

lemma all_hooks_drop:
  assumes "i < length (g_classes s)"
  shows "all_hooks (drop_class vm i s) + mset (map blank (hc_hooks (g_classes s ! i))) = all_hooks s"
proof -
  from cut_classes [OF assms] obtain xs c ys where c: "g_classes s = xs @ c # ys" "i = length xs" "g_classes s ! i = c" .
  then show ?thesis by (simp add: all_hooks_def)
qed

lemma klasses_drop:
  "i < length (g_classes s) \<Longrightarrow> add_mset (hc_klass (g_classes s ! i)) (mset (klasses (drop_class vm i s))) = mset (klasses s)"
  by (elim cut_classes) (simp add: klasses_def)

section \<open>The invariant\<close>

text \<open>A method that was made native has no other hook.\<close>

definition conflict_free :: "hook_entry multiset \<Rightarrow> bool" where
  "conflict_free M \<longleftrightarrow>
     (\<forall>e\<in>#M. he_kind e = HOOK_MAKE_NATIVE \<longrightarrow> (\<forall>e'\<in>#M - {#e#}. he_method e' \<noteq> he_method e))"

text \<open>Every trampoline of an entry is armed, leads to the function of the entry, and is its own.\<close>

definition pages_ok :: "pages \<Rightarrow> hook_entry multiset \<Rightarrow> bool" where
  "pages_ok pages M \<longleftrightarrow>
     (\<forall>e\<in>#M. \<forall>p. he_trampoline e = Some p \<longrightarrow>
        (\<exists>page. pages p = Some \<lparr>page_bytes = page, page_exec = True\<rparr> \<and> forwards page (return_letter (he_signature e)) 1 (he_function e)) \<and>
        (\<forall>e'\<in>#M - {#e#}. he_trampoline e' \<noteq> Some p))"

definition registry_ok :: "hook_state \<Rightarrow> bool" where
  "registry_ok s \<longleftrightarrow> distinct (klasses s) \<and> (\<forall>k\<in>set (klasses s). cached (live s) k \<noteq> None) \<and>
     mset (klasses s) \<subseteq># class_refs s \<and> length (g_classes s) \<le> g_class_cap s \<and>
     (\<forall>c\<in>set (g_classes s). length (hc_hooks c) \<le> hc_capacity c) \<and> (g_initialized s \<or> g_classes s = []) \<and>
     live_inv (live s) \<and> g_capture_class (live s) = None \<and> conflict_free (all_hooks s) \<and> pages_ok (trampolines s) (all_hooks s)"

lemma in_diff_mono: "M' \<subseteq># M \<Longrightarrow> x \<in># M' - N \<Longrightarrow> x \<in># M - N"
  by (meson in_diff_count mset_subset_eq_count order_less_le_trans)

lemma conflict_free_mono: "conflict_free M \<Longrightarrow> M' \<subseteq># M \<Longrightarrow> conflict_free M'"
  unfolding conflict_free_def by (meson in_diff_mono mset_subset_eqD)

lemma pages_ok_mono: "pages_ok pages M \<Longrightarrow> M' \<subseteq># M \<Longrightarrow> pages_ok pages M'"
  unfolding pages_ok_def by (meson in_diff_mono mset_subset_eqD)

lemma conflict_free_add:
  assumes "conflict_free M" "\<And>x. x \<in># M \<Longrightarrow> he_method x = he_method e \<Longrightarrow> he_kind x \<noteq> HOOK_MAKE_NATIVE \<and> he_kind e \<noteq> HOOK_MAKE_NATIVE"
  shows "conflict_free (add_mset e M)"
  unfolding conflict_free_def
proof (intro ballI impI)
  fix x x'
  assume x: "x \<in># add_mset e M" "he_kind x = HOOK_MAKE_NATIVE" "x' \<in># add_mset e M - {#x#}"
  show "he_method x' \<noteq> he_method x"
  proof (cases "x = e")
    case True
    with x assms(2) show ?thesis by auto
  next
    case False
    with x have "x \<in># M" "x' = e \<or> x' \<in># M - {#x#}" by auto
    with x(2) assms show ?thesis unfolding conflict_free_def by metis
  qed
qed

lemma pages_ok_add:
  assumes "pages_ok pages M" "\<And>p. he_trampoline e = Some p \<Longrightarrow> pages p = None \<and>
      (\<exists>page. pages' p = Some \<lparr>page_bytes = page, page_exec = True\<rparr> \<and> forwards page (return_letter (he_signature e)) 1 (he_function e))"
    "\<And>q. pages q \<noteq> None \<Longrightarrow> pages' q = pages q"
  shows "pages_ok pages' (add_mset e M)"
  unfolding pages_ok_def
proof (intro ballI allI impI)
  fix x p
  assume x: "x \<in># add_mset e M" "he_trampoline x = Some p"
  have old: "pages q \<noteq> None" if "y \<in># M" "he_trampoline y = Some q" for y q using assms(1) that unfolding pages_ok_def by force
  show "(\<exists>page. pages' p = Some \<lparr>page_bytes = page, page_exec = True\<rparr> \<and> forwards page (return_letter (he_signature x)) 1 (he_function x)) \<and>
        (\<forall>e'\<in>#add_mset e M - {#x#}. he_trampoline e' \<noteq> Some p)"
  proof (cases "x = e")
    case True
    with x(2) assms(2) have "pages p = None" by blast
    then have "he_trampoline y \<noteq> Some p" if "y \<in># M" for y using old [OF that] by blast
    with True x(2) assms(2) show ?thesis by auto
  next
    case False
    with x have m: "x \<in># M" "add_mset e M - {#x#} = add_mset e (M - {#x#})" by auto
    from m(1) x(2) assms(1) have *: "(\<exists>page. pages p = Some \<lparr>page_bytes = page, page_exec = True\<rparr> \<and>
        forwards page (return_letter (he_signature x)) 1 (he_function x)) \<and> (\<forall>e'\<in>#M - {#x#}. he_trampoline e' \<noteq> Some p)"
      unfolding pages_ok_def by blast
    moreover have "he_trampoline e \<noteq> Some p" using assms(2) [of p] old [OF m(1) x(2)] by auto
    moreover have "pages' p = pages p" using assms(3) [of p] old [OF m(1) x(2)] by simp
    ultimately show ?thesis unfolding m(2) by simp
  qed
qed

lemma disarm_other: "q \<noteq> p \<Longrightarrow> trampoline_disarm protect (Some p) pages q = pages q"
  by (auto simp: trampoline_disarm_def protect_page_def Let_def)

lemma free_entry_pages:
  assumes "pages_ok (trampolines s) (add_mset (blank e) M)"
  shows "pages_ok (trampolines (free_entry vm e s)) M"
proof -
  have same: "trampolines (free_entry vm e s) q = trampolines s q" if "he_trampoline e \<noteq> Some q" for q
    using that by (auto simp: free_entry_def disarm_other split: option.split)
  have "he_trampoline e \<noteq> Some q" if "x \<in># M" "he_trampoline x = Some q" for x q
  proof -
    have "x \<in># add_mset (blank e) M - {#blank e#}" using that by simp
    with assms that(2) show ?thesis unfolding pages_ok_def by (metis blank_fields(6) union_single_eq_member)
  qed
  moreover have "pages_ok (trampolines s) M" using assms by (rule pages_ok_mono) simp
  ultimately show ?thesis unfolding pages_ok_def using same by fastforce
qed

lemma free_entries_pages:
  "pages_ok (trampolines s) (mset (map blank es) + M) \<Longrightarrow> pages_ok (trampolines (fold (free_entry vm) es s)) M"
proof (induction es arbitrary: s)
  case (Cons e es)
  from free_entry_pages [of s e "mset (map blank es) + M" vm] Cons show ?case by simp
qed simp

section \<open>Installing\<close>

definition same_registry :: "hook_state \<Rightarrow> hook_state \<Rightarrow> bool" where
  "same_registry s s' \<longleftrightarrow> g_classes s' = g_classes s \<and> class_refs s' = class_refs s \<and> trampolines s' = trampolines s \<and>
     g_class_cap s' = g_class_cap s \<and> g_initialized s' = g_initialized s \<and> vm_log s' = vm_log s"

lemma same_registry_refl [simp]: "same_registry s s" "same_registry s (s\<lparr>g_last_error := e\<rparr>)"
  by (simp_all add: same_registry_def)

lemma added_name_effect: "added_name_for mem kind name s = (a, t) \<Longrightarrow> same_registry s t \<and> live t = live s"
  by (auto simp: added_name_for_def make_insert_name_def same_registry_def split: if_splits)

text \<open>Either nothing is changed but the serial number and the error, or the bytes of the declaring class were asked for.\<close>

definition names_method :: "alloc \<Rightarrow> hook_vm \<Rightarrow> jmethodID \<Rightarrow> hook_state \<Rightarrow> hook_request \<Rightarrow> bool" where
  "names_method mem vm m s rq \<longleftrightarrow> GetMethodDeclaringClass (vm_now vm s) m = Inr (Some (rq_class rq)) \<and>
     (case GetMethodName vm m of
        Inr (raw_name, raw_signature) \<Rightarrow>
          jvm_take_string mem raw_name = Some (rq_name rq) \<and> jvm_take_string mem raw_signature = Some (rq_signature rq)
      | _ \<Rightarrow> False)"

lemma describe_method_cases:
  assumes d: "describe_method mem vm m kind s = (r, s')"
  shows "same_registry s s' \<and>
    (live s' = live s \<and> (\<exists>status. r = Inl status \<and> status \<noteq> JNI2HOOK_OK \<and> status \<noteq> JNI2HOOK_ERR_JNI) \<or>
     (\<exists>k class_name ok e. class_cache_ensure mem (vm_now vm s) (Some k) (Some class_name) (live s) = ((ok, e), live s') \<and>
        (if ok then \<exists>rq. r = Inr rq \<and> rq_class rq = k \<and> names_method mem vm m s rq else r = Inl JNI2HOOK_ERR_CLASS_NOT_CACHED)))"
proof (cases "GetMethodDeclaringClass (vm_now vm s) m")
  case (Inr declaring)
  show ?thesis
  proof (cases "\<exists>k class_name. declaring = Some k \<and> jvm_class_name_of mem (vm_now vm s) (live s) k = Some class_name")
    case True
    then obtain k class_name where k: "declaring = Some k" "jvm_class_name_of mem (vm_now vm s) (live s) k = Some class_name" by blast
    show ?thesis
    proof (cases "\<exists>raw_name raw_signature name signature. GetMethodName vm m = Inr (raw_name, raw_signature) \<and>
        jvm_take_string mem raw_name = Some name \<and> jvm_take_string mem raw_signature = Some signature")
      case True
      then obtain raw_name raw_signature name signature where n: "GetMethodName vm m = Inr (raw_name, raw_signature)"
        "jvm_take_string mem raw_name = Some name" "jvm_take_string mem raw_signature = Some signature" by blast
      obtain a t where a: "added_name_for mem kind name s = (a, t)" by (metis surj_pair)
      note t = added_name_effect [OF a]
      obtain ok e l where c: "class_cache_ensure mem (vm_now vm t) (Some k) (Some class_name) (live t) = ((ok, e), l)" by (metis surj_pair)
      have vm: "vm_now vm t = vm_now vm s" using t by (simp add: vm_now_def same_registry_def)
      note start = d [unfolded describe_method_def Inr k sum.case option.case n prod.case a]
      show ?thesis
      proof (cases "\<exists>added modifiers. a = Some added \<and> GetMethodModifiers vm m = Inr modifiers")
        case True
        then obtain added modifiers where m: "a = Some added" "GetMethodModifiers vm m = Inr modifiers" by blast
        have reg: "same_registry s (t\<lparr>live := l\<rparr>)" "same_registry s (t\<lparr>live := l, g_last_error := e\<rparr>)"
          using t by (simp_all add: same_registry_def)
        note ensured = c [unfolded vm conjunct2 [OF t]]
        show ?thesis
        proof (cases ok)
          case True
          with start m c obtain rq where rq: "r = Inr rq" "rq_class rq = k" "rq_name rq = name" "rq_signature rq = signature"
            and s': "s' = t\<lparr>live := l\<rparr>" by auto
          have "names_method mem vm m s rq" using Inr k n rq by (simp add: names_method_def)
          with rq True have "if ok then \<exists>rq. r = Inr rq \<and> rq_class rq = k \<and> names_method mem vm m s rq else r = Inl JNI2HOOK_ERR_CLASS_NOT_CACHED"
            by auto
          with ensured reg(1) s' show ?thesis by (metis hook_state.select_convs(1) hook_state.surjective hook_state.update_convs(1))
        next
          case False
          with start m c have "r = Inl JNI2HOOK_ERR_CLASS_NOT_CACHED" "s' = t\<lparr>live := l, g_last_error := e\<rparr>" by auto
          with ensured reg(2) False show ?thesis by auto
        qed
      next
        case False
        with start t show ?thesis by (auto simp: jvmti_failed_def same_registry_def split: option.splits sum.splits)
      qed
    next
      case False
      with d Inr k show ?thesis by (auto simp: describe_method_def jvmti_failed_def split: option.splits sum.splits)
    qed
  next
    case False
    with d Inr show ?thesis by (auto simp: describe_method_def split: option.splits)
  qed
qed (use d in \<open>auto simp: describe_method_def jvmti_failed_def\<close>)

lemma describe_method_effect:
  assumes "describe_method mem vm m kind s = (r, s')" "live_inv (live s)" "g_capture_class (live s) = None"
  shows "same_registry s s'" "live_inv (live s')" "g_capture_class (live s') = None"
    "\<And>k. cached (live s) k \<noteq> None \<Longrightarrow> cached (live s') k = cached (live s) k" "r \<noteq> Inl JNI2HOOK_OK \<and> r \<noteq> Inl JNI2HOOK_ERR_JNI"
    "\<And>rq. r = Inr rq \<Longrightarrow> cached (live s') (rq_class rq) \<noteq> None \<and> names_method mem vm m s rq"
proof -
  note cases = describe_method_cases [OF assms(1)]
  have inv: "live_inv l \<and> g_capture_class l = None" if "class_cache_ensure mem v k n (live s) = (x, l)" for v k n x l
    using ensure_inv [OF assms(2,3), of mem v k n] that by simp
  show "same_registry s s'" "r \<noteq> Inl JNI2HOOK_OK \<and> r \<noteq> Inl JNI2HOOK_ERR_JNI" using cases by (auto split: if_splits)
  show "live_inv (live s')" "g_capture_class (live s') = None" using cases inv assms(2,3) by auto
  show "cached (live s') k = cached (live s) k" if "cached (live s) k \<noteq> None" for k
    using cases that ensure_cached [OF assms(2,3)] by (auto simp: captures_def) (metis fun_upd_other option.distinct(1))
  show "cached (live s') (rq_class rq) \<noteq> None \<and> names_method mem vm m s rq" if "r = Inr rq" for rq
    using cases that ensure_cached [OF assms(2,3)] by (auto split: if_splits) 
qed

text \<open>The invariant under the changes that the operations are made of.\<close>

lemma registry_ok_cong:
  assumes "registry_ok s" "g_classes s' = g_classes s" "live s' = live s" "class_refs s' = class_refs s" "g_class_cap s' = g_class_cap s"
    "g_initialized s' = g_initialized s" "trampolines s' = trampolines s"
  shows "registry_ok s'"
  using assms by (simp add: registry_ok_def view_cong [OF assms(2)])

lemma registry_ok_logged: "registry_ok s \<Longrightarrow> only_logged k s s' \<Longrightarrow> registry_ok s'"
  by (erule registry_ok_cong) (simp_all add: only_logged_fields)

lemma registry_ok_put:
  assumes "registry_ok s" "i < length (g_classes s)" "length hs \<le> hc_capacity (g_classes s ! i)"
    "conflict_free (all_hooks (put_hooks i hs s))" "pages_ok (trampolines s) (all_hooks (put_hooks i hs s))"
  shows "registry_ok (put_hooks i hs s)"
proof -
  have "length (hc_hooks c) \<le> hc_capacity c" if "c \<in> set (g_classes (put_hooks i hs s))" for c
  proof -
    from that have "c \<in> set (g_classes s) \<or> c = (g_classes s ! i)\<lparr>hc_hooks := hs\<rparr>"
      unfolding put_hooks_def using set_update_subset_insert by fastforce
    with assms(1,3) show ?thesis by (auto simp: registry_ok_def)
  qed
  moreover have "g_classes (put_hooks i hs s) = [] \<longleftrightarrow> g_classes s = []" by (simp add: put_hooks_def)
  ultimately show ?thesis using assms by (auto simp: registry_ok_def)
qed

lemma registry_ok_same_hooks:
  assumes "registry_ok s" "i < length (g_classes s)" "mset (map blank hs) = mset (map blank (hc_hooks (g_classes s ! i)))"
  shows "registry_ok (put_hooks i hs s)" "all_hooks (put_hooks i hs s) = all_hooks s"
proof -
  show a: "all_hooks (put_hooks i hs s) = all_hooks s" using all_hooks_put [OF assms(2), of hs] assms(3) by simp
  have "length hs = length (hc_hooks (g_classes s ! i))" using arg_cong [OF assms(3), of size] by simp
  then have "length hs \<le> hc_capacity (g_classes s ! i)" using assms(1,2) by (simp add: registry_ok_def)
  with assms(1,2) a show "registry_ok (put_hooks i hs s)" by (intro registry_ok_put) (auto simp: registry_ok_def)
qed

text \<open>Some entries leave the class: first they are no longer counted, and later freed.\<close>

lemma registry_ok_fewer:
  assumes "registry_ok s" "i < length (g_classes s)"
    "mset (map blank (hc_hooks (g_classes s ! i))) = mset (map blank hs) + mset (map blank gone)"
  shows "registry_ok (put_hooks i hs s)" "all_hooks (put_hooks i hs s) + mset (map blank gone) = all_hooks s"
proof -
  show a: "all_hooks (put_hooks i hs s) + mset (map blank gone) = all_hooks s"
    using all_hooks_put [OF assms(2), of hs] unfolding assms(3) by (simp add: ac_simps)
  then have sub: "all_hooks (put_hooks i hs s) \<subseteq># all_hooks s" by (metis mset_subset_eq_add_left)
  have "length (hc_hooks (g_classes s ! i)) = length hs + length gone" using arg_cong [OF assms(3), of size] by simp
  moreover have "length (hc_hooks (g_classes s ! i)) \<le> hc_capacity (g_classes s ! i)" using assms(1,2) by (simp add: registry_ok_def)
  ultimately have "length hs \<le> hc_capacity (g_classes s ! i)" by linarith
  moreover have "conflict_free (all_hooks s)" "pages_ok (trampolines s) (all_hooks s)" using assms(1) by (simp_all add: registry_ok_def)
  ultimately show "registry_ok (put_hooks i hs s)"
    using registry_ok_put [OF assms(1,2)] conflict_free_mono [OF _ sub] pages_ok_mono [OF _ sub] by blast
qed

lemma registry_ok_free:
  assumes "registry_ok s" "pages_ok (trampolines s) (mset (map blank gone) + all_hooks s)"
  shows "registry_ok (fold (free_entry vm) gone s)"
  using assms(1) free_entries_pages [OF assms(2)]
  by (simp add: registry_ok_def view_cong [OF free_entries_fields(1)])

lemma registry_ok_drop:
  assumes "registry_ok s" "i < length (g_classes s)"
  shows "registry_ok (drop_class vm i s)"
proof -
  let ?c = "g_classes s ! i" and ?t = "drop_class vm i s"
  have k: "add_mset (hc_klass ?c) (mset (klasses ?t)) = mset (klasses s)" by (rule klasses_drop [OF assms(2)])
  have a: "all_hooks ?t + mset (map blank (hc_hooks ?c)) = all_hooks s" by (rule all_hooks_drop [OF assms(2)])
  have refs: "class_refs ?t = (if jvm_env vm s then class_refs s - {#hc_klass ?c#} else class_refs s)"
    and pages: "trampolines ?t = trampolines (fold (free_entry vm) (hc_hooks ?c)
      (if jvm_env vm s then s\<lparr>class_refs := class_refs s - {#hc_klass ?c#}\<rparr> else s))"
    by (simp_all add: drop_class_def Let_def)
  have "distinct (klasses ?t)" using assms k unfolding registry_ok_def
    by (metis distinct.simps(2) mset.simps(2) mset_eq_imp_distinct_iff)
  moreover have sub: "set (klasses ?t) \<subseteq> set (klasses s)"
    using arg_cong [OF k, of set_mset] by auto
  moreover have "mset (klasses ?t) \<subseteq># class_refs ?t"
  proof -
    have le: "add_mset (hc_klass ?c) (mset (klasses ?t)) \<subseteq># class_refs s" using assms(1) k by (simp add: registry_ok_def)
    show ?thesis
    proof (cases "jvm_env vm s")
      case True
      with le refs show ?thesis by (simp add: insert_subset_eq_iff)
    next
      case False
      from le have "mset (klasses ?t) \<subseteq># class_refs s" by (meson mset_subset_eq_insertD subset_mset.less_imp_le)
      with False refs show ?thesis by simp
    qed
  qed
  moreover have "set (g_classes ?t) \<subseteq> set (g_classes s)" "length (g_classes ?t) \<le> length (g_classes s)"
    using set_take_subset [of i "g_classes s"] set_drop_subset [of "Suc i" "g_classes s"] by auto
  moreover have "conflict_free (all_hooks ?t)"
    using assms(1) a unfolding registry_ok_def by (metis conflict_free_mono mset_subset_eq_add_left)
  moreover have "pages_ok (trampolines ?t) (all_hooks ?t)"
    unfolding pages by (rule free_entries_pages) (use assms(1) a in \<open>auto simp: registry_ok_def add.commute\<close>)
  ultimately show ?thesis using assms(1) by (auto simp: registry_ok_def)
qed

text \<open>What stays when room is made: the entries, and everything that the VM sees.\<close>

definition same_hooks :: "hook_state \<Rightarrow> hook_state \<Rightarrow> bool" where
  "same_hooks s s' \<longleftrightarrow> hooks_of s' = hooks_of s \<and> all_hooks s' = all_hooks s \<and> vm_log s' = vm_log s \<and> live s' = live s \<and>
     trampolines s' = trampolines s \<and> g_initialized s' = g_initialized s"

lemma reserve_class_effect:
  assumes "reserve_class mem vm rq s = (r, s')" "registry_ok s" "jvm_env vm s" "g_initialized s" "cached (live s) (rq_class rq) \<noteq> None"
  shows "registry_ok s'" "same_hooks s s'" "\<And>i. r = Some i \<Longrightarrow> i < length (g_classes s') \<and> hc_klass (g_classes s' ! i) = rq_class rq"
proof -
  consider (found) i where "find_class vm (Some (rq_class rq)) s = Some i" "r = Some i" "s' = s" |
    (full) "r = None" "s' = s" |
    (failed) cap refs where "r = None" "s' = s\<lparr>g_class_cap := cap, class_refs := refs\<rparr>" "class_refs s \<subseteq># refs" "g_class_cap s \<le> cap" |
    (new) cap where "rq_class rq \<notin> set (klasses s)" "r = Some (length (g_classes s))" "length (g_classes s) < cap"
      "s' = s\<lparr>g_class_cap := cap, class_refs := add_mset (rq_class rq) (class_refs s), g_classes := g_classes s @
         [\<lparr>hc_name = rq_class_name rq, hc_klass = rq_class rq, hc_hooks = [], hc_capacity = 0\<rparr>]\<rparr>"
  proof (cases "find_class vm (Some (rq_class rq)) s")
    case None
    define cap where "cap = (if length (g_classes s) = g_class_cap s then if g_class_cap s \<noteq> 0 then g_class_cap s * 2 else 8 else g_class_cap s)"
    have cap: "length (g_classes s) < cap" "g_class_cap s \<le> cap" using assms(2) by (auto simp: cap_def registry_ok_def)
    have new_klass: "rq_class rq \<notin> set (klasses s)"
      using None assms(3) by (auto simp: find_class_def klasses_def find_index_None)
    let ?held = "NewGlobalRef_ok (vm_now vm s) registry_requester (rq_class rq)"
      and ?copied = "mem Alloc_bytes (length (rq_class_name rq) + 1)"
    have eq: "(r, s') = (if length (g_classes s) = g_class_cap s \<and> \<not> mem Alloc_hooked_class cap then (None, s)
        else let t = s\<lparr>g_class_cap := cap, class_refs := if ?held then add_mset (rq_class rq) (class_refs s) else class_refs s\<rparr>
             in if \<not> ?copied \<or> \<not> ?held then (None, t)
                else (Some (length (g_classes s)), t\<lparr>g_classes := g_classes s @
                   [\<lparr>hc_name = rq_class_name rq, hc_klass = rq_class rq, hc_hooks = [], hc_capacity = 0\<rparr>]\<rparr>))"
      using assms(1) None by (auto simp: reserve_class_def Let_def cap_def vm_now_def)
    show ?thesis
    proof (cases "length (g_classes s) = g_class_cap s \<and> \<not> mem Alloc_hooked_class cap")
      case True
      with eq full show ?thesis by simp
    next
      case False
      show ?thesis
      proof (cases "?copied \<and> ?held")
        case True
        with eq have rs: "r = Some (length (g_classes s))" "s' = s\<lparr>g_class_cap := cap, class_refs := add_mset (rq_class rq) (class_refs s),
            g_classes := g_classes s @ [\<lparr>hc_name = rq_class_name rq, hc_klass = rq_class rq, hc_hooks = [], hc_capacity = 0\<rparr>]\<rparr>"
          unfolding if_not_P [OF False] by (auto simp: Let_def)
        show ?thesis by (rule new [OF new_klass rs(1) cap(1) rs(2)])
      next
        case nope: False
        from nope eq have rs: "r = None" "s' = s\<lparr>g_class_cap := cap, class_refs := if ?held then add_mset (rq_class rq) (class_refs s) else class_refs s\<rparr>"
          unfolding if_not_P [OF False] by (auto simp: Let_def)
        show ?thesis by (rule failed [OF rs]) (use cap in auto)
      qed
    qed
  next
    case (Some i)
    with assms(1) have "r = Some i" "s' = s" by (simp_all add: reserve_class_def)
    with Some show ?thesis by (rule found)
  qed
  note cases = this
  show "same_hooks s s'"
    by (cases rule: cases) (auto simp: same_hooks_def hooks_of_def all_hooks_def fun_eq_iff)
  show "registry_ok s'"
  proof (cases rule: cases)
    case (failed cap refs)
    with assms(2) show ?thesis
      by (auto simp: registry_ok_def view_cong [of s' s] klasses_def all_hooks_def intro: subset_mset.order_trans)
  next
    case (new cap)
    then have "klasses s' = klasses s @ [rq_class rq]" "all_hooks s' = all_hooks s" by (simp_all add: klasses_def all_hooks_def)
    with new assms show ?thesis by (auto simp: registry_ok_def)
  qed (use assms(2) in auto)
  show "i < length (g_classes s') \<and> hc_klass (g_classes s' ! i) = rq_class rq" if "r = Some i" for i
    using that by (cases rule: cases) (auto simp: find_class_def find_index_Some split: if_splits)
qed

lemma reserve_entry_effect:
  assumes "reserve_entry mem i s = (r, s')" "registry_ok s" "i < length (g_classes s)"
  shows "registry_ok s'" "same_hooks s s'" "length (g_classes s') = length (g_classes s)" "klasses s' = klasses s"
    "r \<Longrightarrow> length (hc_hooks (g_classes s' ! i)) < hc_capacity (g_classes s' ! i)"
    "hc_klass (g_classes s' ! i) = hc_klass (g_classes s ! i)"
proof -
  let ?c = "g_classes s ! i"
  have le: "length (hc_hooks ?c) \<le> hc_capacity ?c" using assms(2,3) by (simp add: registry_ok_def)
  consider (same) "s' = s" "r \<Longrightarrow> length (hc_hooks ?c) < hc_capacity ?c" |
    (grown) cap where "length (hc_hooks ?c) < cap" "s' = s\<lparr>g_classes := (g_classes s)[i := ?c\<lparr>hc_capacity := cap\<rparr>]\<rparr>"
  proof (cases "length (hc_hooks ?c) = hc_capacity ?c")
    case True
    define cap where "cap = (if hc_capacity ?c \<noteq> 0 then hc_capacity ?c * 2 else 4)"
    have "length (hc_hooks ?c) < cap" using True by (auto simp: cap_def)
    moreover have "(r, s') = (if \<not> mem Alloc_hook_entry cap then (False, s) else (True, s\<lparr>g_classes := (g_classes s)[i := ?c\<lparr>hc_capacity := cap\<rparr>]\<rparr>))"
      using assms(1) True unfolding reserve_entry_def Let_def cap_def [symmetric] by simp
    ultimately show ?thesis using same grown by (simp split: if_splits)
  next
    case False
    with assms(1) le show ?thesis by (intro same) (auto simp: reserve_entry_def Let_def)
  qed
  note cases = this
  from cut_classes [OF assms(3)] obtain xs c ys where c: "g_classes s = xs @ c # ys" "i = length xs" "?c = c" .
  show "same_hooks s s'" "length (g_classes s') = length (g_classes s)" "klasses s' = klasses s"
    using c by (cases rule: cases; auto simp: same_hooks_def hooks_of_def all_hooks_def klasses_def fun_eq_iff)+
  show "r \<Longrightarrow> length (hc_hooks (g_classes s' ! i)) < hc_capacity (g_classes s' ! i)"
    "hc_klass (g_classes s' ! i) = hc_klass (g_classes s ! i)"
    using c by (cases rule: cases; auto)+
  show "registry_ok s'"
  proof (cases rule: cases)
    case (grown cap)
    have v: "klasses s' = klasses s" "all_hooks s' = all_hooks s" "g_classes s' = xs @ c\<lparr>hc_capacity := cap\<rparr> # ys"
      using c grown(2) by (auto simp: klasses_def all_hooks_def)
    show ?thesis using assms(2) grown c unfolding registry_ok_def v(1,2) by (auto simp: v(3))
  qed (use assms(2) in simp)
qed

text \<open>The page of a new trampoline is one the process did not have.\<close>

definition fresh_page :: "hook_vm \<Rightarrow> hook_state \<Rightarrow> bool" where
  "fresh_page vm s \<longleftrightarrow> (case mmap_page vm of None \<Rightarrow> True | Some p \<Rightarrow> trampolines s p = None)"

lemma new_entry_effect:
  assumes "new_entry vm m offset fn kind rq s = (e, s')" "fresh_page vm s"
  shows "s' = s\<lparr>trampolines := trampolines s'\<rparr>" "\<And>q. trampolines s q \<noteq> None \<Longrightarrow> trampolines s' q = trampolines s q"
    "\<And>p. he_trampoline e = Some p \<Longrightarrow> trampolines s p = None \<and>
      (\<exists>page. trampolines s' p = Some \<lparr>page_bytes = page, page_exec = True\<rparr> \<and> forwards page (return_letter (he_signature e)) 1 (he_function e))"
    "he_method e = m" "he_kind e = kind" "he_offset e = offset" "he_function e = fn" "he_name e = rq_name rq" "he_signature e = rq_signature rq"
    "he_original e = None"
proof -
  obtain page pages where t: "trampoline_create (mmap_page vm)
      (\<lambda>executable. case mmap_page vm of Some p \<Rightarrow> mprotect_ok vm (vm_log s) p executable | None \<Rightarrow> False) fn
      (return_letter (rq_signature rq)) (trampolines s) = (page, pages)" by (metis surj_pair)
  then have e: "e = \<lparr>he_method = m, he_name = rq_name rq, he_signature = rq_signature rq, he_added_name = rq_added_name rq,
           he_function = fn, he_trampoline = page, he_static = rq_static rq, he_original = None, he_offset = offset,
           he_kind = kind\<rparr>" "s' = s\<lparr>trampolines := pages\<rparr>"
    using assms(1) by (simp_all add: new_entry_def)
  then show "s' = s\<lparr>trampolines := trampolines s'\<rparr>" "he_method e = m" "he_kind e = kind" "he_offset e = offset" "he_function e = fn"
    "he_name e = rq_name rq" "he_signature e = rq_signature rq" "he_original e = None" by simp_all
  show "trampolines s' q = trampolines s q" if "trampolines s q \<noteq> None" for q
    using t assms(2) that unfolding e
    by (auto simp: trampoline_create_def protect_page_def Let_def fresh_page_def split: if_splits option.splits)
  show "trampolines s p = None \<and> (\<exists>page. trampolines s' p = Some \<lparr>page_bytes = page, page_exec = True\<rparr> \<and>
      forwards page (return_letter (he_signature e)) 1 (he_function e))" if "he_trampoline e = Some p" for p
    using t assms(2) that created_forwards [of fn "return_letter (rq_signature rq)"] unfolding e
    by (auto simp: trampoline_create_def protect_page_def Let_def fresh_page_def split: if_splits option.splits)
qed

lemma no_conflict:
  "\<not> method_conflicts m kind s \<Longrightarrow> x \<in># all_hooks s \<Longrightarrow> he_method x = m \<Longrightarrow> he_kind x \<noteq> HOOK_MAKE_NATIVE \<and> kind \<noteq> HOOK_MAKE_NATIVE"
  by (fastforce simp: method_conflicts_def all_hooks_def list_ex_iff)

text \<open>Applying the entries of the class at an index and putting them back changes nothing but the identifiers.\<close>

lemma reapply_at:
  assumes "reapply mem vm k hooks s = Some (result, hooks', s')" "registry_ok s" "i < length (g_classes s)"
    "hc_hooks (g_classes s ! i) = hooks" "hc_klass (g_classes s ! i) = k"
  shows "registry_ok (put_hooks i hooks' s')" "hooks_of (put_hooks i hooks' s') = hooks_of s" "all_hooks (put_hooks i hooks' s') = all_hooks s"
    "i < length (g_classes (put_hooks i hooks' s'))" "hc_klass (g_classes (put_hooks i hooks' s') ! i) = k"
    "hc_hooks (g_classes (put_hooks i hooks' s') ! i) = hooks'" "map blank hooks' = map blank hooks"
    "result = JNI2HOOK_OK \<Longrightarrow> applied mem (put_hooks i hooks' s') k"
    "\<And>k'. k' \<noteq> k \<Longrightarrow> current_definition (vm_log s') k' = current_definition (vm_log s) k' \<and> bound_since (vm_log s') k' = bound_since (vm_log s) k'"
    "still_suspended (vm_log s') = still_suspended (vm_log s)" "live s' = live s" "trampolines s' = trampolines s" "g_initialized s' = g_initialized s"
proof -
  note r = reapply_effect [OF assms(1)]
  note f = only_logged_fields [OF r(1)]
  have ok: "registry_ok s'" using assms(2) r(1) by (rule registry_ok_logged)
  have i: "i < length (g_classes s')" using assms(3) f(4) by simp
  have d: "distinct (klasses s')" using ok by (simp add: registry_ok_def)
  have m: "mset (map blank hooks') = mset (map blank (hc_hooks (g_classes s' ! i)))" using r(2) assms(4) f(4) by simp
  show "registry_ok (put_hooks i hooks' s')" by (rule registry_ok_same_hooks [OF ok i m])
  show "all_hooks (put_hooks i hooks' s') = all_hooks s" using registry_ok_same_hooks(2) [OF ok i m] view_cong(2) [OF f(4)] by simp
  show h: "hooks_of (put_hooks i hooks' s') = hooks_of s"
    using hooks_of_put [OF i d] f(4) assms(4,5) r(2) view_cong(1) [OF f(4)] by (simp add: fun_upd_idem)
  show "i < length (g_classes (put_hooks i hooks' s'))" "hc_klass (g_classes (put_hooks i hooks' s') ! i) = k"
    "hc_hooks (g_classes (put_hooks i hooks' s') ! i) = hooks'" using i assms(5) f(4) by simp_all
  show "map blank hooks' = map blank hooks" "still_suspended (vm_log s') = still_suspended (vm_log s)" "live s' = live s"
    "trampolines s' = trampolines s" "g_initialized s' = g_initialized s"
    "\<And>k'. k' \<noteq> k \<Longrightarrow> current_definition (vm_log s') k' = current_definition (vm_log s) k' \<and> bound_since (vm_log s') k' = bound_since (vm_log s) k'"
    using r(1,2) f by (simp_all add: only_logged_def)
  have hk: "hooks_of s k = map blank hooks" using hooks_of_put(2) [of i s] assms(2,3,4,5) by (simp add: registry_ok_def)
  show "applied mem (put_hooks i hooks' s') k" if "result = JNI2HOOK_OK"
    using r(3) [OF that] f(1) unfolding applied_def h hk by (auto simp: rebuild_blank o_def)
qed

lemma remove_free:
  assumes "registry_ok s" "i < length (g_classes s)"
    "mset (map blank (hc_hooks (g_classes s ! i))) = mset (map blank hs) + mset (map blank gone)"
  shows "registry_ok (fold (free_entry vm) gone (put_hooks i hs s))"
    "hooks_of (fold (free_entry vm) gone (put_hooks i hs s)) = (hooks_of s)(hc_klass (g_classes s ! i) := map blank hs)"
proof -
  note f = registry_ok_fewer [OF assms]
  have "pages_ok (trampolines (put_hooks i hs s)) (mset (map blank gone) + all_hooks (put_hooks i hs s))"
    using assms(1) f(2) by (simp add: registry_ok_def add.commute)
  with f(1) show "registry_ok (fold (free_entry vm) gone (put_hooks i hs s))" by (rule registry_ok_free)
  show "hooks_of (fold (free_entry vm) gone (put_hooks i hs s)) = (hooks_of s)(hc_klass (g_classes s ! i) := map blank hs)"
    using hooks_of_put(1) [OF assms(2)] assms(1) by (simp add: view_cong(1) [OF free_entries_fields(1)] registry_ok_def)
qed

lemma rollback_effect:
  assumes "rollback mem vm i result s = Some (r, out, s')" "registry_ok s" "i < length (g_classes s)"
    "hc_hooks (g_classes s ! i) \<noteq> []" "hc_klass (g_classes s ! i) = k"
  shows "r = result" "out = None" "registry_ok s'" "hooks_of s' = (hooks_of s)(k := butlast (hooks_of s k))"
    "still_suspended (vm_log s') = still_suspended (vm_log s)" "live s' = live s" "g_initialized s' = g_initialized s"
proof -
  let ?c = "g_classes s ! i" and ?hooks = "butlast (hc_hooks (g_classes s ! i))"
  define t where "t = free_entry vm (last (hc_hooks ?c)) (put_hooks i ?hooks s)"
  have t': "t = fold (free_entry vm) [last (hc_hooks ?c)] (put_hooks i ?hooks s)" by (simp add: t_def)
  have "hc_hooks ?c = ?hooks @ [last (hc_hooks ?c)]" using assms(4) by simp
  then have m: "mset (map blank (hc_hooks ?c)) = mset (map blank ?hooks) + mset (map blank [last (hc_hooks ?c)])"
    by (metis map_append mset_append)
  have hk: "hooks_of s k = map blank (hc_hooks ?c)" using hooks_of_put(2) [OF assms(3)] assms(2,5) by (simp add: registry_ok_def)
  have t: "registry_ok t" "hooks_of t = (hooks_of s)(k := butlast (hooks_of s k))"
    using remove_free [OF assms(2,3) m, of vm] assms(5) hk unfolding t' by (simp_all add: map_butlast)
  have ti: "i < length (g_classes t)" "hc_klass (g_classes t ! i) = k" "hc_hooks (g_classes t ! i) = ?hooks"
    using assms(3,5) by (simp_all add: t_def)
  show "r = result" "out = None" using assms(1) by (auto simp: rollback_def Let_def split: if_splits)
  have "registry_ok s' \<and> hooks_of s' = (hooks_of s)(k := butlast (hooks_of s k)) \<and>
    still_suspended (vm_log s') = still_suspended (vm_log s) \<and> live s' = live s \<and> g_initialized s' = g_initialized s"
  proof (cases "?hooks = []")
    case True
    with assms(1) have s': "s' = drop_class vm i t" by (simp add: rollback_def Let_def t_def)
    have "distinct (klasses t)" using t(1) by (simp add: registry_ok_def)
    from hooks_of_drop [OF ti(1) this] hk True have "hooks_of s' = (hooks_of s)(k := butlast (hooks_of s k))"
      unfolding s' t(2) ti(2) by (simp add: map_butlast [symmetric])
    moreover have "still_suspended (vm_log s') = still_suspended (vm_log s) \<and> live s' = live s \<and> g_initialized s' = g_initialized s"
      unfolding s' by (simp add: t_def)
    ultimately show ?thesis using registry_ok_drop [OF t(1) ti(1)] s' by simp
  next
    case False
    with assms(1,5) obtain r' hooks u where u: "reapply mem vm k ?hooks t = Some (r', hooks, u)" "s' = put_hooks i hooks u"
      by (auto simp: rollback_def Let_def t_def)
    note a = reapply_at [OF u(1) t(1) ti(1,3,2)]
    show ?thesis using a(1,2,10,11,13) t(2) unfolding u(2) by (simp add: t_def)
  qed
  then show "registry_ok s'" "hooks_of s' = (hooks_of s)(k := butlast (hooks_of s k))"
    "still_suspended (vm_log s') = still_suspended (vm_log s)" "live s' = live s" "g_initialized s' = g_initialized s" by blast+
qed

lemma registry_ok_described:
  assumes "registry_ok s" "same_registry s t" "live_inv (live t)" "g_capture_class (live t) = None"
    "\<And>k. cached (live s) k \<noteq> None \<Longrightarrow> cached (live t) k = cached (live s) k"
  shows "registry_ok t"
proof -
  have g: "g_classes t = g_classes s" using assms(2) by (simp add: same_registry_def)
  show ?thesis using assms unfolding registry_ok_def view_cong [OF g] g same_registry_def by auto
qed

lemma enter_effect:
  assumes "new_entry vm m offset fn kind rq s = (e, t)" "registry_ok s" "i < length (g_classes s)" "fresh_page vm s"
    "length (hc_hooks (g_classes s ! i)) < hc_capacity (g_classes s ! i)"
    "\<forall>x\<in>#all_hooks s. he_method x = m \<longrightarrow> he_kind x \<noteq> HOOK_MAKE_NATIVE \<and> kind \<noteq> HOOK_MAKE_NATIVE"
  defines "u \<equiv> put_hooks i (hc_hooks (g_classes s ! i) @ [e]) t"
  shows "registry_ok u" "hooks_of u = (hooks_of s)(hc_klass (g_classes s ! i) := hooks_of s (hc_klass (g_classes s ! i)) @ [e])"
    "g_classes t = g_classes s" "live t = live s" "vm_log t = vm_log s" "g_initialized t = g_initialized s"
proof -
  note e = new_entry_effect [OF assms(1,4)]
  obtain pages where p: "t = s\<lparr>trampolines := pages\<rparr>" using e(1) by blast
  then show g: "g_classes t = g_classes s" "live t = live s" "vm_log t = vm_log s" "g_initialized t = g_initialized s" by simp_all
  have blank_e: "blank e = e" using e(10) by (simp add: blank_def)
  have i: "i < length (g_classes t)" using assms(3) g by simp
  have a: "all_hooks u = add_mset e (all_hooks s)"
    using all_hooks_put [OF i, of "hc_hooks (g_classes s ! i) @ [e]"] blank_e g view_cong(2) [OF g(1)] unfolding u_def by (simp add: ac_simps)
  have pages: "pages_ok (trampolines t) (add_mset e (all_hooks s))"
    using pages_ok_add [of "trampolines s" "all_hooks s" e "trampolines t"] e(2,3) assms(2) unfolding registry_ok_def by blast
  have c: "conflict_free (add_mset e (all_hooks s))"
    using conflict_free_add [of "all_hooks s" e] e(4,5) assms(2,6) by (auto simp: registry_ok_def)
  have "pages_ok (trampolines t) (all_hooks t)"
    using pages_ok_mono [OF pages, of "all_hooks t"] view_cong(2) [OF g(1)] by simp
  then have "registry_ok t" using assms(2) unfolding registry_ok_def view_cong [OF g(1)] by (simp add: p)
  then show "registry_ok u" unfolding u_def
    by (rule registry_ok_put [OF _ i]) (use a pages c assms(5) g in \<open>simp_all add: u_def\<close>)
  have d: "distinct (klasses t)" using assms(2) by (simp add: registry_ok_def view_cong [OF g(1)])
  from hooks_of_put [OF i d] blank_e g view_cong(1) [OF g(1)]
  show "hooks_of u = (hooks_of s)(hc_klass (g_classes s ! i) := hooks_of s (hc_klass (g_classes s ! i)) @ [e])"
    by (simp add: u_def)
qed

text \<open>The last stage: the class is redefined with the new entry, or the entry is taken back.\<close>

definition finish_install ::
  "alloc \<Rightarrow> hook_vm \<Rightarrow> hook_kind \<Rightarrow> nat \<Rightarrow> hook_state \<Rightarrow> (jni2hook_status \<times> jmethodID option \<times> hook_state) option" where
  "finish_install mem vm kind i s =
     (case reapply mem vm (hc_klass (g_classes s ! i)) (hc_hooks (g_classes s ! i)) s of
        None \<Rightarrow> None
      | Some (result, hooks, s) \<Rightarrow>
          let s = put_hooks i hooks s in
          if result \<noteq> JNI2HOOK_OK then rollback mem vm i result s
          else Some (JNI2HOOK_OK, if kind = HOOK_MAKE_NATIVE then he_original (last hooks) else None, s))"

lemma finish_install_effect:
  assumes "finish_install mem vm kind i s = Some (status, out, s')" "registry_ok s" "i < length (g_classes s)"
    "hc_klass (g_classes s ! i) = k" "hooks_of s k = old @ [e]" "he_kind e = kind"
  shows "registry_ok s'" "still_suspended (vm_log s') = still_suspended (vm_log s)" "live s' = live s" "g_initialized s' = g_initialized s"
    "status \<noteq> JNI2HOOK_OK \<Longrightarrow> out = None \<and> hooks_of s' = (hooks_of s)(k := old)"
    "status = JNI2HOOK_OK \<Longrightarrow> hooks_of s' = hooks_of s \<and> applied mem s' k \<and> (kind = HOOK_MAKE_NATIVE \<longleftrightarrow> out \<noteq> None) \<and>
       (\<forall>k'. k' \<noteq> k \<longrightarrow> current_definition (vm_log s') k' = current_definition (vm_log s) k' \<and> bound_since (vm_log s') k' = bound_since (vm_log s) k')"
proof -
  obtain result hooks t where r: "reapply mem vm k (hc_hooks (g_classes s ! i)) s = Some (result, hooks, t)"
    and f: "(if result \<noteq> JNI2HOOK_OK then rollback mem vm i result (put_hooks i hooks t)
          else Some (JNI2HOOK_OK, if kind = HOOK_MAKE_NATIVE then he_original (last hooks) else None, put_hooks i hooks t)) = Some (status, out, s')"
    using assms(1,4) by (auto simp: finish_install_def Let_def split: option.splits)
  note a = reapply_at [OF r assms(2,3) refl assms(4)]
  have hk: "map blank (hc_hooks (g_classes s ! i)) = old @ [e]"
    using hooks_of_put(2) [OF assms(3)] assms(2,4,5) by (simp add: registry_ok_def)
  then have mh: "map blank hooks = old @ [e]" using a(7) by simp
  then have ne: "hooks \<noteq> []" by auto
  have "blank (last hooks) = e" using mh ne by (metis last_map last_snoc)
  then have last_kind: "he_kind (last hooks) = kind" using assms(6) by auto
  have "registry_ok s' \<and> still_suspended (vm_log s') = still_suspended (vm_log s) \<and> live s' = live s \<and> g_initialized s' = g_initialized s \<and>
    (status \<noteq> JNI2HOOK_OK \<longrightarrow> out = None \<and> hooks_of s' = (hooks_of s)(k := old)) \<and>
    (status = JNI2HOOK_OK \<longrightarrow> hooks_of s' = hooks_of s \<and> applied mem s' k \<and> (kind = HOOK_MAKE_NATIVE \<longleftrightarrow> out \<noteq> None) \<and>
       (\<forall>k'. k' \<noteq> k \<longrightarrow> current_definition (vm_log s') k' = current_definition (vm_log s) k' \<and> bound_since (vm_log s') k' = bound_since (vm_log s) k'))"
  proof (cases "result = JNI2HOOK_OK")
    case True
    have "he_kind (last hooks) = HOOK_MAKE_NATIVE \<longrightarrow> he_original (last hooks) \<noteq> None"
      using reapply_effect(3) [OF r True] ne by (meson last_in_set)
    with True f a(1,2,8,9,10,11,13) last_kind show ?thesis by (auto split: if_splits)
  next
    case False
    with f have rb: "rollback mem vm i result (put_hooks i hooks t) = Some (status, out, s')" by simp
    have "hc_hooks (g_classes (put_hooks i hooks t) ! i) \<noteq> []" using a(6) ne by simp
    from rollback_effect [OF rb a(1,4) this a(5)] False a(2,10,11,13) assms(5) show ?thesis by simp
  qed
  then show "registry_ok s'" "still_suspended (vm_log s') = still_suspended (vm_log s)" "live s' = live s" "g_initialized s' = g_initialized s"
    "status \<noteq> JNI2HOOK_OK \<Longrightarrow> out = None \<and> hooks_of s' = (hooks_of s)(k := old)"
    "status = JNI2HOOK_OK \<Longrightarrow> hooks_of s' = hooks_of s \<and> applied mem s' k \<and> (kind = HOOK_MAKE_NATIVE \<longleftrightarrow> out \<noteq> None) \<and>
       (\<forall>k'. k' \<noteq> k \<longrightarrow> current_definition (vm_log s') k' = current_definition (vm_log s) k' \<and> bound_since (vm_log s') k' = bound_since (vm_log s) k')"
    by blast+
qed

text \<open>Installing is the guards, the description, the room, the new entry, and that last stage.\<close>

lemma install_stages:
  assumes "install mem vm m offset fn kind s = Some (status, out, s')"
  obtains (refused) "status \<noteq> JNI2HOOK_OK" "out = None" "s' = s" "status \<noteq> JNI2HOOK_ERR_JNI"
  | (undescribed) t where "describe_method mem vm m kind s = (Inl status, t)" "out = None" "s' = t" "g_initialized s" "jvm_env vm s"
  | (no_class) rq t u where "describe_method mem vm m kind s = (Inr rq, t)" "reserve_class mem vm rq t = (None, u)"
      "status = JNI2HOOK_ERR_OUT_OF_MEMORY" "out = None" "s' = u" "g_initialized s" "jvm_env vm s"
  | (no_entry) rq t i u v where "describe_method mem vm m kind s = (Inr rq, t)" "reserve_class mem vm rq t = (Some i, u)"
      "reserve_entry mem i u = (False, v)" "status = JNI2HOOK_ERR_OUT_OF_MEMORY" "out = None" "s' = v" "g_initialized s" "jvm_env vm s"
  | (entered) rq t i u v e w where "describe_method mem vm m kind s = (Inr rq, t)" "reserve_class mem vm rq t = (Some i, u)"
      "reserve_entry mem i u = (True, v)" "new_entry vm m offset fn kind rq v = (e, w)" "g_initialized s" "jvm_env vm s"
      "\<not> method_conflicts m kind s"
      "(case reapply mem vm (hc_klass (g_classes w ! i)) (hc_hooks (g_classes w ! i) @ [e]) (put_hooks i (hc_hooks (g_classes w ! i) @ [e]) w) of
         None \<Rightarrow> None
       | Some (result, hooks, s) \<Rightarrow>
           let s = put_hooks i hooks s in
           if result \<noteq> JNI2HOOK_OK then rollback mem vm i result s
           else Some (JNI2HOOK_OK, if kind = HOOK_MAKE_NATIVE then he_original (last hooks) else None, s)) = Some (status, out, s')"
proof (cases "m = 0 \<or> fn = 0 \<or> \<not> g_initialized s \<or> \<not> jvm_jvmti s \<or> \<not> jvm_env vm s \<or> method_conflicts m kind s")
  case True
  with assms refused show thesis by (auto simp: install_def split: if_splits)
next
  case False
  note g = False
  obtain r t where r: "describe_method mem vm m kind s = (r, t)" by (metis surj_pair)
  show thesis
  proof (cases r)
    case (Inl x)
    with assms g r undescribed show thesis by (simp add: install_def)
  next
    case (Inr rq)
    obtain c u where c: "reserve_class mem vm rq t = (c, u)" by (metis surj_pair)
    show thesis
    proof (cases c)
      case None
      with assms g r Inr c no_class show thesis by (simp add: install_def)
    next
      case (Some i)
      obtain ok v where v: "reserve_entry mem i u = (ok, v)" by (metis surj_pair)
      obtain e w where w: "new_entry vm m offset fn kind rq v = (e, w)" by (metis surj_pair)
      show thesis
      proof (cases ok)
        case True
        show thesis
          by (rule entered [of rq t i u v e w]) (use assms g r Inr c Some v True w in \<open>simp_all add: install_def Let_def\<close>)
      next
        case False
        with assms g r Inr c Some v no_entry show thesis by (simp add: install_def)
      qed
    qed
  qed
qed

text \<open>Up to the new entry nothing is changed that a caller or the VM can see.\<close>

definition same_views :: "hook_state \<Rightarrow> hook_state \<Rightarrow> bool" where
  "same_views s s' \<longleftrightarrow> hooks_of s' = hooks_of s \<and> all_hooks s' = all_hooks s \<and> vm_log s' = vm_log s \<and> trampolines s' = trampolines s \<and>
     g_initialized s' = g_initialized s"

lemma same_views_trans: "same_views s t \<Longrightarrow> same_views t u \<Longrightarrow> same_views s u"
  by (simp add: same_views_def)

lemma same_hooks_views: "same_hooks s t \<Longrightarrow> same_views s t"
  by (simp add: same_hooks_def same_views_def)

lemma same_views_env: "same_views s t \<Longrightarrow> jvm_env vm t = jvm_env vm s"
  by (simp add: same_views_def jvm_env_def vm_now_def)

lemma describe_registry:
  assumes "describe_method mem vm m kind s = (r, t)" "registry_ok s"
  shows "registry_ok t" "same_views s t" "r \<noteq> Inl JNI2HOOK_OK \<and> r \<noteq> Inl JNI2HOOK_ERR_JNI"
    "\<And>rq. r = Inr rq \<Longrightarrow> cached (live t) (rq_class rq) \<noteq> None \<and> names_method mem vm m s rq"
proof -
  have live: "live_inv (live s)" "g_capture_class (live s) = None" using assms(2) by (simp_all add: registry_ok_def)
  note d = describe_method_effect [OF assms(1) live]
  have g: "g_classes t = g_classes s" using d(1) by (simp add: same_registry_def)
  show "registry_ok t" by (rule registry_ok_described [OF assms(2) d(1,2,3,4)])
  show "same_views s t" using view_cong [OF g] d(1) by (simp add: same_registry_def same_views_def)
  show "r \<noteq> Inl JNI2HOOK_OK \<and> r \<noteq> Inl JNI2HOOK_ERR_JNI" "\<And>rq. r = Inr rq \<Longrightarrow> cached (live t) (rq_class rq) \<noteq> None \<and> names_method mem vm m s rq" using d(5,6) by auto
qed

lemma reserve_class_registry:
  assumes "describe_method mem vm m kind s = (Inr rq, t)" "reserve_class mem vm rq t = (c, u)" "registry_ok s" "g_initialized s" "jvm_env vm s"
  shows "registry_ok u" "same_views s u" "\<And>i. c = Some i \<Longrightarrow> i < length (g_classes u) \<and> hc_klass (g_classes u ! i) = rq_class rq"
proof -
  note t = describe_registry [OF assms(1,3)]
  have "jvm_env vm t" "g_initialized t" using assms(4,5) same_views_env [OF t(2)] t(2) by (simp_all add: same_views_def)
  note u = reserve_class_effect [OF assms(2) t(1) this conjunct1 [OF t(4) [OF refl]]]
  show "registry_ok u" "\<And>i. c = Some i \<Longrightarrow> i < length (g_classes u) \<and> hc_klass (g_classes u ! i) = rq_class rq" using u(1,3) by auto
  show "same_views s u" using t(2) same_hooks_views [OF u(2)] by (rule same_views_trans)
qed

lemma reserve_entry_registry:
  assumes "describe_method mem vm m kind s = (Inr rq, t)" "reserve_class mem vm rq t = (Some i, u)" "reserve_entry mem i u = (ok, v)"
    "registry_ok s" "g_initialized s" "jvm_env vm s"
  shows "registry_ok v" "same_views s v" "i < length (g_classes v)" "hc_klass (g_classes v ! i) = rq_class rq"
    "ok \<Longrightarrow> length (hc_hooks (g_classes v ! i)) < hc_capacity (g_classes v ! i)"
proof -
  note u = reserve_class_registry [OF assms(1,2,4,5,6)]
  note v = reserve_entry_effect [OF assms(3) u(1) conjunct1 [OF u(3) [OF refl]]]
  show "registry_ok v" "i < length (g_classes v)" "hc_klass (g_classes v ! i) = rq_class rq"
    "ok \<Longrightarrow> length (hc_hooks (g_classes v ! i)) < hc_capacity (g_classes v ! i)" using v(1,3,5,6) u(3) by simp_all
  show "same_views s v" using u(2) same_hooks_views [OF v(2)] by (rule same_views_trans)
qed

text \<open>What a call that succeeded has done: one more hook on the declaring class, which is applied; no other class is touched.\<close>

definition installed ::
  "alloc \<Rightarrow> hook_vm \<Rightarrow> jmethodID \<Rightarrow> u4 \<Rightarrow> u8 \<Rightarrow> hook_kind \<Rightarrow> hook_state \<Rightarrow> hook_request \<Rightarrow> hook_entry \<Rightarrow> hook_state \<Rightarrow> bool" where
  "installed mem vm m offset fn kind s rq e s' \<longleftrightarrow>
     names_method mem vm m s rq \<and> hooks_of s' = (hooks_of s)(rq_class rq := hooks_of s (rq_class rq) @ [e]) \<and>
     he_method e = m \<and> he_name e = rq_name rq \<and> he_signature e = rq_signature rq \<and> he_function e = fn \<and> he_offset e = offset \<and>
     he_kind e = kind \<and> applied mem s' (rq_class rq) \<and>
     (\<forall>k'. k' \<noteq> rq_class rq \<longrightarrow> current_definition (vm_log s') k' = current_definition (vm_log s) k' \<and>
        bound_since (vm_log s') k' = bound_since (vm_log s) k')"

lemma install_effect:
  assumes "install mem vm m offset fn kind s = Some (status, out, s')" "registry_ok s" "fresh_page vm s"
  shows "registry_ok s' \<and> still_suspended (vm_log s') = still_suspended (vm_log s) \<and> g_initialized s' = g_initialized s \<and>
    (status \<noteq> JNI2HOOK_OK \<longrightarrow> out = None \<and> hooks_of s' = hooks_of s) \<and>
    (status = JNI2HOOK_OK \<longrightarrow> (\<exists>rq e. installed mem vm m offset fn kind s rq e s') \<and> (kind = HOOK_MAKE_NATIVE \<longleftrightarrow> out \<noteq> None))"
  using assms(1)
proof (cases rule: install_stages)
  case refused
  with assms(2) show ?thesis by simp
next
  case (undescribed t)
  with describe_registry [OF undescribed(1) assms(2)] show ?thesis by (auto simp: same_views_def)
next
  case (no_class rq t u)
  with reserve_class_registry(1,2) [OF no_class(1,2) assms(2) no_class(6,7)] show ?thesis by (simp add: same_views_def)
next
  case (no_entry rq t i u v)
  with reserve_entry_registry(1,2) [OF no_entry(1,2,3) assms(2) no_entry(7,8)] show ?thesis by (simp add: same_views_def)
next
  case (entered rq t i u v e w)
  note v = reserve_entry_registry [OF entered(1,2,3) assms(2) entered(5,6)]
  have same: "hooks_of v = hooks_of s" "all_hooks v = all_hooks s" "vm_log v = vm_log s" "trampolines v = trampolines s"
    using v(2) by (simp_all add: same_views_def)
  have fresh: "fresh_page vm v" using assms(3) same(4) by (simp add: fresh_page_def split: option.splits)
  have free: "\<forall>x\<in>#all_hooks v. he_method x = m \<longrightarrow> he_kind x \<noteq> HOOK_MAKE_NATIVE \<and> kind \<noteq> HOOK_MAKE_NATIVE"
    using no_conflict [OF entered(7)] unfolding same(2) by blast
  let ?x = "put_hooks i (hc_hooks (g_classes v ! i) @ [e]) w"
  note x = enter_effect [OF entered(4) v(1,3) fresh v(5) [OF TrueI] free, unfolded v(4)]
  note e = new_entry_effect(4-9) [OF entered(4) fresh]
  have iw: "i < length (g_classes w)" using v(3) x(3) by simp
  have fin: "finish_install mem vm kind i ?x = Some (status, out, s')"
    using entered(8) iw v(4) x(3) by (simp add: finish_install_def)
  have ix: "i < length (g_classes ?x)" "hc_klass (g_classes ?x ! i) = rq_class rq" using iw v(4) x(3) by simp_all
  have hx: "hooks_of ?x (rq_class rq) = hooks_of v (rq_class rq) @ [e]" using x(2) by simp
  note f = finish_install_effect [OF fin x(1) ix hx e(2)]
  have log: "vm_log ?x = vm_log s" "g_initialized ?x = g_initialized s" using x(5,6) same(3) v(2) by (simp_all add: same_views_def)
  have names: "names_method mem vm m s rq" using describe_registry(4) [OF entered(1) assms(2) refl] by simp
  show ?thesis
  proof (cases "status = JNI2HOOK_OK")
    case True
    with f(6) [OF True] x(2) same(1) e log(1) names have "installed mem vm m offset fn kind s rq e s'" by (simp add: installed_def)
    with True f(1,2,4) f(6) [OF True] log show ?thesis by auto
  next
    case False
    with f(1,2,4) f(5) [OF False] x(2) same(1) log show ?thesis by simp
  qed
qed

section \<open>Uninstalling\<close>

text \<open>
  The loop in the middle: the entries that stay are in front in their order, then those that go, then what was not looked at.
  Those that go may change their order.
\<close>

lemma partition_invariant:
  assumes "front \<le> i" "i \<le> length hooks" "list_all (\<lambda>e. \<not> matches e) (take front hooks)"
    "list_all matches (drop front (take i hooks))" "partition_loop matches i front hooks = (front', hooks')"
  shows "front' \<le> length hooks' \<and> mset hooks' = mset hooks \<and> list_all matches (drop front' hooks') \<and>
    take front' hooks' = take front hooks @ filter (\<lambda>e. \<not> matches e) (drop i hooks)"
  using assms
proof (induction matches i front hooks rule: partition_loop.induct)
  case (1 matches i front hooks)
  show ?case
  proof (cases "i < length hooks")
    case False
    then have "partition_loop matches i front hooks = (front, hooks)" by (simp add: partition_loop.simps)
    with False 1(3-) show ?thesis by simp
  next
    case lt: True
    have drop_i: "drop i hooks = hooks ! i # drop (Suc i) hooks" using lt by (rule Cons_nth_drop_Suc [symmetric])
    have take_i: "take (Suc i) hooks = take i hooks @ [hooks ! i]" using lt by (rule take_Suc_conv_app_nth)
    show ?thesis
    proof (cases "matches (hooks ! i)")
      case True
      with 1(1) [OF lt True] 1(3-) lt drop_i take_i show ?thesis by (simp add: partition_loop.simps [of matches i])
    next
      case False
      define h where "h = (if front \<noteq> i then hooks[front := hooks ! i, i := hooks ! front] else hooks)"
      have len: "length h = length hooks" by (simp add: h_def)
      have fi: "front < length hooks" using 1(3) lt by simp
      have front: "take (Suc front) h = take front hooks @ [hooks ! i]"
        using fi 1(3) by (auto simp: h_def take_Suc_conv_app_nth)
      have rest: "drop (Suc i) h = drop (Suc i) hooks" using 1(3) by (simp add: h_def)
      have mid: "list_all matches (drop (Suc front) (take (Suc i) h))"
      proof (cases "front = i")
        case ne: False
        with 1(3) have "front < i" by simp
        have "h ! j = hooks ! j" if "front < j" "j < i" for j using that lt by (simp add: h_def)
        moreover have "h ! i = hooks ! front" using ne lt by (simp add: h_def)
        moreover have "matches (hooks ! j)" if "front \<le> j" "j < i" for j
          using 1(6) that lt by (auto simp: list_all_length dest!: spec [of _ "j - front"])
        ultimately have "matches (h ! j)" if "front < j" "j \<le> i" for j
          using that \<open>front < i\<close> by (cases "j = i") auto
        then show ?thesis using lt len by (auto simp: list_all_length)
      qed (simp add: h_def)
      have "mset h = mset hooks" using fi lt by (auto simp: h_def mset_swap)
      with 1(2) [OF lt False] 1(3-) lt drop_i False front rest mid len show ?thesis
        by (simp add: partition_loop.simps [of matches i front hooks] h_def [symmetric])
    qed
  qed
qed

lemma partition_correct:
  assumes "partition_loop matches 0 0 hooks = (n, arranged)"
  shows "take n arranged = filter (\<lambda>e. \<not> matches e) hooks" "mset (drop n arranged) = mset (filter matches hooks)"
    "mset arranged = mset hooks" "n = length (filter (\<lambda>e. \<not> matches e) hooks)"
proof -
  from partition_invariant [OF _ _ _ _ assms] have p: "n \<le> length arranged" "mset arranged = mset hooks"
    "list_all matches (drop n arranged)" "take n arranged = filter (\<lambda>e. \<not> matches e) hooks" by simp_all
  show "take n arranged = filter (\<lambda>e. \<not> matches e) hooks" "mset arranged = mset hooks" using p by simp_all
  show "n = length (filter (\<lambda>e. \<not> matches e) hooks)" using p(1,4) by (metis length_take min.absorb2)
  have "mset (take n arranged) + mset (drop n arranged) = mset hooks" using p(2) by (metis append_take_drop_id mset_append)
  moreover have "mset (filter (\<lambda>e. \<not> matches e) hooks) + mset (filter matches hooks) = mset hooks"
    by (metis add.commute mset_filter multiset_partition)
  ultimately show "mset (drop n arranged) = mset (filter matches hooks)" using p(4) by (metis add_left_imp_eq)
qed

text \<open>What a call that succeeded has done: the matching hooks of that class are gone, and the class is applied with the others.\<close>

definition uninstalled :: "alloc \<Rightarrow> jclass \<Rightarrow> (hook_entry \<Rightarrow> bool) \<Rightarrow> hook_state \<Rightarrow> hook_state \<Rightarrow> bool" where
  "uninstalled mem k matches s s' \<longleftrightarrow>
     list_ex matches (hooks_of s k) \<and> hooks_of s' = (hooks_of s)(k := filter (\<lambda>e. \<not> matches e) (hooks_of s k)) \<and>
     applied mem s' k \<and>
     (\<forall>k'. k' \<noteq> k \<longrightarrow> current_definition (vm_log s') k' = current_definition (vm_log s) k' \<and>
        bound_since (vm_log s') k' = bound_since (vm_log s) k')"

text \<open>The order of the entries of a class may change when the call fails, but not which they are.\<close>

definition same_entries :: "hook_state \<Rightarrow> hook_state \<Rightarrow> bool" where
  "same_entries s s' \<longleftrightarrow> (\<forall>k. mset (hooks_of s' k) = mset (hooks_of s k)) \<and> klasses s' = klasses s"

lemma applied_cong:
  "hooks_of s' k = hooks_of s k \<Longrightarrow> vm_log s' = vm_log s \<Longrightarrow> live s' = live s \<Longrightarrow> applied mem s' k = applied mem s k"
  by (simp add: applied_def split: option.split sum.split)

lemma uninstall_at:
  assumes "i < length (g_classes s)" "registry_ok s" "hc_klass (g_classes s ! i) = k" "\<And>e. matches (blank e) = matches e"
    "partition_loop matches 0 0 (hc_hooks (g_classes s ! i)) = (n, arranged)" "n \<noteq> length (hc_hooks (g_classes s ! i))"
    "reapply mem vm k (take n arranged) (put_hooks i (take n arranged) s) = Some (result, hooks, t)"
  defines "kept_state \<equiv> put_hooks i (hooks @ drop n arranged) t"
    and "done_state \<equiv> fold (free_entry vm) (drop n arranged) (put_hooks i hooks t)"
  shows "registry_ok kept_state" "same_entries s kept_state"
    "registry_ok done_state" "result = JNI2HOOK_OK \<Longrightarrow> uninstalled mem k matches s done_state"
    "still_suspended (vm_log t) = still_suspended (vm_log s)" "i < length (g_classes done_state)" "g_initialized t = g_initialized s"
    "hc_klass (g_classes done_state ! i) = k" "hc_hooks (g_classes done_state ! i) = hooks"
proof -
  let ?old = "hc_hooks (g_classes s ! i)" and ?stay = "take n arranged" and ?go = "drop n arranged"
  note p = partition_correct [OF assms(5)]
  have d: "distinct (klasses s)" using assms(2) by (simp add: registry_ok_def)
  have split: "mset (map blank ?old) = mset (map blank ?stay) + mset (map blank ?go)"
  proof -
    have "mset ?stay + mset ?go = mset ?old" using p(3) by (metis append_take_drop_id mset_append)
    then show ?thesis by (metis image_mset_union mset_map)
  qed
  note f = registry_ok_fewer [OF assms(2,1) split]
  have pi: "i < length (g_classes (put_hooks i ?stay s))" "hc_hooks (g_classes (put_hooks i ?stay s) ! i) = ?stay"
    "hc_klass (g_classes (put_hooks i ?stay s) ! i) = k" using assms(1,3) by simp_all
  note r = reapply_at [OF assms(7) f(1) pi]
  have log: "only_logged k (put_hooks i ?stay s) t" by (rule reapply_effect(1) [OF assms(7)])
  note g = only_logged_fields [OF log]
  have ti: "i < length (g_classes t)" "hc_klass (g_classes t ! i) = k" using r(4,5) g(4) pi by simp_all
  have same: "put_hooks i hs t = put_hooks i hs (s\<lparr>vm_log := vm_log t, g_last_error := g_last_error t\<rparr>)" for hs
  proof -
    obtain l e where "t = (put_hooks i ?stay s)\<lparr>vm_log := l, g_last_error := e\<rparr>" using log by (auto simp: only_logged_def)
    with assms(1) show ?thesis by (simp add: put_hooks_def)
  qed
  let ?s = "s\<lparr>vm_log := vm_log t, g_last_error := g_last_error t\<rparr>"
  have s: "registry_ok ?s" "i < length (g_classes ?s)" "g_classes ?s = g_classes s" "hooks_of ?s = hooks_of s" "klasses ?s = klasses s"
    using registry_ok_cong [OF assms(2), of ?s] assms(1) view_cong [of ?s s] by simp_all
  have hk: "hooks_of s k = map blank ?old" using hooks_of_put(2) [OF assms(1) d] assms(3) by simp
  have m: "mset (map blank (hooks @ ?go)) = mset (map blank (hc_hooks (g_classes ?s ! i)))" using split r(7) by (simp flip: mset_map)
  show "registry_ok kept_state" unfolding kept_state_def same by (rule registry_ok_same_hooks [OF s(1,2) m])
  have "hooks_of kept_state = (hooks_of s)(k := map blank (hooks @ ?go))"
    unfolding kept_state_def same using hooks_of_put(1) [OF s(2), of "hooks @ ?go"] d s(3,4,5) assms(3) by simp
  then show "same_entries s kept_state" using m hk by (simp add: same_entries_def kept_state_def same s(5))
  have split': "mset (map blank (hc_hooks (g_classes ?s ! i))) = mset (map blank hooks) + mset (map blank ?go)" using split r(7) by (simp flip: mset_map)
  note e = remove_free [OF s(1,2) split', of vm]
  show "registry_ok done_state" unfolding done_state_def same by (rule e)
  have filt: "map blank hooks = filter (\<lambda>e. \<not> matches e) (hooks_of s k)"
    using r(7) p(1) hk by (simp add: filter_map o_def assms(4))
  have hd: "hooks_of done_state = (hooks_of s)(k := filter (\<lambda>e. \<not> matches e) (hooks_of s k))"
    using e(2) s(3,4) assms(3) filt unfolding done_state_def same by simp
  show "uninstalled mem k matches s done_state" if ok: "result = JNI2HOOK_OK"
  proof -
    have "applied mem (put_hooks i hooks t) k" by (rule r(8) [OF ok])
    then have "applied mem done_state k"
      by (subst applied_cong [of _ _ "put_hooks i hooks t"]) (simp_all add: done_state_def view_cong(1) [OF free_entries_fields(1)])
    moreover have "list_ex matches (hooks_of s k)"
    proof (rule ccontr)
      assume "\<not> list_ex matches (hooks_of s k)"
      then have "filter (\<lambda>e. \<not> matches e) ?old = ?old" unfolding hk by (auto simp: list_ex_iff assms(4) intro!: filter_True)
      with p(4) assms(6) show False by simp
    qed
    ultimately show ?thesis using hd r(9) by (simp add: uninstalled_def done_state_def)
  qed
  show "still_suspended (vm_log t) = still_suspended (vm_log s)" "g_initialized t = g_initialized s" using r(10,13) by simp_all
  show "i < length (g_classes done_state)" "hc_klass (g_classes done_state ! i) = k" "hc_hooks (g_classes done_state ! i) = hooks"
    using ti by (simp_all add: done_state_def)
qed

lemma find_class_of_method_Some:
  "find_class_of_method m s = Some i \<Longrightarrow> i < length (g_classes s) \<and> (\<exists>e\<in>set (hc_hooks (g_classes s ! i)). he_method e = m)"
  by (auto simp: find_class_of_method_def find_index_Some list_ex_iff)

lemma uninstall_effect:
  assumes "uninstall_matching mem vm m matches s = Some (status, s')" "registry_ok s" "\<And>e. matches (blank e) = matches e"
  shows "registry_ok s' \<and> still_suspended (vm_log s') = still_suspended (vm_log s) \<and> g_initialized s' = g_initialized s \<and>
    (status \<noteq> JNI2HOOK_OK \<longrightarrow> same_entries s s') \<and>
    (status = JNI2HOOK_OK \<longrightarrow> (\<exists>k\<in>set (klasses s). m \<in> he_method ` set (hooks_of s k) \<and> uninstalled mem k matches s s'))"
proof (cases "g_initialized s \<and> find_class_of_method m s \<noteq> None")
  case False
  with assms(1,2) show ?thesis by (auto simp: uninstall_matching_def same_entries_def split: option.splits if_splits)
next
  case True
  then obtain i where i: "find_class_of_method m s = Some i" by blast
  note at = find_class_of_method_Some [OF i]
  let ?c = "g_classes s ! i"
  obtain n arranged where p: "partition_loop matches 0 0 (hc_hooks ?c) = (n, arranged)" by (metis surj_pair)
  note pc = partition_correct [OF p]
  have d: "distinct (klasses s)" using assms(2) by (simp add: registry_ok_def)
  have hk: "hooks_of s (hc_klass ?c) = map blank (hc_hooks ?c)" using hooks_of_put(2) [OF conjunct1 [OF at] d] .
  have k: "hc_klass ?c \<in> set (klasses s)" "m \<in> he_method ` set (hooks_of s (hc_klass ?c))"
    using at by (auto simp: klasses_def hk image_image)
  show ?thesis
  proof (cases "n = length (hc_hooks ?c)")
    case all: True
    then have "s' = put_hooks i arranged s" "status = JNI2HOOK_ERR_NOT_HOOKED"
      using assms(1) True i p by (simp_all add: uninstall_matching_def Let_def)
    moreover have "map blank arranged = map blank (hc_hooks ?c)"
    proof -
      have "filter (\<lambda>e. \<not> matches e) (hc_hooks ?c) = hc_hooks ?c" 
        using length_filter_less [of _ "hc_hooks ?c" "\<lambda>e. \<not> matches e"] pc(4) all by (intro filter_True ballI) fastforce
      moreover have "length arranged = n" using pc(3) all by (metis mset_eq_length)
      ultimately show ?thesis using pc(1) by simp
    qed
    moreover from this have m: "mset (map blank arranged) = mset (map blank (hc_hooks ?c))" by simp
    ultimately show ?thesis
      using registry_ok_same_hooks(1) [OF assms(2) conjunct1 [OF at] m] hooks_of_put(1) [OF conjunct1 [OF at] d, of arranged] hk
      by (simp add: same_entries_def fun_upd_idem)
  next
    case some: False
    have put: "put_hooks i x (put_hooks i y s) = put_hooks i x s" for x y using at by (simp add: put_hooks_def)
    from assms(1) True i p some obtain result hooks t
      where r: "reapply mem vm (hc_klass ?c) (take n arranged) (put_hooks i (take n arranged) s) = Some (result, hooks, t)"
      and fin: "(if result \<noteq> JNI2HOOK_OK then Some (result, put_hooks i (hooks @ drop n arranged) t)
        else let s = fold (free_entry vm) (drop n arranged) (put_hooks i hooks t)
             in Some (JNI2HOOK_OK, if hooks = [] then drop_class vm i s else s)) = Some (status, s')"
      by (auto simp: uninstall_matching_def Let_def put split: option.splits)
    note u = uninstall_at [OF conjunct1 [OF at] assms(2) refl assms(3) p some r]
    show ?thesis
    proof (cases "result = JNI2HOOK_OK")
      case False
      with fin u(1,2,5,7) show ?thesis by auto
    next
      case ok: True
      let ?done = "fold (free_entry vm) (drop n arranged) (put_hooks i hooks t)"
      have s': "status = JNI2HOOK_OK" "s' = (if hooks = [] then drop_class vm i ?done else ?done)" using ok fin by (auto simp: Let_def)
      note un = u(4) [OF ok]
      have dd: "distinct (klasses ?done)" using u(3) by (simp add: registry_ok_def)
      have "hooks_of (drop_class vm i ?done) = hooks_of ?done" if "hooks = []"
        using hooks_of_drop [OF u(6) dd] hooks_of_put(2) [OF u(6) dd] u(8,9) that by (simp add: fun_upd_idem)
      then have h: "hooks_of s' = hooks_of ?done" "vm_log s' = vm_log ?done" "live s' = live ?done" unfolding s'(2) by simp_all
      have "uninstalled mem (hc_klass ?c) matches s s'"
        using un h applied_cong [of s' "hc_klass ?c" ?done mem] by (simp add: uninstalled_def)
      moreover have "registry_ok s'" using u(3) registry_ok_drop [OF u(3,6)] unfolding s'(2) by (split if_split) blast
      moreover have "still_suspended (vm_log s') = still_suspended (vm_log s)" "g_initialized s' = g_initialized s"
        using u(5,7) h(2) unfolding s'(2) by simp_all
      ultimately show ?thesis using k s'(1) by auto
    qed
  qed
qed

section \<open>Shutting down\<close>

lemma reapply_nothing: "reapply mem vm k [] s \<noteq> None"
  by (auto simp: reapply_def rebuild_def split: option.split) (metis surj_pair)

text \<open>Restoring a class needs no fuel and no memory: the loop always comes to its end, and each class it leaves without an error has its original bytes.\<close>

lemma shutdown_loop_effect:
  assumes "registry_ok s" "n = length (g_classes s)"
  shows "\<exists>status s'. shutdown_loop mem vm n result s = Some (status, s') \<and> g_classes s' = [] \<and> live s' = live s \<and> registry_ok s' \<and>
    still_suspended (vm_log s') = still_suspended (vm_log s) \<and>
    (\<forall>k. k \<notin> set (klasses s) \<longrightarrow> current_definition (vm_log s') k = current_definition (vm_log s) k) \<and>
    (status = JNI2HOOK_OK \<longrightarrow> result = JNI2HOOK_OK \<and> (\<forall>k\<in>set (klasses s). current_definition (vm_log s') k = cached (live s) k))"
  using assms
proof (induction n arbitrary: s result)
  case (Suc i)
  let ?c = "g_classes s ! i"
  let ?k = "hc_klass ?c"
  have i: "i < length (g_classes s)" using Suc.prems by simp
  obtain restored hooks t where r: "reapply mem vm ?k [] (put_hooks i [] s) = Some (restored, hooks, t)"
    using reapply_nothing by (metis option.exhaust prod_cases3)
  note f = registry_ok_fewer [OF Suc.prems(1) i, of "[]" "hc_hooks ?c", simplified]
  have pi: "i < length (g_classes (put_hooks i [] s))" "hc_hooks (g_classes (put_hooks i [] s) ! i) = []"
    "hc_klass (g_classes (put_hooks i [] s) ! i) = ?k" using i by simp_all
  note a = reapply_at [OF r f(1) pi]
  have log: "only_logged ?k (put_hooks i [] s) t" by (rule reapply_effect(1) [OF r])
  note g = only_logged_fields [OF log]
  let ?u = "fold (free_entry vm) (hc_hooks ?c) t"
  let ?v = "drop_class vm i ?u"
  have t: "registry_ok t" using f(1) log by (rule registry_ok_logged)
  have "pages_ok (trampolines t) (mset (map blank (hc_hooks ?c)) + all_hooks t)"
    using Suc.prems(1) f(2) g(3) view_cong(2) [OF g(4)] by (simp add: registry_ok_def add.commute)
  with t have u: "registry_ok ?u" by (rule registry_ok_free)
  have iu: "i < length (g_classes ?u)" using i g(4) by simp
  note v = registry_ok_drop [OF u iu, of vm]
  have kv: "add_mset ?k (mset (klasses ?v)) = mset (klasses s)"
    using klasses_drop [OF iu, of vm] g(4) i view_cong(3) [OF free_entries_fields(1), of vm "hc_hooks ?c" t] view_cong(3) [OF g(4)] by simp
  have nk: "?k \<notin> set (klasses ?v)"
    using kv Suc.prems(1) unfolding registry_ok_def by (metis distinct.simps(2) mset.simps(2) mset_eq_imp_distinct_iff)
  have set: "set (klasses s) = insert ?k (set (klasses ?v))" using arg_cong [OF kv, of set_mset] by simp
  have len: "i = length (g_classes ?v)" using Suc.prems(2) g(4) by simp
  from Suc.IH [OF v len] obtain status s' where s': "shutdown_loop mem vm i (if restored \<noteq> JNI2HOOK_OK \<and> result = JNI2HOOK_OK then restored else result) ?v = Some (status, s')"
    "g_classes s' = []" "live s' = live ?v" "registry_ok s'" "still_suspended (vm_log s') = still_suspended (vm_log ?v)"
    "\<forall>k. k \<notin> set (klasses ?v) \<longrightarrow> current_definition (vm_log s') k = current_definition (vm_log ?v) k"
    "status = JNI2HOOK_OK \<longrightarrow> (if restored \<noteq> JNI2HOOK_OK \<and> result = JNI2HOOK_OK then restored else result) = JNI2HOOK_OK \<and>
      (\<forall>k\<in>set (klasses ?v). current_definition (vm_log s') k = cached (live ?v) k)" by blast
  have eq: "shutdown_loop mem vm (Suc i) result s = Some (status, s')" using s'(1) r by (simp add: Let_def)
  have vl: "vm_log ?v = vm_log t" "live ?v = live s" using g(1) by simp_all
  have rest: "current_definition (vm_log t) ?k = cached (live s) ?k" if "restored = JNI2HOOK_OK"
    using reapply_effect(3) [OF r that] by (auto simp: rebuild_def)
  have other: "current_definition (vm_log t) k = current_definition (vm_log s) k" if "k \<noteq> ?k" for k using a(9) [OF that] by simp
  show ?case
  proof (intro exI [of _ status] exI [of _ s'] conjI allI impI ballI)
    show "still_suspended (vm_log s') = still_suspended (vm_log s)" using s'(5) a(10) vl(1) by simp
    show "current_definition (vm_log s') k = current_definition (vm_log s) k" if "k \<notin> set (klasses s)" for k
      using that s'(6) set other vl(1) by auto
    show "result = JNI2HOOK_OK" if "status = JNI2HOOK_OK" using s'(7) that by (auto split: if_splits)
    show "current_definition (vm_log s') k = cached (live s) k" if "status = JNI2HOOK_OK" "k \<in> set (klasses s)" for k
    proof (cases "k = ?k")
      case True
      have "restored = JNI2HOOK_OK" using s'(7) that(1) by (auto split: if_splits)
      with True s'(6) nk rest vl show ?thesis by simp
    next
      case False
      with that set s'(7) vl show ?thesis by auto
    qed
  qed (use eq s' vl in simp_all)
qed (auto simp: klasses_def)

end
