(* ===== verification/Hook_Lifecycle.thy ===== *)
theory Hook_Lifecycle
  imports Registry_Correct
begin

text \<open>
  The library as a state machine: one step is one public call of \<^verbatim>\<open>jni2hook.c\<close> or one callback of the VM. The
  invariant of the reachable states, and what each call of the registry promises.
\<close>

section \<open>Calls that only concern watches\<close>

lemma entries_silenced: "g_entries (silenced s) = g_entries s"
  by (simp add: silenced_def)

lemma set_watch_events_entries [simp]: "g_entries (snd (class_cache_set_watch_events vm b s)) = g_entries s"
  using set_watch_events_only [of s vm b] entries_silenced unfolding events_only_def by metis

lemma set_watch_events_entries' [simp]: "class_cache_set_watch_events vm b s = (ok, t) \<Longrightarrow> g_entries t = g_entries s"
  using set_watch_events_entries [of vm b s] by simp

lemma release_entries_same [simp]:
  "g_entries (put_watch a w s) = g_entries s" "g_entries (release_candidate b a s) = g_entries s"
  "g_entries (release_ready b a s) = g_entries s"
  by (simp_all add: put_watch_def release_candidate_def release_ready_def drop_ref_def DeleteGlobalRef_def split: option.split)

lemma destroy_entries: "g_entries (class_watch_destroy vm b (Some a) s) = g_entries s"
  by (simp add: class_watch_destroy_def Let_def)

lemma create_entries: "g_entries (snd (class_watch_create mem vm (Some a) pattern s)) = g_entries s"
  by (simp add: class_watch_create_def Let_def split: prod.split bool.split)

lemma create_named_entries: "g_entries (snd (class_watch_create_named mem vm (Some a) c m sg st s)) = g_entries s"
  by (simp add: class_watch_create_named_def Let_def destroy_entries split: prod.split bool.split)

text \<open>The watches and the cache are in order, and no class is being captured.\<close>

definition calm :: "live_state \<Rightarrow> bool" where
  "calm l \<longleftrightarrow> live_inv l \<and> g_capture_class l = None"

lemma calm_create:
  assumes "calm l" "watch_heap l a = None"
  shows "calm (snd (class_watch_create mem vm (Some a) pattern l))"
  using assms create_inv by (simp add: calm_def)

lemma calm_resolve:
  assumes "calm l"
  shows "calm (snd (class_watch_resolve_loaded vm (Some a) m off l))" "g_entries (snd (class_watch_resolve_loaded vm (Some a) m off l)) = g_entries l"
    "g_watches (snd (class_watch_resolve_loaded vm (Some a) m off l)) = g_watches l"
  using resolve_inv [of l vm a m off] assms same_frameD by (auto simp: calm_def)

lemma registry_ok_live:
  assumes "registry_ok s" "calm l" "g_entries l = g_entries (live s)"
  shows "registry_ok (s\<lparr>live := l\<rparr>)"
proof -
  have "cached l = cached (live s)" using assms(3) by (simp add: cached_def)
  with assms(1,2) show ?thesis by (simp add: registry_ok_def calm_def view_cong [of "s\<lparr>live := l\<rparr>" s])
qed

text \<open>A watch that holds nothing is destroyed the same way without an environment.\<close>

lemma destroy_without_env:
  assumes "watch_refs (watch_at s a) = {#}"
  shows "class_watch_destroy vm False (Some a) s = class_watch_destroy vm True (Some a) s"
proof -
  have refs: "w_loader (watch_at s a) = None" "w_declaring (watch_at s a) = None"
    using assms by (auto simp: watch_refs_def opt_ref_def split: option.splits)
  have rel: "release_ready False a (release_candidate False a t) = release_ready True a (release_candidate True a t)"
    if "w_loader (watch_at t a) = None" "w_declaring (watch_at t a) = None" for t
    using that by (simp add: release_ready_def release_candidate_def drop_ref_def put_watch_def watch_at_def)
  let ?t = "if w_registered (watch_at s a) then put_watch a ((watch_at s a)\<lparr>w_registered := False\<rparr>) (s\<lparr>g_watches := remove1 a (g_watches s)\<rparr>) else s"
  let ?u = "if g_watches ?t = [] then snd (class_cache_set_watch_events vm False ?t) else ?t"
  have "watch_at ?u = watch_at ?t" using events_only_fields(6) [OF set_watch_events_only] by (simp del: split_paired_All)
  then have "w_loader (watch_at ?u a) = None" "w_declaring (watch_at ?u a) = None" using refs by simp_all
  from rel [OF this] show ?thesis by (simp only: class_watch_destroy_def Let_def option.case)
qed

section \<open>The state machine\<close>

definition hook_init :: hook_state where
  "hook_init = \<lparr>live = live_init\<lparr>jvmti_bound := False\<rparr>, class_refs = {#}, trampolines = (\<lambda>_. None), g_classes = [], g_class_cap = 0,
     g_insert_serial = 0, g_initialized = False, g_can_suspend = False, g_last_error = JVMTI_ERROR_NONE, g_flag_state = - 1, vm_log = []\<rparr>"

text \<open>The calling thread has an environment whenever it asks.\<close>

definition attached :: "hook_vm \<Rightarrow> bool" where
  "attached vm \<longleftrightarrow> (\<forall>log. env_available (vm_base vm log))"

inductive hook_step :: "hook_state \<Rightarrow> hook_state \<Rightarrow> bool" where
  hook_start: "hook_step s (snd (JNI2Hook_Init vm given s))"
| hook_install: "fresh_page vm s \<Longrightarrow> JNI2Hook_Install mem vm m fn s = Some (status, out, s') \<Longrightarrow> hook_step s s'"
| hook_install_at: "fresh_page vm s \<Longrightarrow> JNI2Hook_InstallAt mem vm m offset fn s = Some (status, s') \<Longrightarrow> hook_step s s'"
| hook_uninstall: "JNI2Hook_Uninstall mem vm m s = Some (status, s') \<Longrightarrow> hook_step s s'"
| hook_uninstall_at: "JNI2Hook_UninstallAt mem vm m offset fn s = Some (status, s') \<Longrightarrow> hook_step s s'"
| hook_shutdown: "attached vm \<Longrightarrow> JNI2Hook_Shutdown mem vm s = Some (status, s') \<Longrightarrow> hook_step s s'"
| hook_redefine: "hook_step s (snd (JNI2Hook_RedefineClass vm klass bytes s))"
| hook_watch: "watch_heap (live s) a = None \<Longrightarrow> hook_step s (snd (JNI2Hook_WatchMethod mem vm (Some a) pattern s))"
| hook_watch_name: "watch_heap (live s) a = None \<Longrightarrow>
    hook_step s (snd (JNI2Hook_WatchMethodByName mem vm (Some a) class_name meth_name sig meth_static s))"
| hook_destroy: "watch_heap (live s) a = Some w \<Longrightarrow> attached vm \<Longrightarrow> hook_step s (JNI2Hook_DestroyMethodWatch vm (Some a) s)"
| hook_load: "hook_step s (s\<lparr>live := on_class_file_load mem vm l (live s)\<rparr>)"
| hook_prepare: "hook_step s (s\<lparr>live := on_class_prepare mem vm klass (live s)\<rparr>)"

inductive hook_reachable :: "hook_state \<Rightarrow> bool" where
  hook_reach_init: "hook_reachable hook_init"
| hook_reach_step: "hook_reachable s \<Longrightarrow> hook_step s s' \<Longrightarrow> hook_reachable s'"

text \<open>Between calls no thread is left suspended, and without the library there is no watch that waits.\<close>

definition hook_inv :: "hook_state \<Rightarrow> bool" where
  "hook_inv s \<longleftrightarrow> registry_ok s \<and> still_suspended (vm_log s) = {#} \<and> (g_initialized s \<or> g_watches (live s) = [])"

lemma install_initialized:
  assumes "install mem vm m offset fn kind s = Some (status, out, s')"
  shows "\<not> g_initialized s \<Longrightarrow> s' = s"
  using assms by (auto simp: install_def split: if_splits)

lemma uninstall_initialized: "uninstall_matching mem vm m matches s = Some (status, s') \<Longrightarrow> \<not> g_initialized s \<Longrightarrow> s' = s"
  by (simp add: uninstall_matching_def)

lemma install_inv:
  assumes "install mem vm m offset fn kind s = Some (status, out, s')" "fresh_page vm s" "hook_inv s"
  shows "hook_inv s'"
  using install_effect [OF assms(1) _ assms(2)] install_initialized [OF assms(1)] assms(3) unfolding hook_inv_def by (cases "g_initialized s") auto

lemma uninstall_inv:
  assumes "uninstall_matching mem vm m matches s = Some (status, s')" "\<And>e. matches (blank e) = matches e" "hook_inv s"
  shows "hook_inv s'"
  using uninstall_effect [OF assms(1) _ assms(2)] uninstall_initialized [OF assms(1)] assms(3) unfolding hook_inv_def by (cases "g_initialized s") auto

lemma matches_blank: "matches_method m (blank e) = matches_method m e" "matches_insert m offset fn (blank e) = matches_insert m offset fn e"
  by (simp_all add: matches_method_def matches_insert_def)

lemma hook_inv_live:
  assumes "hook_inv s" "calm l" "g_entries l = g_entries (live s)" "g_initialized s \<or> g_watches l = []"
  shows "hook_inv (s\<lparr>live := l\<rparr>)"
  using assms registry_ok_live [of s l] by (simp add: hook_inv_def)

lemma hook_inv_calm: "hook_inv s \<Longrightarrow> calm (live s)"
  by (simp add: hook_inv_def registry_ok_def calm_def)

lemma hook_inv_error [simp]: "hook_inv (s\<lparr>g_last_error := e\<rparr>) = hook_inv s"
  by (simp add: hook_inv_def registry_ok_def view_cong [of "s\<lparr>g_last_error := e\<rparr>" s])

lemma start_inv:
  assumes "hook_inv s"
  shows "hook_inv (snd (JNI2Hook_Init vm given s))"
proof (cases "g_initialized s")
  case False
  let ?same = "\<lambda>t. registry_ok t \<and> still_suspended (vm_log t) = {#} \<and> g_watches (live t) = []"
  have s: "?same s" using assms False by (simp add: hook_inv_def)
  have live: "?same (t\<lparr>live := l\<rparr>)" if "?same t" "live_inv l = live_inv (live t)" "g_capture_class l = g_capture_class (live t)"
      "g_entries l = g_entries (live t)" "g_watches l = g_watches (live t)" for t l
    using that registry_ok_live [of t l] by (simp add: calm_def registry_ok_def)
  have other: "?same (t\<lparr>g_can_suspend := b\<rparr>)" "?same (t\<lparr>g_last_error := e\<rparr>)" "?same (t\<lparr>vm_log := Flag_Set c # vm_log t, g_flag_state := f\<rparr>)"
    if "?same t" for t b e c f
    using that by (auto elim: registry_ok_cong)
  obtain bound t where t: "jvm_bind vm given s = (bound, t)" by (metis surj_pair)
  have bound: "live_inv (l\<lparr>jvmti_bound := b\<rparr>) = live_inv l" for l b
    by (simp add: live_inv_def watches_held_def cache_held_def watch_at_def)
  have tsame: "?same t" using t s live [OF s, of "(live s)\<lparr>jvmti_bound := jvm_jvmti s \<or> create_jvmti_ok vm\<rparr>"] bound
    by (auto simp: jvm_bind_def Let_def split: if_splits)
  let ?u = "force_flag vm (t\<lparr>g_can_suspend := granted_suspend vm\<rparr>)"
  have u: "?same ?u" using other(1,3) [OF tsame] other(3) [OF other(1) [OF tsame]]
    by (auto simp: force_flag_def note_event_def split: option.split)
  obtain ok l where l: "class_cache_start (vm_now vm ?u) (live ?u) = (ok, l)" by (metis surj_pair)
  then have ul: "?same (?u\<lparr>live := l\<rparr>)" using live [OF u, of l] by (auto simp: class_cache_start_def split: if_splits)
  then have "registry_ok (?u\<lparr>live := l, g_initialized := True\<rparr>)"
    by (simp add: registry_ok_def view_cong [of "?u\<lparr>live := l, g_initialized := True\<rparr>" ?u] view_cong [of "?u\<lparr>live := l\<rparr>" ?u])
  with ul tsame False t l other(2) [OF tsame] show ?thesis
    by (auto simp: JNI2Hook_Init_def hook_inv_def Let_def split: bool.split)
qed (use assms in \<open>simp add: JNI2Hook_Init_def\<close>)

text \<open>Shutting down always returns; afterwards there is nothing left to manage.\<close>

lemma release_watches_same [simp]:
  "g_watches (put_watch a w s) = g_watches s" "g_watches (release_candidate b a s) = g_watches s"
  "g_watches (release_ready b a s) = g_watches s"
  by (simp_all add: put_watch_def release_candidate_def release_ready_def drop_ref_def DeleteGlobalRef_def split: option.split)

lemma clear_watches: "g_watches (class_watch_clear b s) = []"
proof -
  have "g_watches (fold (cancel_watch b) as t) = g_watches t" for as t
    by (induction as arbitrary: t) (simp_all add: cancel_watch_def Let_def)
  then show ?thesis by (simp add: class_watch_clear_def)
qed

lemma set_mode_same [simp]:
  "g_watches (snd (SetEventNotificationMode vm b kind s)) = g_watches s" "g_entries (snd (SetEventNotificationMode vm b kind s)) = g_entries s"
  by (cases kind; simp add: SetEventNotificationMode_def Let_def)+

lemma cache_clear_watches: "g_watches (class_cache_clear vm s) = g_watches s" "g_entries (class_cache_clear vm s) = []"
proof -
  have "g_watches (fold (release_entry b) es t) = g_watches t" for b es t
    by (induction es arbitrary: t) (simp_all add: release_entry_def drop_ref_def DeleteGlobalRef_def)
  then show "g_watches (class_cache_clear vm s) = g_watches s" "g_entries (class_cache_clear vm s) = []"
    by (simp_all add: class_cache_clear_def)
qed

lemma cache_stop_same: "g_watches (class_cache_stop vm s) = g_watches s" "g_entries (class_cache_stop vm s) = g_entries s"
  by (simp_all add: class_cache_stop_def Let_def)

lemma shutdown_effect:
  assumes "registry_ok s" "g_initialized s"
  shows "\<exists>status s'. JNI2Hook_Shutdown mem vm s = Some (status, s') \<and> g_classes s' = [] \<and> \<not> g_initialized s' \<and>
    \<not> jvm_jvmti s' \<and> g_entries (live s') = [] \<and> g_watches (live s') = [] \<and>
    still_suspended (vm_log s') = still_suspended (vm_log s) \<and> (attached vm \<longrightarrow> registry_ok s') \<and>
    (status = JNI2HOOK_OK \<longrightarrow> (\<forall>k\<in>set (klasses s). current_definition (vm_log s') k = cached (live s) k))"
proof -
  obtain status t where t: "shutdown_loop mem vm (length (g_classes s)) JNI2HOOK_OK s = Some (status, t)" "g_classes t = []" "live t = live s"
    "registry_ok t" "still_suspended (vm_log t) = still_suspended (vm_log s)"
    "status = JNI2HOOK_OK \<longrightarrow> (\<forall>k\<in>set (klasses s). current_definition (vm_log t) k = cached (live s) k)"
    using shutdown_loop_effect [OF assms(1) refl, of mem vm JNI2HOOK_OK] by blast
  define u where "u = t\<lparr>g_classes := [], g_class_cap := 0, g_insert_serial := 0\<rparr>"
  define v where "v = (if g_flag_state u = 1 \<and> set_bool_flag vm (vm_log u) False \<noteq> None then note_event (Flag_Set False) u else u)\<lparr>g_flag_state := - 1\<rparr>"
  define l where "l = class_cache_stop (vm_now vm v) (class_cache_clear (vm_now vm v) (class_watch_clear (jvm_env vm v) (live v)))"
  have eq: "JNI2Hook_Shutdown mem vm s = Some (status, v\<lparr>live := l\<lparr>jvmti_bound := False\<rparr>, g_can_suspend := False, g_initialized := False\<rparr>)"
    by (simp only: JNI2Hook_Shutdown_def t(1) assms(2) Let_def l_def v_def u_def not_True_eq_False if_False option.case prod.case)
  have v: "g_classes v = []" "live v = live s" "still_suspended (vm_log v) = still_suspended (vm_log s)"
    "current_definition (vm_log v) k = current_definition (vm_log t) k" for k
    using t(3,5) by (simp_all add: v_def u_def note_event_def)
  have l: "g_watches l = []" "g_entries l = []" by (simp_all add: l_def clear_watches cache_clear_watches cache_stop_same)
  have reg: "registry_ok (v\<lparr>live := l\<lparr>jvmti_bound := False\<rparr>, g_can_suspend := False, g_initialized := False\<rparr>)" if "attached vm"
  proof -
    have env: "env_available (vm_now vm v)" "jvm_env vm v" using that by (simp_all add: attached_def vm_now_def jvm_env_def)
    have "calm (live s)" using assms(1) by (simp add: registry_ok_def calm_def)
    then have "live_inv l" "g_capture_class l = None"
      using env v(2) live_step_inv [OF step_watch_clear, of "live s"]
        live_step_inv [OF step_cache_clear [OF env(1)], of "class_watch_clear True (live s)"]
        live_step_inv [OF step_stop, of "class_cache_clear (vm_now vm v) (class_watch_clear True (live s))" "vm_now vm v"]
      by (simp_all add: l_def calm_def)
    then have "live_inv (l\<lparr>jvmti_bound := False\<rparr>)" "g_capture_class (l\<lparr>jvmti_bound := False\<rparr>) = None"
      by (simp_all add: live_inv_def watches_held_def cache_held_def watch_at_def)
    with v(1) show ?thesis
      by (simp add: registry_ok_def klasses_def all_hooks_def conflict_free_def pages_ok_def)
  qed
  show ?thesis unfolding eq using reg v l t(6) by (simp add: jvm_jvmti_def)
qed

lemma on_load_calm:
  assumes "calm l"
  shows "calm (on_class_file_load mem vm x l)" "g_entries (on_class_file_load mem vm x l) = g_entries l"
    "g_watches (on_class_file_load mem vm x l) = g_watches l"
proof -
  show "calm (on_class_file_load mem vm x l)" using on_load_inv [of l mem vm x] assms by (simp add: calm_def)
  have f: "same_frame l (class_watch_on_class_file_load mem vm a b l)" for a b using load_inv [of l] assms by (simp add: calm_def)
  have none: "capture_load mem vm k n b l = l" for k n b using assms by (simp add: capture_load_def calm_def)
  show "g_entries (on_class_file_load mem vm x l) = g_entries l" "g_watches (on_class_file_load mem vm x l) = g_watches l"
    using same_frameD(3,6) [OF f] by (simp_all add: on_class_file_load_def none split: option.split)
qed

lemma watch_method_inv:
  assumes "hook_inv s" "watch_heap (live s) a = None"
  shows "hook_inv (snd (JNI2Hook_WatchMethod mem vm (Some a) pattern s))"
proof (cases "pattern = None \<or> \<not> g_initialized s \<or> \<not> jvm_env vm s \<or> \<not> jvm_jvmti s")
  case False
  obtain result watch l where c: "class_watch_create mem (vm_now vm s) (Some a) pattern (live s) = ((result, watch), l)" by (metis surj_pair)
  have l: "calm l" "g_entries l = g_entries (live s)"
    using calm_create [OF hook_inv_calm [OF assms(1)] assms(2), of mem "vm_now vm s" pattern] create_entries [of mem "vm_now vm s" a pattern "live s"] c
    by simp_all
  have w: "watch = Some a \<and> watch_heap l a \<noteq> None" if "result = JNI2HOOK_OK"
  proof -
    have "watch_heap (snd (class_cache_set_watch_events vm' True t)) a \<noteq> None" if "watch_heap t a \<noteq> None" for vm' t
      using that by (simp add: set_watch_events_heap)
    from c that this show ?thesis
      by (fastforce simp: class_watch_create_def Let_def put_watch_def split: if_splits prod.splits bool.splits dest: arg_cong [of _ _ snd])
  qed
  have init: "g_initialized s" using False by simp
  have put: "hook_inv (t\<lparr>live := l'\<rparr>)" if "hook_inv t" "g_initialized t" "calm l'" "g_entries l' = g_entries (live t)" for t l'
    using hook_inv_live that by blast
  have destroyed: "calm (class_watch_destroy vm' True (Some a) l)" if "result = JNI2HOOK_OK" for vm'
    using destroy_inv [of l a _ vm'] l(1) w [OF that] by (auto simp: calm_def)
  show ?thesis
  proof (cases "result = JNI2HOOK_OK")
    case ok: True
    have r: "calm (snd (class_watch_resolve_loaded vm' (Some a) m off l))" "g_entries (snd (class_watch_resolve_loaded vm' (Some a) m off l)) = g_entries (live s)"
      for vm' m off using calm_resolve [OF l(1)] l(2) by simp_all
    have k: "hook_inv (keep_error st e s)" "g_initialized (keep_error st e s)" "live (keep_error st e s) = live s" for st e
      using assms(1) init by (simp_all add: keep_error_def split: option.split)
    let ?r = "bytecode_scan_find mem (scan_api (vm_now vm s)) pattern None"
    let ?m = "map_option fst (scan_found ?r)" and ?off = "case scan_found ?r of Some (_, offset) \<Rightarrow> offset | None \<Rightarrow> 0"
    have "snd (JNI2Hook_WatchMethod mem vm (Some a) pattern s) \<in>
      {s\<lparr>live := snd (class_watch_resolve_loaded (vm_now vm s) (Some a) ?m ?off l)\<rparr>, s\<lparr>live := l\<rparr>,
       (keep_error (scan_status ?r) (scan_error ?r) s)\<lparr>live := class_watch_destroy (vm_now vm s) True (Some a) l\<rparr>}"
      using False c ok w [OF ok] by (auto simp: JNI2Hook_WatchMethod_def Let_def case_prod_beta)
    moreover have "hook_inv (s\<lparr>live := snd (class_watch_resolve_loaded (vm_now vm s) (Some a) ?m ?off l)\<rparr>)"
      by (rule put [OF assms(1) init r])
    moreover have "hook_inv (s\<lparr>live := l\<rparr>)" by (rule put [OF assms(1) init l])
    moreover have "hook_inv ((keep_error (scan_status ?r) (scan_error ?r) s)\<lparr>live := class_watch_destroy (vm_now vm s) True (Some a) l\<rparr>)"
      by (rule put [OF k(1,2) destroyed [OF ok]]) (simp add: destroy_entries l(2) k(3))
    ultimately show ?thesis by auto
  next
    case fail: False
    with False c put [OF assms(1) init l] show ?thesis by (auto simp: JNI2Hook_WatchMethod_def)
  qed
qed (use assms(1) in \<open>auto simp: JNI2Hook_WatchMethod_def\<close>)

lemma watch_name_inv:
  assumes "hook_inv s" "watch_heap (live s) a = None"
  shows "hook_inv (snd (JNI2Hook_WatchMethodByName mem vm (Some a) c m sg st s))"
proof (cases "c = None \<or> m = None \<or> sg = None \<or> \<not> g_initialized s \<or> \<not> jvm_env vm s")
  case False
  let ?l = "snd (class_watch_create_named mem (vm_now vm s) (Some a) c m sg st (live s))"
  have "calm ?l" using create_named_inv [of "live s" a] hook_inv_calm [OF assms(1)] assms(2) by (simp add: calm_def)
  then have "hook_inv (s\<lparr>live := ?l\<rparr>)" using hook_inv_live [OF assms(1)] create_named_entries False by blast
  with False show ?thesis by (auto simp: JNI2Hook_WatchMethodByName_def)
qed (use assms(1) in \<open>auto simp: JNI2Hook_WatchMethodByName_def\<close>)

lemma destroy_watch_inv:
  assumes "hook_inv s" "watch_heap (live s) a = Some w" "attached vm"
  shows "hook_inv (JNI2Hook_DestroyMethodWatch vm (Some a) s)"
proof -
  have env: "jvm_env vm s" using assms(3) by (simp add: attached_def jvm_env_def vm_now_def)
  note calm = hook_inv_calm [OF assms(1)]
  have same: "class_watch_destroy vm' (g_initialized s) (Some a) (live s) = class_watch_destroy vm' True (Some a) (live s)" for vm'
  proof (cases "g_initialized s")
    case False
    with assms(1) have "g_watches (live s) = []" by (simp add: hook_inv_def)
    with calm assms(2) have "\<not> w_registered w" "watch_ok w" "w_registered w \<longleftrightarrow> w_state w \<noteq> WATCH_CANCELLED"
      by (fastforce simp: calm_def live_inv_def)+
    then have "watch_refs (watch_at (live s) a) = {#}" using assms(2) by (simp add: watch_at_heap watch_ok_def watch_refs_def)
    with False destroy_without_env show ?thesis by simp
  qed simp
  have "g_watches (class_watch_destroy vm' True (Some a) (live s)) = []" if "g_watches (live s) = []" for vm'
    using destroy_eq [OF assms(2), of vm'] that events_only_fields(2) by (auto split: if_splits)
  then have "g_initialized s \<or> g_watches (class_watch_destroy vm' True (Some a) (live s)) = []" for vm' using assms(1) by (auto simp: hook_inv_def)
  moreover have "calm (class_watch_destroy vm' True (Some a) (live s))" for vm' using destroy_inv [OF _ assms(2)] calm by (simp add: calm_def)
  ultimately show ?thesis
    using hook_inv_live [OF assms(1)] destroy_entries env by (simp add: JNI2Hook_DestroyMethodWatch_def same)
qed

lemma redefine_class_inv:
  assumes "hook_inv s"
  shows "hook_inv (snd (JNI2Hook_RedefineClass vm klass bytes s))"
proof -
  have "hook_inv (note_event (Redefine k b e) s)" for k b e
    using assms registry_ok_cong [of s "note_event (Redefine k b e) s"] by (auto simp: hook_inv_def note_event_def)
  with assms show ?thesis by (auto simp: JNI2Hook_RedefineClass_def Let_def jvmti_failed_def split: option.split)
qed

lemma hook_step_inv:
  assumes "hook_step s s'" "hook_inv s"
  shows "hook_inv s'"
  using assms
proof (induction rule: hook_step.induct)
  case (hook_install vm s mem m fn status out s')
  then show ?case using install_inv by (simp add: JNI2Hook_Install_def)
next
  case (hook_install_at vm s mem m offset fn status s')
  then show ?case using install_inv by (auto simp: JNI2Hook_InstallAt_def)
next
  case (hook_uninstall mem vm m s status s')
  then show ?case using uninstall_inv matches_blank by (simp add: JNI2Hook_Uninstall_def)
next
  case (hook_uninstall_at mem vm m offset fn s status s')
  then show ?case using uninstall_inv [of mem vm m "matches_insert m offset fn" s] matches_blank by (auto simp: JNI2Hook_UninstallAt_def split: if_splits)
next
  case (hook_shutdown vm mem s status s')
  show ?case
  proof (cases "g_initialized s")
    case True
    with hook_shutdown shutdown_effect [of s mem vm] show ?thesis by (auto simp: hook_inv_def)
  qed (use hook_shutdown in \<open>simp add: JNI2Hook_Shutdown_def\<close>)
next
  case (hook_load s mem vm l)
  then show ?case using hook_inv_live [OF hook_load] on_load_calm [OF hook_inv_calm [OF hook_load]] by (simp add: hook_inv_def)
next
  case (hook_prepare s mem vm klass)
  note calm = hook_inv_calm [OF hook_prepare]
  have f: "same_frame (live s) (on_class_prepare mem vm klass (live s))" "calm (on_class_prepare mem vm klass (live s))"
    using prepare_inv [of "live s" mem vm klass] calm same_frameD(4) by (auto simp: on_class_prepare_def calm_def)
  from hook_inv_live [OF hook_prepare f(2)] same_frameD(3,6) [OF f(1)] hook_prepare show ?case by (simp add: hook_inv_def)
qed (simp_all add: start_inv watch_method_inv watch_name_inv destroy_watch_inv redefine_class_inv)

lemma hook_reachable_inv: "hook_reachable s \<Longrightarrow> hook_inv s"
proof (induction rule: hook_reachable.induct)
  case hook_reach_init
  show ?case by (simp add: hook_inv_def registry_ok_def hook_init_def klasses_def all_hooks_def conflict_free_def pages_ok_def
        live_init_def live_inv_def watches_held_def cache_held_def)
qed (rule hook_step_inv)

section \<open>A run\<close>

text \<open>A VM that agrees to everything; its only class is C with the static method m.\<close>

definition hooking_vm :: hook_vm where
  "hooking_vm = \<lparr>
     vm_base = (\<lambda>_. quiet_vm\<lparr>GetClassSignature := (\<lambda>_. Inr (Some (cstr ''LC;''))),
       RetransformClasses := (\<lambda>k. (0, [\<lparr>load_redefined = Some k, load_loader = None, load_name = Some (cstr ''C''),
         load_data = Some returning_class\<rparr>]))\<rparr>),
     RedefineClasses = (\<lambda>_ _ _. 0), RegisterNatives_ok = (\<lambda>_ _ _ _ _. True),
     GetMethodName = (\<lambda>_. Inr (Some (cstr ''m''), Some (cstr ''()V''))), GetMethodModifiers = (\<lambda>_. Inr 9),
     GetCurrentThread = (\<lambda>_. Inr (Some 1)), GetAllThreads = (\<lambda>_. Inr [1, 2]), SuspendThreadList = (\<lambda>_ ts. map (\<lambda>_. 0) ts),
     mmap_page = Some 7, mprotect_ok = (\<lambda>_ _ _. True), set_bool_flag = (\<lambda>_ _. Some False), create_jvmti_ok = True,
     AddCapabilities_error = 0, granted_redefine = True, granted_retransform = True, granted_suspend = True\<rparr>"

definition started :: hook_state where
  "started = snd (JNI2Hook_Init hooking_vm True hook_init)"

lemma started_reachable: "hook_reachable started"
  unfolding started_def by (rule hook_reach_step [OF hook_reach_init hook_start])

lemma started_fresh: "fresh_page vm started"
proof -
  have "trampolines started = (\<lambda>_. None)"
    by (simp add: started_def JNI2Hook_Init_def jvm_bind_def hook_init_def hooking_vm_def force_flag_def note_event_def Let_def
        split: bool.split prod.split)
  then show ?thesis by (simp add: fresh_page_def split: option.split)
qed

definition native_entry :: hook_entry where
  "native_entry = \<lparr>he_method = 3, he_name = cstr ''m'', he_signature = cstr ''()V'', he_added_name = cstr ''m$jni2hook'',
     he_function = 0x1000, he_trampoline = Some 7, he_static = True, he_original = None, he_offset = 0, he_kind = HOOK_MAKE_NATIVE\<rparr>"

lemma returning_class_ok:
  obtains cf cf' where "classfile_parse heap_ok returning_class = Inr cf" "class_ok cf"
    "make_natives heap_ok [native_entry] cf = (TRANSFORM_OK, cf')"
proof -
  have "case classfile_parse heap_ok returning_class of Inl _ \<Rightarrow> False | Inr cf \<Rightarrow>
      list_all (member_ok (cf_pool cf)) (items (cf_methods cf)) \<and> vec_inv (cf_methods cf) \<and>
      (case make_natives heap_ok [native_entry] cf of (status, cf) \<Rightarrow> status = TRANSFORM_OK)" by code_simp
  then obtain cf cf' where cf: "classfile_parse heap_ok returning_class = Inr cf" "vec_inv (cf_methods cf)"
    "list_all (member_ok (cf_pool cf)) (items (cf_methods cf))" "make_natives heap_ok [native_entry] cf = (TRANSFORM_OK, cf')"
    by (auto split: sum.splits prod.splits)
  then have "class_ok cf"
    using classfile_parse_sound(2) [OF cf(1)] by (simp add: class_ok_def wf_classfile_def wf_pool_def)
  with cf that show thesis by blast
qed

lemma native_entry_rebuilds: "\<exists>bytes. rebuild heap_ok returning_class [native_entry] = Some (Inr bytes)"
proof (rule returning_class_ok)
  fix cf cf'
  assume cf: "classfile_parse heap_ok returning_class = Inr cf" "class_ok cf" "make_natives heap_ok [native_entry] cf = (TRANSFORM_OK, cf')"
  from cf(3) obtain cause where "class_transform_make_native heap_ok cf (cstr ''m'') (cstr ''()V'') (cstr ''m$jni2hook'') = (TRANSFORM_OK, cause, cf')"
    by (auto simp: native_entry_def Let_def split: prod.splits if_splits)
  from this cf(2) have "pool_inv (cf_pool cf')" by (rule make_native_found)
  with cf classfile_serialize_enc(2) [OF this alloc_total_heap_ok] show ?thesis
    by (simp add: rebuild_def native_entry_def sort_inserts_def)
qed

definition native_request :: hook_request where
  "native_request = \<lparr>rq_class = 9, rq_class_name = cstr ''C'', rq_name = cstr ''m'', rq_signature = cstr ''()V'',
     rq_added_name = cstr ''m$jni2hook'', rq_static = True\<rparr>"

definition native_room :: hook_state where
  "native_room = snd (reserve_entry heap_ok 0 (snd (reserve_class heap_ok hooking_vm native_request
     (snd (describe_method heap_ok hooking_vm 3 HOOK_MAKE_NATIVE started)))))"

lemma native_stages:
  "fst (describe_method heap_ok hooking_vm 3 HOOK_MAKE_NATIVE started) = Inr native_request"
  "fst (reserve_class heap_ok hooking_vm native_request (snd (describe_method heap_ok hooking_vm 3 HOOK_MAKE_NATIVE started))) = Some 0"
  "fst (reserve_entry heap_ok 0 (snd (reserve_class heap_ok hooking_vm native_request
     (snd (describe_method heap_ok hooking_vm 3 HOOK_MAKE_NATIVE started)))))"
  "g_initialized started" "jvm_jvmti started" "jvm_env hooking_vm started" "\<not> method_conflicts 3 HOOK_MAKE_NATIVE started"
  "jvm_jvmti native_room" "g_can_suspend native_room" "class_cache_get True (Some 9) (live native_room) = Some returning_class"
  "map hc_klass (g_classes native_room) = [9]" "map hc_hooks (g_classes native_room) = [[]]"
  by code_simp+

lemma hooking_attached: "attached hooking_vm" "jvm_env hooking_vm s" "env_available (vm_now hooking_vm s)"
  by (simp_all add: attached_def jvm_env_def vm_now_def hooking_vm_def quiet_vm_def)

lemma native_entered:
  obtains pages where "new_entry hooking_vm 3 0 0x1000 HOOK_MAKE_NATIVE native_request s = (native_entry, s\<lparr>trampolines := pages\<rparr>)"
  by (simp add: new_entry_def trampoline_create_def protect_page_def hooking_vm_def native_request_def native_entry_def Let_def)

lemma native_redefines:
  "\<exists>t. redefine heap_ok hooking_vm 9 bytes [native_entry] s = (JNI2HOOK_OK, [native_entry\<lparr>he_original := Some 41\<rparr>], t)"
  by (simp add: redefine_def Let_def hooking_vm_def quiet_vm_def vm_now_def native_entry_def split: prod.split)

text \<open>The state after the hook was installed.\<close>

definition native_hooked :: "hook_state \<Rightarrow> bool" where
  "native_hooked s \<longleftrightarrow> JNI2Hook_Install heap_ok hooking_vm 3 0x1000 started = Some (JNI2HOOK_OK, Some 41, s) \<and>
     g_initialized s \<and> jvm_jvmti s \<and> cached (live s) 9 = Some returning_class \<and>
     (\<exists>c. g_classes s = [c] \<and> hc_klass c = 9 \<and> hc_hooks c = [native_entry\<lparr>he_original := Some 41\<rparr>])"

lemma native_installs: "\<exists>s. native_hooked s"
proof -
  obtain bytes where b: "rebuild heap_ok returning_class [native_entry] = Some (Inr bytes)" using native_entry_rebuilds by blast
  obtain t u where t: "describe_method heap_ok hooking_vm 3 HOOK_MAKE_NATIVE started = (Inr native_request, t)"
    "reserve_class heap_ok hooking_vm native_request t = (Some 0, u)" "reserve_entry heap_ok 0 u = (True, native_room)"
    using native_stages(1-3) unfolding native_room_def by (metis prod.collapse)
  obtain c where c: "g_classes native_room = [c]" "hc_klass c = 9" "hc_hooks c = []" using native_stages(11,12) by auto
  obtain pages where e: "new_entry hooking_vm 3 0 0x1000 HOOK_MAKE_NATIVE native_request native_room =
      (native_entry, native_room\<lparr>trampolines := pages\<rparr>)" by (rule native_entered)
  let ?x = "put_hooks 0 [native_entry] (native_room\<lparr>trampolines := pages\<rparr>)"
  have x: "jvm_jvmti ?x" "class_cache_get True (Some 9) (live ?x) = Some returning_class"
    using native_stages(8,10) by (simp_all add: jvm_jvmti_def)
  obtain v where v: "redefine heap_ok hooking_vm 9 bytes [native_entry] ?x = (JNI2HOOK_OK, [native_entry\<lparr>he_original := Some 41\<rparr>], v)"
    using native_redefines by blast
  have r: "reapply heap_ok hooking_vm 9 [native_entry] ?x = Some (JNI2HOOK_OK, [native_entry\<lparr>he_original := Some 41\<rparr>], v)"
    using x b v by (simp add: reapply_def hooking_attached)
  let ?s = "put_hooks 0 [native_entry\<lparr>he_original := Some 41\<rparr>] v"
  from r t c e native_stages(4-7) have i: "JNI2Hook_Install heap_ok hooking_vm 3 0x1000 started = Some (JNI2HOOK_OK, Some 41, ?s)"
    by (simp add: JNI2Hook_Install_def install_def hooking_attached)
  note f = only_logged_fields [OF reapply_effect(1) [OF r]]
  have "g_initialized ?s"
    using install_effect [OF i [unfolded JNI2Hook_Install_def]] hook_reachable_inv [OF started_reachable] started_fresh native_stages(4)
    by (simp add: hook_inv_def)
  moreover have "jvm_jvmti ?s" "cached (live ?s) 9 = Some returning_class" using x f(1) by (simp_all add: jvm_jvmti_def flip: get_cached)
  moreover have "g_classes ?s = [c\<lparr>hc_hooks := [native_entry\<lparr>he_original := Some 41\<rparr>]\<rparr>]" using f(4) c by (simp add: put_hooks_def)
  ultimately have "native_hooked ?s" using i c(2) by (simp add: native_hooked_def)
  then show ?thesis ..
qed

lemma native_hooked_reachable: "native_hooked s \<Longrightarrow> hook_reachable s"
  unfolding native_hooked_def by (elim conjE) (rule hook_reach_step [OF started_reachable hook_install [OF started_fresh]])

section \<open>Properties\<close>

text \<open>
  C6: in every state the public calls and the callbacks can reach, each hooked class is registered once, under a reference
  that is still held, with its original bytes in the cache; the arrays have room for what they hold; a method that was made native has
  no other hook; no thread is left suspended; and a call of the trampoline of any hook jumps to the function of that hook with the arguments
  untouched.\<close>

theorem registry_invariant:
  assumes "hook_reachable s"
  shows "distinct (klasses s) \<and> mset (klasses s) \<subseteq># class_refs s \<and> (\<forall>k\<in>set (klasses s). cached (live s) k \<noteq> None) \<and>
    length (g_classes s) \<le> g_class_cap s \<and> (\<forall>c\<in>set (g_classes s). length (hc_hooks c) \<le> hc_capacity c) \<and>
    (\<not> g_initialized s \<longrightarrow> g_classes s = []) \<and> still_suspended (vm_log s) = {#} \<and>
    (\<forall>e\<in>#all_hooks s. he_kind e = HOOK_MAKE_NATIVE \<longrightarrow> (\<forall>e'\<in>#all_hooks s - {#e#}. he_method e' \<noteq> he_method e)) \<and>
    (\<forall>e\<in>#all_hooks s. \<forall>p cpu. he_trampoline e = Some p \<longrightarrow>
       call_page 5 (trampolines s) p cpu = Jumped (he_function e) (cpu\<lparr>pc := 14, zero_flag := False\<rparr>))"
proof -
  have ok: "registry_ok s" "still_suspended (vm_log s) = {#}" using hook_reachable_inv [OF assms] by (simp_all add: hook_inv_def)
  have pages: "pages_ok (trampolines s) (all_hooks s)" using ok(1) by (simp add: registry_ok_def)
  have "call_page 5 (trampolines s) p cpu = Jumped (he_function e) (cpu\<lparr>pc := 14, zero_flag := False\<rparr>)"
    if e: "e \<in># all_hooks s" "he_trampoline e = Some p" for e p cpu
  proof -
    obtain page where "trampolines s p = Some \<lparr>page_bytes = page, page_exec = True\<rparr>" "forwards page (return_letter (he_signature e)) 1 (he_function e)"
      using pages [unfolded pages_ok_def, THEN bspec, OF e(1)] e(2) by blast
    with run_armed [of page "return_letter (he_signature e)" 1 "he_function e" 5 cpu] show ?thesis by (simp add: call_page_def)
  qed
  with ok show ?thesis unfolding registry_ok_def conflict_free_def by blast
qed

theorem registry_invariant_witness:
  "\<exists>s e. hook_reachable s \<and> e \<in># all_hooks s \<and> (\<forall>cpu. call_page 5 (trampolines s) 7 cpu = Jumped 0x1000 (cpu\<lparr>pc := 14, zero_flag := False\<rparr>))"
proof -
  obtain s where s: "native_hooked s" using native_installs by blast
  then have e: "native_entry \<in># all_hooks s" by (auto simp: native_hooked_def all_hooks_def) (simp add: native_entry_def blank_def)
  moreover have "he_trampoline native_entry = Some 7" "he_function native_entry = 0x1000" by (simp_all add: native_entry_def)
  moreover note registry_invariant [OF native_hooked_reachable [OF s]]
  ultimately show ?thesis using native_hooked_reachable [OF s] by metis
qed

lemma reachable_ok: "hook_reachable s \<Longrightarrow> registry_ok s"
  using hook_reachable_inv by (simp add: hook_inv_def)

text \<open>
  C7: installing is an insertion into the map from classes to hooks. When it succeeds, the declaring class has one more hook, last, for the
  method, the name, the signature, the offset and the function that were asked for; the VM's definition of that
  class is what all its hooks together make of the original bytes, and the functions of all of them have been bound since; a hook that
  replaces a method delivers the identifier of the copy; no other class is redefined. When it fails, no class
  has a hook more or less, and nothing is delivered.\<close>

theorem install_refines_map:
  assumes "hook_reachable s" "fresh_page vm s" "install mem vm m offset fn kind s = Some (status, out, s')"
  shows "if status = JNI2HOOK_OK
    then (kind = HOOK_MAKE_NATIVE \<longleftrightarrow> out \<noteq> None) \<and>
      (\<exists>rq e. names_method mem vm m s rq \<and> hooks_of s' = (hooks_of s)(rq_class rq := hooks_of s (rq_class rq) @ [e]) \<and>
         he_method e = m \<and> he_name e = rq_name rq \<and> he_signature e = rq_signature rq \<and> he_offset e = offset \<and> he_function e = fn \<and>
         he_kind e = kind \<and> applied mem s' (rq_class rq) \<and>
         (\<forall>k. k \<noteq> rq_class rq \<longrightarrow> current_definition (vm_log s') k = current_definition (vm_log s) k))
    else hooks_of s' = hooks_of s \<and> out = None"
proof -
  note i = install_effect [OF assms(3) reachable_ok [OF assms(1)] assms(2)]
  show ?thesis
  proof (cases "status = JNI2HOOK_OK")
    case True
    with i obtain rq e where "installed mem vm m offset fn kind s rq e s'" "kind = HOOK_MAKE_NATIVE \<longleftrightarrow> out \<noteq> None" by blast
    then show ?thesis unfolding if_P [OF True] installed_def by blast
  qed (use i in simp)
qed

theorem install_refines_map_witness:
  "\<exists>s' (rq :: hook_request) e. install heap_ok hooking_vm 3 0 0x1000 HOOK_MAKE_NATIVE started = Some (JNI2HOOK_OK, Some 41, s') \<and>
     hooks_of s' = (hooks_of started)(rq_class rq := hooks_of started (rq_class rq) @ [e]) \<and> applied heap_ok s' (rq_class rq)"
proof -
  obtain s where "native_hooked s" using native_installs by blast
  then have "install heap_ok hooking_vm 3 0 0x1000 HOOK_MAKE_NATIVE started = Some (JNI2HOOK_OK, Some 41, s)"
    by (simp add: native_hooked_def JNI2Hook_Install_def)
  moreover from install_refines_map [OF started_reachable started_fresh this] obtain rq :: hook_request and e
    where "hooks_of s = (hooks_of started)(rq_class rq := hooks_of started (rq_class rq) @ [e])" "applied heap_ok s (rq_class rq)"
    unfolding if_P [OF refl] by blast
  ultimately show ?thesis by blast
qed

text \<open>
  C8: uninstalling is a removal. When it succeeds, one class that had a hook of the method has lost the hooks asked for and
  kept the others in their order, is defined by what these make of its original bytes (by the original bytes when none is left), and no other class is
  redefined. When it fails, every class has the hooks it had, perhaps in another order.\<close>

theorem uninstall_refines_map:
  assumes "hook_reachable s" "JNI2Hook_Uninstall mem vm m s = Some (status, s')"
  shows "if status = JNI2HOOK_OK
    then \<exists>k. list_ex (\<lambda>e. he_method e = m) (hooks_of s k) \<and> hooks_of s' = (hooks_of s)(k := filter (\<lambda>e. he_method e \<noteq> m) (hooks_of s k)) \<and>
      applied mem s' k \<and> (hooks_of s' k = [] \<longrightarrow> current_definition (vm_log s') k = cached (live s') k) \<and>
      (\<forall>k'. k' \<noteq> k \<longrightarrow> current_definition (vm_log s') k' = current_definition (vm_log s) k')
    else \<forall>k. mset (hooks_of s' k) = mset (hooks_of s k)"
proof -
  note u = uninstall_effect [OF assms(2) [unfolded JNI2Hook_Uninstall_def] reachable_ok [OF assms(1)] matches_blank(1)]
  have "current_definition (vm_log s') k = cached (live s') k" if "applied mem s' k" "hooks_of s' k = []" for k
    using that by (auto simp: applied_def rebuild_def split: option.splits)
  with u show ?thesis unfolding uninstalled_def matches_method_def same_entries_def by auto
qed

lemma native_uninstalls:
  assumes "native_hooked s"
  shows "\<exists>t. JNI2Hook_Uninstall heap_ok hooking_vm 3 s = Some (JNI2HOOK_OK, t)"
proof -
  let ?e = "native_entry\<lparr>he_original := Some 41\<rparr>"
  obtain c where c: "g_classes s = [c]" "hc_klass c = 9" "hc_hooks c = [?e]" using assms by (auto simp: native_hooked_def)
  have m: "he_method ?e = 3" by (simp add: native_entry_def)
  then have p: "partition_loop (matches_method 3) 0 0 [?e] = (0, [?e])" by (simp add: partition_loop.simps matches_method_def)
  have i: "find_class_of_method 3 s = Some 0" by (simp add: find_class_of_method_def c m)
  have "\<exists>t. redefine heap_ok hooking_vm 9 b [] u = (JNI2HOOK_OK, [], t)" for b u by (simp add: redefine_def Let_def hooking_vm_def)
  then obtain t where t: "reapply heap_ok hooking_vm 9 [] (put_hooks 0 [] (put_hooks 0 [?e] s)) = Some (JNI2HOOK_OK, [], t)"
    using assms by (auto simp: native_hooked_def reapply_def hooking_attached get_cached rebuild_def)
  with p i c assms show ?thesis by (simp add: native_hooked_def JNI2Hook_Uninstall_def uninstall_matching_def)
qed

theorem uninstall_refines_map_witness:
  "\<exists>s t k. hook_reachable s \<and> JNI2Hook_Uninstall heap_ok hooking_vm 3 s = Some (JNI2HOOK_OK, t) \<and> hooks_of s k \<noteq> [] \<and>
     hooks_of t = (hooks_of s)(k := filter (\<lambda>e. he_method e \<noteq> 3) (hooks_of s k)) \<and> applied heap_ok t k"
proof -
  obtain s where s: "native_hooked s" using native_installs by blast
  note r = native_hooked_reachable [OF s]
  obtain t where t: "JNI2Hook_Uninstall heap_ok hooking_vm 3 s = Some (JNI2HOOK_OK, t)" using native_uninstalls [OF s] by blast
  from uninstall_refines_map [OF r t] obtain k where "list_ex (\<lambda>e. he_method e = 3) (hooks_of s k)"
    "hooks_of t = (hooks_of s)(k := filter (\<lambda>e. he_method e \<noteq> 3) (hooks_of s k))" "applied heap_ok t k" by auto
  moreover from this(1) have "hooks_of s k \<noteq> []" by auto
  ultimately show ?thesis using r t by blast
qed

text \<open>
  C10: shutting down always returns, whatever the VM answers: no hook, no cached class and no waiting watch is left, and the VM is no longer used. When it reports
  success, every class that had hooks is back at its original bytes.\<close>

theorem shutdown_restores:
  assumes "hook_reachable s" "g_initialized s"
  shows "\<exists>status s'. JNI2Hook_Shutdown mem vm s = Some (status, s') \<and> g_classes s' = [] \<and> \<not> g_initialized s' \<and> \<not> jvm_jvmti s' \<and>
    g_entries (live s') = [] \<and> g_watches (live s') = [] \<and>
    (status = JNI2HOOK_OK \<longrightarrow> (\<forall>k\<in>set (klasses s). current_definition (vm_log s') k = cached (live s) k))"
  using shutdown_effect [OF reachable_ok [OF assms(1)] assms(2), of mem vm] by auto

theorem shutdown_restores_witness:
  "\<exists>s status s'. klasses s = [9] \<and> JNI2Hook_Shutdown heap_ok hooking_vm s = Some (status, s') \<and> g_classes s' = []"
proof -
  obtain s where s: "native_hooked s" using native_installs by blast
  then have "klasses s = [9]" "g_initialized s" by (auto simp: native_hooked_def klasses_def)
  with shutdown_restores [OF native_hooked_reachable [OF s], of heap_ok hooking_vm] show ?thesis by blast
qed

text \<open>Which classes a method has hooks on.\<close>

lemma in_all_hooks: "e \<in> set (hooks_of s k) \<Longrightarrow> e \<in># all_hooks s"
  by (auto simp: hooks_of_def all_hooks_def split: if_splits)

lemma method_absent:
  assumes "\<not> method_conflicts m HOOK_MAKE_NATIVE s"
  shows "filter (\<lambda>e. he_method e \<noteq> m) (hooks_of s k) = hooks_of s k" "\<not> list_ex (\<lambda>e. he_method e = m) (hooks_of s k)"
  using no_conflict [OF assms] in_all_hooks by (fastforce simp: list_ex_iff intro!: filter_True)+

lemma matches_method_eq: "matches_method m = (\<lambda>e. he_method e = m)"
  by (simp add: fun_eq_iff matches_method_def)

lemma install_no_conflict:
  "install mem vm m offset fn kind s = Some (JNI2HOOK_OK, out, s') \<Longrightarrow> \<not> method_conflicts m kind s"
  by (auto simp: install_def split: if_splits)

text \<open>
  uninstalling takes back what installing did. After both calls succeeded every class has the hooks it had before, and a class that
  had none is defined by its original bytes again.\<close>

theorem install_uninstall_roundtrip:
  assumes "hook_reachable s" "fresh_page vm s" "JNI2Hook_Install mem vm m fn s = Some (JNI2HOOK_OK, out, t)"
    "JNI2Hook_Uninstall mem' vm' m t = Some (JNI2HOOK_OK, u)"
  shows "hooks_of u = hooks_of s \<and>
    (\<exists>k. GetMethodDeclaringClass (vm_now vm s) m = Inr (Some k) \<and> applied mem' u k \<and>
       (hooks_of s k = [] \<longrightarrow> current_definition (vm_log u) k = cached (live u) k))"
proof -
  note i = assms(3) [unfolded JNI2Hook_Install_def]
  have ok: "registry_ok s" "registry_ok t" using reachable_ok [OF assms(1)] install_effect [OF i _ assms(2)] by auto
  obtain rq e where e: "installed mem vm m 0 fn HOOK_MAKE_NATIVE s rq e t" using install_effect [OF i ok(1) assms(2)] by blast
  obtain k where k: "uninstalled mem' k (matches_method m) t u"
    using uninstall_effect [OF assms(4) [unfolded JNI2Hook_Uninstall_def] ok(2) matches_blank(1)] by blast
  note absent = method_absent [OF install_no_conflict [OF i]]
  have h: "hooks_of t = (hooks_of s)(rq_class rq := hooks_of s (rq_class rq) @ [e])" "he_method e = m" using e by (simp_all add: installed_def)
  have kr: "k = rq_class rq"
  proof (rule ccontr)
    assume "k \<noteq> rq_class rq"
    with k h(1) absent(2) [of k] show False by (simp add: uninstalled_def matches_method_eq)
  qed
  have "hooks_of u = hooks_of s"
    using k kr h absent(1) [of k] by (simp add: uninstalled_def matches_method_eq fun_upd_idem)
  moreover have "applied mem' u k" using k by (simp add: uninstalled_def)
  moreover have "current_definition (vm_log u) k = cached (live u) k" if "hooks_of s k = []"
    using that calculation by (auto simp: applied_def rebuild_def split: option.splits)
  moreover have "GetMethodDeclaringClass (vm_now vm s) m = Inr (Some k)"
    using e kr by (simp add: installed_def Registry_Correct.names_method_def)
  ultimately show ?thesis by blast
qed

theorem install_uninstall_roundtrip_witness:
  "\<exists>t u. JNI2Hook_Install heap_ok hooking_vm 3 0x1000 started = Some (JNI2HOOK_OK, Some 41, t) \<and>
     JNI2Hook_Uninstall heap_ok hooking_vm 3 t = Some (JNI2HOOK_OK, u) \<and> hooks_of u = hooks_of started"
proof -
  obtain t where t: "native_hooked t" using native_installs by blast
  then have i: "JNI2Hook_Install heap_ok hooking_vm 3 0x1000 started = Some (JNI2HOOK_OK, Some 41, t)" by (simp add: native_hooked_def)
  obtain u where u: "JNI2Hook_Uninstall heap_ok hooking_vm 3 t = Some (JNI2HOOK_OK, u)" using native_uninstalls [OF t] by blast
  from install_uninstall_roundtrip [OF started_reachable started_fresh i u] i u show ?thesis by blast
qed

lemma reapply_unbound:
  assumes "reapply mem vm k hooks s = Some (JNI2HOOK_ERR_JNI, hooks', s')"
  shows "\<exists>original bytes. cached (live s) k = Some original \<and> rebuild mem original hooks = Some (Inr bytes) \<and>
    current_definition (vm_log s') k = Some bytes"
proof -
  have failed: "rebuild mem original hooks \<noteq> Some (Inl JNI2HOOK_ERR_JNI)" for original
    by (auto simp: rebuild_def Let_def transform_result_def split: sum.splits prod.splits option.splits if_splits)
  obtain original bytes where b: "cached (live s) k = Some original" "rebuild mem original hooks = Some (Inr bytes)"
    "redefine mem vm k bytes hooks s = (JNI2HOOK_ERR_JNI, hooks', s')"
    using assms failed by (auto simp: reapply_def get_cached split: if_splits option.splits sum.splits)
  obtain suspended t where t: "(if hooks \<noteq> [] then suspend_others mem vm s else ([], s)) = (suspended, t)" by (metis surj_pair)
  define error where "error = RedefineClasses vm (vm_log t) k bytes"
  define u where "u = note_event (Redefine k bytes error) t"
  obtain v where v: "(if error \<noteq> JVMTI_ERROR_NONE then (let (result, s) = jvmti_failed error u in (result, hooks, s))
      else bind_hooks vm k hooks JNI2HOOK_OK u) = (JNI2HOOK_ERR_JNI, hooks', v)" "s' = resume_others suspended v"
    using b(3) unfolding redefine_def t Let_def prod.case error_def [symmetric] u_def [symmetric] by (auto split: prod.splits)
  have none: "error = JVMTI_ERROR_NONE"
  proof (rule ccontr)
    assume "error \<noteq> JVMTI_ERROR_NONE"
    with v(1) show False by (simp add: jvmti_failed_def)
  qed
  then have bound: "bind_hooks vm k hooks JNI2HOOK_OK u = (JNI2HOOK_ERR_JNI, hooks', v)" using v(1) by simp
  have "current_definition (vm_log s') = current_definition (vm_log v)" by (auto simp: v(2) resume_others_def note_event_def)
  with bind_hooks_effect [OF bound] none b(1,2) show ?thesis by (simp add: u_def note_event_def)
qed

text \<open>
  C39: a first hook that cannot be bound is not undone. When the class was redefined but the function could not be bound, the call reports a
  failure and the registry forgets the class, while the VM keeps the definition made for the hook: nothing restores the original bytes
  although they are in the cache, and the method has no implementation.\<close>

theorem failed_first_hook_stays:
  assumes "hook_reachable s" "fresh_page vm s" "install mem vm m offset fn kind s = Some (JNI2HOOK_ERR_JNI, out, s')"
    "GetMethodDeclaringClass (vm_now vm s) m = Inr (Some k)" "hooks_of s k = []"
  shows "hooks_of s' k = [] \<and> (\<exists>original e bytes. cached (live s') k = Some original \<and> he_method e = m \<and> he_kind e = kind \<and>
    rebuild mem original [e] = Some (Inr bytes) \<and> current_definition (vm_log s') k = Some bytes)"
proof -
  note ok = reachable_ok [OF assms(1)]
  have none: "hooks_of s' k = []" using install_effect [OF assms(3) ok assms(2)] assms(5) by simp
  from assms(3) show ?thesis
  proof (cases rule: install_stages)
    case (undescribed t)
    with describe_registry(3) [OF undescribed(1) ok] show ?thesis by simp
  next
    case (entered rq t i u v e w)
    note v = reserve_entry_registry [OF entered(1,2,3) ok entered(5,6)]
    have kr: "rq_class rq = k" using describe_registry(4) [OF entered(1) ok refl] assms(4) by (simp add: Registry_Correct.names_method_def)
    have fresh: "fresh_page vm v" using assms(2) v(2) by (simp add: fresh_page_def same_views_def split: option.splits)
    note e = new_entry_effect [OF entered(4) fresh]
    obtain pages where w: "w = v\<lparr>trampolines := pages\<rparr>" using e(1) by blast
    have "distinct (klasses v)" using v(1) by (simp add: registry_ok_def)
    then have "map blank (hc_hooks (g_classes v ! i)) = []" using hooks_of_put(2) [OF v(3)] v(2,4) kr assms(5) by (simp add: same_views_def)
    then have h: "hc_hooks (g_classes w ! i) = []" "hc_klass (g_classes w ! i) = k" "i < length (g_classes w)"
      using v(3,4) kr by (simp_all add: w)
    let ?x = "put_hooks i [e] w"
    from entered(8) h obtain result hooks y where r: "reapply mem vm k [e] ?x = Some (result, hooks, y)"
      "(if result \<noteq> JNI2HOOK_OK then rollback mem vm i result (put_hooks i hooks y)
        else Some (JNI2HOOK_OK, if kind = HOOK_MAKE_NATIVE then he_original (last hooks) else None, put_hooks i hooks y)) = Some (JNI2HOOK_ERR_JNI, out, s')"
      by (auto simp: Let_def split: option.splits)
    note eff = reapply_effect(1,2) [OF r(1)]
    have len: "length hooks = 1" using arg_cong [OF eff(2), of length] by simp
    have iy: "i < length (g_classes y)" using h(3) only_logged_fields(4) [OF eff(1)] by simp
    have "result \<noteq> JNI2HOOK_OK" using r(2) by auto
    with r(2) len iy have s': "result = JNI2HOOK_ERR_JNI" "vm_log s' = vm_log y" "live s' = live y"
      by (auto simp: rollback_def Let_def butlast_conv_take split: if_splits)
    from reapply_unbound [OF r(1) [unfolded s'(1)]] s' e(4,5) none show ?thesis
      using only_logged_fields(1) [OF eff(1)] by auto
  qed auto
qed

text \<open>The same VM, except that nothing can be bound.\<close>

definition unbinding_vm :: hook_vm where
  "unbinding_vm = hooking_vm\<lparr>RegisterNatives_ok := (\<lambda>_ _ _ _ _. False)\<rparr>"

lemma unbinding_same:
  "vm_now unbinding_vm = vm_now hooking_vm" "jvm_env unbinding_vm = jvm_env hooking_vm"
  "describe_method mem unbinding_vm m kind s = describe_method mem hooking_vm m kind s"
  "reserve_class mem unbinding_vm rq s = reserve_class mem hooking_vm rq s"
  "new_entry unbinding_vm m offset fn kind rq s = new_entry hooking_vm m offset fn kind rq s"
proof -
  show vm: "vm_now unbinding_vm = vm_now hooking_vm" by (simp add: fun_eq_iff vm_now_def unbinding_vm_def)
  then show env: "jvm_env unbinding_vm = jvm_env hooking_vm" by (simp add: fun_eq_iff jvm_env_def)
  have f: "GetMethodName unbinding_vm = GetMethodName hooking_vm" "GetMethodModifiers unbinding_vm = GetMethodModifiers hooking_vm"
    "mmap_page unbinding_vm = mmap_page hooking_vm" "mprotect_ok unbinding_vm = mprotect_ok hooking_vm" by (simp_all add: unbinding_vm_def)
  show "describe_method mem unbinding_vm m kind s = describe_method mem hooking_vm m kind s" by (simp only: describe_method_def vm f)
  show "reserve_class mem unbinding_vm rq s = reserve_class mem hooking_vm rq s" by (simp only: reserve_class_def find_class_def vm env)
  show "new_entry unbinding_vm m offset fn kind rq s = new_entry hooking_vm m offset fn kind rq s" by (simp only: new_entry_def f)
qed

lemma native_unbound:
  "\<exists>t. redefine heap_ok unbinding_vm 9 bytes [native_entry] s = (JNI2HOOK_ERR_JNI, [native_entry], t)"
  by (simp add: redefine_def Let_def unbinding_vm_def hooking_vm_def first_failure_def split: prod.split)

theorem failed_first_hook_stays_witness:
  "\<exists>s' bytes. install heap_ok unbinding_vm 3 0 0x1000 HOOK_MAKE_NATIVE started = Some (JNI2HOOK_ERR_JNI, None, s') \<and>
     hooks_of s' 9 = [] \<and> current_definition (vm_log s') 9 = Some bytes"
proof -
  obtain bytes where b: "rebuild heap_ok returning_class [native_entry] = Some (Inr bytes)" using native_entry_rebuilds by blast
  obtain t u where t: "describe_method heap_ok hooking_vm 3 HOOK_MAKE_NATIVE started = (Inr native_request, t)"
    "reserve_class heap_ok hooking_vm native_request t = (Some 0, u)" "reserve_entry heap_ok 0 u = (True, native_room)"
    using native_stages(1-3) unfolding native_room_def by (metis prod.collapse)
  obtain c where c: "g_classes native_room = [c]" "hc_klass c = 9" "hc_hooks c = []" using native_stages(11,12) by auto
  obtain pages where e: "new_entry hooking_vm 3 0 0x1000 HOOK_MAKE_NATIVE native_request native_room =
      (native_entry, native_room\<lparr>trampolines := pages\<rparr>)" by (rule native_entered)
  let ?x = "put_hooks 0 [native_entry] (native_room\<lparr>trampolines := pages\<rparr>)"
  have x: "jvm_jvmti ?x" "class_cache_get True (Some 9) (live ?x) = Some returning_class"
    using native_stages(8,10) by (simp_all add: jvm_jvmti_def)
  obtain v where v: "redefine heap_ok unbinding_vm 9 bytes [native_entry] ?x = (JNI2HOOK_ERR_JNI, [native_entry], v)"
    using native_unbound by blast
  have r: "reapply heap_ok unbinding_vm 9 [native_entry] ?x = Some (JNI2HOOK_ERR_JNI, [native_entry], v)"
    using x b v by (simp add: reapply_def unbinding_same hooking_attached)
  have "0 < length (g_classes v)" using only_logged_fields(4) [OF reapply_effect(1) [OF r]] c by (simp add: put_hooks_def)
  with r t c e native_stages(4-7) obtain s' where i: "install heap_ok unbinding_vm 3 0 0x1000 HOOK_MAKE_NATIVE started = Some (JNI2HOOK_ERR_JNI, None, s')"
    by (simp add: install_def unbinding_same hooking_attached rollback_def Let_def)
  have k: "GetMethodDeclaringClass (vm_now unbinding_vm started) 3 = Inr (Some 9)" by (simp add: unbinding_same vm_now_def hooking_vm_def quiet_vm_def)
  have "g_classes started = []" by code_simp
  then have "hooks_of started 9 = []" by (simp add: hooks_of_def)
  from failed_first_hook_stays [OF started_reachable started_fresh i k this] i show ?thesis by blast
qed

lemma rebuild_native:
  assumes "rebuild mem original [e] = Some (Inr bytes)" "he_kind e = HOOK_MAKE_NATIVE" "classfile_parse mem original = Inr cf" "class_ok cf"
  obtains cause cf' where "class_transform_make_native mem cf (he_name e) (he_signature e) (he_added_name e) = (TRANSFORM_OK, cause, cf')"
    "bytes = enc_classfile cf'"
proof -
  obtain status cause cf' where n: "class_transform_make_native mem cf (he_name e) (he_signature e) (he_added_name e) = (status, cause, cf')"
    by (metis surj_pair)
  with assms have ok: "status = TRANSFORM_OK" "classfile_serialize mem cf' = Inr bytes"
    by (auto simp: rebuild_def sort_inserts_def Let_def split: if_splits sum.splits)
  from n [unfolded ok(1)] assms(4) have "pool_inv (cf_pool cf')" by (rule make_native_found)
  from classfile_serialize_enc(1) [OF this, of mem] ok(2) have "bytes = enc_classfile cf'" by auto
  with n ok(1) that show thesis by blast
qed



end
