(* ===== verification/VM_Structs.thy ===== *)
theory VM_Structs
  imports Trampoline
begin

text \<open>
  Setting a flag of HotSpot in its memory (\<^verbatim>\<open>hook/vm_structs.c\<close>). The VM exports symbols that lead to two tables, of its types and of
  their fields; from them the table of flags is found. The memory of the process is a function from addresses to bytes, and
  the symbols are a parameter. The tables end with a null name, so the loops over them may run forever in a memory without one.
\<close>

section \<open>Memory\<close>

type_synonym memory = "u8 \<Rightarrow> u1"

definition load64 :: "memory \<Rightarrow> u8 \<Rightarrow> u8" where
  "load64 mem at = un_le (map (\<lambda>i. mem (at + of_nat i)) [0..<8])"

definition load32_nonzero :: "memory \<Rightarrow> u8 \<Rightarrow> bool" where
  "load32_nonzero mem at \<longleftrightarrow> list_ex (\<lambda>i. mem (at + of_nat i) \<noteq> 0) [0..<4]"

text \<open>\<^verbatim>\<open>strcmp\<close> of a string in memory with a known one, as far as equality goes.\<close>

fun text_is :: "memory \<Rightarrow> u8 \<Rightarrow> cstring \<Rightarrow> bool" where
  "text_is mem at [] \<longleftrightarrow> mem at = 0"
| "text_is mem at (c # cs) \<longleftrightarrow> mem at = c \<and> text_is mem (at + 1) cs"

section \<open>The tables\<close>

record vm_tables =
  g_structs :: u8
  g_types :: u8
  g_struct_type_name_offset :: u8
  g_struct_field_name_offset :: u8
  g_struct_type_string_offset :: u8
  g_struct_is_static_offset :: u8
  g_struct_offset_offset :: u8
  g_struct_address_offset :: u8
  g_struct_stride :: u8
  g_type_type_name_offset :: u8
  g_type_size_offset :: u8
  g_type_stride :: u8
  g_ready :: bool

definition vm_tables_zero :: vm_tables where
  "vm_tables_zero = \<lparr>g_structs = 0, g_types = 0, g_struct_type_name_offset = 0, g_struct_field_name_offset = 0,
     g_struct_type_string_offset = 0, g_struct_is_static_offset = 0, g_struct_offset_offset = 0, g_struct_address_offset = 0,
     g_struct_stride = 0, g_type_type_name_offset = 0, g_type_size_offset = 0, g_type_stride = 0, g_ready = False\<rparr>"

type_synonym symbols = "string \<Rightarrow> u8 option"

definition read_offset :: "symbols \<Rightarrow> memory \<Rightarrow> string \<Rightarrow> u8 option" where
  "read_offset resolve mem symbol = map_option (load64 mem) (resolve symbol)"

text \<open>The variables that follow one another in the condition; the first that is missing ends it.\<close>

fun read_offsets :: "symbols \<Rightarrow> memory \<Rightarrow> (string \<times> (u8 \<Rightarrow> vm_tables \<Rightarrow> vm_tables)) list \<Rightarrow> vm_tables \<Rightarrow> bool \<times> vm_tables" where
  "read_offsets resolve mem [] g = (True, g)"
| "read_offsets resolve mem ((symbol, assign) # rest) g =
     (case read_offset resolve mem symbol of None \<Rightarrow> (False, g) | Some v \<Rightarrow> read_offsets resolve mem rest (assign v g))"

definition offset_symbols :: "(string \<times> (u8 \<Rightarrow> vm_tables \<Rightarrow> vm_tables)) list" where
  "offset_symbols =
     [(''gHotSpotVMStructEntryTypeNameOffset'', \<lambda>v g. g\<lparr>g_struct_type_name_offset := v\<rparr>),
      (''gHotSpotVMStructEntryFieldNameOffset'', \<lambda>v g. g\<lparr>g_struct_field_name_offset := v\<rparr>),
      (''gHotSpotVMStructEntryTypeStringOffset'', \<lambda>v g. g\<lparr>g_struct_type_string_offset := v\<rparr>),
      (''gHotSpotVMStructEntryIsStaticOffset'', \<lambda>v g. g\<lparr>g_struct_is_static_offset := v\<rparr>),
      (''gHotSpotVMStructEntryOffsetOffset'', \<lambda>v g. g\<lparr>g_struct_offset_offset := v\<rparr>),
      (''gHotSpotVMStructEntryAddressOffset'', \<lambda>v g. g\<lparr>g_struct_address_offset := v\<rparr>),
      (''gHotSpotVMStructEntryArrayStride'', \<lambda>v g. g\<lparr>g_struct_stride := v\<rparr>),
      (''gHotSpotVMTypeEntryTypeNameOffset'', \<lambda>v g. g\<lparr>g_type_type_name_offset := v\<rparr>),
      (''gHotSpotVMTypeEntrySizeOffset'', \<lambda>v g. g\<lparr>g_type_size_offset := v\<rparr>),
      (''gHotSpotVMTypeEntryArrayStride'', \<lambda>v g. g\<lparr>g_type_stride := v\<rparr>)]"

definition vm_structs_init :: "symbols \<Rightarrow> memory \<Rightarrow> vm_tables \<Rightarrow> bool \<times> vm_tables" where
  "vm_structs_init resolve mem g =
     (if g_ready g then (True, g)
      else
        case (resolve ''gHotSpotVMStructs'', resolve ''gHotSpotVMTypes'') of
          (Some structs, Some types) \<Rightarrow>
            let g = g\<lparr>g_structs := load64 mem structs, g_types := load64 mem types\<rparr> in
            if g_structs g = 0 \<or> g_types g = 0 then (False, g)
            else
              (case read_offsets resolve mem offset_symbols g of
                 (False, g) \<Rightarrow> (False, g)
               | (True, g) \<Rightarrow>
                   if g_struct_stride g = 0 \<or> g_type_stride g = 0 then (False, g) else (True, g\<lparr>g_ready := True\<rparr>))
        | _ \<Rightarrow> (False, g))"

record struct_entry =
  se_type_name :: u8
  se_field_name :: u8
  se_type_string :: u8
  se_static :: bool
  se_offset :: u8
  se_address :: u8

definition read_struct_entry :: "memory \<Rightarrow> vm_tables \<Rightarrow> u8 \<Rightarrow> struct_entry" where
  "read_struct_entry mem g base =
     \<lparr>se_type_name = load64 mem (base + g_struct_type_name_offset g), se_field_name = load64 mem (base + g_struct_field_name_offset g),
      se_type_string = load64 mem (base + g_struct_type_string_offset g), se_static = load32_nonzero mem (base + g_struct_is_static_offset g),
      se_offset = load64 mem (base + g_struct_offset_offset g), se_address = load64 mem (base + g_struct_address_offset g)\<rparr>"

text \<open>The size of a type, \<open>None\<close> inside when the table has no such type.\<close>

partial_function (option) type_size_loop :: "memory \<Rightarrow> vm_tables \<Rightarrow> cstring \<Rightarrow> u8 \<Rightarrow> u8 option option" where
  "type_size_loop mem g type_name p =
     (let name = load64 mem (p + g_type_type_name_offset g) in
      if name = 0 then Some None
      else if text_is mem name type_name then Some (Some (load64 mem (p + g_type_size_offset g)))
      else type_size_loop mem g type_name (p + g_type_stride g))"

definition type_size_of :: "memory \<Rightarrow> vm_tables \<Rightarrow> cstring \<Rightarrow> u8 option option" where
  "type_size_of mem g type_name = type_size_loop mem g type_name (g_types g)"

fun find_flag_type :: "memory \<Rightarrow> vm_tables \<Rightarrow> cstring list \<Rightarrow> (cstring \<times> u8) option option" where
  "find_flag_type mem g [] = Some None"
| "find_flag_type mem g (c # cs) =
     (case type_size_of mem g c of
        None \<Rightarrow> None
      | Some (Some size_of) \<Rightarrow> if size_of \<noteq> 0 then Some (Some (c, size_of)) else find_flag_type mem g cs
      | Some None \<Rightarrow> find_flag_type mem g cs)"

definition flag_candidates :: "cstring list" where
  "flag_candidates = [cstr ''JVMFlag'', cstr ''Flag'']"

record flag_fields =
  flags_slot :: u8
  num_flags_slot :: u8
  name_offset :: "u8 option"
  addr_offset :: "u8 option"

definition note_field :: "memory \<Rightarrow> struct_entry \<Rightarrow> flag_fields \<Rightarrow> flag_fields" where
  "note_field mem e f =
     (if se_static e then
        if text_is mem (se_field_name e) (cstr ''flags'') then f\<lparr>flags_slot := se_address e\<rparr>
        else if text_is mem (se_field_name e) (cstr ''numFlags'') then f\<lparr>num_flags_slot := se_address e\<rparr>
        else f
      else
        if text_is mem (se_field_name e) (cstr ''_name'') then f\<lparr>name_offset := Some (se_offset e)\<rparr>
        else if text_is mem (se_field_name e) (cstr ''_addr'') then f\<lparr>addr_offset := Some (se_offset e)\<rparr>
        else f)"

partial_function (option) struct_loop :: "memory \<Rightarrow> vm_tables \<Rightarrow> cstring \<Rightarrow> u8 \<Rightarrow> flag_fields \<Rightarrow> flag_fields option" where
  "struct_loop mem g flag_type p f =
     (let e = read_struct_entry mem g p in
      if se_type_name e = 0 \<or> se_field_name e = 0 then Some f
      else struct_loop mem g flag_type (p + g_struct_stride g) (if text_is mem (se_type_name e) flag_type then note_field mem e f else f))"

text \<open>The scan of the flags. A \<^verbatim>\<open>bool\<close> is a byte; the result is what it was, and the memory.\<close>

fun flag_loop :: "memory \<Rightarrow> u8 \<Rightarrow> u8 \<Rightarrow> u8 \<Rightarrow> u8 \<Rightarrow> cstring \<Rightarrow> bool \<Rightarrow> nat list \<Rightarrow> bool option \<times> memory" where
  "flag_loop mem table flag_size name_at addr_at name v [] = (None, mem)"
| "flag_loop mem table flag_size name_at addr_at name v (i # is) =
     (let entry = table + of_nat i * flag_size;
          flag_name = load64 mem (entry + name_at) in
      if flag_name = 0 \<or> \<not> text_is mem flag_name name then flag_loop mem table flag_size name_at addr_at name v is
      else
        let slot = load64 mem (entry + addr_at) in
        if slot = 0 then (None, mem)
        else (Some (mem slot \<noteq> 0), mem(slot := if v then 1 else 0)))"

definition vm_structs_set_bool_flag ::
  "symbols \<Rightarrow> memory \<Rightarrow> cstring option \<Rightarrow> bool \<Rightarrow> vm_tables \<Rightarrow> ((bool option \<times> memory) \<times> vm_tables) option" where
  "vm_structs_set_bool_flag resolve mem name v g =
     (case vm_structs_init resolve mem g of
        (False, g) \<Rightarrow> Some ((None, mem), g)
      | (True, g) \<Rightarrow>
          (case name of
             None \<Rightarrow> Some ((None, mem), g)
           | Some name \<Rightarrow>
               (case find_flag_type mem g flag_candidates of
                  None \<Rightarrow> None
                | Some None \<Rightarrow> Some ((None, mem), g)
                | Some (Some (flag_type, flag_size)) \<Rightarrow>
                    (case struct_loop mem g flag_type (g_structs g) \<lparr>flags_slot = 0, num_flags_slot = 0, name_offset = None, addr_offset = None\<rparr> of
                       None \<Rightarrow> None
                     | Some f \<Rightarrow>
                         (case (name_offset f, addr_offset f) of
                            (Some name_at, Some addr_at) \<Rightarrow>
                              if flags_slot f = 0 \<or> num_flags_slot f = 0 then Some ((None, mem), g)
                              else
                                let table = load64 mem (flags_slot f);
                                    count = load64 mem (num_flags_slot f)
                                in if table = 0 \<or> count = 0 \<or> count > 100000 then Some ((None, mem), g)
                                   else Some (flag_loop mem table flag_size name_at addr_at name v [0..<unat count], g)
                          | _ \<Rightarrow> Some ((None, mem), g))))))"

section \<open>Properties\<close>

lemma type_size_returns:
  "load64 mem (p + of_nat n * g_type_stride g + g_type_type_name_offset g) = 0 \<Longrightarrow> type_size_loop mem g t p \<noteq> None"
proof (induction n arbitrary: p)
  case 0
  then show ?case by (subst type_size_loop.simps) (simp add: Let_def)
next
  case (Suc n)
  have next_entry: "p + of_nat (Suc n) * g_type_stride g = (p + g_type_stride g) + of_nat n * g_type_stride g" by (simp add: algebra_simps)
  have "type_size_loop mem g t (p + g_type_stride g) \<noteq> None" by (rule Suc.IH [OF Suc.prems [unfolded next_entry]])
  then show ?case by (subst type_size_loop.simps) (simp add: Let_def)
qed

lemma struct_loop_returns:
  "load64 mem (p + of_nat n * g_struct_stride g + g_struct_type_name_offset g) = 0 \<Longrightarrow> struct_loop mem g t p f \<noteq> None"
proof (induction n arbitrary: p f)
  case 0
  then show ?case by (subst struct_loop.simps) (simp add: Let_def read_struct_entry_def)
next
  case (Suc n)
  have next_entry: "p + of_nat (Suc n) * g_struct_stride g = (p + g_struct_stride g) + of_nat n * g_struct_stride g" by (simp add: algebra_simps)
  have "struct_loop mem g t (p + g_struct_stride g) f' \<noteq> None" for f' by (rule Suc.IH [OF Suc.prems [unfolded next_entry]])
  then show ?case by (subst struct_loop.simps) (simp add: Let_def)
qed

lemma find_flag_type_returns:
  assumes "load64 mem (g_types g + of_nat n * g_type_stride g + g_type_type_name_offset g) = 0"
  shows "find_flag_type mem g cs \<noteq> None"
proof (induction cs)
  case (Cons c cs)
  obtain r where "type_size_of mem g c = Some r" using type_size_returns [OF assms] by (auto simp: type_size_of_def)
  with Cons show ?case by (cases r) auto
qed simp

definition record_named :: "memory \<Rightarrow> u8 \<Rightarrow> cstring \<Rightarrow> bool" where
  "record_named mem name_field name \<longleftrightarrow> load64 mem name_field \<noteq> 0 \<and> text_is mem (load64 mem name_field) name"

lemma flag_loop_effect:
  "flag_loop mem table flag_size name_at addr_at name v is =
     (case find (\<lambda>i. record_named mem (table + of_nat i * flag_size + name_at) name) is of
        None \<Rightarrow> (None, mem)
      | Some i \<Rightarrow>
          let slot = load64 mem (table + of_nat i * flag_size + addr_at)
          in if slot = 0 then (None, mem) else (Some (mem slot \<noteq> 0), mem(slot := if v then 1 else 0)))"
  by (induction "is") (auto simp: record_named_def Let_def)

text \<open>Where a flag lives: the slot of the first record that has the name, in the table the VM describes.\<close>

definition flag_slot :: "memory \<Rightarrow> vm_tables \<Rightarrow> cstring \<Rightarrow> u8 \<Rightarrow> bool" where
  "flag_slot mem g name slot \<longleftrightarrow>
     (\<exists>flag_type flag_size f name_at addr_at i.
        find_flag_type mem g flag_candidates = Some (Some (flag_type, flag_size)) \<and>
        struct_loop mem g flag_type (g_structs g) \<lparr>flags_slot = 0, num_flags_slot = 0, name_offset = None, addr_offset = None\<rparr> = Some f \<and>
        name_offset f = Some name_at \<and> addr_offset f = Some addr_at \<and>
        i < unat (load64 mem (num_flags_slot f)) \<and>
        (let entry = \<lambda>i. load64 mem (flags_slot f) + of_nat i * flag_size in
         record_named mem (entry i + name_at) name \<and> (\<forall>j<i. \<not> record_named mem (entry j + name_at) name) \<and>
         slot = load64 mem (entry i + addr_at)))"

text \<open>
  C38: in a memory whose two tables end, setting a flag always returns. Either it reports that the flag was not found and the memory
  is as it was, or exactly one byte changed: the one the first record of that name points to, which now has
  the new value and whose old value is reported.\<close>

theorem set_bool_flag_effect:
  assumes "g_ready g"
    and "load64 mem (g_types g + of_nat n * g_type_stride g + g_type_type_name_offset g) = 0"
    and "load64 mem (g_structs g + of_nat m * g_struct_stride g + g_struct_type_name_offset g) = 0"
  shows "\<exists>r mem'. vm_structs_set_bool_flag resolve mem (Some name) v g = Some ((r, mem'), g) \<and>
    (case r of
       None \<Rightarrow> mem' = mem
     | Some previous \<Rightarrow> \<exists>slot. slot \<noteq> 0 \<and> flag_slot mem g name slot \<and> previous = (mem slot \<noteq> 0) \<and> mem' = mem(slot := if v then 1 else 0))"
proof -
  let ?zero = "\<lparr>flags_slot = 0, num_flags_slot = 0, name_offset = None, addr_offset = None\<rparr>"
  have init: "vm_structs_init resolve mem g = (True, g)" using assms(1) by (simp add: vm_structs_init_def)
  obtain t where t: "find_flag_type mem g flag_candidates = Some t" using find_flag_type_returns [OF assms(2)] by blast
  show ?thesis
  proof (cases t)
    case None
    with init t show ?thesis by (simp add: vm_structs_set_bool_flag_def)
  next
    case (Some ts)
    obtain flag_type flag_size where ts: "ts = (flag_type, flag_size)" by fastforce
    obtain f where f: "struct_loop mem g flag_type (g_structs g) ?zero = Some f" using struct_loop_returns [OF assms(3)] by blast
    let ?table = "load64 mem (flags_slot f)" and ?count = "load64 mem (num_flags_slot f)"
    show ?thesis
    proof (cases "flags_slot f = 0 \<or> num_flags_slot f = 0 \<or> name_offset f = None \<or> addr_offset f = None \<or>
        ?table = 0 \<or> ?count = 0 \<or> ?count > 100000")
      case True
      then have "vm_structs_set_bool_flag resolve mem (Some name) v g = Some ((None, mem), g)"
        using init t Some ts f by (auto simp: vm_structs_set_bool_flag_def Let_def split: option.split)
      then show ?thesis by simp
    next
      case False
      then obtain name_at addr_at where o: "name_offset f = Some name_at" "addr_offset f = Some addr_at" by auto
      let ?P = "\<lambda>i. record_named mem (?table + of_nat i * flag_size + name_at) name"
      have eq: "vm_structs_set_bool_flag resolve mem (Some name) v g = Some (flag_loop mem ?table flag_size name_at addr_at name v [0..<unat ?count], g)"
        using init t Some ts f False o by (simp add: vm_structs_set_bool_flag_def Let_def)
      show ?thesis
      proof (cases "find ?P [0..<unat ?count]")
        case None
        then show ?thesis by (simp add: eq flag_loop_effect)
      next
        case found: (Some i)
        then have i: "i < unat ?count" "?P i" "\<forall>j<i. \<not> ?P j" by (auto simp: find_Some_iff)
        then have "flag_slot mem g name (load64 mem (?table + of_nat i * flag_size + addr_at))"
          unfolding flag_slot_def Let_def using t Some ts f o by blast
        then show ?thesis by (auto simp: eq flag_loop_effect found Let_def)
      qed
    qed
  qed
qed

declare type_size_loop.simps [code] struct_loop.simps [code]

text \<open>
  A small memory, given by its words of eight bytes: from \<open>0x100\<close> the table with the one type, from \<open>0x200\<close> the texts
  \<^verbatim>\<open>JVMFlag\<close>, \<^verbatim>\<open>flags\<close>, \<^verbatim>\<open>numFlags\<close>, \<^verbatim>\<open>_name\<close> and \<^verbatim>\<open>_addr\<close>, from \<open>0x300\<close> the four fields, at \<open>0x600\<close> the one
  flag, at \<open>0x700\<close> its name and at \<open>0x800\<close> its value.\<close>

definition hotspot_word :: "u8 \<Rightarrow> u8" where
  "hotspot_word i =
    (if i < 0x66 then
       if i < 0x48 then
         if i < 0x42 then
           if i < 0x21 then
             if i = 0x20 then 0x200 else 0
           else
             if i = 0x21 then 0x10 else if i = 0x40 then 0x67616c464d564a else 0
         else
           if i < 0x44 then
             if i = 0x42 then 0x7367616c66 else 0
           else
             if i = 0x44 then 0x7367616c466d756e else if i = 0x46 then 0x656d616e5f else 0
       else
         if i < 0x62 then
           if i < 0x60 then
             if i = 0x48 then 0x726464615f else 0
           else
             if i = 0x60 then 0x200 else if i = 0x61 then 0x210 else 0
         else
           if i < 0x64 then
             if i = 0x62 then 0x1 else 0
           else
             if i = 0x64 then 0x500 else if i = 0x65 then 0x200 else 0
     else
       if i < 0x70 then
         if i < 0x6a then
           if i < 0x67 then
             if i = 0x66 then 0x220 else 0
           else
             if i = 0x67 then 0x1 else if i = 0x69 then 0x508 else 0
         else
           if i < 0x6b then
             if i = 0x6a then 0x200 else 0
           else
             if i = 0x6b then 0x230 else if i = 0x6f then 0x200 else 0
       else
         if i < 0xa1 then
           if i < 0x72 then
             if i = 0x70 then 0x240 else 0
           else
             if i = 0x72 then 0x8 else if i = 0xa0 then 0x600 else 0
         else
           if i < 0xc1 then
             if i = 0xa1 then 0x1 else if i = 0xc0 then 0x700 else 0
           else
             if i = 0xc1 then 0x800 else if i = 0xe0 then 0x776f6c6c41 else 0)"

definition hotspot_memory :: memory where
  "hotspot_memory at = ucast (drop_bit (8 * unat (at AND 7)) (hotspot_word (drop_bit 3 at)))"

definition hotspot_tables :: vm_tables where
  "hotspot_tables = \<lparr>g_structs = 0x300, g_types = 0x100, g_struct_type_name_offset = 0, g_struct_field_name_offset = 8,
     g_struct_type_string_offset = 0, g_struct_is_static_offset = 16, g_struct_offset_offset = 24, g_struct_address_offset = 32,
     g_struct_stride = 40, g_type_type_name_offset = 0, g_type_size_offset = 8, g_type_stride = 16, g_ready = True\<rparr>"

theorem set_bool_flag_effect_witness:
  "\<exists>mem'. vm_structs_set_bool_flag (\<lambda>_. None) hotspot_memory (Some (cstr ''Allow'')) True hotspot_tables = Some ((Some False, mem'), hotspot_tables) \<and>
     (\<exists>slot. slot \<noteq> 0 \<and> mem' = hotspot_memory(slot := 1))"
proof -
  have ends: "g_ready hotspot_tables"
    "load64 hotspot_memory (g_types hotspot_tables + of_nat 1 * g_type_stride hotspot_tables + g_type_type_name_offset hotspot_tables) = 0"
    "load64 hotspot_memory (g_structs hotspot_tables + of_nat 4 * g_struct_stride hotspot_tables + g_struct_type_name_offset hotspot_tables) = 0"
    by code_simp+
  let ?r = "vm_structs_set_bool_flag (\<lambda>_. None) hotspot_memory (Some (cstr ''Allow'')) True hotspot_tables"
  have "map_option (fst \<circ> fst) ?r = Some (Some False)" by code_simp
  with set_bool_flag_effect [OF ends, of "\<lambda>_. None" "cstr ''Allow''" True] show ?thesis by (auto split: option.splits)
qed

end
